(* ===== verification/Photon_Prelude.thy ===== *)
theory Photon_Prelude
  imports Complex_Main "HOL-Library.AList" "HOL-Library.Sublist"
begin

text \<open>
  What the components share: the types the Python code uses everywhere (timestamps, insertion
  ordered dictionaries, JSON values), the list idioms it repeats (search, slicing from the
  end, counting), decimal rendering, and two interfaces stated once as locales: a dictionary,
  and a state machine whose operations keep an invariant.
\<close>

named_theorems frame_simps "fields an operation leaves alone"
named_theorems wf_intros "operations keep their component's invariant"

subsection \<open>Types\<close>

text \<open>
  \<open>time.time()\<close> readings and durations are rationals: every finite float is one. Arithmetic on
  them is exact (the rounding of float addition and subtraction is not modelled). Python
  integers are \<open>int\<close>, strings are character lists.
\<close>

type_synonym time = rat

text \<open>A Python dictionary is an association list in insertion order with distinct keys.\<close>

type_synonym ('k, 'v) dict = "('k \<times> 'v) list"

definition wf_dict :: "('k, 'v) dict \<Rightarrow> bool" where
  "wf_dict d \<longleftrightarrow> distinct (map fst d)"

abbreviation dget :: "('k, 'v) dict \<Rightarrow> 'k \<Rightarrow> 'v option" where
  "dget \<equiv> map_of"

abbreviation dset :: "'k \<Rightarrow> 'v \<Rightarrow> ('k, 'v) dict \<Rightarrow> ('k, 'v) dict" where
  "dset \<equiv> AList.update"

abbreviation ddel :: "'k \<Rightarrow> ('k, 'v) dict \<Rightarrow> ('k, 'v) dict" where
  "ddel \<equiv> AList.delete"

definition keys :: "('k, 'v) dict \<Rightarrow> 'k list" where
  "keys d = map fst d"

definition vals :: "('k, 'v) dict \<Rightarrow> 'v list" where
  "vals d = map snd d"

text \<open>\<open>d.get(k, default)\<close>.\<close>

definition dget_or :: "('k, 'v) dict \<Rightarrow> 'k \<Rightarrow> 'v \<Rightarrow> 'v" where
  "dget_or d k v = (case dget d k of None \<Rightarrow> v | Some w \<Rightarrow> w)"

text \<open>\<open>d[k] = d.get(k, 0) + 1\<close>.\<close>

definition bump :: "'k \<Rightarrow> ('k, int) dict \<Rightarrow> ('k, int) dict" where
  "bump k d = dset k (dget_or d k 0 + 1) d"

text \<open>The exceptions the modelled code raises or lets through.\<close>

datatype exc = KeyError | IndexError | ValueError | TypeError | AttributeError | RuntimeError | OSError | ZeroDivisionError

text \<open>Sequencing of calls that may raise.\<close>

fun ebind :: "'e + 'a \<Rightarrow> ('a \<Rightarrow> 'e + 'b) \<Rightarrow> 'e + 'b" where
  "ebind (Inl e) f = Inl e"
| "ebind (Inr x) f = f x"

text \<open>A key that must be present, and an enumeration's member with a given value.\<close>

definition need_key :: "'a option \<Rightarrow> exc + 'a" where
  "need_key x = (case x of None \<Rightarrow> Inl KeyError | Some v \<Rightarrow> Inr v)"

definition enum_of :: "('a \<Rightarrow> string) \<Rightarrow> 'a list \<Rightarrow> string \<Rightarrow> exc + 'a" where
  "enum_of val xs v = (case find (\<lambda>x. val x = v) xs of None \<Rightarrow> Inl ValueError | Some x \<Rightarrow> Inr x)"

fun emap :: "('a \<Rightarrow> 'e + 'b) \<Rightarrow> 'a list \<Rightarrow> 'e + 'b list" where
  "emap f [] = Inr []"
| "emap f (x # xs) = ebind (f x) (\<lambda>y. ebind (emap f xs) (\<lambda>ys. Inr (y # ys)))"

text \<open>\<open>int(x)\<close> truncates towards zero.\<close>

definition py_int :: "rat \<Rightarrow> int" where
  "py_int x = (if x < 0 then \<lceil>x\<rceil> else \<lfloor>x\<rfloor>)"

text \<open>What a path of the file system holds: nothing, text that is not JSON, or a document.\<close>

datatype 'a disk_file = No_File | Corrupt | Doc 'a

text \<open>JSON values, as \<open>json.load\<close> returns them.\<close>

datatype json = JNull | JBool bool | JInt int | JFloat rat | JStr string
  | JList "json list" | JObj "(string \<times> json) list"

text \<open>The number a JSON value is in comparisons and arithmetic; a Boolean is an integer.\<close>

fun num_of :: "json \<Rightarrow> rat option" where
  "num_of (JInt i) = Some (of_int i)"
| "num_of (JFloat r) = Some r"
| "num_of (JBool b) = Some (if b then 1 else 0)"
| "num_of _ = None"

text \<open>Truth value of a JSON value.\<close>

fun truthy :: "json \<Rightarrow> bool" where
  "truthy JNull = False"
| "truthy (JBool b) = b"
| "truthy (JInt i) = (i \<noteq> 0)"
| "truthy (JFloat r) = (r \<noteq> 0)"
| "truthy (JStr s) = (s \<noteq> [])"
| "truthy (JList xs) = (xs \<noteq> [])"
| "truthy (JObj d) = (d \<noteq> [])"

text \<open>Equality of JSON values as Python compares them: numbers and Booleans by value.\<close>

function py_eq :: "json \<Rightarrow> json \<Rightarrow> bool" where
  "py_eq a b =
     (case (a, b) of
        (JList xs, JList ys) \<Rightarrow> length xs = length ys \<and> (\<forall>p\<in>set (zip xs ys). py_eq (fst p) (snd p))
      | (JObj d, JObj e) \<Rightarrow> length d = length e \<and>
          (\<forall>p\<in>set d. case dget e (fst p) of None \<Rightarrow> False | Some w \<Rightarrow> py_eq (snd p) w)
      | _ \<Rightarrow> (case (num_of a, num_of b) of (Some x, Some y) \<Rightarrow> x = y | _ \<Rightarrow> a = b))"
  by pat_completeness auto
termination
  by (relation "measure (\<lambda>(a, b). size a)")
    (auto simp: less_Suc_eq_le dest!: set_zip_leftD intro!: size_list_estimation' trans_le_add1 le_SucI)

declare py_eq.simps [simp del]

text \<open>A value in an f-string, where \<open>str_of\<close> stands for \<open>str\<close> on what is not a string.\<close>

definition fstr :: "(json \<Rightarrow> string) \<Rightarrow> json \<Rightarrow> string" where
  "fstr str_of v = (case v of JStr x \<Rightarrow> x | _ \<Rightarrow> str_of v)"

text \<open>Rounding to the nearest integer, ties to even, and \<open>round(x, n)\<close>.\<close>

definition half_even :: "rat \<Rightarrow> int" where
  "half_even x = (let f = \<lfloor>x\<rfloor>; d = x - of_int f
     in if d < 1 / 2 then f else if d > 1 / 2 then f + 1 else if even f then f else f + 1)"

definition round_to :: "nat \<Rightarrow> rat \<Rightarrow> rat" where
  "round_to n x = of_int (half_even (x * 10 ^ n)) / 10 ^ n"

lemma half_even_of_int [simp]: "half_even (of_int i) = i"
  by (simp add: half_even_def)

lemma half_even_le: "x \<le> of_int i \<Longrightarrow> half_even x \<le> i"
proof -
  assume x: "x \<le> of_int i"
  show ?thesis
  proof (cases "x = of_int i")
    case False
    then have "\<lfloor>x\<rfloor> < i" using x by (simp add: floor_less_iff)
    then show ?thesis by (simp add: half_even_def Let_def)
  qed simp
qed

lemma half_even_ge:
  assumes "of_int i \<le> x"
  shows "i \<le> half_even x"
proof -
  have "i \<le> \<lfloor>x\<rfloor>" using assms by (simp add: le_floor_iff)
  then show ?thesis by (auto simp: half_even_def Let_def)
qed

text \<open>An optional string is used when it is present and not empty.\<close>

definition get_default :: "'a option \<Rightarrow> 'a \<Rightarrow> 'a" where
  "get_default x d = (case x of None \<Rightarrow> d | Some v \<Rightarrow> v)"

definition str_or_none :: "string option \<Rightarrow> string option" where
  "str_or_none x = (case x of Some [] \<Rightarrow> None | y \<Rightarrow> y)"

subsection \<open>State machines\<close>

text \<open>
  A component is a state, a set of initial states and a step function on its operations. The
  reachable states are those a run of operations leads to.
\<close>

inductive reachable :: "('s \<Rightarrow> bool) \<Rightarrow> ('e \<Rightarrow> 's \<Rightarrow> 's) \<Rightarrow> 's \<Rightarrow> bool"
  for init :: "'s \<Rightarrow> bool" and step :: "'e \<Rightarrow> 's \<Rightarrow> 's" where
  reach_init: "init s \<Longrightarrow> reachable init step s"
| reach_step: "reachable init step s \<Longrightarrow> reachable init step (step e s)"

lemma reachable_run: "reachable init step s \<Longrightarrow> reachable init step (fold step es s)"
  by (induction es arbitrary: s) (auto intro: reach_step)

locale machine =
  fixes init :: "'s \<Rightarrow> bool" and step :: "'e \<Rightarrow> 's \<Rightarrow> 's" and inv :: "'s \<Rightarrow> bool"
  assumes inv_init: "init s \<Longrightarrow> inv s"
    and inv_step: "inv s \<Longrightarrow> inv (step e s)"
begin

lemma inv_run: "inv s \<Longrightarrow> inv (fold step es s)"
  by (induction es arbitrary: s) (auto intro: inv_step)

lemma inv_reachable: "reachable init step s \<Longrightarrow> inv s"
  by (induction rule: reachable.induct) (auto intro: inv_init inv_step)

end

subsection \<open>Dictionary laws\<close>

text \<open>The interface of a dictionary, as the components use it.\<close>

locale dictionary =
  fixes get :: "'d \<Rightarrow> 'k \<Rightarrow> 'v option"
    and put :: "'k \<Rightarrow> 'v \<Rightarrow> 'd \<Rightarrow> 'd"
    and del :: "'k \<Rightarrow> 'd \<Rightarrow> 'd"
    and ok :: "'d \<Rightarrow> bool"
  assumes get_put: "get (put k v d) k' = (if k' = k then Some v else get d k')"
    and get_del: "get (del k d) k' = (if k' = k then None else get d k')"
    and ok_put: "ok d \<Longrightarrow> ok (put k v d)"
    and ok_del: "ok d \<Longrightarrow> ok (del k d)"
begin

lemma get_put_same [simp]: "get (put k v d) k = Some v"
  by (simp add: get_put)

lemma get_put_other: "k' \<noteq> k \<Longrightarrow> get (put k v d) k' = get d k'"
  by (simp add: get_put)

lemma get_put_put: "get (put k w (put k v d)) k' = get (put k w d) k'"
  by (simp add: get_put)

lemma get_del_put: "get (del k (put k v d)) k' = get (del k d) k'"
  by (simp add: get_put get_del)

lemma all_put: "(\<forall>k w. get d k = Some w \<longrightarrow> P k w) \<Longrightarrow> P k v \<Longrightarrow> get (put k v d) k' = Some w \<Longrightarrow> P k' w"
  by (simp add: get_put split: if_splits)

end

lemma dget_dset: "dget (dset k v d) k' = (if k' = k then Some v else dget d k')"
  by (auto simp: update_conv')

lemma dget_ddel: "dget (ddel k d) k' = (if k' = k then None else dget d k')"
  by (auto simp: delete_conv')

lemma wf_dict_Nil [simp]: "wf_dict []"
  by (simp add: wf_dict_def)

lemma wf_dict_dset [simp]: "wf_dict d \<Longrightarrow> wf_dict (dset k v d)"
  by (simp add: wf_dict_def distinct_update)

lemma wf_dict_ddel [simp]: "wf_dict d \<Longrightarrow> wf_dict (ddel k d)"
  by (simp add: wf_dict_def distinct_delete)

interpretation py: dictionary dget dset ddel wf_dict
  by unfold_locales (simp_all add: dget_dset dget_ddel)

lemma keys_dset_old: "dget d k \<noteq> None \<Longrightarrow> keys (dset k v d) = keys d"
  by (induction d) (auto simp: keys_def)

lemma keys_dset_new: "dget d k = None \<Longrightarrow> keys (dset k v d) = keys d @ [k]"
  by (induction d) (auto simp: keys_def split: if_splits)

lemma dset_new: "dget d k = None \<Longrightarrow> dset k v d = d @ [(k, v)]"
  by (induction d) (auto split: if_splits)

lemma update_update_same [simp]: "dset k w (dset k v d) = dset k w d"
  by (induction d) auto

lemma set_vals_iff: "wf_dict d \<Longrightarrow> v \<in> set (vals d) \<longleftrightarrow> (\<exists>k. dget d k = Some v)"
  by (force simp: wf_dict_def vals_def)

lemma mem_dict_iff: "wf_dict d \<Longrightarrow> (k, v) \<in> set d \<longleftrightarrow> dget d k = Some v"
  by (simp add: wf_dict_def map_of_eq_Some_iff)

lemma dget_map_vals: "dget (map (\<lambda>(k, v). (k, f k v)) d) k = map_option (f k) (dget d k)"
  by (induction d) auto

lemma wf_dict_map_vals [simp]: "wf_dict (map (\<lambda>(k, v). (k, f k v)) d) = wf_dict d"
  by (simp add: wf_dict_def case_prod_unfold comp_def)

lemma dget_bump: "dget_or (bump k d) k' 0 = dget_or d k' 0 + (if k' = k then 1 else 0)"
  by (simp add: bump_def dget_or_def dget_dset)

lemma wf_dict_bump [simp]: "wf_dict d \<Longrightarrow> wf_dict (bump k d)"
  by (simp add: bump_def)

lemma sum_vals_bump: "sum_list (vals (bump k d)) = sum_list (vals d) + 1"
  by (induction d) (auto simp: bump_def dget_or_def vals_def)

text \<open>Counting by bumping is counting.\<close>

lemma fold_bump_counts:
  "dget_or (fold (\<lambda>x d. bump (f x) d) xs d) k 0 = dget_or d k 0 + int (length (filter (\<lambda>x. f x = k) xs))"
  by (induction xs arbitrary: d) (auto simp: dget_bump)

subsection \<open>Searching and slicing lists\<close>

text \<open>The index of the first (or last) element with a property.\<close>

fun find_index :: "('a \<Rightarrow> bool) \<Rightarrow> 'a list \<Rightarrow> nat option" where
  "find_index P [] = None"
| "find_index P (x # xs) = (if P x then Some 0 else map_option Suc (find_index P xs))"

definition find_last_index :: "('a \<Rightarrow> bool) \<Rightarrow> 'a list \<Rightarrow> nat option" where
  "find_last_index P xs = map_option (\<lambda>i. length xs - 1 - i) (find_index P (rev xs))"

lemma find_index_None: "find_index P xs = None \<longleftrightarrow> (\<forall>x\<in>set xs. \<not> P x)"
  by (induction xs) auto

lemma find_index_Some:
  "find_index P xs = Some i \<longleftrightarrow> i < length xs \<and> P (xs ! i) \<and> (\<forall>j<i. \<not> P (xs ! j))"
proof (induction xs arbitrary: i)
  case Nil
  then show ?case by simp
next
  case (Cons x xs)
  show ?case
    by (cases i) (auto simp: Cons.IH less_Suc_eq_0_disj)
qed

lemma find_filter: "find P xs = (case filter P xs of [] \<Rightarrow> None | x # _ \<Rightarrow> Some x)"
  by (induction xs) auto

lemma find_last_index_None: "find_last_index P xs = None \<longleftrightarrow> (\<forall>x\<in>set xs. \<not> P x)"
  by (simp add: find_last_index_def find_index_None)

lemma find_last_index_SomeD:
  assumes "find_last_index P xs = Some i"
  shows "i < length xs" and "P (xs ! i)" and "\<And>j. i < j \<Longrightarrow> j < length xs \<Longrightarrow> \<not> P (xs ! j)"
proof -
  obtain k where k: "find_index P (rev xs) = Some k" and i: "i = length xs - 1 - k"
    using assms by (auto simp: find_last_index_def)
  have kl: "k < length xs" and Pk: "P (rev xs ! k)" and least: "\<forall>j<k. \<not> P (rev xs ! j)"
    using k by (auto simp: find_index_Some)
  show "i < length xs" using kl i by simp
  show "P (xs ! i)" using Pk kl i by (simp add: rev_nth)
  fix j assume "i < j" and jl: "j < length xs"
  then have "length xs - 1 - j < k" using i kl by linarith
  then have "\<not> P (rev xs ! (length xs - 1 - j))" using least by blast
  then show "\<not> P (xs ! j)" using jl by (simp add: rev_nth)
qed

lemma find_index_append:
  "find_index P (xs @ ys) =
     (case find_index P xs of Some i \<Rightarrow> Some i | None \<Rightarrow> map_option (\<lambda>i. length xs + i) (find_index P ys))"
  by (cases "find_index P ys") (induction xs; auto split: option.splits)+

lemma find_last_index_Nil [simp]: "find_last_index P [] = None"
  by (simp add: find_last_index_def)

lemma find_last_index_Cons:
  "find_last_index P (x # xs) =
     (case find_last_index P xs of Some i \<Rightarrow> Some (Suc i) | None \<Rightarrow> if P x then Some 0 else None)"
proof (cases "find_index P (rev xs)")
  case None
  then show ?thesis by (simp add: find_last_index_def find_index_append)
next
  case (Some i)
  then have "i < length xs" by (simp add: find_index_Some)
  with Some show ?thesis by (simp add: find_last_index_def find_index_append)
qed

text \<open>\<open>xs[-n:]\<close>, which is all of \<open>xs\<close> when \<open>n\<close> is 0.\<close>

definition last_n :: "nat \<Rightarrow> 'a list \<Rightarrow> 'a list" where
  "last_n n xs = (if n = 0 then xs else drop (length xs - n) xs)"

lemma length_last_n: "0 < n \<Longrightarrow> length (last_n n xs) = min n (length xs)"
  by (simp add: last_n_def)

lemma set_last_n: "set (last_n n xs) \<subseteq> set xs"
  by (auto simp: last_n_def dest: in_set_dropD)

lemma last_n_all: "length xs \<le> n \<Longrightarrow> last_n n xs = xs"
  by (simp add: last_n_def)

lemma last_last_n: "xs \<noteq> [] \<Longrightarrow> last (last_n n xs) = last xs"
  by (cases "n = 0") (simp_all add: last_n_def)

text \<open>Append, and keep the newest \<open>n\<close>: \<open>deque(maxlen=n)\<close>, and the lists cut after an append.\<close>

definition push_last :: "nat \<Rightarrow> 'a \<Rightarrow> 'a list \<Rightarrow> 'a list" where
  "push_last n x xs = drop (length xs + 1 - n) (xs @ [x])"

lemma length_push_last: "length (push_last n x xs) = min n (length xs + 1)"
  by (auto simp: push_last_def)

lemma set_push_last: "set (push_last n x xs) \<subseteq> insert x (set xs)"
  by (auto simp: push_last_def dest: in_set_dropD)

lemma last_push_last: "0 < n \<Longrightarrow> push_last n x xs \<noteq> [] \<and> last (push_last n x xs) = x"
  by (auto simp: push_last_def)

definition count :: "('a \<Rightarrow> bool) \<Rightarrow> 'a list \<Rightarrow> int" where
  "count P xs = int (length (filter P xs))"

lemma count_nonneg [simp]: "0 \<le> count P xs"
  by (simp add: count_def)

lemma count_simps [simp]:
  "count P [] = 0" "count P (x # xs) = (if P x then 1 else 0) + count P xs"
  "count P (xs @ ys) = count P xs + count P ys"
  by (simp_all add: count_def)

lemma count_pos: "0 < count P xs \<longleftrightarrow> (\<exists>x\<in>set xs. P x)"
  by (auto simp: count_def filter_empty_conv)

lemma count_le: "count P xs \<le> int (length xs)"
  by (simp add: count_def)

text \<open>\<open>max(xs, key=...)\<close> takes the first of the best.\<close>

fun first_best :: "('a \<Rightarrow> rat) \<Rightarrow> 'a list \<Rightarrow> 'a option" where
  "first_best f [] = None"
| "first_best f (x # xs) = (case first_best f xs of None \<Rightarrow> Some x | Some y \<Rightarrow> if f y > f x then Some y else Some x)"

lemma first_best_None: "first_best f xs = None \<longleftrightarrow> xs = []"
  by (cases xs) (auto split: option.split)

lemma first_best_Some: "first_best f xs = Some x \<Longrightarrow> x \<in> set xs \<and> (\<forall>y\<in>set xs. f y \<le> f x)"
proof (induction xs arbitrary: x)
  case (Cons z xs)
  then show ?case by (cases "first_best f xs") (auto simp: first_best_None split: if_splits)
qed simp

text \<open>\<open>sorted(xs, key=..., reverse=True)\<close>, which is stable.\<close>

definition sort_desc :: "('a \<Rightarrow> rat) \<Rightarrow> 'a list \<Rightarrow> 'a list" where
  "sort_desc f xs = sort_key (\<lambda>x. - f x) xs"

lemma set_sort_desc [simp]: "set (sort_desc f xs) = set xs"
  by (simp add: sort_desc_def)

lemma length_sort_desc [simp]: "length (sort_desc f xs) = length xs"
  by (simp add: sort_desc_def)

lemma sort_desc_Nil [simp]: "sort_desc f [] = []"
  by (simp add: sort_desc_def)

lemma sort_desc_head:
  assumes "xs \<noteq> []"
  shows "\<forall>y\<in>set xs. f y \<le> f (hd (sort_desc f xs))"
proof
  fix y assume "y \<in> set xs"
  let ?s = "sort_desc f xs"
  have "?s \<noteq> []" using assms by (metis length_0_conv length_sort_desc)
  then obtain h t where ht: "?s = h # t" by (cases ?s) auto
  have "sorted (map (\<lambda>x. - f x) ?s)" by (simp add: sort_desc_def)
  then have "\<forall>z\<in>set t. f z \<le> f h" by (simp add: ht)
  moreover have "y \<in> set (h # t)" using \<open>y \<in> set xs\<close> set_sort_desc [of f xs] unfolding ht by simp
  ultimately show "f y \<le> f (hd ?s)" by (auto simp: ht)
qed

text \<open>Every element that the first \<open>n\<close> leave out is at most as good as each of them.\<close>

lemma sort_desc_take_drop:
  "x \<in> set (take n (sort_desc f xs)) \<Longrightarrow> y \<in> set (drop n (sort_desc f xs)) \<Longrightarrow> f y \<le> f x"
proof -
  have "sorted (map (\<lambda>x. - f x) (take n (sort_desc f xs) @ drop n (sort_desc f xs)))" by (simp add: sort_desc_def)
  then show "x \<in> set (take n (sort_desc f xs)) \<Longrightarrow> y \<in> set (drop n (sort_desc f xs)) \<Longrightarrow> f y \<le> f x"
    unfolding map_append sorted_append by force
qed

text \<open>\<open>random.sample(xs, m)\<close>: the elements at distinct positions, which are the argument.\<close>

definition sample :: "nat list \<Rightarrow> nat \<Rightarrow> 'a list \<Rightarrow> 'a list" where
  "sample ds m xs = map (nth xs) (if length ds = m \<and> distinct ds \<and> list_all (\<lambda>i. i < length xs) ds then ds else [0..<m])"

lemma length_sample [simp]: "length (sample ds m xs) = m"
  by (simp add: sample_def)

lemma set_sample: "m \<le> length xs \<Longrightarrow> set (sample ds m xs) \<subseteq> set xs"
  by (auto simp: sample_def list_all_iff)

text \<open>\<open>random.choice(xs)\<close> by any number, and \<open>random.random()\<close> from any rational.\<close>

definition pick_at :: "nat \<Rightarrow> 'a list \<Rightarrow> 'a" where
  "pick_at k xs = xs ! (k mod length xs)"

definition draw :: "rat \<Rightarrow> rat" where
  "draw u = u - of_int \<lfloor>u\<rfloor>"

lemma pick_at_mem: "xs \<noteq> [] \<Longrightarrow> pick_at k xs \<in> set xs"
  by (simp add: pick_at_def)

lemma draw_bounds: "0 \<le> draw u" "draw u < 1"
  by (simp_all add: draw_def) linarith

definition uniform :: "rat \<Rightarrow> rat \<Rightarrow> rat \<Rightarrow> rat" where
  "uniform a b u = a + (b - a) * draw u"

text \<open>Joining a list of strings: \<open>sep.join(xs)\<close>; and membership \<open>sub in s\<close>.\<close>

fun join :: "string \<Rightarrow> string list \<Rightarrow> string" where
  "join sep [] = []"
| "join sep [x] = x"
| "join sep (x # xs) = x @ sep @ join sep xs"

abbreviation contains :: "'a list \<Rightarrow> 'a list \<Rightarrow> bool" where
  "contains sub s \<equiv> sublist sub s"

subsection \<open>Lower case and decimal rendering\<close>

definition lower_char :: "char \<Rightarrow> char" where
  "lower_char c = (let n = of_char c :: nat in if 65 \<le> n \<and> n \<le> 90 then char_of (n + 32) else c)"

definition lower :: "string \<Rightarrow> string" where
  "lower s = map lower_char s"

fun dec_nat :: "nat \<Rightarrow> string" where
  "dec_nat n = (if n < 10 then [char_of (48 + n)] else dec_nat (n div 10) @ [char_of (48 + n mod 10)])"

declare dec_nat.simps [simp del]

definition dec_int :: "int \<Rightarrow> string" where
  "dec_int i = (if i < 0 then CHR ''-'' # dec_nat (nat (- i)) else dec_nat (nat i))"

text \<open>Reading decimal digits back, which shows that the rendering is injective.\<close>

definition undec :: "string \<Rightarrow> nat" where
  "undec s = fold (\<lambda>c n. 10 * n + (of_char c - 48)) s 0"

lemma undec_dec_nat [simp]: "undec (dec_nat n) = n"
proof (induction n rule: dec_nat.induct)
  case (1 n)
  show ?case
  proof (cases "n < 10")
    case True
    then show ?thesis by (simp add: dec_nat.simps undec_def)
  next
    case False
    then show ?thesis using 1 by (subst dec_nat.simps) (simp add: undec_def)
  qed
qed

lemma dec_nat_inj [simp]: "dec_nat m = dec_nat n \<longleftrightarrow> m = n"
  by (metis undec_dec_nat)

text \<open>\<open>f"{n:06d}"\<close>, for any width.\<close>

definition pad_dec :: "nat \<Rightarrow> nat \<Rightarrow> string" where
  "pad_dec w n = replicate (w - length (dec_nat n)) CHR ''0'' @ dec_nat n"

lemma undec_zeros: "undec (replicate k CHR ''0'' @ s) = undec s"
  by (induction k) (simp_all add: undec_def)

lemma pad_dec_inj [simp]: "pad_dec w m = pad_dec w n \<longleftrightarrow> m = n"
  by (metis pad_dec_def undec_dec_nat undec_zeros)

end
