(* ===== verification/Rule_Store.thy ===== *)
theory Rule_Store
  imports Photon_Prelude
begin

text \<open>
  \<open>evolution/defense_rule_persistence.py\<close>: versioned defence rules, a circuit breaker per
  version, rollback to an earlier version, and the state file. A version object is shared
  between the list of its rule and the table of active versions, so the table holds its
  position in the list. Every operation takes the clock reading \<open>now\<close>.
\<close>

subsection \<open>Data\<close>

datatype rule_state = RS_DRAFT | RS_PENDING | RS_DEPLOYED | RS_MONITORING | RS_ACTIVE
  | RS_CIRCUIT_BROKEN | RS_ROLLED_BACK | RS_DEPRECATED

datatype rule_circuit = RC_CLOSED | RC_OPEN | RC_HALF_OPEN

fun rule_state_value :: "rule_state \<Rightarrow> string" where
  "rule_state_value RS_DRAFT = ''draft''"
| "rule_state_value RS_PENDING = ''pending''"
| "rule_state_value RS_DEPLOYED = ''deployed''"
| "rule_state_value RS_MONITORING = ''monitoring''"
| "rule_state_value RS_ACTIVE = ''active''"
| "rule_state_value RS_CIRCUIT_BROKEN = ''broken''"
| "rule_state_value RS_ROLLED_BACK = ''rolled_back''"
| "rule_state_value RS_DEPRECATED = ''deprecated''"

fun rule_circuit_value :: "rule_circuit \<Rightarrow> string" where
  "rule_circuit_value RC_CLOSED = ''closed''"
| "rule_circuit_value RC_OPEN = ''open''"
| "rule_circuit_value RC_HALF_OPEN = ''half_open''"

text \<open>\<open>RuleState(value)\<close> and \<open>CircuitBreakerState(value)\<close>: \<open>None\<close> is the \<open>ValueError\<close>.\<close>

definition rule_state_of :: "string \<Rightarrow> rule_state option" where
  "rule_state_of x = find (\<lambda>st. rule_state_value st = x)
     [RS_DRAFT, RS_PENDING, RS_DEPLOYED, RS_MONITORING, RS_ACTIVE, RS_CIRCUIT_BROKEN,
      RS_ROLLED_BACK, RS_DEPRECATED]"

definition rule_circuit_of :: "string \<Rightarrow> rule_circuit option" where
  "rule_circuit_of x = find (\<lambda>st. rule_circuit_value st = x) [RC_CLOSED, RC_OPEN, RC_HALF_OPEN]"

lemma rule_state_of_value [simp]: "rule_state_of (rule_state_value st) = Some st"
  by (cases st) (simp_all add: rule_state_of_def)

lemma rule_circuit_of_value [simp]: "rule_circuit_of (rule_circuit_value st) = Some st"
  by (cases st) (simp_all add: rule_circuit_of_def)

record rule_version =
  rv_version_id :: string
  rv_rule_id :: string
  rv_config :: json
  rv_deployed_at :: time
  rv_deployed_by :: string
  rv_state :: rule_state
  rv_trigger_count :: int
  rv_block_count :: int
  rv_false_positive_count :: int
  rv_failure_threshold :: int
  rv_success_threshold :: int
  rv_cooldown_seconds :: int
  rv_circuit_state :: rule_circuit
  rv_failure_count :: int
  rv_success_count :: int
  rv_last_failure_time :: time
  rv_last_state_change :: time

text \<open>The dataclass constructor, with its defaults.\<close>

definition RuleVersion :: "string \<Rightarrow> string \<Rightarrow> json \<Rightarrow> time \<Rightarrow> string \<Rightarrow> rule_state \<Rightarrow> rule_version" where
  "RuleVersion vid rid cfg t0 author st =
     \<lparr>rv_version_id = vid, rv_rule_id = rid, rv_config = cfg, rv_deployed_at = t0,
      rv_deployed_by = author, rv_state = st, rv_trigger_count = 0, rv_block_count = 0,
      rv_false_positive_count = 0, rv_failure_threshold = 5, rv_success_threshold = 3,
      rv_cooldown_seconds = 60, rv_circuit_state = RC_CLOSED, rv_failure_count = 0,
      rv_success_count = 0, rv_last_failure_time = 0, rv_last_state_change = 0\<rparr>"

text \<open>
  A version as the state file has it: each key may be absent, the enumerations are strings.
  \<open>to_dict\<close> writes these twelve keys and no other.
\<close>

record saved_version =
  sv_version_id :: "string option"
  sv_rule_id :: "string option"
  sv_config :: "json option"
  sv_deployed_at :: "time option"
  sv_deployed_by :: "string option"
  sv_state :: "string option"
  sv_trigger_count :: "int option"
  sv_block_count :: "int option"
  sv_false_positive_count :: "int option"
  sv_circuit_state :: "string option"
  sv_failure_count :: "int option"
  sv_success_count :: "int option"

definition rv_to_dict :: "rule_version \<Rightarrow> saved_version" where
  "rv_to_dict v =
     \<lparr>sv_version_id = Some (rv_version_id v), sv_rule_id = Some (rv_rule_id v),
      sv_config = Some (rv_config v), sv_deployed_at = Some (rv_deployed_at v),
      sv_deployed_by = Some (rv_deployed_by v),
      sv_state = Some (rule_state_value (rv_state v)),
      sv_trigger_count = Some (rv_trigger_count v), sv_block_count = Some (rv_block_count v),
      sv_false_positive_count = Some (rv_false_positive_count v),
      sv_circuit_state = Some (rule_circuit_value (rv_circuit_state v)),
      sv_failure_count = Some (rv_failure_count v), sv_success_count = Some (rv_success_count v)\<rparr>"

record saved_rules =
  sd_rules :: "(string, saved_version list) dict option"
  sd_stats :: "(string, int) dict"
  sd_last_persist_time :: "time option"

record rule_stats =
  ps_total_rules :: int
  ps_active_rules :: int
  ps_broken_rules :: int
  ps_rolled_back_rules :: int
  ps_total_versions :: int
  ps_total_triggers :: int
  ps_total_blocks :: int
  ps_total_false_positives :: int
  ps_circuit_breaker_triggers :: int
  ps_auto_rollbacks :: int
  ps_last_persist_time :: time

text \<open>
  The object's fields, and the part of the world it touches: the content of
  \<open>rules_state.json\<close> and whether writing it succeeds.
\<close>

record rule_store =
  rs_auto_persist :: bool
  rs_auto_rollback :: bool
  rs_breaker_enabled :: bool
  rs_rules :: "(string, rule_version list) dict"
  rs_active :: "(string, nat) dict"
  rs_stats :: rule_stats
  rs_file :: "saved_rules disk_file"
  rs_writable :: bool

definition PersistenceStats :: rule_stats where
  "PersistenceStats =
     \<lparr>ps_total_rules = 0, ps_active_rules = 0, ps_broken_rules = 0, ps_rolled_back_rules = 0,
      ps_total_versions = 0, ps_total_triggers = 0, ps_total_blocks = 0,
      ps_total_false_positives = 0, ps_circuit_breaker_triggers = 0, ps_auto_rollbacks = 0,
      ps_last_persist_time = 0\<rparr>"

definition init_rule_store :: "bool \<Rightarrow> bool \<Rightarrow> bool \<Rightarrow> saved_rules disk_file \<Rightarrow> bool \<Rightarrow> rule_store" where
  "init_rule_store auto_persist auto_rollback breaker_enabled file writable =
     \<lparr>rs_auto_persist = auto_persist, rs_auto_rollback = auto_rollback,
      rs_breaker_enabled = breaker_enabled, rs_rules = [], rs_active = [],
      rs_stats = PersistenceStats, rs_file = file, rs_writable = writable\<rparr>"

subsection \<open>Access to versions\<close>

definition versions :: "rule_store \<Rightarrow> string \<Rightarrow> rule_version list" where
  "versions s rid = dget_or (rs_rules s) rid []"

definition active_version :: "rule_store \<Rightarrow> string \<Rightarrow> rule_version option" where
  "active_version s rid = map_option (\<lambda>i. versions s rid ! i) (dget (rs_active s) rid)"

text \<open>Assigning attributes of the version object at position \<open>i\<close> of rule \<open>rid\<close>.\<close>

definition set_version :: "string \<Rightarrow> nat \<Rightarrow> rule_version \<Rightarrow> rule_store \<Rightarrow> rule_store" where
  "set_version rid i v s = s\<lparr>rs_rules := dset rid ((versions s rid)[i := v]) (rs_rules s)\<rparr>"

definition all_versions :: "rule_store \<Rightarrow> rule_version list" where
  "all_versions s = concat (vals (rs_rules s))"

definition live :: "rule_version \<Rightarrow> bool" where
  "live v \<longleftrightarrow> rv_state v = RS_ACTIVE \<or> rv_state v = RS_MONITORING"

subsection \<open>Operations\<close>

definition update_stats :: "rule_store \<Rightarrow> rule_store" where
  "update_stats s = s\<lparr>rs_stats := (rs_stats s)\<lparr>
     ps_total_rules := int (length (rs_rules s)),
     ps_active_rules := count (\<lambda>(rid, i). live (versions s rid ! i)) (rs_active s),
     ps_broken_rules := count (\<lambda>v. rv_state v = RS_CIRCUIT_BROKEN) (all_versions s),
     ps_rolled_back_rules := count (\<lambda>v. rv_state v = RS_ROLLED_BACK) (all_versions s),
     ps_total_triggers := sum_list (map rv_trigger_count (all_versions s)),
     ps_total_blocks := sum_list (map rv_block_count (all_versions s)),
     ps_total_false_positives := sum_list (map rv_false_positive_count (all_versions s))\<rparr>\<rparr>"

definition persist :: "time \<Rightarrow> rule_store \<Rightarrow> rule_store \<times> bool" where
  "persist now s =
     (if rs_writable s
      then (s\<lparr>rs_file := Doc
               \<lparr>sd_rules = Some (map (\<lambda>(rid, vs). (rid, map rv_to_dict vs)) (rs_rules s)),
                sd_stats =
                  [(''total_rules'', ps_total_rules (rs_stats s)),
                   (''active_rules'', ps_active_rules (rs_stats s)),
                   (''broken_rules'', ps_broken_rules (rs_stats s)),
                   (''circuit_breaker_triggers'', ps_circuit_breaker_triggers (rs_stats s)),
                   (''auto_rollbacks'', ps_auto_rollbacks (rs_stats s))],
                sd_last_persist_time = Some now\<rparr>,
              rs_stats := (rs_stats s)\<lparr>ps_last_persist_time := now\<rparr>\<rparr>, True)
      else (s, False))"

definition auto_persist :: "time \<Rightarrow> rule_store \<Rightarrow> rule_store" where
  "auto_persist now s = (if rs_auto_persist s then fst (persist now s) else s)"

text \<open>
  One entry of the file back into a version. The four subscripted keys raise \<open>KeyError\<close> when
  absent, an unknown enumeration value raises \<open>ValueError\<close>, the other keys have defaults.
\<close>

definition opt_or :: "'a option \<Rightarrow> 'a \<Rightarrow> 'a" where
  "opt_or x d = (case x of None \<Rightarrow> d | Some y \<Rightarrow> y)"

definition decode_version :: "saved_version \<Rightarrow> exc + rule_version" where
  "decode_version d =
     (case (sv_version_id d, sv_rule_id d, sv_config d, sv_deployed_at d) of
        (Some vid, Some rid, Some cfg, Some t0) \<Rightarrow>
          (case rule_state_of (opt_or (sv_state d) ''draft'') of
             None \<Rightarrow> Inl ValueError
           | Some st \<Rightarrow>
             (case rule_circuit_of (opt_or (sv_circuit_state d) ''closed'') of
                None \<Rightarrow> Inl ValueError
              | Some cst \<Rightarrow>
                Inr ((RuleVersion vid rid cfg t0 (opt_or (sv_deployed_by d) ''unknown'') st)
                  \<lparr>rv_trigger_count := opt_or (sv_trigger_count d) 0,
                   rv_block_count := opt_or (sv_block_count d) 0,
                   rv_false_positive_count := opt_or (sv_false_positive_count d) 0,
                   rv_circuit_state := cst,
                   rv_failure_count := opt_or (sv_failure_count d) 0,
                   rv_success_count := opt_or (sv_success_count d) 0\<rparr>)))
      | _ \<Rightarrow> Inl KeyError)"

fun load_versions :: "string \<Rightarrow> saved_version list \<Rightarrow> rule_store \<Rightarrow> rule_store \<times> exc option" where
  "load_versions rid [] s = (s, None)"
| "load_versions rid (d # ds) s =
     (case decode_version d of
        Inl e \<Rightarrow> (s, Some e)
      | Inr v \<Rightarrow>
        (let n = length (versions s rid);
             s1 = s\<lparr>rs_rules := dset rid (versions s rid @ [v]) (rs_rules s)\<rparr>;
             s2 = (if live v then s1\<lparr>rs_active := dset rid n (rs_active s1)\<rparr> else s1)
         in load_versions rid ds s2))"

fun load_rules :: "(string \<times> saved_version list) list \<Rightarrow> rule_store \<Rightarrow> rule_store \<times> exc option" where
  "load_rules [] s = (s, None)"
| "load_rules ((rid, ds) # rest) s =
     (case load_versions rid ds (s\<lparr>rs_rules := dset rid [] (rs_rules s)\<rparr>) of
        (s', None) \<Rightarrow> load_rules rest s'
      | (s', Some e) \<Rightarrow> (s', Some e))"

text \<open>
  The tables are cleared before the file is decoded. A \<open>KeyError\<close> is caught and answered with 0,
  a \<open>ValueError\<close> leaves the method; both leave the tables as far as they were filled.
\<close>

definition load :: "rule_store \<Rightarrow> rule_store \<times> (exc + int)" where
  "load s =
     (case rs_file s of
        No_File \<Rightarrow> (s, Inr 0)
      | Corrupt \<Rightarrow> (s, Inr 0)
      | Doc d \<Rightarrow>
        (case load_rules (opt_or (sd_rules d) []) (s\<lparr>rs_rules := [], rs_active := []\<rparr>) of
           (s', Some KeyError) \<Rightarrow> (s', Inr 0)
         | (s', Some OSError) \<Rightarrow> (s', Inr 0)
         | (s', Some e) \<Rightarrow> (s', Inl e)
         | (s', None) \<Rightarrow>
             (s'\<lparr>rs_stats := (rs_stats s')\<lparr>ps_last_persist_time := opt_or (sd_last_persist_time d) 0\<rparr>\<rparr>,
              Inr (int (length (rs_rules s'))))))"

definition deploy_rule :: "string \<Rightarrow> json \<Rightarrow> string \<Rightarrow> time \<Rightarrow> rule_store \<Rightarrow> rule_store \<times> rule_version" where
  "deploy_rule rid cfg author now s =
     (let v = RuleVersion (rid @ ''-v'' @ dec_int (py_int (now * 1000))) rid cfg now author RS_MONITORING;
          n = length (versions s rid);
          s1 = s\<lparr>rs_rules := dset rid (versions s rid @ [v]) (rs_rules s),
                 rs_active := dset rid n (rs_active s),
                 rs_stats := (rs_stats s)\<lparr>ps_total_versions := ps_total_versions (rs_stats s) + 1\<rparr>\<rparr>
      in (auto_persist now (update_stats s1), v))"

text \<open>What \<open>record_trigger\<close> does to the version: counting, and promotion to \<open>ACTIVE\<close>.\<close>

definition trigger_version :: "bool \<Rightarrow> time \<Rightarrow> rule_version \<Rightarrow> rule_version" where
  "trigger_version blocked now v =
     (let v1 = v\<lparr>rv_trigger_count := rv_trigger_count v + 1\<rparr>;
          v2 = (if blocked then v1\<lparr>rv_block_count := rv_block_count v1 + 1\<rparr>
                else v1\<lparr>rv_false_positive_count := rv_false_positive_count v1 + 1\<rparr>)
      in if rv_state v2 = RS_MONITORING \<and> 10 \<le> rv_trigger_count v2 \<and>
            (of_int (rv_block_count v2) / of_int (rv_trigger_count v2) :: rat) \<ge> 8 / 10
         then v2\<lparr>rv_state := RS_ACTIVE, rv_last_state_change := now\<rparr> else v2)"

definition record_trigger :: "string \<Rightarrow> bool \<Rightarrow> time \<Rightarrow> rule_store \<Rightarrow> rule_store" where
  "record_trigger rid blocked now s =
     (case dget (rs_active s) rid of
        None \<Rightarrow> s
      | Some i \<Rightarrow>
        auto_persist now (update_stats
          (set_version rid i (trigger_version blocked now (versions s rid ! i)) s)))"

definition rollback_to_previous :: "string \<Rightarrow> rule_store \<Rightarrow> rule_store \<times> rule_version option" where
  "rollback_to_previous rid s =
     (case find_last_index (\<lambda>v. rv_state v = RS_ACTIVE) (butlast (versions s rid)) of
        None \<Rightarrow> (s, None)
      | Some i \<Rightarrow>
        (let v = (versions s rid ! i)\<lparr>rv_state := RS_ACTIVE, rv_circuit_state := RC_CLOSED,
                                      rv_failure_count := 0\<rparr>;
             s1 = set_version rid i v s
         in (s1\<lparr>rs_active := dset rid i (rs_active s1),
                rs_stats := (rs_stats s1)\<lparr>ps_auto_rollbacks := ps_auto_rollbacks (rs_stats s1) + 1\<rparr>\<rparr>,
             Some v)))"

definition trigger_circuit_break :: "string \<Rightarrow> nat \<Rightarrow> time \<Rightarrow> rule_store \<Rightarrow> rule_store" where
  "trigger_circuit_break rid i now s =
     (let v = (versions s rid ! i)\<lparr>rv_circuit_state := RC_OPEN, rv_state := RS_CIRCUIT_BROKEN,
                                   rv_last_state_change := now\<rparr>;
          s1 = set_version rid i v s;
          s2 = s1\<lparr>rs_stats := (rs_stats s1)\<lparr>ps_circuit_breaker_triggers :=
                                 ps_circuit_breaker_triggers (rs_stats s1) + 1\<rparr>,
                  rs_active := ddel (rv_rule_id v) (rs_active s1)\<rparr>;
          s3 = (if rs_auto_rollback s2 then fst (rollback_to_previous (rv_rule_id v) s2) else s2)
      in update_stats s3)"

definition record_failure :: "string \<Rightarrow> time \<Rightarrow> rule_store \<Rightarrow> rule_store \<times> bool" where
  "record_failure rid now s =
     (case dget (rs_active s) rid of
        None \<Rightarrow> (s, False)
      | Some i \<Rightarrow>
        (let v = versions s rid ! i;
             v1 = v\<lparr>rv_failure_count := rv_failure_count v + 1, rv_last_failure_time := now\<rparr>;
             s1 = set_version rid i v1 s
         in if rs_breaker_enabled s1 \<and> rv_circuit_state v1 = RC_CLOSED \<and>
               rv_failure_threshold v1 \<le> rv_failure_count v1
            then (trigger_circuit_break rid i now s1, True)
            else (auto_persist now s1, False)))"

definition rollback_rule :: "string \<Rightarrow> time \<Rightarrow> rule_store \<Rightarrow> rule_store \<times> rule_version option" where
  "rollback_rule rid now s =
     (case rollback_to_previous rid s of
        (s', None) \<Rightarrow> (s', None)
      | (s', Some v) \<Rightarrow> (auto_persist now s', Some v))"

definition is_circuit_broken :: "string \<Rightarrow> rule_store \<Rightarrow> bool" where
  "is_circuit_broken rid s =
     (case active_version s rid of
        None \<Rightarrow> list_ex (\<lambda>v. rv_state v = RS_CIRCUIT_BROKEN) (versions s rid)
      | Some v \<Rightarrow> rv_circuit_state v = RC_OPEN)"

definition attempt_half_open :: "string \<Rightarrow> time \<Rightarrow> rule_store \<Rightarrow> rule_store \<times> bool" where
  "attempt_half_open rid now s =
     (case find_index (\<lambda>v. rv_state v = RS_CIRCUIT_BROKEN \<and> rv_circuit_state v = RC_OPEN \<and>
                           of_int (rv_cooldown_seconds v) \<le> now - rv_last_failure_time v)
             (versions s rid) of
        None \<Rightarrow> (s, False)
      | Some i \<Rightarrow>
        (let v = (versions s rid ! i)\<lparr>rv_circuit_state := RC_HALF_OPEN, rv_success_count := 0,
                                      rv_failure_count := 0\<rparr>;
             s1 = set_version rid i v s
         in (auto_persist now (s1\<lparr>rs_active := dset rid i (rs_active s1)\<rparr>), True)))"

definition get_active_rules :: "rule_store \<Rightarrow> rule_version list" where
  "get_active_rules s = map (\<lambda>(rid, i). versions s rid ! i) (rs_active s)"

definition get_stats :: "rule_store \<Rightarrow> rule_store \<times> rule_stats" where
  "get_stats s = (let s' = update_stats s in (s', rs_stats s'))"

subsection \<open>The tables and the file stay consistent\<close>

definition version_ok :: "string \<Rightarrow> rule_version \<Rightarrow> bool" where
  "version_ok rid v \<longleftrightarrow> rv_rule_id v = rid \<and>
     (rv_circuit_state v = RC_OPEN \<longrightarrow> rv_state v = RS_CIRCUIT_BROKEN)"

text \<open>
  Every active entry points into the list of its rule, at a version whose breaker is not open;
  an open breaker goes with the state \<open>CIRCUIT_BROKEN\<close>.
\<close>

definition tables_ok :: "(string, rule_version list) dict \<Rightarrow> (string, nat) dict \<Rightarrow> bool" where
  "tables_ok R A \<longleftrightarrow> wf_dict R \<and> wf_dict A \<and>
     (\<forall>rid vs. dget R rid = Some vs \<longrightarrow> (\<forall>v\<in>set vs. version_ok rid v)) \<and>
     (\<forall>rid i. dget A rid = Some i \<longrightarrow>
        (\<exists>vs. dget R rid = Some vs \<and> i < length vs \<and> rv_circuit_state (vs ! i) \<noteq> RC_OPEN))"

definition encode_rules :: "(string, rule_version list) dict \<Rightarrow> (string, saved_version list) dict" where
  "encode_rules R = map (\<lambda>(rid, vs). (rid, map rv_to_dict vs)) R"

definition file_ok :: "saved_rules disk_file \<Rightarrow> bool" where
  "file_ok f \<longleftrightarrow> (case f of No_File \<Rightarrow> True | Corrupt \<Rightarrow> True
     | Doc d \<Rightarrow> \<exists>R. sd_rules d = Some (encode_rules R) \<and> tables_ok R [])"

definition wf_store :: "rule_store \<Rightarrow> bool" where
  "wf_store s \<longleftrightarrow> tables_ok (rs_rules s) (rs_active s) \<and> file_ok (rs_file s)"

lemma tables_ok_Nil [simp]: "tables_ok [] []"
  by (simp add: tables_ok_def)

lemma tables_ok_no_active: "tables_ok R A \<Longrightarrow> tables_ok R []"
  by (simp add: tables_ok_def)

lemma tables_okI:
  assumes "wf_dict R" "wf_dict A"
    and "\<And>rid vs v. dget R rid = Some vs \<Longrightarrow> v \<in> set vs \<Longrightarrow> version_ok rid v"
    and "\<And>rid i. dget A rid = Some i \<Longrightarrow>
           \<exists>vs. dget R rid = Some vs \<and> i < length vs \<and> rv_circuit_state (vs ! i) \<noteq> RC_OPEN"
  shows "tables_ok R A"
  using assms by (simp add: tables_ok_def)

lemma tables_okD:
  assumes "tables_ok R A"
  shows "wf_dict R" "wf_dict A"
    and "\<And>rid vs v. dget R rid = Some vs \<Longrightarrow> v \<in> set vs \<Longrightarrow> version_ok rid v"
    and "\<And>rid i. dget A rid = Some i \<Longrightarrow>
           \<exists>vs. dget R rid = Some vs \<and> i < length vs \<and> rv_circuit_state (vs ! i) \<noteq> RC_OPEN"
  using assms by (auto simp: tables_ok_def)

lemma tables_ok_set:
  assumes ok: "tables_ok R A" and vs: "dget R rid = Some vs" and v: "version_ok rid v"
    and act: "dget A rid = Some i \<Longrightarrow> rv_circuit_state v \<noteq> RC_OPEN"
  shows "tables_ok (dset rid (vs[i := v]) R) A"
proof (rule tables_okI)
  show "wf_dict (dset rid (vs[i := v]) R)" "wf_dict A"
    using tables_okD(1,2) [OF ok] by simp_all
  show "version_ok r w" if "dget (dset rid (vs[i := v]) R) r = Some us" "w \<in> set us" for r us w
    using that v tables_okD(3) [OF ok] vs set_update_subset_insert [of vs i v]
    by (auto simp: dget_dset split: if_splits)
  show "\<exists>us. dget (dset rid (vs[i := v]) R) r = Some us \<and> j < length us \<and> rv_circuit_state (us ! j) \<noteq> RC_OPEN"
    if "dget A r = Some j" for r j
    using tables_okD(4) [OF ok that] that act vs
    by (cases "r = rid"; cases "j = i") (auto simp: dget_dset)
qed

lemma tables_ok_append:
  "tables_ok R A \<Longrightarrow> version_ok rid v \<Longrightarrow> tables_ok (dset rid (dget_or R rid [] @ [v]) R) A"
  by (fastforce simp: tables_ok_def dget_dset dget_or_def nth_append split: option.splits)

lemma tables_ok_new_rule:
  "tables_ok R A \<Longrightarrow> dget A rid = None \<Longrightarrow> tables_ok (dset rid [] R) A"
  by (auto simp: tables_ok_def dget_dset)

lemma tables_ok_activate:
  "tables_ok R A \<Longrightarrow> dget R rid = Some vs \<Longrightarrow> i < length vs \<Longrightarrow>
   rv_circuit_state (vs ! i) \<noteq> RC_OPEN \<Longrightarrow> tables_ok R (dset rid i A)"
  by (auto simp: tables_ok_def dget_dset)

lemma tables_ok_deactivate: "tables_ok R A \<Longrightarrow> tables_ok R (ddel rid A)"
  by (auto simp: tables_ok_def dget_ddel)

lemma tables_ok_activeD:
  assumes "tables_ok (rs_rules s) (rs_active s)" "dget (rs_active s) rid = Some i"
  shows "dget (rs_rules s) rid = Some (versions s rid)" "i < length (versions s rid)"
    "rv_circuit_state (versions s rid ! i) \<noteq> RC_OPEN" "version_ok rid (versions s rid ! i)"
proof -
  obtain vs where vs: "dget (rs_rules s) rid = Some vs" "i < length vs"
      "rv_circuit_state (vs ! i) \<noteq> RC_OPEN" "\<forall>v\<in>set vs. version_ok rid v"
    using assms by (fastforce simp: tables_ok_def)
  moreover have "versions s rid = vs" using vs(1) by (simp add: versions_def dget_or_def)
  ultimately show "dget (rs_rules s) rid = Some (versions s rid)" "i < length (versions s rid)"
    "rv_circuit_state (versions s rid ! i) \<noteq> RC_OPEN" "version_ok rid (versions s rid ! i)"
    by auto
qed

lemma versions_okD:
  "tables_ok (rs_rules s) A \<Longrightarrow> v \<in> set (versions s rid) \<Longrightarrow> version_ok rid v"
  by (cases "dget (rs_rules s) rid") (auto simp: tables_ok_def versions_def dget_or_def)

lemma versions_known: "versions s rid \<noteq> [] \<Longrightarrow> dget (rs_rules s) rid = Some (versions s rid)"
  by (auto simp: versions_def dget_or_def split: option.splits)

text \<open>How the tables and the versions look after each of the building blocks.\<close>

lemma update_stats_fields [simp]:
  "rs_rules (update_stats s) = rs_rules s" "rs_active (update_stats s) = rs_active s"
  "rs_file (update_stats s) = rs_file s" "rs_writable (update_stats s) = rs_writable s"
  "rs_auto_persist (update_stats s) = rs_auto_persist s"
  "rs_auto_rollback (update_stats s) = rs_auto_rollback s"
  "rs_breaker_enabled (update_stats s) = rs_breaker_enabled s"
  by (simp_all add: update_stats_def)

lemma auto_persist_fields [simp]:
  "rs_rules (auto_persist now s) = rs_rules s" "rs_active (auto_persist now s) = rs_active s"
  "rs_writable (auto_persist now s) = rs_writable s"
  "rs_auto_persist (auto_persist now s) = rs_auto_persist s"
  "rs_auto_rollback (auto_persist now s) = rs_auto_rollback s"
  "rs_breaker_enabled (auto_persist now s) = rs_breaker_enabled s"
  by (simp_all add: auto_persist_def persist_def)

lemma persist_fields [simp]:
  "rs_rules (fst (persist now s)) = rs_rules s" "rs_active (fst (persist now s)) = rs_active s"
  by (simp_all add: persist_def)

lemma set_version_fields [simp]:
  "rs_active (set_version rid i v s) = rs_active s" "rs_file (set_version rid i v s) = rs_file s"
  "rs_auto_persist (set_version rid i v s) = rs_auto_persist s"
  "rs_auto_rollback (set_version rid i v s) = rs_auto_rollback s"
  "rs_breaker_enabled (set_version rid i v s) = rs_breaker_enabled s"
  "rs_stats (set_version rid i v s) = rs_stats s"
  by (simp_all add: set_version_def)

lemma versions_update_stats [simp]: "versions (update_stats s) = versions s"
  by (simp add: versions_def fun_eq_iff)

lemma versions_auto_persist [simp]: "versions (auto_persist now s) = versions s"
  by (simp add: versions_def fun_eq_iff)

lemma versions_other_fields [simp]:
  "versions (s\<lparr>rs_active := A\<rparr>) = versions s" "versions (s\<lparr>rs_stats := st\<rparr>) = versions s"
  "versions (s\<lparr>rs_file := f\<rparr>) = versions s"
  by (simp_all add: versions_def fun_eq_iff)

lemma versions_set_version [simp]:
  "versions (set_version rid i v s) = (versions s)(rid := (versions s rid)[i := v])"
  by (auto simp: versions_def set_version_def dget_or_def dget_dset fun_eq_iff)

lemma versions_dset [simp]:
  "versions (s\<lparr>rs_rules := dset rid vs (rs_rules s)\<rparr>) = (versions s)(rid := vs)"
  by (auto simp: versions_def dget_or_def dget_dset fun_eq_iff)

lemma encode_rules_saved: "encode_rules R = map (\<lambda>(rid, vs). (rid, map rv_to_dict vs)) R"
  by (simp add: encode_rules_def)

lemma file_ok_auto_persist [wf_intros]:
  "tables_ok (rs_rules s) A \<Longrightarrow> file_ok (rs_file s) \<Longrightarrow> file_ok (rs_file (auto_persist now s))"
  by (auto simp: auto_persist_def persist_def file_ok_def encode_rules_saved[symmetric]
      intro: tables_ok_no_active)

lemma tables_ok_set_version:
  "tables_ok (rs_rules s) A \<Longrightarrow> dget (rs_rules s) rid = Some (versions s rid) \<Longrightarrow> version_ok rid v \<Longrightarrow>
   (dget A rid = Some i \<Longrightarrow> rv_circuit_state v \<noteq> RC_OPEN) \<Longrightarrow>
   tables_ok (rs_rules (set_version rid i v s)) A"
  by (simp add: set_version_def tables_ok_set)

lemma decode_encode:
  "decode_version (rv_to_dict v) = Inr (v\<lparr>rv_failure_threshold := 5, rv_success_threshold := 3,
     rv_cooldown_seconds := 60, rv_last_failure_time := 0, rv_last_state_change := 0\<rparr>)"
  by (simp add: decode_version_def rv_to_dict_def opt_or_def RuleVersion_def)

text \<open>What of a version survives a restart.\<close>

definition reloaded :: "rule_version \<Rightarrow> rule_version" where
  "reloaded v = v\<lparr>rv_failure_threshold := 5, rv_success_threshold := 3, rv_cooldown_seconds := 60,
     rv_last_failure_time := 0, rv_last_state_change := 0\<rparr>"

lemmas decode_encode_reloaded = decode_encode [folded reloaded_def]

lemma reloaded_fields [simp]:
  "rv_rule_id (reloaded v) = rv_rule_id v" "rv_state (reloaded v) = rv_state v"
  "rv_circuit_state (reloaded v) = rv_circuit_state v" "live (reloaded v) = live v"
  "rv_last_failure_time (reloaded v) = 0" "rv_cooldown_seconds (reloaded v) = 60"
  "version_ok rid (reloaded v) = version_ok rid v"
  by (simp_all add: reloaded_def live_def version_ok_def)

lemma version_ok_live: "version_ok rid v \<Longrightarrow> live v \<Longrightarrow> rv_circuit_state v \<noteq> RC_OPEN"
  by (auto simp: version_ok_def live_def)

subsection \<open>Loading what was saved\<close>

text \<open>The tables after the versions \<open>vs\<close> of one rule have been read.\<close>

lemma load_versions_saved:
  "load_versions rid (map rv_to_dict vs) s =
     (s\<lparr>rs_rules := (if vs = [] then rs_rules s
                     else dset rid (versions s rid @ map reloaded vs) (rs_rules s)),
        rs_active := (case find_last_index live vs of None \<Rightarrow> rs_active s
                      | Some i \<Rightarrow> dset rid (length (versions s rid) + i) (rs_active s))\<rparr>, None)"
proof (induction vs arbitrary: s)
  case Nil
  then show ?case by (simp add: find_last_index_def)
next
  case (Cons v vs)
  have last: "find_last_index live (v # vs) =
      (case find_last_index live vs of Some i \<Rightarrow> Some (Suc i)
       | None \<Rightarrow> if live v then Some 0 else None)"
    by (rule find_last_index_Cons)
  show ?case
    by (auto simp: Cons.IH decode_encode_reloaded Let_def last update_update_same
        split: option.splits)
qed

definition reload_rules :: "(string, rule_version list) dict \<Rightarrow> (string, rule_version list) dict" where
  "reload_rules R = map (\<lambda>(rid, vs). (rid, map reloaded vs)) R"

text \<open>After a restart the newest live version of a rule is the active one.\<close>

definition reload_active :: "(string, rule_version list) dict \<Rightarrow> (string, nat) dict" where
  "reload_active R = List.map_filter
     (\<lambda>(rid, vs). map_option (Pair rid) (find_last_index live vs)) R"

lemma load_rules_saved:
  "wf_dict R \<Longrightarrow> \<forall>rid\<in>set (keys R). dget (rs_rules s) rid = None \<and> dget (rs_active s) rid = None \<Longrightarrow>
   load_rules (encode_rules R) s =
     (s\<lparr>rs_rules := rs_rules s @ reload_rules R, rs_active := rs_active s @ reload_active R\<rparr>, None)"
proof (induction R arbitrary: s)
  case Nil
  then show ?case by (simp add: encode_rules_def reload_rules_def reload_active_def map_filter_simps)
next
  case (Cons p R)
  obtain rid vs where p: "p = (rid, vs)" by fastforce
  have fresh: "dget (rs_rules s) rid = None" "dget (rs_active s) rid = None"
    using Cons.prems(2) by (simp_all add: p keys_def)
  define A where "A = (case find_last_index live vs of None \<Rightarrow> [] | Some i \<Rightarrow> [(rid, i)])"
  define s1 where "s1 = s\<lparr>rs_rules := rs_rules s @ [(rid, map reloaded vs)], rs_active := rs_active s @ A\<rparr>"
  have "dset rid (map reloaded vs) (rs_rules s @ [(rid, [])]) = rs_rules s @ [(rid, map reloaded vs)]"
    using update_update_same [of rid "map reloaded vs" "[]" "rs_rules s"] fresh(1)
    by (simp add: dset_new)
  moreover have "versions (s\<lparr>rs_rules := rs_rules s @ [(rid, [])]\<rparr>) rid = []"
    using fresh(1) by (simp add: versions_def dget_or_def map_add_def)
  ultimately have one: "load_versions rid (map rv_to_dict vs) (s\<lparr>rs_rules := dset rid [] (rs_rules s)\<rparr>) = (s1, None)"
    using fresh by (auto simp: load_versions_saved s1_def A_def dset_new split: option.split)
  have "\<forall>r\<in>set (keys R). dget (rs_rules s1) r = None \<and> dget (rs_active s1) r = None"
  proof
    fix r assume r: "r \<in> set (keys R)"
    then have "r \<noteq> rid" using Cons.prems(1) by (auto simp: p wf_dict_def keys_def)
    moreover have "dget (rs_rules s) r = None \<and> dget (rs_active s) r = None"
      using Cons.prems(2) r by (auto simp: keys_def)
    ultimately show "dget (rs_rules s1) r = None \<and> dget (rs_active s1) r = None"
      by (auto simp: s1_def A_def map_add_def split: option.split)
  qed
  then have "load_rules (encode_rules R) s1 =
      (s1\<lparr>rs_rules := rs_rules s1 @ reload_rules R, rs_active := rs_active s1 @ reload_active R\<rparr>, None)"
    using Cons.IH Cons.prems(1) by (simp add: p wf_dict_def)
  with one show ?case
    by (auto simp: p encode_rules_def s1_def A_def reload_rules_def reload_active_def
        map_filter_simps split: option.split)
qed

lemma dget_reload_rules: "dget (reload_rules R) rid = map_option (map reloaded) (dget R rid)"
  unfolding reload_rules_def by (rule dget_map_vals)

lemma dget_reload_active:
  "wf_dict R \<Longrightarrow> dget (reload_active R) rid = Option.bind (dget R rid) (find_last_index live)"
proof (induction R)
  case Nil
  then show ?case by (simp add: reload_active_def map_filter_simps)
next
  case (Cons p R)
  obtain r vs where p: "p = (r, vs)" by fastforce
  have "r \<notin> fst ` set R" "wf_dict R" using Cons.prems by (simp_all add: p wf_dict_def)
  then have "dget R r = None" by (simp add: map_of_eq_None_iff)
  then show ?case using Cons.IH \<open>wf_dict R\<close>
    by (auto simp: p reload_active_def map_filter_simps split: option.split)
qed

lemma wf_dict_reload_active: "wf_dict R \<Longrightarrow> wf_dict (reload_active R)"
proof (induction R)
  case Nil
  then show ?case by (simp add: reload_active_def map_filter_simps)
next
  case (Cons p R)
  obtain r vs where p: "p = (r, vs)" by fastforce
  have r: "r \<notin> fst ` set R" "wf_dict R" using Cons.prems by (simp_all add: p wf_dict_def)
  have "fst ` set (reload_active R) \<subseteq> fst ` set R"
    by (force simp: reload_active_def List.map_filter_def)
  then show ?case using r Cons.IH
    by (auto simp: p reload_active_def wf_dict_def map_filter_simps split: option.split)
qed

lemma tables_ok_reload:
  assumes ok: "tables_ok R []"
  shows "tables_ok (reload_rules R) (reload_active R)"
proof (rule tables_okI)
  show "wf_dict (reload_rules R)" "wf_dict (reload_active R)"
    using tables_okD(1) [OF ok] by (simp_all add: reload_rules_def wf_dict_reload_active)
  show "version_ok r v" if "dget (reload_rules R) r = Some vs" "v \<in> set vs" for r vs v
    using that tables_okD(3) [OF ok] by (auto simp: dget_reload_rules)
  show "\<exists>vs. dget (reload_rules R) r = Some vs \<and> i < length vs \<and> rv_circuit_state (vs ! i) \<noteq> RC_OPEN"
    if act: "dget (reload_active R) r = Some i" for r i
  proof -
    obtain vs where vs: "dget R r = Some vs" "find_last_index live vs = Some i"
      using act tables_okD(1) [OF ok] by (auto simp: dget_reload_active split: bind_splits)
    have "i < length vs" "live (vs ! i)" using find_last_index_SomeD [OF vs(2)] by auto
    moreover have "version_ok r (vs ! i)"
      using tables_okD(3) [OF ok vs(1)] \<open>i < length vs\<close> by simp
    ultimately show ?thesis
      using vs(1) version_ok_live by (fastforce simp: dget_reload_rules)
  qed
qed

text \<open>Loading a file the store wrote never fails, and installs the reloaded tables.\<close>

lemma load_saved:
  assumes "rs_file s = Doc d" "sd_rules d = Some (encode_rules R)" "wf_dict R"
  shows "load s = (s\<lparr>rs_rules := reload_rules R, rs_active := reload_active R,
      rs_stats := (rs_stats s)\<lparr>ps_last_persist_time := opt_or (sd_last_persist_time d) 0\<rparr>\<rparr>,
    Inr (int (length R)))"
  using assms load_rules_saved [of R "s\<lparr>rs_rules := [], rs_active := []\<rparr>"]
  by (simp add: load_def opt_or_def reload_rules_def)

subsection \<open>Every operation keeps the store well formed\<close>

lemma wf_storeI: "tables_ok (rs_rules s) (rs_active s) \<Longrightarrow> file_ok (rs_file s) \<Longrightarrow> wf_store s"
  by (simp add: wf_store_def)

lemma wf_update_stats [simp]: "wf_store (update_stats s) = wf_store s"
  by (simp add: wf_store_def)

lemma wf_auto_persist [wf_intros]: "wf_store s \<Longrightarrow> wf_store (auto_persist now s)"
  by (auto simp: wf_store_def intro: file_ok_auto_persist)

lemma wf_persist [wf_intros]: "wf_store s \<Longrightarrow> wf_store (fst (persist now s))"
  by (auto simp: wf_store_def persist_def file_ok_def encode_rules_def intro: tables_ok_no_active)

lemma wf_set_version:
  "wf_store s \<Longrightarrow> dget (rs_rules s) rid = Some (versions s rid) \<Longrightarrow> version_ok rid v \<Longrightarrow>
   (dget (rs_active s) rid = Some i \<Longrightarrow> rv_circuit_state v \<noteq> RC_OPEN) \<Longrightarrow> wf_store (set_version rid i v s)"
  by (simp add: wf_store_def tables_ok_set_version)

lemma wf_activate:
  "wf_store s \<Longrightarrow> i < length (versions s rid) \<Longrightarrow> rv_circuit_state (versions s rid ! i) \<noteq> RC_OPEN \<Longrightarrow>
   wf_store (s\<lparr>rs_active := dset rid i (rs_active s)\<rparr>)"
  by (auto simp: wf_store_def intro!: tables_ok_activate versions_known)

lemma wf_stats [simp]: "wf_store (s\<lparr>rs_stats := st\<rparr>) = wf_store s"
  by (simp add: wf_store_def)

lemma wf_writable [simp]: "wf_store (s\<lparr>rs_writable := b\<rparr>) = wf_store s"
  by (simp add: wf_store_def)

lemma wf_deploy_rule [wf_intros]:
  assumes "wf_store s"
  shows "wf_store (fst (deploy_rule rid cfg author now s))"
proof -
  define v where "v = RuleVersion (rid @ ''-v'' @ dec_int (py_int (now * 1000))) rid cfg now author RS_MONITORING"
  have v: "version_ok rid v" "rv_circuit_state v = RC_CLOSED"
    by (simp_all add: v_def version_ok_def RuleVersion_def)
  have "tables_ok (dset rid (versions s rid @ [v]) (rs_rules s)) (rs_active s)"
    using assms v by (simp add: wf_store_def versions_def tables_ok_append)
  then have "tables_ok (dset rid (versions s rid @ [v]) (rs_rules s))
      (dset rid (length (versions s rid)) (rs_active s))"
    by (rule tables_ok_activate [where vs = "versions s rid @ [v]"]) (simp_all add: dget_dset v)
  with assms show ?thesis
    by (auto simp: deploy_rule_def Let_def v_def wf_store_def intro!: wf_auto_persist file_ok_auto_persist)
qed

lemma trigger_version_fields [simp]:
  "rv_rule_id (trigger_version b now v) = rv_rule_id v"
  "rv_circuit_state (trigger_version b now v) = rv_circuit_state v"
  "rv_failure_count (trigger_version b now v) = rv_failure_count v"
  by (simp_all add: trigger_version_def Let_def)

lemma trigger_version_state:
  "rv_state (trigger_version b now v) = rv_state v \<or>
   rv_state v = RS_MONITORING \<and> rv_state (trigger_version b now v) = RS_ACTIVE"
  by (simp add: trigger_version_def Let_def)

lemma wf_record_trigger [wf_intros]:
  assumes wf: "wf_store s"
  shows "wf_store (record_trigger rid b now s)"
proof (cases "dget (rs_active s) rid")
  case None
  then show ?thesis using wf by (simp add: record_trigger_def)
next
  case (Some i)
  note act = tables_ok_activeD [OF _ Some]
  have "tables_ok (rs_rules s) (rs_active s)" using wf by (simp add: wf_store_def)
  note act = act [OF this]
  have "version_ok rid (trigger_version b now (versions s rid ! i))"
    using act(4) trigger_version_state [of b now "versions s rid ! i"] by (auto simp: version_ok_def)
  then have "wf_store (set_version rid i (trigger_version b now (versions s rid ! i)) s)"
    using wf act by (intro wf_set_version) simp_all
  then show ?thesis using Some by (simp add: record_trigger_def wf_auto_persist)
qed

lemma wf_rollback_to_previous [wf_intros]:
  assumes wf: "wf_store s"
  shows "wf_store (fst (rollback_to_previous rid s))"
proof (cases "find_last_index (\<lambda>v. rv_state v = RS_ACTIVE) (butlast (versions s rid))")
  case None
  then show ?thesis using wf by (simp add: rollback_to_previous_def)
next
  case (Some i)
  then have i: "i < length (butlast (versions s rid))" by (rule find_last_index_SomeD)
  then have il: "i < length (versions s rid)" and ne: "versions s rid \<noteq> []" by auto
  define v where "v = (versions s rid ! i)\<lparr>rv_state := RS_ACTIVE, rv_circuit_state := RC_CLOSED, rv_failure_count := 0\<rparr>"
  have "version_ok rid (versions s rid ! i)"
    using wf il versions_okD nth_mem by (fastforce simp: wf_store_def)
  then have v: "version_ok rid v" "rv_circuit_state v = RC_CLOSED"
    by (simp_all add: v_def version_ok_def)
  have "wf_store (set_version rid i v s)"
    using wf v ne by (intro wf_set_version versions_known) simp_all
  then have "wf_store ((set_version rid i v s)\<lparr>rs_active := dset rid i (rs_active (set_version rid i v s))\<rparr>)"
    by (rule wf_activate) (simp_all add: il v)
  then show ?thesis
    by (simp add: rollback_to_previous_def Some Let_def v_def [symmetric] wf_store_def)
qed

lemma wf_trigger_circuit_break:
  assumes wf: "wf_store s" and act: "dget (rs_active s) rid = Some i"
  shows "wf_store (trigger_circuit_break rid i now s)"
proof -
  have t: "tables_ok (rs_rules s) (rs_active s)" using wf by (simp add: wf_store_def)
  note a = tables_ok_activeD [OF t act]
  define v where "v = (versions s rid ! i)\<lparr>rv_circuit_state := RC_OPEN, rv_state := RS_CIRCUIT_BROKEN,
                                   rv_last_state_change := now\<rparr>"
  have v: "version_ok rid v" "rv_rule_id v = rid"
    using a(4) by (simp_all add: v_def version_ok_def)
  have "tables_ok (rs_rules (set_version rid i v s)) (ddel rid (rs_active s))"
    using a v t by (intro tables_ok_set_version tables_ok_deactivate) (simp_all add: dget_ddel)
  then show ?thesis
    using wf v by (auto simp: trigger_circuit_break_def Let_def v_def [symmetric]
        wf_store_def [of s] intro!: wf_rollback_to_previous wf_storeI)
qed

lemma wf_record_failure [wf_intros]:
  assumes wf: "wf_store s"
  shows "wf_store (fst (record_failure rid now s))"
proof (cases "dget (rs_active s) rid")
  case None
  then show ?thesis using wf by (simp add: record_failure_def)
next
  case (Some i)
  have "tables_ok (rs_rules s) (rs_active s)" using wf by (simp add: wf_store_def)
  note act = tables_ok_activeD [OF this Some]
  define v where "v = (versions s rid ! i)\<lparr>rv_failure_count := rv_failure_count (versions s rid ! i) + 1,
                                   rv_last_failure_time := now\<rparr>"
  have "wf_store (set_version rid i v s)"
    using wf act by (intro wf_set_version) (simp_all add: v_def version_ok_def)
  then show ?thesis
    using Some by (auto simp: record_failure_def Let_def v_def [symmetric]
        intro: wf_trigger_circuit_break wf_auto_persist)
qed

lemma wf_rollback_rule [wf_intros]: "wf_store s \<Longrightarrow> wf_store (fst (rollback_rule rid now s))"
  using wf_rollback_to_previous [of s rid]
  by (auto simp: rollback_rule_def split: prod.splits option.splits intro: wf_auto_persist)

lemma wf_attempt_half_open [wf_intros]:
  assumes wf: "wf_store s"
  shows "wf_store (fst (attempt_half_open rid now s))"
proof -
  let ?P = "\<lambda>v. rv_state v = RS_CIRCUIT_BROKEN \<and> rv_circuit_state v = RC_OPEN \<and>
                of_int (rv_cooldown_seconds v) \<le> now - rv_last_failure_time v"
  show ?thesis
  proof (cases "find_index ?P (versions s rid)")
    case None
    then show ?thesis using wf by (simp add: attempt_half_open_def)
  next
    case (Some i)
    then have i: "i < length (versions s rid)" by (simp add: find_index_Some)
    define v where "v = (versions s rid ! i)\<lparr>rv_circuit_state := RC_HALF_OPEN, rv_success_count := 0,
                                      rv_failure_count := 0\<rparr>"
    have "version_ok rid (versions s rid ! i)"
      using wf i versions_okD nth_mem by (fastforce simp: wf_store_def)
    then have v: "version_ok rid v" "rv_circuit_state v = RC_HALF_OPEN"
      by (simp_all add: v_def version_ok_def)
    have "wf_store (set_version rid i v s)"
      using wf v i by (intro wf_set_version versions_known) auto
    then have "wf_store ((set_version rid i v s)\<lparr>rs_active := dset rid i (rs_active (set_version rid i v s))\<rparr>)"
      by (rule wf_activate) (simp_all add: i v)
    then show ?thesis
      by (simp add: attempt_half_open_def Some Let_def v_def [symmetric] wf_auto_persist)
  qed
qed

lemma wf_load [wf_intros]:
  assumes wf: "wf_store s"
  shows "wf_store (fst (load s)) \<and> (\<exists>n. snd (load s) = Inr n)"
proof (cases "rs_file s")
  case (Doc d)
  then obtain R where R: "sd_rules d = Some (encode_rules R)" "tables_ok R []"
    using wf by (auto simp: wf_store_def file_ok_def)
  have "load s = (s\<lparr>rs_rules := reload_rules R, rs_active := reload_active R,
      rs_stats := (rs_stats s)\<lparr>ps_last_persist_time := opt_or (sd_last_persist_time d) 0\<rparr>\<rparr>,
    Inr (int (length R)))"
    using Doc R(1) tables_okD(1) [OF R(2)] by (rule load_saved)
  then show ?thesis
    using wf tables_ok_reload [OF R(2)] by (simp add: wf_store_def)
qed (use wf in \<open>simp_all add: load_def\<close>)

subsection \<open>The store as a state machine\<close>

datatype rule_event =
    RE_Deploy string json string time
  | RE_Trigger string bool time
  | RE_Failure string time
  | RE_Rollback string time
  | RE_Half_Open string time
  | RE_Persist time
  | RE_Load
  | RE_Get_Stats
  | RE_Disk bool \<comment> \<open>the file becomes writable, or stops being so\<close>

fun rule_step :: "rule_event \<Rightarrow> rule_store \<Rightarrow> rule_store" where
  "rule_step (RE_Deploy rid cfg author now) s = fst (deploy_rule rid cfg author now s)"
| "rule_step (RE_Trigger rid b now) s = record_trigger rid b now s"
| "rule_step (RE_Failure rid now) s = fst (record_failure rid now s)"
| "rule_step (RE_Rollback rid now) s = fst (rollback_rule rid now s)"
| "rule_step (RE_Half_Open rid now) s = fst (attempt_half_open rid now s)"
| "rule_step (RE_Persist now) s = fst (persist now s)"
| "rule_step RE_Load s = fst (load s)"
| "rule_step RE_Get_Stats s = fst (get_stats s)"
| "rule_step (RE_Disk b) s = s\<lparr>rs_writable := b\<rparr>"

definition rule_init :: "rule_store \<Rightarrow> bool" where
  "rule_init s \<longleftrightarrow> (\<exists>p r b f w. s = init_rule_store p r b f w \<and> (f = No_File \<or> f = Corrupt))"

lemma rule_init_fresh [simp]: "rule_init (init_rule_store p r b No_File w)"
  unfolding rule_init_def by blast

interpretation store: machine rule_init rule_step wf_store
proof unfold_locales
  show "wf_store s" if "rule_init s" for s
    using that by (auto simp: rule_init_def init_rule_store_def wf_store_def file_ok_def)
  show "wf_store (rule_step e s)" if "wf_store s" for e s
    using that wf_load [OF that]
    by (cases e) (simp_all add: wf_intros get_stats_def Let_def)
qed

lemma active_version_wf:
  assumes "wf_store s" "active_version s rid = Some v"
  shows "v \<in> set (versions s rid)" "version_ok rid v" "rv_circuit_state v \<noteq> RC_OPEN"
proof -
  obtain i where i: "dget (rs_active s) rid = Some i" "v = versions s rid ! i"
    using assms(2) by (auto simp: active_version_def)
  have "tables_ok (rs_rules s) (rs_active s)" using assms(1) by (simp add: wf_store_def)
  note a = tables_ok_activeD [OF this i(1)]
  show "v \<in> set (versions s rid)" "version_ok rid v" "rv_circuit_state v \<noteq> RC_OPEN"
    using a i(2) by simp_all
qed

lemma is_circuit_broken_wf:
  "wf_store s \<Longrightarrow> is_circuit_broken rid s \<longleftrightarrow>
     active_version s rid = None \<and> (\<exists>v\<in>set (versions s rid). rv_state v = RS_CIRCUIT_BROKEN)"
  using active_version_wf(3) [of s rid]
  by (cases "active_version s rid") (auto simp: is_circuit_broken_def list_ex_iff)

subsection \<open>Tripping and rolling back\<close>

lemma active_version_set:
  "dget (rs_active s) rid = Some i \<Longrightarrow> i < length (versions s rid) \<Longrightarrow>
   active_version (set_version rid i v s) rid = Some v"
  by (simp add: active_version_def)

lemma rollback_to_previous_spec:
  assumes "wf_store s"
  shows "case find_last_index (\<lambda>v. rv_state v = RS_ACTIVE) (butlast (versions s rid)) of
      None \<Rightarrow> rollback_to_previous rid s = (s, None)
    | Some j \<Rightarrow> \<exists>v. snd (rollback_to_previous rid s) = Some v \<and>
        v = (versions s rid ! j)\<lparr>rv_circuit_state := RC_CLOSED, rv_failure_count := 0\<rparr> \<and>
        active_version (fst (rollback_to_previous rid s)) rid = Some v \<and>
        versions (fst (rollback_to_previous rid s)) = (versions s)(rid := (versions s rid)[j := v])"
proof (cases "find_last_index (\<lambda>v. rv_state v = RS_ACTIVE) (butlast (versions s rid))")
  case None
  then show ?thesis by (simp add: rollback_to_previous_def)
next
  case (Some j)
  note f = find_last_index_SomeD(1,2) [OF Some]
  have j: "j < length (versions s rid)" "rv_state (versions s rid ! j) = RS_ACTIVE"
    using f by (simp_all add: nth_butlast)
  then have "versions s rid ! j = (versions s rid ! j)\<lparr>rv_state := RS_ACTIVE\<rparr>" by simp
  then show ?thesis
    using j by (simp add: rollback_to_previous_def Some Let_def active_version_def dget_dset)
qed

text \<open>The version that trips, and what is active afterwards.\<close>

lemma record_failure_True:
  assumes wf: "wf_store s" and ret: "record_failure rid now s = (s', True)"
  obtains i v s2 where "dget (rs_active s) rid = Some i" "i < length (versions s rid)"
    "rv_state v = RS_CIRCUIT_BROKEN" "rv_circuit_state v = RC_OPEN" "rv_rule_id v = rid"
    "wf_store s2" "active_version s2 rid = None" "rs_auto_rollback s2 = rs_auto_rollback s"
    "versions s2 = (versions s)(rid := (versions s rid)[i := v])"
    "s' = update_stats (if rs_auto_rollback s then fst (rollback_to_previous rid s2) else s2)"
proof -
  obtain i where i: "dget (rs_active s) rid = Some i"
    using ret by (auto simp: record_failure_def split: option.splits)
  have "tables_ok (rs_rules s) (rs_active s)" using wf by (simp add: wf_store_def)
  note act = tables_ok_activeD [OF this i]
  define v1 where "v1 = (versions s rid ! i)\<lparr>rv_failure_count := rv_failure_count (versions s rid ! i) + 1,
                                   rv_last_failure_time := now\<rparr>"
  define s1 where "s1 = set_version rid i v1 s"
  define v where "v = v1\<lparr>rv_circuit_state := RC_OPEN, rv_state := RS_CIRCUIT_BROKEN, rv_last_state_change := now\<rparr>"
  define s2 where "s2 = (set_version rid i v s1)\<lparr>rs_stats := (rs_stats s1)\<lparr>ps_circuit_breaker_triggers :=
                                 ps_circuit_breaker_triggers (rs_stats s1) + 1\<rparr>, rs_active := ddel rid (rs_active s1)\<rparr>"
  have v: "rv_rule_id v = rid" "version_ok rid v"
    using act(4) by (simp_all add: v_def v1_def version_ok_def)
  have s': "s' = trigger_circuit_break rid i now s1"
    using ret i by (auto simp: record_failure_def Let_def v1_def s1_def split: if_splits)
  have n1: "versions s1 rid ! i = v1" using act(2) by (simp add: s1_def)
  have s'2: "s' = update_stats (if rs_auto_rollback s then fst (rollback_to_previous rid s2) else s2)"
    unfolding s' trigger_circuit_break_def Let_def n1
    using v(1) by (simp add: v_def [symmetric] s2_def s1_def)
  have "wf_store s1" unfolding s1_def
    using wf act by (intro wf_set_version) (simp_all add: v1_def version_ok_def)
  moreover have "dget (rs_rules s1) rid = Some (versions s1 rid)"
    using act by (intro versions_known) (auto simp: s1_def)
  ultimately have "tables_ok (rs_rules (set_version rid i v s1)) (ddel rid (rs_active s1))"
    using v by (intro tables_ok_set_version tables_ok_deactivate) (simp_all add: wf_store_def dget_ddel)
  then have "wf_store s2"
    using \<open>wf_store s1\<close> by (simp add: s2_def wf_store_def)
  then show thesis
    using that [OF i act(2) _ _ v(1), of s2] s'2
    by (simp add: s2_def s1_def v_def active_version_def dget_ddel)
qed

text \<open>Failures in a row, with the answers.\<close>

fun record_failures :: "string \<Rightarrow> time list \<Rightarrow> rule_store \<Rightarrow> rule_store \<times> bool list" where
  "record_failures rid [] s = (s, [])"
| "record_failures rid (t # ts) s =
     (let (s1, b) = record_failure rid t s; (s2, bs) = record_failures rid ts s1 in (s2, b # bs))"

lemma record_failures_snoc:
  "snd (record_failures rid (ts @ [t]) s) =
     snd (record_failures rid ts s) @ [snd (record_failure rid t (fst (record_failures rid ts s)))]"
  by (induction ts arbitrary: s) (auto simp: Let_def case_prod_unfold)

lemma record_failure_below:
  assumes "wf_store s" "active_version s rid = Some v"
    and "\<not> (rs_breaker_enabled s \<and> rv_circuit_state v = RC_CLOSED \<and>
             rv_failure_threshold v \<le> rv_failure_count v + 1)"
  shows "\<not> snd (record_failure rid now s)"
    "active_version (fst (record_failure rid now s)) rid =
       Some (v\<lparr>rv_failure_count := rv_failure_count v + 1, rv_last_failure_time := now\<rparr>)"
    "rs_breaker_enabled (fst (record_failure rid now s)) = rs_breaker_enabled s"
proof -
  obtain i where i: "dget (rs_active s) rid = Some i" "v = versions s rid ! i"
    using assms(2) by (auto simp: active_version_def)
  have "tables_ok (rs_rules s) (rs_active s)" using assms(1) by (simp add: wf_store_def)
  note a = tables_ok_activeD [OF this i(1)]
  show "\<not> snd (record_failure rid now s)"
    "active_version (fst (record_failure rid now s)) rid =
       Some (v\<lparr>rv_failure_count := rv_failure_count v + 1, rv_last_failure_time := now\<rparr>)"
    "rs_breaker_enabled (fst (record_failure rid now s)) = rs_breaker_enabled s"
    using assms(3) i a by (auto simp: record_failure_def Let_def active_version_def)
qed

lemma record_failure_trips_iff:
  assumes "wf_store s" "active_version s rid = Some v"
  shows "snd (record_failure rid now s) \<longleftrightarrow>
     rs_breaker_enabled s \<and> rv_circuit_state v = RC_CLOSED \<and> rv_failure_threshold v \<le> rv_failure_count v + 1"
proof -
  obtain i where i: "dget (rs_active s) rid = Some i" "v = versions s rid ! i"
    using assms(2) by (auto simp: active_version_def)
  have "tables_ok (rs_rules s) (rs_active s)" using assms(1) by (simp add: wf_store_def)
  note a = tables_ok_activeD [OF this i(1)]
  show ?thesis using i a by (auto simp: record_failure_def Let_def)
qed

lemma record_failures_below:
  "wf_store s \<Longrightarrow> active_version s rid = Some v \<Longrightarrow> rv_circuit_state v = RC_CLOSED \<Longrightarrow>
   rv_failure_count v + int (length ts) < rv_failure_threshold v \<Longrightarrow>
   snd (record_failures rid ts s) = replicate (length ts) False \<and>
   wf_store (fst (record_failures rid ts s)) \<and>
   rs_breaker_enabled (fst (record_failures rid ts s)) = rs_breaker_enabled s \<and>
   (\<exists>w. active_version (fst (record_failures rid ts s)) rid = Some w \<and> rv_circuit_state w = RC_CLOSED \<and>
        rv_failure_count w = rv_failure_count v + int (length ts) \<and>
        rv_failure_threshold w = rv_failure_threshold v)"
proof (induction ts arbitrary: s v)
  case Nil
  then show ?case by simp
next
  case (Cons t ts)
  let ?s1 = "fst (record_failure rid t s)"
  let ?v1 = "v\<lparr>rv_failure_count := rv_failure_count v + 1, rv_last_failure_time := t\<rparr>"
  have f: "\<not> snd (record_failure rid t s)" "active_version ?s1 rid = Some ?v1"
    "rs_breaker_enabled ?s1 = rs_breaker_enabled s"
    using record_failure_below [OF Cons.prems(1,2)] Cons.prems(4) by auto
  have "wf_store ?s1" using Cons.prems(1) by (rule wf_record_failure)
  from Cons.IH [OF this f(2)] Cons.prems(3,4) f
  show ?case by (auto simp: Let_def case_prod_unfold)
qed

lemma deploy_rule_active:
  "active_version (fst (deploy_rule rid cfg author now s)) rid = Some (snd (deploy_rule rid cfg author now s))"
  "snd (deploy_rule rid cfg author now s) =
     RuleVersion (rid @ ''-v'' @ dec_int (py_int (now * 1000))) rid cfg now author RS_MONITORING"
  "rs_breaker_enabled (fst (deploy_rule rid cfg author now s)) = rs_breaker_enabled s"
  by (simp_all add: deploy_rule_def Let_def active_version_def dget_dset)

lemma deploy_not_broken: "\<not> is_circuit_broken rid (fst (deploy_rule rid cfg author now s))"
  by (simp add: is_circuit_broken_def deploy_rule_active RuleVersion_def)

text \<open>
  The breaker of a freshly deployed version opens at its fifth failure and not before: the
  first four calls of \<open>record_failure\<close> answer \<open>False\<close>, the fifth answers \<open>True\<close> exactly when the
  breaker is enabled.
\<close>

theorem fresh_rule_trips_at_fifth_failure:
  assumes "reachable rule_init rule_step s" and "length ts = 4"
  shows "snd (record_failures rid (ts @ [t]) (fst (deploy_rule rid cfg author t0 s))) =
    replicate 4 False @ [rs_breaker_enabled s]"
proof -
  let ?d = "fst (deploy_rule rid cfg author t0 s)" and ?v = "snd (deploy_rule rid cfg author t0 s)"
  have wf: "wf_store ?d"
    using store.inv_reachable [OF assms(1)] by (rule wf_deploy_rule)
  have v: "active_version ?d rid = Some ?v" "rv_circuit_state ?v = RC_CLOSED"
    "rv_failure_count ?v = 0" "rv_failure_threshold ?v = 5" "rs_breaker_enabled ?d = rs_breaker_enabled s"
    by (simp_all add: deploy_rule_active RuleVersion_def)
  have "rv_failure_count ?v + int (length ts) < rv_failure_threshold ?v"
    by (simp add: v assms(2))
  note below = record_failures_below [OF wf v(1,2) this]
  show ?thesis
    using below record_failure_trips_iff v assms(2) by (fastforce simp: record_failures_snoc)
qed

theorem fresh_rule_trips_at_fifth_failure_witness:
  "snd (record_failures ''r1'' ([1, 2, 3, 4] @ [5])
     (fst (deploy_rule ''r1'' JNull ''ops'' 0 (init_rule_store True True True No_File True)))) =
   replicate 4 False @ [rs_breaker_enabled (init_rule_store True True True No_File True)]"
  by (rule fresh_rule_trips_at_fifth_failure)
     (simp_all add: reachable.reach_init)

text \<open>
  C11. A trip opens the breaker of the active version and marks it broken. Then, when automatic rollback is on and an
  earlier version of the rule (before the last deployed one) is \<open>ACTIVE\<close>, the newest of these becomes the active version, as it
  was but with a closed breaker and no failures counted, and the rule is not reported as broken; otherwise the
  rule has no active version and is reported as broken. The tripped version is never the one rolled back to.
\<close>

theorem trip_rolls_back:
  assumes wf: "wf_store s" and active: "dget (rs_active s) rid = Some i" and trip: "snd (record_failure rid now s)"
  shows "let s' = fst (record_failure rid now s);
             stable = (\<lambda>j. j < length (versions s rid) - 1 \<and> j \<noteq> i \<and> rv_state (versions s rid ! j) = RS_ACTIVE)
    in rv_state (versions s' rid ! i) = RS_CIRCUIT_BROKEN \<and> rv_circuit_state (versions s' rid ! i) = RC_OPEN \<and>
       (if rs_auto_rollback s \<and> (\<exists>j. stable j)
        then \<exists>j. stable j \<and> (\<forall>k. stable k \<longrightarrow> k \<le> j) \<and>
          active_version s' rid = Some ((versions s rid ! j)\<lparr>rv_circuit_state := RC_CLOSED, rv_failure_count := 0\<rparr>) \<and>
          \<not> is_circuit_broken rid s'
        else active_version s' rid = None \<and> is_circuit_broken rid s')"
proof -
  obtain s' where ret: "record_failure rid now s = (s', True)"
    using trip by (cases "record_failure rid now s") simp
  obtain v s2 where f: "i < length (versions s rid)"
    "rv_state v = RS_CIRCUIT_BROKEN" "rv_circuit_state v = RC_OPEN" "rv_rule_id v = rid"
    "wf_store s2" "active_version s2 rid = None" "rs_auto_rollback s2 = rs_auto_rollback s"
    "versions s2 = (versions s)(rid := (versions s rid)[i := v])"
    "s' = update_stats (if rs_auto_rollback s then fst (rollback_to_previous rid s2) else s2)"
    using record_failure_True [OF wf ret] active by (metis option.inject)
  have av: "active_version (update_stats x) = active_version x" for x
    by (simp add: active_version_def fun_eq_iff)
  have vs: "versions (update_stats x) = versions x" for x by simp
  have "v \<in> set (versions s2 rid)"
    using f(1,8) set_update_memI by fastforce
  then have broken: "is_circuit_broken rid s2"
    using is_circuit_broken_wf [OF f(5)] f(2,6) by blast
  have cb: "is_circuit_broken rid (update_stats x) = is_circuit_broken rid x" for x
    by (simp add: is_circuit_broken_def av split: option.split)
  define stable where "stable j \<longleftrightarrow> j < length (versions s rid) - 1 \<and> j \<noteq> i \<and> rv_state (versions s rid ! j) = RS_ACTIVE" for j
  let ?bl = "butlast (versions s2 rid)"
  have st: "stable j \<longleftrightarrow> j < length ?bl \<and> rv_state (?bl ! j) = RS_ACTIVE" for j
    using f(1,2,8) by (cases "j = i") (auto simp: stable_def nth_butlast)
  have "rv_state (versions s' rid ! i) = RS_CIRCUIT_BROKEN \<and> rv_circuit_state (versions s' rid ! i) = RC_OPEN \<and>
       (if rs_auto_rollback s \<and> (\<exists>j. stable j)
        then \<exists>j. stable j \<and> (\<forall>k. stable k \<longrightarrow> k \<le> j) \<and>
          active_version s' rid = Some ((versions s rid ! j)\<lparr>rv_circuit_state := RC_CLOSED, rv_failure_count := 0\<rparr>) \<and>
          \<not> is_circuit_broken rid s'
        else active_version s' rid = None \<and> is_circuit_broken rid s')"
  proof (cases "rs_auto_rollback s")
    case False
    then show ?thesis using f broken by (simp add: av cb vs)
  next
    case True
    show ?thesis
    proof (cases "find_last_index (\<lambda>v. rv_state v = RS_ACTIVE) ?bl")
      case None
      then have "\<not> stable j" for j using st [of j] nth_mem [of j ?bl] by (auto simp: find_last_index_None)
      then show ?thesis
        using None rollback_to_previous_spec [OF f(5), of rid] f broken True by (simp add: av cb vs)
    next
      case (Some j)
      note g = find_last_index_SomeD [OF Some]
      have j: "stable j" using g(1,2) st by blast
      have "k \<le> j" if "stable k" for k using g(3) [of k] that st [of k] by (meson not_le)
      moreover have "j \<noteq> i" using j by (simp add: stable_def)
      moreover have "versions s2 rid ! j = versions s rid ! j" using f(8) \<open>j \<noteq> i\<close> by simp
      ultimately show ?thesis
        using rollback_to_previous_spec [OF f(5), of rid] Some f True j
        by (auto simp: av cb vs is_circuit_broken_def)
    qed
  qed
  then show ?thesis unfolding Let_def ret fst_conv stable_def .
qed

text \<open>Two versions have become active and a third has been deployed: its trip leads back to the second.\<close>

definition three_versions :: rule_store where
  "three_versions = (init_rule_store False True True No_File True)
     \<lparr>rs_rules := [(''r'', [RuleVersion ''v1'' ''r'' (JInt 1) 0 ''ops'' RS_ACTIVE, RuleVersion ''v2'' ''r'' (JInt 2) 2 ''ops'' RS_ACTIVE,
        (RuleVersion ''v3'' ''r'' (JInt 3) 4 ''ops'' RS_MONITORING)\<lparr>rv_failure_count := 4\<rparr>])],
      rs_active := [(''r'', 2)]\<rparr>"

lemma three_versions_facts:
  "wf_store three_versions" "dget (rs_active three_versions) ''r'' = Some 2" "rs_auto_rollback three_versions"
  "snd (record_failure ''r'' 6 three_versions)"
  "versions three_versions ''r'' = [RuleVersion ''v1'' ''r'' (JInt 1) 0 ''ops'' RS_ACTIVE, RuleVersion ''v2'' ''r'' (JInt 2) 2 ''ops'' RS_ACTIVE,
     (RuleVersion ''v3'' ''r'' (JInt 3) 4 ''ops'' RS_MONITORING)\<lparr>rv_failure_count := 4\<rparr>]"
  by (simp_all add: three_versions_def init_rule_store_def wf_store_def tables_ok_def file_ok_def version_ok_def RuleVersion_def
      versions_def dget_or_def record_failure_def Let_def wf_dict_def)

theorem trip_rolls_back_witness:
  "\<exists>v. active_version (fst (record_failure ''r'' 6 three_versions)) ''r'' = Some v \<and> rv_config v = JInt 2 \<and> rv_circuit_state v = RC_CLOSED"
proof -
  note t = three_versions_facts
  define stable where "stable j \<longleftrightarrow> j < length (versions three_versions ''r'') - 1 \<and> j \<noteq> 2 \<and> rv_state (versions three_versions ''r'' ! j) = RS_ACTIVE" for j
  have one: "stable 1" "rv_config (versions three_versions ''r'' ! 1) = JInt 2" by (simp_all add: stable_def t(5) RuleVersion_def)
  then obtain j where j: "stable j" "stable 1 \<longrightarrow> 1 \<le> j"
    and av: "active_version (fst (record_failure ''r'' 6 three_versions)) ''r'' =
      Some ((versions three_versions ''r'' ! j)\<lparr>rv_circuit_state := RC_CLOSED, rv_failure_count := 0\<rparr>)"
    using trip_rolls_back [OF t(1,2,4), folded stable_def] t(3) unfolding Let_def by metis
  have "j = 1" using j one(1) by (simp add: stable_def t(5))
  then show ?thesis using av one(2) by simp
qed

subsection \<open>The half-open state\<close>

lemma active_version_other_fields [simp]:
  "active_version (update_stats s) = active_version s"
  "active_version (auto_persist now s) = active_version s"
  "active_version (s\<lparr>rs_stats := st\<rparr>) = active_version s"
  "active_version (s\<lparr>rs_file := f\<rparr>) = active_version s"
  "active_version (s\<lparr>rs_writable := w\<rparr>) = active_version s"
  by (simp_all add: active_version_def versions_def fun_eq_iff)

lemma active_version_other_rule [simp]:
  "r \<noteq> rid \<Longrightarrow> active_version (set_version r i v s) rid = active_version s rid"
  "r \<noteq> rid \<Longrightarrow> active_version (s\<lparr>rs_active := dset r i A\<rparr>) rid = active_version (s\<lparr>rs_active := A\<rparr>) rid"
  "r \<noteq> rid \<Longrightarrow> active_version (s\<lparr>rs_active := ddel r A\<rparr>) rid = active_version (s\<lparr>rs_active := A\<rparr>) rid"
  by (simp_all add: active_version_def dget_dset dget_ddel)

lemma active_version_same_active [simp]: "active_version (s\<lparr>rs_active := rs_active s\<rparr>) = active_version s"
  by simp

lemma rollback_other_rule:
  "r \<noteq> rid \<Longrightarrow> active_version (fst (rollback_to_previous r s)) rid = active_version s rid"
  by (simp add: rollback_to_previous_def Let_def active_version_def dget_dset split: option.split)

lemma failure_other_rule:
  assumes wf: "wf_store s" and ne: "r \<noteq> rid"
  shows "active_version (fst (record_failure r now s)) rid = active_version s rid"
proof (cases "dget (rs_active s) r")
  case None
  then show ?thesis by (simp add: record_failure_def)
next
  case (Some i)
  have "tables_ok (rs_rules s) (rs_active s)" using wf by (simp add: wf_store_def)
  note act = tables_ok_activeD [OF this Some]
  then have "rv_rule_id (versions s r ! i) = r" by (simp add: version_ok_def)
  then show ?thesis
    using Some ne act by (simp add: record_failure_def Let_def trigger_circuit_break_def
        rollback_other_rule) (simp add: active_version_def dget_ddel)
qed

text \<open>The events that leave the choice of the active version of \<open>rid\<close> alone.\<close>

fun keeps_choice :: "string \<Rightarrow> rule_event \<Rightarrow> bool" where
  "keeps_choice rid (RE_Deploy r c a t) = (r \<noteq> rid)"
| "keeps_choice rid (RE_Rollback r t) = (r \<noteq> rid)"
| "keeps_choice rid (RE_Half_Open r t) = (r \<noteq> rid)"
| "keeps_choice rid RE_Load = False"
| "keeps_choice rid _ = True"

lemma half_open_step:
  assumes wf: "wf_store s" and v: "active_version s rid = Some v" "rv_circuit_state v = RC_HALF_OPEN"
    and e: "keeps_choice rid e"
  shows "\<exists>w. active_version (rule_step e s) rid = Some w \<and> rv_circuit_state w = RC_HALF_OPEN"
proof (cases e)
  case (RE_Trigger r b t)
  obtain i where i: "dget (rs_active s) rid = Some i" "v = versions s rid ! i"
    using v by (auto simp: active_version_def)
  have "tables_ok (rs_rules s) (rs_active s)" using wf by (simp add: wf_store_def)
  note act = tables_ok_activeD [OF this i(1)]
  show ?thesis
  proof (cases "r = rid")
    case True
    then show ?thesis
      using RE_Trigger i act v by (simp add: record_trigger_def active_version_set)
  next
    case False
    then show ?thesis using RE_Trigger v by (simp add: record_trigger_def split: option.split)
  qed
next
  case (RE_Failure r t)
  show ?thesis
  proof (cases "r = rid")
    case True
    then show ?thesis using RE_Failure record_failure_below(2) [OF wf v(1)] v(2) by simp
  next
    case False
    then show ?thesis using RE_Failure failure_other_rule [OF wf] v by simp
  qed
next
  case (RE_Deploy r c a t)
  then show ?thesis
    using v e by (auto simp: deploy_rule_def Let_def active_version_def dget_dset)
next
  case (RE_Rollback r t)
  then show ?thesis
    using v e rollback_other_rule [of r rid s]
    by (auto simp: rollback_rule_def split: prod.split option.split)
next
  case (RE_Half_Open r t)
  then show ?thesis
    using v e by (auto simp: attempt_half_open_def Let_def active_version_def dget_dset split: option.split)
qed (use v e in \<open>simp_all add: persist_def get_stats_def Let_def\<close>)

text \<open>
  A version that entered \<open>HALF_OPEN\<close> stays the active version of its rule, half open, under
  every sequence of triggers, failures and other operations that do not choose a version anew:
  successes do not close the breaker and failures do not open it again.
\<close>

theorem half_open_is_final:
  "wf_store s \<Longrightarrow> active_version s rid = Some v \<Longrightarrow> rv_circuit_state v = RC_HALF_OPEN \<Longrightarrow>
   list_all (keeps_choice rid) es \<Longrightarrow>
   \<exists>w. active_version (fold rule_step es s) rid = Some w \<and> rv_circuit_state w = RC_HALF_OPEN"
proof (induction es arbitrary: s v)
  case Nil
  then show ?case by simp
next
  case (Cons e es)
  obtain w where "active_version (rule_step e s) rid = Some w" "rv_circuit_state w = RC_HALF_OPEN"
    using half_open_step [of s rid v e] Cons.prems by auto
  then show ?case using Cons.IH [of "rule_step e s" w] Cons.prems store.inv_step by simp
qed

text \<open>A store whose only rule tripped and then went half open, used by the witnesses.\<close>

definition demo_store :: rule_store where
  "demo_store = fst (deploy_rule ''r'' JNull ''ops'' 0 (init_rule_store False True True No_File True))"

definition demo_tripped :: rule_store where
  "demo_tripped = fst (record_failures ''r'' [1, 2, 3, 4, 5] demo_store)"

lemmas demo_eval = demo_store_def demo_tripped_def deploy_rule_def record_failure_def set_version_def
  versions_def dget_or_def init_rule_store_def RuleVersion_def auto_persist_def update_stats_def
  trigger_circuit_break_def rollback_to_previous_def find_last_index_def attempt_half_open_def
  active_version_def Let_def

lemma wf_demo: "wf_store demo_store" "wf_store demo_tripped"
proof -
  show "wf_store demo_store" unfolding demo_store_def
    by (intro wf_deploy_rule store.inv_init) simp
  then show "wf_store demo_tripped" unfolding demo_tripped_def
    by (simp add: Let_def case_prod_unfold wf_record_failure)
qed

theorem half_open_is_final_witness:
  "\<exists>w. active_version (fold rule_step [RE_Failure ''r'' 70, RE_Trigger ''r'' True 71, RE_Persist 72]
          (fst (attempt_half_open ''r'' 65 demo_tripped))) ''r'' = Some w \<and>
       rv_circuit_state w = RC_HALF_OPEN"
proof -
  have "\<exists>v. active_version (fst (attempt_half_open ''r'' 65 demo_tripped)) ''r'' = Some v \<and>
        rv_circuit_state v = RC_HALF_OPEN"
    by (simp add: demo_eval)
  then show ?thesis
    using half_open_is_final [OF wf_attempt_half_open [OF wf_demo(2)], of "''r''" 65 "''r''" _
        "[RE_Failure ''r'' 70, RE_Trigger ''r'' True 71, RE_Persist 72]"] by auto
qed

subsection \<open>Restart\<close>

text \<open>A new process: empty tables, the same file.\<close>

definition restart :: "rule_store \<Rightarrow> rule_store" where
  "restart s = init_rule_store (rs_auto_persist s) (rs_auto_rollback s) (rs_breaker_enabled s)
     (rs_file s) (rs_writable s)"

lemma load_after_persist:
  assumes "wf_store s" "rs_writable s"
  shows "rs_rules (fst (load (restart (fst (persist now s))))) = reload_rules (rs_rules s)"
    "rs_active (fst (load (restart (fst (persist now s))))) = reload_active (rs_rules s)"
    "snd (load (restart (fst (persist now s)))) = Inr (int (length (rs_rules s)))"
proof -
  let ?r = "restart (fst (persist now s))"
  obtain d where d: "rs_file ?r = Doc d" "sd_rules d = Some (encode_rules (rs_rules s))"
    using assms(2) by (simp add: restart_def init_rule_store_def persist_def encode_rules_def)
  have "wf_dict (rs_rules s)" using assms(1) by (simp add: wf_store_def tables_ok_def)
  note l = load_saved [OF d this]
  show "rs_rules (fst (load ?r)) = reload_rules (rs_rules s)"
    "rs_active (fst (load ?r)) = reload_active (rs_rules s)"
    "snd (load ?r) = Inr (int (length (rs_rules s)))"
    by (simp_all add: l)
qed

lemma versions_of_rules: "rs_rules s' = reload_rules (rs_rules s) \<Longrightarrow> versions s' rid = map reloaded (versions s rid)"
  by (simp add: versions_def dget_or_def dget_reload_rules split: option.split)

text \<open>
  Saving and loading in a new process succeeds and restores every version of every rule, in
  order, but for its thresholds and its two time stamps, which come back as the defaults; the
  active version of a rule is afterwards its newest one in state \<open>ACTIVE\<close> or \<open>MONITORING\<close>.
\<close>

theorem restart_restores:
  assumes "wf_store s" "rs_writable s"
  shows "snd (load (restart (fst (persist now s)))) = Inr (int (length (rs_rules s))) \<and>
    versions (fst (load (restart (fst (persist now s))))) rid = map reloaded (versions s rid) \<and>
    active_version (fst (load (restart (fst (persist now s))))) rid =
      map_option (\<lambda>i. reloaded (versions s rid ! i)) (find_last_index live (versions s rid))"
proof -
  let ?l = "fst (load (restart (fst (persist now s))))"
  note l = load_after_persist [OF assms, of now]
  have v: "versions ?l rid = map reloaded (versions s rid)" using l(1) by (rule versions_of_rules)
  have wd: "wf_dict (rs_rules s)" using assms(1) by (simp add: wf_store_def tables_ok_def)
  have a: "dget (rs_active ?l) rid = find_last_index live (versions s rid)"
    by (simp add: l(2) dget_reload_active [OF wd] versions_def dget_or_def split: option.split bind_split)
  have "active_version ?l rid =
      map_option (\<lambda>i. reloaded (versions s rid ! i)) (find_last_index live (versions s rid))"
    using find_last_index_SomeD(1) [of live "versions s rid"]
    by (cases "find_last_index live (versions s rid)") (simp_all add: active_version_def a v)
  then show ?thesis using l(3) v by simp
qed

theorem restart_restores_witness:
  "snd (load (restart (fst (persist 6 demo_tripped)))) = Inr 1 \<and>
   versions (fst (load (restart (fst (persist 6 demo_tripped))))) ''r'' =
     map reloaded (versions demo_tripped ''r'')"
proof -
  have "rs_writable demo_tripped" "int (length (rs_rules demo_tripped)) = 1"
    by (simp_all add: demo_eval)
  then show ?thesis using restart_restores [OF wf_demo(2), of 6 "''r''"] by simp
qed

text \<open>
  The cooldown of a broken rule does not survive a restart: whatever the time of its last
  failure, a rule with an open version can go half open as soon as the clock reads 60.
\<close>

theorem restart_forgets_cooldown:
  assumes wf: "wf_store s" and w: "rs_writable s"
    and v: "v \<in> set (versions s rid)" "rv_circuit_state v = RC_OPEN" and now: "60 \<le> now"
  shows "snd (attempt_half_open rid now (fst (load (restart (fst (persist t s))))))"
proof -
  let ?l = "fst (load (restart (fst (persist t s))))"
  let ?P = "\<lambda>v. rv_state v = RS_CIRCUIT_BROKEN \<and> rv_circuit_state v = RC_OPEN \<and>
                of_int (rv_cooldown_seconds v) \<le> now - rv_last_failure_time v"
  have vs: "versions ?l rid = map reloaded (versions s rid)"
    using load_after_persist(1) [OF wf w] by (rule versions_of_rules)
  have "version_ok rid v" using wf v(1) versions_okD by (auto simp: wf_store_def)
  then have "?P (reloaded v)" using v(2) now by (simp add: version_ok_def)
  then have "\<exists>w\<in>set (versions ?l rid). ?P w" using v(1) by (auto simp: vs)
  then obtain i where "find_index ?P (versions ?l rid) = Some i"
    using find_index_None [of ?P "versions ?l rid"] by auto
  then show ?thesis by (simp add: attempt_half_open_def Let_def)
qed

theorem restart_forgets_cooldown_witness:
  "\<not> snd (attempt_half_open ''r'' 61 demo_tripped) \<and>
   snd (attempt_half_open ''r'' 61 (fst (load (restart (fst (persist 6 demo_tripped))))))"
proof -
  let ?v = "versions demo_tripped ''r'' ! 0"
  have w: "rs_writable demo_tripped" and v: "?v \<in> set (versions demo_tripped ''r'')"
    "rv_circuit_state ?v = RC_OPEN"
    by (simp_all add: demo_eval)
  have "\<not> snd (attempt_half_open ''r'' 61 demo_tripped)"
    by (simp add: demo_eval)
  then show ?thesis using restart_forgets_cooldown [OF wf_demo(2) w v, of 61 6] by simp
qed

text \<open>
  Tripping a breaker does not write the state file: after a crash and a reload the store is
  the one that would have been loaded before the trip.
\<close>

theorem trip_not_persisted:
  assumes "snd (record_failure rid now s)"
  shows "load (restart (fst (record_failure rid now s))) = load (restart s)"
proof -
  have r: "rs_file (fst (rollback_to_previous r x)) = rs_file x \<and>
      rs_writable (fst (rollback_to_previous r x)) = rs_writable x \<and>
      rs_auto_persist (fst (rollback_to_previous r x)) = rs_auto_persist x \<and>
      rs_auto_rollback (fst (rollback_to_previous r x)) = rs_auto_rollback x \<and>
      rs_breaker_enabled (fst (rollback_to_previous r x)) = rs_breaker_enabled x" for r x
    by (simp add: rollback_to_previous_def Let_def set_version_def split: option.split)
  have "restart (fst (record_failure rid now s)) = restart s"
    using assms by (auto simp: record_failure_def trigger_circuit_break_def Let_def restart_def r
        set_version_def split: option.splits if_splits)
  then show ?thesis by simp
qed

theorem trip_not_persisted_witness:
  defines "s \<equiv> fst (record_failures ''r'' [1, 2, 3, 4] demo_store)"
  shows "snd (record_failure ''r'' 5 s) \<and> load (restart (fst (record_failure ''r'' 5 s))) = load (restart s)"
proof -
  have t: "snd (record_failure ''r'' 5 s)"
    by (simp add: s_def demo_eval)
  show ?thesis using t trip_not_persisted [OF t] by simp
qed

subsection \<open>Promotion\<close>

lemma trigger_version_counts:
  "rv_trigger_count (trigger_version b now v) = rv_trigger_count v + 1"
  "rv_block_count (trigger_version b now v) = rv_block_count v + (if b then 1 else 0)"
  "rv_false_positive_count (trigger_version b now v) = rv_false_positive_count v + (if b then 0 else 1)"
  by (simp_all add: trigger_version_def Let_def)

lemma ratio_iff: "0 < n \<Longrightarrow> (of_int b / of_int n :: rat) \<ge> 8 / 10 \<longleftrightarrow> 4 * n \<le> 5 * b"
proof -
  assume n: "0 < n"
  then have "(of_int b / of_int n :: rat) \<ge> 8 / 10 \<longleftrightarrow> (8 / 10) * of_int n \<le> (of_int b :: rat)"
    by (simp add: le_divide_eq)
  also have "\<dots> \<longleftrightarrow> (of_int (4 * n) :: rat) \<le> of_int (5 * b)"
    by (simp add: field_simps)
  finally show ?thesis by (simp only: of_int_le_iff)
qed

lemma trigger_version_promotes:
  "rv_state (trigger_version b now v) =
     (if rv_state v = RS_MONITORING \<and> 10 \<le> rv_trigger_count v + 1 \<and>
         4 * (rv_trigger_count v + 1) \<le> 5 * (rv_block_count v + (if b then 1 else 0))
      then RS_ACTIVE else rv_state v)"
  using ratio_iff [of "rv_trigger_count v + 1" "rv_block_count v"]
    ratio_iff [of "rv_trigger_count v + 1" "rv_block_count v + 1"]
  by (auto simp: trigger_version_def Let_def)

lemma promotion_window_snoc:
  "(\<exists>k\<in>{10..length (bs @ [p])}. 4 * int k \<le> 5 * count f (take k (bs @ [p]))) \<longleftrightarrow>
   (\<exists>k\<in>{10..length bs}. 4 * int k \<le> 5 * count f (take k bs)) \<or>
   10 \<le> length bs + 1 \<and> 4 * (int (length bs) + 1) \<le> 5 * (count f bs + (if f p then 1 else 0))"
  (is "?L \<longleftrightarrow> ?R")
proof
  assume ?L
  then obtain k where k: "k \<in> {10..length (bs @ [p])}" "4 * int k \<le> 5 * count f (take k (bs @ [p]))"
    by blast
  show ?R
  proof (cases "k = length bs + 1")
    case True
    then show ?thesis using k by auto
  next
    case False
    then show ?thesis using k by auto
  qed
next
  assume ?R
  then show ?L
  proof
    assume "\<exists>k\<in>{10..length bs}. 4 * int k \<le> 5 * count f (take k bs)"
    then obtain k where "k \<in> {10..length bs}" "4 * int k \<le> 5 * count f (take k bs)" by blast
    then show ?L by (intro bexI [of _ k]) auto
  next
    assume "10 \<le> length bs + 1 \<and> 4 * (int (length bs) + 1) \<le> 5 * (count f bs + (if f p then 1 else 0))"
    then show ?L by (intro bexI [of _ "length bs + 1"]) auto
  qed
qed

text \<open>A run of triggers, each blocked or not, with its time.\<close>

definition trigger_run :: "(bool \<times> time) list \<Rightarrow> rule_version \<Rightarrow> rule_version" where
  "trigger_run bs v = fold (\<lambda>(b, t). trigger_version b t) bs v"

text \<open>
  Reporting triggers to a fresh version counts them exactly, and makes it \<open>ACTIVE\<close> precisely
  when, after some tenth or later trigger, at least four fifths of the triggers so far had been
  blocked; afterwards it is never demoted by triggers.
\<close>

theorem promotion_spec:
  "rv_trigger_count (trigger_run bs (RuleVersion vid rid cfg t0 a RS_MONITORING)) = int (length bs) \<and>
   rv_block_count (trigger_run bs (RuleVersion vid rid cfg t0 a RS_MONITORING)) = count fst bs \<and>
   rv_false_positive_count (trigger_run bs (RuleVersion vid rid cfg t0 a RS_MONITORING)) =
     int (length bs) - count fst bs \<and>
   rv_state (trigger_run bs (RuleVersion vid rid cfg t0 a RS_MONITORING)) =
     (if \<exists>k\<in>{10..length bs}. 4 * int k \<le> 5 * count fst (take k bs) then RS_ACTIVE else RS_MONITORING)"
proof (induction bs rule: rev_induct)
  case Nil
  then show ?case by (simp add: trigger_run_def RuleVersion_def)
next
  case (snoc p bs)
  obtain b t where p: "p = (b, t)" by fastforce
  have step: "trigger_run (bs @ [p]) x = trigger_version b t (trigger_run bs x)" for x
    by (simp add: trigger_run_def p)
  show ?case
    unfolding promotion_window_snoc step trigger_version_counts trigger_version_promotes
    using snoc by (simp add: p)
qed

end
