(* ===== verification/Regex_Search.thy ===== *)
theory Regex_Search
  imports Photon_Prelude
begin

text \<open>
  The fragment of Python's \<open>re\<close> the code uses: \<open>re.search(pattern, text, re.IGNORECASE)\<close> with
  character classes, sequences, alternatives and repetitions, where only success matters. A
  pattern denotes a set of words; a search succeeds when the text has a factor in that set. The
  search is computed by derivatives, and shown to decide exactly that. Characters are code
  points below 256.
\<close>

datatype rx = Zero | One | Cls "char \<Rightarrow> bool" | Seq rx rx | Alt rx rx | AtLeast nat rx

text \<open>Which words a pattern matches. \<open>AtLeast n r\<close> is \<open>r{n,}\<close>.\<close>

inductive matches :: "rx \<Rightarrow> string \<Rightarrow> bool" where
  m_One: "matches One []"
| m_Cls: "p c \<Longrightarrow> matches (Cls p) [c]"
| m_Seq: "matches r u \<Longrightarrow> matches q v \<Longrightarrow> matches (Seq r q) (u @ v)"
| m_Alt1: "matches r u \<Longrightarrow> matches (Alt r q) u"
| m_Alt2: "matches q u \<Longrightarrow> matches (Alt r q) u"
| m_Done: "matches (AtLeast 0 r) []"
| m_More: "matches r u \<Longrightarrow> matches (AtLeast (n - 1) r) v \<Longrightarrow> matches (AtLeast n r) (u @ v)"

inductive_simps matches_simps [simp]:
  "matches Zero w" "matches One w" "matches (Cls p) w" "matches (Seq r q) w" "matches (Alt r q) w"

inductive_cases matches_AtLeastE: "matches (AtLeast n r) w"

fun nullable :: "rx \<Rightarrow> bool" where
  "nullable Zero = False"
| "nullable One = True"
| "nullable (Cls p) = False"
| "nullable (Seq r q) = (nullable r \<and> nullable q)"
| "nullable (Alt r q) = (nullable r \<or> nullable q)"
| "nullable (AtLeast n r) = (n = 0 \<or> nullable r)"

fun seq :: "rx \<Rightarrow> rx \<Rightarrow> rx" where
  "seq Zero q = Zero"
| "seq One q = q"
| "seq r q = Seq r q"

fun alt :: "rx \<Rightarrow> rx \<Rightarrow> rx" where
  "alt Zero q = q"
| "alt r Zero = r"
| "alt r q = Alt r q"

fun deriv :: "char \<Rightarrow> rx \<Rightarrow> rx" where
  "deriv c Zero = Zero"
| "deriv c One = Zero"
| "deriv c (Cls p) = (if p c then One else Zero)"
| "deriv c (Seq r q) =
     (if nullable r then alt (seq (deriv c r) q) (deriv c q) else seq (deriv c r) q)"
| "deriv c (Alt r q) = alt (deriv c r) (deriv c q)"
| "deriv c (AtLeast n r) = seq (deriv c r) (AtLeast (n - 1) r)"

lemma matches_seq [simp]: "matches (seq r q) w = matches (Seq r q) w"
  by (cases r) auto

lemma matches_alt [simp]: "matches (alt r q) w = matches (Alt r q) w"
  by (cases "(r, q)" rule: alt.cases) auto

lemma matches_AtLeast_empty: "matches r [] \<Longrightarrow> matches (AtLeast n r) []"
proof (induction n)
  case 0
  then show ?case by (simp add: m_Done)
next
  case (Suc n)
  then show ?case using m_More [of r "[]" "Suc n" "[]"] by simp
qed

lemma nullable_iff: "nullable r \<longleftrightarrow> matches r []"
proof (induction r)
  case (AtLeast n r)
  have "matches (AtLeast n r) [] \<Longrightarrow> n = 0 \<or> matches r []"
    by (erule matches_AtLeastE) auto
  then show ?case using AtLeast m_Done matches_AtLeast_empty by auto
qed auto

lemma AtLeast_mono:
  "matches q w \<Longrightarrow> q = AtLeast n r \<Longrightarrow> matches r [] \<Longrightarrow> matches (AtLeast (Suc n) r) w"
proof (induction q w arbitrary: n rule: matches.induct)
  case (m_Done r')
  then show ?case by (simp add: matches_AtLeast_empty)
next
  case (m_More r' u m v)
  then have eq: "m = n" "r' = r" by simp_all
  have "matches (AtLeast n r) v"
    using m_More.hyps m_More.IH(2) [of "n - 1"] m_More.prems eq by (cases n) simp_all
  then show ?case using matches.m_More [of r u "Suc n" v] m_More.hyps(1) eq by simp
qed simp_all

text \<open>A non-empty match of a repetition starts with a non-empty match of its body.\<close>

lemma AtLeast_Cons:
  "matches q w \<Longrightarrow> q = AtLeast n r \<Longrightarrow> w = c # s \<Longrightarrow>
   \<exists>u v. s = u @ v \<and> matches r (c # u) \<and> matches (AtLeast (n - 1) r) v"
proof (induction q w arbitrary: n s rule: matches.induct)
  case (m_More r' u m v)
  then have eq: "m = n" "r' = r" by simp_all
  show ?case
  proof (cases u)
    case Nil
    then obtain u1 v1 where u1: "s = u1 @ v1" "matches r (c # u1)" "matches (AtLeast (n - 1 - 1) r) v1"
      using m_More.IH(2) [of "n - 1" s] m_More.prems eq by auto
    have "matches r []" using m_More.hyps(1) Nil eq by simp
    then have "matches (AtLeast (Suc (n - 1 - 1)) r) v1"
      using AtLeast_mono [OF u1(3) refl] by simp
    then have "matches (AtLeast (n - 1) r) v1"
      using u1(3) by (cases "n - 1") (simp_all del: One_nat_def)
    then show ?thesis using u1 by blast
  next
    case (Cons a us)
    then have "s = us @ v" "matches r (c # us)" using m_More eq by auto
    then show ?thesis using m_More.hyps(2) eq by blast
  qed
qed simp_all

lemma deriv_iff: "matches (deriv c r) s \<longleftrightarrow> matches r (c # s)"
proof (induction r arbitrary: s)
  case (Seq r q)
  show ?case
    by (auto simp: Seq nullable_iff Cons_eq_append_conv)
next
  case (AtLeast n r)
  show ?case
  proof
    assume "matches (deriv c (AtLeast n r)) s"
    then obtain u v where "s = u @ v" "matches r (c # u)" "matches (AtLeast (n - 1) r) v"
      by (auto simp: AtLeast)
    then show "matches (AtLeast n r) (c # s)" using m_More [of r "c # u" n v] by simp
  next
    assume "matches (AtLeast n r) (c # s)"
    then show "matches (deriv c (AtLeast n r)) s"
      using AtLeast_Cons [OF _ refl refl] by (fastforce simp: AtLeast)
  qed
qed auto

fun match_prefix :: "rx \<Rightarrow> string \<Rightarrow> bool" where
  "match_prefix r [] = nullable r"
| "match_prefix r (c # s) = (nullable r \<or> match_prefix (deriv c r) s)"

text \<open>\<open>pattern.search(text)\<close> is not \<open>None\<close>.\<close>

fun rx_search :: "rx \<Rightarrow> string \<Rightarrow> bool" where
  "rx_search r [] = nullable r"
| "rx_search r (c # s) = (match_prefix r (c # s) \<or> rx_search r s)"

lemma match_prefix_iff: "match_prefix r s \<longleftrightarrow> (\<exists>u v. s = u @ v \<and> matches r u)"
  by (induction s arbitrary: r) (auto simp: nullable_iff deriv_iff Cons_eq_append_conv)

lemma rx_search_iff: "rx_search r s \<longleftrightarrow> (\<exists>u v w. s = u @ v @ w \<and> matches r v)"
proof (induction s)
  case Nil
  then show ?case by (simp add: nullable_iff)
next
  case (Cons c s)
  show ?case
  proof
    assume "rx_search r (c # s)"
    then consider u v where "c # s = u @ v" "matches r u" | u v w where "s = u @ v @ w" "matches r v"
      using Cons.IH unfolding rx_search.simps match_prefix_iff by blast
    then show "\<exists>u v w. c # s = u @ v @ w \<and> matches r v"
    proof cases
      case (1 u v)
      then show ?thesis by (intro exI [of _ "[]"] exI [of _ u] exI [of _ v]) simp
    next
      case (2 u v w)
      then show ?thesis by (intro exI [of _ "c # u"] exI [of _ v] exI [of _ w]) simp
    qed
  next
    assume "\<exists>u v w. c # s = u @ v @ w \<and> matches r v"
    then obtain u v w where uvw: "c # s = u @ v @ w" "matches r v" by blast
    show "rx_search r (c # s)"
    proof (cases u)
      case Nil
      then have "match_prefix r (c # s)" using uvw unfolding match_prefix_iff by auto
      then show ?thesis by simp
    next
      case (Cons a us)
      then have "s = us @ v @ w" using uvw(1) by simp
      then have "rx_search r s" using Cons.IH uvw(2) by blast
      then show ?thesis by simp
    qed
  qed
qed

lemma rx_search_append: "rx_search r v \<Longrightarrow> rx_search r (u @ v @ w)"
  unfolding rx_search_iff by (metis append.assoc)

subsection \<open>Building patterns\<close>

definition ci_char :: "char \<Rightarrow> rx" where
  "ci_char c = Cls (\<lambda>x. lower_char x = lower_char c)"

text \<open>A literal under \<open>re.IGNORECASE\<close>.\<close>

definition lit :: "string \<Rightarrow> rx" where
  "lit s = foldr (\<lambda>c r. Seq (ci_char c) r) s One"

fun alts :: "rx list \<Rightarrow> rx" where
  "alts [] = Zero"
| "alts [r] = r"
| "alts (r # rs) = Alt r (alts rs)"

fun seqs :: "rx list \<Rightarrow> rx" where
  "seqs [] = One"
| "seqs [r] = r"
| "seqs (r # rs) = Seq r (seqs rs)"

abbreviation star :: "rx \<Rightarrow> rx" where "star r \<equiv> AtLeast 0 r"
abbreviation plus1 :: "rx \<Rightarrow> rx" where "plus1 r \<equiv> AtLeast 1 r"
abbreviation opt :: "rx \<Rightarrow> rx" where "opt r \<equiv> Alt r One"

definition words :: "string list \<Rightarrow> rx" where
  "words ws = alts (map lit ws)"

text \<open>\<open>\s\<close> on \<open>str\<close>, and the dot, which does not match a newline.\<close>

definition is_space :: "char \<Rightarrow> bool" where
  "is_space c = (let n = of_char c :: nat in
     (9 \<le> n \<and> n \<le> 13) \<or> (28 \<le> n \<and> n \<le> 32) \<or> n = 133 \<or> n = 160)"

abbreviation space :: rx where "space \<equiv> Cls is_space"

definition one_of :: "string \<Rightarrow> rx" where
  "one_of cs = Cls (\<lambda>c. c \<in> set cs)"

abbreviation dot :: rx where "dot \<equiv> Cls (\<lambda>c. of_char c \<noteq> (10 :: nat))"

lemma matches_Cls_Seq: "matches (Seq (Cls p) r) w \<longleftrightarrow> (\<exists>d v. w = d # v \<and> p d \<and> matches r v)"
proof
  assume "matches (Seq (Cls p) r) w"
  then show "\<exists>d v. w = d # v \<and> p d \<and> matches r v" by auto
next
  assume "\<exists>d v. w = d # v \<and> p d \<and> matches r v"
  then obtain d v where "w = [d] @ v" "matches (Cls p) [d]" "matches r v" by auto
  then show "matches (Seq (Cls p) r) w" by (blast intro: m_Seq)
qed

lemma matches_lit: "matches (lit s) w \<longleftrightarrow> lower w = lower s"
proof (induction s arbitrary: w)
  case Nil
  then show ?case by (simp add: lit_def lower_def)
next
  case (Cons c s)
  have "matches (lit (c # s)) w \<longleftrightarrow> (\<exists>d v. w = d # v \<and> lower_char d = lower_char c \<and> matches (lit s) v)"
    unfolding lit_def by (simp add: matches_Cls_Seq ci_char_def del: matches_simps)
  also have "\<dots> \<longleftrightarrow> lower w = lower (c # s)"
    unfolding Cons by (cases w) (simp_all add: lower_def)
  finally show ?case .
qed

lemma matches_alts: "matches (alts rs) w \<longleftrightarrow> (\<exists>r\<in>set rs. matches r w)"
  by (induction rs rule: alts.induct) auto

lemma matches_words: "matches (words ws) w \<longleftrightarrow> lower w \<in> lower ` set ws"
  by (auto simp: words_def matches_alts matches_lit)

text \<open>Searching for a literal is a case-insensitive containment test.\<close>

lemma lower_append [simp]: "lower (s @ t) = lower s @ lower t"
  by (simp add: lower_def)

lemma rx_search_lit: "rx_search (lit s) t \<longleftrightarrow> contains (lower s) (lower t)"
proof
  assume "rx_search (lit s) t"
  then obtain u v w where "t = u @ v @ w" "lower v = lower s"
    by (auto simp: rx_search_iff matches_lit)
  then show "contains (lower s) (lower t)"
    unfolding sublist_def by (intro exI [of _ "lower u"] exI [of _ "lower w"]) simp
next
  assume "contains (lower s) (lower t)"
  then obtain u w where "lower t = u @ lower s @ w" by (auto simp: sublist_def)
  then have "map lower_char t = u @ (lower s @ w)" by (simp add: lower_def)
  then obtain t1 t' where t1: "t = t1 @ t'" "lower s @ w = map lower_char t'"
    unfolding map_eq_append_conv by blast
  obtain t2 t3 where "t' = t2 @ t3" "lower t2 = lower s"
    using t1(2) [symmetric] unfolding map_eq_append_conv lower_def by metis
  then show "rx_search (lit s) t"
    using t1(1) unfolding rx_search_iff matches_lit by blast
qed

lemma rx_search_Cls: "rx_search (Cls p) t \<longleftrightarrow> (\<exists>c\<in>set t. p c)"
proof
  assume "rx_search (Cls p) t"
  then show "\<exists>c\<in>set t. p c" by (auto simp: rx_search_iff)
next
  assume "\<exists>c\<in>set t. p c"
  then obtain c u w where "t = u @ [c] @ w" "p c" by (auto simp: in_set_conv_decomp)
  then show "rx_search (Cls p) t" unfolding rx_search_iff matches_simps by blast
qed

text \<open>A lower bound on the length of a match, which decides many searches of short texts.\<close>

fun min_len :: "rx \<Rightarrow> nat" where
  "min_len Zero = 0"
| "min_len One = 0"
| "min_len (Cls p) = 1"
| "min_len (Seq r q) = min_len r + min_len q"
| "min_len (Alt r q) = min (min_len r) (min_len q)"
| "min_len (AtLeast n r) = n * min_len r"

lemma matches_min_len: "matches r w \<Longrightarrow> min_len r \<le> length w"
proof (induction rule: matches.induct)
  case (m_More r u n v)
  then show ?case by (cases n) auto
qed auto

lemma rx_search_short: "length t < min_len r \<Longrightarrow> \<not> rx_search r t"
  using matches_min_len [of r] by (fastforce simp: rx_search_iff)

lemma min_len_lit [simp]: "min_len (lit s) = length s"
  by (induction s) (simp_all add: lit_def ci_char_def)

end
