(* ===== verification/Event_Validator.thy ===== *)
theory Event_Validator
  imports Regex_Search "HOL-Library.Char_ord" "HOL-Library.List_Lexorder" "HOL-Library.Multiset"
begin

text \<open>
  \<open>evolution/event_input_validator.py\<close>: the chain of checks an external event passes before it
  reaches the trainer. An event is a JSON value. Two things are arguments of the definitions:
  the keyed digest \<open>mac secret items\<close> (the hexadecimal HMAC-SHA256 of the printed list of
  items) and the order \<open>ord\<close> in which Python iterates over a set of strings, which it leaves
  unspecified. The numbers of an event are finite: Python's \<open>json.loads\<close> also reads \<open>NaN\<close>, with which every
  comparison is false, so that the code lets a time stamp of that value pass; such an event is outside the model.
\<close>

subsection \<open>Data\<close>

datatype val_code = VC_VALID | VC_INVALID_STRUCTURE | VC_INVALID_CONTENT | VC_UNTRUSTED_SOURCE
  | VC_RATE_LIMITED | VC_SIGNATURE_INVALID | VC_DUPLICATE | VC_MALICIOUS_PATTERN

fun val_code_value :: "val_code \<Rightarrow> string" where
  "val_code_value VC_VALID = ''valid''"
| "val_code_value VC_INVALID_STRUCTURE = ''invalid_structure''"
| "val_code_value VC_INVALID_CONTENT = ''invalid_content''"
| "val_code_value VC_UNTRUSTED_SOURCE = ''untrusted_source''"
| "val_code_value VC_RATE_LIMITED = ''rate_limited''"
| "val_code_value VC_SIGNATURE_INVALID = ''signature_invalid''"
| "val_code_value VC_DUPLICATE = ''duplicate''"
| "val_code_value VC_MALICIOUS_PATTERN = ''malicious_pattern''"

text \<open>The reason texts, with the values they quote.\<close>

datatype val_reason = No_Reason | Empty_Source | Untrusted_Source json | Rate_Exceeded nat
  | Not_A_Dict | Missing_Field string | Bad_Type string | Bad_Severity json
  | Too_Long string nat nat | Bad_Timestamp json | Pattern_In_Field string string
  | Missing_Signature | Signature_Mismatch | Duplicate_Id json

record val_result =
  vr_valid :: bool
  vr_code :: val_code
  vr_reason :: val_reason
  vr_cleaned_event :: "json option"
  vr_risk_score :: rat

definition ok_result :: val_result where
  "ok_result = \<lparr>vr_valid = True, vr_code = VC_VALID, vr_reason = No_Reason,
     vr_cleaned_event = None, vr_risk_score = 0\<rparr>"

definition bad_result :: "val_code \<Rightarrow> val_reason \<Rightarrow> val_result" where
  "bad_result c r = \<lparr>vr_valid = False, vr_code = c, vr_reason = r,
     vr_cleaned_event = None, vr_risk_score = 0\<rparr>"

record val_stats =
  vs_total_events :: int
  vs_valid_events :: int
  vs_rejected_events :: int
  vs_rejected_by_reason :: "(string, int) dict"
  vs_rate_limit_triggers :: int
  vs_malicious_pattern_hits :: int
  vs_signature_failures :: int
  vs_duplicate_events :: int

record validator =
  ev_trusted_sources :: "string list"
  ev_hmac_secret :: "string option"
  ev_max_events_per_second :: int
  ev_enable_signature_check :: bool
  ev_enable_duplicate_check :: bool
  ev_stats :: val_stats
  ev_event_timestamps :: "time list"
  ev_duplicate_cache :: "string list"
  ev_max_duplicate_cache_size :: nat

definition init_validator ::
  "string list \<Rightarrow> string option \<Rightarrow> int \<Rightarrow> bool \<Rightarrow> bool \<Rightarrow> nat \<Rightarrow> validator" where
  "init_validator trusted secret rate sig dup cache_size =
     \<lparr>ev_trusted_sources =
        (if trusted = [] then [''seccomp_logger'', ''audit_chain'', ''kvm_monitor'',
                               ''ebpf_monitor'', ''runtime_guard'', ''release_gate'']
         else remdups trusted),
      ev_hmac_secret = secret, ev_max_events_per_second = rate,
      ev_enable_signature_check = (sig \<and> secret \<noteq> None), ev_enable_duplicate_check = dup,
      ev_stats = \<lparr>vs_total_events = 0, vs_valid_events = 0, vs_rejected_events = 0,
        vs_rejected_by_reason = [], vs_rate_limit_triggers = 0, vs_malicious_pattern_hits = 0,
        vs_signature_failures = 0, vs_duplicate_events = 0\<rparr>,
      ev_event_timestamps = [], ev_duplicate_cache = [], ev_max_duplicate_cache_size = cache_size\<rparr>"

subsection \<open>The tables of the module\<close>

definition MALICIOUS_PATTERNS :: "(rx \<times> string) list" where
  "MALICIOUS_PATTERNS =
     [(seqs [one_of '';&|`$'', star space,
             words [''rm'', ''wget'', ''curl'', ''nc'', ''bash'', ''sh'', ''python'', ''perl''], space],
       ''command_injection''),
      (lit ''../../'', ''path_traversal''),
      (alts [seqs [lit ''union'', plus1 space, lit ''select''],
             seqs [lit ''drop'', plus1 space, lit ''table''],
             seqs [lit ''insert'', plus1 space, lit ''into''],
             seqs [lit ''delete'', plus1 space, lit ''from'']], ''sql_injection''),
      (seqs [lit ''<script'', star (Cls (\<lambda>c. c \<noteq> CHR ''>'')), lit ''>''], ''xss''),
      (Cls (\<lambda>c. of_char c < (32 :: nat) \<or> of_char c = (127 :: nat)), ''control_characters''),
      (seqs [AtLeast 500 (Cls (\<lambda>c. let n = of_char c :: nat in
                 (65 \<le> n \<and> n \<le> 90) \<or> (97 \<le> n \<and> n \<le> 122) \<or> (48 \<le> n \<and> n \<le> 57) \<or> n = 43 \<or> n = 47)),
             opt (lit ''=''), opt (lit ''='')], ''suspicious_long_base64''),
      (words [''setns'', ''unshare'', ''pivot_root'', ''mount_namespace'', ''user_namespace''],
       ''namespace_escape_keyword''),
      (words [''ptrace'', ''kexec_load'', ''reboot'', ''swapon''], ''high_risk_syscall_keyword'')]"

definition low_risk :: "string \<Rightarrow> bool" where
  "low_risk name \<longleftrightarrow> name \<in> set [''namespace_escape_keyword'', ''high_risk_syscall_keyword'']"

datatype py_type = T_Str | T_Number

text \<open>\<open>isinstance\<close>; a Boolean is an integer.\<close>

fun has_type :: "json \<Rightarrow> py_type \<Rightarrow> bool" where
  "has_type (JStr s) T_Str = True"
| "has_type (JInt i) T_Number = True"
| "has_type (JFloat r) T_Number = True"
| "has_type (JBool b) T_Number = True"
| "has_type _ _ = False"

definition REQUIRED_FIELDS :: "(string \<times> py_type) list" where
  "REQUIRED_FIELDS = [(''event_id'', T_Str), (''timestamp'', T_Number), (''source'', T_Str),
     (''severity'', T_Str)]"

definition FIELD_LENGTH_LIMITS :: "(string, nat) dict" where
  "FIELD_LENGTH_LIMITS = [(''event_id'', 128), (''source'', 64), (''severity'', 32),
     (''description'', 1024), (''payload'', 4096), (''rule_id'', 128), (''attack_type'', 64)]"

definition VALID_SEVERITIES :: "string list" where
  "VALID_SEVERITIES = [''low'', ''medium'', ''high'', ''critical'', ''info'', ''warning'']"

subsection \<open>The checks\<close>

text \<open>Membership in a set hashes the value: a list or a dictionary raises \<open>TypeError\<close>.\<close>

definition validate_source :: "validator \<Rightarrow> json \<Rightarrow> exc + val_result" where
  "validate_source s src =
     (if \<not> truthy src then Inr (bad_result VC_UNTRUSTED_SOURCE Empty_Source)
      else case src of
        JList _ \<Rightarrow> Inl TypeError
      | JObj _ \<Rightarrow> Inl TypeError
      | JStr t \<Rightarrow> (if t \<in> set (ev_trusted_sources s) then Inr ok_result
                  else Inr (bad_result VC_UNTRUSTED_SOURCE (Untrusted_Source src)))
      | _ \<Rightarrow> Inr (bad_result VC_UNTRUSTED_SOURCE (Untrusted_Source src)))"

definition check_rate_limit :: "time \<Rightarrow> validator \<Rightarrow> validator \<times> val_result" where
  "check_rate_limit now s =
     (let ts = filter (\<lambda>t. now - t < 1) (ev_event_timestamps s);
          s1 = s\<lparr>ev_event_timestamps := ts\<rparr>
      in if ev_max_events_per_second s \<le> int (length ts)
         then (s1\<lparr>ev_stats := (ev_stats s)\<lparr>vs_rate_limit_triggers := vs_rate_limit_triggers (ev_stats s) + 1\<rparr>\<rparr>,
               bad_result VC_RATE_LIMITED (Rate_Exceeded (length ts)))
         else (s1\<lparr>ev_event_timestamps := ts @ [now]\<rparr>, ok_result))"

fun check_fields :: "(string \<times> py_type) list \<Rightarrow> (string, json) dict \<Rightarrow> val_reason option" where
  "check_fields [] d = None"
| "check_fields ((f, ty) # rest) d =
     (case dget d f of
        None \<Rightarrow> Some (Missing_Field f)
      | Some v \<Rightarrow> (if has_type v ty then check_fields rest d else Some (Bad_Type f)))"

definition validate_structure :: "json \<Rightarrow> exc + val_result" where
  "validate_structure ev =
     (case ev of
        JObj d \<Rightarrow>
          (case check_fields REQUIRED_FIELDS d of
             Some r \<Rightarrow> Inr (bad_result VC_INVALID_STRUCTURE r)
           | None \<Rightarrow>
             (case dget_or d ''severity'' (JStr []) of
                JStr sev \<Rightarrow> (if lower sev \<in> set VALID_SEVERITIES then Inr ok_result
                             else Inr (bad_result VC_INVALID_STRUCTURE (Bad_Severity (JStr sev))))
              | _ \<Rightarrow> Inl AttributeError))
      | _ \<Rightarrow> Inr (bad_result VC_INVALID_STRUCTURE Not_A_Dict))"

fun check_lengths :: "(string \<times> nat) list \<Rightarrow> (string, json) dict \<Rightarrow> val_reason option" where
  "check_lengths [] d = None"
| "check_lengths ((f, m) # rest) d =
     (case dget d f of
        Some (JStr x) \<Rightarrow> (if m < length x then Some (Too_Long f (length x) m) else check_lengths rest d)
      | _ \<Rightarrow> check_lengths rest d)"

definition validate_content :: "time \<Rightarrow> (string, json) dict \<Rightarrow> exc + val_result" where
  "validate_content now d =
     (case check_lengths FIELD_LENGTH_LIMITS d of
        Some r \<Rightarrow> Inr (bad_result VC_INVALID_CONTENT r)
      | None \<Rightarrow>
        (let v = dget_or d ''timestamp'' (JInt 0)
         in case num_of v of
              None \<Rightarrow> Inl TypeError
            | Some ts \<Rightarrow> (if ts > now + 3600 \<or> ts < now - 31536000
                          then Inr (bad_result VC_INVALID_CONTENT (Bad_Timestamp v)) else Inr ok_result)))"

text \<open>All patterns on one string: the risk so far, and the pattern that rejects.\<close>

fun scan_value :: "(rx \<times> string) list \<Rightarrow> string \<Rightarrow> rat \<Rightarrow> rat \<times> string option" where
  "scan_value [] x risk = (risk, None)"
| "scan_value ((r, name) # ps) x risk =
     (if rx_search r x
      then (if low_risk name then scan_value ps x (risk + 1 / 10) else (risk, Some name))
      else scan_value ps x risk)"

fun scan_fields :: "(string \<times> json) list \<Rightarrow> rat \<Rightarrow> rat \<times> (string \<times> string) option" where
  "scan_fields [] risk = (risk, None)"
| "scan_fields ((k, v) # d) risk =
     (case v of
        JStr x \<Rightarrow>
          (case scan_value MALICIOUS_PATTERNS x risk of
             (risk', None) \<Rightarrow> scan_fields d risk'
           | (risk', Some name) \<Rightarrow> (risk', Some (name, k)))
      | _ \<Rightarrow> scan_fields d risk)"

definition detect_malicious_patterns :: "(string, json) dict \<Rightarrow> validator \<Rightarrow> validator \<times> val_result" where
  "detect_malicious_patterns d s =
     (case scan_fields d 0 of
        (risk, None) \<Rightarrow> (s, ok_result\<lparr>vr_risk_score := risk\<rparr>)
      | (risk, Some (name, k)) \<Rightarrow>
          (s\<lparr>ev_stats := (ev_stats s)\<lparr>vs_malicious_pattern_hits := vs_malicious_pattern_hits (ev_stats s) + 1\<rparr>\<rparr>,
           (bad_result VC_MALICIOUS_PATTERN (Pattern_In_Field name k))\<lparr>vr_risk_score := 1\<rparr>))"

definition is_ascii :: "string \<Rightarrow> bool" where
  "is_ascii x = list_all (\<lambda>c. of_char c < (128 :: nat)) x"

definition sign_data :: "(string, json) dict \<Rightarrow> (string \<times> json) list" where
  "sign_data d = sort_key fst (filter (\<lambda>(k, v). k \<noteq> ''signature'') d)"

definition verify_signature ::
  "(string \<Rightarrow> (string \<times> json) list \<Rightarrow> string) \<Rightarrow> (string, json) dict \<Rightarrow> validator \<Rightarrow>
   validator \<times> (exc + val_result)" where
  "verify_signature mac d s =
     (let sig = dget_or d ''signature'' (JStr []);
          fail = s\<lparr>ev_stats := (ev_stats s)\<lparr>vs_signature_failures := vs_signature_failures (ev_stats s) + 1\<rparr>\<rparr>
      in if \<not> truthy sig then (fail, Inr (bad_result VC_SIGNATURE_INVALID Missing_Signature))
         else case ev_hmac_secret s of
           None \<Rightarrow> (s, Inl AttributeError)
         | Some secret \<Rightarrow>
           (case sig of
              JStr x \<Rightarrow>
                (if \<not> is_ascii x then (s, Inl TypeError)
                 else if x \<noteq> mac secret (sign_data d)
                 then (fail, Inr (bad_result VC_SIGNATURE_INVALID Signature_Mismatch))
                 else (s, Inr ok_result))
            | _ \<Rightarrow> (s, Inl TypeError)))"

text \<open>When the cache is over its size, half of it goes, in the order Python lists the set.\<close>

definition check_duplicate ::
  "(string list \<Rightarrow> string list) \<Rightarrow> string \<Rightarrow> validator \<Rightarrow> validator \<times> val_result" where
  "check_duplicate ord eid s =
     (if eid \<in> set (ev_duplicate_cache s)
      then (s\<lparr>ev_stats := (ev_stats s)\<lparr>vs_duplicate_events := vs_duplicate_events (ev_stats s) + 1\<rparr>\<rparr>,
            bad_result VC_DUPLICATE (Duplicate_Id (JStr eid)))
      else
        (let c = ev_duplicate_cache s @ [eid];
             m = ev_max_duplicate_cache_size s
         in (s\<lparr>ev_duplicate_cache := (if m < length c then drop (m div 2) (ord c) else c)\<rparr>, ok_result)))"

definition clean_char :: "char \<Rightarrow> bool" where
  "clean_char c = (let n = of_char c :: nat in
     \<not> (n \<le> 8 \<or> n = 11 \<or> n = 12 \<or> (14 \<le> n \<and> n \<le> 31) \<or> n = 127))"

fun clean_value :: "string \<Rightarrow> json \<Rightarrow> json" where
  "clean_value k (JStr x) =
     JStr (let y = filter clean_char x; m = dget_or FIELD_LENGTH_LIMITS k 8192
           in if m < length y then take m y else y)"
| "clean_value k v = v"

definition clean_event :: "(string, json) dict \<Rightarrow> (string, json) dict" where
  "clean_event d = map (\<lambda>(k, v). (k, clean_value k v)) d"

definition reject_event :: "val_result \<Rightarrow> validator \<Rightarrow> validator" where
  "reject_event r s = s\<lparr>ev_stats := (ev_stats s)\<lparr>
     vs_rejected_events := vs_rejected_events (ev_stats s) + 1,
     vs_rejected_by_reason := bump (val_code_value (vr_code r)) (vs_rejected_by_reason (ev_stats s))\<rparr>\<rparr>"

subsection \<open>The chain\<close>

datatype val_step = S_source | S_rate_limit | S_structure | S_content | S_malicious_pattern
  | S_signature | S_duplicate

definition build_validation_chain :: "validator \<Rightarrow> val_step list" where
  "build_validation_chain s =
     [S_source, S_rate_limit, S_structure, S_content, S_malicious_pattern] @
     (if ev_enable_signature_check s then [S_signature] else []) @
     (if ev_enable_duplicate_check s then [S_duplicate] else [])"

text \<open>
  One step on an event. The steps after the structure check are only run on dictionaries; on
  another value their first subscript or attribute fails.
\<close>

fun run_step :: "(string \<Rightarrow> (string \<times> json) list \<Rightarrow> string) \<Rightarrow> (string list \<Rightarrow> string list) \<Rightarrow> time \<Rightarrow>
    json \<Rightarrow> json \<Rightarrow> val_step \<Rightarrow> validator \<Rightarrow> validator \<times> (exc + val_result)" where
  "run_step mac ord now src ev S_source s = (s, validate_source s src)"
| "run_step mac ord now src ev S_rate_limit s = apsnd Inr (check_rate_limit now s)"
| "run_step mac ord now src ev S_structure s = (s, validate_structure ev)"
| "run_step mac ord now src (JObj d) S_content s = (s, validate_content now d)"
| "run_step mac ord now src (JObj d) S_malicious_pattern s = apsnd Inr (detect_malicious_patterns d s)"
| "run_step mac ord now src (JObj d) S_signature s = verify_signature mac d s"
| "run_step mac ord now src (JObj d) S_duplicate s =
     (case dget_or d ''event_id'' (JStr []) of
        JStr eid \<Rightarrow> apsnd Inr (check_duplicate ord eid s)
      | _ \<Rightarrow> (s, Inl TypeError))"
| "run_step mac ord now src _ _ s = (s, Inl AttributeError)"

fun run_chain :: "(string \<Rightarrow> (string \<times> json) list \<Rightarrow> string) \<Rightarrow> (string list \<Rightarrow> string list) \<Rightarrow> time \<Rightarrow>
    json \<Rightarrow> json \<Rightarrow> val_step list \<Rightarrow> rat \<Rightarrow> validator \<Rightarrow> validator \<times> (exc + (val_result + rat))" where
  "run_chain mac ord now src ev [] risk s = (s, Inr (Inr risk))"
| "run_chain mac ord now src ev (st # sts) risk s =
     (case run_step mac ord now src ev st s of
        (s', Inl e) \<Rightarrow> (s', Inl e)
      | (s', Inr r) \<Rightarrow>
        (if \<not> vr_valid r then (s', Inr (Inl r))
         else run_chain mac ord now src ev sts (if st = S_malicious_pattern then vr_risk_score r else risk) s'))"

text \<open>\<open>source or event.get("source", "")\<close>.\<close>

definition effective_source :: "string option \<Rightarrow> json \<Rightarrow> exc + json" where
  "effective_source src ev =
     (case src of
        Some (c # cs) \<Rightarrow> Inr (JStr (c # cs))
      | _ \<Rightarrow> (case ev of JObj d \<Rightarrow> Inr (dget_or d ''source'' (JStr [])) | _ \<Rightarrow> Inl AttributeError))"

definition validate :: "(string \<Rightarrow> (string \<times> json) list \<Rightarrow> string) \<Rightarrow> (string list \<Rightarrow> string list) \<Rightarrow> time \<Rightarrow>
    json \<Rightarrow> string option \<Rightarrow> validator \<Rightarrow> validator \<times> (exc + val_result)" where
  "validate mac ord now ev source s =
     (let s1 = s\<lparr>ev_stats := (ev_stats s)\<lparr>vs_total_events := vs_total_events (ev_stats s) + 1\<rparr>\<rparr>
      in case effective_source source ev of
           Inl e \<Rightarrow> (s1, Inl e)
         | Inr src \<Rightarrow>
           (case run_chain mac ord now src ev (build_validation_chain s1) 0 s1 of
              (s2, Inl e) \<Rightarrow> (s2, Inl e)
            | (s2, Inr (Inl r)) \<Rightarrow> (reject_event r s2, Inr r)
            | (s2, Inr (Inr risk)) \<Rightarrow>
                (s2\<lparr>ev_stats := (ev_stats s2)\<lparr>vs_valid_events := vs_valid_events (ev_stats s2) + 1\<rparr>\<rparr>,
                 Inr (ok_result\<lparr>vr_cleaned_event :=
                        (case ev of JObj d \<Rightarrow> Some (JObj (clean_event d)) | _ \<Rightarrow> None),
                      vr_risk_score := risk\<rparr>))))"

definition add_trusted_source :: "string \<Rightarrow> validator \<Rightarrow> validator" where
  "add_trusted_source x s = s\<lparr>ev_trusted_sources := List.insert x (ev_trusted_sources s)\<rparr>"

definition remove_trusted_source :: "string \<Rightarrow> validator \<Rightarrow> validator" where
  "remove_trusted_source x s = s\<lparr>ev_trusted_sources := removeAll x (ev_trusted_sources s)\<rparr>"

text \<open>\<open>get_stats\<close>: the counters, the rate, the sources and the signature switch.\<close>

definition rejection_rate :: "validator \<Rightarrow> rat" where
  "rejection_rate s = (if vs_total_events (ev_stats s) > 0
     then of_int (vs_rejected_events (ev_stats s)) / of_int (vs_total_events (ev_stats s)) else 0)"

record validator_report =
  vp_stats :: val_stats
  vp_rejection_rate :: rat
  vp_trusted_sources :: "string list"
  vp_signature_check_enabled :: bool

definition validator_get_stats :: "validator \<Rightarrow> validator_report" where
  "validator_get_stats s =
     \<lparr>vp_stats = ev_stats s, vp_rejection_rate = rejection_rate s,
      vp_trusted_sources = ev_trusted_sources s, vp_signature_check_enabled = ev_enable_signature_check s\<rparr>"

text \<open>An event every check accepts.\<close>

definition demo_event :: "(string, json) dict" where
  "demo_event = [(''event_id'', JStr []), (''timestamp'', JInt 1000), (''source'', JStr []),
     (''severity'', JStr ''low'')]"

definition demo_validator :: validator where
  "demo_validator = init_validator [] None 100 False True 10"

lemma demo_scan:
  "scan_value MALICIOUS_PATTERNS [] 0 = (0, None)" "scan_value MALICIOUS_PATTERNS ''low'' 0 = (0, None)"
  by (simp_all add: MALICIOUS_PATTERNS_def lit_def words_def one_of_def ci_char_def is_space_def
      lower_char_def Let_def)

lemma demo_accepted_case:
  "case snd (validate (\<lambda>_ _. []) id 1000 (JObj demo_event) (Some ''kvm_monitor'')
     (init_validator [] None 100 False True 10)) of Inr r \<Rightarrow> vr_valid r | Inl e \<Rightarrow> False"
  by (simp add: validate_def effective_source_def init_validator_def build_validation_chain_def
    validate_source_def check_rate_limit_def validate_structure_def validate_content_def detect_malicious_patterns_def
    check_duplicate_def demo_scan demo_event_def REQUIRED_FIELDS_def FIELD_LENGTH_LIMITS_def VALID_SEVERITIES_def
    dget_or_def lower_def lower_char_def ok_result_def Let_def)

lemma demo_accepted:
  "\<exists>r. snd (validate (\<lambda>_ _. []) id 1000 (JObj demo_event) (Some ''kvm_monitor'') demo_validator) = Inr r \<and> vr_valid r"
  using demo_accepted_case unfolding demo_validator_def
  by (cases "snd (validate (\<lambda>_ _. []) id 1000 (JObj demo_event) (Some ''kvm_monitor'')
     (init_validator [] None 100 False True 10))") auto

subsection \<open>What a step does to the counters, the cache and the settings\<close>

text \<open>The counter that belongs to a code.\<close>

fun count_code :: "val_code \<Rightarrow> val_stats \<Rightarrow> val_stats" where
  "count_code VC_RATE_LIMITED st = st\<lparr>vs_rate_limit_triggers := vs_rate_limit_triggers st + 1\<rparr>"
| "count_code VC_MALICIOUS_PATTERN st = st\<lparr>vs_malicious_pattern_hits := vs_malicious_pattern_hits st + 1\<rparr>"
| "count_code VC_SIGNATURE_INVALID st = st\<lparr>vs_signature_failures := vs_signature_failures st + 1\<rparr>"
| "count_code VC_DUPLICATE st = st\<lparr>vs_duplicate_events := vs_duplicate_events st + 1\<rparr>"
| "count_code _ st = st"

definition same_settings :: "validator \<Rightarrow> validator \<Rightarrow> bool" where
  "same_settings s s' \<longleftrightarrow> ev_trusted_sources s' = ev_trusted_sources s \<and> ev_hmac_secret s' = ev_hmac_secret s \<and>
     ev_max_events_per_second s' = ev_max_events_per_second s \<and>
     ev_enable_signature_check s' = ev_enable_signature_check s \<and>
     ev_enable_duplicate_check s' = ev_enable_duplicate_check s \<and>
     ev_max_duplicate_cache_size s' = ev_max_duplicate_cache_size s"

lemma same_settings_refl [simp]: "same_settings s s"
  by (simp add: same_settings_def)

lemma same_settings_trans: "same_settings s t \<Longrightarrow> same_settings t u \<Longrightarrow> same_settings s u"
  by (simp add: same_settings_def)

lemmas result_defs = ok_result_def bad_result_def

lemma validate_source_codes:
  "validate_source s src = Inr r \<Longrightarrow> \<not> vr_valid r \<Longrightarrow> vr_code r = VC_UNTRUSTED_SOURCE"
  by (auto simp: validate_source_def result_defs split: json.splits if_splits)

lemma validate_structure_codes:
  "validate_structure ev = Inr r \<Longrightarrow> \<not> vr_valid r \<Longrightarrow> vr_code r = VC_INVALID_STRUCTURE"
  by (auto simp: validate_structure_def result_defs split: json.splits if_splits option.splits)

lemma validate_content_codes:
  "validate_content now d = Inr r \<Longrightarrow> \<not> vr_valid r \<Longrightarrow> vr_code r = VC_INVALID_CONTENT"
  by (auto simp: validate_content_def result_defs Let_def split: if_splits option.splits)

lemma apsnd_Inr_eq: "apsnd Inr p = (a, b) \<longleftrightarrow> (\<exists>r. p = (a, r) \<and> b = Inr r)"
  by (cases p) auto

text \<open>One step: the settings stay, the counters move by the code of a rejection only.\<close>

lemma run_step_frame:
  assumes "run_step mac ord now src ev st s = (s', res)"
  shows "same_settings s s'"
    "ev_stats s' = (case res of Inr r \<Rightarrow> if vr_valid r then ev_stats s else count_code (vr_code r) (ev_stats s)
       | Inl e \<Rightarrow> ev_stats s)"
    "st \<noteq> S_duplicate \<Longrightarrow> ev_duplicate_cache s' = ev_duplicate_cache s"
    "(case res of Inr r \<Rightarrow> \<not> vr_valid r | Inl e \<Rightarrow> True) \<Longrightarrow> ev_duplicate_cache s' = ev_duplicate_cache s"
  using assms
  by (elim run_step.elims;
      auto simp: same_settings_def result_defs check_rate_limit_def detect_malicious_patterns_def
        apsnd_Inr_eq verify_signature_def check_duplicate_def Let_def validate_source_codes validate_structure_codes
        validate_content_codes split: sum.splits if_splits option.splits json.splits prod.splits)+

lemma run_chain_frame:
  "run_chain mac ord now src ev sts risk s = (s', res) \<Longrightarrow>
   same_settings s s' \<and>
   (case res of Inr (Inl r) \<Rightarrow> \<not> vr_valid r \<and> ev_stats s' = count_code (vr_code r) (ev_stats s)
    | _ \<Rightarrow> ev_stats s' = ev_stats s)"
proof (induction sts arbitrary: risk s)
  case Nil
  then show ?case by auto
next
  case (Cons st sts)
  obtain s1 r1 where st: "run_step mac ord now src ev st s = (s1, r1)" by fastforce
  note f = run_step_frame [OF st]
  show ?case
  proof (cases r1)
    case (Inl e)
    then show ?thesis using Cons.prems st f by auto
  next
    case (Inr r)
    show ?thesis
    proof (cases "vr_valid r")
      case True
      let ?k = "if st = S_malicious_pattern then vr_risk_score r else risk"
      have "run_chain mac ord now src ev sts ?k s1 = (s', res)"
        using Cons.prems st Inr True by simp
      from Cons.IH [OF this] show ?thesis
        using f Inr True same_settings_trans [of s s1 s'] by (auto split: sum.splits)
    next
      case False
      then show ?thesis using Cons.prems st Inr f by auto
    qed
  qed
qed

text \<open>The effect of one call on the counters, by its outcome.\<close>

definition total_plus1 :: "val_stats \<Rightarrow> val_stats" where
  "total_plus1 st = st\<lparr>vs_total_events := vs_total_events st + 1\<rparr>"

fun outcome_stats :: "exc + val_result \<Rightarrow> val_stats \<Rightarrow> val_stats" where
  "outcome_stats (Inl e) st = total_plus1 st"
| "outcome_stats (Inr r) st =
     (let t = total_plus1 st
      in if vr_valid r then t\<lparr>vs_valid_events := vs_valid_events t + 1\<rparr>
         else (let c = count_code (vr_code r) t
               in c\<lparr>vs_rejected_events := vs_rejected_events c + 1,
                    vs_rejected_by_reason := bump (val_code_value (vr_code r)) (vs_rejected_by_reason c)\<rparr>))"

lemma validate_eq:
  assumes "effective_source source ev = Inr src"
    and "run_chain mac ord now src ev (build_validation_chain s) 0 (s\<lparr>ev_stats := total_plus1 (ev_stats s)\<rparr>) = (s2, res)"
  shows "validate mac ord now ev source s =
    (case res of Inl e \<Rightarrow> (s2, Inl e)
     | Inr (Inl r) \<Rightarrow> (reject_event r s2, Inr r)
     | Inr (Inr risk) \<Rightarrow>
         (s2\<lparr>ev_stats := (ev_stats s2)\<lparr>vs_valid_events := vs_valid_events (ev_stats s2) + 1\<rparr>\<rparr>,
          Inr (ok_result\<lparr>vr_cleaned_event :=
                 (case ev of JObj d \<Rightarrow> Some (JObj (clean_event d)) | _ \<Rightarrow> None), vr_risk_score := risk\<rparr>)))"
proof -
  have "build_validation_chain (s\<lparr>ev_stats := st\<rparr>) = build_validation_chain s" for st
    by (simp add: build_validation_chain_def)
  with assms show ?thesis
    by (simp add: validate_def total_plus1_def)
qed

lemma validate_frame:
  "same_settings s (fst (validate mac ord now ev source s)) \<and>
   ev_stats (fst (validate mac ord now ev source s)) =
     outcome_stats (snd (validate mac ord now ev source s)) (ev_stats s)"
proof (cases "effective_source source ev")
  case (Inl e)
  then show ?thesis by (simp add: validate_def total_plus1_def same_settings_def)
next
  case (Inr src)
  define s1 where "s1 = s\<lparr>ev_stats := total_plus1 (ev_stats s)\<rparr>"
  obtain s2 res where c: "run_chain mac ord now src ev (build_validation_chain s) 0 s1 = (s2, res)"
    by fastforce
  note v = validate_eq [OF Inr c [unfolded s1_def]]
  have f: "same_settings s s2" using run_chain_frame [OF c] by (simp add: s1_def same_settings_def)
  consider e where "res = Inl e" | r where "res = Inr (Inl r)" | k where "res = Inr (Inr k)"
    by (metis sum.exhaust)
  then show ?thesis
  proof cases
    case 1
    then show ?thesis using v f run_chain_frame [OF c] by (simp add: s1_def)
  next
    case 2
    then show ?thesis using v f run_chain_frame [OF c]
      by (simp add: s1_def reject_event_def same_settings_def Let_def)
  next
    case 3
    then show ?thesis using v f run_chain_frame [OF c]
      by (simp add: s1_def same_settings_def ok_result_def total_plus1_def)
  qed
qed

subsection \<open>The counters agree with each other\<close>

definition stats_ok :: "val_stats \<Rightarrow> bool" where
  "stats_ok st \<longleftrightarrow> 0 \<le> vs_valid_events st \<and> 0 \<le> vs_rejected_events st \<and>
     vs_valid_events st + vs_rejected_events st \<le> vs_total_events st \<and>
     sum_list (vals (vs_rejected_by_reason st)) = vs_rejected_events st \<and>
     dget_or (vs_rejected_by_reason st) ''rate_limited'' 0 = vs_rate_limit_triggers st \<and>
     dget_or (vs_rejected_by_reason st) ''malicious_pattern'' 0 = vs_malicious_pattern_hits st \<and>
     dget_or (vs_rejected_by_reason st) ''signature_invalid'' 0 = vs_signature_failures st \<and>
     dget_or (vs_rejected_by_reason st) ''duplicate'' 0 = vs_duplicate_events st"

lemma stats_ok_total: "stats_ok st \<Longrightarrow> stats_ok (total_plus1 st)"
  by (simp add: stats_ok_def total_plus1_def)

lemma stats_ok_reject:
  "stats_ok st \<Longrightarrow> c \<noteq> VC_VALID \<Longrightarrow> vs_valid_events st + vs_rejected_events st < vs_total_events st \<Longrightarrow>
   stats_ok ((count_code c st)\<lparr>vs_rejected_events := vs_rejected_events (count_code c st) + 1,
      vs_rejected_by_reason := bump (val_code_value c) (vs_rejected_by_reason (count_code c st))\<rparr>)"
  by (cases c) (simp_all add: stats_ok_def sum_vals_bump dget_bump)

lemma stats_ok_outcome:
  assumes "stats_ok st" "\<And>r. res = Inr r \<Longrightarrow> \<not> vr_valid r \<Longrightarrow> vr_code r \<noteq> VC_VALID"
  shows "stats_ok (outcome_stats res st)"
proof (cases res)
  case (Inl e)
  then show ?thesis using assms by (simp add: stats_ok_total)
next
  case (Inr r)
  have lt: "vs_valid_events (total_plus1 st) + vs_rejected_events (total_plus1 st) < vs_total_events (total_plus1 st)"
    using assms(1) by (simp add: stats_ok_def total_plus1_def)
  show ?thesis
  proof (cases "vr_valid r")
    case True
    then show ?thesis using Inr lt stats_ok_total [OF assms(1)] by (simp add: Let_def stats_ok_def)
  next
    case False
    then show ?thesis using Inr stats_ok_reject [OF stats_ok_total [OF assms(1)] assms(2) lt, of r]
      by (simp add: Let_def)
  qed
qed

lemma run_step_code:
  "run_step mac ord now src ev st s = (s', Inr r) \<Longrightarrow> \<not> vr_valid r \<Longrightarrow> vr_code r \<noteq> VC_VALID"
  by (erule run_step.elims)
    (auto simp: apsnd_Inr_eq result_defs check_rate_limit_def detect_malicious_patterns_def
      verify_signature_def check_duplicate_def Let_def
      dest!: validate_source_codes [OF sym] validate_structure_codes [OF sym] validate_content_codes [OF sym]
      split: if_splits option.splits json.splits prod.splits)

lemma run_chain_code:
  "run_chain mac ord now src ev sts risk s = (s', Inr (Inl r)) \<Longrightarrow> \<not> vr_valid r \<and> vr_code r \<noteq> VC_VALID"
  by (induction sts arbitrary: risk s) (auto split: prod.splits sum.splits if_splits dest: run_step_code)

lemma validate_code:
  assumes "snd (validate mac ord now ev source s) = Inr r" "\<not> vr_valid r"
  shows "vr_code r \<noteq> VC_VALID"
proof (cases "effective_source source ev")
  case (Inl e)
  then show ?thesis using assms by (simp add: validate_def)
next
  case (Inr src)
  obtain s2 res where c: "run_chain mac ord now src ev (build_validation_chain s) 0
      (s\<lparr>ev_stats := total_plus1 (ev_stats s)\<rparr>) = (s2, res)" by fastforce
  show ?thesis
    using assms validate_eq [OF Inr c] run_chain_code c
    by (auto simp: ok_result_def split: sum.splits)
qed

datatype val_event = VE_Validate json "string option" time | VE_Add_Source string | VE_Remove_Source string

fun val_machine_step :: "(string \<Rightarrow> (string \<times> json) list \<Rightarrow> string) \<Rightarrow> (string list \<Rightarrow> string list) \<Rightarrow>
    val_event \<Rightarrow> validator \<Rightarrow> validator" where
  "val_machine_step mac ord (VE_Validate ev src now) s = fst (validate mac ord now ev src s)"
| "val_machine_step mac ord (VE_Add_Source x) s = add_trusted_source x s"
| "val_machine_step mac ord (VE_Remove_Source x) s = remove_trusted_source x s"

definition val_init :: "validator \<Rightarrow> bool" where
  "val_init s \<longleftrightarrow> (\<exists>tr sec rate sig dup n. s = init_validator tr sec rate sig dup n)"

lemma val_init_fresh: "val_init (init_validator tr sec rate sig dup n)"
  unfolding val_init_def by blast

interpretation validator: machine val_init "val_machine_step mac ord" "\<lambda>s. stats_ok (ev_stats s)"
  for mac :: "string \<Rightarrow> (string \<times> json) list \<Rightarrow> string" and ord :: "string list \<Rightarrow> string list"
proof unfold_locales
  show "stats_ok (ev_stats s)" if "val_init s" for s
    using that by (auto simp: val_init_def init_validator_def stats_ok_def dget_or_def vals_def)
  show "stats_ok (ev_stats (val_machine_step mac ord e s))" if "stats_ok (ev_stats s)" for e s
  proof (cases e)
    case (VE_Validate ev src now)
    show ?thesis
      using stats_ok_outcome [OF that, of "snd (validate mac ord now ev src s)"]
        validate_frame [of s mac ord now ev src] validate_code [of mac ord now ev src s]
      by (simp add: VE_Validate)
  qed (use that in \<open>simp_all add: add_trusted_source_def remove_trusted_source_def\<close>)
qed

text \<open>
  In every reachable state of the validator the statistics agree: accepted plus rejected
  events are at most all events, the per-reason table sums to the rejected events, and the four
  dedicated counters equal their entries of the table.
\<close>

theorem validator_statistics_agree:
  assumes "reachable val_init (val_machine_step mac ord) s"
  shows "vs_valid_events (ev_stats s) + vs_rejected_events (ev_stats s) \<le> vs_total_events (ev_stats s) \<and>
    sum_list (vals (vs_rejected_by_reason (ev_stats s))) = vs_rejected_events (ev_stats s) \<and>
    dget_or (vs_rejected_by_reason (ev_stats s)) ''rate_limited'' 0 = vs_rate_limit_triggers (ev_stats s) \<and>
    dget_or (vs_rejected_by_reason (ev_stats s)) ''malicious_pattern'' 0 = vs_malicious_pattern_hits (ev_stats s) \<and>
    dget_or (vs_rejected_by_reason (ev_stats s)) ''signature_invalid'' 0 = vs_signature_failures (ev_stats s) \<and>
    dget_or (vs_rejected_by_reason (ev_stats s)) ''duplicate'' 0 = vs_duplicate_events (ev_stats s) \<and>
    0 \<le> rejection_rate s \<and> rejection_rate s \<le> 1"
  using validator.inv_reachable [OF assms]
  by (auto simp: stats_ok_def rejection_rate_def divide_le_eq_1)

theorem validator_statistics_agree_witness:
  "vs_rejected_events (ev_stats (fst (validate (\<lambda>_ _. []) id 5 JNull (Some ''x'')
      (init_validator [] None 100 False True 10)))) \<le>
   vs_total_events (ev_stats (fst (validate (\<lambda>_ _. []) id 5 JNull (Some ''x'')
      (init_validator [] None 100 False True 10))))"
proof -
  have "reachable val_init (val_machine_step (\<lambda>_ _. []) id) (init_validator [] None 100 False True 10)"
    by (rule reachable.reach_init) (rule val_init_fresh)
  from reachable.reach_step [OF this, of "VE_Validate JNull (Some ''x'') 5"]
  have r: "reachable val_init (val_machine_step (\<lambda>_ _. []) id)
      (fst (validate (\<lambda>_ _. []) id 5 JNull (Some ''x'') (init_validator [] None 100 False True 10)))"
    by simp
  show ?thesis
    using validator_statistics_agree [OF r] validator.inv_reachable [OF r] by (auto simp: stats_ok_def)
qed

subsection \<open>The rate limit\<close>

text \<open>The times at which a sequence of calls is let through.\<close>

fun admitted :: "time list \<Rightarrow> validator \<Rightarrow> validator \<times> time list" where
  "admitted [] s = (s, [])"
| "admitted (t # ts) s =
     (let (s1, r) = check_rate_limit t s; (s2, us) = admitted ts s1
      in (s2, if vr_valid r then t # us else us))"

lemma check_rate_limit_spec:
  "ev_event_timestamps (fst (check_rate_limit now s)) =
     filter (\<lambda>t. now - t < 1) (ev_event_timestamps s) @ (if vr_valid (snd (check_rate_limit now s)) then [now] else [])"
  "vr_valid (snd (check_rate_limit now s)) \<longleftrightarrow>
     int (length (filter (\<lambda>t. now - t < 1) (ev_event_timestamps s))) < ev_max_events_per_second s"
  "ev_max_events_per_second (fst (check_rate_limit now s)) = ev_max_events_per_second s"
  by (auto simp: check_rate_limit_def result_defs Let_def)

text \<open>
  \<open>A\<close> is the history of admitted times: a window over it never holds more than the limit, and
  the validator remembers the part of it that can still matter.
\<close>

definition rate_inv :: "time list \<Rightarrow> time \<Rightarrow> validator \<Rightarrow> bool" where
  "rate_inv A now s \<longleftrightarrow> (\<forall>t\<in>set A. t \<le> now) \<and>
     ev_event_timestamps s = filter (\<lambda>t. now - t < 1) A \<and>
     (\<forall>t0. int (length (filter (\<lambda>u. t0 - 1 < u \<and> u \<le> t0) A)) \<le> ev_max_events_per_second s)"

lemma length_filter_impl:
  "(\<And>x. x \<in> set xs \<Longrightarrow> P x \<Longrightarrow> Q x) \<Longrightarrow> length (filter P xs) \<le> length (filter Q xs)"
  by (induction xs) auto

lemma rate_inv_step:
  assumes inv: "rate_inv A now s" and le: "now \<le> t"
  shows "rate_inv (A @ (if vr_valid (snd (check_rate_limit t s)) then [t] else [])) t (fst (check_rate_limit t s))"
proof -
  have A: "\<forall>u\<in>set A. u \<le> now" and ts: "ev_event_timestamps s = filter (\<lambda>u. now - u < 1) A"
    and win: "\<And>t0. int (length (filter (\<lambda>u. t0 - 1 < u \<and> u \<le> t0) A)) \<le> ev_max_events_per_second s"
    using inv by (auto simp: rate_inv_def)
  have ts': "filter (\<lambda>u. t - u < 1) (ev_event_timestamps s) = filter (\<lambda>u. t - u < 1) A"
    unfolding ts filter_filter using le by (intro filter_cong) auto
  note spec = check_rate_limit_spec [where now = t and s = s, unfolded ts']
  show ?thesis
  proof (cases "vr_valid (snd (check_rate_limit t s))")
    case False
    then show ?thesis using A le win spec by (auto simp: rate_inv_def)
  next
    case True
    then have room: "int (length (filter (\<lambda>u. t - u < 1) A)) < ev_max_events_per_second s"
      using spec(2) by simp
    have "int (length (filter (\<lambda>u. t0 - 1 < u \<and> u \<le> t0) (A @ [t]))) \<le> ev_max_events_per_second s" for t0
    proof (cases "t0 - 1 < t \<and> t \<le> t0")
      case False
      then show ?thesis using win [of t0] by auto
    next
      case inside: True
      have "length (filter (\<lambda>u. t0 - 1 < u \<and> u \<le> t0) A) \<le> length (filter (\<lambda>u. t - u < 1) A)"
        using inside by (intro length_filter_impl) auto
      then show ?thesis using inside room by simp
    qed
    then show ?thesis using True A le spec by (auto simp: rate_inv_def)
  qed
qed

lemma rate_inv_run:
  "rate_inv A now s \<Longrightarrow> sorted (now # ts) \<Longrightarrow>
   (\<forall>t0. int (length (filter (\<lambda>u. t0 - 1 < u \<and> u \<le> t0) (A @ snd (admitted ts s)))) \<le> ev_max_events_per_second s)"
proof (induction ts arbitrary: A now s)
  case Nil
  then show ?case by (simp add: rate_inv_def)
next
  case (Cons t ts)
  have "rate_inv (A @ (if vr_valid (snd (check_rate_limit t s)) then [t] else [])) t (fst (check_rate_limit t s))"
    using Cons.prems by (intro rate_inv_step) auto
  moreover have "sorted (t # ts)" using Cons.prems(2) by simp
  ultimately have "\<forall>t0. int (length (filter (\<lambda>u. t0 - 1 < u \<and> u \<le> t0)
      ((A @ (if vr_valid (snd (check_rate_limit t s)) then [t] else [])) @ snd (admitted ts (fst (check_rate_limit t s))))))
      \<le> ev_max_events_per_second (fst (check_rate_limit t s))"
    by (rule Cons.IH)
  moreover have "snd (admitted (t # ts) s) =
      (if vr_valid (snd (check_rate_limit t s)) then [t] else []) @ snd (admitted ts (fst (check_rate_limit t s)))"
    by (simp add: case_prod_unfold Let_def)
  ultimately show ?case by (simp only: append_assoc check_rate_limit_spec(3)) simp
qed

text \<open>
  For calls at nondecreasing times, at most \<open>max_events_per_second\<close> of them are let through
  the rate limiter in any window of one second, wherever the window ends.
\<close>

theorem rate_limit_window:
  assumes "sorted ts" and "ev_event_timestamps s = []" and "0 \<le> ev_max_events_per_second s"
  shows "int (length (filter (\<lambda>u. t0 - 1 < u \<and> u \<le> t0) (snd (admitted ts s)))) \<le> ev_max_events_per_second s"
proof (cases ts)
  case Nil
  then show ?thesis using assms(3) by simp
next
  case (Cons t us)
  have "rate_inv [] t s" using assms by (simp add: rate_inv_def)
  then show ?thesis using rate_inv_run [of "[]" t s ts] assms(1) by (simp add: Cons)
qed

theorem rate_limit_window_witness:
  "int (length (filter (\<lambda>u. 2 - 1 < u \<and> u \<le> 2)
     (snd (admitted [1, 3/2, 7/4, 2] (init_validator [] None 2 False True 10))))) \<le>
   ev_max_events_per_second (init_validator [] None 2 False True 10)"
  by (rule rate_limit_window) (simp_all add: init_validator_def)

subsection \<open>What acceptance means\<close>

lemma check_fields_None:
  "check_fields fs d = None \<longleftrightarrow> (\<forall>(f, ty)\<in>set fs. \<exists>v. dget d f = Some v \<and> has_type v ty)"
  by (induction fs d rule: check_fields.induct) (auto split: option.splits)

lemma check_lengths_None:
  "check_lengths fs d = None \<longleftrightarrow> (\<forall>(f, m)\<in>set fs. \<forall>x. dget d f = Some (JStr x) \<longrightarrow> length x \<le> m)"
  by (induction fs d rule: check_lengths.induct) (auto split: option.splits json.splits)

lemma scan_value_None:
  "snd (scan_value ps x k) = None \<longleftrightarrow> (\<forall>(r, name)\<in>set ps. rx_search r x \<longrightarrow> low_risk name)"
  by (induction ps x k rule: scan_value.induct) auto

lemma scan_fields_None:
  "snd (scan_fields d k) = None \<longleftrightarrow>
     (\<forall>f x. (f, JStr x) \<in> set d \<longrightarrow> (\<forall>(r, name)\<in>set MALICIOUS_PATTERNS. rx_search r x \<longrightarrow> low_risk name))"
proof (induction d arbitrary: k)
  case Nil
  then show ?case by simp
next
  case (Cons p d)
  obtain f v where p: "p = (f, v)" by fastforce
  show ?case
  proof (cases v)
    case (JStr x)
    obtain k' h where h: "scan_value MALICIOUS_PATTERNS x k = (k', h)" by fastforce
    have hn: "h = None \<longleftrightarrow> (\<forall>(r, name)\<in>set MALICIOUS_PATTERNS. rx_search r x \<longrightarrow> low_risk name)"
      using scan_value_None [of MALICIOUS_PATTERNS x k] h by simp
    show ?thesis using hn Cons.IH [of k'] by (cases h) (auto simp: p JStr h)
  qed (simp_all add: p Cons.IH)
qed

text \<open>A step was run, in a state with the same settings, and accepted.\<close>

definition passed :: "(string \<Rightarrow> (string \<times> json) list \<Rightarrow> string) \<Rightarrow> (string list \<Rightarrow> string list) \<Rightarrow> time \<Rightarrow>
    json \<Rightarrow> json \<Rightarrow> validator \<Rightarrow> val_step \<Rightarrow> bool" where
  "passed mac ord now src ev s st \<longleftrightarrow>
     (\<exists>t t' r. same_settings s t \<and> run_step mac ord now src ev st t = (t', Inr r) \<and> vr_valid r)"

lemma run_chain_passed:
  "run_chain mac ord now src ev sts risk s = (s', Inr (Inr k)) \<Longrightarrow>
   \<forall>st\<in>set sts. passed mac ord now src ev s st"
proof (induction sts arbitrary: risk s)
  case Nil
  then show ?case by simp
next
  case (Cons st sts)
  obtain s1 r where st: "run_step mac ord now src ev st s = (s1, Inr r)" "vr_valid r"
    and rest: "\<exists>risk'. run_chain mac ord now src ev sts risk' s1 = (s', Inr (Inr k))"
    using Cons.prems by (auto split: prod.splits sum.splits if_splits)
  have ss: "same_settings s s1" using run_step_frame(1) [OF st(1)] .
  have "\<forall>x\<in>set sts. passed mac ord now src ev s1 x" using Cons.IH rest by blast
  then have "\<forall>x\<in>set sts. passed mac ord now src ev s x"
    using ss same_settings_trans unfolding passed_def by blast
  moreover have "passed mac ord now src ev s st"
    using st same_settings_refl unfolding passed_def by blast
  ultimately show ?case by simp
qed

lemma passed_source: "passed mac ord now src ev s S_source \<Longrightarrow> \<exists>x. src = JStr x \<and> x \<in> set (ev_trusted_sources s)"
  by (auto simp: passed_def validate_source_def result_defs same_settings_def split: if_splits json.splits)

lemma passed_structure:
  "passed mac ord now src ev s S_structure \<Longrightarrow>
   \<exists>d sev. ev = JObj d \<and> check_fields REQUIRED_FIELDS d = None \<and>
     dget_or d ''severity'' (JStr []) = JStr sev \<and> lower sev \<in> set VALID_SEVERITIES"
  by (auto simp: passed_def validate_structure_def result_defs split: if_splits json.splits option.splits)

lemma passed_content:
  "passed mac ord now src (JObj d) s S_content \<Longrightarrow>
   check_lengths FIELD_LENGTH_LIMITS d = None \<and>
   (\<exists>ts. num_of (dget_or d ''timestamp'' (JInt 0)) = Some ts \<and> now - 31536000 \<le> ts \<and> ts \<le> now + 3600)"
  by (auto simp: passed_def validate_content_def result_defs Let_def split: if_splits option.splits)

lemma passed_patterns:
  "passed mac ord now src (JObj d) s S_malicious_pattern \<Longrightarrow> snd (scan_fields d 0) = None"
  by (cases "scan_fields d 0"; cases "snd (scan_fields d 0)")
    (auto simp: passed_def detect_malicious_patterns_def result_defs)

lemma passed_signature:
  "passed mac ord now src (JObj d) s S_signature \<Longrightarrow>
   \<exists>secret. ev_hmac_secret s = Some secret \<and> dget_or d ''signature'' (JStr []) = JStr (mac secret (sign_data d))"
  by (auto simp: passed_def verify_signature_def result_defs same_settings_def Let_def
      split: if_splits option.splits json.splits)

lemma validate_accepted:
  assumes "snd (validate mac ord now ev source s) = Inr r" "vr_valid r"
  obtains src s2 risk where "effective_source source ev = Inr src"
    "run_chain mac ord now src ev (build_validation_chain s) 0 (s\<lparr>ev_stats := total_plus1 (ev_stats s)\<rparr>) = (s2, Inr (Inr risk))"
    "vr_cleaned_event r = (case ev of JObj d \<Rightarrow> Some (JObj (clean_event d)) | _ \<Rightarrow> None)"
    "ev_duplicate_cache (fst (validate mac ord now ev source s)) = ev_duplicate_cache s2"
proof -
  obtain src where src: "effective_source source ev = Inr src"
    using assms by (cases "effective_source source ev") (auto simp: validate_def)
  obtain s2 res where c: "run_chain mac ord now src ev (build_validation_chain s) 0
      (s\<lparr>ev_stats := total_plus1 (ev_stats s)\<rparr>) = (s2, res)" by fastforce
  have "\<exists>risk. res = Inr (Inr risk)"
    using assms validate_eq [OF src c] run_chain_frame [OF c] by (auto split: sum.splits)
  then obtain risk where res: "res = Inr (Inr risk)" by blast
  show thesis
    using that [OF src c [unfolded res]] assms validate_eq [OF src c] by (auto simp: res)
qed

lemma passed_at:
  "run_chain mac ord now src ev (pre @ st # post) risk s = (s', Inr (Inr k)) \<Longrightarrow> S_duplicate \<notin> set pre \<Longrightarrow>
   \<exists>t t' r. ev_duplicate_cache t = ev_duplicate_cache s \<and> run_step mac ord now src ev st t = (t', Inr r) \<and> vr_valid r"
proof (induction pre arbitrary: risk s)
  case Nil
  then show ?case by (auto split: prod.splits sum.splits if_splits)
next
  case (Cons a pre)
  obtain s1 r where a: "run_step mac ord now src ev a s = (s1, Inr r)"
    and rest: "\<exists>risk'. run_chain mac ord now src ev (pre @ st # post) risk' s1 = (s', Inr (Inr k))"
    using Cons.prems(1) by (auto split: prod.splits sum.splits if_splits)
  then show ?case using Cons.IH [of _ s1] Cons.prems(2) run_step_frame(3) [OF a] by auto
qed

lemma passed_duplicate:
  assumes "run_chain mac ord now src (JObj d) (build_validation_chain s) risk s1 = (s2, Inr (Inr k))" "ev_enable_duplicate_check s"
  shows "\<exists>eid. dget_or d ''event_id'' (JStr []) = JStr eid \<and> eid \<notin> set (ev_duplicate_cache s1)"
proof -
  obtain pre where "build_validation_chain s = pre @ S_duplicate # []" "S_duplicate \<notin> set pre"
    using assms(2) by (simp add: build_validation_chain_def)
  then obtain t t' r where "ev_duplicate_cache t = ev_duplicate_cache s1" "run_step mac ord now src (JObj d) S_duplicate t = (t', Inr r)" "vr_valid r"
    using passed_at assms(1) by metis
  then show ?thesis by (cases "dget_or d ''event_id'' (JStr [])") (auto simp: apsnd_Inr_eq check_duplicate_def result_defs split: if_splits)
qed

lemma passed_rate:
  assumes "run_chain mac ord now src ev (build_validation_chain s) risk s1 = (s2, Inr (Inr k))"
  shows "int (length (filter (\<lambda>t. now - t < 1) (ev_event_timestamps s1))) < ev_max_events_per_second s1"
  using assms by (auto simp: build_validation_chain_def check_rate_limit_def result_defs Let_def split: sum.splits if_splits)

text \<open>
  C1. An accepted event is a dictionary whose source (the caller's, or its own) is trusted, with
  all required fields of their types, a known severity, every limited text within its length, a
  time stamp between a year ago and an hour ahead, no text field at its top level with a factor
  matching one of the six rejecting patterns, and, where signatures are checked, carrying the
  digest of its other fields under the validator's secret. Fewer calls than the limit had passed the limiter in
  the second before it; and, where duplicates are checked, its identifier is a text that is not in the cache. (The numbers
  of the event are finite: a time stamp that is not a number is accepted by the code.)
\<close>

theorem accepted_event_is_sound:
  assumes acc: "snd (validate mac ord now ev source s) = Inr r" "vr_valid r"
  shows "\<exists>d x. ev = JObj d \<and> effective_source source ev = Inr (JStr x) \<and> x \<in> set (ev_trusted_sources s) \<and>
    int (length (filter (\<lambda>t. now - t < 1) (ev_event_timestamps s))) < ev_max_events_per_second s \<and>
    (ev_enable_duplicate_check s \<longrightarrow> (\<exists>eid. dget_or d ''event_id'' (JStr []) = JStr eid \<and> eid \<notin> set (ev_duplicate_cache s))) \<and>
    (\<forall>(f, ty)\<in>set REQUIRED_FIELDS. \<exists>v. dget d f = Some v \<and> has_type v ty) \<and>
    (\<exists>sev. dget d ''severity'' = Some (JStr sev) \<and> lower sev \<in> set VALID_SEVERITIES) \<and>
    (\<forall>(f, m)\<in>set FIELD_LENGTH_LIMITS. \<forall>y. dget d f = Some (JStr y) \<longrightarrow> length y \<le> m) \<and>
    (\<exists>ts. num_of (dget_or d ''timestamp'' (JInt 0)) = Some ts \<and> now - 31536000 \<le> ts \<and> ts \<le> now + 3600) \<and>
    (\<forall>f y p name. (f, JStr y) \<in> set d \<longrightarrow> (p, name) \<in> set MALICIOUS_PATTERNS \<longrightarrow> \<not> low_risk name \<longrightarrow>
       \<not> (\<exists>u v w. y = u @ v @ w \<and> matches p v)) \<and>
    (ev_enable_signature_check s \<longrightarrow>
       (\<exists>secret. ev_hmac_secret s = Some secret \<and>
          dget_or d ''signature'' (JStr []) = JStr (mac secret (sign_data d))))"
proof -
  obtain src s2 risk where src: "effective_source source ev = Inr src"
    and c: "run_chain mac ord now src ev (build_validation_chain s) 0
      (s\<lparr>ev_stats := total_plus1 (ev_stats s)\<rparr>) = (s2, Inr (Inr risk))"
    using validate_accepted [OF acc] by blast
  let ?s1 = "s\<lparr>ev_stats := total_plus1 (ev_stats s)\<rparr>"
  have p: "passed mac ord now src ev ?s1 st" if "st \<in> set (build_validation_chain s)" for st
    using run_chain_passed [OF c] that by blast
  obtain d sev where d: "ev = JObj d" "check_fields REQUIRED_FIELDS d = None"
    "dget_or d ''severity'' (JStr []) = JStr sev" "lower sev \<in> set VALID_SEVERITIES"
    using passed_structure [OF p] by (auto simp: build_validation_chain_def)
  obtain x where x: "src = JStr x" "x \<in> set (ev_trusted_sources s)"
    using passed_source [OF p] by (auto simp: build_validation_chain_def)
  have content: "check_lengths FIELD_LENGTH_LIMITS d = None"
    "\<exists>ts. num_of (dget_or d ''timestamp'' (JInt 0)) = Some ts \<and> now - 31536000 \<le> ts \<and> ts \<le> now + 3600"
    using passed_content [OF p [unfolded d(1)]] by (auto simp: build_validation_chain_def)
  have pat: "snd (scan_fields d 0) = None"
    using passed_patterns [OF p [unfolded d(1)]] by (simp add: build_validation_chain_def)
  have sev: "dget d ''severity'' = Some (JStr sev)"
    using d(2,3) unfolding check_fields_None by (auto simp: REQUIRED_FIELDS_def dget_or_def)
  have sig: "\<exists>secret. ev_hmac_secret s = Some secret \<and> dget_or d ''signature'' (JStr []) = JStr (mac secret (sign_data d))"
    if "ev_enable_signature_check s"
    using passed_signature [OF p [unfolded d(1)]] that by (auto simp: build_validation_chain_def)
  have pats: "\<not> (\<exists>u v w. y = u @ v @ w \<and> matches p v)"
    if "(f, JStr y) \<in> set d" "(p, name) \<in> set MALICIOUS_PATTERNS" "\<not> low_risk name" for f y p name
    using pat that unfolding scan_fields_None rx_search_iff [symmetric] by blast
  show ?thesis
  proof (rule exI [of _ d], rule exI [of _ x], intro conjI)
    show "ev = JObj d" "effective_source source ev = Inr (JStr x)" "x \<in> set (ev_trusted_sources s)"
      using d(1) src x by simp_all
    show "\<forall>(f, ty)\<in>set REQUIRED_FIELDS. \<exists>v. dget d f = Some v \<and> has_type v ty"
      using d(2) by (simp only: check_fields_None)
    show "\<exists>sev. dget d ''severity'' = Some (JStr sev) \<and> lower sev \<in> set VALID_SEVERITIES"
      using sev d(4) by blast
    show "\<forall>(f, m)\<in>set FIELD_LENGTH_LIMITS. \<forall>y. dget d f = Some (JStr y) \<longrightarrow> length y \<le> m"
      using content(1) by (simp only: check_lengths_None)
    show "int (length (filter (\<lambda>t. now - t < 1) (ev_event_timestamps s))) < ev_max_events_per_second s" using passed_rate [OF c] by simp
    show "ev_enable_duplicate_check s \<longrightarrow> (\<exists>eid. dget_or d ''event_id'' (JStr []) = JStr eid \<and> eid \<notin> set (ev_duplicate_cache s))"
      using passed_duplicate [OF c [unfolded d(1)]] by simp
  qed (use content(2) pats sig in blast)+
qed

theorem accepted_event_is_sound_witness:
  "\<exists>d x. JObj demo_event = JObj d \<and> effective_source (Some ''kvm_monitor'') (JObj demo_event) = Inr (JStr x) \<and>
     x \<in> set (ev_trusted_sources demo_validator) \<and>
     (\<exists>sev. dget d ''severity'' = Some (JStr sev) \<and> lower sev \<in> set VALID_SEVERITIES)"
proof -
  obtain r where r: "snd (validate (\<lambda>_ _. []) id 1000 (JObj demo_event) (Some ''kvm_monitor'')
     demo_validator) = Inr r" "vr_valid r"
    using demo_accepted by blast
  from accepted_event_is_sound [OF r] show ?thesis
    by (elim exE conjE) (intro exI conjI; assumption)
qed

subsection \<open>The cleaned event\<close>

fun cut_text :: "nat \<Rightarrow> json \<Rightarrow> json" where
  "cut_text n (JStr x) = JStr (take n x)"
| "cut_text n v = v"

lemma control_characters_pattern:
  "(Cls (\<lambda>c. of_char c < (32 :: nat) \<or> of_char c = (127 :: nat)), ''control_characters'') \<in> set MALICIOUS_PATTERNS"
  by (simp add: MALICIOUS_PATTERNS_def)

lemma filter_clean_id:
  "\<forall>c\<in>set x. \<not> (of_char c < (32 :: nat) \<or> of_char c = (127 :: nat)) \<Longrightarrow> filter clean_char x = x"
  by (rule filter_True) (auto simp: clean_char_def Let_def)

text \<open>
  The event handed on is the accepted one, entry by entry and in order, with every field of
  the length table unchanged and every other text cut to 8192 characters: removing control
  characters never removes anything, since an event with one is rejected.
\<close>

theorem cleaning_only_cuts_long_texts:
  assumes acc: "snd (validate mac ord now (JObj d) source s) = Inr r" "vr_valid r" and wf: "wf_dict d"
  shows "vr_cleaned_event r = Some (JObj (map (\<lambda>(k, v).
     (k, if k \<in> set (keys FIELD_LENGTH_LIMITS) then v else cut_text 8192 v)) d))"
proof -
  obtain src s2 risk where c: "run_chain mac ord now src (JObj d) (build_validation_chain s) 0
      (s\<lparr>ev_stats := total_plus1 (ev_stats s)\<rparr>) = (s2, Inr (Inr risk))"
    and cl0: "vr_cleaned_event r = (case JObj d of JObj d \<Rightarrow> Some (JObj (clean_event d)) | _ \<Rightarrow> None)"
    by (rule validate_accepted [OF acc]) (rule that)
  have cl: "vr_cleaned_event r = Some (JObj (clean_event d))" using cl0 by simp
  let ?s1 = "s\<lparr>ev_stats := total_plus1 (ev_stats s)\<rparr>"
  have p: "passed mac ord now src (JObj d) ?s1 st" if "st \<in> set (build_validation_chain s)" for st
    using run_chain_passed [OF c] that by blast
  have len: "check_lengths FIELD_LENGTH_LIMITS d = None"
    using passed_content [OF p] by (simp add: build_validation_chain_def)
  have pat: "snd (scan_fields d 0) = None"
    using passed_patterns [OF p] by (simp add: build_validation_chain_def)
  have one: "clean_value k v = (if k \<in> set (keys FIELD_LENGTH_LIMITS) then v else cut_text 8192 v)"
    if kv: "(k, v) \<in> set d" for k v
  proof (cases v)
    case (JStr x)
    have "\<not> rx_search (Cls (\<lambda>c. of_char c < (32 :: nat) \<or> of_char c = (127 :: nat))) x"
      using pat kv control_characters_pattern unfolding scan_fields_None JStr
      by (force simp: low_risk_def)
    then have clean: "filter clean_char x = x"
      by (intro filter_clean_id) (auto simp: rx_search_Cls)
    have "dget d k = Some (JStr x)" using kv wf JStr by (simp add: mem_dict_iff)
    moreover have "wf_dict FIELD_LENGTH_LIMITS" by (simp add: FIELD_LENGTH_LIMITS_def wf_dict_def)
    ultimately have lim: "length x \<le> m" if "dget FIELD_LENGTH_LIMITS k = Some m" for m
      using len that unfolding check_lengths_None by (metis (mono_tags, lifting) case_prodD map_of_SomeD)
    have mem: "k \<in> set (keys FIELD_LENGTH_LIMITS) \<longleftrightarrow> dget FIELD_LENGTH_LIMITS k \<noteq> None"
      by (simp add: keys_def map_of_eq_None_iff)
    show ?thesis
    proof (cases "dget FIELD_LENGTH_LIMITS k")
      case None
      then show ?thesis unfolding mem using JStr clean by (simp add: Let_def dget_or_def)
    next
      case (Some m)
      then show ?thesis unfolding mem using JStr clean lim by (simp add: Let_def dget_or_def)
    qed
  qed simp_all
  show ?thesis unfolding cl clean_event_def by (auto simp: one)
qed

theorem cleaning_only_cuts_long_texts_witness:
  "\<exists>r. snd (validate (\<lambda>_ _. []) id 1000 (JObj demo_event) (Some ''kvm_monitor'') demo_validator) = Inr r \<and>
     vr_cleaned_event r = Some (JObj demo_event)"
proof -
  obtain r where r: "snd (validate (\<lambda>_ _. []) id 1000 (JObj demo_event) (Some ''kvm_monitor'')
     demo_validator) = Inr r" "vr_valid r"
    using demo_accepted by blast
  have "wf_dict demo_event" by (simp add: demo_event_def wf_dict_def)
  from cleaning_only_cuts_long_texts [OF r this]
  have "vr_cleaned_event r = Some (JObj demo_event)"
    by (simp add: demo_event_def keys_def FIELD_LENGTH_LIMITS_def)
  with r(1) show ?thesis by blast
qed

subsection \<open>Duplicates\<close>

lemma run_chain_append:
  "run_chain mac ord now src ev (xs @ ys) risk s =
     (case run_chain mac ord now src ev xs risk s of
        (s', Inr (Inr k)) \<Rightarrow> run_chain mac ord now src ev ys k s'
      | (s', res) \<Rightarrow> (s', res))"
  by (induction xs arbitrary: risk s) (auto split: prod.splits sum.splits)

lemma run_chain_cache:
  "run_chain mac ord now src ev sts risk s = (s', res) \<Longrightarrow> S_duplicate \<notin> set sts \<Longrightarrow>
   ev_duplicate_cache s' = ev_duplicate_cache s"
proof (induction sts arbitrary: risk s)
  case Nil
  then show ?case by simp
next
  case (Cons st sts)
  obtain s1 r1 where st: "run_step mac ord now src ev st s = (s1, r1)" by fastforce
  have c: "ev_duplicate_cache s1 = ev_duplicate_cache s"
    using run_step_frame(3) [OF st] Cons.prems(2) by auto
  show ?case
    using Cons.IH [of _ s1] Cons.prems st c by (auto split: sum.splits if_splits)
qed

text \<open>The identifier the duplicate check reads.\<close>

definition event_id_of :: "json \<Rightarrow> string option" where
  "event_id_of ev = (case ev of
     JObj d \<Rightarrow> (case dget_or d ''event_id'' (JStr []) of JStr eid \<Rightarrow> Some eid | _ \<Rightarrow> None) | _ \<Rightarrow> None)"

definition cache_after :: "(string list \<Rightarrow> string list) \<Rightarrow> nat \<Rightarrow> string list \<Rightarrow> string \<Rightarrow> string list" where
  "cache_after ord m c eid =
     (if m < length (c @ [eid]) then drop (m div 2) (ord (c @ [eid])) else c @ [eid])"

lemma duplicate_step:
  assumes "run_step mac ord now src ev S_duplicate s = (s', res)"
  shows "(case res of
     Inr r \<Rightarrow> if vr_valid r
       then (\<exists>eid. event_id_of ev = Some eid \<and> eid \<notin> set (ev_duplicate_cache s) \<and>
               ev_duplicate_cache s' =
                 cache_after ord (ev_max_duplicate_cache_size s) (ev_duplicate_cache s) eid)
       else ev_duplicate_cache s' = ev_duplicate_cache s
     | Inl e \<Rightarrow> ev_duplicate_cache s' = ev_duplicate_cache s)"
  using assms
  by (cases ev) (auto simp: event_id_of_def check_duplicate_def cache_after_def result_defs Let_def
      split: json.splits if_splits)

lemma validate_cache:
  assumes dup: "ev_enable_duplicate_check s"
    and v: "validate mac ord now ev source s = (s', res)"
  shows "(case res of
     Inr r \<Rightarrow> if vr_valid r
       then (\<exists>eid. event_id_of ev = Some eid \<and> eid \<notin> set (ev_duplicate_cache s) \<and>
               ev_duplicate_cache s' =
                 cache_after ord (ev_max_duplicate_cache_size s) (ev_duplicate_cache s) eid)
       else ev_duplicate_cache s' = ev_duplicate_cache s
     | Inl e \<Rightarrow> ev_duplicate_cache s' = ev_duplicate_cache s)"
proof (cases "effective_source source ev")
  case (Inl e)
  then show ?thesis using v by (auto simp: validate_def)
next
  case (Inr src)
  let ?s1 = "s\<lparr>ev_stats := total_plus1 (ev_stats s)\<rparr>"
  obtain pre where pre: "build_validation_chain s = pre @ [S_duplicate]" "S_duplicate \<notin> set pre"
    using dup by (auto simp: build_validation_chain_def)
  obtain t r1 where c1: "run_chain mac ord now src ev pre 0 ?s1 = (t, r1)" by fastforce
  have t: "ev_duplicate_cache t = ev_duplicate_cache s" "same_settings ?s1 t"
    using run_chain_cache [OF c1 pre(2)] run_chain_frame [OF c1] by auto
  show ?thesis
  proof (cases "\<exists>k. r1 = Inr (Inr k)")
    case False
    then have "run_chain mac ord now src ev (build_validation_chain s) 0 ?s1 = (t, r1)"
      by (auto simp: pre(1) run_chain_append c1 split: sum.splits)
    from validate_eq [OF Inr this] show ?thesis
      using v False t run_chain_frame [OF c1] by (auto simp: reject_event_def split: sum.splits)
  next
    case True
    then obtain k where k: "r1 = Inr (Inr k)" by blast
    obtain u r2 where st: "run_step mac ord now src ev S_duplicate t = (u, r2)" by fastforce
    note d = duplicate_step [OF st]
    have c: "run_chain mac ord now src ev (build_validation_chain s) 0 ?s1 =
        (u, case r2 of Inl e \<Rightarrow> Inl e | Inr r \<Rightarrow> if vr_valid r then Inr (Inr k) else Inr (Inl r))"
      by (auto simp: pre(1) run_chain_append c1 k st split: sum.splits)
    from validate_eq [OF Inr c] show ?thesis
      using v d t by (auto simp: reject_event_def same_settings_def ok_result_def split: sum.splits if_splits)
  qed
qed

text \<open>The identifiers of the accepted events of a run, in order.\<close>

fun accepted_ids :: "(string \<Rightarrow> (string \<times> json) list \<Rightarrow> string) \<Rightarrow> (string list \<Rightarrow> string list) \<Rightarrow>
    (time \<times> json \<times> string option) list \<Rightarrow> validator \<Rightarrow> string option list" where
  "accepted_ids mac ord [] s = []"
| "accepted_ids mac ord ((now, ev, source) # es) s =
     (case validate mac ord now ev source s of
        (s', Inr r) \<Rightarrow> (if vr_valid r then [event_id_of ev] else []) @ accepted_ids mac ord es s'
      | (s', Inl e) \<Rightarrow> accepted_ids mac ord es s')"

lemma accepted_ids_run:
  assumes "ev_enable_duplicate_check s" "distinct (ev_duplicate_cache s)"
    and "length (ev_duplicate_cache s) + length (accepted_ids mac ord es s) \<le> ev_max_duplicate_cache_size s"
  shows "distinct (map Some (ev_duplicate_cache s) @ accepted_ids mac ord es s) \<and>
    None \<notin> set (accepted_ids mac ord es s)"
  using assms
proof (induction es arbitrary: s)
  case Nil
  then show ?case by (simp add: distinct_map)
next
  case (Cons e es)
  obtain now ev source where e: "e = (now, ev, source)" by (metis prod_cases3)
  obtain s' res where v: "validate mac ord now ev source s = (s', res)" by fastforce
  have set': "same_settings s s'" using validate_frame [of s mac ord now ev source] v by simp
  note c = validate_cache [OF Cons.prems(1) v]
  show ?case
  proof (cases "\<exists>r. res = Inr r \<and> vr_valid r")
    case True
    then obtain r eid where r: "res = Inr r" "vr_valid r" and eid: "event_id_of ev = Some eid"
      "eid \<notin> set (ev_duplicate_cache s)" and
      ca: "ev_duplicate_cache s' = cache_after ord (ev_max_duplicate_cache_size s) (ev_duplicate_cache s) eid"
      using c by auto
    have ids: "accepted_ids mac ord (e # es) s = Some eid # accepted_ids mac ord es s'"
      by (simp add: e v r eid)
    have ca': "ev_duplicate_cache s' = ev_duplicate_cache s @ [eid]"
      using ca Cons.prems(3) ids by (simp add: cache_after_def)
    show ?thesis
      using Cons.IH [of s'] Cons.prems set' ca' eid by (simp add: ids same_settings_def)
  next
    case False
    then have "ev_duplicate_cache s' = ev_duplicate_cache s"
      "accepted_ids mac ord (e # es) s = accepted_ids mac ord es s'"
      using c by (auto simp: e v split: sum.splits)
    then show ?thesis using Cons.IH [of s'] Cons.prems set' by (simp add: same_settings_def)
  qed
qed

text \<open>
  With the duplicate check on and an empty cache, as long as no more events are accepted than
  the cache holds, no identifier is accepted twice, whatever else happens in between.
\<close>

theorem accepted_ids_distinct:
  assumes "ev_enable_duplicate_check s" "ev_duplicate_cache s = []"
    and "length (accepted_ids mac ord es s) \<le> ev_max_duplicate_cache_size s"
  shows "distinct (accepted_ids mac ord es s)"
  using accepted_ids_run [of s mac ord es] assms by simp

theorem accepted_ids_distinct_witness:
  "distinct (accepted_ids (\<lambda>_ _. []) id [(1, JNull, Some ''kvm_monitor''), (2, JInt 3, Some ''x'')] demo_validator)"
  by (rule accepted_ids_distinct)
    (simp_all add: demo_validator_def init_validator_def validate_def effective_source_def
      build_validation_chain_def validate_source_def check_rate_limit_def validate_structure_def
      result_defs Let_def)

text \<open>
  Beyond that bound the check forgets: when the cache is full, accepting a new identifier
  evicts half of the set in the iteration order of Python, and an identifier that this order lists
  early, the newest one included, is accepted again at once.
\<close>

theorem replay_after_eviction:
  assumes "length (ev_duplicate_cache s) = ev_max_duplicate_cache_size s"
    and "eid \<notin> set (ev_duplicate_cache s)"
    and "distinct (ord (ev_duplicate_cache s @ [eid]))"
    and "eid \<in> set (take (ev_max_duplicate_cache_size s div 2) (ord (ev_duplicate_cache s @ [eid])))"
  shows "vr_valid (snd (check_duplicate ord eid s)) \<and>
    vr_valid (snd (check_duplicate ord eid (fst (check_duplicate ord eid s))))"
proof -
  have "eid \<notin> set (drop (ev_max_duplicate_cache_size s div 2) (ord (ev_duplicate_cache s @ [eid])))"
    using assms(3,4) set_take_disj_set_drop_if_distinct [OF assms(3), of "ev_max_duplicate_cache_size s div 2"]
    by blast
  then show ?thesis using assms(1,2) by (simp add: check_duplicate_def result_defs Let_def)
qed

theorem replay_after_eviction_witness:
  "vr_valid (snd (check_duplicate rev ''c'' (demo_validator\<lparr>ev_duplicate_cache := [''a'', ''b''],
      ev_max_duplicate_cache_size := 2\<rparr>))) \<and>
   vr_valid (snd (check_duplicate rev ''c'' (fst (check_duplicate rev ''c'' (demo_validator\<lparr>
      ev_duplicate_cache := [''a'', ''b''], ev_max_duplicate_cache_size := 2\<rparr>)))))"
  by (rule replay_after_eviction) simp_all

end
