(* ===== verification/Circuit_Breaker.thy ===== *)
theory Circuit_Breaker
  imports Photon_Prelude
begin

text \<open>
  \<open>evolution/security_circuit_breaker.py\<close>: the breaker of a node. Security events are counted in
  a window, a rule that is met opens an action of its level (instance, node, cluster, emergency),
  and actions are closed by the recovery thread or by an operator. The state adds one field to the
  code's: the calls made to the isolation and alert callbacks, whose results the code only logs.
  The digest that makes action identifiers, \<open>sha256(...)[:16]\<close>, is an argument.
\<close>

subsection \<open>Data\<close>

datatype cb_level = L1_INSTANCE | L2_NODE | L3_CLUSTER | L4_EMERGENCY

fun cb_level_value :: "cb_level \<Rightarrow> string" where
  "cb_level_value L1_INSTANCE = ''L1_instance''"
| "cb_level_value L2_NODE = ''L2_node''"
| "cb_level_value L3_CLUSTER = ''L3_cluster''"
| "cb_level_value L4_EMERGENCY = ''L4_emergency''"

datatype cb_state = CB_CLOSED | CB_OPEN | CB_HALF_OPEN | CB_MANUAL_HOLD

fun cb_state_value :: "cb_state \<Rightarrow> string" where
  "cb_state_value CB_CLOSED = ''closed''"
| "cb_state_value CB_OPEN = ''open''"
| "cb_state_value CB_HALF_OPEN = ''half_open''"
| "cb_state_value CB_MANUAL_HOLD = ''manual_hold''"

datatype trigger_type = SECCOMP_VIOLATION_SURGE | VM_EXIT_ANOMALY | HIGH_RISK_SYSCALL | C2_CONNECTION
  | RESOURCE_SPIKE | RULE_CONFIDENCE_DROP | AUDIT_HMAC_ANOMALY | MANUAL_TRIGGER

fun trigger_value :: "trigger_type \<Rightarrow> string" where
  "trigger_value SECCOMP_VIOLATION_SURGE = ''seccomp_violation_surge''"
| "trigger_value VM_EXIT_ANOMALY = ''vm_exit_anomaly''"
| "trigger_value HIGH_RISK_SYSCALL = ''high_risk_syscall''"
| "trigger_value C2_CONNECTION = ''c2_connection''"
| "trigger_value RESOURCE_SPIKE = ''resource_spike''"
| "trigger_value RULE_CONFIDENCE_DROP = ''rule_confidence_drop''"
| "trigger_value AUDIT_HMAC_ANOMALY = ''audit_hmac_anomaly''"
| "trigger_value MANUAL_TRIGGER = ''manual_trigger''"

record sec_event =
  se_event_id :: string
  se_timestamp :: time
  se_trigger_type :: trigger_type
  se_severity :: string
  se_instance_id :: "string option"
  se_node_id :: "string option"
  se_description :: string
  se_metadata :: "(string, json) dict"
  se_source :: string

definition json_opt :: "('a \<Rightarrow> json) \<Rightarrow> 'a option \<Rightarrow> json" where
  "json_opt f x = (case x of None \<Rightarrow> JNull | Some y \<Rightarrow> f y)"

definition se_to_dict :: "sec_event \<Rightarrow> (string, json) dict" where
  "se_to_dict e =
     [(''event_id'', JStr (se_event_id e)), (''timestamp'', JFloat (se_timestamp e)),
      (''trigger_type'', JStr (trigger_value (se_trigger_type e))), (''severity'', JStr (se_severity e)),
      (''instance_id'', json_opt JStr (se_instance_id e)), (''node_id'', json_opt JStr (se_node_id e)),
      (''description'', JStr (se_description e)), (''metadata'', JObj (se_metadata e)),
      (''source'', JStr (se_source e))]"

record cb_action =
  ca_action_id :: string
  ca_timestamp :: time
  ca_level :: cb_level
  ca_state :: cb_state
  ca_trigger_event_id :: string
  ca_description :: string
  ca_affected_instances :: "string list"
  ca_affected_nodes :: "string list"
  ca_auto_recover_at :: "time option"
  ca_requires_manual :: bool
  ca_recovered_at :: "time option"
  ca_recovered_by :: "string option"

definition ca_to_dict :: "cb_action \<Rightarrow> (string, json) dict" where
  "ca_to_dict a =
     [(''action_id'', JStr (ca_action_id a)), (''timestamp'', JFloat (ca_timestamp a)),
      (''level'', JStr (cb_level_value (ca_level a))), (''state'', JStr (cb_state_value (ca_state a))),
      (''trigger_event_id'', JStr (ca_trigger_event_id a)), (''description'', JStr (ca_description a)),
      (''affected_instances'', JList (map JStr (ca_affected_instances a))),
      (''affected_nodes'', JList (map JStr (ca_affected_nodes a))),
      (''auto_recover_at'', json_opt JFloat (ca_auto_recover_at a)),
      (''requires_manual_confirmation'', JBool (ca_requires_manual a)),
      (''recovered_at'', json_opt JFloat (ca_recovered_at a)),
      (''recovered_by'', json_opt JStr (ca_recovered_by a))]"

record cb_rule =
  cr_trigger_type :: trigger_type
  cr_level :: cb_level
  cr_threshold :: rat
  cr_window_seconds :: rat
  cr_description :: string
  cr_enabled :: bool
  cr_cooldown_seconds :: rat

text \<open>The constructor calls of \<open>TriggerRule\<close>: enabled unless said otherwise.\<close>

definition TriggerRule :: "trigger_type \<Rightarrow> cb_level \<Rightarrow> rat \<Rightarrow> rat \<Rightarrow> string \<Rightarrow> rat \<Rightarrow> cb_rule" where
  "TriggerRule t l th w d c = \<lparr>cr_trigger_type = t, cr_level = l, cr_threshold = th,
     cr_window_seconds = w, cr_description = d, cr_enabled = True, cr_cooldown_seconds = c\<rparr>"

datatype cb_effect = Isolate string cb_level | Alert cb_action

record breaker =
  cb_node_id :: string
  cb_has_alert :: bool
  cb_has_isolation :: bool
  cb_auto_recover :: bool
  cb_events :: "sec_event list"
  cb_actions :: "cb_action list"
  cb_current_state :: cb_state
  cb_current_level :: "cb_level option"
  cb_last_trigger :: "(trigger_type, time) dict"
  cb_rules :: "cb_rule list"
  cb_c2 :: "string list"
  cb_running :: bool
  cb_effects :: "cb_effect list"

text \<open>The descriptions are Chinese in the source; they are given in English, as strings here are bytes.\<close>

definition build_default_rules :: "cb_rule list" where
  "build_default_rules =
     [TriggerRule HIGH_RISK_SYSCALL L1_INSTANCE 1 60 ''high risk system call'' 60,
      TriggerRule SECCOMP_VIOLATION_SURGE L2_NODE 100 60 ''seccomp violation surge'' 300,
      TriggerRule VM_EXIT_ANOMALY L2_NODE 10 60 ''VM-Exit anomaly'' 300,
      TriggerRule C2_CONNECTION L1_INSTANCE 1 60 ''connection to a known C2 server'' 60,
      TriggerRule RESOURCE_SPIKE L1_INSTANCE 3 300 ''resource spike'' 120,
      TriggerRule AUDIT_HMAC_ANOMALY L3_CLUSTER 1 60 ''audit chain HMAC anomaly'' 600,
      TriggerRule RULE_CONFIDENCE_DROP L2_NODE (1/100) 600 ''rule confidence drop'' 600]"

definition init_breaker :: "string \<Rightarrow> bool \<Rightarrow> bool \<Rightarrow> bool \<Rightarrow> breaker" where
  "init_breaker node alert isol auto =
     \<lparr>cb_node_id = node, cb_has_alert = alert, cb_has_isolation = isol, cb_auto_recover = auto,
      cb_events = [], cb_actions = [], cb_current_state = CB_CLOSED, cb_current_level = None,
      cb_last_trigger = [], cb_rules = build_default_rules, cb_c2 = [], cb_running = True,
      cb_effects = []\<rparr>"

definition create_circuit_breaker :: "string \<Rightarrow> bool \<Rightarrow> bool \<Rightarrow> breaker" where
  "create_circuit_breaker node alert isol = init_breaker node alert isol True"

subsection \<open>Opening\<close>

definition MAX_EVENTS :: nat where
  "MAX_EVENTS = 10000"

definition new_action :: "(string \<Rightarrow> time \<Rightarrow> string) \<Rightarrow> time \<Rightarrow> sec_event \<Rightarrow> cb_rule \<Rightarrow> string \<Rightarrow> cb_action" where
  "new_action sha now e rule node =
     \<lparr>ca_action_id = sha (se_event_id e) now, ca_timestamp = now, ca_level = cr_level rule,
      ca_state = CB_OPEN, ca_trigger_event_id = se_event_id e, ca_description = cr_description rule,
      ca_affected_instances = (case str_or_none (se_instance_id e) of Some i \<Rightarrow> [i] | None \<Rightarrow> []),
      ca_affected_nodes = [case str_or_none (se_node_id e) of Some n \<Rightarrow> n | None \<Rightarrow> node],
      ca_auto_recover_at = (case cr_level rule of
          L1_INSTANCE \<Rightarrow> Some (now + 300) | L2_NODE \<Rightarrow> Some (now + 600) | _ \<Rightarrow> None),
      ca_requires_manual = (cr_level rule \<in> {L3_CLUSTER, L4_EMERGENCY}),
      ca_recovered_at = None, ca_recovered_by = None\<rparr>"

text \<open>The comparison of levels in the code only decides whether a warning is logged.\<close>

definition execute_circuit_breaker ::
  "(string \<Rightarrow> time \<Rightarrow> string) \<Rightarrow> time \<Rightarrow> sec_event \<Rightarrow> cb_rule \<Rightarrow> breaker \<Rightarrow> breaker \<times> cb_action" where
  "execute_circuit_breaker sha now e rule s =
     (let a = new_action sha now e rule (cb_node_id s);
          calls = (case str_or_none (se_instance_id e) of
                   Some i \<Rightarrow> (if cb_has_isolation s then [Isolate i (cr_level rule)] else [])
                 | None \<Rightarrow> []);
          al = (if cb_has_alert s then [Alert a] else [])
      in (s\<lparr>cb_effects := cb_effects s @ calls @ al, cb_current_state := CB_OPEN,
            cb_current_level := Some (cr_level rule), cb_actions := cb_actions s @ [a]\<rparr>, a))"

definition window_count :: "time \<Rightarrow> cb_rule \<Rightarrow> trigger_type \<Rightarrow> sec_event list \<Rightarrow> int" where
  "window_count now rule t es =
     count (\<lambda>e. se_trigger_type e = t \<and> now - cr_window_seconds rule \<le> se_timestamp e) es"

text \<open>Comparing a metadata value that is not a number with the threshold raises \<open>TypeError\<close>.\<close>

definition rule_triggered :: "time \<Rightarrow> cb_rule \<Rightarrow> sec_event \<Rightarrow> sec_event list \<Rightarrow> exc + bool" where
  "rule_triggered now rule e es =
     (case se_trigger_type e of
        RESOURCE_SPIKE \<Rightarrow>
          (case num_of (dget_or (se_metadata e) ''spike_ratio'' (JInt 0)) of
             None \<Rightarrow> Inl TypeError | Some r \<Rightarrow> Inr (cr_threshold rule \<le> r))
      | RULE_CONFIDENCE_DROP \<Rightarrow>
          (case num_of (dget_or (se_metadata e) ''confidence'' (JFloat 1)) of
             None \<Rightarrow> Inl TypeError | Some r \<Rightarrow> Inr (r < cr_threshold rule))
      | t \<Rightarrow> Inr (cr_threshold rule \<le> of_int (window_count now rule t es)))"

fun try_rules :: "(string \<Rightarrow> time \<Rightarrow> string) \<Rightarrow> time \<Rightarrow> sec_event \<Rightarrow> cb_rule list \<Rightarrow> breaker \<Rightarrow>
    breaker \<times> (exc + cb_action option)" where
  "try_rules sha now e [] s = (s, Inr None)"
| "try_rules sha now e (rule # rules) s =
     (if \<not> cr_enabled rule \<or> cr_trigger_type rule \<noteq> se_trigger_type e then try_rules sha now e rules s
      else if now - dget_or (cb_last_trigger s) (se_trigger_type e) 0 < cr_cooldown_seconds rule
      then try_rules sha now e rules s
      else case rule_triggered now rule e (cb_events s) of
          Inl x \<Rightarrow> (s, Inl x)
        | Inr False \<Rightarrow> try_rules sha now e rules s
        | Inr True \<Rightarrow>
            apsnd (\<lambda>a. Inr (Some a))
              (execute_circuit_breaker sha now e rule
                 (s\<lparr>cb_last_trigger := dset (se_trigger_type e) now (cb_last_trigger s)\<rparr>)))"

definition report_event :: "(string \<Rightarrow> time \<Rightarrow> string) \<Rightarrow> time \<Rightarrow> sec_event \<Rightarrow> breaker \<Rightarrow>
    breaker \<times> (exc + cb_action option)" where
  "report_event sha now e s =
     (let s1 = s\<lparr>cb_events := push_last MAX_EVENTS e (cb_events s)\<rparr>
      in try_rules sha now e (cb_rules s1) s1)"

definition manual_event :: "time \<Rightarrow> string \<Rightarrow> string option \<Rightarrow> string \<Rightarrow> sec_event" where
  "manual_event now reason inst node =
     \<lparr>se_event_id = ''manual_'' @ dec_int (py_int now), se_timestamp = now,
      se_trigger_type = MANUAL_TRIGGER, se_severity = ''critical'', se_instance_id = inst,
      se_node_id = Some node, se_description = reason, se_metadata = [], se_source = ''manual''\<rparr>"

definition manual_trigger :: "(string \<Rightarrow> time \<Rightarrow> string) \<Rightarrow> time \<Rightarrow> cb_level \<Rightarrow> string \<Rightarrow> string option \<Rightarrow>
    breaker \<Rightarrow> breaker \<times> cb_action" where
  "manual_trigger sha now level reason inst s =
     execute_circuit_breaker sha now (manual_event now reason inst (cb_node_id s))
       (TriggerRule MANUAL_TRIGGER level 1 60 reason 0) s"

subsection \<open>Recovering\<close>

definition recover_action :: "time \<Rightarrow> string \<Rightarrow> cb_action \<Rightarrow> cb_action" where
  "recover_action now who a =
     a\<lparr>ca_state := CB_CLOSED, ca_recovered_at := Some now, ca_recovered_by := Some who\<rparr>"

definition manual_recover :: "time \<Rightarrow> string \<Rightarrow> string \<Rightarrow> breaker \<Rightarrow> breaker \<times> bool" where
  "manual_recover now aid who s =
     (case find_index (\<lambda>a. ca_action_id a = aid \<and> ca_state a = CB_OPEN) (cb_actions s) of
        None \<Rightarrow> (s, False)
      | Some i \<Rightarrow>
          (s\<lparr>cb_actions := (cb_actions s)[i := recover_action now who (cb_actions s ! i)],
             cb_current_state := CB_CLOSED, cb_current_level := None\<rparr>, True))"

text \<open>A recovery time of 0 counts as none.\<close>

definition recoverable :: "time \<Rightarrow> cb_action \<Rightarrow> bool" where
  "recoverable now a \<longleftrightarrow> ca_state a = CB_OPEN \<and>
     (case ca_auto_recover_at a of None \<Rightarrow> False | Some t \<Rightarrow> t \<noteq> 0 \<and> t \<le> now) \<and> \<not> ca_requires_manual a"

text \<open>One pass of the recovery thread, which runs about every ten seconds while the breaker runs.\<close>

definition recovery_pass :: "time \<Rightarrow> breaker \<Rightarrow> breaker" where
  "recovery_pass now s =
     (if \<not> cb_running s \<or> \<not> cb_auto_recover s then s
      else s\<lparr>cb_actions := map (\<lambda>a. if recoverable now a then recover_action now ''auto_recovery'' a else a)
                          (cb_actions s),
             cb_current_state := (if list_ex (recoverable now) (cb_actions s) then CB_CLOSED else cb_current_state s),
             cb_current_level := (if list_ex (recoverable now) (cb_actions s) then None else cb_current_level s)\<rparr>)"

definition shutdown :: "breaker \<Rightarrow> breaker" where
  "shutdown s = s\<lparr>cb_running := False\<rparr>"

subsection \<open>Rules, indicators and reports\<close>

datatype rule_update = Set_trigger_type trigger_type | Set_level cb_level | Set_threshold rat
  | Set_window rat | Set_description string | Set_enabled bool | Set_cooldown rat | Set_unknown string

fun set_rule_attr :: "rule_update \<Rightarrow> cb_rule \<Rightarrow> cb_rule" where
  "set_rule_attr (Set_trigger_type t) r = r\<lparr>cr_trigger_type := t\<rparr>"
| "set_rule_attr (Set_level l) r = r\<lparr>cr_level := l\<rparr>"
| "set_rule_attr (Set_threshold x) r = r\<lparr>cr_threshold := x\<rparr>"
| "set_rule_attr (Set_window x) r = r\<lparr>cr_window_seconds := x\<rparr>"
| "set_rule_attr (Set_description d) r = r\<lparr>cr_description := d\<rparr>"
| "set_rule_attr (Set_enabled b) r = r\<lparr>cr_enabled := b\<rparr>"
| "set_rule_attr (Set_cooldown x) r = r\<lparr>cr_cooldown_seconds := x\<rparr>"
| "set_rule_attr (Set_unknown x) r = r"

text \<open>Only the first rule of the type is changed.\<close>

fun update_rules :: "trigger_type \<Rightarrow> rule_update list \<Rightarrow> cb_rule list \<Rightarrow> cb_rule list" where
  "update_rules t us [] = []"
| "update_rules t us (r # rs) =
     (if cr_trigger_type r = t then fold set_rule_attr us r # rs else r # update_rules t us rs)"

definition update_rule :: "trigger_type \<Rightarrow> rule_update list \<Rightarrow> breaker \<Rightarrow> breaker" where
  "update_rule t us s = s\<lparr>cb_rules := update_rules t us (cb_rules s)\<rparr>"

definition add_c2_indicator :: "string \<Rightarrow> breaker \<Rightarrow> breaker" where
  "add_c2_indicator x s = s\<lparr>cb_c2 := List.insert (lower x) (cb_c2 s)\<rparr>"

definition check_c2_connection :: "string \<Rightarrow> breaker \<Rightarrow> bool" where
  "check_c2_connection x s \<longleftrightarrow> lower x \<in> set (cb_c2 s)"

record cb_view =
  cv_state :: string
  cv_level :: "string option"
  cv_node_id :: string
  cv_active_actions :: "(string, json) dict list"
  cv_total_events :: nat
  cv_total_actions :: nat

definition get_current_state :: "breaker \<Rightarrow> cb_view" where
  "get_current_state s =
     \<lparr>cv_state = cb_state_value (cb_current_state s), cv_level = map_option cb_level_value (cb_current_level s),
      cv_node_id = cb_node_id s,
      cv_active_actions = map ca_to_dict (filter (\<lambda>a. ca_state a = CB_OPEN) (cb_actions s)),
      cv_total_events = length (cb_events s), cv_total_actions = length (cb_actions s)\<rparr>"

definition get_action_history :: "nat \<Rightarrow> breaker \<Rightarrow> (string, json) dict list" where
  "get_action_history limit s = map ca_to_dict (last_n limit (cb_actions s))"

record cb_report =
  cp_node_id :: string
  cp_current_state :: string
  cp_current_level :: "string option"
  cp_total_events :: nat
  cp_total_actions :: nat
  cp_actions_by_level :: "(string, int) dict"
  cp_events_by_trigger :: "(string, int) dict"
  cp_active_rules :: int
  cp_c2_indicators :: nat
  cp_auto_recover_enabled :: bool

definition breaker_get_stats :: "breaker \<Rightarrow> cb_report" where
  "breaker_get_stats s =
     \<lparr>cp_node_id = cb_node_id s, cp_current_state = cb_state_value (cb_current_state s),
      cp_current_level = map_option cb_level_value (cb_current_level s),
      cp_total_events = length (cb_events s), cp_total_actions = length (cb_actions s),
      cp_actions_by_level = fold (\<lambda>a d. bump (cb_level_value (ca_level a)) d) (cb_actions s) [],
      cp_events_by_trigger = fold (\<lambda>e d. bump (trigger_value (se_trigger_type e)) d) (cb_events s) [],
      cp_active_rules = count cr_enabled (cb_rules s), cp_c2_indicators = length (cb_c2 s),
      cp_auto_recover_enabled = cb_auto_recover s\<rparr>"

subsection \<open>The machine and its invariant\<close>

datatype cb_op = CB_Report time sec_event | CB_Manual_Trigger time cb_level string "string option"
  | CB_Manual_Recover time string string | CB_Recovery_Pass time
  | CB_Update_Rule trigger_type "rule_update list" | CB_Add_C2 string | CB_Shutdown

fun cb_step :: "(string \<Rightarrow> time \<Rightarrow> string) \<Rightarrow> cb_op \<Rightarrow> breaker \<Rightarrow> breaker" where
  "cb_step sha (CB_Report now e) s = fst (report_event sha now e s)"
| "cb_step sha (CB_Manual_Trigger now l reason inst) s = fst (manual_trigger sha now l reason inst s)"
| "cb_step sha (CB_Manual_Recover now aid who) s = fst (manual_recover now aid who s)"
| "cb_step sha (CB_Recovery_Pass now) s = recovery_pass now s"
| "cb_step sha (CB_Update_Rule t us) s = update_rule t us s"
| "cb_step sha (CB_Add_C2 x) s = add_c2_indicator x s"
| "cb_step sha CB_Shutdown s = shutdown s"

definition cb_init :: "breaker \<Rightarrow> bool" where
  "cb_init s \<longleftrightarrow> (\<exists>node alert isol auto. s = init_breaker node alert isol auto)"

lemma cb_init_fresh: "cb_init (init_breaker node alert isol auto)"
  unfolding cb_init_def by blast

definition action_ok :: "cb_action \<Rightarrow> bool" where
  "action_ok a \<longleftrightarrow> ca_state a \<in> {CB_OPEN, CB_CLOSED} \<and> (ca_state a = CB_OPEN \<longleftrightarrow> ca_recovered_at a = None) \<and>
     (ca_recovered_at a = None \<longleftrightarrow> ca_recovered_by a = None) \<and>
     (ca_requires_manual a \<longleftrightarrow> ca_level a \<in> {L3_CLUSTER, L4_EMERGENCY}) \<and>
     ca_auto_recover_at a = (case ca_level a of L1_INSTANCE \<Rightarrow> Some (ca_timestamp a + 300)
        | L2_NODE \<Rightarrow> Some (ca_timestamp a + 600) | _ \<Rightarrow> None)"

definition breaker_ok :: "breaker \<Rightarrow> bool" where
  "breaker_ok s \<longleftrightarrow> length (cb_events s) \<le> MAX_EVENTS \<and> (\<forall>a\<in>set (cb_actions s). action_ok a) \<and>
     (cb_current_state s = CB_CLOSED \<and> cb_current_level s = None \<or>
      cb_current_state s = CB_OPEN \<and> cb_actions s \<noteq> [] \<and> ca_state (last (cb_actions s)) = CB_OPEN \<and>
      cb_current_level s = Some (ca_level (last (cb_actions s))))"

lemma action_ok_new: "action_ok (new_action sha now e rule node)"
  by (cases "cr_level rule") (simp_all add: action_ok_def new_action_def)

lemma action_ok_recover: "action_ok a \<Longrightarrow> action_ok (recover_action now who a)"
  by (cases "ca_level a") (simp_all add: action_ok_def recover_action_def)

lemma new_action_simps [simp]:
  "ca_state (new_action sha now e rule node) = CB_OPEN"
  "ca_level (new_action sha now e rule node) = cr_level rule"
  "ca_timestamp (new_action sha now e rule node) = now"
  by (simp_all add: new_action_def)

lemma execute_frame:
  "cb_actions (fst (execute_circuit_breaker sha now e rule s)) =
     cb_actions s @ [new_action sha now e rule (cb_node_id s)]"
  "snd (execute_circuit_breaker sha now e rule s) = new_action sha now e rule (cb_node_id s)"
  "cb_current_state (fst (execute_circuit_breaker sha now e rule s)) = CB_OPEN"
  "cb_current_level (fst (execute_circuit_breaker sha now e rule s)) = Some (cr_level rule)"
  "cb_events (fst (execute_circuit_breaker sha now e rule s)) = cb_events s"
  "cb_last_trigger (fst (execute_circuit_breaker sha now e rule s)) = cb_last_trigger s"
  "cb_rules (fst (execute_circuit_breaker sha now e rule s)) = cb_rules s"
  "cb_node_id (fst (execute_circuit_breaker sha now e rule s)) = cb_node_id s"
  "cb_running (fst (execute_circuit_breaker sha now e rule s)) = cb_running s"
  "cb_auto_recover (fst (execute_circuit_breaker sha now e rule s)) = cb_auto_recover s"
  by (simp_all add: execute_circuit_breaker_def Let_def)

declare execute_frame [simp, frame_simps]

text \<open>A rule an event meets, and the state after opening for it.\<close>

definition rule_met :: "time \<Rightarrow> sec_event \<Rightarrow> breaker \<Rightarrow> cb_rule \<Rightarrow> bool" where
  "rule_met now e s rule \<longleftrightarrow> cr_enabled rule \<and> cr_trigger_type rule = se_trigger_type e \<and>
     cr_cooldown_seconds rule \<le> now - dget_or (cb_last_trigger s) (se_trigger_type e) 0 \<and>
     rule_triggered now rule e (cb_events s) = Inr True"

definition open_for :: "(string \<Rightarrow> time \<Rightarrow> string) \<Rightarrow> time \<Rightarrow> sec_event \<Rightarrow> cb_rule \<Rightarrow> breaker \<Rightarrow> breaker" where
  "open_for sha now e rule s = fst (execute_circuit_breaker sha now e rule
     (s\<lparr>cb_last_trigger := dset (se_trigger_type e) now (cb_last_trigger s)\<rparr>))"

text \<open>What evaluating the rules does, by its outcome: nothing, or one action of a rule that was met.\<close>

lemma try_rules_outcome:
  "try_rules sha now e rules s = (s, Inr None) \<or> try_rules sha now e rules s = (s, Inl TypeError) \<or>
   (\<exists>rule\<in>set rules. rule_met now e s rule \<and> try_rules sha now e rules s =
      (open_for sha now e rule s, Inr (Some (new_action sha now e rule (cb_node_id s)))))"
proof (induction rules)
  case Nil
  then show ?case by simp
next
  case (Cons rule rules)
  consider (skip) "try_rules sha now e (rule # rules) s = try_rules sha now e rules s"
    | (err) x where "try_rules sha now e (rule # rules) s = (s, Inl x)" "rule_triggered now rule e (cb_events s) = Inl x"
    | (trip) "rule_met now e s rule"
  proof (cases "\<not> cr_enabled rule \<or> cr_trigger_type rule \<noteq> se_trigger_type e \<or>
      now - dget_or (cb_last_trigger s) (se_trigger_type e) 0 < cr_cooldown_seconds rule")
    case True
    then show thesis by (intro skip) auto
  next
    case False
    consider x where "rule_triggered now rule e (cb_events s) = Inl x"
      | "rule_triggered now rule e (cb_events s) = Inr False" | "rule_triggered now rule e (cb_events s) = Inr True"
      by (metis sum.exhaust)
    then show thesis
    proof cases
      case 1
      then show ?thesis using False by (intro err) auto
    next
      case 2
      then show ?thesis using False by (intro skip) auto
    next
      case 3
      then show ?thesis using False by (intro trip) (auto simp: rule_met_def)
    qed
  qed
  then show ?case
  proof cases
    case skip
    then show ?thesis using Cons.IH by auto
  next
    case (err x)
    then have "x = TypeError"
      by (auto simp: rule_triggered_def split: trigger_type.splits option.splits)
    with err show ?thesis by simp
  next
    case trip
    then have "try_rules sha now e (rule # rules) s =
        (open_for sha now e rule s, Inr (Some (new_action sha now e rule (cb_node_id s))))"
      by (simp add: rule_met_def open_for_def apsnd_def map_prod_def case_prod_unfold)
    with trip show ?thesis by (meson list.set_intros(1))
  qed
qed

text \<open>The same for a report, which first stores the event.\<close>

definition stored :: "sec_event \<Rightarrow> breaker \<Rightarrow> breaker" where
  "stored e s = s\<lparr>cb_events := push_last MAX_EVENTS e (cb_events s)\<rparr>"

lemma stored_simps [simp]:
  "cb_events (stored e s) = push_last MAX_EVENTS e (cb_events s)" "cb_actions (stored e s) = cb_actions s"
  "cb_current_state (stored e s) = cb_current_state s" "cb_current_level (stored e s) = cb_current_level s"
  "cb_last_trigger (stored e s) = cb_last_trigger s" "cb_rules (stored e s) = cb_rules s"
  "cb_node_id (stored e s) = cb_node_id s" "cb_running (stored e s) = cb_running s"
  "cb_auto_recover (stored e s) = cb_auto_recover s" "cb_effects (stored e s) = cb_effects s"
  "cb_has_alert (stored e s) = cb_has_alert s" "cb_has_isolation (stored e s) = cb_has_isolation s"
  by (simp_all add: stored_def)

lemma open_for_simps [simp]:
  "cb_events (open_for sha now e rule s) = cb_events s"
  "cb_actions (open_for sha now e rule s) = cb_actions s @ [new_action sha now e rule (cb_node_id s)]"
  "cb_current_state (open_for sha now e rule s) = CB_OPEN"
  "cb_current_level (open_for sha now e rule s) = Some (cr_level rule)"
  "cb_last_trigger (open_for sha now e rule s) = dset (se_trigger_type e) now (cb_last_trigger s)"
  "cb_rules (open_for sha now e rule s) = cb_rules s"
  by (simp_all add: open_for_def)

lemma report_event_outcome:
  obtains (none) "report_event sha now e s = (stored e s, Inr None) \<or> report_event sha now e s = (stored e s, Inl TypeError)"
  | (trip) rule where "rule \<in> set (cb_rules s)" "rule_met now e (stored e s) rule"
      "report_event sha now e s =
        (open_for sha now e rule (stored e s), Inr (Some (new_action sha now e rule (cb_node_id s))))"
  using try_rules_outcome [of sha now e "cb_rules s" "stored e s"]
  by (auto simp: report_event_def stored_def [symmetric] Let_def)

lemma action_ok_list_update:
  "\<forall>a\<in>set xs. action_ok a \<Longrightarrow> action_ok b \<Longrightarrow> \<forall>a\<in>set (xs[i := b]). action_ok a"
  using set_update_subset_insert [of xs i b] by blast

lemma breaker_ok_open:
  assumes "length (cb_events s') \<le> MAX_EVENTS" "\<forall>a\<in>set (cb_actions s). action_ok a"
    and "cb_actions s' = cb_actions s @ [new_action sha now e rule node]"
    and "cb_current_state s' = CB_OPEN" "cb_current_level s' = Some (cr_level rule)"
  shows "breaker_ok s'"
  using assms by (simp add: breaker_ok_def action_ok_new)

lemma breaker_ok_report:
  assumes "breaker_ok s"
  shows "breaker_ok (fst (report_event sha now e s))"
proof -
  have len: "length (push_last MAX_EVENTS e (cb_events s)) \<le> MAX_EVENTS"
    by (simp add: length_push_last)
  show ?thesis
  proof (rule report_event_outcome [of sha now e s])
    assume "report_event sha now e s = (stored e s, Inr None) \<or> report_event sha now e s = (stored e s, Inl TypeError)"
    then show ?thesis using assms len by (auto simp: breaker_ok_def)
  next
    fix rule
    assume "report_event sha now e s =
        (open_for sha now e rule (stored e s), Inr (Some (new_action sha now e rule (cb_node_id s))))"
    then show ?thesis
      using assms len by (intro breaker_ok_open [of _ s sha now e rule "cb_node_id s"]) (simp_all add: breaker_ok_def)
  qed
qed

lemma breaker_ok_manual_recover:
  assumes "breaker_ok s"
  shows "breaker_ok (fst (manual_recover now aid who s))"
proof (cases "find_index (\<lambda>a. ca_action_id a = aid \<and> ca_state a = CB_OPEN) (cb_actions s)")
  case None
  then show ?thesis using assms by (simp add: manual_recover_def)
next
  case (Some i)
  then have "i < length (cb_actions s)" by (simp add: find_index_Some)
  then have "action_ok (recover_action now who (cb_actions s ! i))"
    using assms by (simp add: breaker_ok_def action_ok_recover)
  then show ?thesis
    using assms Some action_ok_list_update [of "cb_actions s" _ i] by (simp add: manual_recover_def breaker_ok_def)
qed

lemma breaker_ok_recovery_pass:
  assumes "breaker_ok s"
  shows "breaker_ok (recovery_pass now s)"
proof -
  let ?f = "\<lambda>a. if recoverable now a then recover_action now ''auto_recovery'' a else a"
  have ok: "\<forall>a\<in>set (map ?f (cb_actions s)). action_ok a"
    using assms by (auto simp: breaker_ok_def intro: action_ok_recover)
  show ?thesis
  proof (cases "list_ex (recoverable now) (cb_actions s)")
    case True
    then show ?thesis using assms ok by (simp add: recovery_pass_def breaker_ok_def)
  next
    case False
    then have "map ?f (cb_actions s) = cb_actions s"
      by (intro map_idI) (auto simp: list_ex_iff)
    then show ?thesis using assms False by (simp add: recovery_pass_def breaker_ok_def)
  qed
qed

interpretation breaker: machine cb_init "cb_step sha" breaker_ok for sha :: "string \<Rightarrow> time \<Rightarrow> string"
proof unfold_locales
  show "breaker_ok s" if "cb_init s" for s
    using that by (auto simp: cb_init_def init_breaker_def breaker_ok_def)
  show "breaker_ok (cb_step sha ev s)" if ok: "breaker_ok s" for ev s
  proof (cases ev)
    case (CB_Manual_Trigger now l reason inst)
    show ?thesis unfolding CB_Manual_Trigger cb_step.simps manual_trigger_def
      by (rule breaker_ok_open [of _ s, where sha = sha and now = now and node = "cb_node_id s"
            and e = "manual_event now reason inst (cb_node_id s)"
            and rule = "TriggerRule MANUAL_TRIGGER l 1 60 reason 0"])
        (use ok in \<open>simp_all add: breaker_ok_def\<close>)
  next
    case (CB_Update_Rule t us)
    then show ?thesis using ok by (simp add: update_rule_def breaker_ok_def)
  next
    case (CB_Add_C2 x)
    then show ?thesis using ok by (simp add: add_c2_indicator_def breaker_ok_def)
  next
    case CB_Shutdown
    then show ?thesis using ok by (simp add: shutdown_def breaker_ok_def)
  qed (use ok in \<open>simp_all add: breaker_ok_report breaker_ok_manual_recover breaker_ok_recovery_pass\<close>)
qed

subsection \<open>Properties\<close>

text \<open>
  In every reachable state the event window holds at most 10000 events, every action is open
  or closed and carries its level's recovery rule (300 or 600 seconds, or an operator), and the
  breaker is closed without a level, or open at the level of its newest action, which is open. The
  states \<open>half_open\<close> and \<open>manual_hold\<close> are never taken.
\<close>

theorem breaker_invariant:
  assumes "reachable cb_init (cb_step sha) s"
  shows "length (cb_events s) \<le> 10000 \<and> (\<forall>a\<in>set (cb_actions s). action_ok a) \<and>
     (cb_current_state s = CB_CLOSED \<and> cb_current_level s = None \<or>
      cb_current_state s = CB_OPEN \<and> cb_actions s \<noteq> [] \<and> ca_state (last (cb_actions s)) = CB_OPEN \<and>
      cb_current_level s = Some (ca_level (last (cb_actions s))))"
  using breaker.inv_reachable [OF assms] by (simp add: breaker_ok_def MAX_EVENTS_def)

theorem breaker_invariant_witness:
  "length (cb_events (recovery_pass 5 (init_breaker ''n'' True True True))) \<le> 10000"
proof -
  have "reachable cb_init (cb_step (\<lambda>x _. x)) (init_breaker ''n'' True True True)"
    by (rule reachable.reach_init) (rule cb_init_fresh)
  from reachable.reach_step [OF this, of "CB_Recovery_Pass 5"]
  have "reachable cb_init (cb_step (\<lambda>x _. x)) (recovery_pass 5 (init_breaker ''n'' True True True))" by simp
  from breaker_invariant [OF this] show ?thesis by blast
qed

text \<open>
  A report that opens an action sets the breaker to the level of the rule that was met,
  whatever level it had, isolates the instance the event names at that level when a callback is
  set, and alerts. An L1 event thus lowers the level during an L3 or L4 outage.
\<close>

theorem trip_sets_level:
  assumes "snd (report_event sha now e s) = Inr (Some a)"
  shows "ca_state a = CB_OPEN \<and> cb_current_state (fst (report_event sha now e s)) = CB_OPEN \<and>
    cb_current_level (fst (report_event sha now e s)) = Some (ca_level a) \<and>
    cb_actions (fst (report_event sha now e s)) = cb_actions s @ [a] \<and>
    (\<exists>rule\<in>set (cb_rules s). cr_enabled rule \<and> cr_trigger_type rule = se_trigger_type e \<and> cr_level rule = ca_level a) \<and>
    cb_effects (fst (report_event sha now e s)) = cb_effects s @
      (case str_or_none (se_instance_id e) of
         Some i \<Rightarrow> (if cb_has_isolation s then [Isolate i (ca_level a)] else []) | None \<Rightarrow> []) @
      (if cb_has_alert s then [Alert a] else [])"
proof (rule report_event_outcome [of sha now e s])
  assume "report_event sha now e s = (stored e s, Inr None) \<or> report_event sha now e s = (stored e s, Inl TypeError)"
  then show ?thesis using assms by auto
next
  fix rule
  assume r: "rule \<in> set (cb_rules s)" "rule_met now e (stored e s) rule"
    "report_event sha now e s =
      (open_for sha now e rule (stored e s), Inr (Some (new_action sha now e rule (cb_node_id s))))"
  have "cb_effects (open_for sha now e rule (stored e s)) = cb_effects s @
      (case str_or_none (se_instance_id e) of
         Some i \<Rightarrow> (if cb_has_isolation s then [Isolate i (cr_level rule)] else []) | None \<Rightarrow> []) @
      (if cb_has_alert s then [Alert (new_action sha now e rule (cb_node_id s))] else [])"
    by (simp add: open_for_def execute_circuit_breaker_def Let_def split: option.split)
  then show ?thesis using assms r by (auto simp: rule_met_def simp del: split_paired_Ex split: option.split)
qed

definition demo_sec_event :: "trigger_type \<Rightarrow> sec_event" where
  "demo_sec_event t = \<lparr>se_event_id = ''e'', se_timestamp = 1000, se_trigger_type = t,
     se_severity = ''critical'', se_instance_id = Some ''i'', se_node_id = None,
     se_description = [], se_metadata = [], se_source = ''auto''\<rparr>"

lemma demo_trip:
  assumes "t = C2_CONNECTION \<or> t = AUDIT_HMAC_ANOMALY" "cb_rules s = build_default_rules"
    and "dget (cb_last_trigger s) t = None" "cb_events s = []"
  shows "\<exists>a. snd (report_event sha 1000 (demo_sec_event t) s) = Inr (Some a)"
  using assms
  by (auto simp: report_event_def build_default_rules_def TriggerRule_def demo_sec_event_def dget_or_def
      rule_triggered_def window_count_def push_last_def MAX_EVENTS_def Let_def apsnd_def map_prod_def
      case_prod_unfold)

theorem trip_sets_level_witness:
  "cb_current_level (fst (report_event (\<lambda>x _. x) 1000 (demo_sec_event C2_CONNECTION)
     ((init_breaker ''n'' True True True)\<lparr>cb_current_state := CB_OPEN, cb_current_level := Some L4_EMERGENCY\<rparr>))) \<noteq> None"
proof -
  obtain a where "snd (report_event (\<lambda>x _. x) 1000 (demo_sec_event C2_CONNECTION)
     ((init_breaker ''n'' True True True)\<lparr>cb_current_state := CB_OPEN, cb_current_level := Some L4_EMERGENCY\<rparr>)) = Inr (Some a)"
    using demo_trip [of C2_CONNECTION "(init_breaker ''n'' True True True)\<lparr>cb_current_state := CB_OPEN, cb_current_level := Some L4_EMERGENCY\<rparr>"]
    by (auto simp: init_breaker_def)
  from trip_sets_level [OF this] show ?thesis by simp
qed

text \<open>An action that only an operator may close.\<close>

definition held :: "nat \<Rightarrow> cb_action \<Rightarrow> breaker \<Rightarrow> bool" where
  "held i a s \<longleftrightarrow> i < length (cb_actions s) \<and> cb_actions s ! i = a \<and> ca_state a = CB_OPEN \<and> ca_requires_manual a"

lemma held_report: "held i a s \<Longrightarrow> held i a (fst (report_event sha now e s))"
  by (rule report_event_outcome [of sha now e s]) (auto simp: held_def nth_append)

lemma held_manual_recover:
  assumes "held i a s" "aid \<noteq> ca_action_id a"
  shows "held i a (fst (manual_recover now aid who s))"
proof (cases "find_index (\<lambda>a. ca_action_id a = aid \<and> ca_state a = CB_OPEN) (cb_actions s)")
  case None
  then show ?thesis using assms by (simp add: manual_recover_def)
next
  case (Some j)
  then have "ca_action_id (cb_actions s ! j) = aid" by (simp add: find_index_Some)
  then have "j \<noteq> i" using assms by (auto simp: held_def)
  then show ?thesis using assms Some by (simp add: manual_recover_def held_def)
qed

lemma held_step:
  assumes "held i a s" "\<And>now who. op \<noteq> CB_Manual_Recover now (ca_action_id a) who"
  shows "held i a (cb_step sha op s)"
proof (cases op)
  case (CB_Manual_Recover now aid who)
  then have "aid \<noteq> ca_action_id a" using assms(2) by blast
  then show ?thesis using assms(1) held_manual_recover by (simp add: CB_Manual_Recover)
next
  case (CB_Recovery_Pass now)
  then show ?thesis using assms(1) by (simp add: recovery_pass_def held_def recoverable_def)
qed (use assms(1) held_report in \<open>auto simp: manual_trigger_def held_def nth_append update_rule_def
    add_c2_indicator_def shutdown_def\<close>)

lemma held_run:
  "held i a s \<Longrightarrow> (\<forall>now who. CB_Manual_Recover now (ca_action_id a) who \<notin> set ops) \<Longrightarrow>
   held i a (fold (cb_step sha) ops s)"
proof (induction ops arbitrary: s)
  case Nil
  then show ?case by simp
next
  case (Cons op ops)
  have "held i a (cb_step sha op s)" using Cons.prems by (intro held_step) auto
  then show ?case using Cons by simp
qed

text \<open>
  C8. Whatever happens, an open cluster-level or emergency action stays exactly as it is until an
  operator closes that action: no timer, report, rule change or other recovery ends it.
\<close>

theorem emergency_waits_for_operator:
  assumes "reachable cb_init (cb_step sha) s"
    and "i < length (cb_actions s)" "ca_state (cb_actions s ! i) = CB_OPEN"
    and "ca_level (cb_actions s ! i) \<in> {L3_CLUSTER, L4_EMERGENCY}"
    and "\<forall>now who. CB_Manual_Recover now (ca_action_id (cb_actions s ! i)) who \<notin> set ops"
  shows "i < length (cb_actions (fold (cb_step sha) ops s)) \<and>
    cb_actions (fold (cb_step sha) ops s) ! i = cb_actions s ! i"
proof -
  have "action_ok (cb_actions s ! i)"
    using breaker.inv_reachable [OF assms(1)] assms(2) by (simp add: breaker_ok_def)
  then have "held i (cb_actions s ! i) s" using assms(2-4) by (auto simp: held_def action_ok_def)
  from held_run [OF this assms(5), of sha] show ?thesis by (simp add: held_def)
qed

definition demo_emergency :: breaker where
  "demo_emergency = cb_step (\<lambda>x _. ''id'') (CB_Manual_Trigger 1000 L4_EMERGENCY ''reason'' None)
     (init_breaker ''n'' True True True)"

lemma demo_emergency_reachable: "reachable cb_init (cb_step (\<lambda>x _. ''id'')) demo_emergency"
  unfolding demo_emergency_def by (intro reachable.intros cb_init_fresh)

lemma demo_emergency_action:
  "\<exists>a. cb_actions demo_emergency = [a] \<and> ca_state a = CB_OPEN \<and> ca_level a = L4_EMERGENCY \<and> ca_action_id a = ''id''"
  by (simp add: demo_emergency_def manual_trigger_def init_breaker_def TriggerRule_def) (simp add: new_action_def)

theorem emergency_waits_for_operator_witness:
  "cb_actions (fold (cb_step (\<lambda>x _. ''id'')) [CB_Recovery_Pass 99999, CB_Manual_Recover 1001 ''other'' ''bob''] demo_emergency) ! 0 =
   cb_actions demo_emergency ! 0"
proof -
  obtain a where a: "cb_actions demo_emergency = [a]" "ca_state a = CB_OPEN" "ca_level a = L4_EMERGENCY"
    "ca_action_id a = ''id''" using demo_emergency_action by blast
  show ?thesis
    using emergency_waits_for_operator [OF demo_emergency_reachable, of 0
        "[CB_Recovery_Pass 99999, CB_Manual_Recover 1001 ''other'' ''bob'']"] a by simp
qed

text \<open>
  The global state does not tell: one pass of the recovery thread that closes any action sets
  the breaker to closed with no level, while an open emergency action stays open and is still
  listed among the active ones; so does an operator who closes another action.
\<close>

theorem recovery_masks_open_emergency:
  assumes "cb_running s" "cb_auto_recover s"
    and "a \<in> set (cb_actions s)" "recoverable now a"
    and "b \<in> set (cb_actions s)" "ca_state b = CB_OPEN" "ca_requires_manual b"
  shows "cv_state (get_current_state (recovery_pass now s)) = ''closed'' \<and>
    cv_level (get_current_state (recovery_pass now s)) = None \<and>
    b \<in> set (cb_actions (recovery_pass now s)) \<and>
    ca_to_dict b \<in> set (cv_active_actions (get_current_state (recovery_pass now s)))"
proof -
  have ex: "list_ex (recoverable now) (cb_actions s)" using assms(3,4) by (auto simp: list_ex_iff)
  have "\<not> recoverable now b" using assms(7) by (simp add: recoverable_def)
  then have b: "b \<in> set (cb_actions (recovery_pass now s))"
    using assms(1,2,5) by (force simp: recovery_pass_def)
  then show ?thesis
    using assms(1,2,6) ex by (auto simp: get_current_state_def recovery_pass_def)
qed

definition demo_masked :: breaker where
  "demo_masked = fst (manual_trigger (\<lambda>x _. ''2'') 1000 L1_INSTANCE ''b'' None
     (fst (manual_trigger (\<lambda>x _. ''1'') 1000 L4_EMERGENCY ''a'' None (init_breaker ''n'' True True True))))"

theorem recovery_masks_open_emergency_witness:
  "cv_state (get_current_state (recovery_pass 1300 demo_masked)) = ''closed'' \<and>
   cv_active_actions (get_current_state (recovery_pass 1300 demo_masked)) \<noteq> []"
proof -
  let ?e = "\<lambda>r. manual_event 1000 r None ''n''"
  let ?b = "new_action (\<lambda>x _. ''1'') 1000 (?e ''a'') (TriggerRule MANUAL_TRIGGER L4_EMERGENCY 1 60 ''a'' 0) ''n''"
  let ?a = "new_action (\<lambda>x _. ''2'') 1000 (?e ''b'') (TriggerRule MANUAL_TRIGGER L1_INSTANCE 1 60 ''b'' 0) ''n''"
  have acts: "cb_actions demo_masked = [?b, ?a]"
    by (simp add: demo_masked_def manual_trigger_def init_breaker_def)
  have run: "cb_running demo_masked" "cb_auto_recover demo_masked"
    by (simp_all add: demo_masked_def manual_trigger_def init_breaker_def)
  have r: "recoverable 1300 ?a" by (simp add: recoverable_def new_action_def TriggerRule_def)
  have b: "ca_requires_manual ?b" by (simp add: new_action_def TriggerRule_def)
  have "cv_state (get_current_state (recovery_pass 1300 demo_masked)) = ''closed''"
    "ca_to_dict ?b \<in> set (cv_active_actions (get_current_state (recovery_pass 1300 demo_masked)))"
    using recovery_masks_open_emergency [OF run _ r _ _ b] acts by simp_all
  then show ?thesis by (metis empty_iff list.set(1))
qed

subsubsection \<open>Thresholds\<close>

definition surge_event :: "time \<Rightarrow> sec_event \<Rightarrow> bool" where
  "surge_event now e \<longleftrightarrow> se_trigger_type e = SECCOMP_VIOLATION_SURGE \<and> now - 60 \<le> se_timestamp e"

lemma report_surge:
  assumes "cb_rules s = build_default_rules" "cb_last_trigger s = []" "300 \<le> now"
    and "\<forall>e\<in>set (cb_events s @ [e]). surge_event now e" "length (cb_events s) < MAX_EVENTS"
  shows "report_event sha now e s =
    (if 100 \<le> length (cb_events s) + 1
     then (open_for sha now e (build_default_rules ! 1) (stored e s),
           Inr (Some (new_action sha now e (build_default_rules ! 1) (cb_node_id s))))
     else (stored e s, Inr None)) \<and> cb_events (stored e s) = cb_events s @ [e]"
proof -
  have ev: "push_last MAX_EVENTS e (cb_events s) = cb_events s @ [e]"
    using assms(5) by (simp add: push_last_def)
  have f: "filter (\<lambda>x. se_trigger_type x = SECCOMP_VIOLATION_SURGE \<and> now - 60 \<le> se_timestamp x)
      (cb_events s @ [e]) = cb_events s @ [e]"
    using assms(4) by (intro filter_True) (auto simp: surge_event_def)
  have cnt: "window_count now (build_default_rules ! 1) SECCOMP_VIOLATION_SURGE (cb_events s @ [e]) =
      int (length (cb_events s) + 1)"
    unfolding window_count_def count_def by (simp add: build_default_rules_def TriggerRule_def f del: filter_append)
  have t: "se_trigger_type e = SECCOMP_VIOLATION_SURGE" using assms(4) by (simp add: surge_event_def)
  have th: "cr_threshold (build_default_rules ! 1) = 100" by (simp add: build_default_rules_def TriggerRule_def)
  have thr: "rule_triggered now (build_default_rules ! 1) e (cb_events (stored e s)) =
      Inr (100 \<le> length (cb_events s) + 1)"
    using th unfolding rule_triggered_def by (simp add: t ev cnt del: One_nat_def)
  have split: "build_default_rules = [build_default_rules ! 0, build_default_rules ! 1] @ drop 2 build_default_rules"
    by (simp add: build_default_rules_def)
  have "report_event sha now e s = try_rules sha now e
      ([build_default_rules ! 0, build_default_rules ! 1] @ drop 2 build_default_rules) (stored e s)"
    using split assms(1) by (simp add: report_event_def stored_def Let_def)
  also have "\<dots> = (if 100 \<le> length (cb_events s) + 1
     then (open_for sha now e (build_default_rules ! 1) (stored e s),
           Inr (Some (new_action sha now e (build_default_rules ! 1) (cb_node_id s))))
     else (stored e s, Inr None))"
  proof -
    have skip0: "cr_trigger_type (build_default_rules ! 0) \<noteq> se_trigger_type e"
      and one: "cr_enabled (build_default_rules ! 1)" "cr_trigger_type (build_default_rules ! 1) = se_trigger_type e"
        "cr_cooldown_seconds (build_default_rules ! 1) = 300"
      by (simp_all add: build_default_rules_def TriggerRule_def t)
    have rest: "try_rules sha now e (drop 2 build_default_rules) (stored e s) = (stored e s, Inr None)"
      by (simp add: build_default_rules_def TriggerRule_def t)
    have cool: "\<not> now - dget_or (cb_last_trigger (stored e s)) (se_trigger_type e) 0 < 300"
      using assms(2,3) by (simp add: dget_or_def)
    show ?thesis using skip0 one thr cool rest
      by (simp add: open_for_def apsnd_def map_prod_def case_prod_unfold)
  qed
  finally show ?thesis using ev by simp
qed

text \<open>Reports one after another.\<close>

definition report_all :: "(string \<Rightarrow> time \<Rightarrow> string) \<Rightarrow> (time \<times> sec_event) list \<Rightarrow> breaker \<Rightarrow> breaker" where
  "report_all sha es s = fold (\<lambda>(now, e) s. fst (report_event sha now e s)) es s"

lemma report_surges:
  assumes "cb_rules s = build_default_rules" "cb_last_trigger s = []"
    and "\<forall>(now, e)\<in>set es. 300 \<le> now"
    and "\<forall>(now, e)\<in>set es. \<forall>e'\<in>set (cb_events s @ map snd es). surge_event now e'"
    and "length (cb_events s) + length es < 100"
  shows "report_all sha es s = s\<lparr>cb_events := cb_events s @ map snd es\<rparr>"
  using assms
proof (induction es arbitrary: s)
  case Nil
  then show ?case by (simp add: report_all_def)
next
  case (Cons p es)
  obtain now e where p: "p = (now, e)" by fastforce
  have r: "report_event sha now e s = (stored e s, Inr None)" "cb_events (stored e s) = cb_events s @ [e]"
    using report_surge [of s now e sha] Cons.prems by (auto simp: p MAX_EVENTS_def)
  have "report_all sha es (stored e s) = (stored e s)\<lparr>cb_events := cb_events (stored e s) @ map snd es\<rparr>"
    using Cons.prems r(2) by (intro Cons.IH) (auto simp: p)
  then show ?case using r by (simp add: report_all_def p) (simp add: stored_def)
qed

text \<open>
  On a new breaker the default rule for seccomp violations opens a node-level action at
  exactly the hundredth violation of a minute: nothing opens at the first ninety-nine, and the
  next one opens. (The module's documentation says more than a hundred.)
\<close>

theorem surge_trips_at_hundredth:
  assumes "length es = 99" "\<forall>(now, _)\<in>set (es @ [(t, e)]). 300 \<le> now"
    and "\<forall>(now, _)\<in>set (es @ [(t, e)]). \<forall>(_, e')\<in>set (es @ [(t, e)]). surge_event now e'"
    and s_def: "s = report_all sha es (init_breaker node alert isol auto)"
  shows "cb_actions s = [] \<and> cb_current_state s = CB_CLOSED \<and>
    (\<exists>a. snd (report_event sha t e s) = Inr (Some a) \<and> ca_level a = L2_NODE \<and>
       cb_actions (fst (report_event sha t e s)) = [a])"
proof -
  let ?s0 = "init_breaker node alert isol auto"
  have win: "\<forall>(now, e)\<in>set es. \<forall>e'\<in>snd ` set es. surge_event now e'"
    using assms(3) by force
  have w2: "300 \<le> t" "surge_event t e" "\<forall>x\<in>set es. surge_event t (snd x)"
    using assms(2,3) by (auto simp: case_prod_unfold)
  have s: "s = ?s0\<lparr>cb_events := map snd es\<rparr>"
    unfolding s_def using report_surges [of ?s0 es sha] assms(1,2) win by (simp add: init_breaker_def)
  have "report_event sha t e s =
      (open_for sha t e (build_default_rules ! 1) (stored e s),
       Inr (Some (new_action sha t e (build_default_rules ! 1) (cb_node_id s))))"
    using report_surge [of s t e sha] assms(1) w2 by (simp add: s init_breaker_def MAX_EVENTS_def)
  then show ?thesis by (simp add: s init_breaker_def) (simp add: build_default_rules_def TriggerRule_def)
qed

theorem surge_trips_at_hundredth_witness:
  "\<exists>a. snd (report_event (\<lambda>x _. x) 1000 (demo_sec_event SECCOMP_VIOLATION_SURGE)
     (report_all (\<lambda>x _. x) (replicate 99 (1000, demo_sec_event SECCOMP_VIOLATION_SURGE))
        (init_breaker ''n'' True True True))) = Inr (Some a) \<and> ca_level a = L2_NODE"
  using surge_trips_at_hundredth [of "replicate 99 (1000, demo_sec_event SECCOMP_VIOLATION_SURGE)" 1000
      "demo_sec_event SECCOMP_VIOLATION_SURGE" _ "\<lambda>x _. x" "''n''" True True True, OF _ _ _ refl]
  by (auto simp: surge_event_def demo_sec_event_def)

subsubsection \<open>Cooldown\<close>

text \<open>The times at which reports of one type open an action in a run.\<close>

fun trigger_times :: "(string \<Rightarrow> time \<Rightarrow> string) \<Rightarrow> trigger_type \<Rightarrow> cb_op list \<Rightarrow> breaker \<Rightarrow> time list" where
  "trigger_times sha t [] s = []"
| "trigger_times sha t (op # ops) s =
     (case op of
        CB_Report now e \<Rightarrow>
          (case snd (report_event sha now e s) of
             Inr (Some a) \<Rightarrow> if se_trigger_type e = t then [now] else []
           | _ \<Rightarrow> [])
      | _ \<Rightarrow> []) @ trigger_times sha t ops (cb_step sha op s)"

definition no_rule_change :: "cb_op list \<Rightarrow> bool" where
  "no_rule_change ops \<longleftrightarrow> (\<forall>t us. CB_Update_Rule t us \<notin> set ops)"

definition cools :: "rat \<Rightarrow> trigger_type \<Rightarrow> breaker \<Rightarrow> bool" where
  "cools c t s \<longleftrightarrow> (\<forall>rule\<in>set (cb_rules s). cr_trigger_type rule = t \<longrightarrow> c \<le> cr_cooldown_seconds rule)"

lemma other_op_frame:
  assumes "no_rule_change [op]" "\<And>now e. op \<noteq> CB_Report now e"
  shows "cb_rules (cb_step sha op s) = cb_rules s" "cb_last_trigger (cb_step sha op s) = cb_last_trigger s"
  using assms
  by (cases op; simp add: no_rule_change_def manual_trigger_def recovery_pass_def add_c2_indicator_def
      shutdown_def manual_recover_def split: option.split)+

lemma report_cooldown:
  assumes "cools c t s"
  shows "cools c t (fst (report_event sha now e s))"
    "(case snd (report_event sha now e s) of
        Inr (Some a) \<Rightarrow> cb_last_trigger (fst (report_event sha now e s)) = dset (se_trigger_type e) now (cb_last_trigger s) \<and>
          (se_trigger_type e = t \<longrightarrow> c \<le> now - dget_or (cb_last_trigger s) t 0)
      | _ \<Rightarrow> cb_last_trigger (fst (report_event sha now e s)) = cb_last_trigger s)"
proof -
  have "cools c t (fst (report_event sha now e s)) \<and>
    (case snd (report_event sha now e s) of
        Inr (Some a) \<Rightarrow> cb_last_trigger (fst (report_event sha now e s)) = dset (se_trigger_type e) now (cb_last_trigger s) \<and>
          (se_trigger_type e = t \<longrightarrow> c \<le> now - dget_or (cb_last_trigger s) t 0)
      | _ \<Rightarrow> cb_last_trigger (fst (report_event sha now e s)) = cb_last_trigger s)"
  proof (rule report_event_outcome [of sha now e s])
    assume "report_event sha now e s = (stored e s, Inr None) \<or> report_event sha now e s = (stored e s, Inl TypeError)"
    then show ?thesis using assms by (auto simp: cools_def)
  next
    fix rule
    assume "rule \<in> set (cb_rules s)" "rule_met now e (stored e s) rule"
      "report_event sha now e s =
        (open_for sha now e rule (stored e s), Inr (Some (new_action sha now e rule (cb_node_id s))))"
    then show ?thesis using assms by (force simp: cools_def rule_met_def)
  qed
  then show "cools c t (fst (report_event sha now e s))"
    "(case snd (report_event sha now e s) of
        Inr (Some a) \<Rightarrow> cb_last_trigger (fst (report_event sha now e s)) = dset (se_trigger_type e) now (cb_last_trigger s) \<and>
          (se_trigger_type e = t \<longrightarrow> c \<le> now - dget_or (cb_last_trigger s) t 0)
      | _ \<Rightarrow> cb_last_trigger (fst (report_event sha now e s)) = cb_last_trigger s)" by blast+
qed

lemma trigger_times_cooldown:
  assumes "cools c t s" "no_rule_change ops" "0 \<le> c"
  shows "sorted_wrt (\<lambda>a b. c \<le> b - a) (dget_or (cb_last_trigger s) t 0 # trigger_times sha t ops s)"
  using assms
proof (induction ops arbitrary: s)
  case Nil
  then show ?case by simp
next
  case (Cons op ops)
  have nc: "no_rule_change [op]" "no_rule_change ops" using Cons.prems(2) by (auto simp: no_rule_change_def)
  show ?case
  proof (cases "\<exists>now e. op = CB_Report now e")
    case False
    then have f: "cb_rules (cb_step sha op s) = cb_rules s" "cb_last_trigger (cb_step sha op s) = cb_last_trigger s"
      using other_op_frame [OF nc(1)] by blast+
    have "trigger_times sha t (op # ops) s = trigger_times sha t ops (cb_step sha op s)"
      using False by (cases op) auto
    then show ?thesis using Cons.IH [of "cb_step sha op s"] Cons.prems(1,3) nc(2) f by (simp add: cools_def)
  next
    case True
    then obtain now e where op: "op = CB_Report now e" by blast
    let ?s' = "fst (report_event sha now e s)"
    note rc = report_cooldown [OF Cons.prems(1), of sha now e]
    have IH: "sorted_wrt (\<lambda>a b. c \<le> b - a) (dget_or (cb_last_trigger ?s') t 0 # trigger_times sha t ops ?s')"
      using Cons.IH [of ?s'] rc(1) nc(2) Cons.prems(3) by blast
    show ?thesis
    proof (cases "\<exists>a. snd (report_event sha now e s) = Inr (Some a) \<and> se_trigger_type e = t")
      case True
      then have lt: "dget_or (cb_last_trigger ?s') t 0 = now" "c \<le> now - dget_or (cb_last_trigger s) t 0"
        and tt: "trigger_times sha t (op # ops) s = now # trigger_times sha t ops ?s'"
        using rc(2) by (auto simp: op dget_or_def dget_dset)
      have "c \<le> x - dget_or (cb_last_trigger s) t 0" if "x \<in> set (trigger_times sha t ops ?s')" for x
      proof -
        have "c \<le> x - now" using IH that lt(1) by simp
        with lt(2) Cons.prems(3) show ?thesis by linarith
      qed
      then show ?thesis using IH lt tt by simp
    next
      case False
      then have "dget_or (cb_last_trigger ?s') t 0 = dget_or (cb_last_trigger s) t 0"
        "trigger_times sha t (op # ops) s = trigger_times sha t ops ?s'"
        using rc(2) by (auto simp: op dget_or_def dget_dset split: sum.splits option.splits)
      then show ?thesis using IH by simp
    qed
  qed
qed

text \<open>
  While the rules are not changed, two reports of the same type that open actions are at
  least the cooldown of that type's rules apart, whatever other operations run between them; the
  first is at least one cooldown after time 0.
\<close>

theorem cooldown_separates_trips:
  assumes "\<forall>rule\<in>set (cb_rules s). cr_trigger_type rule = t \<longrightarrow> c \<le> cr_cooldown_seconds rule" "0 \<le> c"
    and "cb_last_trigger s = []" "\<forall>u us. CB_Update_Rule u us \<notin> set ops"
  shows "sorted_wrt (\<lambda>a b. c \<le> b - a) (trigger_times sha t ops s) \<and> (\<forall>x\<in>set (trigger_times sha t ops s). c \<le> x)"
  using trigger_times_cooldown [of c t s ops sha] assms
  by (auto simp: cools_def no_rule_change_def dget_or_def)

theorem cooldown_separates_trips_witness:
  "sorted_wrt (\<lambda>a b. 60 \<le> b - a) (trigger_times (\<lambda>x _. x) C2_CONNECTION
     [CB_Report 1000 (demo_sec_event C2_CONNECTION), CB_Recovery_Pass 1010,
      CB_Report 1059 (demo_sec_event C2_CONNECTION)] (init_breaker ''n'' True True True))"
  using cooldown_separates_trips [of "init_breaker ''n'' True True True" C2_CONNECTION 60
      "[CB_Report 1000 (demo_sec_event C2_CONNECTION), CB_Recovery_Pass 1010,
      CB_Report 1059 (demo_sec_event C2_CONNECTION)]" "\<lambda>x _. x"]
  by (simp add: init_breaker_def build_default_rules_def TriggerRule_def del: trigger_times.simps)

end
