(* ===== verification/Gang_Scheduler.thy ===== *)
theory Gang_Scheduler
  imports Photon_Prelude
begin

text \<open>
  \<open>evolution/gang_scheduler.py\<close>: placing a batch of sandboxes on NUMA nodes and running the batch
  as one. A gang is a value in the table of the scheduler (the code's client shares the object and
  could change it from outside), an instance is a value in its gang. The mutexes are left out:
  every public method runs under one.
\<close>

subsection \<open>Data\<close>

datatype qos_class = QOS_GUARANTEED | QOS_BURSTABLE | QOS_BEST_EFFORT

datatype gang_status = GS_PENDING | GS_READY | GS_RUNNING | GS_COMPLETED | GS_FAILED | GS_TIMEOUT

fun gang_status_value :: "gang_status \<Rightarrow> string" where
  "gang_status_value GS_PENDING = ''pending''"
| "gang_status_value GS_READY = ''ready''"
| "gang_status_value GS_RUNNING = ''running''"
| "gang_status_value GS_COMPLETED = ''completed''"
| "gang_status_value GS_FAILED = ''failed''"
| "gang_status_value GS_TIMEOUT = ''timeout''"

record numa_node =
  nn_node_id :: int
  nn_cpu_cores :: "int list"
  nn_memory_mb :: int
  nn_available_memory_mb :: int
  nn_pcie_devices :: "string list"
  nn_latency :: "(int, int) dict"

record sandbox =
  sb_instance_id :: string
  sb_pool_type :: string
  sb_cpu_cores :: rat
  sb_memory_mb :: int
  sb_qos_class :: qos_class
  sb_preferred_numa_node :: "int option"
  sb_task_spec :: "json option"
  sb_assigned_numa_node :: "int option"
  sb_assigned_worker_id :: "string option"
  sb_status :: string

record gang_job =
  gj_gang_id :: string
  gj_instances :: "sandbox list"
  gj_status :: gang_status
  gj_submit_time :: time
  gj_start_time :: "time option"
  gj_completion_time :: "time option"
  gj_timeout_seconds :: rat
  gj_all_or_nothing :: bool
  gj_gang_scheduling :: bool

type_synonym topology = "(int, numa_node) dict"

subsection \<open>The topology-aware scheduler\<close>

definition register_numa_node :: "numa_node \<Rightarrow> topology \<Rightarrow> topology" where
  "register_numa_node n t = dset (nn_node_id n) n t"

text \<open>\<open>cpu\<close> is what \<open>os.cpu_count()\<close> returned, which does not raise: the fallback is not reached.\<close>

definition detect_local_topology :: "nat option \<Rightarrow> topology \<Rightarrow> topology" where
  "detect_local_topology cpu t =
     (let n = (case cpu of None \<Rightarrow> 4 | Some 0 \<Rightarrow> 4 | Some k \<Rightarrow> k)
      in register_numa_node \<lparr>nn_node_id = 0, nn_cpu_cores = map int [0..<n], nn_memory_mb = 8192,
           nn_available_memory_mb = 8192, nn_pcie_devices = [], nn_latency = []\<rparr> t)"

definition node_has_capacity :: "numa_node \<Rightarrow> sandbox \<Rightarrow> bool" where
  "node_has_capacity n i \<longleftrightarrow> sb_memory_mb i \<le> nn_available_memory_mb n \<and>
     sb_cpu_cores i \<le> of_nat (length (nn_cpu_cores n))"

definition node_can_fit_all :: "numa_node \<Rightarrow> sandbox list \<Rightarrow> bool" where
  "node_can_fit_all n is \<longleftrightarrow> (\<Sum>i\<leftarrow>is. sb_memory_mb i) \<le> nn_available_memory_mb n \<and>
     (\<Sum>i\<leftarrow>is. sb_cpu_cores i) \<le> of_nat (length (nn_cpu_cores n))"

definition check_preferred_node :: "topology \<Rightarrow> sandbox \<Rightarrow> int option" where
  "check_preferred_node t i =
     (case sb_preferred_numa_node i of
        None \<Rightarrow> None
      | Some p \<Rightarrow> (case dget t p of
          None \<Rightarrow> None
        | Some n \<Rightarrow> (if node_has_capacity n i then Some p else None)))"

definition node_score :: "numa_node \<Rightarrow> int" where
  "node_score n = nn_available_memory_mb n + int (length (nn_cpu_cores n)) * 100"

fun best_node_loop :: "sandbox \<Rightarrow> (int \<times> numa_node) list \<Rightarrow> int option \<Rightarrow> int \<Rightarrow> int option" where
  "best_node_loop i [] best score = best"
| "best_node_loop i ((k, n) # t) best score =
     (if \<not> node_has_capacity n i then best_node_loop i t best score
      else if score < node_score n then best_node_loop i t (Some k) (node_score n)
      else best_node_loop i t best score)"

definition find_best_node_by_score :: "topology \<Rightarrow> sandbox \<Rightarrow> int option" where
  "find_best_node_by_score t i = best_node_loop i t None (- 1)"

definition find_best_numa_node :: "topology \<Rightarrow> sandbox \<Rightarrow> int option" where
  "find_best_numa_node t i =
     (if t = [] then None
      else case check_preferred_node t i of
        Some p \<Rightarrow> Some p
      | None \<Rightarrow> find_best_node_by_score t i)"

fun try_single_node_placement :: "(int \<times> numa_node) list \<Rightarrow> sandbox list \<Rightarrow> int option" where
  "try_single_node_placement [] is = None"
| "try_single_node_placement ((k, n) # t) is =
     (if node_can_fit_all n is then Some k else try_single_node_placement t is)"

type_synonym placement = "(string, int option) dict"

text \<open>\<open>placement[inst.instance_id] = x\<close> for a list of instances.\<close>

definition place_all :: "int option \<Rightarrow> sandbox list \<Rightarrow> placement \<Rightarrow> placement" where
  "place_all x is p = fold (\<lambda>i. dset (sb_instance_id i) x) is p"

fun greedy_loop :: "(int \<times> numa_node) list \<Rightarrow> sandbox list \<Rightarrow> placement \<Rightarrow> placement" where
  "greedy_loop [] remaining p = place_all None remaining p"
| "greedy_loop ((k, n) # t) remaining p =
     (if remaining = [] then p
      else let can_fit = filter (node_has_capacity n) remaining
           in greedy_loop t (fold remove1 can_fit remaining) (place_all (Some k) can_fit p))"

definition greedy_multi_node_placement :: "topology \<Rightarrow> sandbox list \<Rightarrow> placement" where
  "greedy_multi_node_placement t is =
     greedy_loop (sort_key (\<lambda>(k, n). - nn_available_memory_mb n) t) is []"

definition find_best_numa_placement :: "topology \<Rightarrow> sandbox list \<Rightarrow> placement" where
  "find_best_numa_placement t is =
     (if t = [] then place_all None is []
      else case try_single_node_placement t is of
        Some k \<Rightarrow> place_all (Some k) is []
      | None \<Rightarrow> greedy_multi_node_placement t is)"

subsection \<open>The gang scheduler\<close>

record gang_scheduler =
  gs_gangs :: "(string, gang_job) dict"
  gs_running :: "string list"
  gs_numa :: topology
  gs_max_concurrent :: nat
  gs_eviction_enabled :: bool

definition init_gang_scheduler :: "topology \<Rightarrow> gang_scheduler" where
  "init_gang_scheduler t = \<lparr>gs_gangs = [], gs_running = [], gs_numa = t, gs_max_concurrent = 10,
     gs_eviction_enabled = True\<rparr>"

datatype gang_reason = GR_Not_Found | GR_Not_Pending gang_status | GR_Max_Concurrent | GR_Valid
  | GR_Cannot_Allocate nat | GR_Allocated | GR_Not_Ready gang_status | GR_Timeout | GR_Started

definition submit_gang :: "gang_job \<Rightarrow> gang_scheduler \<Rightarrow> gang_scheduler \<times> string" where
  "submit_gang g s = (s\<lparr>gs_gangs := dset (gj_gang_id g) g (gs_gangs s)\<rparr>, gj_gang_id g)"

definition validate_gang_for_allocation :: "string \<Rightarrow> gang_scheduler \<Rightarrow> gang_reason + gang_job" where
  "validate_gang_for_allocation gid s =
     (case dget (gs_gangs s) gid of
        None \<Rightarrow> Inl GR_Not_Found
      | Some g \<Rightarrow>
          (if gj_status g \<noteq> GS_PENDING then Inl (GR_Not_Pending (gj_status g))
           else if gs_max_concurrent s \<le> length (gs_running s) then Inl GR_Max_Concurrent
           else Inr g))"

definition set_instances :: "string \<Rightarrow> gang_job \<Rightarrow> gang_job" where
  "set_instances st g = g\<lparr>gj_instances := map (\<lambda>i. i\<lparr>sb_status := st\<rparr>) (gj_instances g)\<rparr>"

definition perform_gang_allocation :: "topology \<Rightarrow> gang_job \<Rightarrow> gang_job \<times> bool \<times> gang_reason" where
  "perform_gang_allocation t g =
     (let p = find_best_numa_placement t (gj_instances g);
          unassigned = filter (\<lambda>x. x = None) (vals p)
      in if unassigned \<noteq> [] \<and> gj_all_or_nothing g
         then (g\<lparr>gj_status := GS_PENDING\<rparr>, False, GR_Cannot_Allocate (length unassigned))
         else (g\<lparr>gj_instances := map (\<lambda>i. i\<lparr>sb_assigned_numa_node :=
                   (case dget p (sb_instance_id i) of None \<Rightarrow> None | Some x \<Rightarrow> x),
                   sb_status := ''allocated''\<rparr>) (gj_instances g),
                 gj_status := GS_READY\<rparr>, True, GR_Allocated))"

definition put_gang :: "string \<Rightarrow> gang_job \<Rightarrow> gang_scheduler \<Rightarrow> gang_scheduler" where
  "put_gang gid g s = s\<lparr>gs_gangs := dset gid g (gs_gangs s)\<rparr>"

definition try_allocate_gang :: "string \<Rightarrow> gang_scheduler \<Rightarrow> gang_scheduler \<times> bool \<times> gang_reason" where
  "try_allocate_gang gid s =
     (case validate_gang_for_allocation gid s of
        Inl r \<Rightarrow> (s, False, r)
      | Inr g \<Rightarrow> (let (g', ok, r) = perform_gang_allocation (gs_numa s) g in (put_gang gid g' s, ok, r)))"

definition start_gang :: "time \<Rightarrow> string \<Rightarrow> gang_scheduler \<Rightarrow> gang_scheduler \<times> bool \<times> gang_reason" where
  "start_gang now gid s =
     (case dget (gs_gangs s) gid of
        None \<Rightarrow> (s, False, GR_Not_Found)
      | Some g \<Rightarrow>
          (if gj_status g \<noteq> GS_READY then (s, False, GR_Not_Ready (gj_status g))
           else if gj_timeout_seconds g < now - gj_submit_time g
           then (put_gang gid (g\<lparr>gj_status := GS_TIMEOUT\<rparr>) s, False, GR_Timeout)
           else (let g' = set_instances ''running'' (g\<lparr>gj_start_time := Some now, gj_status := GS_RUNNING\<rparr>)
                 in ((put_gang gid g' s)\<lparr>gs_running := gs_running s @ [gid]\<rparr>, True, GR_Started))))"

definition complete_gang :: "time \<Rightarrow> string \<Rightarrow> bool \<Rightarrow> gang_scheduler \<Rightarrow> gang_scheduler" where
  "complete_gang now gid success s =
     (case dget (gs_gangs s) gid of
        None \<Rightarrow> s
      | Some g \<Rightarrow>
          (let g' = set_instances (if success then ''completed'' else ''failed'')
                      (g\<lparr>gj_completion_time := Some now,
                         gj_status := (if success then GS_COMPLETED else GS_FAILED)\<rparr>)
           in (put_gang gid g' s)\<lparr>gs_running := remove1 gid (gs_running s)\<rparr>))"

definition find_evictable_gangs :: "gang_scheduler \<Rightarrow> string list" where
  "find_evictable_gangs s = filter (\<lambda>gid. case dget (gs_gangs s) gid of
       None \<Rightarrow> False
     | Some g \<Rightarrow> list_ex (\<lambda>i. sb_qos_class i = QOS_BEST_EFFORT) (gj_instances g)) (gs_running s)"

definition check_resources_satisfied :: "(string, rat) dict \<Rightarrow> bool" where
  "check_resources_satisfied needed = True"

fun perform_eviction :: "string list \<Rightarrow> (string, rat) dict \<Rightarrow> gang_scheduler \<Rightarrow> gang_scheduler \<times> string list" where
  "perform_eviction [] needed s = (s, [])"
| "perform_eviction (gid # gids) needed s =
     (case dget (gs_gangs s) gid of
        None \<Rightarrow> perform_eviction gids needed s
      | Some g \<Rightarrow>
          (let s' = (put_gang gid (set_instances ''evicted'' (g\<lparr>gj_status := GS_FAILED\<rparr>)) s)
                      \<lparr>gs_running := remove1 gid (gs_running s)\<rparr>
           in if check_resources_satisfied needed then (s', [gid])
              else apsnd (Cons gid) (perform_eviction gids needed s')))"

definition evict_low_priority_gangs :: "(string, rat) dict \<Rightarrow> gang_scheduler \<Rightarrow> gang_scheduler \<times> string list" where
  "evict_low_priority_gangs needed s =
     (if \<not> gs_eviction_enabled s then (s, []) else perform_eviction (find_evictable_gangs s) needed s)"

record gang_view =
  gv_gang_id :: string
  gv_status :: string
  gv_instances_count :: nat
  gv_submit_time :: time
  gv_start_time :: "time option"
  gv_completion_time :: "time option"
  gv_duration_ms :: "int option"
  gv_all_or_nothing :: bool

text \<open>A completion time of 0 counts as none.\<close>

definition get_gang_status :: "string \<Rightarrow> gang_scheduler \<Rightarrow> gang_view option" where
  "get_gang_status gid s = map_option (\<lambda>g.
     \<lparr>gv_gang_id = gj_gang_id g, gv_status = gang_status_value (gj_status g),
      gv_instances_count = length (gj_instances g), gv_submit_time = gj_submit_time g,
      gv_start_time = gj_start_time g, gv_completion_time = gj_completion_time g,
      gv_duration_ms = (case gj_completion_time g of None \<Rightarrow> None
        | Some c \<Rightarrow> (if c = 0 then None else Some (py_int ((c - gj_submit_time g) * 1000)))),
      gv_all_or_nothing = gj_all_or_nothing g\<rparr>) (dget (gs_gangs s) gid)"

record gang_report =
  gp_total_gangs :: nat
  gp_running_gangs :: nat
  gp_status_counts :: "(string, int) dict"
  gp_max_concurrent_gangs :: nat
  gp_eviction_enabled :: bool
  gp_numa_nodes :: nat

definition gang_get_stats :: "gang_scheduler \<Rightarrow> gang_report" where
  "gang_get_stats s =
     \<lparr>gp_total_gangs = length (gs_gangs s), gp_running_gangs = length (gs_running s),
      gp_status_counts = fold (\<lambda>g d. bump (gang_status_value (gj_status g)) d) (vals (gs_gangs s)) [],
      gp_max_concurrent_gangs = gs_max_concurrent s, gp_eviction_enabled = gs_eviction_enabled s,
      gp_numa_nodes = length (gs_numa s)\<rparr>"

subsection \<open>Placement\<close>

lemma dget_place_all:
  "dget (place_all x is p) k = (if k \<in> sb_instance_id ` set is then Some x else dget p k)"
  unfolding place_all_def by (induction "is" arbitrary: p) (auto simp: dget_dset)

lemma place_all_simps [simp]:
  "place_all x [] p = p" "place_all x (i # is) p = place_all x is (dset (sb_instance_id i) x p)"
  by (simp_all add: place_all_def)

lemma wf_place_all [simp]: "wf_dict p \<Longrightarrow> wf_dict (place_all x is p)"
  by (induction "is" arbitrary: p) simp_all

text \<open>Removing the instances that fit leaves those that do not.\<close>

lemma fold_remove1_filter_aux:
  "\<forall>z\<in>set zs. \<not> P z \<Longrightarrow> fold remove1 (filter P ys) (zs @ ys) = zs @ filter (\<lambda>x. \<not> P x) ys"
proof (induction ys arbitrary: zs)
  case Nil
  then show ?case by simp
next
  case (Cons y ys)
  show ?case
  proof (cases "P y")
    case True
    then have "remove1 y (zs @ y # ys) = zs @ ys" using Cons.prems by (auto simp: remove1_append)
    then show ?thesis using Cons True by simp
  next
    case False
    then show ?thesis using Cons.IH [of "zs @ [y]"] Cons.prems by simp
  qed
qed

lemma fold_remove1_filter: "fold remove1 (filter P xs) xs = filter (\<lambda>x. \<not> P x) xs"
  using fold_remove1_filter_aux [of "[]" P xs] by simp

lemma wf_greedy_loop: "wf_dict p \<Longrightarrow> wf_dict (greedy_loop t rem p)"
  by (induction t rem p rule: greedy_loop.induct) (auto simp: Let_def)

text \<open>An instance is placed on a node with capacity for it, or nowhere if none has.\<close>

definition placed_ok :: "(int \<times> numa_node) list \<Rightarrow> sandbox \<Rightarrow> int option \<Rightarrow> bool" where
  "placed_ok t i x = (case x of None \<Rightarrow> True | Some k \<Rightarrow> \<exists>n. (k, n) \<in> set t \<and> node_has_capacity n i)"

lemma placed_ok_cong: "set t = set t' \<Longrightarrow> placed_ok t i x = placed_ok t' i x"
  by (simp add: placed_ok_def split: option.split)

lemma greedy_loop_other:
  "j \<notin> sb_instance_id ` set rem \<Longrightarrow> dget (greedy_loop t rem p) j = dget p j"
proof (induction t rem p rule: greedy_loop.induct)
  case (1 rem p)
  then show ?case by (simp add: dget_place_all)
next
  case (2 k n t rem p)
  have "j \<notin> sb_instance_id ` set (filter (\<lambda>i. \<not> node_has_capacity n i) rem)"
    "j \<notin> sb_instance_id ` set (filter (node_has_capacity n) rem)"
    using 2(2) by auto
  then show ?case using 2(1) by (simp add: Let_def fold_remove1_filter dget_place_all)
qed

lemma greedy_loop_placed:
  assumes "distinct (map sb_instance_id rem)" "i \<in> set rem"
  shows "\<exists>x. dget (greedy_loop t rem p) (sb_instance_id i) = Some x \<and> placed_ok t i x"
  using assms
proof (induction t rem p rule: greedy_loop.induct)
  case (1 rem p)
  then show ?case by (auto simp: dget_place_all placed_ok_def)
next
  case (2 k n t rem p)
  let ?fit = "filter (node_has_capacity n) rem"
  let ?rest = "filter (\<lambda>i. \<not> node_has_capacity n i) rem"
  have ne: "rem \<noteq> []" using 2 by auto
  have loop: "greedy_loop ((k, n) # t) rem p = greedy_loop t ?rest (place_all (Some k) ?fit p)"
    using ne by (simp add: Let_def fold_remove1_filter)
  show ?case
  proof (cases "node_has_capacity n i")
    case False
    then have "\<exists>x. dget (greedy_loop t ?rest (place_all (Some k) ?fit p)) (sb_instance_id i) = Some x \<and> placed_ok t i x"
      using 2 ne by (auto simp: Let_def fold_remove1_filter distinct_map_filter)
    then show ?thesis unfolding loop by (force simp: placed_ok_def split: option.splits)
  next
    case True
    have "sb_instance_id i \<notin> sb_instance_id ` set ?rest"
      using 2(2,3) True by (auto simp: distinct_map inj_on_def)
    then have "dget (greedy_loop ((k, n) # t) rem p) (sb_instance_id i) = Some (Some k)"
      unfolding loop using greedy_loop_other 2(3) True by (auto simp: dget_place_all)
    then show ?thesis using True by (auto simp: placed_ok_def)
  qed
qed

lemma sum_list_member_le:
  fixes f :: "'a \<Rightarrow> 'b :: ordered_comm_monoid_add"
  assumes "x \<in> set xs" "\<forall>y\<in>set xs. 0 \<le> f y"
  shows "f x \<le> (\<Sum>y\<leftarrow>xs. f y)"
  using assms
proof (induction xs)
  case Nil
  then show ?case by simp
next
  case (Cons y ys)
  have "0 \<le> (\<Sum>y\<leftarrow>ys. f y)" using Cons.prems(2) by (intro sum_list_nonneg) auto
  then show ?case
    using Cons add_increasing [of "f y" "f x" "\<Sum>y\<leftarrow>ys. f y"] add_increasing2 [of "\<Sum>y\<leftarrow>ys. f y" "f y" "f y"] by auto
qed

definition nonneg_demand :: "sandbox \<Rightarrow> bool" where
  "nonneg_demand i \<longleftrightarrow> 0 \<le> sb_memory_mb i \<and> 0 \<le> sb_cpu_cores i"

lemma fit_all_capacity:
  assumes "node_can_fit_all n is" "\<forall>i\<in>set is. nonneg_demand i" "i \<in> set is"
  shows "node_has_capacity n i"
  using assms sum_list_member_le [of i "is" sb_memory_mb] sum_list_member_le [of i "is" sb_cpu_cores]
  by (auto simp: node_can_fit_all_def node_has_capacity_def nonneg_demand_def)

lemma single_node_Some:
  "try_single_node_placement t is = Some k \<Longrightarrow> \<exists>n. (k, n) \<in> set t \<and> node_can_fit_all n is"
  by (induction t "is" rule: try_single_node_placement.induct) (auto split: if_splits)

lemma single_node_None:
  "try_single_node_placement t is = None \<longleftrightarrow> (\<forall>(k, n)\<in>set t. \<not> node_can_fit_all n is)"
  by (induction t "is" rule: try_single_node_placement.induct) auto

lemma wf_placement: "wf_dict (find_best_numa_placement t is)"
  by (auto simp: find_best_numa_placement_def greedy_multi_node_placement_def wf_greedy_loop split: option.split)

lemma placement_placed:
  assumes "distinct (map sb_instance_id is)" "\<forall>i\<in>set is. nonneg_demand i" "i \<in> set is"
  shows "\<exists>x. dget (find_best_numa_placement t is) (sb_instance_id i) = Some x \<and> placed_ok t i x"
proof (cases "t = []")
  case True
  then show ?thesis using assms(3) by (auto simp: find_best_numa_placement_def dget_place_all placed_ok_def)
next
  case False
  show ?thesis
  proof (cases "try_single_node_placement t is")
    case None
    have "\<exists>x. dget (greedy_multi_node_placement t is) (sb_instance_id i) = Some x \<and>
        placed_ok (sort_key (\<lambda>(k, n). - nn_available_memory_mb n) t) i x"
      unfolding greedy_multi_node_placement_def by (rule greedy_loop_placed [OF assms(1,3)])
    then show ?thesis
      using False None placed_ok_cong [of "sort_key (\<lambda>(k, n). - nn_available_memory_mb n) t" t]
      by (simp add: find_best_numa_placement_def)
  next
    case (Some k)
    then obtain n where "(k, n) \<in> set t" "node_can_fit_all n is" using single_node_Some by blast
    then have "placed_ok t i (Some k)" using fit_all_capacity assms(2,3) by (auto simp: placed_ok_def)
    then show ?thesis using Some False assms(3)
      by (auto simp: find_best_numa_placement_def dget_place_all)
  qed
qed

subsection \<open>Allocation\<close>

lemma update_same: "dget d k = Some v \<Longrightarrow> dset k v d = d"
  by (induction d) (auto split: if_splits)

lemma put_gang_simps [simp]:
  "gs_gangs (put_gang gid g s) = dset gid g (gs_gangs s)" "gs_running (put_gang gid g s) = gs_running s"
  "gs_numa (put_gang gid g s) = gs_numa s" "gs_max_concurrent (put_gang gid g s) = gs_max_concurrent s"
  "gs_eviction_enabled (put_gang gid g s) = gs_eviction_enabled s"
  by (simp_all add: put_gang_def)

lemma put_gang_same: "dget (gs_gangs s) gid = Some g \<Longrightarrow> put_gang gid g s = s"
  by (simp add: put_gang_def update_same)

lemma filter_None_vals:
  "filter (\<lambda>x. x = None) (vals p) = [] \<Longrightarrow> dget p k = Some x \<Longrightarrow> x \<noteq> None"
  using map_of_SomeD [of p k x] by (force simp: vals_def filter_empty_conv)

text \<open>
  C13. A failed allocation changes nothing. A successful one of an all-or-nothing gang, whose
  instances have distinct identifiers and nonnegative demands, makes the gang ready with every
  instance assigned to a registered node that has the memory and the cores for it.
\<close>

theorem allocation_all_or_nothing:
  assumes g: "dget (gs_gangs s) gid = Some g" "gj_all_or_nothing g"
    and wf: "distinct (map sb_instance_id (gj_instances g))" "\<forall>i\<in>set (gj_instances g). nonneg_demand i"
    and alloc: "try_allocate_gang gid s = (s', ok, r)"
  shows "if \<not> ok then s' = s
    else \<exists>g'. dget (gs_gangs s') gid = Some g' \<and> gj_status g' = GS_READY \<and>
      map sb_instance_id (gj_instances g') = map sb_instance_id (gj_instances g) \<and>
      (\<forall>i\<in>set (gj_instances g'). \<exists>k n. sb_assigned_numa_node i = Some k \<and> (k, n) \<in> set (gs_numa s) \<and>
         node_has_capacity n i)"
proof (cases "validate_gang_for_allocation gid s")
  case (Inl x)
  then show ?thesis using alloc by (simp add: try_allocate_gang_def)
next
  case (Inr g1)
  then have g1: "g1 = g" "gj_status g = GS_PENDING"
    using g by (auto simp: validate_gang_for_allocation_def split: if_splits)
  let ?p = "find_best_numa_placement (gs_numa s) (gj_instances g)"
  show ?thesis
  proof (cases "filter (\<lambda>x. x = None) (vals ?p) = []")
    case False
    then have "perform_gang_allocation (gs_numa s) g =
        (g, False, GR_Cannot_Allocate (length (filter (\<lambda>x. x = None) (vals ?p))))"
      using g(2) g1(2) by (simp add: perform_gang_allocation_def Let_def)
    then show ?thesis using alloc Inr g1(1) put_gang_same [OF g(1)] by (simp add: try_allocate_gang_def)
  next
    case True
    let ?f = "\<lambda>i. i\<lparr>sb_assigned_numa_node := (case dget ?p (sb_instance_id i) of None \<Rightarrow> None | Some x \<Rightarrow> x),
        sb_status := ''allocated''\<rparr>"
    let ?g' = "g\<lparr>gj_instances := map ?f (gj_instances g), gj_status := GS_READY\<rparr>"
    have "perform_gang_allocation (gs_numa s) g = (?g', True, GR_Allocated)"
      using True by (simp add: perform_gang_allocation_def Let_def)
    then have s': "s' = put_gang gid ?g' s" "ok"
      using alloc Inr g1(1) by (simp_all add: try_allocate_gang_def)
    have "\<exists>k n. sb_assigned_numa_node (?f i) = Some k \<and> (k, n) \<in> set (gs_numa s) \<and> node_has_capacity n (?f i)"
      if i: "i \<in> set (gj_instances g)" for i
    proof -
      obtain x where x: "dget ?p (sb_instance_id i) = Some x" "placed_ok (gs_numa s) i x"
        using placement_placed [OF wf i] by blast
      then show ?thesis using filter_None_vals [OF True x(1)]
        by (auto simp: placed_ok_def node_has_capacity_def)
    qed
    then show ?thesis using s' by (simp add: dget_dset comp_def)
  qed
qed

definition demo_node :: numa_node where
  "demo_node = \<lparr>nn_node_id = 0, nn_cpu_cores = [0, 1, 2, 3], nn_memory_mb = 1000,
     nn_available_memory_mb = 1000, nn_pcie_devices = [], nn_latency = []\<rparr>"

definition demo_sandbox :: "string \<Rightarrow> qos_class \<Rightarrow> sandbox" where
  "demo_sandbox iid q = \<lparr>sb_instance_id = iid, sb_pool_type = ''light_pool'', sb_cpu_cores = 1,
     sb_memory_mb = 600, sb_qos_class = q, sb_preferred_numa_node = None, sb_task_spec = None,
     sb_assigned_numa_node = None, sb_assigned_worker_id = None, sb_status = ''pending''\<rparr>"

definition demo_gang :: "string \<Rightarrow> sandbox list \<Rightarrow> gang_job" where
  "demo_gang gid is = \<lparr>gj_gang_id = gid, gj_instances = is, gj_status = GS_PENDING, gj_submit_time = 0,
     gj_start_time = None, gj_completion_time = None, gj_timeout_seconds = 300,
     gj_all_or_nothing = True, gj_gang_scheduling = True\<rparr>"

definition demo_pair :: gang_scheduler where
  "demo_pair = fst (submit_gang (demo_gang ''g'' [demo_sandbox ''a'' QOS_BEST_EFFORT, demo_sandbox ''b'' QOS_GUARANTEED])
     (init_gang_scheduler [(0, demo_node)]))"

theorem allocation_all_or_nothing_witness:
  "\<exists>g'. dget (gs_gangs (fst (try_allocate_gang ''g'' demo_pair))) ''g'' = Some g' \<and> gj_status g' = GS_READY"
proof -
  obtain s' ok r where al: "try_allocate_gang ''g'' demo_pair = (s', ok, r)" by (metis prod_cases3)
  have "ok"
    using al by (simp add: try_allocate_gang_def validate_gang_for_allocation_def perform_gang_allocation_def
      find_best_numa_placement_def greedy_multi_node_placement_def node_can_fit_all_def node_has_capacity_def
      demo_pair_def submit_gang_def init_gang_scheduler_def demo_gang_def demo_sandbox_def demo_node_def
      vals_def Let_def)
  then show ?thesis
    using allocation_all_or_nothing [OF _ _ _ _ al,
        of "demo_gang ''g'' [demo_sandbox ''a'' QOS_BEST_EFFORT, demo_sandbox ''b'' QOS_GUARANTEED]"] al
    by (auto simp: demo_pair_def submit_gang_def init_gang_scheduler_def demo_gang_def demo_sandbox_def
        nonneg_demand_def)
qed

subsection \<open>Overcommitment\<close>

lemma hd_sort_key_min:
  fixes f :: "'a \<Rightarrow> 'b :: linorder"
  assumes "x \<in> set xs" "\<forall>y\<in>set xs. y \<noteq> x \<longrightarrow> f x < f y"
  shows "\<exists>ys. sort_key f xs = x # ys"
proof (cases "sort_key f xs")
  case Nil
  then have "set (sort_key f xs) = {}" by simp
  then show ?thesis using assms(1) by simp
next
  case (Cons y ys)
  have "set (sort_key f xs) = set xs" by simp
  then have x: "x \<in> set (y # ys)" "y \<in> set xs" using assms(1) Cons by auto
  have "sorted (map f (sort_key f xs))" by simp
  then have "f y \<le> f x" using x(1) Cons by auto
  then have "y = x" using assms(2) x(2) by force
  then show ?thesis using Cons by simp
qed

text \<open>
  The fallback placement does not count what it has placed: when no node can take the whole
  batch, but the node with the most memory can take each instance by itself, all of them are placed
  on that node, beyond its memory or its cores.
\<close>

theorem greedy_placement_overcommits:
  assumes "(k, n) \<in> set t" "\<forall>(k', n')\<in>set t. (k', n') \<noteq> (k, n) \<longrightarrow> nn_available_memory_mb n' < nn_available_memory_mb n"
    and "\<forall>(k', n')\<in>set t. \<not> node_can_fit_all n' is" "\<forall>i\<in>set is. node_has_capacity n i"
  shows "(\<forall>i\<in>set is. dget (find_best_numa_placement t is) (sb_instance_id i) = Some (Some k)) \<and>
    (nn_available_memory_mb n < (\<Sum>i\<leftarrow>is. sb_memory_mb i) \<or> of_nat (length (nn_cpu_cores n)) < (\<Sum>i\<leftarrow>is. sb_cpu_cores i))"
proof -
  obtain ys where srt: "sort_key (\<lambda>(k, n). - nn_available_memory_mb n) t = (k, n) # ys"
    using hd_sort_key_min [of "(k, n)" t "\<lambda>(k, n). - nn_available_memory_mb n"] assms(1,2) by fastforce
  have ne: "t \<noteq> []" using assms(1) by auto
  have none: "try_single_node_placement t is = None" using assms(3) by (simp add: single_node_None)
  have fit: "filter (node_has_capacity n) is = is" using assms(4) by (intro filter_True) auto
  have rest: "fold remove1 is is = []" using fold_remove1_filter [of "node_has_capacity n" "is"] assms(4) by (simp add: fit)
  have "dget (find_best_numa_placement t is) (sb_instance_id i) = Some (Some k)" if "i \<in> set is" for i
  proof -
    have "find_best_numa_placement t is = greedy_loop ys [] (place_all (Some k) is [])"
      using ne none srt fit rest that
      by (auto simp: find_best_numa_placement_def greedy_multi_node_placement_def Let_def)
    moreover have "greedy_loop ys [] p = p" for p
      by (cases ys) auto
    ultimately show ?thesis using that by (simp add: dget_place_all)
  qed
  then show ?thesis using assms(1,3) by (auto simp: node_can_fit_all_def not_le)
qed

theorem greedy_placement_overcommits_witness:
  "dget (find_best_numa_placement [(0, demo_node)] [demo_sandbox ''a'' QOS_BEST_EFFORT, demo_sandbox ''b'' QOS_GUARANTEED]) ''b'' = Some (Some 0)"
  using greedy_placement_overcommits [of 0 demo_node "[(0, demo_node)]"
      "[demo_sandbox ''a'' QOS_BEST_EFFORT, demo_sandbox ''b'' QOS_GUARANTEED]"]
  by (simp add: demo_node_def demo_sandbox_def node_can_fit_all_def node_has_capacity_def)

subsection \<open>The life of a gang\<close>

datatype gang_op = GO_Submit gang_job | GO_Allocate string | GO_Start time string
  | GO_Complete time string bool | GO_Evict "(string, rat) dict" | GO_Register numa_node

fun gang_step :: "gang_op \<Rightarrow> gang_scheduler \<Rightarrow> gang_scheduler" where
  "gang_step (GO_Submit g) s = fst (submit_gang g s)"
| "gang_step (GO_Allocate gid) s = fst (try_allocate_gang gid s)"
| "gang_step (GO_Start now gid) s = fst (start_gang now gid s)"
| "gang_step (GO_Complete now gid ok) s = complete_gang now gid ok s"
| "gang_step (GO_Evict needed) s = fst (evict_low_priority_gangs needed s)"
| "gang_step (GO_Register n) s = s\<lparr>gs_numa := register_numa_node n (gs_numa s)\<rparr>"

text \<open>
  The discipline of the clients, which the scheduler does not check: a gang is submitted as its constructor makes it,
  and not under the identifier of a running one, which it would replace.
\<close>

definition may_submit :: "gang_job \<Rightarrow> gang_scheduler \<Rightarrow> bool" where
  "may_submit g s \<longleftrightarrow> gj_gang_id g \<notin> set (gs_running s) \<and> gj_status g = GS_PENDING \<and>
     list_all (\<lambda>i. sb_status i = ''pending'') (gj_instances g)"

fun disciplined :: "gang_op list \<Rightarrow> gang_scheduler \<Rightarrow> bool" where
  "disciplined [] s = True"
| "disciplined (op # ops) s = ((case op of GO_Submit g \<Rightarrow> may_submit g s | _ \<Rightarrow> True) \<and> disciplined ops (gang_step op s))"

text \<open>The step of a disciplined client.\<close>

definition client_step :: "gang_op \<Rightarrow> gang_scheduler \<Rightarrow> gang_scheduler" where
  "client_step op s = (if case op of GO_Submit g \<Rightarrow> may_submit g s | _ \<Rightarrow> True then gang_step op s else s)"

lemma disciplined_fold: "disciplined ops s \<Longrightarrow> fold gang_step ops s = fold client_step ops s"
  by (induction ops arbitrary: s) (simp_all add: client_step_def)

definition gang_init :: "gang_scheduler \<Rightarrow> bool" where
  "gang_init s \<longleftrightarrow> (\<exists>t. s = init_gang_scheduler t)"

lemma gang_init_fresh: "gang_init (init_gang_scheduler t)"
  unfolding gang_init_def by blast

text \<open>The instances of a gang are all in the state the gang is in.\<close>

definition all_status :: "string set \<Rightarrow> gang_job \<Rightarrow> bool" where
  "all_status X g \<longleftrightarrow> (\<exists>x\<in>X. \<forall>i\<in>set (gj_instances g). sb_status i = x)"

fun status_names :: "gang_status \<Rightarrow> string set" where
  "status_names GS_PENDING = {''pending''}"
| "status_names GS_READY = {''allocated''}"
| "status_names GS_TIMEOUT = {''allocated''}"
| "status_names GS_RUNNING = {''running''}"
| "status_names GS_COMPLETED = {''completed''}"
| "status_names GS_FAILED = {''failed'', ''evicted''}"

definition gang_ok :: "gang_job \<Rightarrow> bool" where
  "gang_ok g \<longleftrightarrow> all_status (status_names (gj_status g)) g"

definition gangs_ok :: "gang_scheduler \<Rightarrow> bool" where
  "gangs_ok s \<longleftrightarrow> (\<forall>gid g. dget (gs_gangs s) gid = Some g \<longrightarrow> gj_gang_id g = gid \<and> gang_ok g) \<and>
     distinct (gs_running s) \<and>
     (\<forall>gid. gid \<in> set (gs_running s) \<longleftrightarrow> (\<exists>g. dget (gs_gangs s) gid = Some g \<and> gj_status g = GS_RUNNING))"

lemma set_instances_simps [simp]:
  "gj_status (set_instances x g) = gj_status g" "gj_gang_id (set_instances x g) = gj_gang_id g"
  by (simp_all add: set_instances_def)

lemma set_instances_status: "x \<in> X \<Longrightarrow> all_status X (set_instances x g)"
  by (auto simp: all_status_def set_instances_def)

text \<open>The two ways an operation changes the table: out of or not in \<open>running\<close>, and into it.\<close>

lemma gangs_ok_put:
  assumes "gangs_ok s" "gj_gang_id g = gid" "gang_ok g" "gj_status g \<noteq> GS_RUNNING"
  shows "gangs_ok ((put_gang gid g s)\<lparr>gs_running := remove1 gid (gs_running s)\<rparr>)"
  using assms by (auto simp: gangs_ok_def dget_dset)

lemma gangs_ok_run:
  assumes "gangs_ok s" "gj_gang_id g = gid" "gang_ok g" "gj_status g = GS_RUNNING" "gid \<notin> set (gs_running s)"
  shows "gangs_ok ((put_gang gid g s)\<lparr>gs_running := gs_running s @ [gid]\<rparr>)"
  using assms by (auto simp: gangs_ok_def dget_dset)

lemma gangs_ok_put_idle:
  assumes "gangs_ok s" "gj_gang_id g = gid" "gang_ok g" "gj_status g \<noteq> GS_RUNNING" "gid \<notin> set (gs_running s)"
  shows "gangs_ok (put_gang gid g s)"
  using gangs_ok_put [OF assms(1-4)] assms(5) by (simp add: gangs_ok_def remove1_idem)

lemma gangs_ok_lookup:
  assumes "gangs_ok s" "dget (gs_gangs s) gid = Some g"
  shows "gj_gang_id g = gid" "gang_ok g" "gid \<in> set (gs_running s) \<longleftrightarrow> gj_status g = GS_RUNNING"
  using assms by (auto simp: gangs_ok_def)

lemma gang_ok_set:
  "x \<in> status_names (gj_status g) \<Longrightarrow> gang_ok (set_instances x g)"
  by (simp add: gang_ok_def set_instances_status)

lemma gangs_ok_submit:
  assumes "gangs_ok s" "may_submit g s"
  shows "gangs_ok (fst (submit_gang g s))"
proof -
  have "gangs_ok (put_gang (gj_gang_id g) g s)"
    using assms by (intro gangs_ok_put_idle) (auto simp: may_submit_def gang_ok_def all_status_def list_all_iff)
  then show ?thesis by (simp add: submit_gang_def put_gang_def)
qed

lemma perform_gang_allocation_cases:
  assumes "gj_status g = GS_PENDING"
  obtains r where "perform_gang_allocation t g = (g, False, r)"
  | g' where "perform_gang_allocation t g = (g', True, GR_Allocated)" "gj_status g' = GS_READY"
      "gj_gang_id g' = gj_gang_id g" "gang_ok g'" "gj_submit_time g' = gj_submit_time g"
      "gj_timeout_seconds g' = gj_timeout_seconds g"
proof (cases "filter (\<lambda>x. x = None) (vals (find_best_numa_placement t (gj_instances g))) \<noteq> [] \<and> gj_all_or_nothing g")
  case True
  then show ?thesis using assms by (intro that(1)) (auto simp: perform_gang_allocation_def Let_def)
next
  case False
  let ?p = "find_best_numa_placement t (gj_instances g)"
  have "perform_gang_allocation t g = (g\<lparr>gj_instances := map (\<lambda>i. i\<lparr>sb_assigned_numa_node :=
      (case dget ?p (sb_instance_id i) of None \<Rightarrow> None | Some x \<Rightarrow> x), sb_status := ''allocated''\<rparr>) (gj_instances g),
      gj_status := GS_READY\<rparr>, True, GR_Allocated)"
    using False by (simp only: perform_gang_allocation_def Let_def if_False)
  then show ?thesis by (rule that(2)) (simp_all add: gang_ok_def all_status_def)
qed

lemma gangs_ok_allocate:
  assumes "gangs_ok s"
  shows "gangs_ok (fst (try_allocate_gang gid s))"
proof (cases "validate_gang_for_allocation gid s")
  case (Inl r)
  then show ?thesis using assms by (simp add: try_allocate_gang_def)
next
  case (Inr g)
  then have g: "dget (gs_gangs s) gid = Some g" "gj_status g = GS_PENDING"
    by (auto simp: validate_gang_for_allocation_def split: option.splits if_splits)
  note l = gangs_ok_lookup [OF assms g(1)]
  show ?thesis
    using perform_gang_allocation_cases [OF g(2), of "gs_numa s"]
  proof cases
    case (1 r)
    then show ?thesis using Inr assms put_gang_same [OF g(1)] by (simp add: try_allocate_gang_def)
  next
    case (2 g')
    then have "gangs_ok (put_gang gid g' s)"
      using assms l g(2) by (intro gangs_ok_put_idle) auto
    then show ?thesis using Inr 2 by (simp add: try_allocate_gang_def)
  qed
qed

lemma gangs_ok_start:
  assumes "gangs_ok s"
  shows "gangs_ok (fst (start_gang now gid s))"
proof (cases "dget (gs_gangs s) gid")
  case None
  then show ?thesis using assms by (simp add: start_gang_def)
next
  case (Some g)
  note l = gangs_ok_lookup [OF assms Some]
  show ?thesis
  proof (cases "gj_status g = GS_READY")
    case False
    then show ?thesis using assms Some by (simp add: start_gang_def)
  next
    case ready: True
    then have out: "gid \<notin> set (gs_running s)" using l(3) by simp
    show ?thesis
    proof (cases "gj_timeout_seconds g < now - gj_submit_time g")
      case True
      have "gangs_ok (put_gang gid (g\<lparr>gj_status := GS_TIMEOUT\<rparr>) s)"
        using assms l(1,2) ready out by (intro gangs_ok_put_idle) (auto simp: gang_ok_def all_status_def)
      then show ?thesis using Some ready True by (simp add: start_gang_def)
    next
      case False
      let ?g = "set_instances ''running'' (g\<lparr>gj_start_time := Some now, gj_status := GS_RUNNING\<rparr>)"
      have "gangs_ok ((put_gang gid ?g s)\<lparr>gs_running := gs_running s @ [gid]\<rparr>)"
        using assms l(1) out by (intro gangs_ok_run) (auto intro: gang_ok_set)
      then show ?thesis using Some ready False by (simp add: start_gang_def Let_def)
    qed
  qed
qed

lemma gangs_ok_complete: "gangs_ok s \<Longrightarrow> gangs_ok (complete_gang now gid ok s)"
  by (cases "dget (gs_gangs s) gid")
    (auto simp: complete_gang_def Let_def gangs_ok_lookup(1) intro!: gangs_ok_put gang_ok_set)

lemma perform_eviction_first:
  "perform_eviction gids needed s =
     (case filter (\<lambda>gid. dget (gs_gangs s) gid \<noteq> None) gids of
        [] \<Rightarrow> (s, [])
      | gid # _ \<Rightarrow>
          ((put_gang gid (set_instances ''evicted'' ((the (dget (gs_gangs s) gid))\<lparr>gj_status := GS_FAILED\<rparr>)) s)
             \<lparr>gs_running := remove1 gid (gs_running s)\<rparr>, [gid]))"
  by (induction gids) (auto simp: check_resources_satisfied_def split: option.split)

lemma gangs_ok_eviction: "gangs_ok s \<Longrightarrow> gangs_ok (fst (perform_eviction gids needed s))"
proof -
  assume ok: "gangs_ok s"
  show ?thesis
  proof (cases "filter (\<lambda>gid. dget (gs_gangs s) gid \<noteq> None) gids")
    case Nil
    then show ?thesis using ok by (simp add: perform_eviction_first)
  next
    case (Cons gid rest)
    then have "gid \<in> set (filter (\<lambda>gid. dget (gs_gangs s) gid \<noteq> None) gids)" by simp
    then obtain g where g: "dget (gs_gangs s) gid = Some g" by auto
    then have "gangs_ok ((put_gang gid (set_instances ''evicted'' (g\<lparr>gj_status := GS_FAILED\<rparr>)) s)
        \<lparr>gs_running := remove1 gid (gs_running s)\<rparr>)"
      using ok gangs_ok_lookup [OF ok g] by (intro gangs_ok_put) (auto intro: gang_ok_set)
    then show ?thesis using Cons g by (simp add: perform_eviction_first)
  qed
qed

interpretation gangs: machine gang_init client_step gangs_ok
proof unfold_locales
  show "gangs_ok s" if "gang_init s" for s
    using that by (auto simp: gang_init_def init_gang_scheduler_def gangs_ok_def)
  show "gangs_ok (client_step e s)" if ok: "gangs_ok s" for e s
  proof (cases e)
    case (GO_Register n)
    then show ?thesis using ok by (simp add: client_step_def gangs_ok_def)
  qed (use ok in \<open>simp_all add: client_step_def gangs_ok_submit gangs_ok_allocate gangs_ok_start gangs_ok_complete
      gangs_ok_eviction evict_low_priority_gangs_def\<close>)
qed

text \<open>
  C6. As long as every gang is submitted as its constructor makes it, pending with all its instances, and not under the
  identifier of a gang that is running, then after any sequence of operations the running list holds exactly the gangs whose status is
  running, each once, and the instances of a gang are always all in the state that belongs to the
  status of the gang: no gang is ever partly started, partly completed or partly evicted. (\<open>submit_gang\<close> does not check
  the condition: see \<open>running_gang_replaced\<close>.)
\<close>

theorem gangs_move_as_one:
  assumes "gang_init s0" "disciplined ops s0" "s = fold gang_step ops s0"
  shows "distinct (gs_running s) \<and>
    (\<forall>gid. gid \<in> set (gs_running s) \<longleftrightarrow> (\<exists>g. dget (gs_gangs s) gid = Some g \<and> gj_status g = GS_RUNNING)) \<and>
    (\<forall>gid g. dget (gs_gangs s) gid = Some g \<longrightarrow>
       (\<exists>x\<in>status_names (gj_status g). \<forall>i\<in>set (gj_instances g). sb_status i = x))"
  using gangs.inv_run [OF gangs.inv_init [OF assms(1)], of ops] assms(3) disciplined_fold [OF assms(2)]
  by (simp add: gangs_ok_def gang_ok_def all_status_def)

definition demo_ops :: "gang_op list" where
  "demo_ops = [GO_Register demo_node, GO_Submit (demo_gang ''g'' [demo_sandbox ''a'' QOS_BEST_EFFORT]),
     GO_Submit (demo_gang ''h'' [demo_sandbox ''b'' QOS_GUARANTEED]), GO_Allocate ''g'', GO_Allocate ''h'', GO_Start 1 ''g'', GO_Start 2 ''h'',
     GO_Complete 3 ''g'' True]"

lemma demo_ops_facts:
  "disciplined demo_ops (init_gang_scheduler [])" "gs_running (fold gang_step demo_ops (init_gang_scheduler [])) = [''h'']"
  by code_simp+

theorem gangs_move_as_one_witness:
  "\<exists>g. dget (gs_gangs (fold gang_step demo_ops (init_gang_scheduler []))) ''h'' = Some g \<and> gj_status g = GS_RUNNING \<and>
     (\<forall>i\<in>set (gj_instances g). sb_status i = ''running'')"
  using gangs_move_as_one [OF gang_init_fresh demo_ops_facts(1) refl] demo_ops_facts(2)
  by (metis (no_types, lifting) list.set_intros(1) singletonD status_names.simps(4))

text \<open>A gang that is submitted under the identifier of a running one replaces it: the running list names a gang that is pending.\<close>

lemma running_gang_replaced:
  assumes "gid \<in> set (gs_running s)" "gj_gang_id g = gid" "gj_status g = GS_PENDING"
  shows "gid \<in> set (gs_running (gang_step (GO_Submit g) s)) \<and> dget (gs_gangs (gang_step (GO_Submit g) s)) gid = Some g \<and> gj_status g \<noteq> GS_RUNNING"
  using assms by (simp add: submit_gang_def dget_dset)

subsection \<open>Eviction\<close>

text \<open>
  An eviction ends at most one gang, whatever resources are needed: the longest running one
  that contains a best-effort instance; and all its instances are evicted, guaranteed ones too.
\<close>

theorem eviction_takes_one_gang:
  assumes "gangs_ok s" "gs_eviction_enabled s"
  shows "case find (\<lambda>gid. \<exists>g. dget (gs_gangs s) gid = Some g \<and> (\<exists>i\<in>set (gj_instances g). sb_qos_class i = QOS_BEST_EFFORT))
            (gs_running s) of
      None \<Rightarrow> evict_low_priority_gangs needed s = (s, [])
    | Some gid \<Rightarrow> \<exists>g'. snd (evict_low_priority_gangs needed s) = [gid] \<and>
        dget (gs_gangs (fst (evict_low_priority_gangs needed s))) gid = Some g' \<and> gj_status g' = GS_FAILED \<and>
        (\<forall>i\<in>set (gj_instances g'). sb_status i = ''evicted'') \<and>
        gs_running (fst (evict_low_priority_gangs needed s)) = filter (\<lambda>x. x \<noteq> gid) (gs_running s)"
proof -
  let ?P = "\<lambda>gid. \<exists>g. dget (gs_gangs s) gid = Some g \<and> (\<exists>i\<in>set (gj_instances g). sb_qos_class i = QOS_BEST_EFFORT)"
  have ev: "find_evictable_gangs s = filter ?P (gs_running s)"
    unfolding find_evictable_gangs_def by (rule filter_cong) (auto simp: list_ex_iff split: option.splits)
  have live: "filter (\<lambda>gid. dget (gs_gangs s) gid \<noteq> None) (filter ?P (gs_running s)) = filter ?P (gs_running s)"
    by (rule filter_True) auto
  have e: "evict_low_priority_gangs needed s = (case filter ?P (gs_running s) of [] \<Rightarrow> (s, [])
      | gid # _ \<Rightarrow> ((put_gang gid (set_instances ''evicted'' ((the (dget (gs_gangs s) gid))\<lparr>gj_status := GS_FAILED\<rparr>)) s)
             \<lparr>gs_running := remove1 gid (gs_running s)\<rparr>, [gid]))"
    using assms(2) by (simp only: evict_low_priority_gangs_def perform_eviction_first ev live) simp
  show ?thesis
  proof (cases "filter ?P (gs_running s)")
    case Nil
    then have "find ?P (gs_running s) = None" by (auto simp: find_None_iff filter_empty_conv)
    then show ?thesis using e Nil by simp
  next
    case (Cons gid rest)
    then have f: "find ?P (gs_running s) = Some gid" by (simp add: find_filter)
    have "gid \<in> set (filter ?P (gs_running s))" using Cons by simp
    then obtain g where g: "dget (gs_gangs s) gid = Some g" by auto
    have "distinct (gs_running s)" using assms(1) by (simp add: gangs_ok_def)
    then have "remove1 gid (gs_running s) = filter (\<lambda>x. x \<noteq> gid) (gs_running s)"
      by (simp add: distinct_remove1_removeAll removeAll_filter_not_eq) (metis (mono_tags))
    then show ?thesis unfolding f e Cons using g by (simp add: dget_dset) (simp add: set_instances_def)
  qed
qed

lemma demo_running:
  assumes "\<forall>i\<in>set is. sb_status i = ''running''"
  shows "gangs_ok \<lparr>gs_gangs = [(''g'', (demo_gang ''g'' is)\<lparr>gj_status := GS_RUNNING\<rparr>)], gs_running = [''g''],
     gs_numa = [], gs_max_concurrent = 10, gs_eviction_enabled = True\<rparr>"
  using assms by (auto simp: gangs_ok_def demo_gang_def gang_ok_def all_status_def)

theorem eviction_takes_one_gang_witness:
  "\<exists>s. gs_running s = [''g''] \<and> snd (evict_low_priority_gangs [] s) = [''g'']"
proof -
  let ?is = "[(demo_sandbox ''a'' QOS_BEST_EFFORT)\<lparr>sb_status := ''running''\<rparr>,
    (demo_sandbox ''b'' QOS_GUARANTEED)\<lparr>sb_status := ''running''\<rparr>]"
  let ?s = "\<lparr>gs_gangs = [(''g'', (demo_gang ''g'' ?is)\<lparr>gj_status := GS_RUNNING\<rparr>)], gs_running = [''g''],
     gs_numa = [], gs_max_concurrent = 10, gs_eviction_enabled = True\<rparr>"
  have "gangs_ok ?s" by (rule demo_running) simp
  from eviction_takes_one_gang [OF this, of "[]"]
  have "snd (evict_low_priority_gangs [] ?s) = [''g'']"
    by (simp add: demo_gang_def demo_sandbox_def)
  then show ?thesis by (intro exI [of _ ?s]) simp
qed

subsection \<open>The concurrency limit\<close>

definition ready_at_0 :: "gang_scheduler \<Rightarrow> string \<Rightarrow> bool" where
  "ready_at_0 s gid \<longleftrightarrow> (\<exists>g. dget (gs_gangs s) gid = Some g \<and> gj_status g = GS_READY \<and>
     gj_submit_time g = 0 \<and> gj_timeout_seconds g = 300)"

lemma many_ready:
  "\<exists>s ids. reachable gang_init gang_step s \<and> gs_running s = [] \<and> gs_max_concurrent s = 10 \<and> gs_numa s = [] \<and>
     distinct ids \<and> length ids = n \<and> (\<forall>gid\<in>set ids. ready_at_0 s gid)"
proof (induction n)
  case 0
  have "reachable gang_init gang_step (init_gang_scheduler [])"
    by (rule reachable.reach_init) (rule gang_init_fresh)
  then show ?case
    by (intro exI [of _ "init_gang_scheduler []"] exI [of _ "[]"] conjI)
      (simp_all add: init_gang_scheduler_def)
next
  case (Suc n)
  then obtain s ids where s: "reachable gang_init gang_step s" "gs_running s = []" "gs_max_concurrent s = 10" "gs_numa s = []"
    and ids: "distinct ids" "length ids = n" "\<forall>gid\<in>set ids. ready_at_0 s gid" by blast
  obtain gid where gid: "gid \<notin> fst ` set (gs_gangs s)"
    using ex_new_if_finite [OF infinite_UNIV_listI, of "fst ` set (gs_gangs s)"] by blast
  then have new: "dget (gs_gangs s) gid = None" by (simp add: map_of_eq_None_iff)
  let ?g = "demo_gang gid []"
  define s1 where "s1 = gang_step (GO_Submit ?g) s"
  define s2 where "s2 = gang_step (GO_Allocate gid) s1"
  have s1: "s1 = s\<lparr>gs_gangs := dset gid ?g (gs_gangs s)\<rparr>"
    by (simp add: s1_def demo_gang_def submit_gang_def)
  have al: "perform_gang_allocation [] ?g = (?g\<lparr>gj_instances := [], gj_status := GS_READY\<rparr>, True, GR_Allocated)"
    by (simp add: perform_gang_allocation_def find_best_numa_placement_def vals_def demo_gang_def)
  have "validate_gang_for_allocation gid s1 = Inr ?g"
    unfolding s1 using s by (simp add: validate_gang_for_allocation_def dget_dset demo_gang_def)
  then have "s2 = put_gang gid (?g\<lparr>gj_instances := [], gj_status := GS_READY\<rparr>) s1"
    using al s(4) s1 by (simp add: s2_def try_allocate_gang_def)
  then have s2: "gs_gangs s2 = dset gid (?g\<lparr>gj_instances := [], gj_status := GS_READY\<rparr>) (gs_gangs s)"
    "gs_running s2 = []" "gs_max_concurrent s2 = 10" "gs_numa s2 = []"
    using s(2-4) by (simp_all add: s1)
  have "reachable gang_init gang_step s2"
    unfolding s2_def s1_def using s(1) by (intro reachable.reach_step)
  moreover have "gid \<notin> set ids" using ids(3) new by (auto simp: ready_at_0_def)
  moreover have "ready_at_0 s2 x" if "x \<in> set (gid # ids)" for x
    using that ids(3) new by (auto simp: ready_at_0_def s2(1) dget_dset demo_gang_def)
  ultimately show ?case
    using ids(1,2) s2 by (intro exI [of _ s2] exI [of _ "gid # ids"]) simp
qed

lemma start_ready:
  assumes "ready_at_0 s gid"
  shows "gs_running (fst (start_gang 0 gid s)) = gs_running s @ [gid]"
    "x \<noteq> gid \<Longrightarrow> ready_at_0 s x \<Longrightarrow> ready_at_0 (fst (start_gang 0 gid s)) x"
  using assms by (auto simp: ready_at_0_def start_gang_def Let_def dget_dset)

lemma start_all_ready:
  "distinct ids \<Longrightarrow> \<forall>gid\<in>set ids. ready_at_0 s gid \<Longrightarrow>
   gs_running (fold gang_step (map (GO_Start 0) ids) s) = gs_running s @ ids"
proof (induction ids arbitrary: s)
  case Nil
  then show ?case by simp
next
  case (Cons gid ids)
  have "\<forall>x\<in>set ids. ready_at_0 (fst (start_gang 0 gid s)) x"
  proof
    fix x assume "x \<in> set ids"
    then have "x \<noteq> gid" "ready_at_0 s x" "ready_at_0 s gid" using Cons.prems by auto
    then show "ready_at_0 (fst (start_gang 0 gid s)) x" using start_ready(2) by simp
  qed
  then show ?case using Cons start_ready(1) [of s gid] by simp
qed

text \<open>
  The limit of ten concurrent gangs is checked when a gang is allocated and not when it is
  started, so it limits nothing: for every number there is a run of the operations after which that many gangs are running.
\<close>

theorem concurrency_limit_is_not_kept:
  "\<exists>s. reachable gang_init gang_step s \<and> length (gs_running s) = n \<and> gs_max_concurrent s = 10"
proof -
  obtain s ids where s: "reachable gang_init gang_step s" "gs_running s = []" "gs_max_concurrent s = 10"
    and ids: "distinct ids" "length ids = n" "\<forall>gid\<in>set ids. ready_at_0 s gid"
    using many_ready by blast
  have "gs_max_concurrent (fold gang_step (map (GO_Start 0) ids) t) = gs_max_concurrent t" for t
    by (induction ids arbitrary: t) (auto simp: start_gang_def Let_def split: option.split)
  then show ?thesis
    using reachable_run [OF s(1), of "map (GO_Start 0) ids"] start_all_ready [OF ids(1,3)] s ids(2) by auto
qed

subsection \<open>The best node\<close>

lemma best_node_loop_spec:
  assumes "best_node_loop i t best score = res"
  shows "(res = best \<and> (\<forall>(k, n)\<in>set t. node_has_capacity n i \<longrightarrow> node_score n \<le> score)) \<or>
    (\<exists>k n. res = Some k \<and> (k, n) \<in> set t \<and> node_has_capacity n i \<and> score < node_score n \<and>
       (\<forall>(k', n')\<in>set t. node_has_capacity n' i \<longrightarrow> node_score n' \<le> node_score n))"
  using assms
proof (induction i t best score rule: best_node_loop.induct)
  case (1 i best score)
  then show ?case by simp
next
  case (2 i k n t best score)
  show ?case
  proof (cases "node_has_capacity n i \<and> score < node_score n")
    case True
    then have "best_node_loop i t (Some k) (node_score n) = res" using 2(4) by simp
    from 2(2) [OF _ _ this] True show ?thesis by fastforce
  next
    case False
    then have "best_node_loop i t best score = res" using 2(4) by auto
    then have "(res = best \<and> (\<forall>(k, n)\<in>set t. node_has_capacity n i \<longrightarrow> node_score n \<le> score)) \<or>
      (\<exists>k n. res = Some k \<and> (k, n) \<in> set t \<and> node_has_capacity n i \<and> score < node_score n \<and>
       (\<forall>(k', n')\<in>set t. node_has_capacity n' i \<longrightarrow> node_score n' \<le> node_score n))"
      using 2(1,3) False by auto
    then show ?thesis using False by fastforce
  qed
qed

text \<open>
  The node chosen for a single instance has capacity for it: the preferred node where that
  has, and otherwise one of the highest score among the nodes that have; with nonnegative memory
  sizes none is returned only when no node has capacity.
\<close>

theorem best_node_is_best:
  assumes "wf_dict t" "\<forall>(k, n)\<in>set t. 0 \<le> nn_available_memory_mb n"
  shows "case find_best_numa_node t i of
      None \<Rightarrow> \<forall>(k, n)\<in>set t. \<not> node_has_capacity n i
    | Some k \<Rightarrow> \<exists>n. dget t k = Some n \<and> node_has_capacity n i \<and>
        (sb_preferred_numa_node i = Some k \<or>
         (\<forall>(k', n')\<in>set t. node_has_capacity n' i \<longrightarrow> node_score n' \<le> node_score n))"
proof (cases "check_preferred_node t i")
  case (Some p)
  then obtain n where "sb_preferred_numa_node i = Some p" "dget t p = Some n" "node_has_capacity n i"
    by (auto simp: check_preferred_node_def split: option.splits if_splits)
  moreover from this have "t \<noteq> []" by auto
  ultimately show ?thesis using Some by (simp add: find_best_numa_node_def)
next
  case None
  have pos: "\<not> node_score n \<le> - 1" if "(k, n) \<in> set t" for k n
    using assms(2) that by (auto simp: node_score_def)
  have "(find_best_node_by_score t i = None \<and> (\<forall>(k, n)\<in>set t. node_has_capacity n i \<longrightarrow> node_score n \<le> - 1)) \<or>
    (\<exists>k n. find_best_node_by_score t i = Some k \<and> (k, n) \<in> set t \<and> node_has_capacity n i \<and> - 1 < node_score n \<and>
       (\<forall>(k', n')\<in>set t. node_has_capacity n' i \<longrightarrow> node_score n' \<le> node_score n))"
    by (rule best_node_loop_spec) (simp add: find_best_node_by_score_def)
  then show ?thesis
  proof (elim disjE exE conjE)
    assume "find_best_node_by_score t i = None" "\<forall>(k, n)\<in>set t. node_has_capacity n i \<longrightarrow> node_score n \<le> - 1"
    then show ?thesis using None pos by (fastforce simp: find_best_numa_node_def)
  next
    fix k n
    assume kn: "find_best_node_by_score t i = Some k" "(k, n) \<in> set t" "node_has_capacity n i"
      "\<forall>(k', n')\<in>set t. node_has_capacity n' i \<longrightarrow> node_score n' \<le> node_score n"
    then have "dget t k = Some n" "t \<noteq> []" using assms(1) by (auto simp: mem_dict_iff)
    then show ?thesis using None kn by (simp add: find_best_numa_node_def)
  qed
qed

theorem best_node_is_best_witness:
  "case find_best_numa_node [(0, demo_node)] (demo_sandbox ''a'' QOS_BURSTABLE) of
     None \<Rightarrow> \<forall>(k, n)\<in>set [(0, demo_node)]. \<not> node_has_capacity n (demo_sandbox ''a'' QOS_BURSTABLE)
   | Some k \<Rightarrow> \<exists>n. dget [(0, demo_node)] k = Some n"
  using best_node_is_best [of "[(0, demo_node)]" "demo_sandbox ''a'' QOS_BURSTABLE"]
  by (auto simp: demo_node_def wf_dict_def split: option.splits)

end
