(* ===== verification/Session_Manager.thy ===== *)
theory Session_Manager
  imports Photon_Prelude
begin

text \<open>
  \<open>evolution/session_state_manager.py\<close>: sessions with a key-value state, their snapshots, the
  change log, the tenants and the files. Identifiers come from \<open>uuid4\<close> and are arguments of the
  operations that need one; \<open>safe\<close> is the file name of a session (a prefix of the SHA-256 of its
  identifier) and \<open>ord\<close> the iteration order of a set of strings. A file holds a session as it was
  written, or something that cannot be read back. Sessions are values: what a client does to the
  object it got is not modelled, nor is sharing below the top level of a state.
\<close>

subsection \<open>Data\<close>

datatype session_status = ST_ACTIVE | ST_SUSPENDED | ST_COMPLETED | ST_EXPIRED | ST_ARCHIVED

fun status_value :: "session_status \<Rightarrow> string" where
  "status_value ST_ACTIVE = ''active''"
| "status_value ST_SUSPENDED = ''suspended''"
| "status_value ST_COMPLETED = ''completed''"
| "status_value ST_EXPIRED = ''expired''"
| "status_value ST_ARCHIVED = ''archived''"

datatype session_type = TY_SANDBOX | TY_RED_BLUE_TRAINING | TY_AUDIT | TY_EVOLUTION | TY_GENERAL

fun session_type_value :: "session_type \<Rightarrow> string" where
  "session_type_value TY_SANDBOX = ''sandbox''"
| "session_type_value TY_RED_BLUE_TRAINING = ''red_blue''"
| "session_type_value TY_AUDIT = ''audit''"
| "session_type_value TY_EVOLUTION = ''evolution''"
| "session_type_value TY_GENERAL = ''general''"

record snapshot =
  sn_snapshot_id :: string
  sn_session_id :: string
  sn_timestamp :: time
  sn_state :: "(string, json) dict"
  sn_metadata :: "(string, json) dict"
  sn_reason :: string

record change_log =
  cl_timestamp :: time
  cl_session_id :: string
  cl_operation :: string
  cl_field :: string
  cl_old_value :: json
  cl_new_value :: json
  cl_actor :: string
  cl_reason :: string

record session =
  ss_session_id :: string
  ss_session_type :: string
  ss_tenant_id :: string
  ss_status :: string
  ss_created_at :: time
  ss_updated_at :: time
  ss_last_accessed_at :: time
  ss_expires_at :: "time option"
  ss_state :: "(string, json) dict"
  ss_metadata :: "(string, json) dict"
  ss_parent_session_id :: "string option"
  ss_tags :: "string list"

record sessions =
  sm_storage_dir :: "string option"
  sm_default_ttl :: "time option"
  sm_max_snapshots :: nat
  sm_audit_log :: bool
  sm_sessions :: "(string, session) dict"
  sm_snapshots :: "(string, snapshot list) dict"
  sm_logs :: "change_log list"
  sm_tenants :: "(string, string list) dict"
  sm_files :: "(string, session disk_file) dict"
  sm_disk_ok :: bool

subsection \<open>Log, snapshots and files\<close>

definition MAX_LOGS :: nat where
  "MAX_LOGS = 10000"

definition log_change :: "time \<Rightarrow> string \<Rightarrow> string \<Rightarrow> string \<Rightarrow> json \<Rightarrow> json \<Rightarrow> string \<Rightarrow> string \<Rightarrow>
    sessions \<Rightarrow> sessions" where
  "log_change now sid op fld old new actor reason m =
     (if \<not> sm_audit_log m then m
      else let l = \<lparr>cl_timestamp = now, cl_session_id = sid, cl_operation = op, cl_field = fld,
             cl_old_value = old, cl_new_value = new, cl_actor = actor, cl_reason = reason\<rparr>;
             logs = sm_logs m @ [l]
           in m\<lparr>sm_logs := (if MAX_LOGS < length logs then last_n MAX_LOGS logs else logs)\<rparr>)"

definition create_snapshot_internal :: "time \<Rightarrow> string \<Rightarrow> session \<Rightarrow> string \<Rightarrow> sessions \<Rightarrow> sessions \<times> snapshot" where
  "create_snapshot_internal now pid s reason m =
     (let sn = \<lparr>sn_snapshot_id = pid, sn_session_id = ss_session_id s, sn_timestamp = now,
            sn_state = ss_state s, sn_metadata = ss_metadata s, sn_reason = reason\<rparr>;
          sns = dget_or (sm_snapshots m) (ss_session_id s) [] @ [sn];
          kept = (if sm_max_snapshots m < length sns then last_n (sm_max_snapshots m) sns else sns)
      in (m\<lparr>sm_snapshots := dset (ss_session_id s) kept (sm_snapshots m)\<rparr>, sn))"

definition persist_session :: "(string \<Rightarrow> string) \<Rightarrow> session \<Rightarrow> sessions \<Rightarrow> sessions" where
  "persist_session safe s m =
     (if str_or_none (sm_storage_dir m) = None \<or> \<not> sm_disk_ok m then m
      else m\<lparr>sm_files := dset (safe (ss_session_id s)) (Doc s) (sm_files m)\<rparr>)"

definition delete_persisted_session :: "(string \<Rightarrow> string) \<Rightarrow> string \<Rightarrow> sessions \<Rightarrow> sessions" where
  "delete_persisted_session safe sid m =
     (if str_or_none (sm_storage_dir m) = None \<or> \<not> sm_disk_ok m then m
      else m\<lparr>sm_files := ddel (safe sid) (sm_files m)\<rparr>)"

definition put_session :: "string \<Rightarrow> session \<Rightarrow> sessions \<Rightarrow> sessions" where
  "put_session sid s m = m\<lparr>sm_sessions := dset sid s (sm_sessions m)\<rparr>"

definition add_to_tenant :: "string \<Rightarrow> string \<Rightarrow> sessions \<Rightarrow> sessions" where
  "add_to_tenant tenant sid m =
     m\<lparr>sm_tenants := dset tenant (List.insert sid (dget_or (sm_tenants m) tenant [])) (sm_tenants m)\<rparr>"

subsection \<open>Starting\<close>

fun load_files :: "(string \<times> session disk_file) list \<Rightarrow> sessions \<Rightarrow> sessions" where
  "load_files [] m = m"
| "load_files ((name, f) # fs) m =
     (case f of
        Doc s \<Rightarrow> load_files fs (add_to_tenant (ss_tenant_id s) (ss_session_id s) (put_session (ss_session_id s) s m))
      | _ \<Rightarrow> load_files fs m)"

text \<open>A new manager on a directory with the given files, in the order the directory lists them.\<close>

definition init_sessions :: "string option \<Rightarrow> time option \<Rightarrow> nat \<Rightarrow> bool \<Rightarrow>
    (string, session disk_file) dict \<Rightarrow> bool \<Rightarrow> sessions" where
  "init_sessions dir ttl max_snap audit files ok =
     (let m = \<lparr>sm_storage_dir = dir, sm_default_ttl = ttl, sm_max_snapshots = max_snap,
            sm_audit_log = audit, sm_sessions = [], sm_snapshots = [], sm_logs = [], sm_tenants = [],
            sm_files = files, sm_disk_ok = ok\<rparr>
      in if str_or_none dir = None then m else load_files files m)"

definition create_session_manager :: "string option \<Rightarrow> time option \<Rightarrow> (string, session disk_file) dict \<Rightarrow> bool \<Rightarrow> sessions" where
  "create_session_manager dir ttl files ok = init_sessions dir ttl 10 True files ok"

subsection \<open>Life cycle\<close>

definition create_session :: "(string \<Rightarrow> string) \<Rightarrow> time \<Rightarrow> string \<Rightarrow> string \<Rightarrow> string \<Rightarrow> string \<Rightarrow>
    (string, json) dict \<Rightarrow> (string, json) dict \<Rightarrow> time option \<Rightarrow> string option \<Rightarrow> string list \<Rightarrow>
    sessions \<Rightarrow> sessions \<times> session" where
  "create_session safe now sid pid ty tenant st meta ttl parent tags m =
     (let expires = (case ttl of Some t \<Rightarrow> Some (now + t)
                     | None \<Rightarrow> map_option (\<lambda>t. now + t) (sm_default_ttl m));
          s = \<lparr>ss_session_id = sid, ss_session_type = ty, ss_tenant_id = tenant,
               ss_status = status_value ST_ACTIVE, ss_created_at = now, ss_updated_at = now,
               ss_last_accessed_at = now, ss_expires_at = expires, ss_state = st, ss_metadata = meta,
               ss_parent_session_id = parent, ss_tags = tags\<rparr>;
          m1 = add_to_tenant tenant sid (put_session sid s m);
          m2 = log_change now sid ''create'' [] JNull JNull ''system''
                 (''Created '' @ ty @ '' session for tenant '' @ tenant) m1;
          m3 = fst (create_snapshot_internal now pid s ''initial'' m2)
      in (persist_session safe s m3, s))"

definition tenant_ok :: "string option \<Rightarrow> session \<Rightarrow> bool" where
  "tenant_ok tenant s = (case tenant of None \<Rightarrow> True | Some t \<Rightarrow> ss_tenant_id s = t)"

definition get_session :: "time \<Rightarrow> string \<Rightarrow> string option \<Rightarrow> sessions \<Rightarrow> sessions \<times> session option" where
  "get_session now sid tenant m =
     (case dget (sm_sessions m) sid of
        None \<Rightarrow> (m, None)
      | Some s \<Rightarrow>
          (if \<not> tenant_ok tenant s then (m, None)
           else let s' = s\<lparr>ss_last_accessed_at := now\<rparr> in (put_session sid s' m, Some s')))"

text \<open>\<open>d.update(e)\<close>.\<close>

definition dict_update :: "('k, 'v) dict \<Rightarrow> ('k, 'v) dict \<Rightarrow> ('k, 'v) dict" where
  "dict_update d e = fold (\<lambda>(k, v). dset k v) e d"

definition log_updates :: "time \<Rightarrow> string \<Rightarrow> string \<Rightarrow> (string, json) dict \<Rightarrow> (string, json) dict \<Rightarrow>
    sessions \<Rightarrow> sessions" where
  "log_updates now sid actor old_state updates m =
     fold (\<lambda>(k, v). log_change now sid ''update'' k (dget_or old_state k JNull) v actor []) updates m"

definition update_state :: "(string \<Rightarrow> string) \<Rightarrow> time \<Rightarrow> string \<Rightarrow> (string, json) dict \<Rightarrow> string option \<Rightarrow>
    string \<Rightarrow> sessions \<Rightarrow> sessions \<times> session option" where
  "update_state safe now sid updates tenant actor m =
     (case get_session now sid tenant m of
        (m1, None) \<Rightarrow> (m1, None)
      | (m1, Some s) \<Rightarrow>
          (let s' = s\<lparr>ss_state := dict_update (ss_state s) updates, ss_updated_at := now\<rparr>;
               m2 = log_updates now sid actor (ss_state s) updates (put_session sid s' m1)
           in (persist_session safe s' m2, Some s')))"

definition set_state :: "(string \<Rightarrow> string) \<Rightarrow> time \<Rightarrow> string \<Rightarrow> string \<Rightarrow> json \<Rightarrow> string option \<Rightarrow> string \<Rightarrow>
    sessions \<Rightarrow> sessions \<times> session option" where
  "set_state safe now sid key val tenant actor m = update_state safe now sid [(key, val)] tenant actor m"

definition get_state_value :: "time \<Rightarrow> string \<Rightarrow> string \<Rightarrow> json \<Rightarrow> string option \<Rightarrow> sessions \<Rightarrow> sessions \<times> json" where
  "get_state_value now sid key dflt tenant m =
     (case get_session now sid tenant m of
        (m1, None) \<Rightarrow> (m1, dflt)
      | (m1, Some s) \<Rightarrow> (m1, dget_or (ss_state s) key dflt))"

definition suspend_session :: "(string \<Rightarrow> string) \<Rightarrow> time \<Rightarrow> string \<Rightarrow> string \<Rightarrow> string \<Rightarrow> string option \<Rightarrow>
    sessions \<Rightarrow> sessions \<times> session option" where
  "suspend_session safe now pid sid reason tenant m =
     (case get_session now sid tenant m of
        (m1, None) \<Rightarrow> (m1, None)
      | (m1, Some s) \<Rightarrow>
          (let s' = s\<lparr>ss_status := status_value ST_SUSPENDED, ss_updated_at := now\<rparr>;
               m2 = fst (create_snapshot_internal now pid s' (''suspend: '' @ reason) (put_session sid s' m1));
               m3 = log_change now sid ''suspend'' [] (JStr (ss_status s)) (JStr (ss_status s')) ''system'' reason m2
           in (persist_session safe s' m3, Some s')))"

definition resume_session :: "(string \<Rightarrow> string) \<Rightarrow> time \<Rightarrow> string \<Rightarrow> string option \<Rightarrow> string \<Rightarrow>
    sessions \<Rightarrow> sessions \<times> session option" where
  "resume_session safe now sid tenant actor m =
     (case get_session now sid tenant m of
        (m1, None) \<Rightarrow> (m1, None)
      | (m1, Some s) \<Rightarrow>
          (let sns = dget_or (sm_snapshots m1) sid [];
               s' = s\<lparr>ss_state := (if sns = [] then ss_state s else sn_state (last sns)),
                      ss_status := status_value ST_ACTIVE, ss_updated_at := now, ss_last_accessed_at := now\<rparr>;
               m2 = log_change now sid ''resume'' [] (JStr (ss_status s)) (JStr (ss_status s')) actor []
                      (put_session sid s' m1)
           in (persist_session safe s' m2, Some s')))"

definition complete_session :: "(string \<Rightarrow> string) \<Rightarrow> time \<Rightarrow> string \<Rightarrow> string \<Rightarrow> (string, json) dict \<Rightarrow> string option \<Rightarrow>
    sessions \<Rightarrow> sessions \<times> session option" where
  "complete_session safe now pid sid final_state tenant m =
     (case get_session now sid tenant m of
        (m1, None) \<Rightarrow> (m1, None)
      | (m1, Some s) \<Rightarrow>
          (let s' = s\<lparr>ss_state := dict_update (ss_state s) final_state,
                      ss_status := status_value ST_COMPLETED, ss_updated_at := now\<rparr>;
               m2 = fst (create_snapshot_internal now pid s' ''completed'' (put_session sid s' m1));
               m3 = log_change now sid ''complete'' [] (JStr (ss_status s)) (JStr (ss_status s')) ''system'' [] m2
           in (persist_session safe s' m3, Some s')))"

text \<open>The set of the tenant stays in the table when it becomes empty.\<close>

definition delete_session :: "(string \<Rightarrow> string) \<Rightarrow> time \<Rightarrow> string \<Rightarrow> string option \<Rightarrow> string \<Rightarrow>
    sessions \<Rightarrow> sessions \<times> bool" where
  "delete_session safe now sid tenant actor m =
     (case dget (sm_sessions m) sid of
        None \<Rightarrow> (m, False)
      | Some s \<Rightarrow>
          (if \<not> tenant_ok tenant s then (m, False)
           else let m1 = m\<lparr>sm_sessions := ddel sid (sm_sessions m), sm_snapshots := ddel sid (sm_snapshots m),
                  sm_tenants := (case dget (sm_tenants m) (ss_tenant_id s) of
                      None \<Rightarrow> sm_tenants m
                    | Some ids \<Rightarrow> dset (ss_tenant_id s) (removeAll sid ids) (sm_tenants m))\<rparr>;
                m2 = log_change now sid ''delete'' [] JNull JNull actor [] m1
                in (delete_persisted_session safe sid m2, True)))"

subsection \<open>Snapshots\<close>

definition create_snapshot :: "time \<Rightarrow> string \<Rightarrow> string \<Rightarrow> string \<Rightarrow> string option \<Rightarrow>
    sessions \<Rightarrow> sessions \<times> snapshot option" where
  "create_snapshot now pid sid reason tenant m =
     (case get_session now sid tenant m of
        (m1, None) \<Rightarrow> (m1, None)
      | (m1, Some s) \<Rightarrow> apsnd Some (create_snapshot_internal now pid s reason m1))"

definition list_snapshots :: "time \<Rightarrow> string \<Rightarrow> string option \<Rightarrow> sessions \<Rightarrow> sessions \<times> snapshot list" where
  "list_snapshots now sid tenant m =
     (case get_session now sid tenant m of
        (m1, None) \<Rightarrow> (m1, [])
      | (m1, Some s) \<Rightarrow> (m1, dget_or (sm_snapshots m1) sid []))"

definition restore_snapshot :: "(string \<Rightarrow> string) \<Rightarrow> time \<Rightarrow> string \<Rightarrow> string \<Rightarrow> string \<Rightarrow> string option \<Rightarrow> string \<Rightarrow>
    sessions \<Rightarrow> sessions \<times> session option" where
  "restore_snapshot safe now pid sid target tenant actor m =
     (case get_session now sid tenant m of
        (m1, None) \<Rightarrow> (m1, None)
      | (m1, Some s) \<Rightarrow>
          (case find (\<lambda>sn. sn_snapshot_id sn = target) (dget_or (sm_snapshots m1) sid []) of
             None \<Rightarrow> (m1, None)
           | Some sn \<Rightarrow>
               (let m2 = fst (create_snapshot_internal now pid s (''pre_restore_to_'' @ target) m1);
                    s' = s\<lparr>ss_state := sn_state sn, ss_updated_at := now\<rparr>;
                    m3 = log_change now sid ''update'' ''__full_state__''
                           (JStr (''<state before restore to '' @ target @ ''>''))
                           (JStr (''<restored from '' @ target @ ''>'')) actor
                           (''Restored from snapshot '' @ target) (put_session sid s' m2)
                in (persist_session safe s' m3, Some s'))))"

subsection \<open>Chains of sessions\<close>

text \<open>\<open>a or b\<close> on an optional string.\<close>

definition or_str :: "string option \<Rightarrow> string \<Rightarrow> string" where
  "or_str a b = (case str_or_none a of Some x \<Rightarrow> x | None \<Rightarrow> b)"

definition resume_from_previous :: "(string \<Rightarrow> string) \<Rightarrow> time \<Rightarrow> string \<Rightarrow> string \<Rightarrow> string \<Rightarrow> string option \<Rightarrow> string option \<Rightarrow>
    bool \<Rightarrow> bool \<Rightarrow> bool \<Rightarrow> sessions \<Rightarrow> sessions \<times> session option" where
  "resume_from_previous safe now sid pid prev_id new_type tenant inh_state inh_meta inh_tags m =
     (case dget (sm_sessions m) prev_id of
        None \<Rightarrow> (m, None)
      | Some p \<Rightarrow>
          (if \<not> tenant_ok tenant p then (m, None)
           else let st = (if inh_state then ss_state p else []);
                    meta = dset ''inherited_at'' (JFloat now) (dset ''inherited_from'' (JStr prev_id)
                             (if inh_meta then ss_metadata p else []));
                    tags = (if inh_tags then ss_tags p else [])
                in apsnd Some (create_session safe now sid pid (or_str new_type (ss_session_type p))
                     (or_str tenant (ss_tenant_id p)) st meta None (Some prev_id) tags m)))"

text \<open>The loop of \<open>get_session_chain\<close>: every round visits a session not visited before.\<close>

function chain_loop :: "(string, session) dict \<Rightarrow> string option \<Rightarrow> string list \<Rightarrow> session list" where
  "chain_loop d cur visited =
     (case str_or_none cur of
        None \<Rightarrow> []
      | Some sid \<Rightarrow>
          (if sid \<in> set visited then []
           else case dget d sid of
               None \<Rightarrow> []
             | Some s \<Rightarrow> s # chain_loop d (ss_parent_session_id s) (sid # visited)))"
  by pat_completeness auto
termination
proof (relation "measure (\<lambda>(d, cur, visited). card (fst ` set d - set visited))")
  show "wf (measure (\<lambda>(d, cur, visited). card (fst ` set d - set visited)))" by simp
next
  fix d :: "(string, session) dict" and cur visited sid s
  assume "sid \<notin> set visited" "dget d sid = Some s"
  then have "sid \<in> fst ` set d - set visited"
    by (metis DiffI domI dom_map_of_conv_image_fst)
  then have "card (fst ` set d - set visited - {sid}) < card (fst ` set d - set visited)"
    by (intro card_Diff1_less) auto
  moreover have "fst ` set d - set (sid # visited) = fst ` set d - set visited - {sid}" by auto
  ultimately show "((d, ss_parent_session_id s, sid # visited), d, cur, visited)
      \<in> measure (\<lambda>(d, cur, visited). card (fst ` set d - set visited))" by simp
qed

declare chain_loop.simps [simp del]

definition get_session_chain :: "string \<Rightarrow> sessions \<Rightarrow> session list" where
  "get_session_chain sid m = rev (chain_loop (sm_sessions m) (Some sid) [])"

subsection \<open>Tenants, expiry, reports\<close>

text \<open>An empty filter text filters nothing.\<close>

definition passes :: "string option \<Rightarrow> string \<Rightarrow> bool" where
  "passes f x = (case str_or_none f of None \<Rightarrow> True | Some y \<Rightarrow> x = y)"

definition list_sessions_by_tenant :: "(string list \<Rightarrow> string list) \<Rightarrow> string \<Rightarrow> string option \<Rightarrow> string option \<Rightarrow>
    sessions \<Rightarrow> session list" where
  "list_sessions_by_tenant ord tenant status_filter type_filter m =
     sort_key (\<lambda>s. - ss_created_at s)
       (filter (\<lambda>s. passes status_filter (ss_status s) \<and> passes type_filter (ss_session_type s))
          (List.map_filter (dget (sm_sessions m)) (ord (dget_or (sm_tenants m) tenant []))))"

record tenant_report =
  tr_tenant_id :: string
  tr_total_sessions :: nat
  tr_by_status :: "(string, int) dict"
  tr_by_type :: "(string, int) dict"
  tr_active :: int

definition get_tenant_statistics :: "(string list \<Rightarrow> string list) \<Rightarrow> string \<Rightarrow> sessions \<Rightarrow> tenant_report" where
  "get_tenant_statistics ord tenant m =
     (let ss = list_sessions_by_tenant ord tenant None None m;
          by_status = fold (\<lambda>s. bump (ss_status s)) ss []
      in \<lparr>tr_tenant_id = tenant, tr_total_sessions = length ss, tr_by_status = by_status,
          tr_by_type = fold (\<lambda>s. bump (ss_session_type s)) ss [],
          tr_active = dget_or by_status (status_value ST_ACTIVE) 0\<rparr>)"

definition is_expired :: "time \<Rightarrow> session \<Rightarrow> bool" where
  "is_expired now s \<longleftrightarrow> (case ss_expires_at s of None \<Rightarrow> False | Some t \<Rightarrow> t < now) \<and>
     ss_status s = status_value ST_ACTIVE"

definition expire_session :: "(string \<Rightarrow> string) \<Rightarrow> time \<Rightarrow> string \<Rightarrow> string \<Rightarrow> session \<Rightarrow> sessions \<Rightarrow> sessions" where
  "expire_session safe now pid sid s m =
     (let m1 = fst (create_snapshot_internal now pid s ''auto_expire'' m);
          s' = s\<lparr>ss_status := status_value ST_EXPIRED, ss_updated_at := now\<rparr>;
          m2 = log_change now sid ''expire'' [] (JStr (status_value ST_ACTIVE)) (JStr (status_value ST_EXPIRED))
                 ''system'' ''TTL expired'' (put_session sid s' m1)
      in persist_session safe s' m2)"

text \<open>\<open>pids\<close> gives the identifier of the snapshot made for a session.\<close>

fun cleanup_loop :: "(string \<Rightarrow> string) \<Rightarrow> (string \<Rightarrow> string) \<Rightarrow> time \<Rightarrow> (string \<times> session) list \<Rightarrow>
    sessions \<Rightarrow> sessions \<times> int" where
  "cleanup_loop safe pids now [] m = (m, 0)"
| "cleanup_loop safe pids now ((sid, s) # rest) m =
     (if is_expired now s
      then apsnd (\<lambda>n. n + 1) (cleanup_loop safe pids now rest (expire_session safe now (pids sid) sid s m))
      else cleanup_loop safe pids now rest m)"

definition cleanup_expired :: "(string \<Rightarrow> string) \<Rightarrow> (string \<Rightarrow> string) \<Rightarrow> time \<Rightarrow> sessions \<Rightarrow> sessions \<times> int" where
  "cleanup_expired safe pids now m = cleanup_loop safe pids now (sm_sessions m) m"

definition get_change_logs :: "string option \<Rightarrow> nat \<Rightarrow> sessions \<Rightarrow> change_log list" where
  "get_change_logs sid limit m =
     last_n limit (case str_or_none sid of None \<Rightarrow> sm_logs m
                   | Some x \<Rightarrow> filter (\<lambda>l. cl_session_id l = x) (sm_logs m))"

definition save_all :: "(string \<Rightarrow> string) \<Rightarrow> sessions \<Rightarrow> sessions" where
  "save_all safe m = fold (persist_session safe) (vals (sm_sessions m)) m"

record sessions_report =
  sr_total_sessions :: nat
  sr_by_status :: "(string, int) dict"
  sr_by_type :: "(string, int) dict"
  sr_total_snapshots :: nat
  sr_total_change_logs :: nat
  sr_total_tenants :: nat
  sr_storage_dir :: "string option"
  sr_default_ttl :: "time option"

definition get_statistics :: "sessions \<Rightarrow> sessions_report" where
  "get_statistics m =
     \<lparr>sr_total_sessions = length (sm_sessions m),
      sr_by_status = fold (\<lambda>s. bump (ss_status s)) (vals (sm_sessions m)) [],
      sr_by_type = fold (\<lambda>s. bump (ss_session_type s)) (vals (sm_sessions m)) [],
      sr_total_snapshots = sum_list (map length (vals (sm_snapshots m))),
      sr_total_change_logs = length (sm_logs m), sr_total_tenants = length (sm_tenants m),
      sr_storage_dir = sm_storage_dir m, sr_default_ttl = sm_default_ttl m\<rparr>"

subsection \<open>What the building blocks leave alone\<close>

lemma log_change_frame [simp]:
  "sm_sessions (log_change now sid op fld old new actor reason m) = sm_sessions m"
  "sm_snapshots (log_change now sid op fld old new actor reason m) = sm_snapshots m"
  "sm_tenants (log_change now sid op fld old new actor reason m) = sm_tenants m"
  "sm_files (log_change now sid op fld old new actor reason m) = sm_files m"
  "sm_storage_dir (log_change now sid op fld old new actor reason m) = sm_storage_dir m"
  "sm_disk_ok (log_change now sid op fld old new actor reason m) = sm_disk_ok m"
  "sm_max_snapshots (log_change now sid op fld old new actor reason m) = sm_max_snapshots m"
  "sm_default_ttl (log_change now sid op fld old new actor reason m) = sm_default_ttl m"
  by (simp_all add: log_change_def Let_def)

lemma snapshot_frame [simp]:
  "sm_sessions (fst (create_snapshot_internal now pid s reason m)) = sm_sessions m"
  "sm_tenants (fst (create_snapshot_internal now pid s reason m)) = sm_tenants m"
  "sm_files (fst (create_snapshot_internal now pid s reason m)) = sm_files m"
  "sm_logs (fst (create_snapshot_internal now pid s reason m)) = sm_logs m"
  "sm_storage_dir (fst (create_snapshot_internal now pid s reason m)) = sm_storage_dir m"
  "sm_disk_ok (fst (create_snapshot_internal now pid s reason m)) = sm_disk_ok m"
  "sm_max_snapshots (fst (create_snapshot_internal now pid s reason m)) = sm_max_snapshots m"
  by (simp_all add: create_snapshot_internal_def Let_def)

lemma persist_frame [simp]:
  "sm_sessions (persist_session safe s m) = sm_sessions m"
  "sm_snapshots (persist_session safe s m) = sm_snapshots m"
  "sm_tenants (persist_session safe s m) = sm_tenants m"
  "sm_logs (persist_session safe s m) = sm_logs m"
  "sm_storage_dir (persist_session safe s m) = sm_storage_dir m"
  "sm_disk_ok (persist_session safe s m) = sm_disk_ok m"
  "sm_max_snapshots (persist_session safe s m) = sm_max_snapshots m"
  by (simp_all add: persist_session_def)

lemma delete_persisted_frame [simp]:
  "sm_sessions (delete_persisted_session safe sid m) = sm_sessions m"
  "sm_snapshots (delete_persisted_session safe sid m) = sm_snapshots m"
  "sm_tenants (delete_persisted_session safe sid m) = sm_tenants m"
  "sm_logs (delete_persisted_session safe sid m) = sm_logs m"
  "sm_storage_dir (delete_persisted_session safe sid m) = sm_storage_dir m"
  "sm_disk_ok (delete_persisted_session safe sid m) = sm_disk_ok m"
  "sm_max_snapshots (delete_persisted_session safe sid m) = sm_max_snapshots m"
  by (simp_all add: delete_persisted_session_def)

lemma put_session_frame [simp]:
  "sm_sessions (put_session sid s m) = dset sid s (sm_sessions m)"
  "sm_snapshots (put_session sid s m) = sm_snapshots m"
  "sm_tenants (put_session sid s m) = sm_tenants m"
  "sm_files (put_session sid s m) = sm_files m"
  "sm_logs (put_session sid s m) = sm_logs m"
  "sm_storage_dir (put_session sid s m) = sm_storage_dir m"
  "sm_disk_ok (put_session sid s m) = sm_disk_ok m"
  "sm_max_snapshots (put_session sid s m) = sm_max_snapshots m"
  by (simp_all add: put_session_def)

lemma add_to_tenant_frame [simp]:
  "sm_sessions (add_to_tenant t sid m) = sm_sessions m"
  "sm_snapshots (add_to_tenant t sid m) = sm_snapshots m"
  "sm_files (add_to_tenant t sid m) = sm_files m"
  "sm_logs (add_to_tenant t sid m) = sm_logs m"
  "sm_storage_dir (add_to_tenant t sid m) = sm_storage_dir m"
  "sm_disk_ok (add_to_tenant t sid m) = sm_disk_ok m"
  "sm_max_snapshots (add_to_tenant t sid m) = sm_max_snapshots m"
  "sm_default_ttl (add_to_tenant t sid m) = sm_default_ttl m"
  by (simp_all add: add_to_tenant_def)

lemma log_updates_frame [simp]:
  "sm_sessions (log_updates now sid actor old us m) = sm_sessions m"
  "sm_snapshots (log_updates now sid actor old us m) = sm_snapshots m"
  "sm_tenants (log_updates now sid actor old us m) = sm_tenants m"
  "sm_files (log_updates now sid actor old us m) = sm_files m"
  "sm_storage_dir (log_updates now sid actor old us m) = sm_storage_dir m"
  "sm_disk_ok (log_updates now sid actor old us m) = sm_disk_ok m"
  "sm_max_snapshots (log_updates now sid actor old us m) = sm_max_snapshots m"
  unfolding log_updates_def by (induction us arbitrary: m) (auto split: prod.split)

lemma dget_snapshots_after:
  "dget (sm_snapshots (fst (create_snapshot_internal now pid s reason m))) sid =
     (if sid = ss_session_id s
      then Some (let sns = dget_or (sm_snapshots m) sid [] @
              [\<lparr>sn_snapshot_id = pid, sn_session_id = sid, sn_timestamp = now, sn_state = ss_state s,
                sn_metadata = ss_metadata s, sn_reason = reason\<rparr>]
            in if sm_max_snapshots m < length sns then last_n (sm_max_snapshots m) sns else sns)
      else dget (sm_snapshots m) sid)"
  by (simp add: create_snapshot_internal_def Let_def dget_dset)

lemma get_session_cases:
  obtains "get_session now sid tenant m = (m, None)"
  | s where "dget (sm_sessions m) sid = Some s" "tenant_ok tenant s"
      "get_session now sid tenant m = (put_session sid (s\<lparr>ss_last_accessed_at := now\<rparr>) m,
         Some (s\<lparr>ss_last_accessed_at := now\<rparr>))"
proof (cases "dget (sm_sessions m) sid")
  case None
  then show thesis by (intro that(1)) (simp add: get_session_def)
next
  case (Some s)
  then show thesis
    using that by (cases "tenant_ok tenant s") (simp_all add: get_session_def Let_def)
qed

subsection \<open>The machine\<close>

datatype session_op = SO_Get time string "string option"
  | SO_Create time string string string string "(string, json) dict" "(string, json) dict" "time option"
      "string option" "string list"
  | SO_Update time string "(string, json) dict" "string option" string
  | SO_Suspend time string string string "string option"
  | SO_Resume time string "string option" string
  | SO_Complete time string string "(string, json) dict" "string option"
  | SO_Delete time string "string option" string
  | SO_Snapshot time string string string "string option"
  | SO_Restore time string string string "string option" string
  | SO_Continue time string string string "string option" "string option" bool bool bool
  | SO_Expire time "string \<Rightarrow> string"

text \<open>New sessions get identifiers that are not in use: what \<open>uuid4\<close> is relied on for.\<close>

fun session_step :: "(string \<Rightarrow> string) \<Rightarrow> session_op \<Rightarrow> sessions \<Rightarrow> sessions" where
  "session_step safe (SO_Get now sid t) m = fst (get_session now sid t m)"
| "session_step safe (SO_Create now sid pid ty t st meta ttl parent tags) m =
     (if dget (sm_sessions m) sid = None
      then fst (create_session safe now sid pid ty t st meta ttl parent tags m) else m)"
| "session_step safe (SO_Update now sid us t actor) m = fst (update_state safe now sid us t actor m)"
| "session_step safe (SO_Suspend now pid sid reason t) m = fst (suspend_session safe now pid sid reason t m)"
| "session_step safe (SO_Resume now sid t actor) m = fst (resume_session safe now sid t actor m)"
| "session_step safe (SO_Complete now pid sid st t) m = fst (complete_session safe now pid sid st t m)"
| "session_step safe (SO_Delete now sid t actor) m = fst (delete_session safe now sid t actor m)"
| "session_step safe (SO_Snapshot now pid sid reason t) m = fst (create_snapshot now pid sid reason t m)"
| "session_step safe (SO_Restore now pid sid target t actor) m = fst (restore_snapshot safe now pid sid target t actor m)"
| "session_step safe (SO_Continue now sid pid prev ty t a b c) m =
     (if dget (sm_sessions m) sid = None
      then fst (resume_from_previous safe now sid pid prev ty t a b c m) else m)"
| "session_step safe (SO_Expire now pids) m = fst (cleanup_expired safe pids now m)"

subsection \<open>The invariant of the memory\<close>

definition snapshots_ok :: "sessions \<Rightarrow> string \<Rightarrow> snapshot list \<Rightarrow> bool" where
  "snapshots_ok m sid sns \<longleftrightarrow> dget (sm_sessions m) sid \<noteq> None \<and> sns \<noteq> [] \<and>
     (0 < sm_max_snapshots m \<longrightarrow> length sns \<le> sm_max_snapshots m) \<and> (\<forall>sn\<in>set sns. sn_session_id sn = sid)"

definition sessions_ok :: "sessions \<Rightarrow> bool" where
  "sessions_ok m \<longleftrightarrow>
     (\<forall>sid s. dget (sm_sessions m) sid = Some s \<longrightarrow> ss_session_id s = sid) \<and>
     (\<forall>t sid. sid \<in> set (dget_or (sm_tenants m) t []) \<longleftrightarrow>
        (\<exists>s. dget (sm_sessions m) sid = Some s \<and> ss_tenant_id s = t)) \<and>
     (\<forall>t. distinct (dget_or (sm_tenants m) t [])) \<and>
     (\<forall>sid sns. dget (sm_snapshots m) sid = Some sns \<longrightarrow> snapshots_ok m sid sns) \<and>
     length (sm_logs m) \<le> MAX_LOGS \<and> wf_dict (sm_sessions m)"

lemma ok_log [wf_intros]: "sessions_ok m \<Longrightarrow> sessions_ok (log_change now sid op fld old new actor reason m)"
  by (auto simp: sessions_ok_def snapshots_ok_def log_change_def Let_def MAX_LOGS_def length_last_n)

lemma ok_persist [wf_intros]: "sessions_ok m \<Longrightarrow> sessions_ok (persist_session safe s m)"
  by (simp add: sessions_ok_def snapshots_ok_def)

lemma ok_delete_persisted [wf_intros]: "sessions_ok m \<Longrightarrow> sessions_ok (delete_persisted_session safe sid m)"
  by (simp add: sessions_ok_def snapshots_ok_def)

lemma ok_log_updates [wf_intros]: "sessions_ok m \<Longrightarrow> sessions_ok (log_updates now sid actor old us m)"
  unfolding log_updates_def by (induction us arbitrary: m) (auto split: prod.split intro: ok_log)

lemma ok_put [wf_intros]:
  "sessions_ok m \<Longrightarrow> dget (sm_sessions m) sid = Some s \<Longrightarrow> ss_session_id s' = sid \<Longrightarrow>
   ss_tenant_id s' = ss_tenant_id s \<Longrightarrow> sessions_ok (put_session sid s' m)"
  by (auto simp: sessions_ok_def snapshots_ok_def dget_dset)

lemma ok_snapshot [wf_intros]:
  assumes "sessions_ok m" "dget (sm_sessions m) (ss_session_id s) \<noteq> None"
  shows "sessions_ok (fst (create_snapshot_internal now pid s reason m))"
proof -
  let ?m = "fst (create_snapshot_internal now pid s reason m)"
  have old: "snapshots_ok m sid sns" if "dget (sm_snapshots m) sid = Some sns" for sid sns
    using assms(1) that by (simp add: sessions_ok_def)
  have ids: "\<forall>sn\<in>set (dget_or (sm_snapshots m) sid []). sn_session_id sn = sid" for sid
    using old [of sid] by (cases "dget (sm_snapshots m) sid") (auto simp: dget_or_def snapshots_ok_def)
  have "snapshots_ok ?m sid sns" if "dget (sm_snapshots ?m) sid = Some sns" for sid sns
  proof (cases "sid = ss_session_id s")
    case False
    then show ?thesis using that old [of sid sns] by (simp add: dget_snapshots_after snapshots_ok_def)
  next
    case True
    then show ?thesis
      using that ids [of sid] assms(2) set_last_n
      by (auto simp: dget_snapshots_after snapshots_ok_def Let_def length_last_n last_n_def
          dest!: in_set_dropD split: if_splits)
  qed
  then show ?thesis using assms(1) by (simp add: sessions_ok_def)
qed

lemma ok_create:
  assumes ok: "sessions_ok m" and new: "dget (sm_sessions m) sid = None"
  shows "sessions_ok (fst (create_session safe now sid pid ty t st meta ttl parent tags m))"
proof -
  have add: "sessions_ok (add_to_tenant t sid (put_session sid s m))" if "ss_session_id s = sid" "ss_tenant_id s = t" for s
    using ok new that by (auto simp: sessions_ok_def snapshots_ok_def add_to_tenant_def dget_dset dget_or_def)
  then show ?thesis
    unfolding create_session_def Let_def fst_conv
    by (intro ok_persist ok_snapshot ok_log add) (simp_all add: dget_dset)
qed

lemma session_id_of: "sessions_ok m \<Longrightarrow> dget (sm_sessions m) sid = Some s \<Longrightarrow> ss_session_id s = sid"
  by (simp add: sessions_ok_def)

text \<open>
  An operation on one session: it fails and changes nothing, or it touches the session and goes on
  with it. Each operation is unfolded by this rule once for every fact about it.
\<close>

lemma ok_touch:
  "sessions_ok m \<Longrightarrow> dget (sm_sessions m) sid = Some s \<Longrightarrow>
   sessions_ok (put_session sid (s\<lparr>ss_last_accessed_at := now\<rparr>) m)"
  by (rule ok_put) (simp_all add: session_id_of)

lemma ok_get: "sessions_ok m \<Longrightarrow> sessions_ok (fst (get_session now sid t m))"
  by (rule get_session_cases [of now sid t m]) (simp_all add: ok_touch)

lemma ok_ops:
  assumes ok: "sessions_ok m"
  shows "sessions_ok (fst (update_state safe now sid us t actor m))"
    "sessions_ok (fst (suspend_session safe now pid sid reason t m))"
    "sessions_ok (fst (resume_session safe now sid t actor m))"
    "sessions_ok (fst (complete_session safe now pid sid st t m))"
    "sessions_ok (fst (create_snapshot now pid sid reason t m))"
    "sessions_ok (fst (restore_snapshot safe now pid sid target t actor m))"
  by (rule get_session_cases [of now sid t m];
      auto simp: ok session_id_of [OF ok] update_state_def suspend_session_def resume_session_def
        complete_session_def create_snapshot_def restore_snapshot_def Let_def dget_dset
        intro!: ok_persist ok_log ok_log_updates ok_snapshot ok_touch [OF ok]
        intro: ok_put [OF ok_touch [OF ok]] ok_put [OF ok_snapshot [OF ok_touch [OF ok]]]
        split: option.split)+

lemma ok_delete: "sessions_ok m \<Longrightarrow> sessions_ok (fst (delete_session safe now sid t actor m))"
proof (cases "\<exists>s. dget (sm_sessions m) sid = Some s \<and> tenant_ok t s")
  case False
  assume "sessions_ok m"
  then show ?thesis using False by (auto simp: delete_session_def split: option.split)
next
  case True
  assume ok: "sessions_ok m"
  obtain s where s: "dget (sm_sessions m) sid = Some s" "tenant_ok t s" using True by blast
  have mem: "sid \<in> set (dget_or (sm_tenants m) (ss_tenant_id s) [])"
    using ok s(1) by (auto simp: sessions_ok_def)
  then obtain ids where ids: "dget (sm_tenants m) (ss_tenant_id s) = Some ids"
    by (cases "dget (sm_tenants m) (ss_tenant_id s)") (simp_all add: dget_or_def)
  have "sessions_ok (m\<lparr>sm_sessions := ddel sid (sm_sessions m), sm_snapshots := ddel sid (sm_snapshots m),
      sm_tenants := dset (ss_tenant_id s) (removeAll sid ids) (sm_tenants m)\<rparr>)"
  proof -
    have idx: "x \<in> set (dget_or (sm_tenants m) u []) \<longleftrightarrow>
        (\<exists>y. dget (sm_sessions m) x = Some y \<and> ss_tenant_id y = u)" for x u
      using ok by (simp add: sessions_ok_def)
    have i: "x \<in> set ids \<longleftrightarrow> (\<exists>y. dget (sm_sessions m) x = Some y \<and> ss_tenant_id y = ss_tenant_id s)" for x
      using idx [of x "ss_tenant_id s"] ids by (simp add: dget_or_def)
    have d: "distinct (dget_or (sm_tenants m) u [])" for u using ok by (simp add: sessions_ok_def)
    have d': "distinct ids" using d [of "ss_tenant_id s"] ids by (simp add: dget_or_def)
    have idx': "x \<in> set (dget_or (dset (ss_tenant_id s) (removeAll sid ids) (sm_tenants m)) u []) \<longleftrightarrow>
        (\<exists>y. dget (ddel sid (sm_sessions m)) x = Some y \<and> ss_tenant_id y = u)" for x u
    proof (cases "u = ss_tenant_id s")
      case True
      then show ?thesis using i [of x] by (auto simp: dget_or_def dget_dset dget_ddel)
    next
      case False
      then have "dget_or (dset (ss_tenant_id s) (removeAll sid ids) (sm_tenants m)) u [] = dget_or (sm_tenants m) u []"
        by (simp add: dget_or_def dget_dset)
      then show ?thesis using idx [of x u] False s(1) by (auto simp: dget_ddel)
    qed
    have dd: "distinct (dget_or (dset (ss_tenant_id s) (removeAll sid ids) (sm_tenants m)) u [])" for u
      using d [of u] d' by (simp add: dget_or_def dget_dset distinct_removeAll)
    have sn: "snapshots_ok m x sns" if "dget (sm_snapshots m) x = Some sns" for x sns
      using ok that by (simp add: sessions_ok_def)
    have ids: "ss_session_id y = x" if "dget (sm_sessions m) x = Some y" for x y
      using ok that by (rule session_id_of)
    have rest: "length (sm_logs m) \<le> MAX_LOGS" "wf_dict (sm_sessions m)" using ok by (simp_all add: sessions_ok_def)
    show ?thesis
      unfolding sessions_ok_def snapshots_ok_def
      by (intro conjI allI impI)
        (use idx' dd rest sn in \<open>simp_all add: dget_ddel ids snapshots_ok_def split: if_splits\<close>)
  qed
  then show ?thesis using s ids
    by (simp add: delete_session_def Let_def ok_log ok_delete_persisted)
qed

lemma ok_continue:
  "sessions_ok m \<Longrightarrow> dget (sm_sessions m) sid = None \<Longrightarrow>
   sessions_ok (fst (resume_from_previous safe now sid pid prev ty t a b c m))"
  by (auto simp: resume_from_previous_def Let_def ok_create split: option.split)

lemma expire_frame:
  "sm_sessions (expire_session safe now pid sid s m) =
     dset sid (s\<lparr>ss_status := ''expired'', ss_updated_at := now\<rparr>) (sm_sessions m)"
  "sm_tenants (expire_session safe now pid sid s m) = sm_tenants m"
  "sm_storage_dir (expire_session safe now pid sid s m) = sm_storage_dir m"
  "sm_disk_ok (expire_session safe now pid sid s m) = sm_disk_ok m"
  by (simp_all add: expire_session_def Let_def)

lemma ok_expire:
  "sessions_ok m \<Longrightarrow> dget (sm_sessions m) sid = Some s \<Longrightarrow> sessions_ok (expire_session safe now pid sid s m)"
  unfolding expire_session_def Let_def
  by (intro ok_persist ok_log, rule ok_put [of _ _ s]) (auto simp: session_id_of intro: ok_snapshot)

text \<open>The loop works on the pairs the table had at the start; each is still there when it is reached.\<close>

lemma cleanup_loop_induct:
  assumes "P m" "\<forall>(sid, s)\<in>set rest. dget (sm_sessions m) sid = Some s" "distinct (map fst rest)"
    and step: "\<And>m sid s. P m \<Longrightarrow> dget (sm_sessions m) sid = Some s \<Longrightarrow> is_expired now s \<Longrightarrow>
      P (expire_session safe now (pids sid) sid s m)"
  shows "P (fst (cleanup_loop safe pids now rest m))"
  using assms(1-3)
proof (induction rest arbitrary: m)
  case Nil
  then show ?case by simp
next
  case (Cons p rest)
  obtain sid s where p: "p = (sid, s)" by fastforce
  show ?case
  proof (cases "is_expired now s")
    case False
    then show ?thesis using Cons by (simp add: p)
  next
    case True
    let ?m = "expire_session safe now (pids sid) sid s m"
    have "P ?m" using step Cons.prems True by (simp add: p)
    moreover have "\<forall>(sid', s')\<in>set rest. dget (sm_sessions ?m) sid' = Some s'"
    proof (clarify)
      fix sid' s' assume m: "(sid', s') \<in> set rest"
      then have "sid' \<noteq> sid" using Cons.prems(3) by (force simp: p)
      moreover have "dget (sm_sessions m) sid' = Some s'" using Cons.prems(2) m by auto
      ultimately show "dget (sm_sessions ?m) sid' = Some s'" by (simp add: expire_frame dget_dset)
    qed
    ultimately show ?thesis using Cons True by (simp add: p)
  qed
qed

lemma cleanup_induct:
  assumes "P m" "wf_dict (sm_sessions m)"
    and "\<And>m sid s. P m \<Longrightarrow> dget (sm_sessions m) sid = Some s \<Longrightarrow> is_expired now s \<Longrightarrow>
      P (expire_session safe now (pids sid) sid s m)"
  shows "P (fst (cleanup_expired safe pids now m))"
  unfolding cleanup_expired_def
  by (rule cleanup_loop_induct [of P, OF assms(1) _ _ assms(3)])
    (use assms(2) in \<open>auto simp: wf_dict_def\<close>)

lemma ok_cleanup:
  assumes "sessions_ok m"
  shows "sessions_ok (fst (cleanup_expired safe pids now m))"
proof (rule cleanup_induct [of sessions_ok])
  show "wf_dict (sm_sessions m)" using assms by (simp add: sessions_ok_def)
qed (use assms ok_expire in auto)

lemma ok_step:
  assumes "sessions_ok m"
  shows "sessions_ok (session_step safe op m)"
  by (cases op) (simp_all add: assms ok_get ok_create ok_ops ok_delete ok_continue ok_cleanup)

subsection \<open>What the operations change\<close>

text \<open>Everything but one session, its snapshots and the log is the same.\<close>

definition only_session :: "string \<Rightarrow> sessions \<Rightarrow> sessions \<Rightarrow> bool" where
  "only_session sid m m' \<longleftrightarrow> (\<forall>x. x \<noteq> sid \<longrightarrow>
     dget (sm_sessions m') x = dget (sm_sessions m) x \<and> dget (sm_snapshots m') x = dget (sm_snapshots m) x)"

lemma only_session_touch [simp]: "only_session sid m (put_session sid s m)"
  by (simp add: only_session_def dget_dset)

lemma only_session_ops:
  assumes ok: "sessions_ok m"
  shows "only_session sid m (fst (get_session now sid t m))"
    "only_session sid m (fst (update_state safe now sid us t actor m))"
    "only_session sid m (fst (suspend_session safe now pid sid reason t m))"
    "only_session sid m (fst (resume_session safe now sid t actor m))"
    "only_session sid m (fst (complete_session safe now pid sid st t m))"
    "only_session sid m (fst (create_snapshot now pid sid reason t m))"
    "only_session sid m (fst (restore_snapshot safe now pid sid target t actor m))"
    "only_session sid m (fst (delete_session safe now sid t actor m))"
  by (rule get_session_cases [of now sid t m];
      auto simp: session_id_of [OF ok] only_session_def update_state_def suspend_session_def resume_session_def
        complete_session_def create_snapshot_def restore_snapshot_def delete_session_def Let_def dget_dset
        dget_ddel dget_snapshots_after split: option.split)+

lemma only_session_create:
  "only_session sid m (fst (create_session safe now sid pid ty t st meta ttl parent tags m))"
  by (simp add: create_session_def Let_def only_session_def dget_dset dget_snapshots_after)

lemma foreign_unchanged:
  assumes "dget (sm_sessions m) sid = Some s" "\<not> tenant_ok t s"
  shows "fst (get_session now sid t m) = m"
    "update_state safe now sid us t actor m = (m, None)"
    "suspend_session safe now pid sid reason t m = (m, None)"
    "resume_session safe now sid t actor m = (m, None)"
    "complete_session safe now pid sid st t m = (m, None)"
    "create_snapshot now pid sid reason t m = (m, None)"
    "restore_snapshot safe now pid sid target t actor m = (m, None)"
    "delete_session safe now sid t actor m = (m, False)"
    "resume_from_previous safe now sid' pid sid ty t a b c m = (m, None)"
    "list_snapshots now sid t m = (m, [])"
  using assms by (simp_all add: get_session_def update_state_def suspend_session_def resume_session_def
      complete_session_def create_snapshot_def restore_snapshot_def delete_session_def
      resume_from_previous_def list_snapshots_def)

text \<open>The operations a client that names its tenant makes.\<close>

fun made_by :: "string \<Rightarrow> session_op \<Rightarrow> bool" where
  "made_by t (SO_Get now sid u) \<longleftrightarrow> u = Some t"
| "made_by t (SO_Create now sid pid ty u st meta ttl parent tags) \<longleftrightarrow> u = t"
| "made_by t (SO_Update now sid us u actor) \<longleftrightarrow> u = Some t"
| "made_by t (SO_Suspend now pid sid reason u) \<longleftrightarrow> u = Some t"
| "made_by t (SO_Resume now sid u actor) \<longleftrightarrow> u = Some t"
| "made_by t (SO_Complete now pid sid st u) \<longleftrightarrow> u = Some t"
| "made_by t (SO_Delete now sid u actor) \<longleftrightarrow> u = Some t"
| "made_by t (SO_Snapshot now pid sid reason u) \<longleftrightarrow> u = Some t"
| "made_by t (SO_Restore now pid sid target u actor) \<longleftrightarrow> u = Some t"
| "made_by t (SO_Continue now sid pid prev ty u a b c) \<longleftrightarrow> u = Some t"
| "made_by t (SO_Expire now pids) \<longleftrightarrow> False"

lemma isolated_step:
  assumes ok: "sessions_ok m" and "made_by t op"
    and s: "dget (sm_sessions m) sid = Some s" "ss_tenant_id s \<noteq> t"
  shows "dget (sm_sessions (session_step safe op m)) sid = Some s \<and>
    dget (sm_snapshots (session_step safe op m)) sid = dget (sm_snapshots m) sid"
proof -
  have bad: "\<not> tenant_ok (Some t) s" using s(2) by (simp add: tenant_ok_def)
  note f = foreign_unchanged [OF s(1) bad]
  have keep: "dget (sm_sessions m') sid = Some s \<and> dget (sm_snapshots m') sid = dget (sm_snapshots m) sid"
    if "only_session x m m'" "x \<noteq> sid" for x m'
    using that s(1) by (auto simp: only_session_def)
  note only = only_session_ops [OF ok]
  show ?thesis
  proof (cases op)
    case (SO_Create now x pid ty u st meta ttl parent tags)
    show ?thesis
    proof (cases "dget (sm_sessions m) x = None")
      case True
      then have "x \<noteq> sid" using s(1) by auto
      then show ?thesis using True keep [OF only_session_create] by (simp add: SO_Create)
    next
      case False
      then show ?thesis using s(1) by (simp only: SO_Create session_step.simps if_False)
    qed
  next
    case (SO_Continue now x pid prev ty u a b c)
    have "only_session x m (fst (resume_from_previous safe now x pid prev ty u a b c m))"
      by (auto simp: resume_from_previous_def Let_def only_session_create split: option.split)
        (simp_all add: only_session_def)
    then show ?thesis using s(1) keep [of x] by (cases "x = sid") (simp_all add: SO_Continue)
  next
    case (SO_Get now x u)
    then show ?thesis using assms(2) s(1) f(1) keep [OF only(1)] by (cases "x = sid") simp_all
  next
    case (SO_Update now x us u actor)
    then show ?thesis using assms(2) s(1) f(2) keep [OF only(2)] by (cases "x = sid") simp_all
  next
    case (SO_Suspend now pid x reason u)
    then show ?thesis using assms(2) s(1) f(3) keep [OF only(3)] by (cases "x = sid") simp_all
  next
    case (SO_Resume now x u actor)
    then show ?thesis using assms(2) s(1) f(4) keep [OF only(4)] by (cases "x = sid") simp_all
  next
    case (SO_Complete now pid x st u)
    then show ?thesis using assms(2) s(1) f(5) keep [OF only(5)] by (cases "x = sid") simp_all
  next
    case (SO_Snapshot now pid x reason u)
    then show ?thesis using assms(2) s(1) f(6) keep [OF only(6)] by (cases "x = sid") simp_all
  next
    case (SO_Restore now pid x target u actor)
    then show ?thesis using assms(2) s(1) f(7) keep [OF only(7)] by (cases "x = sid") simp_all
  next
    case (SO_Delete now x u actor)
    then show ?thesis using assms(2) s(1) f(8) keep [OF only(8)] by (cases "x = sid") simp_all
  qed (use assms(2) in simp)
qed

subsection \<open>The files\<close>

definition unaccessed :: "session \<Rightarrow> session" where
  "unaccessed s = s\<lparr>ss_last_accessed_at := 0\<rparr>"

text \<open>
  Every session is in its file up to the time of the last access, which is not saved at once, and
  there are no other files.
\<close>

definition files_ok :: "(string \<Rightarrow> string) \<Rightarrow> sessions \<Rightarrow> bool" where
  "files_ok safe m \<longleftrightarrow> wf_dict (sm_files m) \<and>
     (\<forall>sid s. dget (sm_sessions m) sid = Some s \<longrightarrow>
        (\<exists>s'. dget (sm_files m) (safe sid) = Some (Doc s') \<and> unaccessed s' = unaccessed s)) \<and>
     (\<forall>name f. dget (sm_files m) name = Some f \<longrightarrow>
        (\<exists>sid s. name = safe sid \<and> dget (sm_sessions m) sid = Some s))"

definition stores :: "sessions \<Rightarrow> bool" where
  "stores m \<longleftrightarrow> str_or_none (sm_storage_dir m) \<noteq> None \<and> sm_disk_ok m"

lemma persist_files: "stores m \<Longrightarrow>
    sm_files (persist_session safe s m) = dset (safe (ss_session_id s)) (Doc s) (sm_files m)"
  by (auto simp: persist_session_def stores_def)

lemma unaccessed_simps [simp]: "unaccessed (s\<lparr>ss_last_accessed_at := t\<rparr>) = unaccessed s"
  by (simp add: unaccessed_def)

lemma files_okD:
  assumes "files_ok safe m"
  shows "wf_dict (sm_files m)"
    "dget (sm_sessions m) sid = Some s \<Longrightarrow>
       \<exists>s'. dget (sm_files m) (safe sid) = Some (Doc s') \<and> unaccessed s' = unaccessed s"
    "dget (sm_files m) name = Some f \<Longrightarrow> \<exists>sid s. name = safe sid \<and> dget (sm_sessions m) sid = Some s"
  using assms unfolding files_ok_def by blast+

text \<open>No other session of the table has the file name of \<open>sid\<close>.\<close>

definition own_name :: "(string \<Rightarrow> string) \<Rightarrow> string \<Rightarrow> sessions \<Rightarrow> bool" where
  "own_name safe sid m \<longleftrightarrow> (\<forall>x. dget (sm_sessions m) x \<noteq> None \<longrightarrow> safe x = safe sid \<longrightarrow> x = sid)"

text \<open>All sessions of the table have identifiers in \<open>U\<close>.\<close>

definition ids_in :: "string set \<Rightarrow> sessions \<Rightarrow> bool" where
  "ids_in U m \<longleftrightarrow> (\<forall>x. dget (sm_sessions m) x \<noteq> None \<longrightarrow> x \<in> U)"

lemma own_nameI: "ids_in U m \<Longrightarrow> inj_on safe U \<Longrightarrow> sid \<in> U \<Longrightarrow> own_name safe sid m"
  by (auto simp: own_name_def ids_in_def dest: inj_onD)

text \<open>A session that is set and written.\<close>

lemma files_ok_written:
  assumes ok: "files_ok safe m" and own: "own_name safe sid m"
    and m': "sm_sessions m' = dset sid s' (sm_sessions m)" "sm_files m' = dset (safe sid) (Doc s') (sm_files m)"
  shows "files_ok safe m'"
  unfolding files_ok_def
proof (intro conjI allI impI)
  show "wf_dict (sm_files m')" using files_okD(1) [OF ok] m'(2) by simp
  show "\<exists>s'. dget (sm_files m') (safe x) = Some (Doc s') \<and> unaccessed s' = unaccessed s"
    if "dget (sm_sessions m') x = Some s" for x s
    using that files_okD(2) [OF ok] own by (cases "x = sid") (auto simp: m' dget_dset own_name_def)
  show "\<exists>x s. name = safe x \<and> dget (sm_sessions m') x = Some s"
    if f: "dget (sm_files m') name = Some f" for name f
  proof (cases "name = safe sid")
    case True
    then show ?thesis by (auto simp: m' dget_dset)
  next
    case False
    then have "dget (sm_files m) name = Some f" using f by (simp add: m' dget_dset)
    from files_okD(3) [OF ok this] obtain x s where "name = safe x" "dget (sm_sessions m) x = Some s"
      by blast
    then show ?thesis by (auto simp: m' dget_dset)
  qed
qed

lemma files_ok_touch:
  assumes ok: "files_ok safe m" and s: "dget (sm_sessions m) sid = Some s" "unaccessed s' = unaccessed s"
    and m': "sm_sessions m' = dset sid s' (sm_sessions m)" "sm_files m' = sm_files m"
  shows "files_ok safe m'"
  unfolding files_ok_def
proof (intro conjI allI impI)
  show "wf_dict (sm_files m')" using files_okD(1) [OF ok] m'(2) by simp
  show "\<exists>s'. dget (sm_files m') (safe x) = Some (Doc s') \<and> unaccessed s' = unaccessed y"
    if "dget (sm_sessions m') x = Some y" for x y
    using that files_okD(2) [OF ok] s by (cases "x = sid") (auto simp: m' dget_dset)
  show "\<exists>x s. name = safe x \<and> dget (sm_sessions m') x = Some s"
    if f: "dget (sm_files m') name = Some f" for name f
  proof -
    have "dget (sm_files m) name = Some f" using f by (simp add: m')
    from files_okD(3) [OF ok this] obtain x s where "name = safe x" "dget (sm_sessions m) x = Some s"
      by blast
    then show ?thesis by (auto simp: m' dget_dset)
  qed
qed

lemma files_ok_deleted:
  assumes ok: "files_ok safe m" and own: "own_name safe sid m"
    and m': "sm_sessions m' = ddel sid (sm_sessions m)" "sm_files m' = ddel (safe sid) (sm_files m)"
  shows "files_ok safe m'"
  unfolding files_ok_def
proof (intro conjI allI impI)
  show "wf_dict (sm_files m')" using files_okD(1) [OF ok] m'(2) by simp
  show "\<exists>s'. dget (sm_files m') (safe x) = Some (Doc s') \<and> unaccessed s' = unaccessed s"
    if "dget (sm_sessions m') x = Some s" for x s
    using that files_okD(2) [OF ok] own by (cases "x = sid") (auto simp: m' dget_ddel own_name_def)
  show "\<exists>x s. name = safe x \<and> dget (sm_sessions m') x = Some s"
    if f: "dget (sm_files m') name = Some f" for name f
  proof -
    have "name \<noteq> safe sid" "dget (sm_files m) name = Some f"
      using f by (auto simp: m' dget_ddel split: if_splits)
    moreover from this obtain x s where "name = safe x" "dget (sm_sessions m) x = Some s"
      using files_okD(3) [OF ok] by blast
    ultimately show ?thesis by (auto simp: m' dget_ddel)
  qed
qed

lemma files_ok_same:
  "files_ok safe m \<Longrightarrow> sm_sessions m' = sm_sessions m \<Longrightarrow> sm_files m' = sm_files m \<Longrightarrow> files_ok safe m'"
  by (simp add: files_ok_def)

lemma stores_frame [simp]:
  "stores (put_session sid s m) = stores m" "stores (log_change now sid op fld old new actor reason m) = stores m"
  "stores (fst (create_snapshot_internal now pid s reason m)) = stores m"
  "stores (log_updates now sid actor olds us m) = stores m" "stores (add_to_tenant t sid m) = stores m"
  by (simp_all add: stores_def)

text \<open>What the operations on one session do to the table and the files.\<close>

lemma session_op_effect:
  assumes ok: "sessions_ok m" and st: "stores m"
    and r: "r \<in> {fst (update_state safe now sid us t actor m), fst (suspend_session safe now pid sid reason t m),
      fst (resume_session safe now sid t actor m), fst (complete_session safe now pid sid fin t m),
      fst (restore_snapshot safe now pid sid target t actor m)}"
  shows "(r = m \<or> (\<exists>s. dget (sm_sessions m) sid = Some s \<and>
        sm_sessions r = dset sid (s\<lparr>ss_last_accessed_at := now\<rparr>) (sm_sessions m) \<and> sm_files r = sm_files m)) \<or>
    (\<exists>s'. dget (sm_sessions m) sid \<noteq> None \<and> sm_sessions r = dset sid s' (sm_sessions m) \<and> sm_files r = dset (safe sid) (Doc s') (sm_files m))"
proof (rule get_session_cases [of now sid t m])
  assume "get_session now sid t m = (m, None)"
  then show ?thesis using r
    by (auto simp: update_state_def suspend_session_def resume_session_def complete_session_def restore_snapshot_def)
next
  fix s assume s: "dget (sm_sessions m) sid = Some s" and g: "get_session now sid t m =
      (put_session sid (s\<lparr>ss_last_accessed_at := now\<rparr>) m, Some (s\<lparr>ss_last_accessed_at := now\<rparr>))"
  have sid: "ss_session_id s = sid" using ok s by (rule session_id_of)
  consider "r = fst (update_state safe now sid us t actor m)" | "r = fst (suspend_session safe now pid sid reason t m)"
    | "r = fst (resume_session safe now sid t actor m)" | "r = fst (complete_session safe now pid sid fin t m)"
    | "r = fst (restore_snapshot safe now pid sid target t actor m)" using r by blast
  then show ?thesis
  proof cases
    case 5
    then show ?thesis
      using g s st sid by (auto simp: restore_snapshot_def Let_def persist_files split: option.splits)
  qed (use g s st sid in \<open>auto simp: update_state_def suspend_session_def resume_session_def
      complete_session_def Let_def persist_files\<close>)
qed

lemma files_ok_effect:
  assumes ok: "sessions_ok m" "stores m" "files_ok safe m" "ids_in U m" "inj_on safe U"
    and r: "r \<in> {fst (update_state safe now sid us t actor m), fst (suspend_session safe now pid sid reason t m),
      fst (resume_session safe now sid t actor m), fst (complete_session safe now pid sid fin t m),
      fst (restore_snapshot safe now pid sid target t actor m)}"
  shows "files_ok safe r"
  using session_op_effect [OF ok(1,2) r]
proof (elim disjE exE conjE)
  show "files_ok safe r" if "r = m" using ok(3) that by simp
  show "files_ok safe r" if "dget (sm_sessions m) sid = Some s"
    "sm_sessions r = dset sid (s\<lparr>ss_last_accessed_at := now\<rparr>) (sm_sessions m)" "sm_files r = sm_files m" for s
    by (rule files_ok_touch [OF ok(3) that(1) _ that(2,3)]) simp
  show "files_ok safe r" if "dget (sm_sessions m) sid \<noteq> None" "sm_sessions r = dset sid s' (sm_sessions m)"
    "sm_files r = dset (safe sid) (Doc s') (sm_files m)" for s'
  proof -
    have "sid \<in> U" using that(1) ok(4) by (simp add: ids_in_def)
    from files_ok_written [OF ok(3) own_nameI [OF ok(4,5) this] that(2,3)] show ?thesis .
  qed
qed

lemma files_ok_ops:
  assumes "sessions_ok m" "stores m" "files_ok safe m" "ids_in U m" "inj_on safe U"
  shows "files_ok safe (fst (update_state safe now sid us t actor m))"
    "files_ok safe (fst (suspend_session safe now pid sid reason t m))"
    "files_ok safe (fst (resume_session safe now sid t actor m))"
    "files_ok safe (fst (complete_session safe now pid sid fin t m))"
    "files_ok safe (fst (restore_snapshot safe now pid sid target t actor m))"
  by (rule files_ok_effect [OF assms], blast)+

lemma files_ok_get:
  assumes "files_ok safe m"
  shows "files_ok safe (fst (get_session now sid t m))"
proof (rule get_session_cases [of now sid t m])
  fix s assume s: "dget (sm_sessions m) sid = Some s" "get_session now sid t m =
      (put_session sid (s\<lparr>ss_last_accessed_at := now\<rparr>) m, Some (s\<lparr>ss_last_accessed_at := now\<rparr>))"
  show ?thesis by (rule files_ok_touch [OF assms s(1)]) (simp_all add: s(2))
qed (use assms in simp)

lemma files_ok_snapshot:
  assumes "files_ok safe m"
  shows "files_ok safe (fst (create_snapshot now pid sid reason t m))"
proof (rule get_session_cases [of now sid t m])
  fix s assume s: "dget (sm_sessions m) sid = Some s" "get_session now sid t m =
      (put_session sid (s\<lparr>ss_last_accessed_at := now\<rparr>) m, Some (s\<lparr>ss_last_accessed_at := now\<rparr>))"
  show ?thesis by (rule files_ok_touch [OF assms s(1)]) (simp_all add: s(2) create_snapshot_def)
qed (use assms in \<open>simp add: create_snapshot_def\<close>)

lemma files_ok_create:
  assumes "files_ok safe m" "own_name safe sid m" "stores m"
  shows "files_ok safe (fst (create_session safe now sid pid ty t st meta ttl parent tags m))"
  by (rule files_ok_written [OF assms(1,2)])
    (use assms(3) in \<open>simp_all add: create_session_def Let_def persist_files\<close>)

lemma files_ok_continue:
  assumes "files_ok safe m" "own_name safe sid m" "stores m"
  shows "files_ok safe (fst (resume_from_previous safe now sid pid prev ty t a b c m))"
  using assms by (auto simp: resume_from_previous_def Let_def files_ok_create split: option.split)

lemma files_ok_delete:
  assumes "files_ok safe m" "ids_in U m" "inj_on safe U" "stores m"
  shows "files_ok safe (fst (delete_session safe now sid t actor m))"
proof (cases "\<exists>s. dget (sm_sessions m) sid = Some s \<and> tenant_ok t s")
  case False
  then show ?thesis using assms(1) by (auto simp: delete_session_def split: option.split)
next
  case True
  then obtain s where s: "dget (sm_sessions m) sid = Some s" "tenant_ok t s" by blast
  then have "sid \<in> U" using assms(2) by (simp add: ids_in_def)
  from s show ?thesis
    by (intro files_ok_deleted [OF assms(1) own_nameI [OF assms(2,3) \<open>sid \<in> U\<close>]])
      (use assms(4) in \<open>auto simp: delete_session_def Let_def delete_persisted_session_def stores_def\<close>)
qed

lemma files_ok_expire:
  assumes "files_ok safe m" "own_name safe sid m" "stores m" "ss_session_id s = sid"
  shows "files_ok safe (expire_session safe now pid sid s m)"
  by (rule files_ok_written [OF assms(1,2)])
    (use assms(3,4) in \<open>simp_all add: expire_session_def Let_def persist_files\<close>)

lemma stores_step: "stores (session_step safe op m) = stores m"
proof (cases op)
  case (SO_Expire now pids)
  have one: "stores (expire_session safe now pid sid s m) = stores m" for pid sid s m
    by (simp add: stores_def expire_frame)
  have "stores (fst (cleanup_loop safe pids now rest m)) = stores m" for rest m
    by (induction rest arbitrary: m) (simp_all add: one split_paired_all)
  then show ?thesis by (simp add: SO_Expire cleanup_expired_def)
qed (auto simp: stores_def get_session_def create_session_def update_state_def suspend_session_def
    resume_session_def complete_session_def delete_session_def create_snapshot_def restore_snapshot_def
    resume_from_previous_def Let_def split: option.split)

fun created :: "session_op \<Rightarrow> string set" where
  "created (SO_Create now sid pid ty t st meta ttl parent tags) = {sid}"
| "created (SO_Continue now sid pid prev ty t a b c) = {sid}"
| "created op = {}"

lemma ids_in_step: "sessions_ok m \<Longrightarrow> ids_in U m \<Longrightarrow> created op \<subseteq> U \<Longrightarrow> ids_in U (session_step safe op m)"
proof (cases op)
  case (SO_Expire now pids)
  assume m: "sessions_ok m" "ids_in U m"
  have "ids_in U (expire_session safe now pid sid s x)" if "ids_in U x" "dget (sm_sessions x) sid = Some s" for pid sid s x
    using that by (simp add: ids_in_def expire_session_def Let_def dget_dset)
  then have "ids_in U (fst (cleanup_expired safe pids now m))"
    by (intro cleanup_induct [of "ids_in U"]) (use m in \<open>auto simp: sessions_ok_def\<close>)
  then show ?thesis by (simp add: SO_Expire)
qed (auto simp: ids_in_def get_session_def create_session_def update_state_def suspend_session_def
    resume_session_def complete_session_def delete_session_def create_snapshot_def restore_snapshot_def
    resume_from_previous_def Let_def dget_dset dget_ddel split: option.splits if_splits)

lemma files_ok_step:
  assumes ok: "sessions_ok m" and f: "files_ok safe m" "ids_in U m" "inj_on safe U" "stores m" and new: "created op \<subseteq> U"
  shows "files_ok safe (session_step safe op m)"
proof (cases op)
  case (SO_Expire now pids)
  have one: "sessions_ok y \<and> files_ok safe y \<and> stores y \<and> ids_in U y"
    if "sessions_ok x \<and> files_ok safe x \<and> stores x \<and> ids_in U x" "dget (sm_sessions x) sid = Some s" "y = expire_session safe now (pids sid) sid s x" for x y sid s
  proof -
    have "sid \<in> U" using that(1,2) by (simp add: ids_in_def)
    then have "ids_in U y" using that by (simp add: ids_in_def expire_session_def Let_def dget_dset)
    moreover have "own_name safe sid x" using that(1) own_nameI [OF _ f(3) \<open>sid \<in> U\<close>] by blast
    ultimately show ?thesis using that ok_expire files_ok_expire session_id_of by (auto simp: stores_def expire_frame)
  qed
  have "(\<lambda>m. sessions_ok m \<and> files_ok safe m \<and> stores m \<and> ids_in U m) (fst (cleanup_expired safe pids now m))"
  proof (rule cleanup_induct [of "\<lambda>m. sessions_ok m \<and> files_ok safe m \<and> stores m \<and> ids_in U m"])
    show "wf_dict (sm_sessions m)" using ok by (simp add: sessions_ok_def)
  qed (use ok f one in blast)+
  then show ?thesis by (simp add: SO_Expire)
next
  case (SO_Create now sid pid ty t st meta ttl parent tags)
  then show ?thesis using f new files_ok_create own_nameI by simp
next
  case (SO_Continue now sid pid prev ty t a b c)
  then show ?thesis using f new files_ok_continue own_nameI by simp
next
  case (SO_Get now sid t)
  then show ?thesis using f files_ok_get by simp
next
  case (SO_Snapshot now pid sid reason t)
  then show ?thesis using f files_ok_snapshot by simp
next
  case (SO_Delete now sid t actor)
  then show ?thesis using f files_ok_delete by simp
qed (simp_all add: files_ok_ops [OF ok f(4,1,2,3)])

text \<open>A manager starts on an empty directory.\<close>

definition session_init :: "sessions \<Rightarrow> bool" where
  "session_init m \<longleftrightarrow> (\<exists>dir ttl n audit ok. m = init_sessions dir ttl n audit [] ok)"

lemma session_init_fresh: "session_init (init_sessions dir ttl n audit [] ok)"
  unfolding session_init_def by blast

interpretation session: machine session_init "session_step safe" sessions_ok for safe :: "string \<Rightarrow> string"
proof unfold_locales
  show "sessions_ok m" if "session_init m" for m
    using that by (auto simp: session_init_def init_sessions_def sessions_ok_def dget_or_def Let_def split: if_splits)
  show "sessions_ok (session_step safe op m)" if "sessions_ok m" for op m
    using that by (rule ok_step)
qed

text \<open>A run in which the identifiers of the sessions have different file names.\<close>

lemma files_ok_run:
  assumes "session_init m" "inj_on safe U" "\<forall>op\<in>set es. created op \<subseteq> U" "stores m"
  shows "files_ok safe (fold (session_step safe) es m) \<and> sessions_ok (fold (session_step safe) es m)"
proof -
  have start: "sessions_ok m" "files_ok safe m" "ids_in U m"
    using assms(1) session.inv_init by (auto simp: session_init_def init_sessions_def files_ok_def ids_in_def Let_def split: if_splits)
  have "files_ok safe (fold (session_step safe) es m) \<and> sessions_ok (fold (session_step safe) es m)"
    if "sessions_ok m" "files_ok safe m" "ids_in U m" "stores m" "\<forall>op\<in>set es. created op \<subseteq> U" for es m
    using that
  proof (induction es arbitrary: m)
    case (Cons op es)
    have "created op \<subseteq> U" using Cons.prems(5) by simp
    then show ?case using Cons.IH [of "session_step safe op m"] Cons.prems ok_step stores_step ids_in_step
        files_ok_step [OF Cons.prems(1,2,3) assms(2) Cons.prems(4)] by simp
  qed simp
  from this [OF start assms(4,3)] show ?thesis .
qed

subsection \<open>Properties\<close>

lemma reachable_ok: "reachable session_init (session_step safe) m \<Longrightarrow> sessions_ok m"
  by (rule session.inv_reachable)

text \<open>
  C4. Whatever operations clients of one tenant make, in any order, sessions of every other
  tenant and their snapshots stay exactly as they are, their access times included.
\<close>

theorem tenants_are_isolated:
  assumes "reachable session_init (session_step safe) m" "\<forall>op\<in>set ops. made_by t op"
    and "dget (sm_sessions m) sid = Some s" "ss_tenant_id s \<noteq> t"
  shows "dget (sm_sessions (fold (session_step safe) ops m)) sid = Some s \<and>
    dget (sm_snapshots (fold (session_step safe) ops m)) sid = dget (sm_snapshots m) sid"
  using assms
proof (induction ops arbitrary: m)
  case Nil
  then show ?case by simp
next
  case (Cons op ops)
  have "dget (sm_sessions (session_step safe op m)) sid = Some s \<and>
      dget (sm_snapshots (session_step safe op m)) sid = dget (sm_snapshots m) sid"
    using Cons.prems by (intro isolated_step reachable_ok) auto
  moreover have "reachable session_init (session_step safe) (session_step safe op m)"
    using Cons.prems(1) by (rule reachable.reach_step)
  ultimately show ?case using Cons.IH [of "session_step safe op m"] Cons.prems by simp
qed

definition demo_sessions :: sessions where
  "demo_sessions = session_step id (SO_Create 5 ''s1'' ''p1'' ''general'' ''alice'' [(''k'', JInt 1)] [] None None [])
     (init_sessions (Some ''d'') None 10 True [] True)"

lemma demo_sessions_reachable: "reachable session_init (session_step id) demo_sessions"
  unfolding demo_sessions_def by (intro reachable.intros session_init_fresh)

definition demo_session :: session where
  "demo_session = \<lparr>ss_session_id = ''s1'', ss_session_type = ''general'', ss_tenant_id = ''alice'',
     ss_status = ''active'', ss_created_at = 5, ss_updated_at = 5, ss_last_accessed_at = 5,
     ss_expires_at = None, ss_state = [(''k'', JInt 1)], ss_metadata = [],
     ss_parent_session_id = None, ss_tags = []\<rparr>"

lemma demo_sessions_lookup:
  "dget (sm_sessions demo_sessions) ''s1'' = Some demo_session" "stores demo_sessions"
  by (simp_all add: demo_sessions_def demo_session_def create_session_def init_sessions_def Let_def dget_dset
      str_or_none_def stores_def)

theorem tenants_are_isolated_witness:
  "dget (sm_sessions (fold (session_step id) [SO_Delete 6 ''s1'' (Some ''bob'') ''bob'',
     SO_Update 7 ''s1'' [(''k'', JInt 2)] (Some ''bob'') ''bob''] demo_sessions)) ''s1'' = Some demo_session"
  using tenants_are_isolated [OF demo_sessions_reachable, of "[SO_Delete 6 ''s1'' (Some ''bob'') ''bob'',
     SO_Update 7 ''s1'' [(''k'', JInt 2)] (Some ''bob'') ''bob'']" "''bob''"] demo_sessions_lookup(1)
  by (simp add: demo_session_def)

text \<open>
  In every reachable state the sessions listed for a tenant are exactly its sessions, newest
  first; snapshots exist for existing sessions only, at most the maximum of them (when it is not
  0); and the change log has at most 10000 entries.
\<close>

theorem tenant_listing_is_exact:
  assumes "reachable session_init (session_step safe) m" "set (ord (dget_or (sm_tenants m) t [])) = set (dget_or (sm_tenants m) t [])"
  shows "set (list_sessions_by_tenant ord t None None m) =
      {s. ss_tenant_id s = t \<and> dget (sm_sessions m) (ss_session_id s) = Some s} \<and>
    sorted (map (\<lambda>s. - ss_created_at s) (list_sessions_by_tenant ord t None None m)) \<and>
    (\<forall>sid sns. dget (sm_snapshots m) sid = Some sns \<longrightarrow> dget (sm_sessions m) sid \<noteq> None \<and>
       (0 < sm_max_snapshots m \<longrightarrow> length sns \<le> sm_max_snapshots m)) \<and>
    length (sm_logs m) \<le> 10000"
proof -
  have ok: "sessions_ok m" using assms(1) by (rule reachable_ok)
  have idx: "sid \<in> set (dget_or (sm_tenants m) t []) \<longleftrightarrow>
      (\<exists>s. dget (sm_sessions m) sid = Some s \<and> ss_tenant_id s = t)" for sid
    using ok by (simp add: sessions_ok_def)
  have "set (list_sessions_by_tenant ord t None None m) =
      {s. \<exists>sid\<in>set (dget_or (sm_tenants m) t []). dget (sm_sessions m) sid = Some s}"
    using assms(2) by (auto simp: list_sessions_by_tenant_def passes_def str_or_none_def map_filter_def image_iff)
      force
  also have "\<dots> = {s. ss_tenant_id s = t \<and> dget (sm_sessions m) (ss_session_id s) = Some s}"
    using idx session_id_of [OF ok] by force
  finally show ?thesis
    using ok by (simp add: list_sessions_by_tenant_def sessions_ok_def snapshots_ok_def MAX_LOGS_def)
qed

theorem tenant_listing_is_exact_witness:
  "set (list_sessions_by_tenant id ''alice'' None None demo_sessions) =
     {s. ss_tenant_id s = ''alice'' \<and> dget (sm_sessions demo_sessions) (ss_session_id s) = Some s}"
  using tenant_listing_is_exact [OF demo_sessions_reachable, of id "''alice''"] by simp

subsubsection \<open>Snapshots and resuming\<close>

lemma resume_state:
  assumes "dget (sm_sessions m) sid = Some s" "tenant_ok t s"
  shows "\<exists>s'. snd (resume_session safe now sid t actor m) = Some s' \<and> ss_status s' = ''active'' \<and>
    ss_state s' = (case dget_or (sm_snapshots m) sid [] of [] \<Rightarrow> ss_state s | sns \<Rightarrow> sn_state (last sns))"
  using assms by (auto simp: resume_session_def get_session_def Let_def split: list.split)

lemma last_snapshot_after:
  "last (dget_or (sm_snapshots (fst (create_snapshot_internal now pid s reason m))) (ss_session_id s) []) =
     \<lparr>sn_snapshot_id = pid, sn_session_id = ss_session_id s, sn_timestamp = now, sn_state = ss_state s,
      sn_metadata = ss_metadata s, sn_reason = reason\<rparr>"
  "dget_or (sm_snapshots (fst (create_snapshot_internal now pid s reason m))) (ss_session_id s) [] \<noteq> []"
  by (auto simp: dget_or_def dget_snapshots_after Let_def last_last_n last_n_def)

text \<open>
  Restoring a snapshot and then resuming the session undoes the restoration: the state is the
  one from before it. Restoring saves the state it replaces as the newest snapshot, and resuming
  loads the newest snapshot whatever the status of the session is.
\<close>

theorem resume_undoes_restore:
  assumes "reachable session_init (session_step safe) m" "dget (sm_sessions m) sid = Some s"
    and "restore_snapshot safe now pid sid target t actor m = (m1, Some s1)"
    and "resume_session safe now' sid t actor' m1 = (m2, Some s2)"
  shows "ss_state s2 = ss_state s \<and> ss_status s2 = ''active'' \<and>
    (\<exists>sn\<in>set (dget_or (sm_snapshots m) sid []). sn_snapshot_id sn = target \<and> ss_state s1 = sn_state sn)"
proof -
  have ok: "sessions_ok m" using assms(1) by (rule reachable_ok)
  have sid: "ss_session_id s = sid" using ok assms(2) by (rule session_id_of)
  have t: "tenant_ok t s" using assms(2,3) by (auto simp: restore_snapshot_def get_session_def split: if_splits)
  let ?s = "s\<lparr>ss_last_accessed_at := now\<rparr>"
  have g: "get_session now sid t m = (put_session sid ?s m, Some ?s)"
    using assms(2) t by (simp add: get_session_def Let_def)
  obtain sn where sn: "find (\<lambda>sn. sn_snapshot_id sn = target) (dget_or (sm_snapshots m) sid []) = Some sn"
    using assms(3) g by (auto simp: restore_snapshot_def split: option.splits)
  let ?m = "fst (create_snapshot_internal now pid ?s (''pre_restore_to_'' @ target) (put_session sid ?s m))"
  have m1: "sm_snapshots m1 = sm_snapshots ?m" "dget (sm_sessions m1) sid = Some s1" "tenant_ok t s1" "ss_state s1 = sn_state sn"
    using assms(3) g sn t by (auto simp: restore_snapshot_def Let_def dget_dset tenant_ok_def split: option.splits)
  have lst: "dget_or (sm_snapshots m1) sid [] \<noteq> []" "sn_state (last (dget_or (sm_snapshots m1) sid [])) = ss_state s"
    using last_snapshot_after [of now pid ?s "''pre_restore_to_'' @ target" "put_session sid ?s m"] sid
    by (simp_all add: m1(1))
  have "sn \<in> set (dget_or (sm_snapshots m) sid [])" "sn_snapshot_id sn = target"
    using sn by (auto simp: find_Some_iff)
  then show ?thesis
    using resume_state [OF m1(2,3), of safe now' actor'] assms(4) lst m1(4)
    by (auto split: list.splits)
qed

theorem resume_undoes_restore_witness:
  "\<exists>m1 s1 m2 s2.
     restore_snapshot id 7 ''p2'' ''s1'' ''p1'' None ''u'' (session_step id (SO_Update 6 ''s1'' [(''k'', JInt 2)] None ''u'') demo_sessions) = (m1, Some s1) \<and>
     resume_session id 8 ''s1'' None ''u'' m1 = (m2, Some s2) \<and> ss_state s1 = [(''k'', JInt 1)] \<and> ss_state s2 = [(''k'', JInt 2)]"
proof -
  let ?m = "session_step id (SO_Update 6 ''s1'' [(''k'', JInt 2)] None ''u'') demo_sessions"
  let ?sn = "\<lparr>sn_snapshot_id = ''p1'', sn_session_id = ''s1'', sn_timestamp = 5, sn_state = [(''k'', JInt 1)],
    sn_metadata = [], sn_reason = ''initial''\<rparr>"
  have r: "reachable session_init (session_step id) ?m"
    using demo_sessions_reachable by (rule reachable.reach_step)
  have g: "get_session 6 ''s1'' None demo_sessions =
      (put_session ''s1'' (demo_session\<lparr>ss_last_accessed_at := 6\<rparr>) demo_sessions, Some (demo_session\<lparr>ss_last_accessed_at := 6\<rparr>))"
    using demo_sessions_lookup by (simp add: get_session_def tenant_ok_def Let_def)
  have snaps: "sm_snapshots demo_sessions = [(''s1'', [?sn])]"
    by (simp add: demo_sessions_def create_session_def init_sessions_def Let_def str_or_none_def
        create_snapshot_internal_def dget_or_def add_to_tenant_def put_session_def log_change_def MAX_LOGS_def persist_session_def)
  obtain s where s: "dget (sm_sessions ?m) ''s1'' = Some s" "ss_state s = [(''k'', JInt 2)]" "sm_snapshots ?m = [(''s1'', [?sn])]"
    using g snaps by (auto simp: update_state_def Let_def dget_dset dict_update_def demo_session_def)
  obtain m1 s1 where m1: "restore_snapshot id 7 ''p2'' ''s1'' ''p1'' None ''u'' ?m = (m1, Some s1)"
    using s by (auto simp: restore_snapshot_def get_session_def tenant_ok_def dget_or_def Let_def)
  have "dget (sm_sessions m1) ''s1'' = Some s1"
    using m1 s by (auto simp: restore_snapshot_def get_session_def tenant_ok_def dget_or_def Let_def dget_dset)
  then obtain m2 s2 where m2: "resume_session id 8 ''s1'' None ''u'' m1 = (m2, Some s2)"
    using resume_state [of m1 "''s1''" s1 None id 8 "''u''"] by (cases "resume_session id 8 ''s1'' None ''u'' m1") (auto simp: tenant_ok_def)
  show ?thesis
    using resume_undoes_restore [OF r s(1) m1 m2] m1 m2 s by (auto simp: dget_or_def)
qed

subsubsection \<open>Restarting\<close>

text \<open>The sessions of a list of files.\<close>

fun docs :: "(string \<times> session disk_file) list \<Rightarrow> session list" where
  "docs [] = []"
| "docs ((name, f) # fs) = (case f of Doc s \<Rightarrow> s # docs fs | _ \<Rightarrow> docs fs)"

lemma docs_iff: "s \<in> set (docs fs) \<longleftrightarrow> (\<exists>name. (name, Doc s) \<in> set fs)"
  by (induction fs rule: docs.induct) (auto split: disk_file.splits)

lemma load_files_frame:
  "sm_snapshots (load_files fs m) = sm_snapshots m" "sm_logs (load_files fs m) = sm_logs m"
  by (induction fs m rule: load_files.induct) (auto split: disk_file.splits)

lemma load_files_sessions:
  "distinct (map ss_session_id (docs fs)) \<Longrightarrow>
   dget (sm_sessions (load_files fs m)) sid =
     (case find (\<lambda>s. ss_session_id s = sid) (docs fs) of Some s \<Rightarrow> Some s | None \<Rightarrow> dget (sm_sessions m) sid)"
proof (induction fs m rule: load_files.induct)
  case (1 m)
  then show ?case by simp
next
  case (2 name f fs m)
  show ?case
  proof (cases f)
    case (Doc s)
    have "ss_session_id s \<notin> ss_session_id ` set (docs fs)" using 2(4) Doc by simp
    then have "find (\<lambda>x. ss_session_id x = ss_session_id s) (docs fs) = None"
      unfolding find_None_iff by (metis image_eqI)
    then show ?thesis using 2 Doc by (auto simp: dget_dset split: option.split)
  qed (use 2 in simp_all)
qed

lemma load_files_tenants:
  "sid \<in> set (dget_or (sm_tenants (load_files fs m)) t []) \<longleftrightarrow>
     sid \<in> set (dget_or (sm_tenants m) t []) \<or> (\<exists>s\<in>set (docs fs). ss_session_id s = sid \<and> ss_tenant_id s = t)"
proof (induction fs m rule: load_files.induct)
  case (1 m)
  then show ?case by simp
next
  case (2 name f fs m)
  have "x \<in> set (dget_or (sm_tenants (add_to_tenant u y m')) t []) \<longleftrightarrow>
      x \<in> set (dget_or (sm_tenants m') t []) \<or> x = y \<and> t = u" for x u y m'
    by (auto simp: add_to_tenant_def dget_or_def dget_dset)
  then show ?case using 2 by (cases f) auto
qed

lemma unaccessed_eq:
  "unaccessed s = unaccessed s' \<Longrightarrow> ss_session_id s = ss_session_id s' \<and> ss_tenant_id s = ss_tenant_id s'"
  by (metis (no_types, lifting) unaccessed_def session.select_convs(1,3) session.surjective session.update_convs(7))

lemma files_docs_distinct:
  assumes ok: "sessions_ok m" and f: "files_ok safe m"
  shows "distinct (map ss_session_id (docs (sm_files m)))"
    "(name, Doc s) \<in> set (sm_files m) \<Longrightarrow> name = safe (ss_session_id s)"
proof -
  have name: "name = safe (ss_session_id s)" if "(name, Doc s) \<in> set (sm_files m)" for name s
  proof -
    have d: "dget (sm_files m) name = Some (Doc s)" using that files_okD(1) [OF f] by (simp add: mem_dict_iff)
    from files_okD(3) [OF f this] obtain x y where x: "name = safe x" "dget (sm_sessions m) x = Some y" by blast
    from files_okD(2) [OF f x(2)] d x(1) have "unaccessed s = unaccessed y" by auto
    then show ?thesis using session_id_of [OF ok x(2)] x(1) unaccessed_eq by metis
  qed
  then show "(name, Doc s) \<in> set (sm_files m) \<Longrightarrow> name = safe (ss_session_id s)" .
  have "distinct (map ss_session_id (docs fs))"
    if "set fs \<subseteq> set (sm_files m)" "distinct (map fst fs)" for fs
    using that
  proof (induction fs rule: docs.induct)
    case 1
    then show ?case by simp
  next
    case (2 n g fs)
    show ?case
    proof (cases g)
      case (Doc s)
      have "ss_session_id s \<noteq> ss_session_id s'" if s': "s' \<in> set (docs fs)" for s'
      proof -
        obtain n' where n': "(n', Doc s') \<in> set fs" using s' by (auto simp: docs_iff)
        then have "n' \<noteq> n" using 2(5) by force
        moreover have "n = safe (ss_session_id s)" "n' = safe (ss_session_id s')"
          using name 2(4) Doc n' by auto
        ultimately show ?thesis by auto
      qed
      then show ?thesis using 2 Doc by auto
    qed (use 2 in auto)
  qed
  then show "distinct (map ss_session_id (docs (sm_files m)))"
    using files_okD(1) [OF f] by (simp add: wf_dict_def)
qed

text \<open>
  C15. A new manager on the directory of a running one has the same sessions, up to the times of
  the last access, and lists them under the same tenants, whenever the process ends: every
  operation saves what it changes. The snapshots and the log are gone, so a suspended session is
  resumed with the state in its file. The file name of a session is the beginning of a digest of its identifier: the
  identifiers of the sessions created in the run are taken to have different names (two with the same name
  would share a file). The directory was empty at first, and writing to it works.
\<close>

theorem restart_restores_sessions:
  assumes "session_init m0" "m = fold (session_step safe) ops m0" "inj_on safe (\<Union>op\<in>set ops. created op)" "stores m0" "str_or_none dir \<noteq> None"
    and m': "m' = init_sessions dir ttl n audit (sm_files m) disk"
  shows "map_option unaccessed (dget (sm_sessions m') sid) = map_option unaccessed (dget (sm_sessions m) sid) \<and>
    (sid \<in> set (dget_or (sm_tenants m') t []) \<longleftrightarrow> sid \<in> set (dget_or (sm_tenants m) t [])) \<and>
    sm_snapshots m' = [] \<and> sm_logs m' = []"
proof -
  have ok: "sessions_ok m" and f: "files_ok safe m"
    using files_ok_run [OF assms(1,3) _ assms(4)] assms(2) by auto
  note d = files_docs_distinct [OF ok f]
  let ?m0 = "\<lparr>sm_storage_dir = dir, sm_default_ttl = ttl, sm_max_snapshots = n, sm_audit_log = audit,
     sm_sessions = [], sm_snapshots = [], sm_logs = [], sm_tenants = [], sm_files = sm_files m, sm_disk_ok = disk\<rparr>"
  have l: "m' = load_files (sm_files m) ?m0" using assms(5) by (auto simp: m' init_sessions_def Let_def)
  have mem: "s' \<in> set (docs (sm_files m)) \<longleftrightarrow> dget (sm_files m) (safe (ss_session_id s')) = Some (Doc s')" for s'
    using d(2) files_okD(1) [OF f] by (auto simp: docs_iff mem_dict_iff)
  have one: "\<exists>s'\<in>set (docs (sm_files m)). ss_session_id s' = x \<and> unaccessed s' = unaccessed s"
    if x: "dget (sm_sessions m) x = Some s" for x s
  proof -
    obtain s' where s': "dget (sm_files m) (safe x) = Some (Doc s')" "unaccessed s' = unaccessed s"
      using files_okD(2) [OF f x] by blast
    moreover have "ss_session_id s' = x" using unaccessed_eq [OF s'(2)] session_id_of [OF ok x] by simp
    ultimately show ?thesis using mem by blast
  qed
  have two: "\<exists>s. dget (sm_sessions m) (ss_session_id s') = Some s \<and> unaccessed s' = unaccessed s"
    if s': "s' \<in> set (docs (sm_files m))" for s'
  proof -
    have fl: "dget (sm_files m) (safe (ss_session_id s')) = Some (Doc s')" using s' mem by simp
    from files_okD(3) [OF f this] obtain x s where x: "safe (ss_session_id s') = safe x" "dget (sm_sessions m) x = Some s"
      by blast
    from files_okD(2) [OF f x(2)] fl have un: "unaccessed s' = unaccessed s" by (auto simp: x(1))
    then have "x = ss_session_id s'" using unaccessed_eq [OF un] session_id_of [OF ok x(2)] by simp
    then show ?thesis using x(2) un by simp
  qed
  have sess: "map_option unaccessed (dget (sm_sessions m') x) = map_option unaccessed (dget (sm_sessions m) x)" for x
  proof (cases "find (\<lambda>s. ss_session_id s = x) (docs (sm_files m))")
    case None
    then have "\<forall>s\<in>set (docs (sm_files m)). ss_session_id s \<noteq> x" by (auto simp: find_None_iff)
    then have "dget (sm_sessions m) x = None" using one [of x] by (cases "dget (sm_sessions m) x") auto
    then show ?thesis unfolding l load_files_sessions [OF d(1)] using None by simp
  next
    case (Some s')
    then have "s' \<in> set (docs (sm_files m))" "ss_session_id s' = x" by (auto simp: find_Some_iff)
    then show ?thesis unfolding l load_files_sessions [OF d(1)] using Some two [of s'] by auto
  qed
  have idx: "sid \<in> set (dget_or (sm_tenants m) t []) \<longleftrightarrow>
      (\<exists>s. dget (sm_sessions m) sid = Some s \<and> ss_tenant_id s = t)"
    using ok by (simp add: sessions_ok_def)
  have "sid \<in> set (dget_or (sm_tenants m') t []) \<longleftrightarrow>
      (\<exists>s\<in>set (docs (sm_files m)). ss_session_id s = sid \<and> ss_tenant_id s = t)"
    unfolding l load_files_tenants by (simp add: dget_or_def)
  also have "\<dots> \<longleftrightarrow> (\<exists>s. dget (sm_sessions m) sid = Some s \<and> ss_tenant_id s = t)"
  proof
    assume "\<exists>s\<in>set (docs (sm_files m)). ss_session_id s = sid \<and> ss_tenant_id s = t"
    then obtain s' where s': "s' \<in> set (docs (sm_files m))" "ss_session_id s' = sid" "ss_tenant_id s' = t" by blast
    from two [OF s'(1)] obtain s where "dget (sm_sessions m) (ss_session_id s') = Some s" "unaccessed s' = unaccessed s" by blast
    with s' unaccessed_eq [of s' s] show "\<exists>s. dget (sm_sessions m) sid = Some s \<and> ss_tenant_id s = t" by auto
  next
    assume "\<exists>s. dget (sm_sessions m) sid = Some s \<and> ss_tenant_id s = t"
    then obtain s where s: "dget (sm_sessions m) sid = Some s" "ss_tenant_id s = t" by blast
    from one [OF s(1)] obtain s' where "s' \<in> set (docs (sm_files m))" "ss_session_id s' = sid" "unaccessed s' = unaccessed s" by blast
    with s unaccessed_eq [of s' s] show "\<exists>s\<in>set (docs (sm_files m)). ss_session_id s = sid \<and> ss_tenant_id s = t" by auto
  qed
  finally show ?thesis using sess idx by (simp add: l load_files_frame)
qed

theorem restart_restores_sessions_witness:
  "map_option unaccessed (dget (sm_sessions (init_sessions (Some ''d'') None 10 True (sm_files demo_sessions) True)) ''s1'') =
   Some (unaccessed demo_session)"
proof -
  let ?m0 = "init_sessions (Some ''d'') None 10 True [] True" and ?op = "SO_Create 5 ''s1'' ''p1'' ''general'' ''alice'' [(''k'', JInt 1)] [] None None []"
  have run: "demo_sessions = fold (session_step id) [?op] ?m0" by (simp add: demo_sessions_def)
  have "inj_on id (\<Union>op\<in>set [?op]. created op)" "stores ?m0" "str_or_none (Some ''d'') \<noteq> None"
    by (simp_all add: stores_def init_sessions_def Let_def str_or_none_def)
  from restart_restores_sessions [OF session_init_fresh run this refl]
  show ?thesis by (simp add: demo_sessions_lookup(1))
qed

subsubsection \<open>Chains\<close>

fun linked :: "string option \<Rightarrow> session list \<Rightarrow> bool" where
  "linked cur [] = True"
| "linked cur (s # ss) = (str_or_none cur = Some (ss_session_id s) \<and> linked (ss_parent_session_id s) ss)"

lemma chain_loop_spec:
  assumes "\<forall>sid s. dget d sid = Some s \<longrightarrow> ss_session_id s = sid"
  shows "linked cur (chain_loop d cur visited) \<and> distinct (map ss_session_id (chain_loop d cur visited)) \<and>
    (\<forall>s\<in>set (chain_loop d cur visited). dget d (ss_session_id s) = Some s \<and> ss_session_id s \<notin> set visited) \<and>
    (case str_or_none (if chain_loop d cur visited = [] then cur else ss_parent_session_id (last (chain_loop d cur visited))) of
       None \<Rightarrow> True
     | Some x \<Rightarrow> x \<in> set visited \<or> x \<in> ss_session_id ` set (chain_loop d cur visited) \<or> dget d x = None)"
  using assms
proof (induction d cur visited rule: chain_loop.induct)
  case (1 d cur visited)
  show ?case
  proof (cases "str_or_none cur")
    case None
    then show ?thesis by (simp add: chain_loop.simps [of d cur])
  next
    case (Some sid)
    show ?thesis
    proof (cases "sid \<in> set visited \<or> dget d sid = None")
      case True
      then show ?thesis using Some by (auto simp: chain_loop.simps [of d cur])
    next
      case False
      then obtain s where s: "dget d sid = Some s" "sid \<notin> set visited" by auto
      have id: "ss_session_id s = sid" using 1(2) s(1) by blast
      have eq: "chain_loop d cur visited = s # chain_loop d (ss_parent_session_id s) (sid # visited)"
        using Some s by (simp add: chain_loop.simps [of d cur])
      show ?thesis unfolding eq using 1(1) [OF Some s(2) s(1) 1(2)] id s Some by (auto split: option.splits)
    qed
  qed
qed

lemma str_or_none_Some: "str_or_none x = Some y \<Longrightarrow> x = Some y"
  by (auto simp: str_or_none_def split: option.splits list.splits)

lemma linked_nth:
  "linked cur ss \<Longrightarrow> Suc i < length ss \<Longrightarrow> ss_parent_session_id (ss ! i) = Some (ss_session_id (ss ! Suc i))"
proof (induction ss arbitrary: cur i)
  case Nil
  then show ?case by simp
next
  case (Cons s ss)
  have l: "linked (ss_parent_session_id s) ss" using Cons.prems(1) by simp
  show ?case
  proof (cases i)
    case 0
    then show ?thesis using l Cons.prems(2) by (cases ss) (simp_all add: str_or_none_Some)
  next
    case (Suc j)
    then show ?thesis using Cons.IH [OF l, of j] Cons.prems(2) by simp
  qed
qed

text \<open>
  C18. The chain of a session ends for every table in which each session stands under its own identifier, cyclic tables
  included: it is a list of distinct sessions of the table, each the parent of the next, that ends with the session asked
  for; and it goes back as far as it can: its first session has no parent, or one that is not in the table, or one that is in the chain
  already (a cycle). Tenants play no part: the chain shows the sessions of any tenant to anyone.
\<close>

theorem session_chain_spec:
  assumes "\<forall>x s. dget (sm_sessions m) x = Some s \<longrightarrow> ss_session_id s = x"
  shows "distinct (map ss_session_id (get_session_chain sid m)) \<and>
    (\<forall>s\<in>set (get_session_chain sid m). dget (sm_sessions m) (ss_session_id s) = Some s) \<and>
    (\<forall>i. Suc i < length (get_session_chain sid m) \<longrightarrow>
       ss_parent_session_id (get_session_chain sid m ! Suc i) = Some (ss_session_id (get_session_chain sid m ! i))) \<and>
    (sid \<noteq> [] \<longrightarrow> (\<forall>s. dget (sm_sessions m) sid = Some s \<longrightarrow>
       get_session_chain sid m \<noteq> [] \<and> last (get_session_chain sid m) = s \<and>
       (\<forall>parent. str_or_none (ss_parent_session_id (hd (get_session_chain sid m))) = Some parent \<longrightarrow>
          dget (sm_sessions m) parent = None \<or> parent \<in> ss_session_id ` set (get_session_chain sid m))))"
proof -
  let ?c = "chain_loop (sm_sessions m) (Some sid) []"
  have c: "linked (Some sid) ?c" "distinct (map ss_session_id ?c)" "\<forall>s\<in>set ?c. dget (sm_sessions m) (ss_session_id s) = Some s"
    "case str_or_none (if ?c = [] then Some sid else ss_parent_session_id (last ?c)) of None \<Rightarrow> True
     | Some x \<Rightarrow> x \<in> set [] \<or> x \<in> ss_session_id ` set ?c \<or> dget (sm_sessions m) x = None"
    using chain_loop_spec [OF assms, of "Some sid" "[]"] by blast+
  have link: "ss_parent_session_id (rev ?c ! Suc i) = Some (ss_session_id (rev ?c ! i))" if "Suc i < length ?c" for i
  proof -
    have "Suc (length ?c - Suc (Suc i)) < length ?c" "Suc (length ?c - Suc (Suc i)) = length ?c - Suc i"
      using that by linarith+
    then show ?thesis using linked_nth [OF c(1), of "length ?c - Suc (Suc i)"] that by (simp add: rev_nth)
  qed
  have ne: "?c \<noteq> [] \<and> hd ?c = s" if "sid \<noteq> []" "dget (sm_sessions m) sid = Some s" for s
  proof -
    have "str_or_none (Some sid) = Some sid" using that(1) by (simp add: str_or_none_def split: list.split)
    then show ?thesis using that(2) by (simp add: chain_loop.simps [of "sm_sessions m" "Some sid"])
  qed
  have top: "dget (sm_sessions m) parent = None \<or> parent \<in> ss_session_id ` set ?c"
    if "?c \<noteq> []" "str_or_none (ss_parent_session_id (last ?c)) = Some parent" for parent
    using c(4) that by auto
  show ?thesis using c(2,3) link ne top by (simp add: get_session_chain_def rev_map [symmetric] last_rev hd_rev)
qed

definition demo_child :: sessions where
  "demo_child = put_session ''s2'' (demo_session\<lparr>ss_session_id := ''s2'', ss_parent_session_id := Some ''s1''\<rparr>) demo_sessions"

text \<open>The chain of a session with a parent has both.\<close>

theorem session_chain_spec_witness:
  "map ss_session_id (get_session_chain ''s2'' demo_child) = [''s1'', ''s2'']"
proof -
  let ?c = "get_session_chain ''s2'' demo_child" and ?s2 = "demo_session\<lparr>ss_session_id := ''s2'', ss_parent_session_id := Some ''s1''\<rparr>"
  have tab: "dget (sm_sessions demo_child) x = (if x = ''s2'' then Some ?s2 else dget (sm_sessions demo_sessions) x)" for x
    by (simp add: demo_child_def dget_dset)
  have only: "dget (sm_sessions demo_sessions) x = (if x = ''s1'' then Some demo_session else None)" for x
    by (simp add: demo_sessions_def demo_session_def create_session_def init_sessions_def Let_def dget_dset str_or_none_def)
  have h: "\<forall>x s. dget (sm_sessions demo_child) x = Some s \<longrightarrow> ss_session_id s = x"
    by (simp add: tab only demo_session_def)
  note t = session_chain_spec [OF h, of "''s2''", unfolded tab]
  have c: "?c \<noteq> []" "last ?c = ?s2" "distinct (map ss_session_id ?c)"
    "\<And>i. Suc i < length ?c \<Longrightarrow> ss_parent_session_id (?c ! Suc i) = Some (ss_session_id (?c ! i))"
    "\<And>p. str_or_none (ss_parent_session_id (hd ?c)) = Some p \<Longrightarrow> p \<noteq> ''s1'' \<and> p \<noteq> ''s2'' \<or> p \<in> ss_session_id ` set ?c"
    "\<And>s. s \<in> set ?c \<Longrightarrow> s = ?s2 \<or> s = demo_session"
    using t by (auto simp: only split: if_splits)
  have "demo_session \<in> set ?c"
  proof (rule ccontr)
    assume "demo_session \<notin> set ?c"
    then have all: "\<forall>s\<in>set ?c. s = ?s2" using c(6) by blast
    then have "hd ?c = ?s2" using c(1) by simp
    then show False using c(5) [of "''s1''"] all by (auto simp: str_or_none_def)
  qed
  obtain xs where xs: "?c = xs @ [?s2]" using c(1,2) by (metis append_butlast_last_id)
  have "s = demo_session" if "s \<in> set xs" for s
  proof -
    have "s \<noteq> ?s2" using c(3) that by (auto simp: xs image_iff)
    moreover have "s = ?s2 \<or> s = demo_session" using c(6) that by (simp add: xs)
    ultimately show ?thesis by blast
  qed
  moreover have "distinct xs" using c(3) by (simp add: xs distinct_map)
  moreover have "xs \<noteq> []" using \<open>demo_session \<in> set ?c\<close> by (auto simp: xs demo_session_def)
  ultimately have "xs = [demo_session]" by (cases xs; cases "tl xs") auto
  then show ?thesis by (simp add: xs demo_session_def)
qed

end
