(* ===== verification/Config_Enforcer.thy ===== *)
theory Config_Enforcer
  imports Photon_Prelude
begin

text \<open>
  \<open>evolution/defense_enforcer.py\<close>: configuration updates made from defence rules, their queue,
  and their application to the JSON files of the sandboxes, with backups. The disk is a dictionary
  from paths to documents, the numbers of lines appended to log files, a flag for whether directories
  and files can be written (they cannot with an empty directory name either), and which of the coming writes
  break off: a file is cut by opening it and written after that, so a write that breaks off leaves a cut file. The
  numbers of a document are finite, as JSON has them; \<open>json\<close> also reads and writes NaN.
  \<open>digest\<close> stands for the MD5 prefix that makes update identifiers and \<open>str_of\<close> for \<open>str\<close> on a JSON value.
  Descriptions and reasons are given in English.
\<close>

subsection \<open>Data\<close>

datatype config_target = LIGHTPOOL_SECCOMP | STRONGPOOL_CONFIG | RUNTIME_GUARD | EBPF_NETWORK | AUDIT_CONFIG

fun target_value :: "config_target \<Rightarrow> string" where
  "target_value LIGHTPOOL_SECCOMP = ''lightpool_seccomp''"
| "target_value STRONGPOOL_CONFIG = ''strongpool_config''"
| "target_value RUNTIME_GUARD = ''runtime_guard''"
| "target_value EBPF_NETWORK = ''ebpf_network''"
| "target_value AUDIT_CONFIG = ''audit_config''"

definition all_targets :: "config_target list" where
  "all_targets = [LIGHTPOOL_SECCOMP, STRONGPOOL_CONFIG, RUNTIME_GUARD, EBPF_NETWORK, AUDIT_CONFIG]"

datatype change_action = CH_ADD | CH_REMOVE | CH_UPDATE | CH_ENABLE | CH_DISABLE

fun action_value :: "change_action \<Rightarrow> string" where
  "action_value CH_ADD = ''add''"
| "action_value CH_REMOVE = ''remove''"
| "action_value CH_UPDATE = ''update''"
| "action_value CH_ENABLE = ''enable''"
| "action_value CH_DISABLE = ''disable''"

text \<open>
  The attributes \<open>status\<close> and \<open>error\<close> are not fields of the class: they exist once something has
  set them.
\<close>

record config_update =
  cu_update_id :: string
  cu_target :: config_target
  cu_action :: change_action
  cu_description :: string
  cu_config_key :: string
  cu_config_value :: json
  cu_priority :: string
  cu_reason :: string
  cu_source_event_id :: "string option"
  cu_defense_rule_id :: "string option"
  cu_timestamp :: time
  cu_applied :: bool
  cu_applied_at :: "time option"
  cu_rollback_snapshot :: "(string, json) dict option"
  cu_status :: "string option"
  cu_error :: "exc option"

definition cu_to_json :: "config_update \<Rightarrow> (string, json) dict" where
  "cu_to_json u =
     [(''update_id'', JStr (cu_update_id u)), (''target'', JStr (target_value (cu_target u))),
      (''action'', JStr (action_value (cu_action u))), (''description'', JStr (cu_description u)),
      (''config_key'', JStr (cu_config_key u)), (''config_value'', cu_config_value u),
      (''priority'', JStr (cu_priority u)), (''reason'', JStr (cu_reason u)),
      (''source_event_id'', (case cu_source_event_id u of None \<Rightarrow> JNull | Some x \<Rightarrow> JStr x)),
      (''defense_rule_id'', (case cu_defense_rule_id u of None \<Rightarrow> JNull | Some x \<Rightarrow> JStr x)),
      (''timestamp'', JFloat (cu_timestamp u)), (''applied'', JBool (cu_applied u))]"

record enforcer_stats =
  es_total_updates :: int
  es_applied_updates :: int
  es_failed_updates :: int
  es_pending_updates :: int
  es_rollbacks :: int
  es_by_target :: "(string, int) dict"
  es_by_priority :: "(string, int) dict"
  es_last_update_time :: time

text \<open>Defence rules (\<open>evolution/red_blue_adversary.py\<close>) and security events (\<open>evolution/real_data_adapter.py\<close>).\<close>

datatype defense_type = SYSTEM_CALL_MONITOR | NETWORK_FILTER | FILE_ACCESS_CONTROL | PROCESS_ISOLATION
  | AUDIT_LOGGING | RESOURCE_LIMIT | CAPABILITY_DROP | INTEGRITY_CHECK

datatype attack_type = NAMESPACE_ESCAPE | SECCOMP_BYPASS | PRIVILEGE_ESCALATION | NETWORK_TUNNEL
  | FILE_TRAVERSAL | PROCESS_INJECTION | CONFIG_TAMPERING | AUDIT_BYPASS | DOS_ATTACK | CREDENTIAL_THEFT

record defense_rule =
  dr_rule_id :: string
  dr_defense_type :: defense_type
  dr_description :: string
  dr_target_attack_types :: "attack_type list"
  dr_detection_logic :: string
  dr_effectiveness :: rat
  dr_trigger_count :: int
  dr_false_positive_count :: int
  dr_created_at :: time
  dr_last_triggered :: time

datatype event_source = Seccomp_Violation | Kvm_Vm_Exit | Audit_Chain_Anomaly | Network_Block
  | Resource_Exceed | Capability_Drop_Event

datatype anomaly_type = Frequency_Spike | Sequence_Anomaly | Hash_Chain_Break | Missing_Events
  | Duplicate_Events | Timestamp_Jump

record source_event =
  sv_event_id :: string
  sv_source :: event_source
  sv_timestamp :: time
  sv_sandbox_id :: string
  sv_severity :: string
  sv_description :: string
  sv_payload :: "(string, json) dict"
  sv_raw_event :: "(string, json) dict option"
  sv_anomaly_type :: "anomaly_type option"
  sv_anomaly_score :: rat

text \<open>\<open>dk_breaks dk n\<close>: the write with number \<open>n\<close> breaks off, say because the disk is full.\<close>

record disk =
  dk_files :: "(string, json disk_file) dict"
  dk_logs :: "(string, nat) dict"
  dk_ok :: bool
  dk_writes :: nat
  dk_breaks :: "nat \<Rightarrow> bool"

definition new_disk :: "(string, json disk_file) dict \<Rightarrow> bool \<Rightarrow> disk" where
  "new_disk fs ok = \<lparr>dk_files = fs, dk_logs = [], dk_ok = ok, dk_writes = 0, dk_breaks = (\<lambda>n. False)\<rparr>"

lemma new_disk_simps [simp]:
  "dk_files (new_disk fs ok) = fs" "dk_logs (new_disk fs ok) = []" "dk_ok (new_disk fs ok) = ok"
  "dk_writes (new_disk fs ok) = 0" "\<not> dk_breaks (new_disk fs ok) n"
  by (simp_all add: new_disk_def)

record enforcer =
  en_config_dir :: string
  en_dry_run :: bool
  en_auto_backup :: bool
  en_hmac_secret :: string
  en_pending :: "config_update list"
  en_applied :: "config_update list"
  en_failed :: "config_update list"
  en_snapshots :: "(string, string \<times> time) dict"
  en_stats :: enforcer_stats
  en_audit :: "(string, json) dict list"
  en_disk :: disk

definition os_join :: "string \<Rightarrow> string \<Rightarrow> string" where
  "os_join a b = (if a = [] then b else if last a = CHR ''/'' then a @ b else a @ CHR ''/'' # b)"

fun config_file :: "config_target \<Rightarrow> string" where
  "config_file LIGHTPOOL_SECCOMP = ''seccomp_policy.json''"
| "config_file STRONGPOOL_CONFIG = ''strongpool_config.json''"
| "config_file RUNTIME_GUARD = ''runtime_guard.json''"
| "config_file EBPF_NETWORK = ''ebpf_network.json''"
| "config_file AUDIT_CONFIG = ''audit_config.json''"

definition config_path :: "string \<Rightarrow> config_target \<Rightarrow> string" where
  "config_path dir t = os_join dir (config_file t)"

definition init_enforcer :: "string \<Rightarrow> bool \<Rightarrow> bool \<Rightarrow> string option \<Rightarrow> disk \<Rightarrow> enforcer" where
  "init_enforcer dir dry backup secret dk =
     \<lparr>en_config_dir = dir, en_dry_run = dry, en_auto_backup = backup,
      en_hmac_secret = (case str_or_none secret of Some x \<Rightarrow> x | None \<Rightarrow> ''photonbox-enforcer-default-key''),
      en_pending = [], en_applied = [], en_failed = [], en_snapshots = [],
      en_stats = \<lparr>es_total_updates = 0, es_applied_updates = 0, es_failed_updates = 0,
        es_pending_updates = 0, es_rollbacks = 0, es_by_target = [], es_by_priority = [],
        es_last_update_time = 0\<rparr>, en_audit = [], en_disk = dk\<rparr>"

subsection \<open>Updates from rules\<close>

definition make_update :: "time \<Rightarrow> defense_rule \<Rightarrow> source_event option \<Rightarrow> string \<Rightarrow> config_target \<Rightarrow>
    change_action \<Rightarrow> string \<Rightarrow> string \<Rightarrow> json \<Rightarrow> string \<Rightarrow> string \<Rightarrow> config_update" where
  "make_update now r e uid t a desc key val prio reason =
     \<lparr>cu_update_id = uid, cu_target = t, cu_action = a, cu_description = desc, cu_config_key = key,
      cu_config_value = val, cu_priority = prio, cu_reason = reason,
      cu_source_event_id = map_option sv_event_id e, cu_defense_rule_id = Some (dr_rule_id r),
      cu_timestamp = now, cu_applied = False, cu_applied_at = None,
      cu_rollback_snapshot = None, cu_status = None, cu_error = None\<rparr>"

definition rule_reason :: "defense_rule \<Rightarrow> string \<Rightarrow> string" where
  "rule_reason r what = ''defence rule '' @ dr_rule_id r @ '': '' @ what"

text \<open>\<open>enumerate\<close>.\<close>

definition enumerate :: "'a list \<Rightarrow> (nat \<times> 'a) list" where
  "enumerate xs = zip [0..<length xs] xs"

definition blocked_syscalls :: "(json \<Rightarrow> string) \<Rightarrow> source_event option \<Rightarrow> string list" where
  "blocked_syscalls str_of e =
     (let found = (case e of None \<Rightarrow> []
        | Some ev \<Rightarrow> (case dget (sv_payload ev) ''syscall'' of
             None \<Rightarrow> [] | Some x \<Rightarrow> (if truthy x then [str_of x] else [])))
      in if found = [] then [''ptrace'', ''kexec_load'', ''init_module'', ''finit_module''] else found)"

definition generate_seccomp_updates :: "(json \<Rightarrow> string) \<Rightarrow> time \<Rightarrow> defense_rule \<Rightarrow> source_event option \<Rightarrow> string \<Rightarrow>
    config_update list" where
  "generate_seccomp_updates str_of now r e base =
     map (\<lambda>(i, sc). make_update now r e (base @ ''_sc_'' @ dec_nat i) LIGHTPOOL_SECCOMP CH_ADD
            (''block system call: '' @ sc) (''blacklist.'' @ sc)
            (JObj [(''action'', JStr ''KILL''), (''reason'', JStr (dr_description r))])
            (if sc \<in> set [''ptrace'', ''kexec_load''] then ''high'' else ''medium'')
            (rule_reason r (dr_description r)))
       (enumerate (blocked_syscalls str_of e))"

definition internal_cidrs :: "string list" where
  "internal_cidrs = [''10.0.0.0/8'', ''172.16.0.0/12'', ''192.168.0.0/16'', ''127.0.0.0/8'', ''169.254.0.0/16'']"

definition generate_network_updates :: "time \<Rightarrow> defense_rule \<Rightarrow> source_event option \<Rightarrow> string \<Rightarrow> config_update list" where
  "generate_network_updates now r e base =
     map (\<lambda>(i, cidr). make_update now r e (base @ ''_net_'' @ dec_nat i) EBPF_NETWORK CH_ADD
            (''block internal network: '' @ cidr) (''egress_blacklist.'' @ cidr)
            (JObj [(''action'', JStr ''DROP''), (''reason'', JStr ''internal network'')])
            ''high'' (rule_reason r ''network isolation''))
       (enumerate internal_cidrs)"

definition resource_limits :: "(string \<times> int \<times> string) list" where
  "resource_limits = [(''default_vm_memory_mb'', 128, ''default VM memory''),
     (''max_concurrent_vms'', 50, ''maximal number of VMs''), (''max_ttl_seconds'', 60, ''maximal run time'')]"

definition generate_resource_updates :: "time \<Rightarrow> defense_rule \<Rightarrow> source_event option \<Rightarrow> string \<Rightarrow> config_update list" where
  "generate_resource_updates now r e base =
     map (\<lambda>(i, key, val, desc). make_update now r e (base @ ''_res_'' @ dec_nat i) STRONGPOOL_CONFIG CH_UPDATE
            (''update '' @ desc @ '': '' @ dec_int val) key (JInt val) ''medium'' (rule_reason r ''resource limits''))
       (enumerate resource_limits)"

definition generate_isolation_updates :: "time \<Rightarrow> defense_rule \<Rightarrow> source_event option \<Rightarrow> string \<Rightarrow> config_update list" where
  "generate_isolation_updates now r e base =
     [make_update now r e (base @ ''_iso_0'') RUNTIME_GUARD CH_UPDATE ''StrongPool for high-risk tasks''
        ''mandatory_backend.high_risk'' (JStr ''StrongPool'') ''critical'' (rule_reason r ''KVM isolation''),
      make_update now r e (base @ ''_iso_1'') RUNTIME_GUARD CH_DISABLE ''no administrator override''
        ''allow_admin_override'' (JBool False) ''high'' (rule_reason r ''no bypass'')]"

definition generate_audit_updates :: "time \<Rightarrow> defense_rule \<Rightarrow> source_event option \<Rightarrow> string \<Rightarrow> config_update list" where
  "generate_audit_updates now r e base =
     [make_update now r e (base @ ''_aud_0'') AUDIT_CONFIG CH_ENABLE ''enable the HMAC chain''
        ''hmac_chain.enabled'' (JBool True) ''high'' (rule_reason r ''tamper evidence''),
      make_update now r e (base @ ''_aud_1'') AUDIT_CONFIG CH_UPDATE ''verbose audit''
        ''audit_level'' (JStr ''verbose'') ''medium'' (rule_reason r ''complete audit'')]"

definition dangerous_caps :: "string list" where
  "dangerous_caps = [''CAP_SYS_ADMIN'', ''CAP_NET_ADMIN'', ''CAP_SYS_PTRACE'', ''CAP_SYS_MODULE'']"

definition generate_capability_updates :: "time \<Rightarrow> defense_rule \<Rightarrow> source_event option \<Rightarrow> string \<Rightarrow> config_update list" where
  "generate_capability_updates now r e base =
     map (\<lambda>(i, cap). make_update now r e (base @ ''_cap_'' @ dec_nat i) LIGHTPOOL_SECCOMP CH_ADD
            (''drop capability: '' @ cap) (''drop_capabilities.'' @ cap) (JBool True) ''high''
            (rule_reason r ''least privilege''))
       (enumerate dangerous_caps)"

definition generate_updates_from_rule :: "(string \<Rightarrow> time \<Rightarrow> string) \<Rightarrow> (json \<Rightarrow> string) \<Rightarrow> time \<Rightarrow> defense_rule \<Rightarrow>
    source_event option \<Rightarrow> config_update list" where
  "generate_updates_from_rule digest str_of now r e =
     (let base = digest (dr_rule_id r) now
      in case dr_defense_type r of
           SYSTEM_CALL_MONITOR \<Rightarrow> generate_seccomp_updates str_of now r e base
         | NETWORK_FILTER \<Rightarrow> generate_network_updates now r e base
         | RESOURCE_LIMIT \<Rightarrow> generate_resource_updates now r e base
         | PROCESS_ISOLATION \<Rightarrow> generate_isolation_updates now r e base
         | AUDIT_LOGGING \<Rightarrow> generate_audit_updates now r e base
         | CAPABILITY_DROP \<Rightarrow> generate_capability_updates now r e base
         | _ \<Rightarrow> [])"

subsection \<open>Changing a configuration\<close>

text \<open>\<open>s.split('.')\<close>.\<close>

fun split_dot :: "string \<Rightarrow> string list" where
  "split_dot [] = [[]]"
| "split_dot (c # cs) =
     (if c = CHR ''.'' then [] # split_dot cs
      else case split_dot cs of w # ws \<Rightarrow> (c # w) # ws | [] \<Rightarrow> [[c]])"

text \<open>The last key in a dictionary.\<close>

fun apply_leaf :: "change_action \<Rightarrow> json \<Rightarrow> string \<Rightarrow> (string, json) dict \<Rightarrow> (string, json) dict" where
  "apply_leaf CH_REMOVE v k d = ddel k d"
| "apply_leaf CH_DISABLE v k d = dset k (JBool False) d"
| "apply_leaf CH_ENABLE v k d = dset k (JBool True) d"
| "apply_leaf CH_ADD v k d = dset k v d"
| "apply_leaf CH_UPDATE v k d = dset k v d"

text \<open>
  The loop of \<open>_apply_to_config\<close>, with the configuration it leaves (changed in place) and the
  exception it raises. On a text or a list \<open>in\<close> works but subscripting by a key does not; on a
  number or \<open>null\<close> even \<open>in\<close> raises.
\<close>

fun apply_path :: "change_action \<Rightarrow> json \<Rightarrow> string list \<Rightarrow> json \<Rightarrow> json \<times> exc option" where
  "apply_path a v [] c = (c, None)"
| "apply_path a v [k] (JObj d) = (JObj (apply_leaf a v k d), None)"
| "apply_path a v (k # k' # ks) (JObj d) =
     (let (c', e) = apply_path a v (k' # ks) (case dget d k of Some c \<Rightarrow> c | None \<Rightarrow> JObj [])
      in (JObj (dset k c' d), e))"
| "apply_path a v [k] (JStr s) =
     (JStr s, if a = CH_REMOVE \<and> \<not> contains k s then None else Some TypeError)"
| "apply_path a v [k] (JList xs) =
     (JList xs, if a = CH_REMOVE \<and> JStr k \<notin> set xs then None else Some TypeError)"
| "apply_path a v ks c = (c, Some TypeError)"

definition apply_to_config :: "json \<Rightarrow> config_update \<Rightarrow> json \<times> exc option" where
  "apply_to_config c u = apply_path (cu_action u) (cu_config_value u) (split_dot (cu_config_key u)) c"

subsection \<open>The disk\<close>

definition file_at :: "disk \<Rightarrow> string \<Rightarrow> json disk_file" where
  "file_at dk p = dget_or (dk_files dk) p No_File"

text \<open>\<open>open(p, 'w')\<close>, which cuts the file, and \<open>json.dump\<close>.\<close>

definition write_file :: "string \<Rightarrow> json disk_file \<Rightarrow> disk \<Rightarrow> disk \<times> exc option" where
  "write_file p f dk =
     (if \<not> dk_ok dk then (dk, Some OSError)
      else if dk_breaks dk (dk_writes dk)
      then (dk\<lparr>dk_files := dset p Corrupt (dk_files dk), dk_writes := dk_writes dk + 1\<rparr>, Some OSError)
      else (dk\<lparr>dk_files := dset p f (dk_files dk), dk_writes := dk_writes dk + 1\<rparr>, None))"

text \<open>\<open>open(p, 'a')\<close> and one line, of which a part is written when the write breaks off.\<close>

definition append_line :: "string \<Rightarrow> disk \<Rightarrow> disk \<times> exc option" where
  "append_line p dk =
     (if \<not> dk_ok dk then (dk, Some OSError)
      else (dk\<lparr>dk_logs := dset p (dget_or (dk_logs dk) p 0 + 1) (dk_logs dk), dk_writes := dk_writes dk + 1\<rparr>,
            if dk_breaks dk (dk_writes dk) then Some OSError else None))"

text \<open>\<open>json.load\<close> of an existing file; a file that is not JSON raises a \<open>ValueError\<close>.\<close>

definition read_config :: "string \<Rightarrow> disk \<Rightarrow> exc + json" where
  "read_config p dk = (case file_at dk p of No_File \<Rightarrow> Inr (JObj []) | Corrupt \<Rightarrow> Inl ValueError | Doc c \<Rightarrow> Inr c)"

text \<open>Read, change, write: \<open>_apply_single_update\<close> and, in the executor, \<open>_actual_apply\<close>.\<close>

definition update_file :: "string \<Rightarrow> config_update \<Rightarrow> disk \<Rightarrow> disk \<times> exc option" where
  "update_file p u dk =
     (if \<not> dk_ok dk then (dk, Some OSError)
      else case read_config p dk of
        Inl e \<Rightarrow> (dk, Some e)
      | Inr c \<Rightarrow> (case apply_to_config c u of
            (c', Some e) \<Rightarrow> (dk, Some e)
          | (c', None) \<Rightarrow> write_file p (Doc c') dk))"

subsection \<open>The queue\<close>

definition enqueue_update :: "config_update \<Rightarrow> enforcer \<Rightarrow> enforcer" where
  "enqueue_update u s =
     (let q = en_pending s @ [u]
      in s\<lparr>en_pending := q, en_stats := (en_stats s)\<lparr>es_pending_updates := int (length q)\<rparr>\<rparr>)"

definition enqueue_updates :: "config_update list \<Rightarrow> enforcer \<Rightarrow> enforcer" where
  "enqueue_updates us s = fold enqueue_update us s"

definition priority_order :: "(string, nat) dict" where
  "priority_order = [(''low'', 0), (''medium'', 1), (''high'', 2), (''critical'', 3)]"

definition priority_level :: "config_update \<Rightarrow> nat" where
  "priority_level u = dget_or priority_order (cu_priority u) 0"

text \<open>The positions of the updates to apply, by falling priority; they share objects with the queue.\<close>

definition filter_and_sort_updates :: "string option \<Rightarrow> config_update list \<Rightarrow> nat list" where
  "filter_and_sort_updates max_priority q =
     (let min_level = (case str_or_none max_priority of None \<Rightarrow> 0 | Some p \<Rightarrow> dget_or priority_order p 0)
      in sort_key (\<lambda>i. - int (priority_level (q ! i)))
           (filter (\<lambda>i. min_level \<le> priority_level (q ! i)) [0..<length q]))"

record apply_entry =
  ae_update_id :: string
  ae_status :: string
  ae_target :: "string option"
  ae_config_key :: "string option"
  ae_error :: "exc option"

definition applied_entry :: "config_update \<Rightarrow> string \<Rightarrow> apply_entry" where
  "applied_entry u st = \<lparr>ae_update_id = cu_update_id u, ae_status = st,
     ae_target = Some (target_value (cu_target u)), ae_config_key = Some (cu_config_key u), ae_error = None\<rparr>"

text \<open>One round of the loop of \<open>_apply_filtered_updates\<close>, on the update at a position of the queue.\<close>

definition apply_one :: "nat \<Rightarrow> enforcer \<Rightarrow> enforcer \<times> apply_entry" where
  "apply_one i s =
     (let u = en_pending s ! i;
          put = (\<lambda>v s. s\<lparr>en_pending := (en_pending s)[i := v]\<rparr>)
      in if en_dry_run s
         then (put (u\<lparr>cu_status := Some ''simulated''\<rparr>) s, applied_entry u ''simulated'')
         else case update_file (config_path (en_config_dir s) (cu_target u)) u (en_disk s) of
           (dk, None) \<Rightarrow> (put (u\<lparr>cu_status := Some ''applied''\<rparr>) (s\<lparr>en_disk := dk\<rparr>), applied_entry u ''applied'')
         | (dk, Some e) \<Rightarrow> (put (u\<lparr>cu_status := Some ''failed'', cu_error := Some e\<rparr>) (s\<lparr>en_disk := dk\<rparr>),
              \<lparr>ae_update_id = cu_update_id u, ae_status = ''failed'', ae_target = None,
               ae_config_key = None, ae_error = Some e\<rparr>))"

fun apply_filtered_updates :: "nat list \<Rightarrow> enforcer \<Rightarrow> enforcer \<times> apply_entry list" where
  "apply_filtered_updates [] s = (s, [])"
| "apply_filtered_updates (i # is) s =
     (let (s1, r) = apply_one i s; (s2, rs) = apply_filtered_updates is s1 in (s2, r # rs))"

text \<open>Reading a missing \<open>status\<close> raises \<open>AttributeError\<close>.\<close>

definition cleanup_applied_updates :: "enforcer \<Rightarrow> exc + enforcer" where
  "cleanup_applied_updates s =
     (if list_ex (\<lambda>u. cu_status u = None) (en_pending s) then Inl AttributeError
      else Inr (s\<lparr>en_pending := filter (\<lambda>u. cu_status u = Some ''pending'') (en_pending s)\<rparr>))"

record apply_report =
  ar_applied :: int
  ar_failed :: int
  ar_total :: nat
  ar_results :: "apply_entry list"
  ar_dry_run :: bool

definition apply_pending :: "string option \<Rightarrow> enforcer \<Rightarrow> enforcer \<times> (exc + apply_report)" where
  "apply_pending max_priority s =
     (let (s1, rs) = apply_filtered_updates (filter_and_sort_updates max_priority (en_pending s)) s
      in case cleanup_applied_updates s1 of
           Inl e \<Rightarrow> (s1, Inl e)
         | Inr s2 \<Rightarrow> (s2, Inr \<lparr>ar_applied = count (\<lambda>r. ae_error r = None) rs,
             ar_failed = count (\<lambda>r. ae_error r \<noteq> None) rs, ar_total = length (en_pending s2),
             ar_results = rs, ar_dry_run = en_dry_run s2\<rparr>))"

subsection \<open>Single updates, backups and rollback\<close>

definition backup_path :: "string \<Rightarrow> time \<Rightarrow> string" where
  "backup_path p now = p @ ''.backup.'' @ dec_int (py_int now)"

definition backup_config :: "time \<Rightarrow> config_target \<Rightarrow> string \<Rightarrow> enforcer \<Rightarrow> enforcer" where
  "backup_config now t p s =
     (case file_at (en_disk s) p of
        No_File \<Rightarrow> s
      | f \<Rightarrow> (case write_file (backup_path p now) f (en_disk s) of
            (dk, Some e) \<Rightarrow> s\<lparr>en_disk := dk\<rparr>
          | (dk, None) \<Rightarrow> s\<lparr>en_disk := dk, en_snapshots := dset (target_value t) (backup_path p now, now) (en_snapshots s)\<rparr>))"

text \<open>An unreadable configuration counts as empty here.\<close>

definition load_config :: "string \<Rightarrow> disk \<Rightarrow> json" where
  "load_config p dk = (case read_config p dk of Inr c \<Rightarrow> c | Inl e \<Rightarrow> JObj [])"

definition enforcer_log_audit :: "time \<Rightarrow> config_update \<Rightarrow> enforcer \<Rightarrow> enforcer \<times> exc option" where
  "enforcer_log_audit now u s =
     (case append_line (os_join (en_config_dir s) ''enforcer_audit.jsonl'') (en_disk s) of
        (dk, Some e) \<Rightarrow> (s\<lparr>en_disk := dk\<rparr>, Some e)
      | (dk, None) \<Rightarrow> (s\<lparr>en_disk := dk, en_audit := en_audit s @
        [[(''event_type'', JStr ''CONFIG_UPDATE''), (''update_id'', JStr (cu_update_id u)),
          (''target'', JStr (target_value (cu_target u))), (''action'', JStr (action_value (cu_action u))),
          (''config_key'', JStr (cu_config_key u)), (''priority'', JStr (cu_priority u)),
          (''reason'', JStr (cu_reason u)),
          (''source_event_id'', (case cu_source_event_id u of None \<Rightarrow> JNull | Some x \<Rightarrow> JStr x)),
          (''defense_rule_id'', (case cu_defense_rule_id u of None \<Rightarrow> JNull | Some x \<Rightarrow> JStr x)),
          (''timestamp'', JFloat now)]]\<rparr>, None))"

text \<open>\<open>_apply_update\<close>, with the error it reports.\<close>

definition apply_update :: "time \<Rightarrow> config_update \<Rightarrow> enforcer \<Rightarrow> enforcer \<times> exc option" where
  "apply_update now u s =
     (if en_dry_run s then (s, None)
      else let p = config_path (en_config_dir s) (cu_target u);
               s1 = (if en_auto_backup s then backup_config now (cu_target u) p s else s)
           in case apply_to_config (load_config p (en_disk s1)) u of
                (c, Some e) \<Rightarrow> (s1, Some e)
              | (c, None) \<Rightarrow>
                  (case write_file p (Doc c) (en_disk s1) of
                     (dk, Some e) \<Rightarrow> (s1\<lparr>en_disk := dk\<rparr>, Some e)
                   | (dk, None) \<Rightarrow> enforcer_log_audit now u (s1\<lparr>en_disk := dk\<rparr>)))"

definition rollback_target :: "config_target \<Rightarrow> enforcer \<Rightarrow> enforcer \<times> int" where
  "rollback_target t s =
     (case dget (en_snapshots s) (target_value t) of
        None \<Rightarrow> (s, 0)
      | Some (b, _) \<Rightarrow>
          (case file_at (en_disk s) b of
             No_File \<Rightarrow> (s, 0)
           | f \<Rightarrow> (case write_file (config_path (en_config_dir s) t) f (en_disk s) of
                 (dk, Some e) \<Rightarrow> (s\<lparr>en_disk := dk\<rparr>, 0)
               | (dk, None) \<Rightarrow> (s\<lparr>en_disk := dk, en_stats := (en_stats s)\<lparr>es_rollbacks := es_rollbacks (en_stats s) + 1\<rparr>\<rparr>, 1))))"

fun rollback_targets :: "config_target list \<Rightarrow> enforcer \<Rightarrow> enforcer \<times> int" where
  "rollback_targets [] s = (s, 0)"
| "rollback_targets (t # ts) s =
     (let (s1, n) = rollback_target t s; (s2, n') = rollback_targets ts s1 in (s2, n + n'))"

definition rollback :: "config_target option \<Rightarrow> enforcer \<Rightarrow> enforcer \<times> int \<times> string list" where
  "rollback t s =
     (let ts = (case t of None \<Rightarrow> all_targets | Some x \<Rightarrow> [x]); (s', n) = rollback_targets ts s
      in (s', n, map target_value ts))"

record enforcer_report =
  er_total :: int
  er_applied :: int
  er_failed :: int
  er_pending :: int
  er_rollbacks :: int
  er_dry_run :: bool
  er_pending_updates :: "(string, json) dict list"
  er_recent_applied :: "(string, json) dict list"
  er_config_targets :: "(string, string) dict"

definition get_applied_updates :: "nat \<Rightarrow> enforcer \<Rightarrow> config_update list" where
  "get_applied_updates limit s = last_n limit (en_applied s)"

definition generate_update_report :: "enforcer \<Rightarrow> enforcer_report" where
  "generate_update_report s =
     \<lparr>er_total = es_total_updates (en_stats s), er_applied = es_applied_updates (en_stats s),
      er_failed = es_failed_updates (en_stats s), er_pending = es_pending_updates (en_stats s),
      er_rollbacks = es_rollbacks (en_stats s), er_dry_run = en_dry_run s,
      er_pending_updates = map cu_to_json (take 20 (en_pending s)),
      er_recent_applied = map cu_to_json (last_n 10 (en_applied s)),
      er_config_targets = map (\<lambda>t. (target_value t, config_path (en_config_dir s) t)) all_targets\<rparr>"

subsection \<open>What applying an update does\<close>

text \<open>The value at a path of keys.\<close>

fun get_path :: "string list \<Rightarrow> json \<Rightarrow> json option" where
  "get_path [] c = Some c"
| "get_path (k # ks) (JObj d) = (case dget d k of None \<Rightarrow> None | Some c \<Rightarrow> get_path ks c)"
| "get_path (k # ks) c = None"

text \<open>The value an action puts at its path.\<close>

fun put_value :: "change_action \<Rightarrow> json \<Rightarrow> json option" where
  "put_value CH_REMOVE v = None"
| "put_value CH_DISABLE v = Some (JBool False)"
| "put_value CH_ENABLE v = Some (JBool True)"
| "put_value CH_ADD v = Some v"
| "put_value CH_UPDATE v = Some v"

lemma dget_apply_leaf: "dget (apply_leaf a v k d) x = (if x = k then put_value a v else dget d x)"
  by (cases a) (simp_all add: dget_dset dget_ddel)

lemma split_dot_ne [simp]: "split_dot s \<noteq> []"
  by (induction s) (auto split: list.split)

lemma apply_path_sets:
  "apply_path a v ks c = (c', None) \<Longrightarrow> ks \<noteq> [] \<Longrightarrow> get_path ks c' = put_value a v"
proof (induction a v ks c arbitrary: c' rule: apply_path.induct)
  case (2 a v k d)
  then show ?case by (auto simp: dget_apply_leaf split: option.split)
next
  case (3 a v k k' ks d)
  obtain x e where x: "apply_path a v (k' # ks) (case dget d k of Some c \<Rightarrow> c | None \<Rightarrow> JObj []) = (x, e)" by fastforce
  then have "e = None" "c' = JObj (dset k x d)" using 3 by (auto simp: Let_def)
  then show ?case using 3 x by (simp add: dget_dset)
qed (auto split: if_splits)

lemma apply_path_frame:
  "apply_path a v ks c = (c', e) \<Longrightarrow> \<not> prefix q ks \<Longrightarrow> \<not> prefix ks q \<Longrightarrow> get_path q c' = get_path q c"
proof (induction a v ks c arbitrary: c' e q rule: apply_path.induct)
  case (2 a v k d)
  then obtain x q' where q: "q = x # q'" "x \<noteq> k" by (cases q) auto
  have "c' = JObj (apply_leaf a v k d)" using 2 by simp
  then show ?case using q by (simp add: dget_apply_leaf)
next
  case (3 a v k k' ks d)
  let ?c = "case dget d k of Some c \<Rightarrow> c | None \<Rightarrow> JObj []"
  obtain x e' where x: "apply_path a v (k' # ks) ?c = (x, e')" by fastforce
  then have c': "c' = JObj (dset k x d)" using 3 by (auto simp: Let_def)
  obtain y q' where q: "q = y # q'" using 3 by (cases q) auto
  show ?case
  proof (cases "y = k")
    case False
    then show ?thesis by (simp add: c' q dget_dset)
  next
    case True
    then have np: "\<not> prefix q' (k' # ks)" "\<not> prefix (k' # ks) q'" using 3 q by auto
    then have "get_path q' x = get_path q' ?c" using 3(1) x by blast
    moreover have "get_path q' (JObj []) = None" using np(1) by (cases q') auto
    ultimately show ?thesis using True by (auto simp: c' q dget_dset split: option.split)
  qed
qed auto

lemma apply_to_config_sets:
  assumes "apply_to_config c u = (c', None)"
  shows "get_path (split_dot (cu_config_key u)) c' = put_value (cu_action u) (cu_config_value u)"
    "\<not> prefix q (split_dot (cu_config_key u)) \<Longrightarrow> \<not> prefix (split_dot (cu_config_key u)) q \<Longrightarrow> get_path q c' = get_path q c"
  using assms apply_path_sets apply_path_frame unfolding apply_to_config_def by (auto simp del: split_dot.simps)

lemma file_at_write: "write_file p f dk = (dk', None) \<Longrightarrow> file_at dk' q = (if q = p then f else file_at dk q)"
  by (auto simp: write_file_def file_at_def dget_or_def dget_dset split: if_splits)

text \<open>A write that fails leaves its file as it was or cut, and every other as it was.\<close>

lemma file_at_failed_write:
  "write_file p f dk = (dk', Some e) \<Longrightarrow> file_at dk' q =
     (if q = p \<and> dk_ok dk \<and> dk_breaks dk (dk_writes dk) then Corrupt else file_at dk q) \<and> e = OSError"
  by (auto simp: write_file_def file_at_def dget_or_def dget_dset split: if_splits)

lemma write_file_frame:
  "write_file p f dk = (dk', e) \<Longrightarrow> dk_ok dk' = dk_ok dk \<and> dk_breaks dk' = dk_breaks dk \<and> dk_logs dk' = dk_logs dk \<and>
     dk_writes dk' = dk_writes dk + (if dk_ok dk then 1 else 0)"
  by (auto simp: write_file_def split: if_splits)

lemma append_line_frame:
  "append_line p dk = (dk', e) \<Longrightarrow> dk_ok dk' = dk_ok dk \<and> dk_breaks dk' = dk_breaks dk \<and> dk_files dk' = dk_files dk \<and>
     (\<forall>q. q \<noteq> p \<longrightarrow> dget (dk_logs dk') q = dget (dk_logs dk) q)"
  by (auto simp: append_line_def dget_dset split: if_splits)

text \<open>A disk on which writing works.\<close>

definition sound_disk :: "disk \<Rightarrow> bool" where
  "sound_disk dk \<longleftrightarrow> dk_ok dk \<and> (\<forall>n. \<not> dk_breaks dk n)"

lemma sound_new_disk [simp]: "sound_disk (new_disk fs ok) = ok"
  by (simp add: sound_disk_def)

lemma write_sound:
  "sound_disk dk \<Longrightarrow> \<exists>dk'. write_file p f dk = (dk', None) \<and> sound_disk dk' \<and> dk_files dk' = dset p f (dk_files dk)"
  by (simp add: sound_disk_def write_file_def)

lemma update_file_cases:
  assumes "update_file p u dk = (dk', None)"
  obtains c c' where "read_config p dk = Inr c" "apply_to_config c u = (c', None)" "write_file p (Doc c') dk = (dk', None)"
  using assms by (auto simp: update_file_def split: if_splits sum.splits prod.splits option.splits)

lemma update_file_failed:
  assumes "update_file p u dk = (dk', Some e)"
  shows "dk' = dk \<and> (dk_ok dk \<longrightarrow> (\<forall>c c'. read_config p dk = Inr c \<longrightarrow> apply_to_config c u \<noteq> (c', None))) \<or>
    (\<exists>c c'. read_config p dk = Inr c \<and> apply_to_config c u = (c', None) \<and> write_file p (Doc c') dk = (dk', Some e))"
  using assms by (auto simp: update_file_def split: if_splits sum.splits prod.splits option.splits)

lemma update_sound: "sound_disk dk \<Longrightarrow> sound_disk (fst (update_file p u dk))"
  by (auto simp: update_file_def write_file_def sound_disk_def split: sum.split prod.split option.split)

subsection \<open>Dots in keys\<close>

definition apply_all :: "config_update list \<Rightarrow> json \<Rightarrow> json" where
  "apply_all us c = fold (\<lambda>u c. fst (apply_to_config c u)) us c"

lemma make_update_simps [simp]:
  "cu_config_key (make_update now r e uid t a desc key val prio reason) = key"
  "cu_action (make_update now r e uid t a desc key val prio reason) = a"
  "cu_config_value (make_update now r e uid t a desc key val prio reason) = val"
  by (simp_all add: make_update_def)

text \<open>
  A network isolation rule does not put the internal networks on the egress blacklist: the
  dots of the addresses are taken as path separators, so that after its updates the list has no
  entry for any of the five networks but nested dictionaries keyed by the numbers in them.
\<close>

theorem network_blacklist_is_nested:
  "map (\<lambda>cidr. get_path [''egress_blacklist'', cidr] (apply_all (generate_network_updates now r e base) (JObj [])))
     internal_cidrs = replicate 5 None \<and>
   get_path [''egress_blacklist'', ''10'', ''0'', ''0'', ''0/8'']
     (apply_all (generate_network_updates now r e base) (JObj [])) =
     Some (JObj [(''action'', JStr ''DROP''), (''reason'', JStr ''internal network'')])"
proof -
  have keys: "apply_all (generate_network_updates now r e base) (JObj []) =
      fold (\<lambda>cidr c. fst (apply_path CH_ADD (JObj [(''action'', JStr ''DROP''), (''reason'', JStr ''internal network'')])
        (split_dot (''egress_blacklist.'' @ cidr)) c)) internal_cidrs (JObj [])"
    by (simp add: apply_all_def generate_network_updates_def enumerate_def internal_cidrs_def apply_to_config_def
        upt_rec del: split_dot.simps)
  show ?thesis
    unfolding keys by (simp add: internal_cidrs_def Let_def numeral_eq_Suc)
qed

subsection \<open>Applying the queue\<close>

text \<open>One update on the disk: one that fails changes nothing, unless its write breaks off.\<close>

definition try_update :: "string \<Rightarrow> config_update \<Rightarrow> disk \<Rightarrow> disk" where
  "try_update dir u dk = fst (update_file (config_path dir (cu_target u)) u dk)"

lemma apply_one_frame:
  assumes "apply_one i s = (s', r)" "i < length (en_pending s)"
  shows "length (en_pending s') = length (en_pending s)"
    "\<And>j. j \<noteq> i \<Longrightarrow> en_pending s' ! j = en_pending s ! j" "cu_status (en_pending s' ! i) \<in> Some ` {''simulated'', ''applied'', ''failed''}"
    "en_dry_run s' = en_dry_run s" "en_config_dir s' = en_config_dir s" "en_snapshots s' = en_snapshots s"
    "ae_update_id r = cu_update_id (en_pending s ! i)"
    "en_disk s' = (if en_dry_run s then en_disk s else try_update (en_config_dir s) (en_pending s ! i) (en_disk s))"
  using assms
  by (auto simp: apply_one_def Let_def try_update_def applied_entry_def split: if_splits prod.splits option.splits)

text \<open>The effect of the loop, for distinct positions of the queue.\<close>

lemma apply_filtered_frame:
  assumes "apply_filtered_updates ps s = (s', rs)" "\<forall>i\<in>set ps. i < length (en_pending s)" "distinct ps"
  shows "length (en_pending s') = length (en_pending s) \<and>
    (\<forall>j. j \<notin> set ps \<longrightarrow> en_pending s' ! j = en_pending s ! j) \<and>
    (\<forall>i\<in>set ps. cu_status (en_pending s' ! i) \<in> Some ` {''simulated'', ''applied'', ''failed''}) \<and>
    en_snapshots s' = en_snapshots s \<and> en_dry_run s' = en_dry_run s \<and> en_config_dir s' = en_config_dir s \<and>
    map ae_update_id rs = map (\<lambda>i. cu_update_id (en_pending s ! i)) ps \<and>
    en_disk s' = (if en_dry_run s then en_disk s
                  else fold (\<lambda>i. try_update (en_config_dir s) (en_pending s ! i)) ps (en_disk s))"
  using assms
proof (induction ps arbitrary: s s' rs)
  case Nil
  then show ?case by auto
next
  case (Cons i ps)
  obtain s1 r where one: "apply_one i s = (s1, r)" by fastforce
  obtain s2 rs2 where rest: "apply_filtered_updates ps s1 = (s2, rs2)" by fastforce
  have eq: "s' = s2" "rs = r # rs2" using Cons.prems(1) one rest by auto
  have il: "i < length (en_pending s)" using Cons.prems(2) by simp
  note f = apply_one_frame [OF one il]
  have IH: "length (en_pending s2) = length (en_pending s1) \<and>
    (\<forall>j. j \<notin> set ps \<longrightarrow> en_pending s2 ! j = en_pending s1 ! j) \<and>
    (\<forall>i\<in>set ps. cu_status (en_pending s2 ! i) \<in> Some ` {''simulated'', ''applied'', ''failed''}) \<and>
    en_snapshots s2 = en_snapshots s1 \<and> en_dry_run s2 = en_dry_run s1 \<and> en_config_dir s2 = en_config_dir s1 \<and>
    map ae_update_id rs2 = map (\<lambda>i. cu_update_id (en_pending s1 ! i)) ps \<and>
    en_disk s2 = (if en_dry_run s1 then en_disk s1
                  else fold (\<lambda>i. try_update (en_config_dir s1) (en_pending s1 ! i)) ps (en_disk s1))"
    using Cons.IH [OF rest] Cons.prems(2,3) f(1) by simp
  have same: "en_pending s1 ! j = en_pending s ! j" if j: "j \<in> set ps" for j
  proof -
    have "j \<noteq> i" using Cons.prems(3) j by auto
    then show ?thesis by (rule f(2))
  qed
  have folds: "fold (\<lambda>i. try_update (en_config_dir s1) (en_pending s1 ! i)) ps dk =
      fold (\<lambda>i. try_update (en_config_dir s) (en_pending s ! i)) ps dk" for dk
    by (rule fold_cong) (auto simp: f(5) same)
  have ids: "map (\<lambda>i. cu_update_id (en_pending s1 ! i)) ps = map (\<lambda>i. cu_update_id (en_pending s ! i)) ps"
    using same by simp
  have st: "cu_status (en_pending s2 ! i) \<in> Some ` {''simulated'', ''applied'', ''failed''}"
    using IH f(3) Cons.prems(3) by simp
  show ?case using IH f(1,2,4,5,6,7,8) folds ids st by (simp add: eq)
qed

lemma map_insort: "map g (insort_key (\<lambda>a. f (g a)) x xs) = insort_key f (g x) (map g xs)"
  by (induction xs) auto

lemma map_sort_key: "map g (sort_key (\<lambda>a. f (g a)) xs) = sort_key f (map g xs)"
  by (induction xs) (simp_all add: map_insort)

lemma fold_map_nth: "fold (\<lambda>i. f (xs ! i)) ps z = fold f (map (nth xs) ps) z"
  by (simp add: fold_map comp_def)

definition by_priority :: "config_update list \<Rightarrow> config_update list" where
  "by_priority us = sort_key (\<lambda>u. - int (priority_level u)) us"

definition bound_level :: "string option \<Rightarrow> nat" where
  "bound_level mp = (case str_or_none mp of None \<Rightarrow> 0 | Some p \<Rightarrow> dget_or priority_order p 0)"

lemma apply_pending_eligible:
  assumes "\<forall>u\<in>set (en_pending s). bound_level mp \<le> priority_level u"
  shows "\<exists>rep. snd (apply_pending mp s) = Inr rep \<and> en_pending (fst (apply_pending mp s)) = [] \<and>
    en_disk (fst (apply_pending mp s)) = (if en_dry_run s then en_disk s
      else fold (try_update (en_config_dir s)) (by_priority (en_pending s)) (en_disk s)) \<and>
    map ae_update_id (ar_results rep) = map cu_update_id (by_priority (en_pending s)) \<and>
    ar_applied rep + ar_failed rep = int (length (en_pending s)) \<and> ar_total rep = 0 \<and>
    en_snapshots (fst (apply_pending mp s)) = en_snapshots s \<and>
    en_dry_run (fst (apply_pending mp s)) = en_dry_run s \<and> en_config_dir (fst (apply_pending mp s)) = en_config_dir s"
proof -
  let ?q = "en_pending s"
  define ps where "ps = filter_and_sort_updates mp ?q"
  obtain s1 rs where loop: "apply_filtered_updates ps s = (s1, rs)" by fastforce
  have is_eq: "ps = sort_key (\<lambda>i. - int (priority_level (?q ! i))) [0..<length ?q]"
    using assms by (simp add: ps_def filter_and_sort_updates_def bound_level_def)
  have "map (nth ?q) ps = by_priority (map (nth ?q) [0..<length ?q])"
    unfolding by_priority_def is_eq by (rule map_sort_key)
  then have sorted: "map (nth ?q) ps = by_priority ?q" by (simp add: map_nth)
  have set_is: "set ps = {0..<length ?q}" "distinct ps" by (simp_all add: is_eq)
  have f: "length (en_pending s1) = length ?q"
    "\<forall>i\<in>set ps. cu_status (en_pending s1 ! i) \<in> Some ` {''simulated'', ''applied'', ''failed''}"
    "en_snapshots s1 = en_snapshots s"
    "map ae_update_id rs = map (\<lambda>i. cu_update_id (?q ! i)) ps"
    "en_disk s1 = (if en_dry_run s then en_disk s else fold (\<lambda>i. try_update (en_config_dir s) (?q ! i)) ps (en_disk s))"
    "en_dry_run s1 = en_dry_run s" "en_config_dir s1 = en_config_dir s"
    using apply_filtered_frame [OF loop] set_is by auto
  have all: "\<forall>u\<in>set (en_pending s1). cu_status u \<noteq> None \<and> cu_status u \<noteq> Some ''pending''"
  proof
    fix u assume "u \<in> set (en_pending s1)"
    then obtain j where j: "j < length ?q" "u = en_pending s1 ! j" using f(1) by (auto simp: in_set_conv_nth)
    then have "cu_status u \<in> Some ` {''simulated'', ''applied'', ''failed''}" using f(2) set_is(1) by simp
    then show "cu_status u \<noteq> None \<and> cu_status u \<noteq> Some ''pending''" by auto
  qed
  have clean: "cleanup_applied_updates s1 = Inr (s1\<lparr>en_pending := []\<rparr>)"
    using all by (auto simp: cleanup_applied_updates_def list_ex_iff filter_empty_conv)
  have sp: "apply_pending mp s = (s1\<lparr>en_pending := []\<rparr>,
      Inr \<lparr>ar_applied = count (\<lambda>r. ae_error r = None) rs, ar_failed = count (\<lambda>r. ae_error r \<noteq> None) rs,
        ar_total = 0, ar_results = rs, ar_dry_run = en_dry_run s1\<rparr>)"
    using loop clean by (simp add: apply_pending_def ps_def [symmetric])
  have "length rs = length ps" using arg_cong [OF f(4), of length] by simp
  also have "\<dots> = length ?q" by (simp add: is_eq)
  finally have len: "count (\<lambda>r. ae_error r = None) rs + count (\<lambda>r. ae_error r \<noteq> None) rs = int (length ?q)"
    using sum_length_filter_compl [of "\<lambda>r. ae_error r = None" rs] by (simp add: count_def)
  have "map ae_update_id rs = map cu_update_id (by_priority ?q)"
    unfolding sorted [symmetric] f(4) by simp
  then show ?thesis
    using f(3,5-7) len unfolding sp fold_map_nth sorted by simp
qed

text \<open>
  C12. Outside dry-run mode and without a priority bound every queued update is applied once, by falling
  priority and first come first served within one: the disk is changed by the updates in that order (one that fails
  changes nothing, unless its write breaks off, which leaves its file cut), the results list them in that order, and
  the queue is empty. The total reported is always 0, as it is counted after the queue is emptied, and no
  backup is taken.
\<close>

theorem apply_pending_applies_all:
  assumes "en_dry_run s = False"
  shows "\<exists>rep. snd (apply_pending None s) = Inr rep \<and> en_pending (fst (apply_pending None s)) = [] \<and>
    en_disk (fst (apply_pending None s)) = fold (try_update (en_config_dir s)) (by_priority (en_pending s)) (en_disk s) \<and>
    map ae_update_id (ar_results rep) = map cu_update_id (by_priority (en_pending s)) \<and>
    ar_applied rep + ar_failed rep = int (length (en_pending s)) \<and> ar_total rep = 0 \<and>
    en_snapshots (fst (apply_pending None s)) = en_snapshots s"
  using apply_pending_eligible [of s None] assms by (auto simp: bound_level_def str_or_none_def)

definition demo_update :: "string \<Rightarrow> string \<Rightarrow> config_update" where
  "demo_update uid prio = \<lparr>cu_update_id = uid, cu_target = AUDIT_CONFIG, cu_action = CH_ENABLE,
     cu_description = [], cu_config_key = ''hmac'', cu_config_value = JNull, cu_priority = prio,
     cu_reason = [], cu_source_event_id = None, cu_defense_rule_id = None, cu_timestamp = 0,
     cu_applied = False, cu_applied_at = None,
      cu_rollback_snapshot = None, cu_status = None, cu_error = None\<rparr>"

definition demo_enforcer :: enforcer where
  "demo_enforcer = enqueue_updates [demo_update ''a'' ''low'', demo_update ''b'' ''high'']
     (init_enforcer ''etc'' False True None (new_disk [] True))"

theorem apply_pending_applies_all_witness:
  "en_pending (fst (apply_pending None demo_enforcer)) = [] \<and> en_pending demo_enforcer \<noteq> []"
proof -
  have d: "en_dry_run demo_enforcer = False" "en_pending demo_enforcer \<noteq> []"
    by (simp_all add: demo_enforcer_def enqueue_updates_def enqueue_update_def init_enforcer_def Let_def)
  from apply_pending_applies_all [OF d(1)] d(2) show ?thesis by blast
qed

text \<open>
  With a priority bound the call raises as soon as one update lies below it: the updates at or
  above the bound have been applied to the disk, but no report is returned and every update stays
  in the queue, to be applied again by the next call.
\<close>

theorem priority_bound_raises:
  assumes "u \<in> set (en_pending s)" "cu_status u = None" "prio \<noteq> []"
    and "priority_level u < dget_or priority_order prio 0"
  shows "snd (apply_pending (Some prio) s) = Inl AttributeError \<and>
    length (en_pending (fst (apply_pending (Some prio) s))) = length (en_pending s) \<and>
    en_disk (fst (apply_pending (Some prio) s)) =
      (if en_dry_run s then en_disk s
       else fold (\<lambda>i. try_update (en_config_dir s) (en_pending s ! i))
              (filter_and_sort_updates (Some prio) (en_pending s)) (en_disk s))"
proof -
  define ps where "ps = filter_and_sort_updates (Some prio) (en_pending s)"
  obtain s1 rs where loop: "apply_filtered_updates ps s = (s1, rs)" by fastforce
  have is_eq: "ps = sort_key (\<lambda>i. - int (priority_level (en_pending s ! i)))
      (filter (\<lambda>i. dget_or priority_order prio 0 \<le> priority_level (en_pending s ! i)) [0..<length (en_pending s)])"
    using assms(3) by (simp add: ps_def filter_and_sort_updates_def str_or_none_def split: list.split)
  obtain k where k: "k < length (en_pending s)" "en_pending s ! k = u" using assms(1) by (auto simp: in_set_conv_nth)
  have kn: "k \<notin> set ps" using assms(4) k by (simp add: is_eq)
  have f: "length (en_pending s1) = length (en_pending s)" "en_pending s1 ! k = u"
    "en_disk s1 = (if en_dry_run s then en_disk s
                  else fold (\<lambda>i. try_update (en_config_dir s) (en_pending s ! i)) ps (en_disk s))"
    using apply_filtered_frame [OF loop] kn k by (auto simp: is_eq)
  have "u \<in> set (en_pending s1)" using f(1,2) k(1) by (metis nth_mem)
  then have "cleanup_applied_updates s1 = Inl AttributeError"
    using assms(2) by (auto simp: cleanup_applied_updates_def list_ex_iff)
  then show ?thesis using loop f by (simp add: apply_pending_def ps_def)
qed

theorem priority_bound_raises_witness:
  "snd (apply_pending (Some ''high'') demo_enforcer) = Inl AttributeError"
  using priority_bound_raises [of "demo_update ''a'' ''low''" demo_enforcer "''high''"]
  by (simp add: demo_enforcer_def enqueue_updates_def enqueue_update_def init_enforcer_def Let_def
      demo_update_def priority_level_def priority_order_def dget_or_def)

subsection \<open>Backups\<close>

lemma backup_path_ne: "backup_path p now \<noteq> p"
  by (simp add: backup_path_def)

lemma backup_sound:
  assumes "sound_disk (en_disk s)"
  shows "sound_disk (en_disk (backup_config now t p s)) \<and> en_config_dir (backup_config now t p s) = en_config_dir s \<and>
    (if file_at (en_disk s) p = No_File then backup_config now t p s = s
     else file_at (en_disk (backup_config now t p s)) (backup_path p now) = file_at (en_disk s) p \<and>
       file_at (en_disk (backup_config now t p s)) p = file_at (en_disk s) p \<and>
       en_snapshots (backup_config now t p s) = dset (target_value t) (backup_path p now, now) (en_snapshots s))"
proof -
  obtain dk where w: "write_file (backup_path p now) (file_at (en_disk s) p) (en_disk s) = (dk, None)" "sound_disk dk"
    using write_sound [OF assms] by blast
  have "file_at dk q = (if q = backup_path p now then file_at (en_disk s) p else file_at (en_disk s) q)" for q
    by (rule file_at_write [OF w(1)])
  then show ?thesis using assms w backup_path_ne [of p now] by (auto simp: backup_config_def split: disk_file.split)
qed

text \<open>
  An update applied with a backup is undone by rolling its target back, on a disk on which writing works: the
  configuration file is what it was before. A file that did not exist and has no older backup is not removed.
\<close>

theorem rollback_undoes_update:
  assumes "apply_update now u s = (s1, None)" "\<not> en_dry_run s" "en_auto_backup s" "sound_disk (en_disk s)"
  shows "if file_at (en_disk s) (config_path (en_config_dir s) (cu_target u)) \<noteq> No_File
    then file_at (en_disk (fst (rollback (Some (cu_target u)) s1))) (config_path (en_config_dir s) (cu_target u)) =
           file_at (en_disk s) (config_path (en_config_dir s) (cu_target u)) \<and> fst (snd (rollback (Some (cu_target u)) s1)) = 1
    else dget (en_snapshots s) (target_value (cu_target u)) = None \<longrightarrow> rollback (Some (cu_target u)) s1 = (s1, 0, [target_value (cu_target u)])"
proof -
  let ?p = "config_path (en_config_dir s) (cu_target u)"
  let ?b = "backup_path ?p now" and ?s1 = "backup_config now (cu_target u) ?p s"
  note b = backup_sound [OF assms(4), of now "cu_target u" ?p]
  obtain c dk where c: "write_file ?p (Doc c) (en_disk ?s1) = (dk, None)" "enforcer_log_audit now u (?s1\<lparr>en_disk := dk\<rparr>) = (s1, None)"
    using assms(1-3) by (auto simp: apply_update_def Let_def split: prod.splits option.splits)
  have s1: "en_snapshots s1 = en_snapshots ?s1" "en_config_dir s1 = en_config_dir s" "dk_files (en_disk s1) = dk_files dk" "sound_disk (en_disk s1)"
    using c(2) b write_file_frame [OF c(1)] by (auto simp: enforcer_log_audit_def sound_disk_def dest: append_line_frame split: prod.splits option.splits)
  show ?thesis
  proof (cases "file_at (en_disk s) ?p = No_File")
    case True
    then show ?thesis using b s1 by (simp add: rollback_def rollback_target_def)
  next
    case False
    have f: "file_at (en_disk s1) ?b = file_at (en_disk s) ?p"
      using b False file_at_write [OF c(1), of ?b] s1(3) by (simp add: backup_path_ne file_at_def)
    obtain dk2 where w: "write_file ?p (file_at (en_disk s) ?p) (en_disk s1) = (dk2, None)"
      using write_sound [OF s1(4)] by blast
    have "rollback_target (cu_target u) s1 =
        (s1\<lparr>en_disk := dk2, en_stats := (en_stats s1)\<lparr>es_rollbacks := es_rollbacks (en_stats s1) + 1\<rparr>\<rparr>, 1)"
      using b False s1 f w by (cases "file_at (en_disk s) ?p") (simp_all add: rollback_target_def dget_dset)
    then show ?thesis using False file_at_write [OF w] by (simp add: rollback_def)
  qed
qed

definition demo_dir :: enforcer where
  "demo_dir = init_enforcer ''etc'' False True None
     (new_disk [(config_path ''etc'' AUDIT_CONFIG, Doc (JObj [(''hmac'', JBool False)]))] True)"

theorem rollback_undoes_update_witness:
  "file_at (en_disk (fst (rollback (Some AUDIT_CONFIG) (fst (apply_update 1000 (demo_update ''a'' ''low'') demo_dir)))))
     (config_path ''etc'' AUDIT_CONFIG) = Doc (JObj [(''hmac'', JBool False)])"
proof -
  have d: "en_dry_run demo_dir = False" "en_auto_backup demo_dir" "en_config_dir demo_dir = ''etc''"
    "file_at (en_disk demo_dir) (config_path ''etc'' AUDIT_CONFIG) = Doc (JObj [(''hmac'', JBool False)])" "sound_disk (en_disk demo_dir)"
    by (simp_all add: demo_dir_def init_enforcer_def file_at_def dget_or_def)
  have u: "cu_target (demo_update ''a'' ''low'') = AUDIT_CONFIG" by (simp add: demo_update_def)
  let ?s1 = "backup_config 1000 AUDIT_CONFIG (config_path ''etc'' AUDIT_CONFIG) demo_dir"
  note b = backup_sound [OF d(5), of 1000 AUDIT_CONFIG "config_path ''etc'' AUDIT_CONFIG"]
  have ld: "apply_to_config (load_config (config_path ''etc'' AUDIT_CONFIG) (en_disk ?s1)) (demo_update ''a'' ''low'') = (JObj [(''hmac'', JBool True)], None)"
    using b d(4) by (simp add: load_config_def read_config_def apply_to_config_def demo_update_def)
  obtain dk where w: "write_file (config_path ''etc'' AUDIT_CONFIG) (Doc (JObj [(''hmac'', JBool True)])) (en_disk ?s1) = (dk, None)" "sound_disk dk"
    using write_sound b by blast
  then obtain s1 where "apply_update 1000 (demo_update ''a'' ''low'') demo_dir = (s1, None)"
    using d u ld by (auto simp: apply_update_def Let_def enforcer_log_audit_def append_line_def sound_disk_def)
  from rollback_undoes_update [OF this] this show ?thesis using d u by simp
qed

end
