(* ===== verification/Defense_Executor.thy ===== *)
theory Defense_Executor
  imports Config_Enforcer
begin

text \<open>
  \<open>evolution/defense_executor.py\<close>: executing configuration updates, with a gate for dangerous ones,
  a copy of the configuration taken before, a check of what was written after, and rollback. The
  executor uses the enforcer's paths and its way of changing a configuration. The copy shares its
  objects with the configuration a simulation changes, which the model writes out. Writing a configuration cuts its file
  first (\<open>write_file\<close> of \<open>Config_Enforcer\<close>), so that a write that breaks off leaves a cut file. Every execution appends a line
  to a log beside the configurations, in every mode: the disk counts its lines, \<open>xe_audit\<close> holds those written whole.
\<close>

subsection \<open>Data\<close>

datatype exec_mode = EM_DRY_RUN | EM_SIMULATE | EM_APPLY

fun mode_value :: "exec_mode \<Rightarrow> string" where
  "mode_value EM_DRY_RUN = ''dry_run''"
| "mode_value EM_SIMULATE = ''simulate''"
| "mode_value EM_APPLY = ''apply''"

datatype exec_status = ES_PENDING | ES_APPLYING | ES_SUCCESS | ES_FAILED | ES_ROLLED_BACK | ES_SKIPPED

fun exec_status_value :: "exec_status \<Rightarrow> string" where
  "exec_status_value ES_PENDING = ''pending''"
| "exec_status_value ES_APPLYING = ''applying''"
| "exec_status_value ES_SUCCESS = ''success''"
| "exec_status_value ES_FAILED = ''failed''"
| "exec_status_value ES_ROLLED_BACK = ''rolled_back''"
| "exec_status_value ES_SKIPPED = ''skipped''"

text \<open>The error text of a result: none, the request for confirmation, or what was raised.\<close>

datatype exec_error = No_Error | Needs_Confirmation | Raised exc | Raised_Twice exc exc

record exec_result =
  xr_update_id :: string
  xr_status :: exec_status
  xr_target :: config_target
  xr_action :: change_action
  xr_config_key :: string
  xr_config_value :: json
  xr_applied_at :: time
  xr_duration_ms :: rat
  xr_error :: exec_error
  xr_snapshot :: "json option"
  xr_verification_passed :: bool

record exec_counts =
  xc_total :: int
  xc_success :: int
  xc_failed :: int
  xc_rolled_back :: int
  xc_skipped :: int

record exec_audit =
  xa_result :: exec_result
  xa_mode :: string
  xa_timestamp :: time

record executor =
  xe_config_dir :: string
  xe_mode :: exec_mode
  xe_auto_verify :: bool
  xe_auto_rollback :: bool
  xe_require_confirmation :: bool
  xe_disk :: disk
  xe_history :: "exec_result list"
  xe_confirmed :: "string list"
  xe_counts :: exec_counts
  xe_audit :: "exec_audit list"

definition init_executor :: "string \<Rightarrow> exec_mode \<Rightarrow> bool \<Rightarrow> bool \<Rightarrow> bool \<Rightarrow> disk \<Rightarrow> executor" where
  "init_executor dir mode verify roll confirm dk =
     \<lparr>xe_config_dir = dir, xe_mode = mode, xe_auto_verify = verify, xe_auto_rollback = roll,
      xe_require_confirmation = confirm, xe_disk = dk, xe_history = [], xe_confirmed = [],
      xe_counts = \<lparr>xc_total = 0, xc_success = 0, xc_failed = 0, xc_rolled_back = 0, xc_skipped = 0\<rparr>,
      xe_audit = []\<rparr>"

definition HIGH_RISK_ACTIONS :: "(config_target \<times> change_action) list" where
  "HIGH_RISK_ACTIONS = [(LIGHTPOOL_SECCOMP, CH_REMOVE), (RUNTIME_GUARD, CH_DISABLE), (AUDIT_CONFIG, CH_DISABLE)]"

definition is_high_risk :: "config_update \<Rightarrow> bool" where
  "is_high_risk u \<longleftrightarrow> (cu_target u, cu_action u) \<in> set HIGH_RISK_ACTIONS"

definition confirm_update :: "string \<Rightarrow> executor \<Rightarrow> executor" where
  "confirm_update uid s = s\<lparr>xe_confirmed := List.insert uid (xe_confirmed s)\<rparr>"

definition create_execution_result :: "config_update \<Rightarrow> exec_result" where
  "create_execution_result u =
     \<lparr>xr_update_id = cu_update_id u, xr_status = ES_PENDING, xr_target = cu_target u,
      xr_action = cu_action u, xr_config_key = cu_config_key u, xr_config_value = cu_config_value u,
      xr_applied_at = 0, xr_duration_ms = 0, xr_error = No_Error, xr_snapshot = None,
      xr_verification_passed = False\<rparr>"

subsection \<open>Checking what was written\<close>

definition expected_value :: "config_update \<Rightarrow> json" where
  "expected_value u = (case cu_action u of CH_DISABLE \<Rightarrow> JBool False | CH_ENABLE \<Rightarrow> JBool True | _ \<Rightarrow> cu_config_value u)"

fun verify_path :: "bool \<Rightarrow> json \<Rightarrow> string list \<Rightarrow> json \<Rightarrow> exc + bool" where
  "verify_path rem v [] c = Inr True"
| "verify_path rem v [k] c =
     (case c of
        JObj d \<Rightarrow> Inr (if rem then dget d k = None else py_eq (dget_or d k JNull) v)
      | JStr s \<Rightarrow> (if rem then Inr (\<not> contains k s) else Inl AttributeError)
      | JList xs \<Rightarrow> (if rem then Inr (JStr k \<notin> set xs) else Inl AttributeError)
      | _ \<Rightarrow> Inl (if rem then TypeError else AttributeError))"
| "verify_path rem v (k # k' # ks) c =
     (case c of
        JObj d \<Rightarrow> (case dget d k of None \<Rightarrow> Inr rem | Some c' \<Rightarrow> verify_path rem v (k' # ks) c')
      | JStr s \<Rightarrow> (if contains k s then Inl TypeError else Inr rem)
      | JList xs \<Rightarrow> (if JStr k \<in> set xs then Inl TypeError else Inr rem)
      | _ \<Rightarrow> Inl TypeError)"

definition exec_path :: "executor \<Rightarrow> config_target \<Rightarrow> string" where
  "exec_path s t = config_path (xe_config_dir s) t"

definition verify_applied :: "config_update \<Rightarrow> executor \<Rightarrow> exc + bool" where
  "verify_applied u s =
     (case file_at (xe_disk s) (exec_path s (cu_target u)) of
        Doc c \<Rightarrow> verify_path (cu_action u = CH_REMOVE) (expected_value u) (split_dot (cu_config_key u)) c
      | _ \<Rightarrow> Inr False)"

subsection \<open>Executing\<close>

definition verify_update_safe :: "config_update \<Rightarrow> exc option" where
  "verify_update_safe u =
     (if cu_config_key u = [] then Some ValueError
      else if cu_config_value u = JNull \<and> cu_action u \<noteq> CH_REMOVE then Some ValueError else None)"

definition executor_backup :: "config_target \<Rightarrow> executor \<Rightarrow> json option" where
  "executor_backup t s = (case file_at (xe_disk s) (exec_path s t) of Doc c \<Rightarrow> Some c | _ \<Rightarrow> None)"

fun is_object :: "json \<Rightarrow> bool" where
  "is_object (JObj d) = True"
| "is_object c = False"

text \<open>
  A simulation changes the copy itself when that is not empty, and a new dictionary otherwise: the
  copy afterwards, and the exception.
\<close>

definition simulate_apply :: "config_update \<Rightarrow> json option \<Rightarrow> json option \<times> exc option" where
  "simulate_apply u snap =
     (case snap of
        Some c \<Rightarrow>
          (if truthy c then (case apply_to_config c u of
               (c', Some e) \<Rightarrow> (Some c', Some e)
             | (c', None) \<Rightarrow> (Some c', if is_object c' then None else Some RuntimeError))
           else (snap, snd (apply_to_config (JObj []) u)))
      | None \<Rightarrow> (None, snd (apply_to_config (JObj []) u)))"

text \<open>The disk and the copy after the attempt, and what was raised or the verification mark.\<close>

definition execute_by_mode :: "config_update \<Rightarrow> json option \<Rightarrow> executor \<Rightarrow> executor \<times> json option \<times> (exc + bool)" where
  "execute_by_mode u snap s =
     (case xe_mode s of
        EM_DRY_RUN \<Rightarrow> (s, snap, case verify_update_safe u of Some e \<Rightarrow> Inl e | None \<Rightarrow> Inr True)
      | EM_SIMULATE \<Rightarrow>
          (case simulate_apply u snap of (snap', Some e) \<Rightarrow> (s, snap', Inl e) | (snap', None) \<Rightarrow> (s, snap', Inr True))
      | EM_APPLY \<Rightarrow>
          (case update_file (exec_path s (cu_target u)) u (xe_disk s) of
             (dk, Some e) \<Rightarrow> (s\<lparr>xe_disk := dk\<rparr>, snap, Inl e)
           | (dk, None) \<Rightarrow>
               (let s' = s\<lparr>xe_disk := dk\<rparr>
                in if \<not> xe_auto_verify s then (s', snap, Inr False)
                   else case verify_applied u s' of
                       Inl e \<Rightarrow> (s', snap, Inl e)
                     | Inr ok \<Rightarrow> (s', snap, if ok then Inr True else Inl RuntimeError))))"

definition handle_failure :: "config_target \<Rightarrow> json option \<Rightarrow> exc \<Rightarrow> executor \<Rightarrow> executor \<times> exec_status \<times> exec_error" where
  "handle_failure t snap e s =
     (case snap of
        Some c \<Rightarrow>
          (if \<not> xe_auto_rollback s \<or> \<not> truthy c then (s, ES_FAILED, Raised e)
           else case write_file (exec_path s t) (Doc c) (xe_disk s) of
               (dk, Some e') \<Rightarrow> (s\<lparr>xe_disk := dk\<rparr>, ES_FAILED, Raised_Twice e e')
             | (dk, None) \<Rightarrow> (s\<lparr>xe_disk := dk, xe_counts := (xe_counts s)\<lparr>xc_rolled_back := xc_rolled_back (xe_counts s) + 1\<rparr>\<rparr>,
                 ES_ROLLED_BACK, Raised e))
      | None \<Rightarrow> (s, ES_FAILED, Raised e))"

definition audit_path :: "string \<Rightarrow> string" where
  "audit_path dir = os_join dir ''defense_executor_audit.jsonl''"

text \<open>The lines of the log on the disk.\<close>

definition log_lines :: "executor \<Rightarrow> nat" where
  "log_lines s = dget_or (dk_logs (xe_disk s)) (audit_path (xe_config_dir s)) 0"

text \<open>Writing the audit line can raise, which loses the result.\<close>

definition finalize_execution :: "time \<Rightarrow> time \<Rightarrow> exec_result \<Rightarrow> executor \<Rightarrow> executor \<times> (exc + exec_result)" where
  "finalize_execution start fin r s =
     (let r' = r\<lparr>xr_applied_at := fin, xr_duration_ms := (fin - start) * 1000\<rparr>
      in case append_line (audit_path (xe_config_dir s)) (xe_disk s) of
           (dk, Some e) \<Rightarrow> (s\<lparr>xe_disk := dk\<rparr>, Inl e)
         | (dk, None) \<Rightarrow>
             (let c = xe_counts s;
                  c1 = c\<lparr>xc_total := xc_total c + 1\<rparr>;
                  c2 = (case xr_status r of
                           ES_SUCCESS \<Rightarrow> c1\<lparr>xc_success := xc_success c + 1\<rparr>
                         | ES_FAILED \<Rightarrow> c1\<lparr>xc_failed := xc_failed c + 1\<rparr>
                         | _ \<Rightarrow> c1)
              in (s\<lparr>xe_disk := dk, xe_audit := xe_audit s @ [\<lparr>xa_result = r', xa_mode = mode_value (xe_mode s), xa_timestamp = fin\<rparr>],
                    xe_counts := c2, xe_history := xe_history s @ [r']\<rparr>, Inr r')))"

definition must_skip :: "config_update \<Rightarrow> executor \<Rightarrow> bool" where
  "must_skip u s \<longleftrightarrow> is_high_risk u \<and> xe_require_confirmation s \<and> cu_update_id u \<notin> set (xe_confirmed s)"

definition execute_update :: "time \<Rightarrow> time \<Rightarrow> config_update \<Rightarrow> executor \<Rightarrow> executor \<times> (exc + exec_result)" where
  "execute_update start fin u s =
     (let r = create_execution_result u
      in if must_skip u s
         then (let r' = r\<lparr>xr_status := ES_SKIPPED, xr_error := Needs_Confirmation\<rparr>
               in (s\<lparr>xe_counts := (xe_counts s)\<lparr>xc_skipped := xc_skipped (xe_counts s) + 1\<rparr>,
                     xe_history := xe_history s @ [r']\<rparr>, Inr r'))
         else (case execute_by_mode u (executor_backup (cu_target u) s) s of
             (s1, snap, Inr passed) \<Rightarrow>
               finalize_execution start fin
                 (r\<lparr>xr_status := ES_SUCCESS, xr_snapshot := snap, xr_verification_passed := passed\<rparr>) s1
           | (s1, snap, Inl e) \<Rightarrow>
               (let (s2, st, err) = handle_failure (cu_target u) snap e s1
                in finalize_execution start fin
                     (r\<lparr>xr_status := st, xr_error := err, xr_snapshot := snap, xr_verification_passed := False\<rparr>) s2)))"

fun execute_updates :: "(time \<times> time \<times> config_update) list \<Rightarrow> executor \<Rightarrow> executor \<times> (exc + exec_result list)" where
  "execute_updates [] s = (s, Inr [])"
| "execute_updates ((start, fin, u) # us) s =
     (case execute_update start fin u s of
        (s1, Inl e) \<Rightarrow> (s1, Inl e)
      | (s1, Inr r) \<Rightarrow>
          (case execute_updates us s1 of
             (s2, Inl e) \<Rightarrow> (s2, Inl e)
           | (s2, Inr rs) \<Rightarrow> (s2, Inr (r # rs))))"

subsection \<open>Rolling back and reporting\<close>

text \<open>One result of the history, by its position.\<close>

definition rollback_one :: "nat \<Rightarrow> executor \<Rightarrow> executor \<times> int" where
  "rollback_one i s =
     (let r = xe_history s ! i
      in case xr_snapshot r of
           None \<Rightarrow> (s, 0)
         | Some c \<Rightarrow>
             (if xr_status r \<noteq> ES_SUCCESS \<or> \<not> truthy c then (s, 0)
              else case write_file (exec_path s (xr_target r)) (Doc c) (xe_disk s) of
                  (dk, Some e) \<Rightarrow> (s\<lparr>xe_disk := dk\<rparr>, 0)
                | (dk, None) \<Rightarrow> (s\<lparr>xe_disk := dk, xe_history := (xe_history s)[i := r\<lparr>xr_status := ES_ROLLED_BACK\<rparr>]\<rparr>, 1)))"

fun rollback_positions :: "nat list \<Rightarrow> executor \<Rightarrow> executor \<times> int" where
  "rollback_positions [] s = (s, 0)"
| "rollback_positions (i # ps) s =
     (let (s1, n) = rollback_one i s; (s2, n') = rollback_positions ps s1 in (s2, n + n'))"

text \<open>\<open>reversed(history[-count:])\<close>; a count of 0 takes the whole history.\<close>

definition rollback_last :: "nat \<Rightarrow> executor \<Rightarrow> executor \<times> int" where
  "rollback_last n s = rollback_positions (rev (last_n n [0..<length (xe_history s)])) s"

record exec_view =
  xv_update_id :: string
  xv_status :: string
  xv_target :: string
  xv_action :: string
  xv_config_key :: string
  xv_applied_at :: time
  xv_duration_ms :: rat
  xv_error :: exec_error
  xv_verification_passed :: bool

definition xr_to_dict :: "exec_result \<Rightarrow> exec_view" where
  "xr_to_dict r = \<lparr>xv_update_id = xr_update_id r, xv_status = exec_status_value (xr_status r),
     xv_target = target_value (xr_target r), xv_action = action_value (xr_action r),
     xv_config_key = xr_config_key r, xv_applied_at = xr_applied_at r, xv_duration_ms = xr_duration_ms r,
     xv_error = xr_error r, xv_verification_passed = xr_verification_passed r\<rparr>"

definition get_recent_executions :: "nat \<Rightarrow> executor \<Rightarrow> exec_view list" where
  "get_recent_executions limit s = map xr_to_dict (last_n limit (xe_history s))"

record exec_report =
  xp_counts :: exec_counts
  xp_mode :: string
  xp_history_count :: nat
  xp_success_rate :: rat

definition executor_get_stats :: "executor \<Rightarrow> exec_report" where
  "executor_get_stats s =
     \<lparr>xp_counts = xe_counts s, xp_mode = mode_value (xe_mode s), xp_history_count = length (xe_history s),
      xp_success_rate = (if xc_total (xe_counts s) > 0
        then of_int (xc_success (xe_counts s)) / of_int (xc_total (xe_counts s)) else 0)\<rparr>"

subsection \<open>Changing and checking\<close>

text \<open>
  The interface between changing a configuration and checking the change: what is written
  passes the check, and a change that fails leaves the configuration as it was.
\<close>

locale checked_change =
  fixes change :: "'u \<Rightarrow> 'c \<Rightarrow> 'c \<times> exc option"
    and check :: "'u \<Rightarrow> 'c \<Rightarrow> exc + bool"
    and fine :: "'u \<Rightarrow> bool"
  assumes check_change: "fine u \<Longrightarrow> change u c = (c', None) \<Longrightarrow> check u c' = Inr True"
    and failed_change: "change u c = (c', Some e) \<Longrightarrow> c' = c"
begin

lemma change_all_or_nothing:
  "fine u \<Longrightarrow> check u (fst (change u c)) = Inr True \<or> fst (change u c) = c"
  using check_change [of u c] failed_change [of u c] by (cases "change u c"; cases "snd (change u c)") auto

end

text \<open>Dictionaries have distinct keys at every level.\<close>

fun json_ok :: "json \<Rightarrow> bool" where
  "json_ok (JList xs) = (\<forall>x\<in>set xs. json_ok x)"
| "json_ok (JObj d) = (wf_dict d \<and> (\<forall>p\<in>set d. json_ok (snd p)))"
| "json_ok _ = True"

lemma py_eq_refl: "json_ok c \<Longrightarrow> py_eq c c"
proof (induction c rule: json_ok.induct)
  case (1 xs)
  then have "\<forall>p\<in>set (zip xs xs). py_eq (fst p) (snd p)" by (auto simp: zip_same_conv_map)
  then show ?case by (simp add: py_eq.simps)
next
  case (2 d)
  have "case dget d (fst p) of None \<Rightarrow> False | Some w \<Rightarrow> py_eq (snd p) w" if "p \<in> set d" for p
  proof -
    have "dget d (fst p) = Some (snd p)" using 2(2) that mem_dict_iff [of d "fst p" "snd p"] by simp
    then show ?thesis using 2 that by simp
  qed
  then show ?case by (simp add: py_eq.simps [of "JObj d"])
qed (simp_all add: py_eq.simps)

lemma put_value_expected:
  "put_value (cu_action u) (cu_config_value u) = (if cu_action u = CH_REMOVE then None else Some (expected_value u))"
  by (cases "cu_action u") (simp_all add: expected_value_def)

lemma verify_after_apply:
  "apply_path a v ks c = (c', None) \<Longrightarrow> ks \<noteq> [] \<Longrightarrow> (a \<noteq> CH_REMOVE \<Longrightarrow> put_value a v = Some w \<and> py_eq w w) \<Longrightarrow>
   verify_path (a = CH_REMOVE) w ks c' = Inr True"
proof (induction a v ks c arbitrary: c' rule: apply_path.induct)
  case (2 a v k d)
  then have c': "c' = JObj (apply_leaf a v k d)" by simp
  show ?case
  proof (cases "a = CH_REMOVE")
    case True
    then show ?thesis by (simp add: c' dget_ddel)
  next
    case False
    then show ?thesis using 2(3) by (simp add: c' dget_or_def dget_apply_leaf)
  qed
next
  case (3 a v k k' ks d)
  obtain x e where x: "apply_path a v (k' # ks) (case dget d k of Some c \<Rightarrow> c | None \<Rightarrow> JObj []) = (x, e)" by fastforce
  then have "e = None" "c' = JObj (dset k x d)" using 3 by (auto simp: Let_def)
  then show ?case using 3 x by (simp add: dget_dset)
qed (auto split: if_splits)

lemma failed_apply_path:
  "apply_path a v ks c = (c', Some e) \<Longrightarrow> c' = c"
proof (induction a v ks c arbitrary: c' rule: apply_path.induct)
  case (3 a v k k' ks d)
  have new: "snd (apply_path a v js (JObj [])) = None" if "js \<noteq> []" for js
  proof -
    have "snd (apply_path a v (j # js) (JObj [])) = None" for j js
      by (induction js arbitrary: j) (auto simp: Let_def case_prod_unfold)
    then show ?thesis using that by (cases js) auto
  qed
  obtain x e' where x: "apply_path a v (k' # ks) (case dget d k of Some c \<Rightarrow> c | None \<Rightarrow> JObj []) = (x, e')" by fastforce
  then have e: "e' = Some e" "c' = JObj (dset k x d)" using 3(2) by (auto simp: Let_def)
  show ?case
  proof (cases "dget d k")
    case None
    then show ?thesis using x e new [of "k' # ks"] by simp
  next
    case (Some c)
    then have "x = c" using 3(1) x e by simp
    moreover have "dset k c d = d" using Some by (induction d) (auto split: if_splits)
    ultimately show ?thesis using e by simp
  qed
qed auto


interpretation enforcer_change: checked_change "\<lambda>u c. apply_to_config c u"
  "\<lambda>u c. verify_path (cu_action u = CH_REMOVE) (expected_value u) (split_dot (cu_config_key u)) c"
  "\<lambda>u. json_ok (cu_config_value u)"
proof unfold_locales
  fix u c c'
  assume ok: "json_ok (cu_config_value u)" and ap: "apply_to_config c u = (c', None)"
  have "json_ok (expected_value u)" using ok by (simp add: expected_value_def split: change_action.split)
  then show "verify_path (cu_action u = CH_REMOVE) (expected_value u) (split_dot (cu_config_key u)) c' = Inr True"
    using ap put_value_expected [of u] unfolding apply_to_config_def
    by (intro verify_after_apply) (auto intro: py_eq_refl)
next
  show "c' = c" if "apply_to_config c u = (c', Some e)" for u c c' e
    using that unfolding apply_to_config_def by (rule failed_apply_path)
qed

subsection \<open>Properties\<close>

definition same_files :: "disk \<Rightarrow> disk \<Rightarrow> bool" where
  "same_files dk dk' \<longleftrightarrow> (\<forall>p. file_at dk' p = file_at dk p)"

lemma same_files_refl [simp]: "same_files dk dk"
  by (simp add: same_files_def)

lemma backup_Some: "executor_backup t s = Some c \<longleftrightarrow> file_at (xe_disk s) (exec_path s t) = Doc c"
  by (auto simp: executor_backup_def split: disk_file.splits)



lemma failure_keeps_files:
  assumes "snap = executor_backup t s" "handle_failure t snap e s = (s', st, err)" "\<forall>n. \<not> dk_breaks (xe_disk s) n"
  shows "same_files (xe_disk s) (xe_disk s')"
proof (cases snap)
  case None
  then show ?thesis using assms(2) by (auto simp: handle_failure_def)
next
  case (Some c)
  then have f: "file_at (xe_disk s) (exec_path s t) = Doc c" using assms(1) backup_Some by simp
  show ?thesis
    using assms(2,3) f
    by (auto simp: Some handle_failure_def same_files_def write_file_def file_at_def dget_or_def dget_dset
        split: if_splits)
qed

lemma finalize_frame:
  assumes "finalize_execution start fin r s = (s', q)"
  shows "file_at (xe_disk s') p = file_at (xe_disk s) p" "dk_breaks (xe_disk s') = dk_breaks (xe_disk s)"
    "\<And>p. p \<noteq> audit_path (xe_config_dir s) \<Longrightarrow> dget (dk_logs (xe_disk s')) p = dget (dk_logs (xe_disk s)) p"
    "\<And>r'. q = Inr r' \<Longrightarrow> xr_status r' = xr_status r \<and> xr_error r' = xr_error r"
    "\<And>r'. q = Inr r' \<Longrightarrow> dk_ok (xe_disk s)"
proof -
  obtain dk e where a: "append_line (audit_path (xe_config_dir s)) (xe_disk s) = (dk, e)" by fastforce
  have s': "xe_disk s' = dk" "\<And>r'. q = Inr r' \<Longrightarrow> e = None \<and> xr_status r' = xr_status r \<and> xr_error r' = xr_error r"
    using assms a by (cases e; auto simp: finalize_execution_def Let_def)+
  show "file_at (xe_disk s') p = file_at (xe_disk s) p" "dk_breaks (xe_disk s') = dk_breaks (xe_disk s)"
    "\<And>p. p \<noteq> audit_path (xe_config_dir s) \<Longrightarrow> dget (dk_logs (xe_disk s')) p = dget (dk_logs (xe_disk s)) p"
    "\<And>r'. q = Inr r' \<Longrightarrow> xr_status r' = xr_status r \<and> xr_error r' = xr_error r"
    using append_line_frame [OF a] s' by (simp_all add: file_at_def)
  show "dk_ok (xe_disk s)" if "q = Inr r'" for r'
    using s'(2) [OF that] a by (auto simp: append_line_def split: if_splits)
qed






definition demo_executor :: "exec_mode \<Rightarrow> executor" where
  "demo_executor mode = init_executor ''etc'' mode True True True
     (new_disk [(config_path ''etc'' AUDIT_CONFIG, Doc (JObj [(''hmac'', JBool False)]))] True)"

lemma demo_executor_facts:
  "file_at (xe_disk (demo_executor mode)) (exec_path (demo_executor mode) AUDIT_CONFIG) = Doc (JObj [(''hmac'', JBool False)])"
  "\<not> must_skip (demo_update ''a'' ''low'') (demo_executor mode)" "xe_mode (demo_executor mode) = mode"
  "sound_disk (xe_disk (demo_executor mode))"
  by (simp_all add: demo_executor_def init_executor_def file_at_def dget_or_def exec_path_def must_skip_def
      is_high_risk_def HIGH_RISK_ACTIONS_def demo_update_def)

lemma demo_update_facts:
  "apply_to_config (JObj [(''hmac'', JBool False)]) (demo_update ''a'' ''low'') = (JObj [(''hmac'', JBool True)], None)"
  "cu_target (demo_update ''a'' ''low'') = AUDIT_CONFIG"
  by (simp_all add: demo_update_def apply_to_config_def)




lemma apply_nonobject: "apply_path a v ks c = (c', None) \<Longrightarrow> \<not> is_object c' \<Longrightarrow> c' = c"
  by (induction a v ks c rule: apply_path.induct) (auto simp: Let_def split: prod.splits if_splits)

lemma simulate_failed: "simulate_apply u snap = (snap', Some e) \<Longrightarrow> snap' = snap"
  using enforcer_change.failed_change [of _ u]
  by (auto simp: simulate_apply_def apply_to_config_def dest!: apply_nonobject
      split: option.splits if_splits prod.splits)

text \<open>
  Executing an update changes no configuration in the dry-run and simulation modes when no write breaks off, failures
  and their rollbacks included, and in no mode when the update is one of the dangerous ones and its identifier
  has not been confirmed.
\<close>

theorem no_file_changes_without_apply:
  assumes "(xe_mode s \<noteq> EM_APPLY \<and> (\<forall>n. \<not> dk_breaks (xe_disk s) n)) \<or>
    (is_high_risk u \<and> xe_require_confirmation s \<and> cu_update_id u \<notin> set (xe_confirmed s))"
  shows "\<forall>p. file_at (xe_disk (fst (execute_update start fin u s))) p = file_at (xe_disk s) p"
proof (cases "must_skip u s")
  case True
  then show ?thesis by (simp add: execute_update_def Let_def)
next
  case ns: False
  let ?snap = "executor_backup (cu_target u) s"
  have mode: "xe_mode s \<noteq> EM_APPLY" "\<forall>n. \<not> dk_breaks (xe_disk s) n" using assms ns by (auto simp: must_skip_def)
  obtain s1 snap res where ex: "execute_by_mode u ?snap s = (s1, snap, res)" by (metis prod_cases3)
  have s1: "s1 = s" "\<And>e. res = Inl e \<Longrightarrow> snap = ?snap"
    using ex mode simulate_failed [of u ?snap]
    by (cases "xe_mode s"; auto simp: execute_by_mode_def split: prod.splits option.splits)+
  have fin: "file_at (xe_disk (fst (finalize_execution start fin r x))) p = file_at (xe_disk x) p" for r x p
    using finalize_frame(1) by (metis prod.collapse)
  show ?thesis
  proof (cases res)
    case (Inr passed)
    then show ?thesis using ex s1(1) ns by (simp add: execute_update_def Let_def fin)
  next
    case (Inl e)
    obtain s2 st err where h: "handle_failure (cu_target u) snap e s = (s2, st, err)" by (metis prod_cases3)
    then have "same_files (xe_disk s) (xe_disk s2)"
      using failure_keeps_files [OF _ h mode(2)] s1(2) [OF Inl] by blast
    then show ?thesis using ex h Inl s1(1) ns
      by (simp add: execute_update_def Let_def fin same_files_def)
  qed
qed

theorem no_file_changes_without_apply_witness:
  "file_at (xe_disk (fst (execute_update 1 2 (demo_update ''a'' ''low'') (demo_executor EM_SIMULATE))))
     (config_path ''etc'' AUDIT_CONFIG) = Doc (JObj [(''hmac'', JBool False)])"
  using no_file_changes_without_apply [of "demo_executor EM_SIMULATE" "demo_update ''a'' ''low''" 1 2]
    demo_executor_facts(1,3,4) [of EM_SIMULATE] demo_update_facts(2)
  by (simp add: exec_path_def sound_disk_def) (simp add: demo_executor_def init_executor_def)

text \<open>
  Rolling back a simulation applies it: a simulated update changes the copy taken before, so
  that rolling back the last execution writes the simulated configuration to the file, which the
  simulation itself had left alone.
\<close>

theorem rollback_applies_simulation:
  assumes "xe_mode s = EM_SIMULATE" "\<not> must_skip u s" "sound_disk (xe_disk s)"
    and "file_at (xe_disk s) (exec_path s (cu_target u)) = Doc (JObj (p # d))"
    and "apply_to_config (JObj (p # d)) u = (c', None)" "truthy c'" "is_object c'"
  shows "file_at (xe_disk (fst (execute_update start fin u s))) (exec_path s (cu_target u)) = Doc (JObj (p # d)) \<and>
    snd (rollback_last 1 (fst (execute_update start fin u s))) = 1 \<and>
    file_at (xe_disk (fst (rollback_last 1 (fst (execute_update start fin u s))))) (exec_path s (cu_target u)) = Doc c'"
proof -
  have b: "executor_backup (cu_target u) s = Some (JObj (p # d))" using assms(4) backup_Some by simp
  have "execute_by_mode u (Some (JObj (p # d))) s = (s, Some c', Inr True)"
    using assms(1,5,7) by (simp add: execute_by_mode_def simulate_apply_def)
  then obtain h r where e: "fst (execute_update start fin u s) = h" "dk_files (xe_disk h) = dk_files (xe_disk s)" "sound_disk (xe_disk h)"
    "xe_config_dir h = xe_config_dir s" "xe_history h = xe_history s @ [r]" "xr_status r = ES_SUCCESS" "xr_snapshot r = Some c'" "xr_target r = cu_target u"
    using assms(2,3) b by (simp add: execute_update_def Let_def finalize_execution_def append_line_def sound_disk_def create_execution_result_def)
  have l: "rev (last_n 1 [0..<length (xe_history h)]) = [length (xe_history s)]"
    by (simp add: e(5) last_n_def)
  have one: "rollback_last 1 h = rollback_positions [length (xe_history s)] h"
    unfolding rollback_last_def l ..
  obtain dk where w: "write_file (exec_path h (cu_target u)) (Doc c') (xe_disk h) = (dk, None)" using write_sound [OF e(3)] by blast
  have path: "exec_path h (cu_target u) = exec_path s (cu_target u)" using e(4) by (simp add: exec_path_def)
  have "rollback_one (length (xe_history s)) h = (h\<lparr>xe_disk := dk, xe_history := (xe_history h)[length (xe_history s) := r\<lparr>xr_status := ES_ROLLED_BACK\<rparr>]\<rparr>, 1)"
    using e(5-8) w assms(6) by (simp add: rollback_one_def Let_def)
  then show ?thesis
    unfolding one e(1) using e(2) assms(4) file_at_write [OF w] path by (simp add: file_at_def)
qed

theorem rollback_applies_simulation_witness:
  "file_at (xe_disk (fst (rollback_last 1 (fst (execute_update 1 2 (demo_update ''a'' ''low'') (demo_executor EM_SIMULATE))))))
     (config_path ''etc'' AUDIT_CONFIG) = Doc (JObj [(''hmac'', JBool True)])"
  using rollback_applies_simulation [of "demo_executor EM_SIMULATE" "demo_update ''a'' ''low''" "(''hmac'', JBool False)" "[]"
      "JObj [(''hmac'', JBool True)]" 1 2] demo_executor_facts [of EM_SIMULATE] demo_update_facts
  by (simp add: exec_path_def demo_executor_def init_executor_def)

end
