(* ===== verification/Ticket_System.thy ===== *)
theory Ticket_System
  imports Photon_Prelude
begin

text \<open>
  \<open>ops/ticket_system.py\<close>: operation tickets, their life cycle, deadlines, comments, history and
  statistics. A ticket is a value in the table of the system; the notification callback is a list
  of the calls made to it. \<open>cid\<close> is the identifier a comment gets, \<open>str_of\<close> stands for \<open>str\<close> on a JSON
  value, \<open>order\<close> for the order in which Python lists a set. Texts are given in English.
\<close>

subsection \<open>Data\<close>

datatype ticket_status = TK_CREATED | TK_TRIAGED | TK_IN_PROGRESS | TK_RESOLVED | TK_CLOSED
  | TK_ESCALATED | TK_REOPENED

fun ticket_status_value :: "ticket_status \<Rightarrow> string" where
  "ticket_status_value TK_CREATED = ''created''"
| "ticket_status_value TK_TRIAGED = ''triaged''"
| "ticket_status_value TK_IN_PROGRESS = ''in_progress''"
| "ticket_status_value TK_RESOLVED = ''resolved''"
| "ticket_status_value TK_CLOSED = ''closed''"
| "ticket_status_value TK_ESCALATED = ''escalated''"
| "ticket_status_value TK_REOPENED = ''reopened''"

definition all_statuses :: "ticket_status list" where
  "all_statuses = [TK_CREATED, TK_TRIAGED, TK_IN_PROGRESS, TK_RESOLVED, TK_CLOSED, TK_ESCALATED, TK_REOPENED]"

datatype ticket_priority = P1_CRITICAL | P2_HIGH | P3_MEDIUM | P4_LOW

fun ticket_priority_value :: "ticket_priority \<Rightarrow> string" where
  "ticket_priority_value P1_CRITICAL = ''P1_critical''"
| "ticket_priority_value P2_HIGH = ''P2_high''"
| "ticket_priority_value P3_MEDIUM = ''P3_medium''"
| "ticket_priority_value P4_LOW = ''P4_low''"

definition all_priorities :: "ticket_priority list" where
  "all_priorities = [P1_CRITICAL, P2_HIGH, P3_MEDIUM, P4_LOW]"

datatype ticket_category = SECURITY_THREAT | COMPLIANCE_VIOLATION | ESCAPE_ATTEMPT | RESOURCE_EXHAUSTION
  | SYSTEM_ERROR | PERFORMANCE_DEGRADATION | AUDIT_FAILURE | NETWORK_ISSUE | OTHER

fun category_value :: "ticket_category \<Rightarrow> string" where
  "category_value SECURITY_THREAT = ''security_threat''"
| "category_value COMPLIANCE_VIOLATION = ''compliance_violation''"
| "category_value ESCAPE_ATTEMPT = ''escape_attempt''"
| "category_value RESOURCE_EXHAUSTION = ''resource_exhaustion''"
| "category_value SYSTEM_ERROR = ''system_error''"
| "category_value PERFORMANCE_DEGRADATION = ''performance_degradation''"
| "category_value AUDIT_FAILURE = ''audit_failure''"
| "category_value NETWORK_ISSUE = ''network_issue''"
| "category_value OTHER = ''other''"

definition all_categories :: "ticket_category list" where
  "all_categories = [SECURITY_THREAT, COMPLIANCE_VIOLATION, ESCAPE_ATTEMPT, RESOURCE_EXHAUSTION,
     SYSTEM_ERROR, PERFORMANCE_DEGRADATION, AUDIT_FAILURE, NETWORK_ISSUE, OTHER]"

datatype sla_status = SLA_OK | SLA_WARNING | SLA_BREACHED

record ticket_comment =
  tc_id :: string
  tc_author :: string
  tc_content :: string
  tc_created_at :: time
  tc_attachments :: "string list"
  tc_internal :: bool

record ticket_history =
  th_timestamp :: time
  th_action :: string
  th_author :: string
  th_details :: "(string, json) dict"

record post_mortem =
  pm_root_cause :: string
  pm_impact :: string
  pm_timeline :: "string list"
  pm_corrective :: "string list"
  pm_preventive :: "string list"
  pm_lessons :: string
  pm_author :: string
  pm_completed_at :: time

record ticket =
  tk_id :: string
  tk_title :: string
  tk_description :: string
  tk_category :: ticket_category
  tk_priority :: ticket_priority
  tk_status :: ticket_status
  tk_assignee :: string
  tk_reporter :: string
  tk_created_at :: time
  tk_updated_at :: time
  tk_resolved_at :: time
  tk_closed_at :: time
  tk_response_deadline :: time
  tk_resolve_deadline :: time
  tk_comments :: "ticket_comment list"
  tk_history :: "ticket_history list"
  tk_tags :: "string list"
  tk_related :: "string list"
  tk_source_event :: "(string, json) dict"
  tk_post_mortem :: "post_mortem option"
  tk_escalation_count :: int
  tk_custom_fields :: "(string, json) dict"

record ticket_system =
  ts_tickets :: "(string, ticket) dict"
  ts_callback :: bool
  ts_counter :: nat
  ts_sent :: "(ticket \<times> string) list"

definition init_tickets :: "bool \<Rightarrow> ticket_system" where
  "init_tickets callback = \<lparr>ts_tickets = [], ts_callback = callback, ts_counter = 0, ts_sent = []\<rparr>"

fun SLA_RESPONSE :: "ticket_priority \<Rightarrow> time" where
  "SLA_RESPONSE P1_CRITICAL = 15 * 60"
| "SLA_RESPONSE P2_HIGH = 60 * 60"
| "SLA_RESPONSE P3_MEDIUM = 4 * 60 * 60"
| "SLA_RESPONSE P4_LOW = 24 * 60 * 60"

fun SLA_RESOLVE :: "ticket_priority \<Rightarrow> time" where
  "SLA_RESOLVE P1_CRITICAL = 1 * 60 * 60"
| "SLA_RESOLVE P2_HIGH = 4 * 60 * 60"
| "SLA_RESOLVE P3_MEDIUM = 24 * 60 * 60"
| "SLA_RESOLVE P4_LOW = 72 * 60 * 60"

definition EVENT_CATEGORY_MAP :: "(string, ticket_category) dict" where
  "EVENT_CATEGORY_MAP = map (\<lambda>c. (category_value c, c))
     [ESCAPE_ATTEMPT, SECURITY_THREAT, COMPLIANCE_VIOLATION, RESOURCE_EXHAUSTION, SYSTEM_ERROR,
      PERFORMANCE_DEGRADATION, AUDIT_FAILURE, NETWORK_ISSUE]"

definition RISK_PRIORITY_MAP :: "(string, ticket_priority) dict" where
  "RISK_PRIORITY_MAP = [(''critical'', P1_CRITICAL), (''high'', P2_HIGH), (''medium'', P3_MEDIUM), (''low'', P4_LOW)]"

subsection \<open>Creating tickets\<close>

definition add_history :: "time \<Rightarrow> string \<Rightarrow> string \<Rightarrow> (string, json) dict \<Rightarrow> ticket \<Rightarrow> ticket" where
  "add_history now action author details t =
     t\<lparr>tk_history := tk_history t @
        [\<lparr>th_timestamp = now, th_action = action, th_author = author, th_details = details\<rparr>]\<rparr>"

definition notify :: "ticket \<Rightarrow> string \<Rightarrow> ticket_system \<Rightarrow> ticket_system" where
  "notify t msg s = (if ts_callback s then s\<lparr>ts_sent := ts_sent s @ [(t, msg)]\<rparr> else s)"

definition ticket_id :: "nat \<Rightarrow> string" where
  "ticket_id n = ''PHOTON-'' @ pad_dec 6 n"

definition new_ticket :: "time \<Rightarrow> string \<Rightarrow> string \<Rightarrow> string \<Rightarrow> ticket_category \<Rightarrow> ticket_priority \<Rightarrow> string \<Rightarrow>
    (string, json) dict option \<Rightarrow> ticket" where
  "new_ticket now tid title desc cat prio reporter src =
     \<lparr>tk_id = tid, tk_title = title, tk_description = desc, tk_category = cat, tk_priority = prio,
      tk_status = TK_CREATED, tk_assignee = [], tk_reporter = reporter, tk_created_at = now,
      tk_updated_at = now, tk_resolved_at = 0, tk_closed_at = 0,
      tk_response_deadline = now + SLA_RESPONSE prio, tk_resolve_deadline = now + SLA_RESOLVE prio,
      tk_comments = [], tk_history = [], tk_tags = [], tk_related = [],
      tk_source_event = (case src of Some e \<Rightarrow> e | None \<Rightarrow> []), tk_post_mortem = None,
      tk_escalation_count = 0, tk_custom_fields = []\<rparr>"

definition create_ticket :: "time \<Rightarrow> string \<Rightarrow> string \<Rightarrow> ticket_category \<Rightarrow> ticket_priority \<Rightarrow> string \<Rightarrow>
    (string, json) dict option \<Rightarrow> ticket_system \<Rightarrow> ticket_system \<times> ticket" where
  "create_ticket now title desc cat prio reporter src s =
     (let n = ts_counter s + 1; tid = ticket_id n;
          t = add_history now ''created'' reporter [(''priority'', JStr (ticket_priority_value prio))]
                (new_ticket now tid title desc cat prio reporter src)
      in (notify t ''ticket created'' (s\<lparr>ts_counter := n, ts_tickets := dset tid t (ts_tickets s)\<rparr>), t))"

text \<open>A lookup in a dictionary keyed by strings, which an unhashable key breaks.\<close>

definition lookup_json :: "(string, 'v) dict \<Rightarrow> json \<Rightarrow> 'v \<Rightarrow> exc + 'v" where
  "lookup_json d k v =
     (case k of JStr x \<Rightarrow> Inr (dget_or d x v) | JList _ \<Rightarrow> Inl TypeError | JObj _ \<Rightarrow> Inl TypeError | _ \<Rightarrow> Inr v)"

definition generate_description :: "(json \<Rightarrow> string) \<Rightarrow> (string, json) dict \<Rightarrow> string" where
  "generate_description str_of e =
     join [CHR 0x0A]
       ([''ticket created automatically (from a sandbox event)'', [], ''details:''] @
        map (\<lambda>(k, v). ''  - '' @ k @ '': '' @ fstr str_of v) (filter (\<lambda>(k, v). k \<notin> set [''type'', ''risk_level'']) e) @
        [[], ''event type: '' @ fstr str_of (dget_or e ''type'' (JStr ''unknown'')),
         ''risk level: '' @ fstr str_of (dget_or e ''risk_level'' (JStr ''unknown''))])"

definition create_from_event :: "(json \<Rightarrow> string) \<Rightarrow> time \<Rightarrow> (string, json) dict \<Rightarrow> ticket_system \<Rightarrow>
    ticket_system \<times> (exc + ticket)" where
  "create_from_event str_of now e s =
     (let event_type = dget_or e ''type'' (JStr ''other'');
          risk_level = dget_or e ''risk_level'' (JStr ''medium'')
      in case lookup_json EVENT_CATEGORY_MAP event_type OTHER of
           Inl x \<Rightarrow> (s, Inl x)
         | Inr cat \<Rightarrow>
             (case lookup_json RISK_PRIORITY_MAP risk_level P3_MEDIUM of
                Inl x \<Rightarrow> (s, Inl x)
              | Inr prio \<Rightarrow>
                  (let title = ''['' @ category_value cat @ ''] '' @ fstr str_of event_type @ '' - '' @
                         fstr str_of (dget_or e ''container_id'' (JStr ''unknown''));
                       (s', t) = create_ticket now title (generate_description str_of e) cat prio
                         ''system-auto'' (Some e) s
                   in (s', Inr t))))"

subsection \<open>The life of a ticket\<close>

text \<open>What the operations on one ticket share: look it up, change it, and notify if there is a message.\<close>

definition on_ticket :: "string \<Rightarrow> (ticket \<Rightarrow> ticket) \<Rightarrow> (ticket \<Rightarrow> string option) \<Rightarrow> ticket_system \<Rightarrow>
    ticket_system \<times> ticket option" where
  "on_ticket tid f msg s =
     (case dget (ts_tickets s) tid of
        None \<Rightarrow> (s, None)
      | Some t \<Rightarrow>
          (let t' = f t; s' = s\<lparr>ts_tickets := dset tid t' (ts_tickets s)\<rparr>
           in (case msg t' of None \<Rightarrow> s' | Some m \<Rightarrow> notify t' m s', Some t')))"

definition new_comment :: "string \<Rightarrow> time \<Rightarrow> string \<Rightarrow> string \<Rightarrow> bool \<Rightarrow> ticket_comment" where
  "new_comment cid now author content internal =
     \<lparr>tc_id = cid, tc_author = author, tc_content = content, tc_created_at = now, tc_attachments = [],
      tc_internal = internal\<rparr>"

definition comment_on :: "string \<Rightarrow> time \<Rightarrow> string \<Rightarrow> string \<Rightarrow> bool \<Rightarrow> ticket \<Rightarrow> ticket" where
  "comment_on cid now author content internal t =
     t\<lparr>tk_comments := tk_comments t @ [new_comment cid now author content internal], tk_updated_at := now\<rparr>"

definition add_comment :: "string \<Rightarrow> time \<Rightarrow> string \<Rightarrow> string \<Rightarrow> string \<Rightarrow> bool \<Rightarrow> ticket_system \<Rightarrow>
    ticket_system \<times> ticket_comment option" where
  "add_comment cid now tid author content internal s =
     (let (s', r) = on_ticket tid (comment_on cid now author content internal) (\<lambda>t. None) s
      in (s', map_option (\<lambda>t. new_comment cid now author content internal) r))"

text \<open>\<open>x or y\<close> on strings.\<close>

definition or_else :: "string \<Rightarrow> string \<Rightarrow> string" where
  "or_else x y = (if x = [] then y else x)"

definition assign :: "string \<Rightarrow> time \<Rightarrow> string \<Rightarrow> string \<Rightarrow> string \<Rightarrow> ticket_system \<Rightarrow> ticket_system \<times> ticket option" where
  "assign cid now tid assignee comment s =
     on_ticket tid
       (\<lambda>t. let t1 = add_history now ''assigned'' assignee [(''from'', JStr (tk_assignee t)), (''to'', JStr assignee)]
                 (t\<lparr>tk_assignee := assignee, tk_status := TK_TRIAGED, tk_updated_at := now\<rparr>)
            in if comment = [] then t1 else comment_on cid now assignee comment False t1)
       (\<lambda>t. Some (''ticket assigned to '' @ assignee)) s"

definition start_progress :: "string \<Rightarrow> time \<Rightarrow> string \<Rightarrow> string \<Rightarrow> ticket_system \<Rightarrow> ticket_system \<times> ticket option" where
  "start_progress cid now tid comment s =
     on_ticket tid
       (\<lambda>t. let t1 = add_history now ''start_progress'' (or_else (tk_assignee t) ''system'') []
                 (t\<lparr>tk_status := TK_IN_PROGRESS, tk_updated_at := now\<rparr>)
            in if comment = [] then t1 else comment_on cid now (or_else (tk_assignee t) ''system'') comment False t1)
       (\<lambda>t. None) s"

definition resolve :: "string \<Rightarrow> time \<Rightarrow> string \<Rightarrow> string \<Rightarrow> string \<Rightarrow> ticket_system \<Rightarrow> ticket_system \<times> ticket option" where
  "resolve cid now tid resolution resolver s =
     on_ticket tid
       (\<lambda>t. let who = or_else resolver (tk_assignee t)
            in comment_on cid now who (''resolution: '' @ resolution) False
                 (add_history now ''resolved'' who [(''resolution'', JStr resolution)]
                   (t\<lparr>tk_status := TK_RESOLVED, tk_resolved_at := now, tk_updated_at := now\<rparr>)))
       (\<lambda>t. Some ''ticket resolved'') s"

definition close :: "time \<Rightarrow> string \<Rightarrow> string \<Rightarrow> ticket_system \<Rightarrow> ticket_system \<times> ticket option" where
  "close now tid closer s =
     (case dget (ts_tickets s) tid of
        None \<Rightarrow> (s, None)
      | Some t \<Rightarrow>
          (if tk_status t \<noteq> TK_RESOLVED \<and> tk_status t \<noteq> TK_REOPENED then (s, None)
           else on_ticket tid
             (\<lambda>t. add_history now ''closed'' (or_else closer (tk_assignee t)) []
                (t\<lparr>tk_status := TK_CLOSED, tk_closed_at := now, tk_updated_at := now\<rparr>))
             (\<lambda>t. Some ''ticket closed'') s))"

definition reopen :: "string \<Rightarrow> time \<Rightarrow> string \<Rightarrow> string \<Rightarrow> string \<Rightarrow> ticket_system \<Rightarrow> ticket_system \<times> ticket option" where
  "reopen cid now tid reason reopener s =
     on_ticket tid
       (\<lambda>t. let who = or_else reopener ''system''
            in comment_on cid now who (''reason for reopening: '' @ reason) False
                 (add_history now ''reopened'' who [(''reason'', JStr reason)]
                   (t\<lparr>tk_status := TK_REOPENED, tk_closed_at := 0, tk_updated_at := now\<rparr>)))
       (\<lambda>t. Some ''ticket reopened'') s"

definition escalate :: "time \<Rightarrow> string \<Rightarrow> string \<Rightarrow> string \<Rightarrow> ticket_system \<Rightarrow> ticket_system \<times> ticket option" where
  "escalate now tid reason escalator s =
     on_ticket tid
       (\<lambda>t. let n = tk_escalation_count t + 1
            in add_history now ''escalated'' (or_else escalator ''system'') [(''reason'', JStr reason), (''count'', JInt n)]
                 (t\<lparr>tk_status := TK_ESCALATED, tk_escalation_count := n, tk_updated_at := now\<rparr>))
       (\<lambda>t. Some (''ticket escalated (number '' @ dec_int (tk_escalation_count t) @ ''): '' @ reason)) s"

definition add_post_mortem :: "time \<Rightarrow> string \<Rightarrow> post_mortem \<Rightarrow> ticket_system \<Rightarrow> ticket_system \<times> ticket option" where
  "add_post_mortem now tid pm s =
     on_ticket tid
       (\<lambda>t. add_history now ''post_mortem_added'' (or_else (pm_author pm) ''system'')
              [(''root_cause'', JStr (pm_root_cause pm))]
              (t\<lparr>tk_post_mortem := Some (pm\<lparr>pm_completed_at := now\<rparr>), tk_updated_at := now\<rparr>))
       (\<lambda>t. None) s"

subsection \<open>Deadlines, listing, statistics\<close>

text \<open>The status of one deadline; the part of the time left below which a warning is due is a fifth.\<close>

definition deadline_status :: "time \<Rightarrow> time \<Rightarrow> time \<Rightarrow> sla_status" where
  "deadline_status now created deadline =
     (if now > deadline then SLA_BREACHED
      else let remaining = deadline - now; total = deadline - created
           in if total > 0 \<and> remaining < total * (2 / 10) then SLA_WARNING else SLA_OK)"

definition get_sla_status :: "time \<Rightarrow> ticket \<Rightarrow> (string, sla_status) dict" where
  "get_sla_status now t =
     [(''response'', if tk_status t = TK_CREATED
         then deadline_status now (tk_created_at t) (tk_response_deadline t) else SLA_OK),
      (''resolve'', if tk_status t \<notin> set [TK_RESOLVED, TK_CLOSED]
         then deadline_status now (tk_created_at t) (tk_resolve_deadline t) else SLA_OK)]"

definition get_ticket :: "string \<Rightarrow> ticket_system \<Rightarrow> ticket option" where
  "get_ticket tid s = dget (ts_tickets s) tid"

definition passes_filter :: "'a option \<Rightarrow> 'a \<Rightarrow> bool" where
  "passes_filter want x = (case want of None \<Rightarrow> True | Some y \<Rightarrow> x = y)"

definition list_tickets :: "ticket_status option \<Rightarrow> ticket_priority option \<Rightarrow> ticket_category option \<Rightarrow> string \<Rightarrow> nat \<Rightarrow>
    ticket_system \<Rightarrow> ticket list" where
  "list_tickets st pr cat who limit s =
     take limit (sort_key (\<lambda>t. - tk_created_at t)
       (filter (\<lambda>t. passes_filter st (tk_status t) \<and> passes_filter pr (tk_priority t) \<and>
           passes_filter cat (tk_category t) \<and> (who = [] \<or> tk_assignee t = who)) (vals (ts_tickets s))))"

record ticket_stats =
  tt_total :: nat
  tt_by_status :: "(string, int) dict"
  tt_by_priority :: "(string, int) dict"
  tt_by_category :: "(string, int) dict"
  tt_by_assignee :: "(string, int) dict"
  tt_sla_breached :: int
  tt_avg_resolution_ms :: rat
  tt_escalated :: int
  tt_post_mortems :: int

definition tally :: "('a \<Rightarrow> string) \<Rightarrow> (ticket \<Rightarrow> 'a) \<Rightarrow> 'a list \<Rightarrow> ticket list \<Rightarrow> (string, int) dict" where
  "tally name f xs ts =
     map (\<lambda>x. (name x, count (\<lambda>t. f t = x) ts)) (filter (\<lambda>x. count (\<lambda>t. f t = x) ts > 0) xs)"

definition ticket_statistics :: "(string list \<Rightarrow> string list) \<Rightarrow> time \<Rightarrow> ticket_system \<Rightarrow> ticket_stats" where
  "ticket_statistics order now s =
     (let ts = vals (ts_tickets s);
          assignees = order (remdups (filter (\<lambda>a. a \<noteq> []) (map tk_assignee ts)));
          resolved = filter (\<lambda>t. tk_resolved_at t > 0) ts
      in \<lparr>tt_total = length ts, tt_by_status = tally ticket_status_value tk_status all_statuses ts,
          tt_by_priority = tally ticket_priority_value tk_priority all_priorities ts,
          tt_by_category = tally category_value tk_category all_categories ts,
          tt_by_assignee = map (\<lambda>a. (a, count (\<lambda>t. tk_assignee t = a) ts)) assignees,
          tt_sla_breached = count (\<lambda>t. SLA_BREACHED \<in> set (vals (get_sla_status now t))) ts,
          tt_avg_resolution_ms = (if resolved = [] then 0
            else sum_list (map (\<lambda>t. tk_resolved_at t - tk_created_at t) resolved) / of_nat (length resolved) * 1000),
          tt_escalated = count (\<lambda>t. tk_escalation_count t > 0) ts,
          tt_post_mortems = count (\<lambda>t. tk_post_mortem t \<noteq> None) ts\<rparr>)"

text \<open>The document \<open>export_ticket\<close> writes.\<close>

definition ticket_json :: "ticket \<Rightarrow> (string, json) dict" where
  "ticket_json t =
     [(''id'', JStr (tk_id t)), (''title'', JStr (tk_title t)), (''description'', JStr (tk_description t)),
      (''category'', JStr (category_value (tk_category t))), (''priority'', JStr (ticket_priority_value (tk_priority t))),
      (''status'', JStr (ticket_status_value (tk_status t))), (''assignee'', JStr (tk_assignee t)),
      (''reporter'', JStr (tk_reporter t)), (''created_at'', JFloat (tk_created_at t)),
      (''updated_at'', JFloat (tk_updated_at t)), (''resolved_at'', JFloat (tk_resolved_at t)),
      (''closed_at'', JFloat (tk_closed_at t)),
      (''comments'', JList (map (\<lambda>c. JObj [(''author'', JStr (tc_author c)), (''content'', JStr (tc_content c)),
         (''created_at'', JFloat (tc_created_at c))]) (tk_comments t))),
      (''history'', JList (map (\<lambda>h. JObj [(''action'', JStr (th_action h)), (''author'', JStr (th_author h)),
         (''timestamp'', JFloat (th_timestamp h))]) (tk_history t))),
      (''source_event'', JObj (tk_source_event t)), (''escalation_count'', JInt (tk_escalation_count t))] @
     (case tk_post_mortem t of None \<Rightarrow> []
      | Some pm \<Rightarrow> [(''post_mortem'', JObj [(''root_cause'', JStr (pm_root_cause pm)),
          (''corrective_actions'', JList (map JStr (pm_corrective pm))),
          (''preventive_actions'', JList (map JStr (pm_preventive pm))),
          (''lessons_learned'', JStr (pm_lessons pm))])])"

text \<open>The result, and the document if one is written; opening the file may raise.\<close>

definition export_ticket :: "bool \<Rightarrow> string \<Rightarrow> ticket_system \<Rightarrow> exc + (bool \<times> json option)" where
  "export_ticket writable tid s =
     (case dget (ts_tickets s) tid of
        None \<Rightarrow> Inr (False, None)
      | Some t \<Rightarrow> (if writable then Inr (True, Some (JObj (ticket_json t))) else Inl OSError))"

subsection \<open>Operations\<close>

datatype ticket_op =
    Op_Create string string ticket_category ticket_priority string "(string, json) dict option"
  | Op_From_Event "(string, json) dict"
  | Op_Assign string string string
  | Op_Start string string
  | Op_Resolve string string string
  | Op_Close string string
  | Op_Reopen string string string
  | Op_Escalate string string string
  | Op_Comment string string string bool
  | Op_Post_Mortem string post_mortem

fun ticket_step :: "(json \<Rightarrow> string) \<Rightarrow> time \<times> string \<times> ticket_op \<Rightarrow> ticket_system \<Rightarrow> ticket_system" where
  "ticket_step str_of (now, cid, Op_Create ti de ca pr re src) s = fst (create_ticket now ti de ca pr re src s)"
| "ticket_step str_of (now, cid, Op_From_Event e) s = fst (create_from_event str_of now e s)"
| "ticket_step str_of (now, cid, Op_Assign tid who c) s = fst (assign cid now tid who c s)"
| "ticket_step str_of (now, cid, Op_Start tid c) s = fst (start_progress cid now tid c s)"
| "ticket_step str_of (now, cid, Op_Resolve tid r who) s = fst (resolve cid now tid r who s)"
| "ticket_step str_of (now, cid, Op_Close tid who) s = fst (close now tid who s)"
| "ticket_step str_of (now, cid, Op_Reopen tid r who) s = fst (reopen cid now tid r who s)"
| "ticket_step str_of (now, cid, Op_Escalate tid r who) s = fst (escalate now tid r who s)"
| "ticket_step str_of (now, cid, Op_Comment tid who c i) s = fst (add_comment cid now tid who c i s)"
| "ticket_step str_of (now, cid, Op_Post_Mortem tid pm) s = fst (add_post_mortem now tid pm s)"

definition ticket_fresh :: "ticket_system \<Rightarrow> bool" where
  "ticket_fresh s \<longleftrightarrow> s = init_tickets (ts_callback s)"

lemma init_tickets_fresh [simp]: "ticket_fresh (init_tickets cb)"
  by (simp add: ticket_fresh_def init_tickets_def)

subsection \<open>The invariant\<close>

text \<open>Replaying the history of a ticket.\<close>

definition status_of_action :: "(string, ticket_status) dict" where
  "status_of_action = [(''created'', TK_CREATED), (''assigned'', TK_TRIAGED), (''start_progress'', TK_IN_PROGRESS),
     (''resolved'', TK_RESOLVED), (''closed'', TK_CLOSED), (''reopened'', TK_REOPENED), (''escalated'', TK_ESCALATED)]"

definition replay_status :: "ticket_history list \<Rightarrow> ticket_status" where
  "replay_status hs = fold (\<lambda>h st. dget_or status_of_action (th_action h) st) hs TK_CREATED"

definition assigned_to :: "ticket_history \<Rightarrow> string \<Rightarrow> string" where
  "assigned_to h a = (if th_action h = ''assigned''
     then (case dget (th_details h) ''to'' of Some (JStr w) \<Rightarrow> w | _ \<Rightarrow> a) else a)"

definition replay_assignee :: "ticket_history list \<Rightarrow> string" where
  "replay_assignee hs = fold assigned_to hs []"

definition history_fits :: "ticket \<Rightarrow> bool" where
  "history_fits t \<longleftrightarrow> tk_status t = replay_status (tk_history t) \<and> tk_assignee t = replay_assignee (tk_history t) \<and>
     tk_escalation_count t = count (\<lambda>h. th_action h = ''escalated'') (tk_history t) \<and>
     (\<exists>h hs. tk_history t = h # hs \<and> th_action h = ''created'' \<and> th_timestamp h = tk_created_at t) \<and>
     tk_response_deadline t = tk_created_at t + SLA_RESPONSE (tk_priority t) \<and>
     tk_resolve_deadline t = tk_created_at t + SLA_RESOLVE (tk_priority t)"

definition tickets_ok :: "ticket_system \<Rightarrow> bool" where
  "tickets_ok s \<longleftrightarrow> keys (ts_tickets s) = map ticket_id [1..<ts_counter s + 1] \<and>
     (\<forall>tid t. dget (ts_tickets s) tid = Some t \<longrightarrow> tk_id t = tid \<and> history_fits t)"

lemma ticket_id_inj [simp]: "ticket_id m = ticket_id n \<longleftrightarrow> m = n"
  by (simp add: ticket_id_def)

lemma notify_frame [simp]:
  "ts_tickets (notify t m s) = ts_tickets s" "ts_counter (notify t m s) = ts_counter s"
  "ts_callback (notify t m s) = ts_callback s"
  by (simp_all add: notify_def)

lemma on_ticket_tickets:
  "ts_tickets (fst (on_ticket tid f msg s)) =
     (case dget (ts_tickets s) tid of None \<Rightarrow> ts_tickets s | Some t \<Rightarrow> dset tid (f t) (ts_tickets s))"
  "ts_counter (fst (on_ticket tid f msg s)) = ts_counter s"
  by (auto simp: on_ticket_def Let_def split: option.split)

lemma fst_add_comment:
  "fst (add_comment cid now tid author content internal s) =
   fst (on_ticket tid (comment_on cid now author content internal) (\<lambda>t. None) s)"
  by (simp add: add_comment_def case_prod_unfold Let_def)

lemma create_ticket_tickets:
  "ts_tickets (fst (create_ticket now ti de ca pr re src s)) =
     dset (ticket_id (ts_counter s + 1)) (snd (create_ticket now ti de ca pr re src s)) (ts_tickets s)"
  "ts_counter (fst (create_ticket now ti de ca pr re src s)) = ts_counter s + 1"
  by (simp_all add: create_ticket_def Let_def)

lemma create_from_event_cases:
  "fst (create_from_event str_of now e s) = s \<or>
   (\<exists>ti de ca pr. fst (create_from_event str_of now e s) = fst (create_ticket now ti de ca pr ''system-auto'' (Some e) s))"
  by (auto simp: create_from_event_def Let_def case_prod_unfold split: sum.split)

lemma close_cases:
  "fst (close now tid who s) = s \<or>
   fst (close now tid who s) = fst (on_ticket tid
     (\<lambda>t. add_history now ''closed'' (or_else who (tk_assignee t)) []
        (t\<lparr>tk_status := TK_CLOSED, tk_closed_at := now, tk_updated_at := now\<rparr>)) (\<lambda>t. Some ''ticket closed'') s) \<and>
   map_option tk_status (dget (ts_tickets s) tid) \<in> {Some TK_RESOLVED, Some TK_REOPENED}"
  by (auto simp: close_def split: option.split)

lemma replay_snoc:
  "replay_status (hs @ [h]) = dget_or status_of_action (th_action h) (replay_status hs)"
  "replay_assignee (hs @ [h]) = assigned_to h (replay_assignee hs)"
  by (simp_all add: replay_status_def replay_assignee_def)

lemmas ticket_ops_defs = assign_def start_progress_def resolve_def reopen_def escalate_def
  add_post_mortem_def fst_add_comment

lemmas ticket_change_defs = add_history_def comment_on_def Let_def

lemma history_fits_new:
  "history_fits (snd (create_ticket now ti de ca pr re src s))"
  "tk_id (snd (create_ticket now ti de ca pr re src s)) = ticket_id (ts_counter s + 1)"
  by (simp_all add: create_ticket_def Let_def add_history_def new_ticket_def history_fits_def replay_status_def
      replay_assignee_def assigned_to_def status_of_action_def dget_or_def)

lemma tickets_ok_fresh_id:
  assumes "tickets_ok s"
  shows "dget (ts_tickets s) (ticket_id (ts_counter s + 1)) = None"
proof -
  have "ticket_id (ts_counter s + 1) \<notin> set (keys (ts_tickets s))"
    using assms by (auto simp: tickets_ok_def simp del: upt_Suc)
  then show ?thesis by (simp add: keys_def map_of_eq_None_iff)
qed

lemma tickets_ok_create:
  assumes "tickets_ok s"
  shows "tickets_ok (fst (create_ticket now ti de ca pr re src s))"
  using assms tickets_ok_fresh_id [OF assms] history_fits_new [of now ti de ca pr re src s]
  by (auto simp: tickets_ok_def create_ticket_tickets keys_dset_new dget_dset)

lemma tickets_ok_on_ticket:
  assumes "tickets_ok s" "\<And>t. history_fits t \<Longrightarrow> history_fits (f t) \<and> tk_id (f t) = tk_id t"
  shows "tickets_ok (fst (on_ticket tid f msg s))"
  using assms
  by (auto simp: tickets_ok_def on_ticket_tickets keys_dset_old dget_dset split: option.split)

text \<open>What adding one entry to the history may do to the other fields.\<close>

definition history_step :: "ticket \<Rightarrow> ticket \<Rightarrow> bool" where
  "history_step t t' \<longleftrightarrow> (\<exists>h. tk_history t' = tk_history t @ [h] \<and>
     tk_status t' = dget_or status_of_action (th_action h) (tk_status t) \<and>
     tk_assignee t' = assigned_to h (tk_assignee t) \<and>
     tk_escalation_count t' = tk_escalation_count t + (if th_action h = ''escalated'' then 1 else 0)) \<and>
   tk_id t' = tk_id t \<and> tk_created_at t' = tk_created_at t \<and> tk_priority t' = tk_priority t \<and>
   tk_response_deadline t' = tk_response_deadline t \<and> tk_resolve_deadline t' = tk_resolve_deadline t"

lemma history_fits_step:
  assumes "history_fits t" "history_step t t'"
  shows "history_fits t' \<and> tk_id t' = tk_id t"
proof -
  obtain h where h: "tk_history t' = tk_history t @ [h]" "tk_status t' = dget_or status_of_action (th_action h) (tk_status t)"
    "tk_assignee t' = assigned_to h (tk_assignee t)"
    "tk_escalation_count t' = tk_escalation_count t + (if th_action h = ''escalated'' then 1 else 0)"
    using assms(2) by (auto simp: history_step_def)
  have "\<exists>g hs. tk_history t' = g # hs \<and> th_action g = ''created'' \<and> th_timestamp g = tk_created_at t"
    using assms(1) h(1) by (auto simp: history_fits_def)
  moreover have "tk_status t' = replay_status (tk_history t') \<and> tk_assignee t' = replay_assignee (tk_history t') \<and>
      tk_escalation_count t' = count (\<lambda>h. th_action h = ''escalated'') (tk_history t')"
    using assms(1) h unfolding h(1) replay_snoc by (simp add: history_fits_def)
  ultimately show ?thesis using assms by (simp add: history_fits_def history_step_def)
qed

lemma history_steps:
  "history_step t (let t1 = add_history now ''assigned'' who [(''from'', JStr (tk_assignee t)), (''to'', JStr who)]
       (t\<lparr>tk_assignee := who, tk_status := TK_TRIAGED, tk_updated_at := now\<rparr>)
     in if c = [] then t1 else comment_on cid now who c False t1)"
  "history_step t (let t1 = add_history now ''start_progress'' (or_else (tk_assignee t) ''system'') []
       (t\<lparr>tk_status := TK_IN_PROGRESS, tk_updated_at := now\<rparr>)
     in if c = [] then t1 else comment_on cid now (or_else (tk_assignee t) ''system'') c False t1)"
  "history_step t (let who = or_else resolver (tk_assignee t)
     in comment_on cid now who msg False
          (add_history now ''resolved'' who [(''resolution'', JStr res)]
            (t\<lparr>tk_status := TK_RESOLVED, tk_resolved_at := now, tk_updated_at := now\<rparr>)))"
  "history_step t (add_history now ''closed'' closer []
     (t\<lparr>tk_status := TK_CLOSED, tk_closed_at := now, tk_updated_at := now\<rparr>))"
  "history_step t (let who = or_else reopener ''system''
     in comment_on cid now who msg False
          (add_history now ''reopened'' who [(''reason'', JStr reason)]
            (t\<lparr>tk_status := TK_REOPENED, tk_closed_at := 0, tk_updated_at := now\<rparr>)))"
  "history_step t (let n = tk_escalation_count t + 1
     in add_history now ''escalated'' escalator [(''reason'', JStr reason), (''count'', JInt n)]
          (t\<lparr>tk_status := TK_ESCALATED, tk_escalation_count := n, tk_updated_at := now\<rparr>))"
  "history_step t (add_history now ''post_mortem_added'' author [(''root_cause'', JStr cause)]
     (t\<lparr>tk_post_mortem := Some pm, tk_updated_at := now\<rparr>))"
  by (simp_all add: history_step_def ticket_change_defs status_of_action_def dget_or_def assigned_to_def)

lemma history_fits_comment:
  "history_fits t \<Longrightarrow> history_fits (comment_on cid now who c i t) \<and> tk_id (comment_on cid now who c i t) = tk_id t"
  by (simp add: comment_on_def history_fits_def)

lemmas tickets_ok_change = tickets_ok_on_ticket [OF _ history_fits_step [OF _ history_steps(1)]]
  tickets_ok_on_ticket [OF _ history_fits_step [OF _ history_steps(2)]]
  tickets_ok_on_ticket [OF _ history_fits_step [OF _ history_steps(3)]]
  tickets_ok_on_ticket [OF _ history_fits_step [OF _ history_steps(4)]]
  tickets_ok_on_ticket [OF _ history_fits_step [OF _ history_steps(5)]]
  tickets_ok_on_ticket [OF _ history_fits_step [OF _ history_steps(6)]]
  tickets_ok_on_ticket [OF _ history_fits_step [OF _ history_steps(7)]]
  tickets_ok_on_ticket [OF _ history_fits_comment]

lemma tickets_ok_step: "tickets_ok s \<Longrightarrow> tickets_ok (ticket_step str_of e s)"
proof (induction str_of e s rule: ticket_step.induct)
  case (2 str_of now cid e s)
  then show ?case using create_from_event_cases [of str_of now e s] tickets_ok_create by auto
next
  case (6 str_of now cid tid who s)
  then show ?case using close_cases [of now tid who s] tickets_ok_change(4) by auto
qed (simp_all add: tickets_ok_create ticket_ops_defs tickets_ok_change)

interpretation tickets: machine ticket_fresh "ticket_step str_of" tickets_ok
proof unfold_locales
  fix s assume "ticket_fresh s"
  then have "s = init_tickets (ts_callback s)" by (simp add: ticket_fresh_def)
  then show "tickets_ok s" by (metis (no_types, lifting) tickets_ok_def init_tickets_def ticket_system.select_convs(1,3)
        keys_def list.map(1) map_of.simps(1) option.distinct(1) upt_conv_Nil add_0 order_refl)
next
  fix e s assume "tickets_ok s"
  then show "tickets_ok (ticket_step str_of e s)" by (rule tickets_ok_step)
qed

subsection \<open>The life cycle as an abstract machine\<close>

text \<open>
  The abstract state is the status of every known ticket. A ticket is opened once, under a new
  identifier; it is closed from the statuses resolved and reopened only; every other change of
  status is possible, and no ticket is removed.
\<close>

type_synonym life_state = "string \<Rightarrow> ticket_status option"

inductive life_step :: "life_state \<Rightarrow> life_state \<Rightarrow> bool" where
  life_stay: "life_step m m"
| life_open: "m tid = None \<Longrightarrow> life_step m (m(tid \<mapsto> TK_CREATED))"
| life_move: "m tid \<noteq> None \<Longrightarrow> st \<noteq> TK_CREATED \<Longrightarrow> st \<noteq> TK_CLOSED \<Longrightarrow> life_step m (m(tid \<mapsto> st))"
| life_close: "m tid = Some TK_RESOLVED \<or> m tid = Some TK_REOPENED \<Longrightarrow> life_step m (m(tid \<mapsto> TK_CLOSED))"

inductive_cases life_stepE: "life_step m m'"

definition statuses :: "ticket_system \<Rightarrow> life_state" where
  "statuses s = (\<lambda>tid. map_option tk_status (dget (ts_tickets s) tid))"

lemma statuses_on_ticket:
  "statuses (fst (on_ticket tid f msg s)) =
     (case dget (ts_tickets s) tid of None \<Rightarrow> statuses s | Some t \<Rightarrow> (statuses s)(tid \<mapsto> tk_status (f t)))"
  by (auto simp: statuses_def on_ticket_tickets dget_dset fun_eq_iff split: option.split)

lemma statuses_at: "statuses s tid = map_option tk_status (dget (ts_tickets s) tid)"
  by (simp add: statuses_def)

lemma life_on_ticket:
  assumes "\<And>t. tk_status (f t) = st" "st \<noteq> TK_CREATED" "st \<noteq> TK_CLOSED"
  shows "life_step (statuses s) (statuses (fst (on_ticket tid f msg s)))"
  using assms by (auto simp: statuses_on_ticket statuses_at intro: life_stay life_move split: option.split)

lemma life_keep:
  assumes "\<And>t. tk_status (f t) = tk_status t"
  shows "life_step (statuses s) (statuses (fst (on_ticket tid f msg s)))"
proof (cases "dget (ts_tickets s) tid")
  case None
  then show ?thesis by (simp add: statuses_on_ticket life_stay)
next
  case (Some t)
  then have "statuses (fst (on_ticket tid f msg s)) = statuses s"
    using assms by (auto simp: statuses_on_ticket statuses_at fun_eq_iff)
  then show ?thesis by (simp add: life_stay)
qed

lemma life_create:
  assumes "tickets_ok s"
  shows "life_step (statuses s) (statuses (fst (create_ticket now ti de ca pr re src s)))"
proof -
  let ?n = "ticket_id (ts_counter s + 1)"
  have "statuses (fst (create_ticket now ti de ca pr re src s)) = (statuses s)(?n \<mapsto> TK_CREATED)"
    by (auto simp: statuses_def create_ticket_tickets dget_dset fun_eq_iff create_ticket_def Let_def add_history_def new_ticket_def)
  moreover have "statuses s ?n = None" using tickets_ok_fresh_id [OF assms] by (simp add: statuses_def)
  ultimately show ?thesis by (simp add: life_open)
qed

lemma life_close_ticket: "life_step (statuses s) (statuses (fst (close now tid who s)))"
  using close_cases [of now tid who s]
proof
  assume "fst (close now tid who s) = s"
  then show ?thesis by (simp add: life_stay)
next
  assume c: "fst (close now tid who s) = fst (on_ticket tid
     (\<lambda>t. add_history now ''closed'' (or_else who (tk_assignee t)) []
        (t\<lparr>tk_status := TK_CLOSED, tk_closed_at := now, tk_updated_at := now\<rparr>)) (\<lambda>t. Some ''ticket closed'') s) \<and>
   map_option tk_status (dget (ts_tickets s) tid) \<in> {Some TK_RESOLVED, Some TK_REOPENED}"
  then obtain t where t: "dget (ts_tickets s) tid = Some t" "tk_status t = TK_RESOLVED \<or> tk_status t = TK_REOPENED" by auto
  then have "statuses (fst (close now tid who s)) = (statuses s)(tid \<mapsto> TK_CLOSED)"
    using c by (simp add: statuses_on_ticket add_history_def)
  then show ?thesis using t by (auto simp: statuses_at intro: life_close)
qed

lemma life_step_of:
  assumes "tickets_ok s"
  shows "life_step (statuses s) (statuses (ticket_step str_of e s))"
  using assms
proof (induction str_of e s rule: ticket_step.induct)
  case (2 str_of now cid e s)
  from create_from_event_cases [of str_of now e s] show ?case
    using life_create [OF 2] life_stay [of "statuses s"] by auto
qed (auto simp: ticket_ops_defs life_create life_close_ticket ticket_change_defs intro: life_on_ticket life_keep)

text \<open>
  C5. The ticket system implements the abstract life cycle: from every reachable state, each
  operation is a step of it. In particular a ticket becomes closed only from the statuses resolved
  and reopened, no ticket disappears, and a new ticket never takes the identifier of an old one.
\<close>

theorem tickets_implement_life_cycle:
  assumes "reachable ticket_fresh (ticket_step str_of) s"
  shows "life_step (statuses s) (statuses (ticket_step str_of e s))"
  using tickets.inv_reachable [OF assms] by (rule life_step_of)

definition demo_tickets :: "ticket_system" where
  "demo_tickets = ticket_step (\<lambda>v. []) (1, [], Op_Create ''t'' [] OTHER P1_CRITICAL ''r'' None) (init_tickets False)"

lemma demo_tickets_reachable: "reachable ticket_fresh (ticket_step (\<lambda>v. [])) demo_tickets"
  unfolding demo_tickets_def by (intro reachable.reach_step reachable.reach_init init_tickets_fresh)

theorem tickets_implement_life_cycle_witness:
  "life_step (statuses demo_tickets) (statuses (ticket_step (\<lambda>v. []) (2, [], Op_Assign (ticket_id 1) ''ann'' []) demo_tickets))"
  by (rule tickets_implement_life_cycle [OF demo_tickets_reachable])

text \<open>
  In every reachable state the tickets are the ones created, in order, under distinct
  identifiers numbered from 1, and each is what its history tells: replaying the history gives its
  status, its assignee and the number of escalations, it starts with the creation, and the
  deadlines follow from the time of creation and the priority.
\<close>

theorem history_tells_ticket:
  assumes "reachable ticket_fresh (ticket_step str_of) s"
  shows "keys (ts_tickets s) = map ticket_id [1..<ts_counter s + 1] \<and> distinct (keys (ts_tickets s)) \<and>
    (\<forall>tid t. get_ticket tid s = Some t \<longrightarrow> tk_id t = tid \<and> history_fits t)"
proof -
  have ok: "tickets_ok s" using assms by (rule tickets.inv_reachable)
  then have "keys (ts_tickets s) = map ticket_id [1..<ts_counter s + 1]" by (simp add: tickets_ok_def)
  then show ?thesis using ok by (auto simp: distinct_map inj_on_def tickets_ok_def get_ticket_def)
qed

theorem history_tells_ticket_witness:
  "keys (ts_tickets demo_tickets) = [ticket_id 1] \<and>
   (\<exists>t. get_ticket (ticket_id 1) demo_tickets = Some t \<and> tk_id t = ticket_id 1 \<and> history_fits t)"
proof -
  have n: "ts_counter demo_tickets = 1" by (simp add: demo_tickets_def create_ticket_tickets init_tickets_def)
  note all = history_tells_ticket [OF demo_tickets_reachable, unfolded n]
  then have k: "keys (ts_tickets demo_tickets) = [ticket_id 1]" by (simp add: upt_rec)
  have "dget (ts_tickets demo_tickets) (ticket_id 1) \<noteq> None" using k by (simp add: keys_def map_of_eq_None_iff flip: set_map)
  then obtain t where "get_ticket (ticket_id 1) demo_tickets = Some t" unfolding get_ticket_def by blast
  with all k show ?thesis by blast
qed

subsection \<open>Neglected tickets\<close>

text \<open>The operations that end the work on a ticket.\<close>

fun ends_ticket :: "string \<Rightarrow> ticket_op \<Rightarrow> bool" where
  "ends_ticket tid (Op_Resolve x r who) = (x = tid)"
| "ends_ticket tid (Op_Close x who) = (x = tid)"
| "ends_ticket tid _ = False"

definition still_open :: "ticket \<Rightarrow> ticket \<Rightarrow> bool" where
  "still_open t t' \<longleftrightarrow> tk_status t' \<notin> {TK_RESOLVED, TK_CLOSED} \<and> tk_created_at t' = tk_created_at t \<and>
     tk_resolve_deadline t' = tk_resolve_deadline t"

lemma still_open_on_ticket:
  assumes "dget (ts_tickets s) tid = Some t" "still_open t0 t" "x = tid \<Longrightarrow> still_open t0 (f t)"
  shows "\<exists>t'. dget (ts_tickets (fst (on_ticket x f msg s))) tid = Some t' \<and> still_open t0 t'"
  using assms by (auto simp: on_ticket_tickets dget_dset split: option.split)

lemma still_open_create:
  assumes "tickets_ok s" "dget (ts_tickets s) tid = Some t"
  shows "dget (ts_tickets (fst (create_ticket now ti de ca pr re src s))) tid = Some t"
  using assms tickets_ok_fresh_id [OF assms(1)] by (auto simp: create_ticket_tickets dget_dset)

lemma still_open_step:
  assumes "tickets_ok s" "dget (ts_tickets s) tid = Some t" "still_open t0 t" "\<not> ends_ticket tid (snd (snd e))"
  shows "\<exists>t'. dget (ts_tickets (ticket_step str_of e s)) tid = Some t' \<and> still_open t0 t'"
  using assms
proof (induction str_of e s rule: ticket_step.induct)
  case (2 str_of now cid ev s)
  from create_from_event_cases [of str_of now ev s] show ?case
    using still_open_create [OF 2(1,2)] 2(2,3) by auto
next
  case (6 str_of now cid x who s)
  from close_cases [of now x who s] show ?case
    using 6 still_open_on_ticket [OF 6(2,3), of x] by auto
qed (simp_all add: ticket_ops_defs still_open_create,
    (rule still_open_on_ticket, assumption, assumption, simp add: still_open_def ticket_change_defs)+)

lemma still_open_run:
  assumes "tickets_ok s" "dget (ts_tickets s) tid = Some t" "still_open t0 t" "\<forall>e\<in>set es. \<not> ends_ticket tid (snd (snd e))"
  shows "\<exists>t'. dget (ts_tickets (fold (ticket_step str_of) es s)) tid = Some t' \<and> still_open t0 t'"
  using assms
proof (induction es arbitrary: s t)
  case (Cons e es)
  then obtain t' where "dget (ts_tickets (ticket_step str_of e s)) tid = Some t'" "still_open t0 t'"
    using still_open_step [OF Cons.prems(1-3), of e str_of] by auto
  then show ?case using Cons.IH [of "ticket_step str_of e s" t'] Cons.prems tickets_ok_step by simp
qed auto

text \<open>
  C19. A ticket that is neither resolved nor closed in time is reported: whatever the operations, as
  long as none of them resolves or closes it, from the moment its time to resolve has passed the
  ticket counts as breached, in its own status and in the statistics. No other operation (assigning,
  escalating, reopening, a new priority of other tickets) postpones the deadline.
\<close>

theorem neglected_ticket_is_breached:
  assumes "reachable ticket_fresh (ticket_step str_of) s" "get_ticket tid s = Some t"
    and "tk_status t \<noteq> TK_RESOLVED" "tk_status t \<noteq> TK_CLOSED"
    and "\<forall>e\<in>set es. \<not> ends_ticket tid (snd (snd e))"
    and "tk_created_at t + SLA_RESOLVE (tk_priority t) < now"
  shows "(\<exists>t'. get_ticket tid (fold (ticket_step str_of) es s) = Some t' \<and>
      dget (get_sla_status now t') ''resolve'' = Some SLA_BREACHED) \<and>
    0 < tt_sla_breached (ticket_statistics order now (fold (ticket_step str_of) es s))"
proof -
  let ?s = "fold (ticket_step str_of) es s"
  have ok: "tickets_ok s" using assms(1) by (rule tickets.inv_reachable)
  have "still_open t t" using assms(3,4) by (simp add: still_open_def)
  then obtain t' where t': "dget (ts_tickets ?s) tid = Some t'" "still_open t t'"
    using still_open_run [OF ok _ _ assms(5)] assms(2) unfolding get_ticket_def by blast
  have "tk_resolve_deadline t < now" using ok assms(2,6) by (auto simp: tickets_ok_def get_ticket_def history_fits_def)
  then have b: "dget (get_sla_status now t') ''resolve'' = Some SLA_BREACHED"
    using t'(2) by (simp add: get_sla_status_def deadline_status_def still_open_def)
  then have "SLA_BREACHED \<in> set (vals (get_sla_status now t'))"
    by (simp add: get_sla_status_def vals_def)
  moreover have "t' \<in> set (vals (ts_tickets ?s))"
    using t'(1) by (force simp: vals_def dest: map_of_SomeD)
  ultimately show ?thesis using t'(1) b
    by (auto simp: get_ticket_def ticket_statistics_def Let_def count_pos)
qed

theorem neglected_ticket_is_breached_witness:
  "0 < tt_sla_breached (ticket_statistics (\<lambda>xs. xs) 5000 (fold (ticket_step (\<lambda>v. []))
     [(2, [], Op_Assign (ticket_id 1) ''ann'' []), (3, [], Op_Escalate (ticket_id 1) [] [])] demo_tickets))"
proof -
  obtain t where "get_ticket (ticket_id 1) demo_tickets = Some t" "tk_status t = TK_CREATED" "tk_created_at t = 1"
    "tk_priority t = P1_CRITICAL"
    by (simp add: demo_tickets_def create_ticket_def get_ticket_def init_tickets_def Let_def add_history_def new_ticket_def)
  then show ?thesis using neglected_ticket_is_breached [OF demo_tickets_reachable, of "ticket_id 1" t
      "[(2, [], Op_Assign (ticket_id 1) ''ann'' []), (3, [], Op_Escalate (ticket_id 1) [] [])]" 5000 "\<lambda>xs. xs"] by simp
qed

end
