(* ===== verification/Playbook_Engine.thy ===== *)
theory Playbook_Engine
  imports Photon_Prelude
begin

text \<open>
  \<open>ops/playbook_engine.py\<close>: playbooks triggered by events, their actions with approval gates, failure
  handling and approvals. A handler is a function from the parameters and the event to an output or
  the text of an exception; the engine's state lists the calls made. Identifiers (\<open>uuid4\<close>) come from
  two sequences of the environment, one for executions and one for handlers; so do \<open>json.dumps\<close>,
  \<open>re.search\<close> on patterns of the playbooks, and \<open>str\<close>. An audit entry is a time and a text, given in
  English; the audit callback and the logger are left out.
\<close>

subsection \<open>Data\<close>

datatype play_trigger_type = TR_COMPLIANCE_VIOLATION | TR_SECURITY_THREAT | TR_METRIC_THRESHOLD
  | TR_ESCAPE_ATTEMPT | TR_RESOURCE_EXHAUSTION | TR_AUDIT_FAILURE | TR_MANUAL

fun trigger_type_value :: "play_trigger_type \<Rightarrow> string" where
  "trigger_type_value TR_COMPLIANCE_VIOLATION = ''compliance_violation''"
| "trigger_type_value TR_SECURITY_THREAT = ''security_threat''"
| "trigger_type_value TR_METRIC_THRESHOLD = ''metric_threshold''"
| "trigger_type_value TR_ESCAPE_ATTEMPT = ''escape_attempt''"
| "trigger_type_value TR_RESOURCE_EXHAUSTION = ''resource_exhaustion''"
| "trigger_type_value TR_AUDIT_FAILURE = ''audit_failure''"
| "trigger_type_value TR_MANUAL = ''manual''"

definition all_trigger_types :: "play_trigger_type list" where
  "all_trigger_types = [TR_COMPLIANCE_VIOLATION, TR_SECURITY_THREAT, TR_METRIC_THRESHOLD,
     TR_ESCAPE_ATTEMPT, TR_RESOURCE_EXHAUSTION, TR_AUDIT_FAILURE, TR_MANUAL]"

datatype action_type = ISOLATE_CONTAINER | FREEZE_ACCOUNT | REVOKE_CAPABILITY | SHUTDOWN_SANDBOX
  | SEND_ALERT | POPUP_NOTIFICATION | SCALE_UP | SCALE_DOWN | CREATE_TICKET | SNAPSHOT_EVIDENCE
  | ROLLBACK | NOTIFY_ADMIN

fun action_type_value :: "action_type \<Rightarrow> string" where
  "action_type_value ISOLATE_CONTAINER = ''isolate_container''"
| "action_type_value FREEZE_ACCOUNT = ''freeze_account''"
| "action_type_value REVOKE_CAPABILITY = ''revoke_capability''"
| "action_type_value SHUTDOWN_SANDBOX = ''shutdown_sandbox''"
| "action_type_value SEND_ALERT = ''send_alert''"
| "action_type_value POPUP_NOTIFICATION = ''popup_notification''"
| "action_type_value SCALE_UP = ''scale_up''"
| "action_type_value SCALE_DOWN = ''scale_down''"
| "action_type_value CREATE_TICKET = ''create_ticket''"
| "action_type_value SNAPSHOT_EVIDENCE = ''snapshot_evidence''"
| "action_type_value ROLLBACK = ''rollback''"
| "action_type_value NOTIFY_ADMIN = ''notify_admin''"

definition all_action_types :: "action_type list" where
  "all_action_types = [ISOLATE_CONTAINER, FREEZE_ACCOUNT, REVOKE_CAPABILITY, SHUTDOWN_SANDBOX,
     SEND_ALERT, POPUP_NOTIFICATION, SCALE_UP, SCALE_DOWN, CREATE_TICKET, SNAPSHOT_EVIDENCE, ROLLBACK,
     NOTIFY_ADMIN]"

datatype risk_level = RL_LOW | RL_MEDIUM | RL_HIGH | RL_CRITICAL

fun risk_level_value :: "risk_level \<Rightarrow> string" where
  "risk_level_value RL_LOW = ''low''"
| "risk_level_value RL_MEDIUM = ''medium''"
| "risk_level_value RL_HIGH = ''high''"
| "risk_level_value RL_CRITICAL = ''critical''"

definition all_risk_levels :: "risk_level list" where
  "all_risk_levels = [RL_LOW, RL_MEDIUM, RL_HIGH, RL_CRITICAL]"

datatype play_status = PB_PENDING | PB_RUNNING | PB_WAITING_APPROVAL | PB_COMPLETED | PB_FAILED
  | PB_ROLLED_BACK | PB_CANCELLED

type_synonym event = "(string, json) dict"

record play_action =
  ac_type :: action_type
  ac_params :: "(string, json) dict"
  ac_require_approval :: bool
  ac_timeout_seconds :: int
  ac_retry_count :: int
  ac_rollback_action :: "action_type option"

definition plain_action :: "action_type \<Rightarrow> play_action" where
  "plain_action a = \<lparr>ac_type = a, ac_params = [], ac_require_approval = False, ac_timeout_seconds = 30,
     ac_retry_count = 1, ac_rollback_action = None\<rparr>"

record trigger =
  tr_type :: play_trigger_type
  tr_event_pattern :: string
  tr_metric_name :: string
  tr_threshold :: rat
  tr_comparison :: string
  tr_risk_level :: "risk_level option"

record playbook =
  pb_id :: string
  pb_name :: string
  pb_description :: string
  pb_trigger :: "trigger option"
  pb_conditions :: "(string, json) dict"
  pb_actions :: "play_action list"
  pb_on_failure :: string
  pb_enabled :: bool
  pb_priority :: int
  pb_created_at :: time
  pb_tags :: "string list"

record action_result =
  re_action_type :: action_type
  re_success :: bool
  re_message :: string
  re_started_at :: time
  re_completed_at :: time
  re_duration_ms :: rat
  re_output :: "(string, json) dict"

record execution =
  ex_id :: string
  ex_playbook_id :: string
  ex_playbook_name :: string
  ex_trigger_event :: event
  ex_status :: play_status
  ex_action_results :: "action_result list"
  ex_started_at :: time
  ex_completed_at :: time
  ex_duration_ms :: rat
  ex_error :: string
  ex_approver :: string
  ex_audit_log :: "(time \<times> string) list"

text \<open>A handler, with the hexadecimal text it may draw.\<close>

type_synonym handler = "string \<Rightarrow> (string, json) dict \<Rightarrow> event \<Rightarrow> string + json"

record play_env =
  en_fresh :: "nat \<Rightarrow> string"
  en_hex :: "nat \<Rightarrow> string"
  en_dumps :: "event \<Rightarrow> string"
  en_search :: "string \<Rightarrow> string \<Rightarrow> exc + bool"
  en_str :: "json \<Rightarrow> string"

text \<open>
  Pending executions are the ones in the table of executions with these identifiers: the engine
  keeps the same object in both. The calls are the actions performed, with their execution.
\<close>

record play_engine =
  pe_playbooks :: "(string, playbook) dict"
  pe_handlers :: "(action_type, handler) dict"
  pe_executions :: "(string, execution) dict"
  pe_pending :: "string list"
  pe_started :: nat
  pe_calls :: "(string \<times> play_action) list"

subsection \<open>Handlers and registration\<close>

fun default_handler :: "action_type \<Rightarrow> handler" where
  "default_handler SEND_ALERT = (\<lambda>u p e. Inr (JObj [(''alert_sent'', JBool True),
     (''channel'', dget_or p ''channel'' (JStr ''default''))]))"
| "default_handler POPUP_NOTIFICATION = (\<lambda>u p e. Inr (JObj [(''popup_shown'', JBool True),
     (''message'', dget_or p ''message'' (JStr ''security alert''))]))"
| "default_handler NOTIFY_ADMIN = (\<lambda>u p e. Inr (JObj [(''admin_notified'', JBool True),
     (''admin'', dget_or p ''admin'' (JStr ''security-team''))]))"
| "default_handler CREATE_TICKET = (\<lambda>u p e. Inr (JObj [(''ticket_created'', JBool True),
     (''ticket_id'', JStr (''TICKET-'' @ map (\<lambda>c. if of_char c \<ge> (97 :: nat) then char_of (of_char c - (32 :: nat)) else c) u)),
     (''priority'', dget_or p ''priority'' (JStr ''high''))]))"
| "default_handler SNAPSHOT_EVIDENCE = (\<lambda>u p e. Inr (JObj [(''snapshot_created'', JBool True),
     (''snapshot_id'', JStr (''SNAP-'' @ u)), (''evidence_type'', dget_or p ''type'' (JStr ''full''))]))"
| "default_handler ISOLATE_CONTAINER = (\<lambda>u p e. Inr (JObj [(''isolated'', JBool True),
     (''container_id'', dget_or p ''container_id'' (JStr ''unknown''))]))"
| "default_handler FREEZE_ACCOUNT = (\<lambda>u p e. Inr (JObj [(''frozen'', JBool True),
     (''tenant_id'', dget_or p ''tenant_id'' (JStr ''unknown''))]))"
| "default_handler REVOKE_CAPABILITY = (\<lambda>u p e. Inr (JObj [(''revoked'', JBool True),
     (''capability'', dget_or p ''capability'' (JStr ''unknown''))]))"
| "default_handler SHUTDOWN_SANDBOX = (\<lambda>u p e. Inr (JObj [(''shutdown'', JBool True),
     (''sandbox_id'', dget_or p ''sandbox_id'' (JStr ''unknown''))]))"
| "default_handler SCALE_UP = (\<lambda>u p e. Inr (JObj [(''scaled'', JBool True),
     (''replicas'', dget_or p ''replicas'' (JInt 0))]))"
| "default_handler SCALE_DOWN = (\<lambda>u p e. Inr (JObj [(''scaled'', JBool True),
     (''replicas'', dget_or p ''replicas'' (JInt 0))]))"
| "default_handler ROLLBACK = (\<lambda>u p e. Inr (JObj [(''rolled_back'', JBool True),
     (''version'', dget_or p ''version'' (JStr ''previous''))]))"

definition default_handlers :: "(action_type, handler) dict" where
  "default_handlers = map (\<lambda>a. (a, default_handler a))
     [SEND_ALERT, POPUP_NOTIFICATION, NOTIFY_ADMIN, CREATE_TICKET, SNAPSHOT_EVIDENCE, ISOLATE_CONTAINER,
      FREEZE_ACCOUNT, REVOKE_CAPABILITY, SHUTDOWN_SANDBOX, SCALE_UP, SCALE_DOWN, ROLLBACK]"

definition init_engine :: play_engine where
  "init_engine = \<lparr>pe_playbooks = [], pe_handlers = default_handlers, pe_executions = [],
     pe_pending = [], pe_started = 0, pe_calls = []\<rparr>"

definition register_playbook :: "playbook \<Rightarrow> play_engine \<Rightarrow> play_engine" where
  "register_playbook p s = s\<lparr>pe_playbooks := dset (pb_id p) p (pe_playbooks s)\<rparr>"

definition unregister_playbook :: "string \<Rightarrow> play_engine \<Rightarrow> play_engine" where
  "unregister_playbook pid s = s\<lparr>pe_playbooks := ddel pid (pe_playbooks s)\<rparr>"

definition register_action_handler :: "action_type \<Rightarrow> handler \<Rightarrow> play_engine \<Rightarrow> play_engine" where
  "register_action_handler a h s = s\<lparr>pe_handlers := dset a h (pe_handlers s)\<rparr>"

subsection \<open>Matching\<close>

text \<open>Comparisons; an order between a number and something else raises, and an unknown operator is false.\<close>

definition compare_metric :: "json \<Rightarrow> string \<Rightarrow> rat \<Rightarrow> exc + bool" where
  "compare_metric v opn th =
     (if opn = ''=='' then Inr (num_of v = Some th)
      else if opn = ''!='' then Inr (num_of v \<noteq> Some th)
      else if opn \<notin> set [''>'', ''>='', ''<'', ''<=''] then Inr False
      else case num_of v of
          None \<Rightarrow> Inl TypeError
        | Some x \<Rightarrow> Inr (if opn = ''>'' then x > th else if opn = ''>='' then x \<ge> th
                       else if opn = ''<'' then x < th else x \<le> th))"

definition metric_matches :: "trigger \<Rightarrow> event \<Rightarrow> exc + bool" where
  "metric_matches t e =
     (if tr_type t \<noteq> TR_METRIC_THRESHOLD \<or> tr_metric_name t = [] then Inr True
      else case dget_or e ''metrics'' (JObj []) of
          JObj ms \<Rightarrow>
            (case dget_or ms (tr_metric_name t) JNull of
               JNull \<Rightarrow> Inr False
             | v \<Rightarrow> compare_metric v (tr_comparison t) (tr_threshold t))
        | _ \<Rightarrow> Inl AttributeError)"

definition risk_matches :: "trigger \<Rightarrow> event \<Rightarrow> bool" where
  "risk_matches t e =
     (case tr_risk_level t of
        None \<Rightarrow> True
      | Some r \<Rightarrow> dget_or e ''risk_level'' (JStr []) = JStr (risk_level_value r))"

text \<open>A playbook without a trigger raises when it is matched.\<close>

definition match_trigger :: "play_env \<Rightarrow> trigger option \<Rightarrow> event \<Rightarrow> exc + bool" where
  "match_trigger env tr e =
     (case tr of
        None \<Rightarrow> Inl AttributeError
      | Some t \<Rightarrow>
          (if dget_or e ''type'' (JStr []) \<noteq> JStr (trigger_type_value (tr_type t)) then Inr False
           else case (if tr_event_pattern t = [] then Inr True else en_search env (tr_event_pattern t) (en_dumps env e)) of
               Inl x \<Rightarrow> Inl x
             | Inr False \<Rightarrow> Inr False
             | Inr True \<Rightarrow>
                 (case metric_matches t e of
                    Inl x \<Rightarrow> Inl x
                  | Inr b \<Rightarrow> Inr (b \<and> risk_matches t e))))"

definition match_conditions :: "(string, json) dict \<Rightarrow> event \<Rightarrow> bool" where
  "match_conditions cs e = list_all (\<lambda>(k, v). py_eq (dget_or e k JNull) v) cs"

definition playbook_matches :: "play_env \<Rightarrow> event \<Rightarrow> playbook \<Rightarrow> exc + bool" where
  "playbook_matches env e p =
     (case match_trigger env (pb_trigger p) e of
        Inl x \<Rightarrow> Inl x
      | Inr b \<Rightarrow> Inr (b \<and> match_conditions (pb_conditions p) e))"

subsection \<open>Actions\<close>

definition audit :: "time \<Rightarrow> string \<Rightarrow> execution \<Rightarrow> execution" where
  "audit now msg x = x\<lparr>ex_audit_log := ex_audit_log x @ [(now, msg)]\<rparr>"

text \<open>A parameter \<open>{key}\<close> stands for a value of the event.\<close>

fun resolve_value :: "event \<Rightarrow> json \<Rightarrow> json" where
  "resolve_value e (JStr v) =
     (if v \<noteq> [] \<and> hd v = CHR ''{'' \<and> last v = CHR ''}'' then dget_or e (butlast (tl v)) (JStr v) else JStr v)"
| "resolve_value e v = v"

definition resolve_params :: "(string, json) dict \<Rightarrow> event \<Rightarrow> (string, json) dict" where
  "resolve_params ps e = map (\<lambda>(k, v). (k, resolve_value e v)) ps"

definition output_dict :: "play_env \<Rightarrow> json \<Rightarrow> (string, json) dict" where
  "output_dict env v = (case v of JObj d \<Rightarrow> d | JStr w \<Rightarrow> [(''result'', JStr w)] | _ \<Rightarrow> [(''result'', JStr (en_str env v))])"

definition execute_action :: "play_env \<Rightarrow> time \<Rightarrow> play_action \<Rightarrow> event \<Rightarrow> execution \<Rightarrow> play_engine \<Rightarrow>
    action_result \<times> execution \<times> play_engine" where
  "execute_action env now a e x s =
     (let r = \<lparr>re_action_type = ac_type a, re_success = False, re_message = [], re_started_at = now,
               re_completed_at = 0, re_duration_ms = 0, re_output = []\<rparr>
      in case dget (pe_handlers s) (ac_type a) of
           None \<Rightarrow>
             (let msg = ''no handler: '' @ action_type_value (ac_type a)
              in (r\<lparr>re_message := msg\<rparr>, audit now (''action failed: '' @ msg) x, s))
         | Some h \<Rightarrow>
             (let s' = s\<lparr>pe_calls := pe_calls s @ [(ex_id x, a)]\<rparr>; r' = r\<lparr>re_completed_at := now\<rparr>
              in case h (en_hex env (length (pe_calls s))) (resolve_params (ac_params a) e) e of
                   Inr out \<Rightarrow> (r'\<lparr>re_success := True, re_message := ''action done: '' @ action_type_value (ac_type a),
                       re_output := output_dict env out\<rparr>, x, s')
                 | Inl err \<Rightarrow> (r'\<lparr>re_message := ''action raised: '' @ err\<rparr>,
                       audit now (''action raised: '' @ action_type_value (ac_type a) @ '' - '' @ err) x, s')))"

definition play_failure :: "play_env \<Rightarrow> time \<Rightarrow> playbook \<Rightarrow> play_action \<Rightarrow> event \<Rightarrow> execution \<Rightarrow> play_engine \<Rightarrow>
    execution \<times> play_engine" where
  "play_failure env now p a e x s =
     (let x1 = audit now (''action failed: '' @ action_type_value (ac_type a)) x
      in case (if pb_on_failure p = ''rollback'' then ac_rollback_action a else None) of
           Some ra \<Rightarrow>
             (let (r, x2, s2) = execute_action env now (plain_action ra) e (audit now ''rollback'' x1) s
              in (x2\<lparr>ex_status := PB_ROLLED_BACK\<rparr>, s2))
         | None \<Rightarrow>
             (if pb_on_failure p = ''manual''
              then (audit now ''waiting for an operator'' (x1\<lparr>ex_status := PB_WAITING_APPROVAL\<rparr>), s)
              else let (r, x2, s2) = execute_action env now (plain_action SEND_ALERT) e x1 s
                   in (x2\<lparr>ex_status := PB_FAILED\<rparr>, s2)))"

text \<open>The loop over the actions, and whether it returned at an approval gate.\<close>

fun run_actions :: "play_env \<Rightarrow> time \<Rightarrow> playbook \<Rightarrow> event \<Rightarrow> play_action list \<Rightarrow> execution \<Rightarrow> play_engine \<Rightarrow>
    execution \<times> play_engine \<times> bool" where
  "run_actions env now p e [] x s = (x, s, False)"
| "run_actions env now p e (a # as) x s =
     (if ac_require_approval a
      then (audit now (''waiting for approval: '' @ action_type_value (ac_type a)) (x\<lparr>ex_status := PB_WAITING_APPROVAL\<rparr>),
            s\<lparr>pe_pending := (if ex_id x \<in> set (pe_pending s) then pe_pending s else pe_pending s @ [ex_id x])\<rparr>, True)
      else let (r, x1, s1) = execute_action env now a e x s;
               x2 = x1\<lparr>ex_action_results := ex_action_results x1 @ [r]\<rparr>
           in if re_success r then run_actions env now p e as x2 s1
              else let (x3, s2) = play_failure env now p a e x2 s1 in (x3, s2, False))"

definition new_execution :: "time \<Rightarrow> string \<Rightarrow> playbook \<Rightarrow> event \<Rightarrow> execution" where
  "new_execution now eid p e =
     \<lparr>ex_id = eid, ex_playbook_id = pb_id p, ex_playbook_name = pb_name p, ex_trigger_event = e,
      ex_status = PB_RUNNING, ex_action_results = [], ex_started_at = now, ex_completed_at = 0,
      ex_duration_ms = 0, ex_error = [], ex_approver = [], ex_audit_log = []\<rparr>"

definition execute_playbook :: "play_env \<Rightarrow> time \<Rightarrow> playbook \<Rightarrow> event \<Rightarrow> play_engine \<Rightarrow> play_engine \<times> execution" where
  "execute_playbook env now p e s =
     (let x = audit now (''playbook started: '' @ pb_name p) (new_execution now (en_fresh env (pe_started s)) p e);
          (x1, s1, gate) = run_actions env now p e (pb_actions p) x (s\<lparr>pe_started := pe_started s + 1\<rparr>);
          x2 = (if gate then x1
                else let x' = (if ex_status x1 = PB_RUNNING
                               then audit now ''playbook completed'' (x1\<lparr>ex_status := PB_COMPLETED\<rparr>) else x1)
                     in x'\<lparr>ex_completed_at := now, ex_duration_ms := (now - ex_started_at x') * 1000\<rparr>)
      in (s1\<lparr>pe_executions := dset (ex_id x) x2 (pe_executions s1)\<rparr>, x2))"

subsection \<open>Events and approvals\<close>

text \<open>Matching can raise in the middle of the loop, after earlier playbooks have run.\<close>

fun handle_playbooks :: "play_env \<Rightarrow> time \<Rightarrow> event \<Rightarrow> playbook list \<Rightarrow> play_engine \<Rightarrow> play_engine \<times> (exc + execution list)" where
  "handle_playbooks env now e [] s = (s, Inr [])"
| "handle_playbooks env now e (p # ps) s =
     (case playbook_matches env e p of
        Inl x \<Rightarrow> (s, Inl x)
      | Inr False \<Rightarrow> handle_playbooks env now e ps s
      | Inr True \<Rightarrow>
          (let (s1, x) = execute_playbook env now p e s
           in case handle_playbooks env now e ps s1 of
                (s2, Inl err) \<Rightarrow> (s2, Inl err)
              | (s2, Inr xs) \<Rightarrow> (s2, Inr (x # xs))))"

definition sorted_playbooks :: "play_engine \<Rightarrow> playbook list" where
  "sorted_playbooks s = sort_key pb_priority (filter pb_enabled (vals (pe_playbooks s)))"

definition handle_event :: "play_env \<Rightarrow> time \<Rightarrow> event \<Rightarrow> play_engine \<Rightarrow> play_engine \<times> (exc + execution list)" where
  "handle_event env now e s = handle_playbooks env now e (sorted_playbooks s) s"

definition approve_execution :: "play_env \<Rightarrow> time \<Rightarrow> string \<Rightarrow> string \<Rightarrow> play_engine \<Rightarrow> play_engine \<times> execution option" where
  "approve_execution env now eid approver s =
     (if eid \<notin> set (pe_pending s) then (s, None)
      else case dget (pe_executions s) eid of
          None \<Rightarrow> (s, None)
        | Some x \<Rightarrow>
            (let x1 = audit now (''approved: '' @ approver) (x\<lparr>ex_approver := approver, ex_status := PB_RUNNING\<rparr>);
                 s1 = s\<lparr>pe_pending := remove1 eid (pe_pending s), pe_executions := dset eid x1 (pe_executions s)\<rparr>
             in case dget (pe_playbooks s) (ex_playbook_id x) of
                  None \<Rightarrow> (s1, Some x1)
                | Some p \<Rightarrow> (let (s2, x2) = execute_playbook env now p (ex_trigger_event x) s1 in (s2, Some x2))))"

definition reject_execution :: "time \<Rightarrow> string \<Rightarrow> string \<Rightarrow> play_engine \<Rightarrow> play_engine \<times> execution option" where
  "reject_execution now eid reason s =
     (if eid \<notin> set (pe_pending s) then (s, None)
      else case dget (pe_executions s) eid of
          None \<Rightarrow> (s, None)
        | Some x \<Rightarrow>
            (let x1 = audit now (''rejected: '' @ reason)
                        (x\<lparr>ex_status := PB_CANCELLED, ex_error := ''rejected by an operator: '' @ reason\<rparr>)
             in (s\<lparr>pe_pending := remove1 eid (pe_pending s), pe_executions := dset eid x1 (pe_executions s)\<rparr>, Some x1)))"

definition get_execution :: "string \<Rightarrow> play_engine \<Rightarrow> execution option" where
  "get_execution eid s = dget (pe_executions s) eid"

definition list_executions :: "play_status option \<Rightarrow> nat \<Rightarrow> play_engine \<Rightarrow> execution list" where
  "list_executions st limit s =
     take limit (sort_key (\<lambda>x. - ex_started_at x)
       (filter (\<lambda>x. case st of None \<Rightarrow> True | Some y \<Rightarrow> ex_status x = y) (vals (pe_executions s))))"

definition pending_executions :: "play_engine \<Rightarrow> execution list" where
  "pending_executions s = List.map_filter (dget (pe_executions s)) (pe_pending s)"

subsection \<open>Loading playbooks\<close>

text \<open>
  The documents of a file, with the keys that may be missing; the values have the types the loader
  expects. Playbooks before the first faulty document stay registered.
\<close>

record action_doc =
  ad_type :: "string option"
  ad_params :: "(string, json) dict option"
  ad_require_approval :: "bool option"
  ad_timeout_seconds :: "int option"
  ad_retry_count :: "int option"
  ad_rollback_action :: "string option"

record trigger_doc =
  td_type :: "string option"
  td_event_pattern :: "string option"
  td_metric_name :: "string option"
  td_threshold :: "rat option"
  td_comparison :: "string option"
  td_risk_level :: "string option"

record playbook_doc =
  pd_id :: "string option"
  pd_name :: "string option"
  pd_description :: "string option"
  pd_trigger :: "trigger_doc option"
  pd_conditions :: "(string, json) dict option"
  pd_actions :: "action_doc list option"
  pd_on_failure :: "string option"
  pd_enabled :: "bool option"
  pd_priority :: "int option"
  pd_tags :: "string list option"

definition opt_enum :: "('a \<Rightarrow> string) \<Rightarrow> 'a list \<Rightarrow> string option \<Rightarrow> exc + 'a option" where
  "opt_enum val xs v = (case str_or_none v of None \<Rightarrow> Inr None | Some w \<Rightarrow> ebind (enum_of val xs w) (\<lambda>x. Inr (Some x)))"

definition load_action :: "action_doc \<Rightarrow> exc + play_action" where
  "load_action d =
     ebind (ebind (need_key (ad_type d)) (enum_of action_type_value all_action_types)) (\<lambda>t.
     ebind (opt_enum action_type_value all_action_types (ad_rollback_action d)) (\<lambda>ra.
     Inr \<lparr>ac_type = t, ac_params = get_default (ad_params d) [],
          ac_require_approval = get_default (ad_require_approval d) False,
          ac_timeout_seconds = get_default (ad_timeout_seconds d) 30,
          ac_retry_count = get_default (ad_retry_count d) 1, ac_rollback_action = ra\<rparr>))"

definition load_trigger :: "trigger_doc \<Rightarrow> exc + trigger" where
  "load_trigger d =
     ebind (ebind (need_key (td_type d)) (enum_of trigger_type_value all_trigger_types)) (\<lambda>t.
     ebind (opt_enum risk_level_value all_risk_levels (td_risk_level d)) (\<lambda>r.
     Inr \<lparr>tr_type = t, tr_event_pattern = get_default (td_event_pattern d) [],
          tr_metric_name = get_default (td_metric_name d) [], tr_threshold = get_default (td_threshold d) 0,
          tr_comparison = get_default (td_comparison d) ''>'', tr_risk_level = r\<rparr>))"

definition load_playbook :: "time \<Rightarrow> playbook_doc \<Rightarrow> exc + playbook" where
  "load_playbook now d =
     ebind (need_key (pd_id d)) (\<lambda>i.
     ebind (need_key (pd_name d)) (\<lambda>n.
     ebind (ebind (need_key (pd_trigger d)) load_trigger) (\<lambda>t.
     ebind (emap load_action (get_default (pd_actions d) [])) (\<lambda>as.
     Inr \<lparr>pb_id = i, pb_name = n, pb_description = get_default (pd_description d) [], pb_trigger = Some t,
          pb_conditions = get_default (pd_conditions d) [], pb_actions = as,
          pb_on_failure = get_default (pd_on_failure d) ''alert'', pb_enabled = get_default (pd_enabled d) True,
          pb_priority = get_default (pd_priority d) 100, pb_created_at = now, pb_tags = get_default (pd_tags d) []\<rparr>))))"

fun load_playbooks :: "time \<Rightarrow> playbook_doc list \<Rightarrow> play_engine \<Rightarrow> play_engine \<times> (exc + nat)" where
  "load_playbooks now [] s = (s, Inr 0)"
| "load_playbooks now (d # ds) s =
     (case load_playbook now d of
        Inl e \<Rightarrow> (s, Inl e)
      | Inr p \<Rightarrow>
          (case load_playbooks now ds (register_playbook p s) of
             (s', Inl e) \<Rightarrow> (s', Inl e)
           | (s', Inr n) \<Rightarrow> (s', Inr (n + 1))))"

subsection \<open>Operations\<close>

datatype play_op =
    Op_Register playbook
  | Op_Unregister string
  | Op_Handler action_type handler
  | Op_Event event
  | Op_Approve string string
  | Op_Reject string string
  | Op_Load "playbook_doc list"

fun play_step :: "play_env \<Rightarrow> time \<times> play_op \<Rightarrow> play_engine \<Rightarrow> play_engine" where
  "play_step env (now, Op_Register p) s = register_playbook p s"
| "play_step env (now, Op_Unregister pid) s = unregister_playbook pid s"
| "play_step env (now, Op_Handler a h) s = register_action_handler a h s"
| "play_step env (now, Op_Event e) s = fst (handle_event env now e s)"
| "play_step env (now, Op_Approve eid who) s = fst (approve_execution env now eid who s)"
| "play_step env (now, Op_Reject eid reason) s = fst (reject_execution now eid reason s)"
| "play_step env (now, Op_Load ds) s = fst (load_playbooks now ds s)"

definition engine_fresh :: "play_engine \<Rightarrow> bool" where
  "engine_fresh s \<longleftrightarrow> s = init_engine"

subsection \<open>No gated action is ever performed\<close>

definition ungated :: "play_engine \<Rightarrow> bool" where
  "ungated s \<longleftrightarrow> (\<forall>(i, a)\<in>set (pe_calls s). \<not> ac_require_approval a)"

lemma plain_action_ungated [simp]: "\<not> ac_require_approval (plain_action a)" "ac_type (plain_action a) = a"
  "ac_params (plain_action a) = []"
  by (simp_all add: plain_action_def)

text \<open>
  What performing actions does: the engine gets further calls, none of a gated action, and the
  execution keeps its identity.
\<close>

definition performs :: "execution \<Rightarrow> play_engine \<Rightarrow> execution \<Rightarrow> play_engine \<Rightarrow> bool" where
  "performs x s x' s' \<longleftrightarrow>
     (\<exists>cs. s' = s\<lparr>pe_calls := pe_calls s @ cs\<rparr> \<and> (\<forall>c\<in>set cs. \<not> ac_require_approval (snd c))) \<and>
     ex_id x' = ex_id x \<and> ex_playbook_id x' = ex_playbook_id x \<and> ex_trigger_event x' = ex_trigger_event x"

lemma performs_refl: "ex_id x' = ex_id x \<Longrightarrow> ex_playbook_id x' = ex_playbook_id x \<Longrightarrow>
    ex_trigger_event x' = ex_trigger_event x \<Longrightarrow> performs x s x' s"
  unfolding performs_def by (auto intro!: exI [of _ "[]"])

lemma performs_trans:
  assumes "performs x s x1 s1" "performs x1 s1 x2 s2"
  shows "performs x s x2 s2"
proof -
  obtain cs where cs: "s1 = s\<lparr>pe_calls := pe_calls s @ cs\<rparr>" "\<forall>c\<in>set cs. \<not> ac_require_approval (snd c)"
    using assms(1) by (auto simp: performs_def)
  obtain ds where ds: "s2 = s1\<lparr>pe_calls := pe_calls s1 @ ds\<rparr>" "\<forall>c\<in>set ds. \<not> ac_require_approval (snd c)"
    using assms(2) by (auto simp: performs_def)
  show ?thesis unfolding performs_def
    by (intro conjI exI [of _ "cs @ ds"]) (use assms cs ds in \<open>auto simp: performs_def\<close>)
qed

lemma performs_execution:
  "performs x s x1 s1 \<Longrightarrow> ex_id x2 = ex_id x1 \<Longrightarrow> ex_playbook_id x2 = ex_playbook_id x1 \<Longrightarrow>
   ex_trigger_event x2 = ex_trigger_event x1 \<Longrightarrow> performs x s x2 s1"
  by (simp add: performs_def)

lemma audit_frame [simp]:
  "ex_id (audit now m x) = ex_id x" "ex_playbook_id (audit now m x) = ex_playbook_id x"
  "ex_trigger_event (audit now m x) = ex_trigger_event x" "ex_status (audit now m x) = ex_status x"
  "ex_action_results (audit now m x) = ex_action_results x" "ex_started_at (audit now m x) = ex_started_at x"
  by (simp_all add: audit_def)

lemma pending_same [simp]: "s\<lparr>pe_pending := pe_pending s\<rparr> = (s :: play_engine)"
  by simp

lemma execute_action_performs:
  assumes "execute_action env now a e x s = (r, x', s')" "\<not> ac_require_approval a"
  shows "performs x s x' s'"
  unfolding performs_def
  using assms
  by (intro conjI exI [of _ "if dget (pe_handlers s) (ac_type a) = None then [] else [(ex_id x, a)]"])
    (auto simp: execute_action_def Let_def split: option.splits sum.splits)

lemma play_failure_performs:
  assumes "play_failure env now p a e x s = (x', s')"
  shows "performs x s x' s'"
proof -
  let ?x = "audit now (''action failed: '' @ action_type_value (ac_type a)) x"
  have step: "performs x s (x1\<lparr>ex_status := st\<rparr>) s1"
    if "execute_action env now (plain_action b) e y s = (r, x1, s1)"
      "ex_id y = ex_id x" "ex_playbook_id y = ex_playbook_id x" "ex_trigger_event y = ex_trigger_event x" for b y r x1 s1 st
  proof -
    have "performs y s x1 s1" using execute_action_performs [OF that(1)] by simp
    then show ?thesis using that(2-4) by (simp add: performs_def)
  qed
  show ?thesis
  proof (cases "if pb_on_failure p = ''rollback'' then ac_rollback_action a else None")
    case (Some b)
    obtain r x1 s1 where ex: "execute_action env now (plain_action b) e (audit now ''rollback'' ?x) s = (r, x1, s1)"
      by (metis prod_cases3)
    then show ?thesis using assms Some step [OF ex] by (auto simp: play_failure_def Let_def)
  next
    case None
    obtain r x1 s1 where ex: "execute_action env now (plain_action SEND_ALERT) e ?x s = (r, x1, s1)"
      by (metis prod_cases3)
    then show ?thesis using assms None step [OF ex]
      by (auto simp: play_failure_def Let_def performs_refl split: if_splits)
  qed
qed

text \<open>The loop does that too, but for the list of pending executions.\<close>

lemma run_actions_performs:
  assumes "run_actions env now p e as x s = (x', s', gate)"
  shows "performs x s x' (s'\<lparr>pe_pending := pe_pending s\<rparr>) \<and>
    (if gate then ex_status x' = PB_WAITING_APPROVAL \<and> set (pe_pending s') = insert (ex_id x) (set (pe_pending s))
     else pe_pending s' = pe_pending s)"
  using assms
proof (induction as arbitrary: x s)
  case Nil
  then show ?case by (simp add: performs_refl)
next
  case (Cons a as)
  show ?case
  proof (cases "ac_require_approval a")
    case True
    then show ?thesis using Cons.prems by (auto simp: performs_refl split: if_splits)
  next
    case False
    obtain r x1 s1 where ex: "execute_action env now a e x s = (r, x1, s1)" by (metis prod_cases3)
    let ?x2 = "x1\<lparr>ex_action_results := ex_action_results x1 @ [r]\<rparr>"
    have p1: "performs x s ?x2 s1" using execute_action_performs [OF ex False] by (simp add: performs_def)
    then have same: "pe_pending s1 = pe_pending s" "ex_id ?x2 = ex_id x" by (auto simp: performs_def)
    show ?thesis
    proof (cases "re_success r")
      case True
      then have "run_actions env now p e as ?x2 s1 = (x', s', gate)" using Cons.prems False ex by simp
      from Cons.IH [OF this] have "performs ?x2 s1 x' (s'\<lparr>pe_pending := pe_pending s1\<rparr>)" "if gate then
          ex_status x' = PB_WAITING_APPROVAL \<and> set (pe_pending s') = insert (ex_id ?x2) (set (pe_pending s1))
          else pe_pending s' = pe_pending s1" by auto
      then show ?thesis using performs_trans [OF p1] same by simp
    next
      case fail: False
      obtain x3 s2 where fa: "play_failure env now p a e ?x2 s1 = (x3, s2)" by fastforce
      then have eq: "x' = x3" "s' = s2" "\<not> gate" using Cons.prems False ex fail by auto
      have p2: "performs x s x3 s2" using performs_trans [OF p1 play_failure_performs [OF fa]] .
      then have same: "pe_pending s = pe_pending s2" by (auto simp: performs_def)
      show ?thesis using p2 eq unfolding same by simp
    qed
  qed
qed

lemma ungated_performs: "performs x s x' s' \<Longrightarrow> ungated s \<Longrightarrow> ungated s'"
  by (fastforce simp: performs_def ungated_def)

lemma ungated_frame [simp]:
  "ungated (s\<lparr>pe_pending := ps\<rparr>) = ungated s" "ungated (s\<lparr>pe_started := n\<rparr>) = ungated s"
  "ungated (s\<lparr>pe_executions := xs\<rparr>) = ungated s" "ungated (s\<lparr>pe_playbooks := bs\<rparr>) = ungated s"
  "ungated (s\<lparr>pe_handlers := hs\<rparr>) = ungated s"
  by (simp_all add: ungated_def)

lemma ungated_execute:
  assumes u: "ungated s"
  shows "ungated (fst (execute_playbook env now p e s))"
proof -
  let ?x = "audit now (''playbook started: '' @ pb_name p) (new_execution now (en_fresh env (pe_started s)) p e)"
  let ?s = "s\<lparr>pe_started := pe_started s + 1\<rparr>"
  obtain x1 s1 gate where run: "run_actions env now p e (pb_actions p) ?x ?s = (x1, s1, gate)" by (metis prod_cases3)
  have "ungated ?s" using u by simp
  then have "ungated (s1\<lparr>pe_pending := pe_pending ?s\<rparr>)"
    using ungated_performs conjunct1 [OF run_actions_performs [OF run]] by blast
  then have "ungated s1" unfolding ungated_frame .
  then show ?thesis using run by (simp add: execute_playbook_def Let_def)
qed

lemma ungated_handle: "ungated s \<Longrightarrow> ungated (fst (handle_playbooks env now e ps s))"
proof (induction ps arbitrary: s)
  case (Cons p ps)
  obtain s1 x where ex: "execute_playbook env now p e s = (s1, x)" by fastforce
  then have "ungated s1" using ungated_execute [OF Cons.prems, of env now p e] by simp
  then have "ungated (fst (handle_playbooks env now e ps s1))" "ungated (fst (handle_playbooks env now e ps s))"
    using Cons by simp_all
  then show ?case using Cons.prems ex by (auto split: sum.split bool.split prod.splits)
qed simp

lemma ungated_load: "ungated s \<Longrightarrow> ungated (fst (load_playbooks now ds s))"
proof (induction ds arbitrary: s)
  case (Cons d ds)
  have step: "ungated (fst (load_playbooks now ds (register_playbook p s)))" for p
    using Cons by (simp add: register_playbook_def)
  show ?case
  proof (cases "load_playbook now d")
    case (Inr p)
    obtain s1 r where l: "load_playbooks now ds (register_playbook p s) = (s1, r)" by fastforce
    then have "ungated s1" using step [of p] by simp
    then show ?thesis using Inr l by (cases r) auto
  qed (simp add: Cons.prems)
qed simp

lemma ungated_step: "ungated s \<Longrightarrow> ungated (play_step env op s)"
proof (induction env op s rule: play_step.induct)
  case (5 env now eid who s)
  then have "ungated (s\<lparr>pe_pending := ps, pe_executions := xs\<rparr>)" for ps xs by simp
  from ungated_execute [OF this] 5 show ?case
    by (auto simp: approve_execution_def Let_def case_prod_unfold split: option.split)
qed (simp_all add: register_playbook_def unregister_playbook_def register_action_handler_def
    handle_event_def reject_execution_def Let_def ungated_handle ungated_load split: option.split)

interpretation engine: machine engine_fresh "play_step env" ungated
  by unfold_locales (simp_all add: engine_fresh_def ungated_step, simp add: init_engine_def ungated_def)

text \<open>
  C7. No gated action is ever performed: in every run of the engine, whatever playbooks, handlers,
  events, approvals and rejections, the actions handed to a handler are ones that require no
  approval. Approving an execution does not let its gated action through.
\<close>

theorem gated_actions_never_run:
  assumes "reachable engine_fresh (play_step env) s" "(eid, a) \<in> set (pe_calls s)"
  shows "\<not> ac_require_approval a"
  using engine.inv_reachable [OF assms(1)] assms(2) by (auto simp: ungated_def)

definition demo_env :: play_env where
  "demo_env = \<lparr>en_fresh = dec_nat, en_hex = dec_nat, en_dumps = (\<lambda>e. []), en_search = (\<lambda>p t. Inr True), en_str = (\<lambda>v. [])\<rparr>"

definition demo_playbook :: playbook where
  "demo_playbook = \<lparr>pb_id = ''p'', pb_name = ''p'', pb_description = [],
     pb_trigger = Some \<lparr>tr_type = TR_MANUAL, tr_event_pattern = [], tr_metric_name = [], tr_threshold = 0,
       tr_comparison = ''>'', tr_risk_level = None\<rparr>,
     pb_conditions = [],
     pb_actions = [plain_action SNAPSHOT_EVIDENCE, (plain_action ISOLATE_CONTAINER)\<lparr>ac_require_approval := True\<rparr>],
     pb_on_failure = ''alert'', pb_enabled = True, pb_priority = 100, pb_created_at = 0, pb_tags = []\<rparr>"

definition demo_engine :: play_engine where
  "demo_engine = play_step demo_env (2, Op_Event [(''type'', JStr ''manual'')])
     (play_step demo_env (1, Op_Register demo_playbook) init_engine)"

lemma demo_engine_reachable: "reachable engine_fresh (play_step demo_env) demo_engine"
  unfolding demo_engine_def by (intro reachable.reach_step reachable.reach_init) (simp add: engine_fresh_def)

lemma demo_engine_calls: "pe_calls demo_engine = [(dec_nat 0, plain_action SNAPSHOT_EVIDENCE)]"
  "pe_pending demo_engine = [dec_nat 0]"
  "dget (pe_playbooks demo_engine) ''p'' = Some demo_playbook" "pe_started demo_engine = 1"
  "pe_handlers demo_engine = default_handlers"
  "\<exists>x. pe_executions demo_engine = [(dec_nat 0, x)] \<and> ex_playbook_id x = ''p'' \<and> ex_trigger_event x = [(''type'', JStr ''manual'')]"
  by (simp_all add: demo_engine_def register_playbook_def init_engine_def handle_event_def sorted_playbooks_def vals_def
      demo_playbook_def playbook_matches_def match_trigger_def match_conditions_def dget_or_def metric_matches_def
      risk_matches_def execute_playbook_def Let_def execute_action_def default_handlers_def resolve_params_def
      new_execution_def audit_def demo_env_def)

theorem gated_actions_never_run_witness:
  "\<exists>a. (dec_nat 0, a) \<in> set (pe_calls demo_engine) \<and> \<not> ac_require_approval a"
proof -
  have "(dec_nat 0, plain_action SNAPSHOT_EVIDENCE) \<in> set (pe_calls demo_engine)" by (simp add: demo_engine_calls)
  then show ?thesis using gated_actions_never_run [OF demo_engine_reachable] by blast
qed

subsection \<open>What an execution does\<close>

text \<open>Whether the action at a position succeeds when all before it have.\<close>

fun handler_succeeds :: "handler option \<Rightarrow> string \<Rightarrow> (string, json) dict \<Rightarrow> event \<Rightarrow> bool" where
  "handler_succeeds None u ps e = False"
| "handler_succeeds (Some h) u ps e = (case h u ps e of Inl err \<Rightarrow> False | Inr out \<Rightarrow> True)"

definition action_succeeds :: "play_env \<Rightarrow> play_engine \<Rightarrow> event \<Rightarrow> nat \<Rightarrow> play_action \<Rightarrow> bool" where
  "action_succeeds env s e i a =
     handler_succeeds (dget (pe_handlers s) (ac_type a)) (en_hex env (length (pe_calls s) + i))
       (resolve_params (ac_params a) e) e"

definition runs_through :: "play_env \<Rightarrow> play_engine \<Rightarrow> event \<Rightarrow> play_action list \<Rightarrow> bool" where
  "runs_through env s e as \<longleftrightarrow> (\<forall>i<length as. \<not> ac_require_approval (as ! i) \<and> action_succeeds env s e i (as ! i))"

lemma action_succeeds_next: "action_succeeds env (s\<lparr>pe_calls := pe_calls s @ [c]\<rparr>) e i a = action_succeeds env s e (Suc i) a"
  by (simp add: action_succeeds_def)

lemma runs_through_Cons:
  "runs_through env s e (a # as) \<longleftrightarrow> \<not> ac_require_approval a \<and> action_succeeds env s e 0 a \<and>
     runs_through env (s\<lparr>pe_calls := pe_calls s @ [c]\<rparr>) e as"
  by (simp add: runs_through_def action_succeeds_next All_less_Suc2)

lemma execute_action_success:
  "execute_action env now a e x s = (r, x', s') \<Longrightarrow> re_success r = action_succeeds env s e 0 a \<and>
     (re_success r \<longrightarrow> x' = x \<and> s' = s\<lparr>pe_calls := pe_calls s @ [(ex_id x, a)]\<rparr>)"
  by (auto simp: execute_action_def action_succeeds_def Let_def split: option.splits sum.splits)

text \<open>The loop runs through actions that succeed.\<close>

lemma execute_action_results:
  "execute_action env now a e x s = (r, x', s') \<Longrightarrow> ex_action_results x' = ex_action_results x"
  by (auto simp: execute_action_def Let_def split: option.splits sum.splits)

lemma run_actions_prefix:
  assumes "runs_through env s e as"
  shows "\<exists>rs. length rs = length as \<and> (\<forall>r\<in>set rs. re_success r) \<and>
    run_actions env now p e (as @ bs) x s =
    run_actions env now p e bs (x\<lparr>ex_action_results := ex_action_results x @ rs\<rparr>)
      (s\<lparr>pe_calls := pe_calls s @ map (Pair (ex_id x)) as\<rparr>)"
  using assms
proof (induction as arbitrary: x s)
  case Nil
  then show ?case by simp
next
  case (Cons a as)
  obtain r x1 s1 where ex: "execute_action env now a e x s = (r, x1, s1)" by (metis prod_cases3)
  have a: "\<not> ac_require_approval a" "re_success r" "x1 = x" "s1 = s\<lparr>pe_calls := pe_calls s @ [(ex_id x, a)]\<rparr>"
    using execute_action_success [OF ex] Cons.prems runs_through_Cons by blast+
  have "runs_through env s1 e as" using Cons.prems a(4) runs_through_Cons by blast
  from Cons.IH [OF this, of "x\<lparr>ex_action_results := ex_action_results x @ [r]\<rparr>"]
  obtain rs where rs: "length rs = length as" "\<forall>r\<in>set rs. re_success r"
    "run_actions env now p e (as @ bs) (x\<lparr>ex_action_results := ex_action_results x @ [r]\<rparr>) s1 =
     run_actions env now p e bs (x\<lparr>ex_action_results := ex_action_results x @ [r] @ rs\<rparr>)
       (s1\<lparr>pe_calls := pe_calls s1 @ map (Pair (ex_id x)) as\<rparr>)" by auto
  show ?case
    by (intro exI [of _ "r # rs"]) (use ex a rs in simp)
qed

text \<open>What an execution that performs exactly the actions \<open>as\<close> leaves behind.\<close>

definition execution_after :: "play_engine \<Rightarrow> play_engine \<Rightarrow> execution \<Rightarrow> play_action list \<Rightarrow> string \<Rightarrow> bool" where
  "execution_after s s' x as eid \<longleftrightarrow> ex_id x = eid \<and> get_execution eid s' = Some x \<and>
     pe_calls s' = pe_calls s @ map (Pair eid) as"

text \<open>The action that follows the failure of \<open>a\<close> by the policy, and the actions that have a handler.\<close>

definition follow_up :: "playbook \<Rightarrow> play_action \<Rightarrow> play_action list" where
  "follow_up p a =
     (case (pb_on_failure p = ''rollback'', ac_rollback_action a) of
        (True, Some ra) \<Rightarrow> [plain_action ra]
      | _ \<Rightarrow> if pb_on_failure p = ''manual'' then [] else [plain_action SEND_ALERT])"

definition has_handler :: "play_engine \<Rightarrow> play_action \<Rightarrow> bool" where
  "has_handler s a \<longleftrightarrow> dget (pe_handlers s) (ac_type a) \<noteq> None"

lemma execute_action_calls:
  "execute_action env now a e x s = (r, x', s') \<Longrightarrow>
   pe_calls s' = pe_calls s @ map (Pair (ex_id x)) (filter (has_handler s) [a]) \<and> pe_handlers s' = pe_handlers s \<and> ex_id x' = ex_id x"
  by (auto simp: execute_action_def has_handler_def Let_def split: option.splits sum.splits)

lemma play_failure_calls:
  "play_failure env now p a e x s = (x', s') \<Longrightarrow>
   pe_calls s' = pe_calls s @ map (Pair (ex_id x)) (filter (has_handler s) (follow_up p a))"
  by (auto simp: play_failure_def follow_up_def Let_def dest!: execute_action_calls split: option.splits if_splits prod.splits)

definition failure_status :: "playbook \<Rightarrow> play_action \<Rightarrow> play_status" where
  "failure_status p a =
     (if pb_on_failure p = ''rollback'' \<and> ac_rollback_action a \<noteq> None then PB_ROLLED_BACK
      else if pb_on_failure p = ''manual'' then PB_WAITING_APPROVAL else PB_FAILED)"

lemma play_failure_status:
  "play_failure env now p a e x s = (x', s') \<Longrightarrow> ex_status x' = failure_status p a \<and> ex_action_results x' = ex_action_results x"
  by (auto simp: play_failure_def failure_status_def Let_def dest!: execute_action_results split: option.splits if_splits prod.splits)

lemma runs_through_frame [simp]: "runs_through env (s\<lparr>pe_started := n\<rparr>) e as = runs_through env s e as"
  "runs_through env (s\<lparr>pe_pending := ps\<rparr>) e as = runs_through env s e as"
  "runs_through env (s\<lparr>pe_executions := xs\<rparr>) e as = runs_through env s e as"
  by (simp_all add: runs_through_def action_succeeds_def)

lemma performs_pending: "performs x s x' s' \<Longrightarrow> pe_pending s' = pe_pending s \<and> (\<exists>cs. pe_calls s' = pe_calls s @ cs)"
  by (auto simp: performs_def)

text \<open>
  C17. What an execution does is fixed by the first action that requires approval or fails. The calls of handlers it makes are exactly
  these. Without such an action: every action of the playbook once, in order; the execution is
  completed, with a success for every action. At a gate: the actions before it, once each, in order; the execution waits for approval and is
  pending. At a failure: the actions before it, once each, in order, then the failing one and the one action that the failure policy asks
  for (the rollback action, an alert, or none when an operator is to decide), as far as they have handlers; the
  result of the failing action is the last, the status follows from the policy, and
  the execution is not pending: one that waits for an operator by the policy can be neither
  approved nor rejected.
\<close>

theorem execution_outcome:
  assumes "execute_playbook env now p e s = (s', x)" "k \<le> length (pb_actions p)"
    and "runs_through env s e (take k (pb_actions p))" "eid = en_fresh env (pe_started s)"
  shows "(k = length (pb_actions p) \<longrightarrow> execution_after s s' x (pb_actions p) eid \<and>
       ex_status x = PB_COMPLETED \<and> length (ex_action_results x) = k \<and>
       (\<forall>r\<in>set (ex_action_results x). re_success r) \<and> pe_pending s' = pe_pending s) \<and>
    (k < length (pb_actions p) \<and> ac_require_approval (pb_actions p ! k) \<longrightarrow>
       execution_after s s' x (take k (pb_actions p)) eid \<and>
       ex_status x = PB_WAITING_APPROVAL \<and> length (ex_action_results x) = k \<and>
       set (pe_pending s') = insert (ex_id x) (set (pe_pending s))) \<and>
    (k < length (pb_actions p) \<and> \<not> ac_require_approval (pb_actions p ! k) \<and>
       \<not> action_succeeds env s e k (pb_actions p ! k) \<longrightarrow>
       execution_after s s' x (take k (pb_actions p) @ filter (has_handler s) (pb_actions p ! k # follow_up p (pb_actions p ! k))) eid \<and>
       ex_status x = failure_status p (pb_actions p ! k) \<and> length (ex_action_results x) = k + 1 \<and>
       \<not> re_success (last (ex_action_results x)) \<and> pe_pending s' = pe_pending s)"
proof -
  let ?x = "audit now (''playbook started: '' @ pb_name p) (new_execution now (en_fresh env (pe_started s)) p e)"
  let ?s = "s\<lparr>pe_started := pe_started s + 1\<rparr>" and ?pre = "take k (pb_actions p)" and ?post = "drop k (pb_actions p)"
  have x0: "ex_id ?x = en_fresh env (pe_started s)" "ex_action_results ?x = []" "ex_status ?x = PB_RUNNING"
    by (simp_all add: new_execution_def)
  obtain rs where rs: "length rs = k" "\<forall>r\<in>set rs. re_success r"
    "run_actions env now p e (pb_actions p) ?x ?s =
     run_actions env now p e ?post (?x\<lparr>ex_action_results := rs\<rparr>) (?s\<lparr>pe_calls := pe_calls s @ map (Pair (ex_id ?x)) ?pre\<rparr>)"
    using run_actions_prefix [of env ?s e ?pre now p ?post ?x] assms(2,3) x0(2) by auto
  let ?y = "?x\<lparr>ex_action_results := rs\<rparr>" and ?t = "?s\<lparr>pe_calls := pe_calls s @ map (Pair (ex_id ?x)) ?pre\<rparr>"
  obtain x1 s1 gate where run: "run_actions env now p e ?post ?y ?t = (x1, s1, gate)" by (metis prod_cases3)
  note perf = run_actions_performs [OF run]
  have res: "s' = s1\<lparr>pe_executions := dset (ex_id ?x) x (pe_executions s1)\<rparr>"
    "ex_status x = (if \<not> gate \<and> ex_status x1 = PB_RUNNING then PB_COMPLETED else ex_status x1)"
    "ex_action_results x = ex_action_results x1" "ex_id x = ex_id x1"
    using assms(1) rs(3) run by (auto simp: execute_playbook_def Let_def)
  have id: "ex_id x = ex_id ?x" using perf res(4) by (simp add: performs_def)
  have after: "execution_after s s' x (take k (pb_actions p) @ as) eid" if "pe_calls s1 = pe_calls ?t @ map (Pair (ex_id ?x)) as" for as
    using res(1) id x0(1) that assms(4) by (simp add: execution_after_def get_execution_def dget_dset)
  show ?thesis
  proof (cases "k = length (pb_actions p)")
    case True
    then have "x1 = ?y" "s1 = ?t" "\<not> gate" using run by simp_all
    then show ?thesis using True after [of "[]"] res rs x0(3) by simp
  next
    case False
    then have post: "?post = pb_actions p ! k # drop (Suc k) (pb_actions p)"
      using assms(2) by (simp add: Cons_nth_drop_Suc)
    let ?a = "pb_actions p ! k"
    show ?thesis
    proof (cases "ac_require_approval ?a")
      case True
      then have g: "gate" "ex_action_results x1 = rs" "pe_calls s1 = pe_calls ?t" using run unfolding post by auto
      then show ?thesis using False True after [of "[]"] perf res rs(1) id assms(2) by (auto simp: performs_def)
    next
      case ng: False
      show ?thesis
      proof (cases "action_succeeds env s e k ?a")
        case True
        then show ?thesis using False ng by simp
      next
        case fails: False
        obtain r x2 s2 where ex: "execute_action env now ?a e ?y ?t = (r, x2, s2)" by (metis prod_cases3)
        have "action_succeeds env ?t e 0 ?a = action_succeeds env s e k ?a"
          using assms(2) by (simp add: action_succeeds_def)
        then have nr: "\<not> re_success r" using execute_action_success [OF ex] fails by simp
        obtain x3 s3 where fa: "play_failure env now p ?a e (x2\<lparr>ex_action_results := rs @ [r]\<rparr>) s2 = (x3, s3)" by fastforce
        have "ex_action_results x2 = rs" using execute_action_results [OF ex] by simp
        then have eq: "x1 = x3" "s1 = s3" "\<not> gate" using run ng ex nr fa unfolding post by simp_all
        have "ex_status x1 = failure_status p ?a" "ex_action_results x1 = rs @ [r]"
          using play_failure_status [OF fa] eq by simp_all
        moreover have "pe_calls s1 = pe_calls ?t @ map (Pair (ex_id ?x)) (filter (has_handler s) (?a # follow_up p ?a))"
        proof -
          have h: "has_handler ?t = has_handler s" by (rule ext) (simp add: has_handler_def)
          note c = execute_action_calls [OF ex]
          have "has_handler s2 = has_handler s" using c by (intro ext) (simp add: has_handler_def)
          then show ?thesis using play_failure_calls [OF fa] c h eq(2) by simp
        qed
        ultimately show ?thesis using False ng after res rs(1) nr eq(3) perf by (auto simp: failure_status_def)
      qed
    qed
  qed
qed

theorem execution_outcome_witness:
  "\<exists>s' x. execute_playbook demo_env 1 demo_playbook [] init_engine = (s', x) \<and> ex_status x = PB_WAITING_APPROVAL \<and>
     map snd (pe_calls s') = take 1 (pb_actions demo_playbook) \<and> length (ex_action_results x) = 1 \<and> set (pe_pending s') = {ex_id x}"
proof -
  obtain s' x where ex: "execute_playbook demo_env 1 demo_playbook [] init_engine = (s', x)" by fastforce
  have "runs_through demo_env init_engine [] (take 1 (pb_actions demo_playbook))"
    by (simp add: runs_through_def action_succeeds_def demo_playbook_def init_engine_def default_handlers_def)
  moreover have "1 < length (pb_actions demo_playbook)" "ac_require_approval (pb_actions demo_playbook ! 1)"
    "pe_pending init_engine = []" by (simp_all add: demo_playbook_def init_engine_def)
  ultimately show ?thesis using execution_outcome [OF ex, of 1] ex by (auto simp: execution_after_def init_engine_def comp_def)
qed

subsection \<open>Approvals\<close>

lemma execute_gated:
  assumes "execute_playbook env now p e s = (s', y)" "k < length (pb_actions p)" "ac_require_approval (pb_actions p ! k)"
    and "runs_through env s e (take k (pb_actions p))"
  shows "pe_calls s' = pe_calls s @ map (Pair (ex_id y)) (take k (pb_actions p)) \<and> pe_playbooks s' = pe_playbooks s \<and>
    pe_handlers s' = pe_handlers s \<and> ex_playbook_id y = pb_id p \<and> ex_trigger_event y = e \<and>
    ex_status y = PB_WAITING_APPROVAL \<and> ex_id y \<in> set (pe_pending s') \<and> get_execution (ex_id y) s' = Some y"
proof -
  let ?x = "audit now (''playbook started: '' @ pb_name p) (new_execution now (en_fresh env (pe_started s)) p e)"
  let ?pre = "take k (pb_actions p)" and ?s = "s\<lparr>pe_started := pe_started s + 1\<rparr>"
  obtain rs where r: "run_actions env now p e (?pre @ drop k (pb_actions p)) ?x ?s =
     run_actions env now p e (drop k (pb_actions p)) (?x\<lparr>ex_action_results := ex_action_results ?x @ rs\<rparr>)
       (?s\<lparr>pe_calls := pe_calls ?s @ map (Pair (ex_id ?x)) ?pre\<rparr>)"
    using run_actions_prefix [of env ?s e ?pre now p "drop k (pb_actions p)" ?x, unfolded runs_through_frame, OF assms(4)] by blast
  have d: "drop k (pb_actions p) = pb_actions p ! k # drop (Suc k) (pb_actions p)"
    using assms(2) by (simp add: Cons_nth_drop_Suc)
  have run: "run_actions env now p e (pb_actions p) ?x ?s =
     run_actions env now p e (pb_actions p ! k # drop (Suc k) (pb_actions p)) (?x\<lparr>ex_action_results := ex_action_results ?x @ rs\<rparr>)
       (?s\<lparr>pe_calls := pe_calls ?s @ map (Pair (ex_id ?x)) ?pre\<rparr>)"
    using r [unfolded append_take_drop_id] unfolding d .
  show ?thesis using assms(1) unfolding execute_playbook_def Let_def run
    by (auto simp: assms(3) new_execution_def get_execution_def dget_dset)
qed

text \<open>Approving an execution, then the execution this started, and so on.\<close>

fun approve_again :: "play_env \<Rightarrow> time \<Rightarrow> string \<Rightarrow> nat \<Rightarrow> string \<Rightarrow> play_engine \<Rightarrow> play_engine \<times> string" where
  "approve_again env now who 0 eid s = (s, eid)"
| "approve_again env now who (Suc n) eid s =
     (case approve_execution env now eid who s of
        (s', None) \<Rightarrow> (s', eid)
      | (s', Some y) \<Rightarrow> approve_again env now who n (ex_id y) s')"

text \<open>
  Approval never helps: take an execution that waits at the first gate of its playbook, after
  \<open>k\<close> actions, with handlers that work. However many times it, and the execution this starts, are
  approved, the last execution waits again at the same gate, and the \<open>k\<close> actions before the gate
  have been performed once more for every approval.
\<close>

theorem approvals_repeat_forever:
  assumes "eid \<in> set (pe_pending s)" "get_execution eid s = Some x" "ex_status x = PB_WAITING_APPROVAL"
    and "dget (pe_playbooks s) (ex_playbook_id x) = Some p" "ex_playbook_id x = pb_id p"
    and "k < length (pb_actions p)" "ac_require_approval (pb_actions p ! k)"
    and "\<forall>a\<in>set (take k (pb_actions p)). \<not> ac_require_approval a \<and>
      (\<forall>u. handler_succeeds (dget (pe_handlers s) (ac_type a)) u (resolve_params (ac_params a) (ex_trigger_event x)) (ex_trigger_event x))"
    and "approve_again env now who n eid s = (s', eid')"
  shows "(\<exists>y. get_execution eid' s' = Some y \<and> ex_status y = PB_WAITING_APPROVAL \<and> ex_playbook_id y = pb_id p) \<and>
    eid' \<in> set (pe_pending s') \<and>
    map snd (pe_calls s') = map snd (pe_calls s) @ concat (replicate n (take k (pb_actions p)))"
  using assms
proof (induction n arbitrary: eid s x)
  case 0
  then show ?case by auto
next
  case (Suc n)
  let ?x = "audit now (''approved: '' @ who) (x\<lparr>ex_approver := who, ex_status := PB_RUNNING\<rparr>)"
  let ?s = "s\<lparr>pe_pending := remove1 eid (pe_pending s), pe_executions := dset eid ?x (pe_executions s)\<rparr>"
  obtain s1 y where ex: "execute_playbook env now p (ex_trigger_event x) ?s = (s1, y)" by fastforce
  have ap: "approve_execution env now eid who s = (s1, Some y)"
    using Suc.prems(1,2,4) ex by (simp add: approve_execution_def get_execution_def Let_def)
  have "runs_through env ?s (ex_trigger_event x) (take k (pb_actions p))"
    using Suc.prems(8) nth_mem [of _ "take k (pb_actions p)"] unfolding runs_through_def
    by (auto simp: action_succeeds_def simp del: nth_take length_take)
  from execute_gated [OF ex Suc.prems(6,7) this]
  have g: "pe_calls s1 = pe_calls s @ map (Pair (ex_id y)) (take k (pb_actions p))" "pe_playbooks s1 = pe_playbooks s"
    "pe_handlers s1 = pe_handlers s" "ex_playbook_id y = pb_id p" "ex_trigger_event y = ex_trigger_event x"
    "ex_status y = PB_WAITING_APPROVAL" "ex_id y \<in> set (pe_pending s1)" "get_execution (ex_id y) s1 = Some y"
    by simp_all
  have again: "approve_again env now who n (ex_id y) s1 = (s', eid')" using Suc.prems(9) ap by simp
  have "dget (pe_playbooks s1) (ex_playbook_id y) = Some p" using Suc.prems(4,5) g(2,4) by simp
  from Suc.IH [OF g(7,8,6) this g(4) Suc.prems(6,7) _ again] Suc.prems(8) g(1,3,5)
  show ?case by (simp add: comp_def)
qed

theorem approvals_repeat_forever_witness:
  "map snd (pe_calls (fst (approve_again demo_env 3 ''ann'' 7 (dec_nat 0) demo_engine))) =
     replicate 8 (plain_action SNAPSHOT_EVIDENCE)"
proof -
  obtain x where x: "get_execution (dec_nat 0) demo_engine = Some x" "ex_playbook_id x = ''p''"
    "ex_status x = PB_WAITING_APPROVAL"
    by (simp add: demo_engine_def register_playbook_def init_engine_def handle_event_def sorted_playbooks_def vals_def
      demo_playbook_def playbook_matches_def match_trigger_def match_conditions_def dget_or_def metric_matches_def
      risk_matches_def execute_playbook_def Let_def execute_action_def default_handlers_def resolve_params_def
      new_execution_def audit_def demo_env_def get_execution_def)
  have p: "ex_playbook_id x = pb_id demo_playbook" "dget (pe_playbooks demo_engine) (ex_playbook_id x) = Some demo_playbook"
    "1 < length (pb_actions demo_playbook)" "ac_require_approval (pb_actions demo_playbook ! 1)"
    using x(2) demo_engine_calls(3) by (simp_all add: demo_playbook_def)
  have h: "\<forall>a\<in>set (take 1 (pb_actions demo_playbook)). \<not> ac_require_approval a \<and>
      (\<forall>u. handler_succeeds (dget (pe_handlers demo_engine) (ac_type a)) u (resolve_params (ac_params a) (ex_trigger_event x)) (ex_trigger_event x))"
    by (simp add: demo_playbook_def demo_engine_calls(5) default_handlers_def)
  obtain s' e' where a: "approve_again demo_env 3 ''ann'' 7 (dec_nat 0) demo_engine = (s', e')" by fastforce
  have "dec_nat 0 \<in> set (pe_pending demo_engine)" by (simp add: demo_engine_calls(2))
  from approvals_repeat_forever [OF this x(1,3) p(2,1,3,4) h a]
  have "map snd (pe_calls s') = map snd (pe_calls demo_engine) @ concat (replicate 7 (take 1 (pb_actions demo_playbook)))"
    by simp
  then show ?thesis using a by (simp add: demo_engine_calls(1) demo_playbook_def numeral_eq_Suc)
qed

end
