(* ===== verification/Real_Data_Adapter.thy ===== *)
theory Real_Data_Adapter
  imports Config_Enforcer Regex_Search "HOL-Library.Multiset"
begin

text \<open>
  \<open>evolution/real_data_adapter.py\<close>: security events made from the records of three sources (seccomp
  log, VM exits, audit chain), anomaly detection on each, and the grouping of events into incidents
  and attack chains. Event objects are shared by several lists and changed in place, so they live in
  a heap and the lists hold their positions in it. A log line is blank, not JSON, or a JSON value. The record
  \<open>runtime\<close> holds what the standard library computes: \<open>str\<close>, \<open>json.dumps\<close>, MD5, the HMAC of a
  record, numbers read from text. The retrieval engine, a parameter of the code too, is a function from
  a query to its hits and their rendering. Letter case is the one of ASCII. The generator of random
  test files is left out.
\<close>

subsection \<open>Data\<close>

record runtime =
  rt_str :: "json \<Rightarrow> string"
  rt_dumps :: "json \<Rightarrow> string"
  rt_md5 :: "string \<Rightarrow> string"
  rt_mac :: "string \<Rightarrow> (string, json) dict \<Rightarrow> string"
  rt_int_text :: "string \<Rightarrow> int option"
  rt_float_text :: "string \<Rightarrow> rat option"

datatype log_line = L_Blank | L_Bad | L_Json json

fun source_value :: "event_source \<Rightarrow> string" where
  "source_value Seccomp_Violation = ''seccomp_violation''"
| "source_value Kvm_Vm_Exit = ''kvm_vm_exit''"
| "source_value Audit_Chain_Anomaly = ''audit_chain_anomaly''"
| "source_value Network_Block = ''network_block''"
| "source_value Resource_Exceed = ''resource_exceed''"
| "source_value Capability_Drop_Event = ''capability_drop''"

fun anomaly_value :: "anomaly_type \<Rightarrow> string" where
  "anomaly_value Frequency_Spike = ''frequency_spike''"
| "anomaly_value Sequence_Anomaly = ''sequence_anomaly''"
| "anomaly_value Hash_Chain_Break = ''hash_chain_break''"
| "anomaly_value Missing_Events = ''missing_events''"
| "anomaly_value Duplicate_Events = ''duplicate_events''"
| "anomaly_value Timestamp_Jump = ''timestamp_jump''"

text \<open>The parser of VM exits puts a text where the declared type is an enumeration.\<close>

datatype anomaly_tag = Anomaly anomaly_type | Anomaly_Text string

text \<open>Identifiers, times and sandboxes are taken from the records as they are.\<close>

record security_event =
  sx_event_id :: json
  sx_source :: event_source
  sx_timestamp :: json
  sx_sandbox_id :: json
  sx_severity :: string
  sx_description :: string
  sx_payload :: "(string, json) dict"
  sx_raw_event :: "(string, json) dict option"
  sx_anomaly_type :: "anomaly_tag option"
  sx_anomaly_score :: rat

type_synonym event_heap = "security_event list"

record seccomp_parser =
  sp_parsed :: "nat list"
  sp_counts :: "(string, int) dict"
  sp_frequency :: "(string, rat list) dict"

record vm_exit =
  vx_exit_reason :: json
  vx_timestamp :: rat
  vx_severity :: string
  vx_is_high_risk :: bool

record kvm_parser =
  kp_parsed :: "nat list"
  kp_counts :: "(json, int) dict"
  kp_history :: "(json, vm_exit list) dict"

record audit_detector =
  au_secret :: string
  au_anomalies :: "security_event list"
  au_last_seq :: "int option"
  au_last_hash :: "json option"
  au_last_timestamp :: "rat option"
  au_seen :: "json list"

record adapter =
  ad_heap :: event_heap
  ad_seccomp :: seccomp_parser
  ad_kvm :: kvm_parser
  ad_audit :: audit_detector
  ad_all :: "nat list"
  ad_anomalies :: "nat list"

definition init_adapter :: "string option \<Rightarrow> adapter" where
  "init_adapter secret =
     \<lparr>ad_heap = [], ad_seccomp = \<lparr>sp_parsed = [], sp_counts = [], sp_frequency = []\<rparr>,
      ad_kvm = \<lparr>kp_parsed = [], kp_counts = [], kp_history = []\<rparr>,
      ad_audit = \<lparr>au_secret = (case str_or_none secret of None \<Rightarrow> ''photon-sandbox-audit-chain-default-key'' | Some x \<Rightarrow> x),
        au_anomalies = [], au_last_seq = None, au_last_hash = None, au_last_timestamp = None, au_seen = []\<rparr>,
      ad_all = [], ad_anomalies = []\<rparr>"

subsection \<open>Values of a record\<close>

text \<open>\<open>d.get(k)\<close>, and \<open>d.get(k1, d.get(k2, default))\<close>.\<close>

definition dget_null :: "(string, json) dict \<Rightarrow> string \<Rightarrow> json" where
  "dget_null d k = dget_or d k JNull"

definition dget_two :: "(string, json) dict \<Rightarrow> string \<Rightarrow> string \<Rightarrow> json \<Rightarrow> json" where
  "dget_two d k1 k2 v = dget_or d k1 (dget_or d k2 v)"

text \<open>\<open>float(x)\<close> and \<open>int(x)\<close>.\<close>

definition py_float :: "runtime \<Rightarrow> json \<Rightarrow> exc + rat" where
  "py_float rt v =
     (case v of
        JStr x \<Rightarrow> (case rt_float_text rt x of None \<Rightarrow> Inl ValueError | Some r \<Rightarrow> Inr r)
      | _ \<Rightarrow> (case num_of v of None \<Rightarrow> Inl TypeError | Some r \<Rightarrow> Inr r))"

definition py_to_int :: "runtime \<Rightarrow> json \<Rightarrow> exc + int" where
  "py_to_int rt v =
     (case v of
        JStr x \<Rightarrow> (case rt_int_text rt x of None \<Rightarrow> Inl ValueError | Some i \<Rightarrow> Inr i)
      | _ \<Rightarrow> (case num_of v of None \<Rightarrow> Inl TypeError | Some r \<Rightarrow> Inr (py_int r)))"

text \<open>What can be a key or a member of a set; there, numbers that are equal are one.\<close>

fun hashable :: "json \<Rightarrow> bool" where
  "hashable (JList xs) = False"
| "hashable (JObj d) = False"
| "hashable v = True"

definition py_key :: "json \<Rightarrow> json" where
  "py_key v = (case num_of v of None \<Rightarrow> v | Some r \<Rightarrow> JFloat r)"

definition upper_char :: "char \<Rightarrow> char" where
  "upper_char c = (let n = of_char c :: nat in if 97 \<le> n \<and> n \<le> 122 then char_of (n - 32) else c)"

definition exactly :: "string \<Rightarrow> rx" where
  "exactly s = foldr (\<lambda>c r. Seq (Cls (\<lambda>x. x = c)) r) s One"

text \<open>\<open>f"{x:.1f}"\<close> of a number that is not negative.\<close>

definition one_decimal :: "rat \<Rightarrow> string" where
  "one_decimal x = (let n = nat (half_even (x * 10)) in dec_nat (n div 10) @ ''.'' @ dec_nat (n mod 10))"

text \<open>The entries of a counter, largest count first, in the order of the counter where equal.\<close>

definition top_counts :: "nat \<Rightarrow> ('k, int) dict \<Rightarrow> ('k \<times> int) list" where
  "top_counts n d = take n (sort_key (\<lambda>(k, c). - c) d)"

text \<open>\<open>to_attack_case_params\<close> and \<open>to_dict\<close>: \<open>.value\<close> fails on a text that is not empty.\<close>

definition anomaly_json :: "anomaly_tag option \<Rightarrow> exc + json" where
  "anomaly_json a =
     (case a of
        None \<Rightarrow> Inr JNull
      | Some (Anomaly t) \<Rightarrow> Inr (JStr (anomaly_value t))
      | Some (Anomaly_Text x) \<Rightarrow> if x = [] then Inr JNull else Inl AttributeError)"

definition to_attack_case_params :: "security_event \<Rightarrow> exc + (string, json) dict" where
  "to_attack_case_params e =
     ebind (anomaly_json (sx_anomaly_type e)) (\<lambda>a. Inr
       [(''event_id'', sx_event_id e), (''source'', JStr (source_value (sx_source e))),
        (''severity'', JStr (sx_severity e)), (''description'', JStr (sx_description e)),
        (''payload'', JObj (sx_payload e)), (''anomaly_type'', a), (''anomaly_score'', JFloat (sx_anomaly_score e))])"

definition sx_to_dict :: "security_event \<Rightarrow> exc + (string, json) dict" where
  "sx_to_dict e =
     ebind (anomaly_json (sx_anomaly_type e)) (\<lambda>a. Inr
       [(''event_id'', sx_event_id e), (''source'', JStr (source_value (sx_source e))),
        (''timestamp'', sx_timestamp e), (''sandbox_id'', sx_sandbox_id e),
        (''severity'', JStr (sx_severity e)), (''description'', JStr (sx_description e)),
        (''payload'', JObj (sx_payload e)), (''anomaly_type'', a), (''anomaly_score'', JFloat (sx_anomaly_score e))])"

subsection \<open>The seccomp log\<close>

definition SECCOMP_PATTERNS :: "rx list" where
  "SECCOMP_PATTERNS =
     [seqs [exactly ''seccomp'', star dot, exactly ''violat''], exactly ''SECCOMP_VIOLATION'',
      seqs [exactly ''syscall'', star dot, exactly ''blocked''], seqs [exactly ''syscall'', star dot, exactly ''denied''],
      exactly ''blocked_syscall'']"

definition is_seccomp_violation :: "runtime \<Rightarrow> (string, json) dict \<Rightarrow> bool" where
  "is_seccomp_violation rt d =
     (let t = map upper_char (fstr (rt_str rt) (dget_or d ''event_type'' (JStr [])))
      in contains ''SECCOMP'' t \<or> contains ''VIOLATION'' t \<or>
         list_ex (\<lambda>p. rx_search p (lower (rt_dumps rt (JObj d)))) SECCOMP_PATTERNS)"

definition the_syscall :: "(string, json) dict \<Rightarrow> json" where
  "the_syscall d = dget_two d ''syscall'' ''syscall_num'' (JStr ''unknown'')"

definition syscall_severity :: "json \<Rightarrow> string" where
  "syscall_severity v =
     (if v \<in> JStr ` set [''ptrace'', ''kexec_load'', ''init_module'', ''reboot''] then ''critical''
      else if v \<in> JStr ` set [''socket'', ''connect'', ''bind'', ''mount''] then ''high'' else ''medium'')"

definition build_seccomp_event :: "runtime \<Rightarrow> time \<Rightarrow> (string, json) dict \<Rightarrow> exc + security_event" where
  "build_seccomp_event rt now d =
     (let call = the_syscall d; box = dget_two d ''sandbox_id'' ''instance_id'' (JStr ''unknown'')
      in ebind (py_float rt (dget_or d ''timestamp'' (JFloat now))) (\<lambda>t. Inr
        \<lparr>sx_event_id = dget_or d ''event_id'' (JStr (take 16 (rt_md5 rt (rt_dumps rt (JObj d))))),
         sx_source = Seccomp_Violation, sx_timestamp = JFloat t,
         sx_sandbox_id = JStr (fstr (rt_str rt) box), sx_severity = syscall_severity call,
         sx_description = ''seccomp violation: syscall='' @ fstr (rt_str rt) call @ '', sandbox='' @ fstr (rt_str rt) box,
         sx_payload = [(''syscall'', call), (''syscall_num'', dget_null d ''syscall_num''),
           (''arch'', dget_or d ''arch'' (JStr ''x86_64'')), (''pid'', dget_null d ''pid''),
           (''seccomp_action'', dget_or d ''action'' (JStr ''KILL''))],
         sx_raw_event = Some d, sx_anomaly_type = None, sx_anomaly_score = 0\<rparr>))"

text \<open>An event becomes a new object of the heap; its position is what the lists hold.\<close>

fun event_time :: "security_event \<Rightarrow> rat" where
  "event_time e = (case num_of (sx_timestamp e) of Some r \<Rightarrow> r | None \<Rightarrow> 0)"

definition store_seccomp :: "runtime \<Rightarrow> (string, json) dict \<Rightarrow> security_event \<Rightarrow> adapter \<Rightarrow> adapter" where
  "store_seccomp rt d e s =
     (let a = length (ad_heap s); sp = ad_seccomp s; k = fstr (rt_str rt) (the_syscall d)
      in s\<lparr>ad_heap := ad_heap s @ [e],
           ad_seccomp := sp\<lparr>sp_parsed := sp_parsed sp @ [a], sp_counts := bump k (sp_counts sp),
             sp_frequency := dset k (dget_or (sp_frequency sp) k [] @ [event_time e]) (sp_frequency sp)\<rparr>\<rparr>)"

definition seccomp_parse_line :: "runtime \<Rightarrow> time \<Rightarrow> log_line \<Rightarrow> adapter \<Rightarrow> adapter \<times> (exc + nat option)" where
  "seccomp_parse_line rt now line s =
     (case line of
        L_Json (JObj d) \<Rightarrow>
          (if \<not> is_seccomp_violation rt d then (s, Inr None)
           else case build_seccomp_event rt now d of
                  Inl e \<Rightarrow> (s, Inl e)
                | Inr e \<Rightarrow> (store_seccomp rt d e s, Inr (Some (length (ad_heap s)))))
      | L_Json v \<Rightarrow> (s, Inl AttributeError)
      | _ \<Rightarrow> (s, Inr None))"

definition get_top_violations :: "nat \<Rightarrow> adapter \<Rightarrow> (string \<times> int) list" where
  "get_top_violations n s = top_counts n (sp_counts (ad_seccomp s))"

text \<open>The events of a window, the others, and the rate of the others per window.\<close>

definition in_window :: "rat \<Rightarrow> rat \<Rightarrow> rat \<Rightarrow> bool" where
  "in_window w t0 t \<longleftrightarrow> t0 \<le> t \<and> t \<le> t0 + w"

definition historical_rate :: "rat \<Rightarrow> rat list \<Rightarrow> rat" where
  "historical_rate w hist = of_nat (length hist) / (Max (set hist) - Min (set hist) + 1) * w"

definition can_mark :: "string \<Rightarrow> rat \<Rightarrow> rat \<Rightarrow> security_event \<Rightarrow> bool" where
  "can_mark k w t0 e \<longleftrightarrow> dget (sx_payload e) ''syscall'' = Some (JStr k) \<and> in_window w t0 (event_time e) \<and> sx_anomaly_type e = None"

definition mark_spike :: "rat \<Rightarrow> security_event \<Rightarrow> security_event" where
  "mark_spike score e = e\<lparr>sx_anomaly_type := Some (Anomaly Frequency_Spike), sx_anomaly_score := min 1 score\<rparr>"

definition check_window :: "rat \<Rightarrow> rat \<Rightarrow> nat list \<Rightarrow> string \<Rightarrow> rat list \<Rightarrow> rat \<Rightarrow> event_heap \<times> nat list \<Rightarrow> event_heap \<times> nat list" where
  "check_window w th parsed k ts t0 acc =
     (let (h, found) = acc; hist = filter (\<lambda>t. \<not> in_window w t0 t) ts; rate = historical_rate w hist;
          n = of_nat (length (filter (in_window w t0) ts))
      in if length hist < 3 then acc
         else if rate > 0 \<and> n > rate * th
         then case find (\<lambda>a. can_mark k w t0 (h ! a)) parsed of
                None \<Rightarrow> acc
              | Some a \<Rightarrow> (h[a := mark_spike (n / (rate * th)) (h ! a)], found @ [a])
         else acc)"

fun check_syscalls :: "rat \<Rightarrow> rat \<Rightarrow> nat list \<Rightarrow> (string \<times> rat list) list \<Rightarrow> event_heap \<times> nat list \<Rightarrow> event_heap \<times> nat list" where
  "check_syscalls w th parsed [] acc = acc"
| "check_syscalls w th parsed ((k, ts) # rest) acc =
     check_syscalls w th parsed rest
       (if length ts < 5 then acc else fold (check_window w th parsed k (sort ts)) (sort ts) acc)"

definition detect_frequency_anomalies :: "rat \<Rightarrow> rat \<Rightarrow> adapter \<Rightarrow> adapter \<times> nat list" where
  "detect_frequency_anomalies w th s =
     (let sp = ad_seccomp s; (h, found) = check_syscalls w th (sp_parsed sp) (sp_frequency sp) (ad_heap s, [])
      in (s\<lparr>ad_heap := h, ad_seccomp := sp\<lparr>sp_frequency :=
             map (\<lambda>(k, ts). (k, if length ts < 5 then ts else sort ts)) (sp_frequency sp)\<rparr>\<rparr>, found))"

subsection \<open>VM exits\<close>

record exit_fields =
  xf_reason :: json
  xf_vm_id :: json
  xf_count :: int
  xf_timestamp :: rat
  xf_vcpu_id :: json
  xf_guest_rip :: json
  xf_qualification :: json

definition extract_vm_exit_fields :: "runtime \<Rightarrow> time \<Rightarrow> (string, json) dict \<Rightarrow> exc + exit_fields option" where
  "extract_vm_exit_fields rt now d =
     (let reason = dget_two d ''exit_reason'' ''reason'' (JStr ''UNKNOWN'')
      in ebind (py_to_int rt (dget_or d ''exit_count'' (JInt 1))) (\<lambda>n.
         ebind (py_float rt (dget_or d ''timestamp'' (JFloat now))) (\<lambda>t. Inr
           (if reason = JStr ''UNKNOWN'' then None
            else Some \<lparr>xf_reason = reason, xf_vm_id = dget_two d ''vm_id'' ''sandbox_id'' (JStr ''unknown''),
                   xf_count = n, xf_timestamp = t, xf_vcpu_id = dget_or d ''vcpu_id'' (JInt 0),
                   xf_guest_rip = dget_or d ''guest_rip'' (JStr []), xf_qualification = dget_or d ''qualification'' (JStr [])\<rparr>))))"

definition classify_exit_risk :: "json \<Rightarrow> exc + string \<times> bool" where
  "classify_exit_risk reason =
     (if \<not> hashable reason then Inl TypeError
      else if reason \<in> JStr ` set [''VMCALL'', ''VMMCALL'', ''CPUID'', ''RDMSR'', ''WRMSR'', ''XSETBV'', ''INVD'', ''WBINVD'', ''HLT'', ''PAUSE'']
      then Inr (''high'', True)
      else if reason \<in> JStr ` set [''IO_INSTRUCTION'', ''MMIO'', ''EPT_VIOLATION'', ''PAGE_FAULT''] then Inr (''medium'', False)
      else Inr (''low'', False))"

definition build_vm_exit_event :: "runtime \<Rightarrow> time \<Rightarrow> (string, json) dict \<Rightarrow> exit_fields \<Rightarrow> string \<Rightarrow> bool \<Rightarrow> security_event" where
  "build_vm_exit_event rt now d x severity risky =
     \<lparr>sx_event_id = dget_or d ''event_id'' (JStr (''vmexit-'' @ dec_int (py_int (now * 1000)))),
      sx_source = Kvm_Vm_Exit, sx_timestamp = JFloat (xf_timestamp x), sx_sandbox_id = xf_vm_id x,
      sx_severity = severity,
      sx_description = ''VM-Exit: '' @ fstr (rt_str rt) (xf_reason x) @ '' (count='' @ dec_int (xf_count x) @ '', vcpu='' @
        fstr (rt_str rt) (xf_vcpu_id x) @ '')'' @ (if risky then '' [high risk exit, possible escape attempt]'' else []),
      sx_payload = [(''exit_reason'', xf_reason x), (''exit_count'', JInt (xf_count x)), (''vcpu_id'', xf_vcpu_id x),
        (''guest_rip'', xf_guest_rip x), (''qualification'', xf_qualification x), (''is_high_risk'', JBool risky)],
      sx_raw_event = None, sx_anomaly_type = (if risky then Some (Anomaly_Text ''vm_exit_high_risk'') else None),
      sx_anomaly_score = 0\<rparr>"

text \<open>The event and its count are stored before the history, whose key may fail.\<close>

definition kvm_parse_event :: "runtime \<Rightarrow> time \<Rightarrow> json \<Rightarrow> adapter \<Rightarrow> adapter \<times> (exc + nat option)" where
  "kvm_parse_event rt now v s =
     (case v of
        JObj d \<Rightarrow>
          (case extract_vm_exit_fields rt now d of
             Inl e \<Rightarrow> (s, Inl e)
           | Inr None \<Rightarrow> (s, Inr None)
           | Inr (Some x) \<Rightarrow>
             (case classify_exit_risk (xf_reason x) of
                Inl e \<Rightarrow> (s, Inl e)
              | Inr (severity, risky) \<Rightarrow>
                (let a = length (ad_heap s); kp = ad_kvm s; r = py_key (xf_reason x); b = py_key (xf_vm_id x);
                     kp1 = kp\<lparr>kp_parsed := kp_parsed kp @ [a], kp_counts := dset r (dget_or (kp_counts kp) r 0 + xf_count x) (kp_counts kp)\<rparr>;
                     s1 = s\<lparr>ad_heap := ad_heap s @ [build_vm_exit_event rt now d x severity risky], ad_kvm := kp1\<rparr>;
                     entry = \<lparr>vx_exit_reason = xf_reason x, vx_timestamp = xf_timestamp x, vx_severity = severity, vx_is_high_risk = risky\<rparr>
                 in if \<not> hashable (xf_vm_id x) then (s1, Inl TypeError)
                    else (s1\<lparr>ad_kvm := kp1\<lparr>kp_history := dset b (dget_or (kp_history kp) b [] @ [entry]) (kp_history kp)\<rparr>\<rparr>,
                          Inr (Some a)))))
      | _ \<Rightarrow> (s, Inl AttributeError))"

definition get_top_exit_reasons :: "nat \<Rightarrow> adapter \<Rightarrow> (json \<times> int) list" where
  "get_top_exit_reasons n s = top_counts n (kp_counts (ad_kvm s))"

definition HIGH_RISK_EXIT_REASONS :: "string list" where
  "HIGH_RISK_EXIT_REASONS = [''VMCALL'', ''VMMCALL'', ''CPUID'', ''RDMSR'', ''WRMSR'', ''XSETBV'']"

definition escape_attempt :: "security_event \<Rightarrow> bool" where
  "escape_attempt e \<longleftrightarrow> dget_or (sx_payload e) ''exit_reason'' (JStr []) \<in> JStr ` set HIGH_RISK_EXIT_REASONS \<and> sx_anomaly_score e > 3 / 10"

fun flag_escapes :: "nat list \<Rightarrow> event_heap \<Rightarrow> event_heap \<times> nat list" where
  "flag_escapes [] h = (h, [])"
| "flag_escapes (a # as) h =
     (if escape_attempt (h ! a)
      then let (h', found) = flag_escapes as (h[a := (h ! a)\<lparr>sx_description := sx_description (h ! a) @ '' [potential escape attempt]''\<rparr>])
           in (h', a # found)
      else flag_escapes as h)"

definition detect_escape_attempts :: "adapter \<Rightarrow> adapter \<times> nat list" where
  "detect_escape_attempts s = (let (h, found) = flag_escapes (kp_parsed (ad_kvm s)) (ad_heap s) in (s\<lparr>ad_heap := h\<rparr>, found))"

subsection \<open>The audit chain\<close>

definition build_anomaly_event :: "time \<Rightarrow> (string, json) dict \<Rightarrow> anomaly_type \<Rightarrow> string \<Rightarrow> string \<Rightarrow> security_event" where
  "build_anomaly_event now d t severity desc =
     \<lparr>sx_event_id = dget_or d ''event_id'' (JStr (''anomaly-'' @ dec_int (py_int (now * 1000)))),
      sx_source = Audit_Chain_Anomaly, sx_timestamp = dget_or d ''timestamp'' (JFloat now),
      sx_sandbox_id = dget_or d ''sandbox_id'' (JStr ''unknown''), sx_severity = severity, sx_description = desc,
      sx_payload = d, sx_raw_event = None, sx_anomaly_type = Some (Anomaly t), sx_anomaly_score = 0\<rparr>"

text \<open>\<open>x[:16]\<close> in an f-string.\<close>

definition first16 :: "runtime \<Rightarrow> json \<Rightarrow> exc + string" where
  "first16 rt v =
     (case v of JStr x \<Rightarrow> Inr (take 16 x) | JList xs \<Rightarrow> Inr (rt_str rt (JList (take 16 xs))) | _ \<Rightarrow> Inl TypeError)"

text \<open>Every check changes the detector and answers with an anomaly or none, or fails.\<close>

type_synonym check_answer = "audit_detector \<times> (exc + security_event option)"

definition chain_applies :: "runtime \<Rightarrow> (string, json) dict \<Rightarrow> exc + bool" where
  "chain_applies rt d =
     (if dget_null d ''seq'' = JNull then Inr False
      else ebind (py_to_int rt (dget_null d ''seq'')) (\<lambda>n. Inr (n > 0 \<and> dget_null d ''prev_hash'' \<noteq> JNull)))"

definition hmac_wrong :: "runtime \<Rightarrow> string \<Rightarrow> (string, json) dict \<Rightarrow> bool" where
  "hmac_wrong rt secret d \<longleftrightarrow> truthy (dget_null d ''hmac'') \<and> secret \<noteq> [] \<and>
     dget_null d ''hmac'' \<noteq> JStr (rt_mac rt secret (filter (\<lambda>(k, v). k \<noteq> ''hmac'') d))"

definition check_hmac :: "runtime \<Rightarrow> time \<Rightarrow> (string, json) dict \<Rightarrow> audit_detector \<Rightarrow> check_answer" where
  "check_hmac rt now d s =
     (if hmac_wrong rt (au_secret s) d
      then (s, Inr (Some (build_anomaly_event now d Hash_Chain_Break ''critical'' ''HMAC verification failed'')))
      else (if truthy (dget_null d ''hash'') then s\<lparr>au_last_hash := Some (dget_null d ''hash'')\<rparr> else s, Inr None))"

definition check_hmac_chain :: "runtime \<Rightarrow> time \<Rightarrow> (string, json) dict \<Rightarrow> audit_detector \<Rightarrow> check_answer" where
  "check_hmac_chain rt now d s =
     (case chain_applies rt d of
        Inl e \<Rightarrow> (s, Inl e)
      | Inr ap \<Rightarrow>
        (case (if ap then au_last_hash s else None) of
           None \<Rightarrow> check_hmac rt now d s
         | Some prior \<Rightarrow>
           (if py_eq (dget_null d ''prev_hash'') prior then check_hmac rt now d s
            else (s, ebind (first16 rt prior) (\<lambda>x. ebind (first16 rt (dget_null d ''prev_hash'')) (\<lambda>y. Inr (Some
                   (build_anomaly_event now d Hash_Chain_Break ''critical''
                      (''hash chain break: expected '' @ x @ ''..., got '' @ y @ ''...'')))))))))"

definition check_sequence_continuity :: "runtime \<Rightarrow> time \<Rightarrow> (string, json) dict \<Rightarrow> audit_detector \<Rightarrow> check_answer" where
  "check_sequence_continuity rt now d s =
     (if dget_null d ''seq'' = JNull then (s, Inr None)
      else case py_to_int rt (dget_null d ''seq'') of
             Inl e \<Rightarrow> (s, Inl e)
           | Inr n \<Rightarrow>
             (let expected = get_default (au_last_seq s) (n - 1) + 1; gap = n - expected
              in if n > 0 \<and> n \<noteq> expected
                 then (s, Inr (Some (build_anomaly_event now d Missing_Events (if gap > 5 then ''high'' else ''medium'')
                        (''sequence not continuous: expected '' @ dec_int expected @ '', got '' @ dec_int n @ '', missing '' @ dec_int gap))))
                 else (s\<lparr>au_last_seq := Some n\<rparr>, Inr None)))"

definition check_timestamp_validity :: "runtime \<Rightarrow> time \<Rightarrow> (string, json) dict \<Rightarrow> audit_detector \<Rightarrow> check_answer" where
  "check_timestamp_validity rt now d s =
     (if dget_null d ''timestamp'' = JNull then (s, Inr None)
      else case py_float rt (dget_null d ''timestamp'') of
             Inl e \<Rightarrow> (s, Inl e)
           | Inr t \<Rightarrow>
             (let jump = t - get_default (au_last_timestamp s) t
              in if jump < - 1
                 then (s, Inr (Some (build_anomaly_event now d Timestamp_Jump ''high'' (''time goes back by '' @ one_decimal \<bar>jump\<bar>))))
                 else if jump > 3600
                 then (s, Inr (Some (build_anomaly_event now d Timestamp_Jump ''medium'' (''time jumps by '' @ one_decimal jump))))
                 else (s\<lparr>au_last_timestamp := Some t\<rparr>, Inr None)))"

definition detect_other_anomalies :: "runtime \<Rightarrow> time \<Rightarrow> (string, json) dict \<Rightarrow> audit_detector \<Rightarrow> check_answer" where
  "detect_other_anomalies rt now d s =
     (let v = dget_null d ''event_id''; k = py_key v
      in if \<not> truthy v then (s, Inr None)
         else if \<not> hashable v then (s, Inl TypeError)
         else if k \<in> set (au_seen s)
         then (s, Inr (Some (build_anomaly_event now d Duplicate_Events ''low'' (''duplicate event: '' @ fstr (rt_str rt) v))))
         else (let seen = au_seen s @ [k] in (s\<lparr>au_seen := (if length seen > 10000 then [] else seen)\<rparr>, Inr None)))"

text \<open>The checks run in order until one finds an anomaly.\<close>

fun first_anomaly :: "(audit_detector \<Rightarrow> check_answer) list \<Rightarrow> audit_detector \<Rightarrow> check_answer" where
  "first_anomaly [] s = (s, Inr None)"
| "first_anomaly (f # fs) s =
     (case f s of
        (s', Inr None) \<Rightarrow> first_anomaly fs s'
      | (s', r) \<Rightarrow> (s', r))"

definition verify_and_detect :: "runtime \<Rightarrow> time \<Rightarrow> log_line \<Rightarrow> audit_detector \<Rightarrow> audit_detector \<times> (exc + bool \<times> security_event option)" where
  "verify_and_detect rt now line s =
     (case line of
        L_Blank \<Rightarrow> (s, Inr (True, None))
      | L_Bad \<Rightarrow> (s, Inr (False, None))
      | L_Json JNull \<Rightarrow> (s, Inr (True, None))
      | L_Json (JObj d) \<Rightarrow>
          (let (s', r) = first_anomaly [check_hmac_chain rt now d, check_sequence_continuity rt now d,
                           check_timestamp_validity rt now d, detect_other_anomalies rt now d] s
           in (s', ebind r (\<lambda>a. Inr (True, a))))
      | L_Json v \<Rightarrow> (s, Inl AttributeError))"

record anomaly_summary =
  as_total :: nat
  as_by_type :: "(string, int) dict"
  as_critical :: nat
  as_high :: nat

definition tag_value :: "security_event \<Rightarrow> string option" where
  "tag_value e = (case sx_anomaly_type e of Some (Anomaly t) \<Rightarrow> Some (anomaly_value t) | _ \<Rightarrow> None)"

definition get_anomaly_summary :: "audit_detector \<Rightarrow> anomaly_summary" where
  "get_anomaly_summary s =
     (let as = au_anomalies s
      in \<lparr>as_total = length as, as_by_type = fold bump (List.map_filter tag_value as) [],
          as_critical = length (filter (\<lambda>e. sx_severity e = ''critical'') as),
          as_high = length (filter (\<lambda>e. sx_severity e = ''high'') as)\<rparr>)"

subsection \<open>The adapter\<close>

text \<open>Adding an event of the audit chain, which is a new object.\<close>

definition add_all :: "nat \<Rightarrow> adapter \<Rightarrow> adapter" where
  "add_all a s = s\<lparr>ad_all := ad_all s @ [a]\<rparr>"

definition add_audit_event :: "security_event \<Rightarrow> adapter \<Rightarrow> adapter" where
  "add_audit_event e s = (let a = length (ad_heap s)
     in s\<lparr>ad_heap := ad_heap s @ [e], ad_all := ad_all s @ [a], ad_anomalies := ad_anomalies s @ [a]\<rparr>)"

text \<open>The loops over the lines of a file, with the number of events so far; an exception ends them.\<close>

fun seccomp_lines :: "runtime \<Rightarrow> (time \<times> log_line) list \<Rightarrow> nat \<Rightarrow> adapter \<Rightarrow> adapter \<times> (exc + nat)" where
  "seccomp_lines rt [] n s = (s, Inr n)"
| "seccomp_lines rt ((now, l) # ls) n s =
     (case seccomp_parse_line rt now l s of
        (s', Inl e) \<Rightarrow> (s', Inl e)
      | (s', Inr None) \<Rightarrow> seccomp_lines rt ls n s'
      | (s', Inr (Some a)) \<Rightarrow> seccomp_lines rt ls (n + 1) (add_all a s'))"

definition load_seccomp_log :: "runtime \<Rightarrow> (time \<times> log_line) list option \<Rightarrow> adapter \<Rightarrow> adapter \<times> (exc + nat)" where
  "load_seccomp_log rt file s =
     (case file of
        None \<Rightarrow> (s, Inr 0)
      | Some ls \<Rightarrow>
        (case seccomp_lines rt ls 0 s of
           (s', Inl e) \<Rightarrow> (s', Inl e)
         | (s', Inr n) \<Rightarrow> (let (s2, found) = detect_frequency_anomalies 60 3 s'
                          in (s2\<lparr>ad_anomalies := ad_anomalies s2 @ found\<rparr>, Inr n))))"

fun kvm_records :: "runtime \<Rightarrow> (time \<times> log_line) list \<Rightarrow> nat \<Rightarrow> adapter \<Rightarrow> adapter \<times> (exc + nat)" where
  "kvm_records rt [] n s = (s, Inr n)"
| "kvm_records rt ((now, L_Json v) # ls) n s =
     (case kvm_parse_event rt now v s of
        (s', Inl e) \<Rightarrow> (s', Inl e)
      | (s', Inr None) \<Rightarrow> kvm_records rt ls n s'
      | (s', Inr (Some a)) \<Rightarrow> kvm_records rt ls (n + 1) (add_all a s'))"
| "kvm_records rt ((now, l) # ls) n s = kvm_records rt ls n s"

text \<open>A file of VM exits is one JSON array, or else records line by line. Only the second form is searched for escapes.\<close>

datatype kvm_file = Json_Array "(time \<times> json) list" | Json_Lines "(time \<times> log_line) list"

definition load_kvm_vm_exit_metrics :: "runtime \<Rightarrow> kvm_file option \<Rightarrow> adapter \<Rightarrow> adapter \<times> (exc + nat)" where
  "load_kvm_vm_exit_metrics rt file s =
     (case file of
        None \<Rightarrow> (s, Inr 0)
      | Some (Json_Array vs) \<Rightarrow> kvm_records rt (map (\<lambda>(now, v). (now, L_Json v)) vs) 0 s
      | Some (Json_Lines ls) \<Rightarrow>
        (case kvm_records rt ls 0 s of
           (s', Inl e) \<Rightarrow> (s', Inl e)
         | (s', Inr n) \<Rightarrow> (let (s2, found) = detect_escape_attempts s' in (s2\<lparr>ad_anomalies := ad_anomalies s2 @ found\<rparr>, Inr n))))"

fun audit_lines :: "runtime \<Rightarrow> (time \<times> log_line) list \<Rightarrow> nat \<times> nat \<Rightarrow> adapter \<Rightarrow> adapter \<times> (exc + nat \<times> nat)" where
  "audit_lines rt [] c s = (s, Inr c)"
| "audit_lines rt ((now, l) # ls) (m, n) s =
     (case verify_and_detect rt now l (ad_audit s) of
        (au, Inl e) \<Rightarrow> (s\<lparr>ad_audit := au\<rparr>, Inl e)
      | (au, Inr (valid, a)) \<Rightarrow>
        audit_lines rt ls (if valid then m + 1 else m, if a = None then n else n + 1)
          (case a of None \<Rightarrow> s\<lparr>ad_audit := au\<rparr> | Some e \<Rightarrow> add_audit_event e (s\<lparr>ad_audit := au\<rparr>)))"

definition load_audit_chain :: "runtime \<Rightarrow> (time \<times> log_line) list option \<Rightarrow> adapter \<Rightarrow> adapter \<times> (exc + nat \<times> nat)" where
  "load_audit_chain rt file s = (case file of None \<Rightarrow> (s, Inr (0, 0)) | Some ls \<Rightarrow> audit_lines rt ls (0, 0) s)"

text \<open>
  One event of a stream. A seccomp event goes through its JSON text, which is never blank. For every
  other source than the first two the code reads the member \<open>AUDIT_CHAIN_ANOMALY_ANOMALY\<close>, which the
  enumeration lacks.
\<close>

definition ingest_event :: "runtime \<Rightarrow> time \<Rightarrow> json \<Rightarrow> event_source \<Rightarrow> adapter \<Rightarrow> adapter \<times> (exc + nat option)" where
  "ingest_event rt now v src s =
     (case src of
        Seccomp_Violation \<Rightarrow> seccomp_parse_line rt now (L_Json v) s
      | Kvm_Vm_Exit \<Rightarrow> kvm_parse_event rt now v s
      | _ \<Rightarrow> (s, Inl AttributeError))"

definition severity_level :: "string \<Rightarrow> nat" where
  "severity_level x = dget_or [(''low'', 0), (''medium'', 1), (''high'', 2), (''critical'', 3)] x 0"

definition events_of :: "adapter \<Rightarrow> security_event list" where
  "events_of s = map (nth (ad_heap s)) (ad_all s)"

definition get_all_events :: "string \<Rightarrow> adapter \<Rightarrow> security_event list" where
  "get_all_events m s = filter (\<lambda>e. severity_level (sx_severity e) \<ge> severity_level m) (events_of s)"

definition get_anomaly_events :: "adapter \<Rightarrow> security_event list" where
  "get_anomaly_events s = map (nth (ad_heap s)) (ad_anomalies s)"

definition get_high_risk_events :: "adapter \<Rightarrow> security_event list" where
  "get_high_risk_events s = filter (\<lambda>e. sx_severity e \<in> set [''high'', ''critical'']) (events_of s)"

record adapter_report =
  ar_total :: nat
  ar_anomalies :: nat
  ar_seccomp :: nat
  ar_kvm :: nat
  ar_audit :: nat
  ar_top_violations :: "(string \<times> int) list"
  ar_top_exits :: "(json \<times> int) list"
  ar_summary :: anomaly_summary
  ar_high_risk :: nat

definition adapter_statistics :: "adapter \<Rightarrow> adapter_report" where
  "adapter_statistics s =
     \<lparr>ar_total = length (ad_all s), ar_anomalies = length (ad_anomalies s), ar_seccomp = length (sp_parsed (ad_seccomp s)),
      ar_kvm = length (kp_parsed (ad_kvm s)), ar_audit = length (au_anomalies (ad_audit s)),
      ar_top_violations = get_top_violations 5 s, ar_top_exits = get_top_exit_reasons 5 s,
      ar_summary = get_anomaly_summary (ad_audit s), ar_high_risk = length (get_high_risk_events s)\<rparr>"

subsection \<open>Incidents and attack chains\<close>

text \<open>Groups of a list sorted by time: an event joins the last group when it is close to that group's last event.\<close>

fun group_loop :: "rat \<Rightarrow> security_event list \<Rightarrow> security_event list \<Rightarrow> security_event list list" where
  "group_loop w cur [] = [cur]"
| "group_loop w cur (e # es) =
     (if event_time e - event_time (last cur) \<le> w then group_loop w (cur @ [e]) es else cur # group_loop w [e] es)"

definition timed :: "security_event \<Rightarrow> bool" where
  "timed e \<longleftrightarrow> num_of (sx_timestamp e) \<noteq> None"

text \<open>Two events or more are compared and subtracted by time, which must be numbers then.\<close>

definition aggregate_events_by_time :: "rat \<Rightarrow> security_event list \<Rightarrow> exc + security_event list list" where
  "aggregate_events_by_time w es =
     (if es = [] then Inr []
      else if length es > 1 \<and> \<not> list_all timed es then Inl TypeError
      else case sort_key event_time es of [] \<Rightarrow> Inr [] | e # rest \<Rightarrow> Inr (group_loop w [e] rest))"

record rag_hit =
  rh_doc_id :: string
  rh_score :: rat
  rh_metadata :: "(string, json) dict"
  rh_content :: string

record matched_pattern =
  mp_pattern_id :: string
  mp_attack_type :: json
  mp_tactic :: json
  mp_severity :: json
  mp_description :: string
  mp_match_score :: rat

definition extract_matched_patterns :: "rag_hit list \<Rightarrow> matched_pattern list" where
  "extract_matched_patterns hits =
     map (\<lambda>h. \<lparr>mp_pattern_id = rh_doc_id h, mp_attack_type = dget_or (rh_metadata h) ''attack_type'' (JStr ''unknown''),
                mp_tactic = dget_or (rh_metadata h) ''tactic'' (JStr ''unknown''),
                mp_severity = dget_or (rh_metadata h) ''severity'' (JStr ''medium''),
                mp_description = take 150 (rh_content h), mp_match_score = rh_score h\<rparr>)
       (filter (\<lambda>h. rh_score h \<ge> 3 / 10) hits)"

text \<open>The types join as a set; each must be a text. \<open>ord\<close> is the order in which Python lists a set.\<close>

definition event_type_of :: "(string, json) dict \<Rightarrow> json" where
  "event_type_of d = dget_or d ''event_type'' (JStr ''unknown'')"

definition need_text :: "json \<Rightarrow> exc + string" where
  "need_text v = (case v of JStr x \<Rightarrow> Inr x | _ \<Rightarrow> Inl TypeError)"

definition build_incident_description :: "(string list \<Rightarrow> string list) \<Rightarrow> security_event list \<Rightarrow> exc + string" where
  "build_incident_description ord es =
     ebind (emap (\<lambda>e. need_text (event_type_of (sx_payload e))) es) (\<lambda>ts. Inr
       (''security event group: types='' @ join '', '' (ord (remdups ts)) @
        '', sources='' @ join '', '' (ord (remdups (map (\<lambda>e. source_value (sx_source e)) es))) @
        '', events='' @ dec_nat (length es) @
        '', descriptions='' @ join ''; '' (map (\<lambda>e. take 50 (sx_description e)) (take 3 es))))"

definition severity_score :: "string \<Rightarrow> rat" where
  "severity_score x = dget_or [(''critical'', 1), (''high'', 8 / 10), (''medium'', 5 / 10), (''low'', 3 / 10)] x (3 / 10)"

definition calculate_incident_risk :: "security_event list \<Rightarrow> matched_pattern list \<Rightarrow> rat" where
  "calculate_incident_risk es ms =
     (if es = [] then 0
      else let base = sum_list (map (\<lambda>e. severity_score (sx_severity e)) es) / of_nat (length es);
               bonus = min (of_nat (length es) * (5 / 100)) (2 / 10);
               pattern = (if ms = [] then 0
                 else Max (set (map mp_match_score ms)) * (3 / 10) +
                   (if list_ex (\<lambda>m. mp_attack_type m \<in> JStr ` set [''container_escape'', ''vm_escape'', ''privilege_escalation'']) ms
                    then 2 / 10 else 0))
           in min (base + bonus + pattern) 1)"

definition risk_level_from_score :: "rat \<Rightarrow> string" where
  "risk_level_from_score x =
     (if x \<ge> 8 / 10 then ''critical'' else if x \<ge> 6 / 10 then ''high'' else if x \<ge> 4 / 10 then ''medium'' else ''low'')"

record incident =
  in_incident_id :: string
  in_events :: "(string, json) dict list"
  in_event_count :: nat
  in_window :: "(json \<times> json) option"
  in_patterns :: "matched_pattern list option"
  in_risk_score :: rat
  in_risk_level :: string
  in_rag_context :: "json option"
  in_method :: string

type_synonym rag_engine = "string \<Rightarrow> rag_hit list \<times> json"

definition time_at :: "rat \<Rightarrow> security_event list \<Rightarrow> json" where
  "time_at t es = sx_timestamp (hd (filter (\<lambda>e. event_time e = t) es))"

definition rag_correlate_single_incident :: "(string list \<Rightarrow> string list) \<Rightarrow> rag_engine \<Rightarrow> time \<Rightarrow> nat \<Rightarrow> security_event list \<Rightarrow> exc + incident" where
  "rag_correlate_single_incident ord rag now i es =
     ebind (build_incident_description ord es) (\<lambda>q.
       let (hits, ctx) = rag q; ms = extract_matched_patterns hits; risk = calculate_incident_risk es ms
       in ebind (emap sx_to_dict es) (\<lambda>ds. Inr
            \<lparr>in_incident_id = ''incident_'' @ dec_int (py_int now) @ ''_'' @ dec_nat i, in_events = ds,
             in_event_count = length es,
             in_window = Some (time_at (Min (set (map event_time es))) es, time_at (Max (set (map event_time es))) es),
             in_patterns = Some ms, in_risk_score = risk, in_risk_level = risk_level_from_score risk,
             in_rag_context = Some ctx, in_method = (if ms \<noteq> [] then ''rag_enhanced'' else ''fallback'')\<rparr>))"

definition fallback_event_correlation :: "rat \<Rightarrow> security_event list \<Rightarrow> exc + incident list" where
  "fallback_event_correlation w es =
     ebind (aggregate_events_by_time w es) (\<lambda>gs.
       emap (\<lambda>(i, g). ebind (emap sx_to_dict g) (\<lambda>ds. Inr
         \<lparr>in_incident_id = ''fallback_'' @ dec_nat i, in_events = ds, in_event_count = length g, in_window = None,
          in_patterns = None, in_risk_score = 3 / 10, in_risk_level = ''low'', in_rag_context = None,
          in_method = ''fallback_no_rag''\<rparr>)) (zip [0..<length gs] gs))"

definition correlate_events_with_rag :: "(string list \<Rightarrow> string list) \<Rightarrow> rag_engine option \<Rightarrow> time \<Rightarrow> security_event list \<Rightarrow> rat \<Rightarrow> exc + incident list" where
  "correlate_events_with_rag ord rag now es w =
     (if es = [] then Inr []
      else case rag of
        None \<Rightarrow> fallback_event_correlation w es
      | Some r \<Rightarrow> ebind (aggregate_events_by_time w es) (\<lambda>gs.
          ebind (emap (\<lambda>(i, g). rag_correlate_single_incident ord r now i g) (zip [0..<length gs] gs)) (\<lambda>xs.
            Inr (sort_key (\<lambda>x. - in_risk_score x) xs))))"

definition stage_mapping :: "(string \<times> string list) list" where
  "stage_mapping =
     [(''reconnaissance'', [''recon'', ''scan'', ''probe'', ''discovery'']), (''initial_access'', [''exploit'', ''vulnerability'', ''injection'']),
      (''execution'', [''exec'', ''command'', ''shell'']), (''persistence'', [''persist'', ''cron'', ''startup'']),
      (''privilege_escalation'', [''privesc'', ''root'', ''sudo'']), (''defense_evasion'', [''bypass'', ''evade'', ''seccomp'']),
      (''credential_access'', [''credential'', ''password'', ''token'']), (''lateral_movement'', [''lateral'', ''pivot'']),
      (''exfiltration'', [''exfil'', ''upload'', ''data_leak'']), (''impact'', [''dos'', ''destroy'', ''ransomware''])]"

definition stage_of :: "string \<Rightarrow> string option" where
  "stage_of t = map_option fst (find (\<lambda>(stage, kws). list_ex (\<lambda>kw. contains kw (lower t)) kws) stage_mapping)"

definition add_stage :: "string \<Rightarrow> string list \<Rightarrow> string list" where
  "add_stage t stages = (case stage_of t of None \<Rightarrow> stages | Some x \<Rightarrow> if x \<in> set stages then stages else stages @ [x])"

definition identify_chain_stages :: "string list \<Rightarrow> string list" where
  "identify_chain_stages ts = fold add_stage ts []"

record attack_chain =
  ak_chain_id :: string
  ak_stages :: "string list"
  ak_stage_count :: nat
  ak_events :: "(string, json) dict list"
  ak_risk_score :: rat
  ak_risk_level :: string
  ak_patterns :: "matched_pattern list"
  ak_description :: string

text \<open>The type of an event is read from its payload; a type that is not a text fails in the search for stages.\<close>

definition incident_types :: "incident \<Rightarrow> exc + string list" where
  "incident_types x =
     emap (\<lambda>d. case dget_or d ''payload'' (JObj []) of
             JObj p \<Rightarrow> (case event_type_of p of JStr t \<Rightarrow> Inr t | _ \<Rightarrow> Inl AttributeError)
           | _ \<Rightarrow> Inl AttributeError) (in_events x)"

fun attack_loop :: "time \<Rightarrow> incident list \<Rightarrow> attack_chain list \<Rightarrow> exc + attack_chain list" where
  "attack_loop now [] acc = Inr acc"
| "attack_loop now (x # xs) acc =
     (if in_risk_score x < 4 / 10 then attack_loop now xs acc
      else ebind (incident_types x) (\<lambda>ts.
        let st = identify_chain_stages ts
        in attack_loop now xs
             (if length st \<ge> 2
              then acc @ [\<lparr>ak_chain_id = ''chain_'' @ dec_int (py_int now) @ ''_'' @ dec_nat (length acc), ak_stages = st,
                           ak_stage_count = length st, ak_events = in_events x, ak_risk_score = in_risk_score x,
                           ak_risk_level = in_risk_level x, ak_patterns = get_default (in_patterns x) [],
                           ak_description = dec_nat (length st) @ '' stages: '' @ join '' -> '' st\<rparr>]
              else acc)))"

definition detect_attack_chain_with_rag :: "(string list \<Rightarrow> string list) \<Rightarrow> rag_engine option \<Rightarrow> time \<Rightarrow> security_event list \<Rightarrow> exc + attack_chain list" where
  "detect_attack_chain_with_rag ord rag now es =
     (if length es < 2 \<or> rag = None then Inr []
      else ebind (correlate_events_with_rag ord rag now es 600) (\<lambda>xs. attack_loop now xs []))"

subsection \<open>Audit chains\<close>

text \<open>The answers to the records of a log, one after the other.\<close>

fun audit_answers :: "runtime \<Rightarrow> (time \<times> (string, json) dict) list \<Rightarrow> audit_detector \<Rightarrow> (exc + bool \<times> security_event option) list" where
  "audit_answers rt [] s = []"
| "audit_answers rt ((now, d) # ls) s =
     snd (verify_and_detect rt now (L_Json (JObj d)) s) # audit_answers rt ls (fst (verify_and_detect rt now (L_Json (JObj d)) s))"

definition accepted :: "exc + bool \<times> security_event option \<Rightarrow> bool" where
  "accepted r \<longleftrightarrow> r = Inr (True, None)"

definition seq_of :: "(string, json) dict \<Rightarrow> int" where
  "seq_of d = (case dget_null d ''seq'' of JInt n \<Rightarrow> n | _ \<Rightarrow> 0)"

definition text_of :: "string \<Rightarrow> (string, json) dict \<Rightarrow> string" where
  "text_of k d = (case dget_null d k of JStr x \<Rightarrow> x | _ \<Rightarrow> [])"

definition stamp_of :: "(string, json) dict \<Rightarrow> rat" where
  "stamp_of d = (case dget_null d ''timestamp'' of JFloat t \<Rightarrow> t | _ \<Rightarrow> 0)"

text \<open>A record that has all the fields of the chain, of the types the logger writes.\<close>

definition full_record :: "(string, json) dict \<Rightarrow> bool" where
  "full_record d \<longleftrightarrow> dget_null d ''seq'' = JInt (seq_of d) \<and> 0 < seq_of d \<and>
     dget_null d ''timestamp'' = JFloat (stamp_of d) \<and> dget_null d ''prev_hash'' = JStr (text_of ''prev_hash'' d) \<and>
     list_all (\<lambda>k. dget_null d k = JStr (text_of k d) \<and> text_of k d \<noteq> []) [''hash'', ''hmac'', ''event_id'']"

definition mac_right :: "runtime \<Rightarrow> string \<Rightarrow> (string, json) dict \<Rightarrow> bool" where
  "mac_right rt secret d \<longleftrightarrow> text_of ''hmac'' d = rt_mac rt secret (filter (\<lambda>(k, v). k \<noteq> ''hmac'') d)"

text \<open>One record after another.\<close>

definition links :: "(string, json) dict \<Rightarrow> (string, json) dict \<Rightarrow> bool" where
  "links d e \<longleftrightarrow> seq_of e = seq_of d + 1 \<and> text_of ''prev_hash'' e = text_of ''hash'' d \<and>
     - 1 \<le> stamp_of e - stamp_of d \<and> stamp_of e - stamp_of d \<le> 3600"

definition valid_chain :: "runtime \<Rightarrow> string \<Rightarrow> (string, json) dict list \<Rightarrow> bool" where
  "valid_chain rt secret ds \<longleftrightarrow> list_all (mac_right rt secret) ds \<and> successively links ds \<and> distinct (map (text_of ''event_id'') ds)"

text \<open>The detector after an accepted record, and the record it last accepted.\<close>

definition after_record :: "(string, json) dict \<Rightarrow> audit_detector \<Rightarrow> audit_detector" where
  "after_record d s =
     s\<lparr>au_last_hash := Some (JStr (text_of ''hash'' d)), au_last_seq := Some (seq_of d), au_last_timestamp := Some (stamp_of d),
       au_seen := au_seen s @ [JStr (text_of ''event_id'' d)]\<rparr>"

definition last_was :: "(string, json) dict option \<Rightarrow> audit_detector \<Rightarrow> bool" where
  "last_was p s \<longleftrightarrow> au_last_hash s = map_option (\<lambda>d. JStr (text_of ''hash'' d)) p \<and>
     au_last_seq s = map_option seq_of p \<and> au_last_timestamp s = map_option stamp_of p"

definition fits :: "runtime \<Rightarrow> (string, json) dict option \<Rightarrow> (string, json) dict \<Rightarrow> audit_detector \<Rightarrow> bool" where
  "fits rt p d s \<longleftrightarrow> (case p of None \<Rightarrow> True | Some q \<Rightarrow> links q d) \<and> mac_right rt (au_secret s) d \<and>
     JStr (text_of ''event_id'' d) \<notin> set (au_seen s)"

lemma py_eq_text [simp]: "py_eq (JStr x) (JStr y) \<longleftrightarrow> x = y"
  by (simp add: py_eq.simps)

lemma full_recordD:
  assumes "full_record d"
  shows "dget_null d ''seq'' = JInt (seq_of d)" "0 < seq_of d" "dget_null d ''timestamp'' = JFloat (stamp_of d)"
    "dget_null d ''prev_hash'' = JStr (text_of ''prev_hash'' d)" "dget_null d ''hash'' = JStr (text_of ''hash'' d)"
    "dget_null d ''hmac'' = JStr (text_of ''hmac'' d)" "dget_null d ''event_id'' = JStr (text_of ''event_id'' d)"
    "text_of ''hash'' d \<noteq> []" "text_of ''hmac'' d \<noteq> []" "text_of ''event_id'' d \<noteq> []"
  using assms by (simp_all add: full_record_def)

lemma hmac_step:
  assumes "full_record d" "au_secret s \<noteq> []"
  shows "check_hmac rt now d s =
    (if mac_right rt (au_secret s) d then (s\<lparr>au_last_hash := Some (JStr (text_of ''hash'' d))\<rparr>, Inr None)
     else (s, Inr (Some (build_anomaly_event now d Hash_Chain_Break ''critical'' ''HMAC verification failed''))))"
  using full_recordD [OF assms(1)] assms(2) by (simp add: check_hmac_def hmac_wrong_def mac_right_def)

lemma chain_step:
  assumes "full_record d" "au_secret s \<noteq> []" "last_was p s"
  shows "\<exists>a. check_hmac_chain rt now d s =
    (if (case p of None \<Rightarrow> True | Some q \<Rightarrow> text_of ''prev_hash'' d = text_of ''hash'' q) \<and> mac_right rt (au_secret s) d
     then (s\<lparr>au_last_hash := Some (JStr (text_of ''hash'' d))\<rparr>, Inr None) else (s, Inr (Some a)))"
  using full_recordD [OF assms(1)] assms(3)
  by (cases p) (auto simp: check_hmac_chain_def chain_applies_def py_to_int_def py_int_def last_was_def first16_def
    hmac_step [OF assms(1,2)])

lemma sequence_step:
  assumes "full_record d" "au_last_seq s = map_option seq_of p"
  shows "\<exists>a. check_sequence_continuity rt now d s =
    (if (case p of None \<Rightarrow> True | Some q \<Rightarrow> seq_of d = seq_of q + 1)
     then (s\<lparr>au_last_seq := Some (seq_of d)\<rparr>, Inr None) else (s, Inr (Some a)))"
  using full_recordD(1,2) [OF assms(1)] assms(2)
  by (cases p) (auto simp: check_sequence_continuity_def py_to_int_def py_int_def get_default_def Let_def)

lemma timestamp_step:
  assumes "full_record d" "au_last_timestamp s = map_option stamp_of p"
  shows "\<exists>a. check_timestamp_validity rt now d s =
    (if (case p of None \<Rightarrow> True | Some q \<Rightarrow> - 1 \<le> stamp_of d - stamp_of q \<and> stamp_of d - stamp_of q \<le> 3600)
     then (s\<lparr>au_last_timestamp := Some (stamp_of d)\<rparr>, Inr None) else (s, Inr (Some a)))"
  using full_recordD(3) [OF assms(1)] assms(2)
  by (cases p) (auto simp: check_timestamp_validity_def py_float_def get_default_def Let_def)

lemma other_step:
  assumes "full_record d" "length (au_seen s) < 10000"
  shows "\<exists>a. detect_other_anomalies rt now d s =
    (if JStr (text_of ''event_id'' d) \<notin> set (au_seen s)
     then (s\<lparr>au_seen := au_seen s @ [JStr (text_of ''event_id'' d)]\<rparr>, Inr None) else (s, Inr (Some a)))"
  using full_recordD(7,10) [OF assms(1)] assms(2)
  by (auto simp: detect_other_anomalies_def py_key_def Let_def)

lemma first_anomaly_guarded:
  "f s = (if P then (s', Inr None) else (t, Inr (Some a))) \<Longrightarrow>
   first_anomaly (f # fs) s = (if P then first_anomaly fs s' else (t, Inr (Some a)))"
  by simp

lemma verify_full:
  assumes "full_record d" "au_secret s \<noteq> []" "last_was p s" "length (au_seen s) < 10000"
  shows "accepted (snd (verify_and_detect rt now (L_Json (JObj d)) s)) \<longleftrightarrow> fits rt p d s"
    and "fits rt p d s \<Longrightarrow> fst (verify_and_detect rt now (L_Json (JObj d)) s) = after_record d s"
proof -
  let ?s1 = "s\<lparr>au_last_hash := Some (JStr (text_of ''hash'' d))\<rparr>"
  let ?s2 = "?s1\<lparr>au_last_seq := Some (seq_of d)\<rparr>"
  let ?s3 = "?s2\<lparr>au_last_timestamp := Some (stamp_of d)\<rparr>"
  have p: "au_last_seq ?s1 = map_option seq_of p" "au_last_timestamp ?s2 = map_option stamp_of p" "length (au_seen ?s3) < 10000"
    using assms(3,4) by (simp_all add: last_was_def)
  note steps = chain_step [OF assms(1-3), of rt now] sequence_step [OF assms(1) p(1), of rt now]
    timestamp_step [OF assms(1) p(2), of rt now] other_step [OF assms(1) p(3), of rt now]
  obtain a1 a2 a3 a4 where c: "check_hmac_chain rt now d s =
      (if (case p of None \<Rightarrow> True | Some q \<Rightarrow> text_of ''prev_hash'' d = text_of ''hash'' q) \<and> mac_right rt (au_secret s) d
       then (?s1, Inr None) else (s, Inr (Some a1)))"
    "check_sequence_continuity rt now d ?s1 =
      (if (case p of None \<Rightarrow> True | Some q \<Rightarrow> seq_of d = seq_of q + 1) then (?s2, Inr None) else (?s1, Inr (Some a2)))"
    "check_timestamp_validity rt now d ?s2 =
      (if (case p of None \<Rightarrow> True | Some q \<Rightarrow> - 1 \<le> stamp_of d - stamp_of q \<and> stamp_of d - stamp_of q \<le> 3600)
       then (?s3, Inr None) else (?s2, Inr (Some a3)))"
    "detect_other_anomalies rt now d ?s3 =
      (if JStr (text_of ''event_id'' d) \<notin> set (au_seen ?s3)
       then (?s3\<lparr>au_seen := au_seen ?s3 @ [JStr (text_of ''event_id'' d)]\<rparr>, Inr None) else (?s3, Inr (Some a4)))"
    using steps by blast
  have v: "\<exists>a t. first_anomaly [check_hmac_chain rt now d, check_sequence_continuity rt now d,
      check_timestamp_validity rt now d, detect_other_anomalies rt now d] s =
    (if fits rt p d s then (after_record d s, Inr None) else (t, Inr (Some a)))"
    unfolding first_anomaly_guarded [where f = "check_hmac_chain rt now d", OF c(1)]
      first_anomaly_guarded [where f = "check_sequence_continuity rt now d", OF c(2)]
      first_anomaly_guarded [where f = "check_timestamp_validity rt now d", OF c(3)]
      first_anomaly_guarded [where f = "detect_other_anomalies rt now d", OF c(4)]
    by (cases p) (auto simp: fits_def links_def after_record_def)
  then show "accepted (snd (verify_and_detect rt now (L_Json (JObj d)) s)) \<longleftrightarrow> fits rt p d s"
    by (auto simp: verify_and_detect_def accepted_def split: if_splits)
  show "fits rt p d s \<Longrightarrow> fst (verify_and_detect rt now (L_Json (JObj d)) s) = after_record d s"
    using v by (auto simp: verify_and_detect_def)
qed

lemma after_record_last: "last_was (Some d) (after_record d s)"
  by (simp add: last_was_def after_record_def)

lemma after_record_frame [simp]:
  "au_secret (after_record d s) = au_secret s" "au_seen (after_record d s) = au_seen s @ [JStr (text_of ''event_id'' d)]"
  by (simp_all add: after_record_def)

text \<open>What a log must be, after the record \<open>p\<close> and the identifiers seen, to be accepted.\<close>

lemma answers_accepted:
  assumes "\<forall>(t, d)\<in>set ls. full_record d" "au_secret s \<noteq> []" "last_was p s" "length (au_seen s) + length ls \<le> 10000"
  shows "list_all accepted (audit_answers rt ls s) \<longleftrightarrow>
    valid_chain rt (au_secret s) (map snd ls) \<and>
    (case (p, ls) of (Some q, (t, d) # _) \<Rightarrow> links q d | _ \<Rightarrow> True) \<and>
    (\<forall>(t, d)\<in>set ls. JStr (text_of ''event_id'' d) \<notin> set (au_seen s))"
  using assms
proof (induction ls arbitrary: s p)
  case Nil
  then show ?case by (cases p) (simp_all add: valid_chain_def)
next
  case (Cons x ls)
  obtain t d where x: "x = (t, d)" by fastforce
  have d: "full_record d" "length (au_seen s) < 10000" using Cons.prems x by simp_all
  note v = verify_full [OF d(1) Cons.prems(2,3) d(2), of rt t]
  show ?case
  proof (cases "fits rt p d s")
    case False
    then show ?thesis using v(1) x by (cases p) (auto simp: fits_def valid_chain_def)
  next
    case True
    have "list_all accepted (audit_answers rt ls (after_record d s)) \<longleftrightarrow>
      valid_chain rt (au_secret s) (map snd ls) \<and> (case ls of [] \<Rightarrow> True | (t, e) # _ \<Rightarrow> links d e) \<and>
      (\<forall>(t, e)\<in>set ls. JStr (text_of ''event_id'' e) \<notin> set (au_seen s) \<and> text_of ''event_id'' e \<noteq> text_of ''event_id'' d)"
      using Cons.IH [of "after_record d s" "Some d"] after_record_last [of d s] Cons.prems x
      by (cases ls) (auto simp: case_prod_unfold)
    moreover have "list_all accepted (audit_answers rt (x # ls) s) \<longleftrightarrow> list_all accepted (audit_answers rt ls (after_record d s))"
      using v True x by simp
    moreover have "successively links (map snd (x # ls)) \<longleftrightarrow>
        (case ls of [] \<Rightarrow> True | (t, e) # _ \<Rightarrow> links d e) \<and> successively links (map snd ls)"
      using x by (cases ls) auto
    moreover have "distinct (map (text_of ''event_id'') (map snd (x # ls))) \<longleftrightarrow>
        (\<forall>(t, e)\<in>set ls. text_of ''event_id'' e \<noteq> text_of ''event_id'' d) \<and> distinct (map (text_of ''event_id'') (map snd ls))"
      using x by force
    moreover have "(\<forall>(t, e)\<in>set (x # ls). JStr (text_of ''event_id'' e) \<notin> set (au_seen s)) \<longleftrightarrow>
        (\<forall>(t, e)\<in>set ls. JStr (text_of ''event_id'' e) \<notin> set (au_seen s))"
      using True x by (simp add: fits_def)
    moreover have "list_all (mac_right rt (au_secret s)) (map snd (x # ls)) \<longleftrightarrow> list_all (mac_right rt (au_secret s)) (map snd ls)"
      using True x by (simp add: fits_def)
    moreover have "case (p, x # ls) of (Some q, (t, d) # _) \<Rightarrow> links q d | _ \<Rightarrow> True"
      using True x by (simp add: fits_def split: option.splits)
    ultimately show ?thesis unfolding valid_chain_def by blast
  qed
qed

text \<open>
  C2. On records that have all the fields of the chain, a fresh audit detector accepts exactly the
  valid chains: sequence numbers go up by one, every record names the hash of the one before, every HMAC is
  right, times go back by at most a second and forward by at most an hour, and identifiers are distinct
  (for logs up to the size of its table of identifiers).
\<close>

theorem audit_accepts_exactly_chains:
  assumes "\<forall>(t, d)\<in>set ls. full_record d" "length ls \<le> 10000"
  shows "list_all accepted (audit_answers rt ls (ad_audit (init_adapter secret))) \<longleftrightarrow>
    valid_chain rt (au_secret (ad_audit (init_adapter secret))) (map snd ls)"
proof -
  let ?s = "ad_audit (init_adapter secret)"
  have "au_secret ?s \<noteq> []"
    by (cases secret rule: option.exhaust; cases "the secret") (auto simp: init_adapter_def str_or_none_def)
  moreover have "last_was None ?s" "au_seen ?s = []" by (simp_all add: init_adapter_def last_was_def)
  ultimately show ?thesis using answers_accepted [OF assms(1), of ?s None rt] assms(2) by simp
qed

definition demo_record :: "int \<Rightarrow> string \<Rightarrow> string \<Rightarrow> string \<Rightarrow> (string, json) dict" where
  "demo_record n prev hash eid =
     [(''seq'', JInt n), (''prev_hash'', JStr prev), (''hash'', JStr hash), (''hmac'', JStr ''mac''),
      (''timestamp'', JFloat (100 + of_int n)), (''event_id'', JStr eid)]"

definition demo_runtime :: runtime where
  "demo_runtime = \<lparr>rt_str = (\<lambda>v. []), rt_dumps = (\<lambda>v. []), rt_md5 = (\<lambda>x. x), rt_mac = (\<lambda>k d. ''mac''),
     rt_int_text = (\<lambda>x. None), rt_float_text = (\<lambda>x. None)\<rparr>"

lemma demo_record_full: "0 < n \<Longrightarrow> hash \<noteq> [] \<Longrightarrow> eid \<noteq> [] \<Longrightarrow> full_record (demo_record n prev hash eid)"
  by (simp add: full_record_def demo_record_def dget_null_def dget_or_def seq_of_def stamp_of_def text_of_def)

definition demo_log :: "string \<Rightarrow> (time \<times> (string, json) dict) list" where
  "demo_log prev = [(0, demo_record 1 ''a'' ''b'' ''x''), (0, demo_record 2 prev ''c'' ''y'')]"

theorem audit_accepts_exactly_chains_witness:
  "list_all accepted (audit_answers demo_runtime (demo_log ''b'') (ad_audit (init_adapter None))) \<and>
   \<not> list_all accepted (audit_answers demo_runtime (demo_log ''tampered'') (ad_audit (init_adapter None)))"
proof -
  have f: "\<forall>(t, d)\<in>set (demo_log p). full_record d" "length (demo_log p) \<le> 10000" for p
    by (simp_all add: demo_log_def demo_record_full)
  have v: "valid_chain demo_runtime k (map snd (demo_log p)) \<longleftrightarrow> p = ''b''" for p k
    by (auto simp: demo_log_def valid_chain_def links_def mac_right_def demo_runtime_def demo_record_def seq_of_def
      text_of_def stamp_of_def dget_null_def dget_or_def)
  show ?thesis unfolding audit_accepts_exactly_chains [OF f] v by simp
qed

subsection \<open>A lost record\<close>

lemma chain_frame: "au_last_seq (fst (check_hmac_chain rt now d s)) = au_last_seq s"
  by (auto simp: check_hmac_chain_def check_hmac_def split: sum.split option.split)

lemma gap_step:
  assumes "au_last_seq s = Some m" "dget d ''seq'' = Some (JInt n)" "m + 1 < n" "0 \<le> m"
  shows "au_last_seq (fst (verify_and_detect rt now (L_Json (JObj d)) s)) = Some m"
    "\<not> accepted (snd (verify_and_detect rt now (L_Json (JObj d)) s))"
proof -
  obtain s1 r where c: "check_hmac_chain rt now d s = (s1, r)" by fastforce
  then have s1: "au_last_seq s1 = Some m" using chain_frame [of rt now d s] assms(1) by simp
  have "\<exists>a. check_sequence_continuity rt now d s1 = (s1, Inr (Some a))"
    using s1 assms(2-4)
    by (simp add: check_sequence_continuity_def dget_null_def dget_or_def py_to_int_def py_int_def get_default_def Let_def)
  then obtain a where q: "check_sequence_continuity rt now d s1 = (s1, Inr (Some a))" by blast
  consider e where "r = Inl e" | b where "r = Inr (Some b)" | "r = Inr None" by (metis not_None_eq old.sum.exhaust)
  then have "\<exists>r'. first_anomaly [check_hmac_chain rt now d, check_sequence_continuity rt now d,
      check_timestamp_validity rt now d, detect_other_anomalies rt now d] s = (s1, r') \<and> r' \<noteq> Inr None"
    by cases (simp_all add: c q)
  then obtain r' where v: "first_anomaly [check_hmac_chain rt now d, check_sequence_continuity rt now d,
      check_timestamp_validity rt now d, detect_other_anomalies rt now d] s = (s1, r')" "r' \<noteq> Inr None"
    by blast
  show "au_last_seq (fst (verify_and_detect rt now (L_Json (JObj d)) s)) = Some m"
    using s1 v(1) by (simp add: verify_and_detect_def)
  show "\<not> accepted (snd (verify_and_detect rt now (L_Json (JObj d)) s))"
    using v by (cases r') (auto simp: verify_and_detect_def accepted_def)
qed

text \<open>
  A lost record is never forgiven: once the detector has accepted number \<open>m\<close>, no record of a later log
  whose numbers are all above \<open>m + 1\<close> is accepted, however long and consistent that log is. The last
  number only moves on a record that is accepted.
\<close>

theorem lost_record_poisons_chain:
  assumes "au_last_seq s = Some m" "0 \<le> m" "\<forall>(t, d)\<in>set ls. \<exists>n. dget d ''seq'' = Some (JInt n) \<and> m + 1 < n"
  shows "list_all (\<lambda>r. \<not> accepted r) (audit_answers rt ls s)"
  using assms
proof (induction ls arbitrary: s)
  case (Cons x ls)
  obtain t d where x: "x = (t, d)" by fastforce
  obtain n where "dget d ''seq'' = Some (JInt n)" "m + 1 < n" using Cons.prems(3) x by auto
  note g = gap_step [OF Cons.prems(1) this Cons.prems(2), of rt t]
  then show ?case using Cons.IH [OF g(1) Cons.prems(2)] Cons.prems(3) x by simp
qed simp

theorem lost_record_poisons_chain_witness:
  "list_all (\<lambda>r. \<not> accepted r) (audit_answers demo_runtime
     [(0, demo_record 3 ''c'' ''d'' ''z''), (0, demo_record 4 ''d'' ''e'' ''u'')]
     (after_record (demo_record 1 ''a'' ''b'' ''x'') (ad_audit (init_adapter None))))"
  using lost_record_poisons_chain [of "after_record (demo_record 1 ''a'' ''b'' ''x'') (ad_audit (init_adapter None))" 1
      "[(0, demo_record 3 ''c'' ''d'' ''z''), (0, demo_record 4 ''d'' ''e'' ''u'')]" demo_runtime]
  by (simp add: after_record_def demo_record_def seq_of_def dget_null_def dget_or_def)

text \<open>
  A record that leaves the fields of the chain out is accepted in every state, whatever else it says.
\<close>

theorem bare_records_accepted:
  assumes "\<forall>k\<in>set [''seq'', ''hmac'', ''timestamp'', ''event_id'']. dget d k = None"
  shows "accepted (snd (verify_and_detect rt now (L_Json (JObj d)) s))"
proof -
  have n: "dget_null d ''seq'' = JNull" "dget_null d ''hmac'' = JNull" "dget_null d ''timestamp'' = JNull"
    "dget_null d ''event_id'' = JNull"
    using assms by (simp_all add: dget_null_def dget_or_def)
  show ?thesis
    by (auto simp: verify_and_detect_def check_hmac_chain_def chain_applies_def check_hmac_def hmac_wrong_def
      check_sequence_continuity_def check_timestamp_validity_def detect_other_anomalies_def accepted_def n)
qed

theorem bare_records_accepted_witness:
  "accepted (snd (verify_and_detect demo_runtime 0 (L_Json (JObj [(''sandbox_id'', JStr ''forged'')]))
     (after_record (demo_record 1 ''a'' ''b'' ''x'') (ad_audit (init_adapter None)))))"
  using bare_records_accepted [of "[(''sandbox_id'', JStr ''forged'')]" demo_runtime 0] by simp

subsection \<open>Incidents\<close>

definition close_to :: "rat \<Rightarrow> security_event \<Rightarrow> security_event \<Rightarrow> bool" where
  "close_to w a b \<longleftrightarrow> event_time b - event_time a \<le> w"

lemma group_loop_spec:
  assumes "cur \<noteq> []" "successively (close_to w) cur"
  shows "concat (group_loop w cur es) = cur @ es" "[] \<notin> set (group_loop w cur es)"
    "group_loop w cur es \<noteq> [] \<and> hd (hd (group_loop w cur es)) = hd cur"
    "\<forall>g\<in>set (group_loop w cur es). successively (close_to w) g"
    "successively (\<lambda>g h. \<not> close_to w (last g) (hd h)) (group_loop w cur es)"
  using assms
proof (induction es arbitrary: cur)
  case Nil
  {
    case 1 then show ?case by simp
  next case 2 then show ?case by simp
  next case 3 then show ?case by simp
  next case 4 then show ?case by simp
  next case 5 then show ?case by simp
  }
next
  case (Cons e es)
  have app: "successively (close_to w) (cur @ [e])" if "close_to w (last cur) e" "successively (close_to w) cur" "cur \<noteq> []" for cur
    using that by (simp add: successively_append_iff)
  have one: "[e] \<noteq> []" "successively (close_to w) [e]" by simp_all
  note far = Cons.IH [OF one]
  {
    case 1
    then show ?case using Cons.IH(1) [of "cur @ [e]"] app [of cur] far(1) by (auto simp: close_to_def)
  next
    case 2
    then show ?case using Cons.IH(2) [of "cur @ [e]"] app [of cur] far(2) by (auto simp: close_to_def)
  next
    case 3
    then show ?case using Cons.IH(3) [of "cur @ [e]"] app [of cur] by (auto simp: close_to_def)
  next
    case 4
    then show ?case using Cons.IH(4) [of "cur @ [e]"] app [of cur] far(4) by (auto simp: close_to_def)
  next
    case 5
    then show ?case using Cons.IH(5) [of "cur @ [e]"] app [of cur] far(3,5)
      by (auto simp: close_to_def successively_Cons)
  }
qed

lemma grouped:
  assumes "list_all timed es"
  shows "\<exists>gs. aggregate_events_by_time w es = Inr gs \<and> mset (concat gs) = mset es \<and>
    sorted (map event_time (concat gs)) \<and> [] \<notin> set gs \<and>
    (\<forall>g\<in>set gs. successively (\<lambda>a b. event_time b - event_time a \<le> w) g) \<and>
    successively (\<lambda>g h. w < event_time (hd h) - event_time (last g)) gs"
proof (cases "sort_key event_time es")
  case Nil
  then have "es = []" by (metis length_0_conv length_sort)
  then show ?thesis by (simp add: aggregate_events_by_time_def)
next
  case (Cons e rest)
  let ?gs = "group_loop w [e] rest"
  have ne: "es \<noteq> []" using Cons by auto
  have one: "[e] \<noteq> []" "successively (close_to w) [e]" by simp_all
  note g = group_loop_spec [OF one, of rest]
  have c: "concat ?gs = sort_key event_time es" using g(1) Cons by simp
  have "aggregate_events_by_time w es = Inr ?gs"
    using assms ne Cons by (simp add: aggregate_events_by_time_def)
  moreover have "mset (concat ?gs) = mset es" "sorted (map event_time (concat ?gs))" unfolding c by simp_all
  ultimately show ?thesis using g(2,4,5) by (auto simp: close_to_def not_le)
qed

text \<open>
  Grouping events into incidents loses and invents nothing: the groups, none of them empty, are the
  events in time order, cut exactly where the gap to the next event is wider than the window (so an
  incident can last much longer than the window).
\<close>

theorem incidents_partition_events:
  assumes "list_all timed es"
  shows "\<exists>gs. aggregate_events_by_time w es = Inr gs \<and> mset (concat gs) = mset es \<and>
    sorted (map event_time (concat gs)) \<and> [] \<notin> set gs \<and>
    (\<forall>g\<in>set gs. successively (\<lambda>a b. event_time b - event_time a \<le> w) g) \<and>
    successively (\<lambda>g h. w < event_time (hd h) - event_time (last g)) gs"
  using assms by (rule grouped)

definition demo_event_at :: "rat \<Rightarrow> security_event" where
  "demo_event_at t = \<lparr>sx_event_id = JStr ''e'', sx_source = Seccomp_Violation, sx_timestamp = JFloat t, sx_sandbox_id = JStr ''s'',
     sx_severity = ''low'', sx_description = [], sx_payload = [], sx_raw_event = None, sx_anomaly_type = None, sx_anomaly_score = 0\<rparr>"

theorem incidents_partition_events_witness:
  "\<exists>gs. aggregate_events_by_time 300 (map demo_event_at [900, 200, 0]) = Inr gs \<and>
     mset (concat gs) = mset (map demo_event_at [900, 200, 0])"
  using incidents_partition_events [of "map demo_event_at [900, 200, 0]" 300] by (auto simp: timed_def demo_event_at_def)

subsection \<open>What is never reported\<close>

datatype adapter_op =
    AO_Seccomp "(time \<times> log_line) list option"
  | AO_Kvm "kvm_file option"
  | AO_Audit "(time \<times> log_line) list option"
  | AO_Ingest time json event_source

fun adapter_step :: "runtime \<Rightarrow> adapter_op \<Rightarrow> adapter \<Rightarrow> adapter" where
  "adapter_step rt (AO_Seccomp f) s = fst (load_seccomp_log rt f s)"
| "adapter_step rt (AO_Kvm f) s = fst (load_kvm_vm_exit_metrics rt f s)"
| "adapter_step rt (AO_Audit f) s = fst (load_audit_chain rt f s)"
| "adapter_step rt (AO_Ingest now v src) s = fst (ingest_event rt now v src s)"

definition adapter_fresh :: "adapter \<Rightarrow> bool" where
  "adapter_fresh s \<longleftrightarrow> (\<exists>secret. s = init_adapter secret)"

text \<open>
  What holds of an event of each source: a VM exit has score 0, and a seccomp event is only marked
  when its system call is a text.
\<close>

definition event_ok :: "security_event \<Rightarrow> bool" where
  "event_ok e \<longleftrightarrow> (sx_source e = Kvm_Vm_Exit \<longrightarrow> sx_anomaly_score e = 0) \<and>
     (sx_source e = Seccomp_Violation \<longrightarrow> sx_anomaly_type e \<noteq> None \<longrightarrow> (\<exists>k. dget (sx_payload e) ''syscall'' = Some (JStr k)))"

definition at_source :: "event_heap \<Rightarrow> event_source \<Rightarrow> nat list \<Rightarrow> bool" where
  "at_source h src as \<longleftrightarrow> (\<forall>a\<in>set as. a < length h \<and> sx_source (h ! a) = src)"

definition reported_ok :: "event_heap \<Rightarrow> nat list \<Rightarrow> bool" where
  "reported_ok h as \<longleftrightarrow> (\<forall>a\<in>set as. a < length h \<and> sx_source (h ! a) \<noteq> Kvm_Vm_Exit \<and> sx_anomaly_type (h ! a) \<noteq> None)"

definition adapter_ok :: "adapter \<Rightarrow> bool" where
  "adapter_ok s \<longleftrightarrow> list_all event_ok (ad_heap s) \<and>
     at_source (ad_heap s) Seccomp_Violation (sp_parsed (ad_seccomp s)) \<and> at_source (ad_heap s) Kvm_Vm_Exit (kp_parsed (ad_kvm s)) \<and>
     reported_ok (ad_heap s) (ad_anomalies s) \<and> au_anomalies (ad_audit s) = []"

lemma at_source_app: "at_source h src as \<Longrightarrow> at_source (h @ [e]) src as"
  by (auto simp: at_source_def nth_append)

lemma at_source_snoc: "at_source h src as \<Longrightarrow> sx_source e = src \<Longrightarrow> at_source (h @ [e]) src (as @ [length h])"
  by (auto simp: at_source_def nth_append)

lemma reported_app: "reported_ok h as \<Longrightarrow> reported_ok (h @ [e]) as"
  by (auto simp: reported_ok_def nth_append)

lemma adapter_ok_add_all [simp]: "adapter_ok (add_all a s) = adapter_ok s"
  by (simp add: adapter_ok_def add_all_def)

text \<open>The search for spikes, over a heap and what it has found.\<close>

fun scan_ok :: "nat list \<Rightarrow> nat list \<Rightarrow> nat list \<Rightarrow> event_heap \<times> nat list \<Rightarrow> bool" where
  "scan_ok sp kp as (h, found) \<longleftrightarrow> list_all event_ok h \<and> at_source h Seccomp_Violation sp \<and> at_source h Kvm_Vm_Exit kp \<and>
     reported_ok h as \<and> reported_ok h found"

lemma scan_ok_mark:
  assumes "scan_ok sp kp as (h, found)" "a \<in> set sp" "can_mark k w t0 (h ! a)"
  shows "scan_ok sp kp as (h[a := mark_spike x (h ! a)], found @ [a])"
proof -
  have a: "a < length h" "sx_source (h ! a) = Seccomp_Violation" using assms(1,2) by (auto simp: at_source_def)
  have "event_ok (mark_spike x (h ! a))"
    using a assms(3) by (auto simp: event_ok_def mark_spike_def can_mark_def)
  then have "list_all event_ok (h[a := mark_spike x (h ! a)])"
    using assms(1) set_update_subset_insert [of h a] by (fastforce simp: list_all_iff)
  then show ?thesis
    using assms(1) a by (auto simp: at_source_def reported_ok_def nth_list_update mark_spike_def)
qed

lemma scan_ok_window: "scan_ok sp kp as acc \<Longrightarrow> scan_ok sp kp as (check_window w th sp k ts t0 acc)"
proof (cases acc)
  case (Pair h found)
  assume ok: "scan_ok sp kp as acc"
  show ?thesis
    using ok scan_ok_mark [of sp kp as h found _ k w t0]
    unfolding Pair check_window_def Let_def
    by (auto simp del: scan_ok.simps split: option.split simp: find_Some_iff)
qed

lemma scan_ok_fold: "scan_ok sp kp as acc \<Longrightarrow> scan_ok sp kp as (fold (check_window w th sp k ts) ts' acc)"
  by (induction ts' arbitrary: acc) (simp_all add: scan_ok_window)

lemma scan_ok_syscalls: "scan_ok sp kp as acc \<Longrightarrow> scan_ok sp kp as (check_syscalls w th sp fr acc)"
proof (induction fr arbitrary: acc)
  case (Cons x fr)
  obtain k ts where x: "x = (k, ts)" by fastforce
  show ?case
    using Cons.IH [OF Cons.prems] Cons.IH [OF scan_ok_fold [OF Cons.prems]] unfolding x check_syscalls.simps by simp
qed simp

lemma adapter_ok_frequency:
  assumes "adapter_ok s" "detect_frequency_anomalies w th s = (s2, found)"
  shows "adapter_ok (s2\<lparr>ad_anomalies := ad_anomalies s2 @ found\<rparr>)"
proof -
  obtain h f where r: "check_syscalls w th (sp_parsed (ad_seccomp s)) (sp_frequency (ad_seccomp s)) (ad_heap s, []) = (h, f)"
    by fastforce
  have "scan_ok (sp_parsed (ad_seccomp s)) (kp_parsed (ad_kvm s)) (ad_anomalies s) (ad_heap s, [])"
    using assms(1) by (simp add: adapter_ok_def reported_ok_def)
  from scan_ok_syscalls [OF this, of w th "sp_frequency (ad_seccomp s)"]
  show ?thesis
    using assms r by (auto simp: detect_frequency_anomalies_def adapter_ok_def reported_ok_def Let_def)
qed

lemma adapter_ok_seccomp_line: "adapter_ok s \<Longrightarrow> adapter_ok (fst (seccomp_parse_line rt now l s))"
proof -
  assume ok: "adapter_ok s"
  have "adapter_ok (store_seccomp rt d e s)" if "build_seccomp_event rt now d = Inr e" for d e
  proof -
    have e: "sx_source e = Seccomp_Violation" "sx_anomaly_type e = None"
      using that by (cases "py_float rt (dget_or d ''timestamp'' (JFloat now))"; auto simp: build_seccomp_event_def Let_def)+
    then show ?thesis
      using ok by (simp add: adapter_ok_def store_seccomp_def Let_def event_ok_def at_source_app at_source_snoc reported_app)
  qed
  then show ?thesis using ok by (auto simp: seccomp_parse_line_def split: log_line.split json.split sum.split)
qed

lemma adapter_ok_kvm_event: "adapter_ok s \<Longrightarrow> adapter_ok (fst (kvm_parse_event rt now v s))"
proof -
  assume ok: "adapter_ok s"
  have e: "sx_source (build_vm_exit_event rt now d x sev b) = Kvm_Vm_Exit" "event_ok (build_vm_exit_event rt now d x sev b)" for d x sev b
    by (simp_all add: build_vm_exit_event_def event_ok_def)
  show ?thesis
    using ok unfolding kvm_parse_event_def Let_def
    by (auto simp: adapter_ok_def e at_source_app at_source_snoc reported_app split: json.split sum.split option.split)
qed

lemma adapter_ok_seccomp_lines: "adapter_ok s \<Longrightarrow> adapter_ok (fst (seccomp_lines rt ls n s))"
proof (induction rt ls n s rule: seccomp_lines.induct)
  case (2 rt now l ls n s)
  have "adapter_ok (fst (seccomp_parse_line rt now l s))" using 2(3) by (rule adapter_ok_seccomp_line)
  then show ?case using 2(1,2) by (auto split: prod.split sum.split option.split)
qed simp

lemma adapter_ok_kvm_records: "adapter_ok s \<Longrightarrow> adapter_ok (fst (kvm_records rt ls n s))"
proof (induction rt ls n s rule: kvm_records.induct)
  case (2 rt now v ls n s)
  have "adapter_ok (fst (kvm_parse_event rt now v s))" using 2(3) by (rule adapter_ok_kvm_event)
  then show ?case using 2(1,2) by (auto split: prod.split sum.split option.split)
qed simp_all

lemma flag_escapes_none: "list_all event_ok h \<Longrightarrow> at_source h Kvm_Vm_Exit as \<Longrightarrow> flag_escapes as h = (h, [])"
proof (induction as)
  case (Cons a as)
  then have "event_ok (h ! a)" "sx_source (h ! a) = Kvm_Vm_Exit" by (auto simp: at_source_def list_all_length)
  then have "\<not> escape_attempt (h ! a)" by (simp add: event_ok_def escape_attempt_def)
  then show ?case using Cons by (simp add: at_source_def)
qed simp

text \<open>No run finds an escape attempt.\<close>

lemma no_escape: "adapter_ok s \<Longrightarrow> detect_escape_attempts s = (s, [])"
  by (simp add: detect_escape_attempts_def adapter_ok_def flag_escapes_none)

text \<open>A check leaves the list of anomalies alone, and what it answers comes from the audit chain.\<close>

definition from_audit :: "security_event \<Rightarrow> bool" where
  "from_audit e \<longleftrightarrow> sx_source e = Audit_Chain_Anomaly \<and> sx_anomaly_type e \<noteq> None"

fun answers_audit :: "audit_detector \<Rightarrow> check_answer \<Rightarrow> bool" where
  "answers_audit s (s', r) \<longleftrightarrow> au_anomalies s' = au_anomalies s \<and> (\<forall>e. r = Inr (Some e) \<longrightarrow> from_audit e)"

lemma from_audit_build [simp]: "from_audit (build_anomaly_event now d t sev x)"
  by (simp add: from_audit_def build_anomaly_event_def)

lemma answers_audit_hmac: "answers_audit s (check_hmac rt now d s)"
  by (simp add: check_hmac_def)

lemma answers_audit_chain: "answers_audit s (check_hmac_chain rt now d s)"
proof -
  have bind: "\<exists>x y. e = f x y" if "ebind (first16 rt p) (\<lambda>x. ebind (first16 rt q) (\<lambda>y. Inr (Some (f x y)))) = Inr (Some e)" for p q f e
    using that by (cases "first16 rt p"; cases "first16 rt q") auto
  then have "from_audit e" if "ebind (first16 rt p) (\<lambda>x. ebind (first16 rt q) (\<lambda>y. Inr (Some (build_anomaly_event now d t sev (g x y))))) = Inr (Some e)"
    for p q t sev g e using bind [OF that] by auto
  then show ?thesis
    unfolding check_hmac_chain_def by (auto split: sum.split option.split simp: answers_audit_hmac)
qed

lemma answers_audit_others:
  "answers_audit s (check_sequence_continuity rt now d s)"
  "answers_audit s (check_timestamp_validity rt now d s)"
  "answers_audit s (detect_other_anomalies rt now d s)"
  by (simp_all add: check_sequence_continuity_def check_timestamp_validity_def detect_other_anomalies_def Let_def split: sum.split)

lemma answers_audit_all: "\<forall>f\<in>set fs. \<forall>s. answers_audit s (f s) \<Longrightarrow> answers_audit s (first_anomaly fs s)"
proof (induction fs arbitrary: s)
  case (Cons f fs)
  obtain s' r where f: "f s = (s', r)" by fastforce
  have "answers_audit s (f s)" using Cons.prems by simp
  then have ok: "au_anomalies s' = au_anomalies s" "\<forall>e. r = Inr (Some e) \<longrightarrow> from_audit e" using f by simp_all
  obtain t q where g: "first_anomaly fs s' = (t, q)" by fastforce
  have "answers_audit s' (first_anomaly fs s')" using Cons by simp
  then have "answers_audit s (first_anomaly fs s')" using ok(1) g by simp
  then show ?case using ok f by (auto split: sum.split option.split)
qed simp

lemma verify_from_audit:
  assumes "verify_and_detect rt now l s = (s', r)"
  shows "au_anomalies s' = au_anomalies s" "r = Inr (b, Some e) \<Longrightarrow> from_audit e"
proof -
  let ?c = "\<lambda>d. first_anomaly [check_hmac_chain rt now d, check_sequence_continuity rt now d,
      check_timestamp_validity rt now d, detect_other_anomalies rt now d] s"
  have c: "answers_audit s (?c d)" for d
    by (rule answers_audit_all) (simp add: answers_audit_chain answers_audit_others)
  have "au_anomalies s' = au_anomalies s \<and> (r = Inr (b, Some e) \<longrightarrow> from_audit e)"
  proof (cases "\<exists>d. l = L_Json (JObj d)")
    case True
    then obtain d where l: "l = L_Json (JObj d)" by blast
    obtain t q where t: "?c d = (t, q)" by fastforce
    have e: "s' = t" "r = ebind q (\<lambda>a. Inr (True, a))"
      using assms unfolding verify_and_detect_def l log_line.case json.case t by simp_all
    show ?thesis using c [of d] unfolding t e by (cases q) auto
  next
    case False
    then show ?thesis using assms by (auto simp: verify_and_detect_def split: log_line.splits json.splits)
  qed
  then show "au_anomalies s' = au_anomalies s" "r = Inr (b, Some e) \<Longrightarrow> from_audit e" by simp_all
qed

lemma adapter_ok_audit: "adapter_ok s \<Longrightarrow> au_anomalies au = [] \<Longrightarrow> adapter_ok (s\<lparr>ad_audit := au\<rparr>)"
  by (simp add: adapter_ok_def)

lemma adapter_ok_audit_event: "adapter_ok s \<Longrightarrow> from_audit e \<Longrightarrow> adapter_ok (add_audit_event e s)"
  by (auto simp: adapter_ok_def add_audit_event_def Let_def from_audit_def event_ok_def at_source_app reported_ok_def nth_append)

lemma adapter_ok_audit_lines: "adapter_ok s \<Longrightarrow> adapter_ok (fst (audit_lines rt ls c s))"
proof (induction rt ls c s rule: audit_lines.induct)
  case (2 rt now l ls m n s)
  obtain au r where v: "verify_and_detect rt now l (ad_audit s) = (au, r)" by fastforce
  have au: "adapter_ok (s\<lparr>ad_audit := au\<rparr>)"
    using verify_from_audit(1) [OF v] 2(2) by (intro adapter_ok_audit) (simp_all add: adapter_ok_def)
  show ?case
  proof (cases r)
    case (Inl e)
    then show ?thesis using v au by simp
  next
    case (Inr p)
    obtain b a where p: "p = (b, a)" by fastforce
    have "adapter_ok (case a of None \<Rightarrow> s\<lparr>ad_audit := au\<rparr> | Some e \<Rightarrow> add_audit_event e (s\<lparr>ad_audit := au\<rparr>))"
      using au verify_from_audit(2) [OF v, of b] Inr p by (auto simp: adapter_ok_audit_event split: option.split)
    then show ?thesis using 2(1) [OF v [symmetric]] v Inr p by simp
  qed
qed simp

lemma adapter_ok_step: "adapter_ok s \<Longrightarrow> adapter_ok (adapter_step rt op s)"
proof (induction rt op s rule: adapter_step.induct)
  case (1 rt f s)
  have "adapter_ok (fst (seccomp_lines rt ls 0 s))" for ls using 1 by (rule adapter_ok_seccomp_lines)
  moreover have "adapter_ok t" if "seccomp_lines rt ls 0 s = (t, r)" for ls t r
    using calculation [of ls] that by simp
  ultimately show ?case
    using 1 by (auto simp: load_seccomp_log_def Let_def split: option.split prod.split sum.split)
      (blast intro: adapter_ok_frequency)
next
  case (2 rt f s)
  have k: "adapter_ok (fst (kvm_records rt ls 0 s))" for ls using 2 by (rule adapter_ok_kvm_records)
  show ?case
  proof (cases f)
    case (Some g)
    show ?thesis
    proof (cases g)
      case (Json_Array vs)
      then show ?thesis using k Some by (simp add: load_kvm_vm_exit_metrics_def)
    next
      case (Json_Lines ls)
      obtain s' r where kr: "kvm_records rt ls 0 s = (s', r)" by fastforce
      then have "adapter_ok s'" using k [of ls] by simp
      then show ?thesis using Some Json_Lines kr no_escape by (cases r) (simp_all add: load_kvm_vm_exit_metrics_def)
    qed
  qed (simp add: load_kvm_vm_exit_metrics_def 2)
next
  case (3 rt f s)
  then show ?case by (auto simp: load_audit_chain_def adapter_ok_audit_lines split: option.split)
next
  case (4 rt now v src s)
  then show ?case by (cases src) (simp_all add: ingest_event_def adapter_ok_seccomp_line adapter_ok_kvm_event)
qed

interpretation adapter: machine adapter_fresh "adapter_step rt" adapter_ok
proof
  show "adapter_ok s" if "adapter_fresh s" for s
    using that by (auto simp: adapter_fresh_def adapter_ok_def init_adapter_def at_source_def reported_ok_def)
qed (rule adapter_ok_step)

text \<open>
  In every reachable state the search for escape attempts finds nothing, no VM exit is among the
  anomalies, no seccomp event whose system call is not a text is marked, and the summary of
  the audit anomalies is empty, whatever the files held.
\<close>

theorem never_reported:
  assumes "reachable adapter_fresh (adapter_step rt) s"
  shows "snd (detect_escape_attempts s) = [] \<and>
    (\<forall>e\<in>set (get_anomaly_events s). sx_source e \<noteq> Kvm_Vm_Exit \<and>
       (sx_source e = Seccomp_Violation \<longrightarrow> (\<exists>k. dget (sx_payload e) ''syscall'' = Some (JStr k)))) \<and>
    as_total (get_anomaly_summary (ad_audit s)) = 0"
proof -
  have ok: "adapter_ok s" using assms by (rule adapter.inv_reachable)
  then have "as_total (get_anomaly_summary (ad_audit s)) = 0"
    by (simp add: get_anomaly_summary_def adapter_ok_def)
  moreover have "sx_source e \<noteq> Kvm_Vm_Exit \<and>
       (sx_source e = Seccomp_Violation \<longrightarrow> (\<exists>k. dget (sx_payload e) ''syscall'' = Some (JStr k)))"
    if "e \<in> set (get_anomaly_events s)" for e
    using ok that by (auto simp: get_anomaly_events_def adapter_ok_def reported_ok_def event_ok_def list_all_length)
  ultimately show ?thesis using no_escape [OF ok] by simp
qed

definition demo_exit :: json where
  "demo_exit = JObj [(''exit_reason'', JStr ''VMCALL''), (''vm_id'', JStr ''vm''), (''timestamp'', JInt 5)]"

theorem never_reported_witness:
  "let s = adapter_step demo_runtime (AO_Ingest 0 demo_exit Kvm_Vm_Exit) (init_adapter None)
   in length (kp_parsed (ad_kvm s)) = 1 \<and> snd (detect_escape_attempts s) = []"
proof -
  let ?s = "adapter_step demo_runtime (AO_Ingest 0 demo_exit Kvm_Vm_Exit) (init_adapter None)"
  have "reachable adapter_fresh (adapter_step demo_runtime) ?s"
    by (intro reachable.reach_step reachable.reach_init) (auto simp: adapter_fresh_def)
  then have "snd (detect_escape_attempts ?s) = []" using never_reported by blast
  moreover have "length (kp_parsed (ad_kvm ?s)) = 1"
    by (simp add: ingest_event_def kvm_parse_event_def demo_exit_def extract_vm_exit_fields_def dget_two_def dget_or_def
      py_to_int_def py_float_def classify_exit_risk_def init_adapter_def Let_def image_iff)
  ultimately show ?thesis unfolding Let_def by blast
qed

subsection \<open>Events that cannot be reported\<close>

lemma emap_fails:
  assumes "x \<in> set xs" "f x = Inl e" "\<And>y e'. f y = Inl e' \<Longrightarrow> e' = e"
  shows "emap f xs = Inl e"
  using assms(1)
proof (induction xs)
  case (Cons y ys)
  show ?case
  proof (cases "f y")
    case (Inl e')
    then have "e' = e" by (rule assms(3))
    then show ?thesis using Inl by simp
  next
    case (Inr v)
    then have "x \<in> set ys" using Cons.prems assms(2) by auto
    then show ?thesis using Cons.IH Inr by simp
  qed
qed simp

lemma sx_to_dict_error: "sx_to_dict e = Inl err \<Longrightarrow> err = AttributeError"
  by (auto simp: sx_to_dict_def anomaly_json_def split: option.splits anomaly_tag.splits if_splits)

text \<open>
  An event whose anomaly is a text, which is what the parser makes of every high risk VM exit, cannot be
  turned into a dictionary, so correlating any collection of events it is in fails as a whole.
\<close>

theorem risky_exit_breaks_correlation:
  assumes "e \<in> set es" "sx_anomaly_type e = Some (Anomaly_Text x)" "x \<noteq> []" "list_all timed es"
  shows "correlate_events_with_rag ord None now es w = Inl AttributeError"
proof -
  obtain gs where gs: "aggregate_events_by_time w es = Inr gs" "mset (concat gs) = mset es"
    using grouped [OF assms(4)] by blast
  have "set (concat gs) = set es" using gs(2) by (rule mset_eq_setD)
  then have "e \<in> set (concat gs)" using assms(1) by (simp only:)
  then obtain g where g: "g \<in> set gs" "e \<in> set g" by (auto simp only: set_concat)
  then obtain i where "i < length gs" "gs ! i = g" by (meson in_set_conv_nth)
  then have i: "(i, g) \<in> set (zip [0..<length gs] gs)" unfolding set_zip by force
  have e: "sx_to_dict e = Inl AttributeError" using assms(2,3) by (simp add: sx_to_dict_def anomaly_json_def)
  have "emap sx_to_dict g = Inl AttributeError" using g(2) e sx_to_dict_error by (rule emap_fails)
  moreover have "err = AttributeError" if "emap sx_to_dict h = Inl err" for h err
    using that
  proof (induction h)
    case (Cons a h)
    then show ?case using sx_to_dict_error [of a] by (cases "sx_to_dict a"; cases "emap sx_to_dict h") auto
  qed simp
  ultimately have "fallback_event_correlation w es = Inl AttributeError"
    unfolding fallback_event_correlation_def gs(1) ebind.simps
    by (intro emap_fails [OF i]) (auto elim: ebind.elims)
  then show ?thesis using assms(1) by (auto simp: correlate_events_with_rag_def)
qed

theorem risky_exit_breaks_correlation_witness:
  "correlate_events_with_rag id None 0
     (demo_event_at 1 # ad_heap (adapter_step demo_runtime (AO_Ingest 0 demo_exit Kvm_Vm_Exit) (init_adapter None))) 300 = Inl AttributeError"
proof -
  let ?h = "ad_heap (adapter_step demo_runtime (AO_Ingest 0 demo_exit Kvm_Vm_Exit) (init_adapter None))"
  have h: "\<exists>e. ?h = [e] \<and> sx_anomaly_type e = Some (Anomaly_Text ''vm_exit_high_risk'') \<and> timed e"
    by (simp add: ingest_event_def kvm_parse_event_def demo_exit_def extract_vm_exit_fields_def dget_two_def dget_or_def
      py_to_int_def py_float_def classify_exit_risk_def init_adapter_def Let_def image_iff build_vm_exit_event_def timed_def)
  then obtain e where e: "?h = [e]" "sx_anomaly_type e = Some (Anomaly_Text ''vm_exit_high_risk'')" "timed e" by blast
  show ?thesis unfolding e(1)
    by (rule risky_exit_breaks_correlation [OF _ e(2)]) (simp_all add: e(3), simp add: timed_def demo_event_at_def)
qed

end
