(* ===== verification/Event_Pipeline.thy ===== *)
theory Event_Pipeline
  imports Event_Validator Rule_Store Defense_Executor Real_Data_Adapter
begin

text \<open>
  \<open>evolution/secure_event_pipeline.py\<close>: the pipeline that joins four components. An event goes through
  the validator and then the adapter; a defence rule is stored, deployed by the executor, and its
  failures are counted by the rule store's breaker. The pipeline keeps the validator's cache of
  identifiers in a file. The components are the ones of their own theories; \<open>mac\<close> and \<open>ord\<close> are the
  validator's HMAC and the order in which Python lists a set. The choice of a default state directory,
  which probes the file system, is left out.
\<close>

subsection \<open>State\<close>

record pipeline_stats =
  pt_total_received :: int
  pt_total_validated :: int
  pt_total_rejected :: int
  pt_total_ingested :: int
  pt_total_rules_generated :: int
  pt_total_rules_deployed :: int
  pt_total_circuit_breaks :: int
  pt_total_rollbacks :: int
  pt_duplicate_cache_size :: nat
  pt_last_persist_time :: time

text \<open>The file of identifiers, as the pipeline writes it.\<close>

record cache_doc =
  cd_event_ids :: "string list option"
  cd_saved_at :: time

record pipeline =
  pl_auto_persist :: bool
  pl_interval :: int
  pl_last_persist :: time
  pl_stats :: pipeline_stats
  pl_validator :: validator
  pl_adapter :: adapter
  pl_rules :: rule_store
  pl_executor :: executor
  pl_cache_file :: "cache_doc disk_file"
  pl_writable :: bool

subsection \<open>The cache of identifiers\<close>

definition save_duplicate_cache :: "(string list \<Rightarrow> string list) \<Rightarrow> time \<Rightarrow> pipeline \<Rightarrow> pipeline \<times> bool" where
  "save_duplicate_cache ord now s =
     (let xs = ord (ev_duplicate_cache (pl_validator s)); ys = (if length xs > 10000 then last_n 10000 xs else xs)
      in if \<not> pl_writable s then (s, False)
         else (s\<lparr>pl_cache_file := Doc \<lparr>cd_event_ids = Some ys, cd_saved_at = now\<rparr>,
                 pl_stats := (pl_stats s)\<lparr>pt_duplicate_cache_size := length ys\<rparr>\<rparr>, True))"

definition load_duplicate_cache :: "pipeline \<Rightarrow> pipeline \<times> nat" where
  "load_duplicate_cache s =
     (case pl_cache_file s of
        Doc d \<Rightarrow>
          (let xs = get_default (cd_event_ids d) []; v = pl_validator s
           in (s\<lparr>pl_validator := v\<lparr>ev_duplicate_cache := fold (\<lambda>x c. if x \<in> set c then c else c @ [x]) xs (ev_duplicate_cache v)\<rparr>,
                 pl_stats := (pl_stats s)\<lparr>pt_duplicate_cache_size := length xs\<rparr>\<rparr>, length xs))
      | _ \<Rightarrow> (s, 0))"

text \<open>The constructor, on components made from their own settings; loading the rules may raise.\<close>

definition init_pipeline :: "bool \<Rightarrow> int \<Rightarrow> time \<Rightarrow> validator \<Rightarrow> rule_store \<Rightarrow> executor \<Rightarrow> cache_doc disk_file \<Rightarrow> bool \<Rightarrow> exc + pipeline" where
  "init_pipeline auto interval now v rs xe file writable =
     (case load rs of
        (rs', Inl e) \<Rightarrow> Inl e
      | (rs', Inr n) \<Rightarrow> Inr (fst (load_duplicate_cache
          \<lparr>pl_auto_persist = auto, pl_interval = interval, pl_last_persist = now,
           pl_stats = \<lparr>pt_total_received = 0, pt_total_validated = 0, pt_total_rejected = 0, pt_total_ingested = 0,
             pt_total_rules_generated = 0, pt_total_rules_deployed = 0, pt_total_circuit_breaks = 0,
             pt_total_rollbacks = 0, pt_duplicate_cache_size = 0, pt_last_persist_time = 0\<rparr>,
           pl_validator = v, pl_adapter = init_adapter None, pl_rules = rs', pl_executor = xe,
           pl_cache_file = file, pl_writable = writable\<rparr>)))"

definition maybe_persist :: "(string list \<Rightarrow> string list) \<Rightarrow> time \<Rightarrow> pipeline \<Rightarrow> pipeline" where
  "maybe_persist ord now s =
     (if pl_auto_persist s \<and> now - pl_last_persist s \<ge> of_int (pl_interval s)
      then let s1 = fst (save_duplicate_cache ord now s)
           in s1\<lparr>pl_rules := fst (persist now (pl_rules s1)), pl_last_persist := now\<rparr>
      else s)"

definition persist_state :: "(string list \<Rightarrow> string list) \<Rightarrow> time \<Rightarrow> pipeline \<Rightarrow> pipeline \<times> bool" where
  "persist_state ord now s =
     (let (s1, a) = save_duplicate_cache ord now s; (rs, b) = persist now (pl_rules s1)
      in (s1\<lparr>pl_rules := rs, pl_last_persist := now, pl_stats := (pl_stats s1)\<lparr>pt_last_persist_time := now\<rparr>\<rparr>, a \<and> b))"

definition pipeline_shutdown :: "(string list \<Rightarrow> string list) \<Rightarrow> time \<Rightarrow> pipeline \<Rightarrow> pipeline" where
  "pipeline_shutdown ord now s = fst (persist_state ord now s)"

subsection \<open>Events\<close>

text \<open>An event of the sources with \<open>audit\<close> or \<open>hmac\<close> in their name asks for a member the enumeration lacks.\<close>

definition auto_ingest :: "runtime \<Rightarrow> time \<Rightarrow> json \<Rightarrow> string \<Rightarrow> adapter \<Rightarrow> adapter \<times> (exc + nat option)" where
  "auto_ingest rt now v source s =
     (let x = lower source
      in if contains ''seccomp'' x then ingest_event rt now v Seccomp_Violation s
         else if contains ''kvm'' x \<or> contains ''vm_exit'' x then ingest_event rt now v Kvm_Vm_Exit s
         else if contains ''audit'' x \<or> contains ''hmac'' x then (s, Inl AttributeError)
         else (s, Inr None))"

definition count_received :: "pipeline \<Rightarrow> pipeline" where
  "count_received s = s\<lparr>pl_stats := (pl_stats s)\<lparr>pt_total_received := pt_total_received (pl_stats s) + 1\<rparr>\<rparr>"

text \<open>The event object is given by its position in the adapter's heap.\<close>

definition process_event :: "(string \<Rightarrow> (string \<times> json) list \<Rightarrow> string) \<Rightarrow> (string list \<Rightarrow> string list) \<Rightarrow> runtime \<Rightarrow> time \<Rightarrow>
    json \<Rightarrow> string \<Rightarrow> event_source option \<Rightarrow> pipeline \<Rightarrow> pipeline \<times> (exc + nat option \<times> val_result)" where
  "process_event mac ord rt now raw source st s =
     (let s1 = count_received s; (v, res) = validate mac ord now raw (Some source) (pl_validator s1); s2 = s1\<lparr>pl_validator := v\<rparr>
      in case res of
           Inl e \<Rightarrow> (s2, Inl e)
         | Inr r \<Rightarrow>
           (if \<not> vr_valid r
            then (maybe_persist ord now (s2\<lparr>pl_stats := (pl_stats s2)\<lparr>pt_total_rejected := pt_total_rejected (pl_stats s2) + 1\<rparr>\<rparr>),
                  Inr (None, r))
            else
              (let s3 = s2\<lparr>pl_stats := (pl_stats s2)\<lparr>pt_total_validated := pt_total_validated (pl_stats s2) + 1\<rparr>\<rparr>;
                   cleaned = (case vr_cleaned_event r of Some c \<Rightarrow> if truthy c then c else raw | None \<Rightarrow> raw);
                   (ad, ans) = (case st of Some t \<Rightarrow> ingest_event rt now cleaned t (pl_adapter s3)
                                | None \<Rightarrow> auto_ingest rt now cleaned source (pl_adapter s3));
                   s4 = s3\<lparr>pl_adapter := ad\<rparr>
               in case ans of
                    Inl e \<Rightarrow> (s4, Inl e)
                  | Inr None \<Rightarrow> (maybe_persist ord now s4, Inr (None, r))
                  | Inr (Some a) \<Rightarrow>
                      (maybe_persist ord now (s4\<lparr>pl_stats := (pl_stats s4)\<lparr>pt_total_ingested := pt_total_ingested (pl_stats s4) + 1\<rparr>\<rparr>),
                       Inr (Some a, r)))))"

subsection \<open>Rules\<close>

text \<open>An unknown name of a target means the first target.\<close>

definition parse_config_target :: "string \<Rightarrow> config_target" where
  "parse_config_target t = get_default (find (\<lambda>c. target_value c = lower t) all_targets) LIGHTPOOL_SECCOMP"

definition deploy_update :: "time \<Rightarrow> string \<Rightarrow> json \<Rightarrow> string \<Rightarrow> string \<Rightarrow> config_update" where
  "deploy_update now rid cfg author target =
     \<lparr>cu_update_id = rid @ ''-'' @ dec_int (py_int now), cu_target = parse_config_target target, cu_action = CH_ADD,
      cu_description = ''Deploy defense rule: '' @ rid, cu_config_key = rid, cu_config_value = cfg,
      cu_priority = ''high'', cu_reason = ''Deployed by '' @ author, cu_source_event_id = None,
      cu_defense_rule_id = Some rid, cu_timestamp = now, cu_applied = False, cu_applied_at = None,
      cu_rollback_snapshot = None, cu_status = None, cu_error = None\<rparr>"

record deploy_result =
  dp_success :: bool
  dp_error :: exec_error
  dp_update_id :: string
  dp_status :: string

definition deploy_rule_to_executor :: "time \<Rightarrow> time \<Rightarrow> string \<Rightarrow> json \<Rightarrow> string \<Rightarrow> string \<Rightarrow> pipeline \<Rightarrow> pipeline \<times> (exc + deploy_result)" where
  "deploy_rule_to_executor now fin rid cfg author target s =
     (case execute_update now fin (deploy_update now rid cfg author target) (pl_executor s) of
        (xe, Inl e) \<Rightarrow> (s\<lparr>pl_executor := xe\<rparr>, Inl e)
      | (xe, Inr r) \<Rightarrow> (s\<lparr>pl_executor := xe\<rparr>, Inr
          \<lparr>dp_success = (xr_status r = ES_SUCCESS), dp_error = xr_error r, dp_update_id = xr_update_id r,
           dp_status = exec_status_value (xr_status r)\<rparr>))"

text \<open>A failure that trips the breaker, and the rollback the pipeline asks for itself.\<close>

definition count_failure :: "string \<Rightarrow> time \<Rightarrow> pipeline \<Rightarrow> pipeline \<times> bool" where
  "count_failure rid now s =
     (case record_failure rid now (pl_rules s) of
        (rs, False) \<Rightarrow> (s\<lparr>pl_rules := rs\<rparr>, False)
      | (rs, True) \<Rightarrow>
        (let (rs2, back) = rollback_rule rid now rs; st = pl_stats s
         in (s\<lparr>pl_rules := rs2, pl_stats := st\<lparr>pt_total_circuit_breaks := pt_total_circuit_breaks st + 1,
                pt_total_rollbacks := pt_total_rollbacks st + (if back = None then 0 else 1)\<rparr>\<rparr>, True)))"

definition handle_deploy_outcome :: "string \<Rightarrow> time \<Rightarrow> deploy_result \<Rightarrow> pipeline \<Rightarrow> pipeline" where
  "handle_deploy_outcome rid now r s =
     (if dp_success r
      then s\<lparr>pl_stats := (pl_stats s)\<lparr>pt_total_rules_deployed := pt_total_rules_deployed (pl_stats s) + 1\<rparr>,
             pl_rules := record_trigger rid True now (pl_rules s)\<rparr>
      else fst (count_failure rid now s))"

text \<open>The answers; the one about the version reads the version object after all of it.\<close>

datatype deploy_answer = Rule_Circuit_Broken string string | Rule_Deployed bool string string string string deploy_result

definition deploy_defense_rule :: "(string list \<Rightarrow> string list) \<Rightarrow> time \<Rightarrow> time \<Rightarrow> string \<Rightarrow> json \<Rightarrow> string \<Rightarrow> string \<Rightarrow> pipeline \<Rightarrow>
    pipeline \<times> (exc + deploy_answer)" where
  "deploy_defense_rule ord now fin rid cfg author target s =
     (let i = length (versions (pl_rules s) rid); (rs, v) = deploy_rule rid cfg author now (pl_rules s); st = pl_stats s;
          s1 = s\<lparr>pl_rules := rs, pl_stats := st\<lparr>pt_total_rules_generated := pt_total_rules_generated st + 1\<rparr>\<rparr>
      in if is_circuit_broken rid (pl_rules s1)
         then (s1\<lparr>pl_stats := (pl_stats s1)\<lparr>pt_total_circuit_breaks := pt_total_circuit_breaks (pl_stats s1) + 1\<rparr>\<rparr>,
               Inr (Rule_Circuit_Broken rid (rv_version_id v)))
         else case deploy_rule_to_executor now fin rid cfg author target s1 of
                (s2, Inl e) \<Rightarrow> (s2, Inl e)
              | (s2, Inr r) \<Rightarrow>
                (let s3 = maybe_persist ord fin (handle_deploy_outcome rid fin r s2); w = versions (pl_rules s3) rid ! i
                 in (s3, Inr (Rule_Deployed (dp_success r) rid (rv_version_id w) (rule_state_value (rv_state w))
                          (rule_circuit_value (rv_circuit_state w)) r))))"

definition record_rule_failure :: "(string list \<Rightarrow> string list) \<Rightarrow> time \<Rightarrow> string \<Rightarrow> pipeline \<Rightarrow> pipeline \<times> bool" where
  "record_rule_failure ord now rid s = apfst (maybe_persist ord now) (count_failure rid now s)"

subsection \<open>Reports\<close>

record pipeline_report =
  pr_pipeline :: pipeline_stats
  pr_validator :: validator_report
  pr_persistence :: rule_stats

definition pipeline_get_stats :: "pipeline \<Rightarrow> pipeline \<times> pipeline_report" where
  "pipeline_get_stats s =
     (let (rs, st) = get_stats (pl_rules s)
      in (s\<lparr>pl_rules := rs\<rparr>, \<lparr>pr_pipeline = pl_stats s, pr_validator = validator_get_stats (pl_validator s), pr_persistence = st\<rparr>))"

definition pipeline_active_rules :: "pipeline \<Rightarrow> saved_version list" where
  "pipeline_active_rules s = map rv_to_dict (get_active_rules (pl_rules s))"

subsection \<open>What the steps leave alone\<close>

lemma save_cache_frame [simp]:
  "pl_validator (fst (save_duplicate_cache ord now s)) = pl_validator s"
  "pl_rules (fst (save_duplicate_cache ord now s)) = pl_rules s"
  "pl_stats (fst (save_duplicate_cache ord now s)) =
     (if pl_writable s then (pl_stats s)\<lparr>pt_duplicate_cache_size :=
        (let n = length (ord (ev_duplicate_cache (pl_validator s))) in if n > 10000 then 10000 else n)\<rparr> else pl_stats s)"
  by (simp_all add: save_duplicate_cache_def Let_def length_last_n)

text \<open>The counters without the size of the cache and the time of saving.\<close>

definition counts_of :: "pipeline \<Rightarrow> int list" where
  "counts_of s = (let t = pl_stats s in [pt_total_received t, pt_total_validated t, pt_total_rejected t, pt_total_ingested t,
     pt_total_rules_generated t, pt_total_rules_deployed t, pt_total_circuit_breaks t, pt_total_rollbacks t])"

lemma maybe_persist_frame [simp]:
  "pl_validator (maybe_persist ord now s) = pl_validator s" "counts_of (maybe_persist ord now s) = counts_of s"
  by (simp_all add: maybe_persist_def counts_of_def Let_def)

lemma versions_persist [simp]: "versions (fst (persist now s)) = versions s"
  by (simp add: fun_eq_iff versions_def)

lemma maybe_persist_rules:
  "pl_rules (maybe_persist ord now s) = pl_rules s \<or> pl_rules (maybe_persist ord now s) = fst (persist now (pl_rules s))"
  by (simp add: maybe_persist_def Let_def)

lemma active_version_persist [simp]: "active_version (fst (persist now s)) = active_version s"
  by (simp add: active_version_def fun_eq_iff)

lemma maybe_persist_active [simp]: "active_version (pl_rules (maybe_persist ord now s)) = active_version (pl_rules s)"
  using maybe_persist_rules [of ord now s] by auto

subsection \<open>The pipeline counts what its validator counts\<close>

datatype pipeline_op =
    PL_Event time json string "event_source option"
  | PL_Deploy time time string json string string
  | PL_Failure time string
  | PL_Persist time
  | PL_Stats

fun pipeline_step :: "(string \<Rightarrow> (string \<times> json) list \<Rightarrow> string) \<Rightarrow> (string list \<Rightarrow> string list) \<Rightarrow> runtime \<Rightarrow>
    pipeline_op \<Rightarrow> pipeline \<Rightarrow> pipeline" where
  "pipeline_step mac ord rt (PL_Event now raw src st) s = fst (process_event mac ord rt now raw src st s)"
| "pipeline_step mac ord rt (PL_Deploy now fin rid cfg author target) s = fst (deploy_defense_rule ord now fin rid cfg author target s)"
| "pipeline_step mac ord rt (PL_Failure now rid) s = fst (record_rule_failure ord now rid s)"
| "pipeline_step mac ord rt (PL_Persist now) s = fst (persist_state ord now s)"
| "pipeline_step mac ord rt PL_Stats s = fst (pipeline_get_stats s)"

definition pipeline_fresh :: "pipeline \<Rightarrow> bool" where
  "pipeline_fresh s \<longleftrightarrow> (\<exists>auto k now v rs xe f w. val_init v \<and> init_pipeline auto k now v rs xe f w = Inr s)"

definition counts_agree :: "pipeline \<Rightarrow> bool" where
  "counts_agree s \<longleftrightarrow> (let t = pl_stats s; v = ev_stats (pl_validator s)
     in pt_total_received t = vs_total_events v \<and> pt_total_validated t = vs_valid_events v \<and>
        pt_total_rejected t = vs_rejected_events v \<and> pt_total_ingested t \<le> pt_total_validated t \<and>
        pt_total_rules_deployed t \<le> pt_total_rules_generated t)"

lemma counts_agree_cong:
  "counts_of s' = counts_of s \<Longrightarrow> pl_validator s' = pl_validator s \<Longrightarrow> counts_agree s' = counts_agree s"
  by (simp add: counts_agree_def counts_of_def Let_def)

lemma counts_agree_maybe_persist [simp]: "counts_agree (maybe_persist ord now s) = counts_agree s"
  by (rule counts_agree_cong) simp_all

lemma counts_agree_frame [simp]:
  "counts_agree (s\<lparr>pl_rules := rs\<rparr>) = counts_agree s" "counts_agree (s\<lparr>pl_executor := xe\<rparr>) = counts_agree s"
  "counts_agree (s\<lparr>pl_adapter := ad\<rparr>) = counts_agree s"
  by (simp_all add: counts_agree_def)

lemma counts_agree_failure: "counts_agree s \<Longrightarrow> counts_agree (fst (count_failure rid now s))"
  by (auto simp: count_failure_def Let_def counts_agree_def split: prod.split bool.split)

lemma counts_agree_event:
  assumes ok: "counts_agree s"
  shows "counts_agree (fst (process_event mac ord rt now raw src st s))"
proof -
  obtain v res where v: "validate mac ord now raw (Some src) (pl_validator s) = (v, res)" by fastforce
  have st: "ev_stats v = outcome_stats res (ev_stats (pl_validator s))"
    using validate_frame [of "pl_validator s" mac ord now raw "Some src"] v by simp
  have p: "pl_validator (count_received s) = pl_validator s" by (simp add: count_received_def)
  have c: "vs_total_events (count_code x t) = vs_total_events t" "vs_valid_events (count_code x t) = vs_valid_events t"
    "vs_rejected_events (count_code x t) = vs_rejected_events t" for x t
    by (cases x; simp)+
  show ?thesis
  proof (cases res)
    case (Inl e)
    then show ?thesis using ok v st
      by (simp add: process_event_def p Let_def counts_agree_def count_received_def total_plus1_def)
  next
    case (Inr r)
    show ?thesis
    proof (cases "vr_valid r")
      case False
      then show ?thesis using ok v st Inr
        by (simp add: process_event_def p Let_def) (simp add: counts_agree_def count_received_def total_plus1_def c Let_def)
    next
      case True
      then show ?thesis using ok v st Inr unfolding process_event_def p Let_def
        by (auto simp: split: prod.split sum.split option.split)
          (auto simp: counts_agree_def count_received_def total_plus1_def Let_def)
    qed
  qed
qed

lemma counts_agree_deploy:
  "counts_agree s \<Longrightarrow> counts_agree (fst (deploy_defense_rule ord now fin rid cfg author target s))"
  unfolding deploy_defense_rule_def deploy_rule_to_executor_def handle_deploy_outcome_def Let_def
  by (auto split: prod.split sum.split intro!: counts_agree_failure) (auto simp: counts_agree_def Let_def)

lemma counts_agree_step: "counts_agree s \<Longrightarrow> counts_agree (pipeline_step mac ord rt e s)"
proof (induction mac ord rt e s rule: pipeline_step.induct)
  case (4 mac ord rt now s)
  obtain s1 a where c: "save_duplicate_cache ord now s = (s1, a)" by fastforce
  have f: "pl_validator s1 = pl_validator s" "counts_of s1 = counts_of s"
    using save_cache_frame [of ord now s] c by (simp_all add: counts_of_def Let_def)
  have "counts_agree s1" using 4 counts_agree_cong [OF f(2,1)] by simp
  then show ?case by (auto simp: persist_state_def c counts_agree_def Let_def split: prod.split)
qed (simp_all add: counts_agree_event counts_agree_deploy record_rule_failure_def counts_agree_failure pipeline_get_stats_def
  case_prod_unfold Let_def)

interpretation pipeline: machine pipeline_fresh "pipeline_step mac ord rt" counts_agree
proof
  fix s
  assume "pipeline_fresh s"
  then obtain auto k now v rs xe f w where "val_init v" "init_pipeline auto k now v rs xe f w = Inr s"
    by (auto simp: pipeline_fresh_def)
  then show "counts_agree s"
    by (auto simp: init_pipeline_def load_duplicate_cache_def counts_agree_def val_init_def init_validator_def Let_def
      split: prod.splits sum.splits disk_file.splits)
qed (rule counts_agree_step)

text \<open>
  C9. In every reachable state of the pipeline its counters are those of its validator: events received,
  validated and rejected are the validator's, no more events are ingested than validated, and no more rules
  are deployed than generated.
\<close>

theorem pipeline_counts_agree:
  assumes "reachable pipeline_fresh (pipeline_step mac ord rt) s"
  shows "let t = pl_stats s; v = ev_stats (pl_validator s)
    in pt_total_received t = vs_total_events v \<and> pt_total_validated t = vs_valid_events v \<and>
       pt_total_rejected t = vs_rejected_events v \<and> pt_total_ingested t \<le> pt_total_validated t \<and>
       pt_total_rules_deployed t \<le> pt_total_rules_generated t"
  using pipeline.inv_reachable [OF assms] by (simp add: counts_agree_def)

definition demo_pipeline :: "validator \<Rightarrow> cache_doc disk_file \<Rightarrow> pipeline" where
  "demo_pipeline v f = projr (init_pipeline False 60 0 v (init_rule_store False False True No_File True)
     (init_executor ''/etc'' EM_DRY_RUN True True False (new_disk [] True)) f True)"

lemma load_no_file: "load (init_rule_store a b c No_File w) = (init_rule_store a b c No_File w, Inr 0)"
  by (simp add: load_def init_rule_store_def)

lemma demo_pipeline_init:
  "init_pipeline False 60 0 v (init_rule_store False False True No_File True)
     (init_executor ''/etc'' EM_DRY_RUN True True False (new_disk [] True)) f True = Inr (demo_pipeline v f)"
  by (simp add: demo_pipeline_def init_pipeline_def load_no_file)

lemma demo_pipeline_fresh: "pipeline_fresh (demo_pipeline demo_validator No_File)"
  unfolding pipeline_fresh_def demo_validator_def using demo_pipeline_init val_init_fresh by blast

theorem pipeline_counts_agree_witness:
  "let s = pipeline_step (\<lambda>_ _. []) id demo_runtime (PL_Event 1 JNull ''x'' None) (demo_pipeline demo_validator No_File)
   in pt_total_received (pl_stats s) = vs_total_events (ev_stats (pl_validator s)) \<and>
      pt_total_rejected (pl_stats s) = vs_rejected_events (ev_stats (pl_validator s))"
proof -
  have "reachable pipeline_fresh (pipeline_step (\<lambda>_ _. []) id demo_runtime)
      (pipeline_step (\<lambda>_ _. []) id demo_runtime (PL_Event 1 JNull ''x'' None) (demo_pipeline demo_validator No_File))"
    by (intro reachable.reach_step reachable.reach_init demo_pipeline_fresh)
  from pipeline_counts_agree [OF this] show ?thesis by (simp add: Let_def)
qed

subsection \<open>Audit events are lost\<close>

lemma accepted_needs_new_id:
  assumes "ev_enable_duplicate_check v" "snd (validate mac ord now ev source v) = Inr r" "vr_valid r"
  shows "\<exists>eid. event_id_of ev = Some eid \<and> eid \<notin> set (ev_duplicate_cache v)"
proof -
  obtain v' where "validate mac ord now ev source v = (v', Inr r)" using assms(2) by (cases "validate mac ord now ev source v") simp
  from validate_cache [OF assms(1) this] show ?thesis using assms(3) by auto
qed

lemma accepted_is_cached:
  assumes "ev_enable_duplicate_check v" "validate mac ord now ev source v = (v', Inr r)" "vr_valid r"
    "length (ev_duplicate_cache v) < ev_max_duplicate_cache_size v"
  shows "\<exists>eid. event_id_of ev = Some eid \<and> eid \<in> set (ev_duplicate_cache v') \<and> ev_enable_duplicate_check v'"
proof -
  obtain eid where e: "event_id_of ev = Some eid"
    "ev_duplicate_cache v' = cache_after ord (ev_max_duplicate_cache_size v) (ev_duplicate_cache v) eid"
    using validate_cache [OF assms(1,2)] assms(3) by auto
  have "same_settings v v'" using validate_frame [of v mac ord now ev source] assms(2) by simp
  then show ?thesis using e assms(1,4) by (auto simp: cache_after_def same_settings_def)
qed

text \<open>An event whose identifier the validator has seen does not get through.\<close>

lemma seen_not_ingested:
  assumes "ev_enable_duplicate_check (pl_validator s)" "event_id_of raw = Some eid" "eid \<in> set (ev_duplicate_cache (pl_validator s))"
  shows "snd (process_event mac ord rt now raw src st s) \<noteq> Inr (Some a, r)"
proof -
  obtain v res where v: "validate mac ord now raw (Some src) (pl_validator s) = (v, res)" by fastforce
  have p: "pl_validator (count_received s) = pl_validator s" by (simp add: count_received_def)
  have "\<not> vr_valid q" if "res = Inr q" for q
    using accepted_needs_new_id [OF assms(1), of mac ord now raw "Some src" q] v that assms(2,3) by auto
  then show ?thesis by (cases res) (simp_all add: process_event_def p v Let_def)
qed

text \<open>
  Every valid event from a source named after the audit chain is lost: processing it fails with an
  \<open>AttributeError\<close> when the source type is left to the pipeline, and the validator has recorded its
  identifier by then, so the same event is never ingested on a retry, whatever source or type the retry names.
\<close>

theorem audit_events_are_lost:
  assumes "validate mac ord now raw (Some src) (pl_validator s) = (v, Inr r)" "vr_valid r"
    and "contains ''audit'' (lower src) \<or> contains ''hmac'' (lower src)"
    and "\<forall>w\<in>set [''seccomp'', ''kvm'', ''vm_exit'']. \<not> contains w (lower src)"
    and "ev_enable_duplicate_check (pl_validator s)"
    and "length (ev_duplicate_cache (pl_validator s)) < ev_max_duplicate_cache_size (pl_validator s)"
  shows "snd (process_event mac ord rt now raw src None s) = Inl AttributeError \<and>
    snd (process_event mac ord rt now' raw src' st' (fst (process_event mac ord rt now raw src None s))) \<noteq> Inr (Some a, r')"
proof -
  have p: "pl_validator (count_received s) = pl_validator s" by (simp add: count_received_def)
  have a: "auto_ingest rt now x src ad = (ad, Inl AttributeError)" for x ad
    using assms(3,4) by (simp add: auto_ingest_def Let_def)
  have e: "snd (process_event mac ord rt now raw src None s) = Inl AttributeError"
    "pl_validator (fst (process_event mac ord rt now raw src None s)) = v"
    using assms(1,2) by (simp_all add: process_event_def p a Let_def)
  obtain eid where "event_id_of raw = Some eid" "eid \<in> set (ev_duplicate_cache v)" "ev_enable_duplicate_check v"
    using accepted_is_cached [OF assms(5,1,2,6)] by blast
  then show ?thesis using e seen_not_ingested by metis
qed

lemma audit_accepted_case:
  "case snd (validate (\<lambda>_ _. []) id 1000 (JObj demo_event) (Some ''audit_chain'')
     (init_validator [] None 100 False True 10)) of Inr r \<Rightarrow> vr_valid r | Inl e \<Rightarrow> False"
  by (simp add: validate_def effective_source_def init_validator_def build_validation_chain_def
    validate_source_def check_rate_limit_def validate_structure_def validate_content_def detect_malicious_patterns_def
    check_duplicate_def demo_scan demo_event_def REQUIRED_FIELDS_def FIELD_LENGTH_LIMITS_def VALID_SEVERITIES_def
    dget_or_def lower_def lower_char_def ok_result_def Let_def)

lemma demo_pipeline_validator: "pl_validator (demo_pipeline v No_File) = v"
  by (simp add: demo_pipeline_def init_pipeline_def load_no_file load_duplicate_cache_def)

lemma demo_pipeline_writable: "pl_writable (demo_pipeline v No_File)" "rs_writable (pl_rules (demo_pipeline v No_File))"
  unfolding demo_pipeline_def init_pipeline_def load_no_file
  by (simp_all add: load_duplicate_cache_def) (simp add: init_rule_store_def)

theorem audit_events_are_lost_witness:
  "snd (process_event (\<lambda>_ _. []) id demo_runtime 1000 (JObj demo_event) ''audit_chain'' None
     (demo_pipeline demo_validator No_File)) = Inl AttributeError"
proof -
  obtain v r where v: "validate (\<lambda>_ _. []) id 1000 (JObj demo_event) (Some ''audit_chain'') demo_validator = (v, Inr r)" "vr_valid r"
    using audit_accepted_case unfolding demo_validator_def [symmetric]
    by (cases "validate (\<lambda>_ _. []) id 1000 (JObj demo_event) (Some ''audit_chain'') demo_validator"; cases "snd (validate (\<lambda>_ _. []) id 1000 (JObj demo_event) (Some ''audit_chain'') demo_validator)") auto
  have low: "lower ''audit_chain'' = ''audit_chain''" by code_simp
  have "validate (\<lambda>_ _. []) id 1000 (JObj demo_event) (Some ''audit_chain'') (pl_validator (demo_pipeline demo_validator No_File)) = (v, Inr r)"
    using v(1) by (simp add: demo_pipeline_validator)
  moreover have "\<not> contains ''seccomp'' ''audit_chain''" "\<not> contains ''kvm'' ''audit_chain''" "\<not> contains ''vm_exit'' ''audit_chain''"
    by code_simp+
  moreover have "contains ''audit'' ''audit_chain''" by code_simp
  moreover have "ev_enable_duplicate_check demo_validator" "length (ev_duplicate_cache demo_validator) < ev_max_duplicate_cache_size demo_validator"
    by (simp_all add: demo_validator_def init_validator_def)
  ultimately show ?thesis
    using audit_events_are_lost [of "\<lambda>_ _. []" id 1000 "JObj demo_event" "''audit_chain''" "demo_pipeline demo_validator No_File" v r] v(2)
    by (simp add: demo_pipeline_validator low)
qed

subsection \<open>Restart\<close>

lemma set_fold_insert: "set (fold (\<lambda>x c. if x \<in> set c then c else c @ [x]) xs c) = set c \<union> set xs"
  by (induction xs arbitrary: c) auto

text \<open>
  C14. Duplicates stay known across a restart: when a pipeline that holds at most 10000 identifiers saves
  its state and a new one with an empty validator is started on the same file, the new one knows exactly the
  identifiers of the old one, and an event with one of them is not ingested.
\<close>

theorem duplicates_survive_restart:
  assumes "snd (persist_state ord now s)" "set (ord (ev_duplicate_cache (pl_validator s))) = set (ev_duplicate_cache (pl_validator s))"
    and "length (ord (ev_duplicate_cache (pl_validator s))) \<le> 10000"
    and "init_pipeline auto k now' v rs xe (pl_cache_file (fst (persist_state ord now s))) w = Inr t"
    and "ev_duplicate_cache v = []" "ev_enable_duplicate_check v"
    and "event_id_of raw = Some eid" "eid \<in> set (ev_duplicate_cache (pl_validator s))"
  shows "set (ev_duplicate_cache (pl_validator t)) = set (ev_duplicate_cache (pl_validator s)) \<and>
    snd (process_event mac ord rt now'' raw src st t) \<noteq> Inr (Some a, r)"
proof -
  have w: "pl_writable s" using assms(1) by (auto simp: persist_state_def save_duplicate_cache_def Let_def split: if_splits prod.splits)
  have f: "pl_cache_file (fst (persist_state ord now s)) =
      Doc \<lparr>cd_event_ids = Some (ord (ev_duplicate_cache (pl_validator s))), cd_saved_at = now\<rparr>"
    using assms(3) w by (simp add: persist_state_def save_duplicate_cache_def Let_def split: prod.split)
  have t: "ev_duplicate_cache (pl_validator t) = fold (\<lambda>x c. if x \<in> set c then c else c @ [x]) (ord (ev_duplicate_cache (pl_validator s))) []"
    "ev_enable_duplicate_check (pl_validator t)"
    using assms(4-6) unfolding f
    by (auto simp: init_pipeline_def load_duplicate_cache_def get_default_def Let_def split: prod.splits sum.splits)
  then have "set (ev_duplicate_cache (pl_validator t)) = set (ev_duplicate_cache (pl_validator s))"
    by (simp add: set_fold_insert assms(2))
  then show ?thesis using seen_not_ingested [OF t(2) assms(7)] assms(8) by simp
qed

theorem duplicates_survive_restart_witness:
  "set (ev_duplicate_cache (pl_validator (demo_pipeline demo_validator (pl_cache_file (fst (persist_state id 5
     (demo_pipeline (demo_validator\<lparr>ev_duplicate_cache := [''x'', []]\<rparr>) No_File))))))) = {''x'', []}"
proof -
  let ?s = "demo_pipeline (demo_validator\<lparr>ev_duplicate_cache := [''x'', []]\<rparr>) No_File"
  have p: "snd (persist_state id 5 ?s)"
    by (simp add: persist_state_def save_duplicate_cache_def persist_def demo_pipeline_writable Let_def)
  have "event_id_of (JObj demo_event) = Some []" by (simp add: event_id_of_def demo_event_def dget_or_def)
  from duplicates_survive_restart [OF p _ _ demo_pipeline_init _ _ this]
  show ?thesis by (simp add: demo_pipeline_validator) (simp add: demo_validator_def init_validator_def)
qed

subsection \<open>Deploying and failing\<close>

lemma deploy_then_failure:
  "snd (record_failure rid t (fst (deploy_rule rid cfg author now s))) = False"
proof -
  let ?s = "fst (deploy_rule rid cfg author now s)"
  let ?v = "snd (deploy_rule rid cfg author now s)"
  have v: "active_version ?s rid = Some ?v" by (rule deploy_rule_active(1))
  have "rv_failure_count ?v = 0" "rv_failure_threshold ?v = 5" by (simp_all add: deploy_rule_active(2) RuleVersion_def)
  then show ?thesis using v by (auto simp: record_failure_def active_version_def Let_def split: option.split)
qed

text \<open>
  Deploying through the pipeline never meets or trips the breaker: whatever the state (the rule tripped
  before, the executor failing every time), no deployment is refused as circuit broken, and none adds a circuit
  break or a rollback. Every deployment starts a new version, whose failures are counted from zero.
\<close>

theorem deployments_never_trip:
  fixes s :: pipeline
  shows "(\<forall>i v. snd (deploy_defense_rule ord now fin rid cfg author target s) \<noteq> Inr (Rule_Circuit_Broken i v)) \<and>
    pt_total_circuit_breaks (pl_stats (fst (deploy_defense_rule ord now fin rid cfg author target s))) = pt_total_circuit_breaks (pl_stats s) \<and>
    pt_total_rollbacks (pl_stats (fst (deploy_defense_rule ord now fin rid cfg author target s))) = pt_total_rollbacks (pl_stats s)"
proof -
  obtain rs v where d: "deploy_rule rid cfg author now (pl_rules s) = (rs, v)" by fastforce
  have b: "\<not> is_circuit_broken rid rs" using deploy_not_broken [of rid cfg author now "pl_rules s"] d by simp
  have f: "\<not> snd (record_failure rid fin rs)" using deploy_then_failure [of rid fin cfg author now "pl_rules s"] d by simp
  have m: "pt_total_circuit_breaks (pl_stats (maybe_persist ord t x)) = pt_total_circuit_breaks (pl_stats x)"
    "pt_total_rollbacks (pl_stats (maybe_persist ord t x)) = pt_total_rollbacks (pl_stats x)" for t x
    using maybe_persist_frame(2) [of ord t x] by (simp_all add: counts_of_def Let_def)
  have c: "fst (count_failure rid fin x) = x\<lparr>pl_rules := fst (record_failure rid fin rs)\<rparr>" if "pl_rules x = rs" for x
    using f that by (cases "record_failure rid fin rs") (simp add: count_failure_def)
  show ?thesis
    using b unfolding deploy_defense_rule_def deploy_rule_to_executor_def handle_deploy_outcome_def Let_def d
    by (auto simp: m c split: prod.split sum.split)
qed

lemma nth_update_state:
  "rv_state (xs ! j) = st \<Longrightarrow> rv_state (xs[k := (xs ! k)\<lparr>rv_circuit_state := c, rv_failure_count := n\<rparr>] ! j) = st"
  by (cases "k < length xs"; cases "j = k") (auto simp: list_update_beyond)

lemma rollback_finds_active:
  assumes wf: "wf_store s" and j: "j < length (versions s rid) - 1" "rv_state (versions s rid ! j) = RS_ACTIVE"
  shows "\<exists>v. snd (rollback_to_previous rid s) = Some v \<and> active_version (fst (rollback_to_previous rid s)) rid = Some v \<and>
    rv_state v = RS_ACTIVE \<and> rv_circuit_state v = RC_CLOSED"
proof -
  let ?f = "find_last_index (\<lambda>v. rv_state v = RS_ACTIVE) (butlast (versions s rid))"
  have "butlast (versions s rid) ! j \<in> set (butlast (versions s rid))" using j(1) by (intro nth_mem) simp
  then have "?f \<noteq> None" using j unfolding find_last_index_None by (auto simp: nth_butlast)
  then obtain i where i: "?f = Some i" by blast
  note g = find_last_index_SomeD(1,2) [OF i]
  then have "rv_state (versions s rid ! i) = RS_ACTIVE" by (simp add: nth_butlast)
  then show ?thesis using rollback_to_previous_spec [OF wf, of rid] i by auto
qed

text \<open>
  A trip recorded through the pipeline rolls back to an earlier version whatever the store's own
  setting says: if some earlier version is \<open>ACTIVE\<close>, one is active afterwards with a closed breaker, also
  when automatic rollback is switched off.
\<close>

theorem pipeline_rolls_back_regardless:
  assumes "wf_store (pl_rules s)" "snd (record_rule_failure ord now rid s)"
    and "j < length (versions (pl_rules s) rid) - 1" "rv_state (versions (pl_rules s) rid ! j) = RS_ACTIVE"
    and "dget (rs_active (pl_rules s)) rid \<noteq> Some j"
  shows "\<exists>v. active_version (pl_rules (fst (record_rule_failure ord now rid s))) rid = Some v \<and>
    rv_state v = RS_ACTIVE \<and> rv_circuit_state v = RC_CLOSED"
proof -
  obtain rs where rs: "record_failure rid now (pl_rules s) = (rs, True)"
    using assms(2) by (auto simp: record_rule_failure_def count_failure_def split: prod.splits bool.splits)
  obtain i v s2 where f: "dget (rs_active (pl_rules s)) rid = Some i" "rv_state v = RS_CIRCUIT_BROKEN"
    "wf_store s2" "versions s2 = (versions (pl_rules s))(rid := (versions (pl_rules s) rid)[i := v])"
    "rs = update_stats (if rs_auto_rollback (pl_rules s) then fst (rollback_to_previous rid s2) else s2)"
    using record_failure_True [OF assms(1) rs] by metis
  have j: "j < length (versions s2 rid) - 1" "rv_state (versions s2 rid ! j) = RS_ACTIVE"
    using assms(3-5) f(1,4) by auto
  have "j < length (versions rs rid) - 1 \<and> rv_state (versions rs rid ! j) = RS_ACTIVE"
  proof (cases "rs_auto_rollback (pl_rules s)")
    case True
    show ?thesis
      using rollback_to_previous_spec [OF f(3), of rid] j True f(5)
      by (auto simp: nth_update_state split: option.splits)
  qed (use j f(5) in simp)
  moreover have "wf_store rs" using wf_record_failure [OF assms(1), of rid now] rs by simp
  ultimately obtain u where u: "snd (rollback_to_previous rid rs) = Some u"
    "active_version (fst (rollback_to_previous rid rs)) rid = Some u" "rv_state u = RS_ACTIVE" "rv_circuit_state u = RC_CLOSED"
    using rollback_finds_active by blast
  have a: "active_version (auto_persist now x) = active_version x" for x
    by (simp add: active_version_def fun_eq_iff)
  obtain rs2 where r2: "rollback_to_previous rid rs = (rs2, Some u)" using u(1) by (cases "rollback_to_previous rid rs") simp
  show ?thesis
    using u r2 by (simp add: record_rule_failure_def count_failure_def rs rollback_rule_def a Let_def)
qed

definition two_versions :: rule_store where
  "two_versions = (init_rule_store False False True No_File True)\<lparr>
     rs_rules := [(''r'', [RuleVersion ''r-v1'' ''r'' JNull 1 ''ops'' RS_ACTIVE,
       (RuleVersion ''r-v2'' ''r'' JNull 2 ''ops'' RS_MONITORING)\<lparr>rv_failure_count := 4\<rparr>])],
     rs_active := [(''r'', 1)]\<rparr>"

theorem pipeline_rolls_back_regardless_witness:
  "\<not> rs_auto_rollback two_versions \<and>
   (\<exists>v. active_version (pl_rules (fst (record_rule_failure id 9 ''r''
     ((demo_pipeline demo_validator No_File)\<lparr>pl_rules := two_versions\<rparr>)))) ''r'' = Some v \<and>
     rv_state v = RS_ACTIVE \<and> rv_circuit_state v = RC_CLOSED)"
proof -
  let ?s = "(demo_pipeline demo_validator No_File)\<lparr>pl_rules := two_versions\<rparr>"
  have v: "versions two_versions ''r'' = [RuleVersion ''r-v1'' ''r'' JNull 1 ''ops'' RS_ACTIVE,
       (RuleVersion ''r-v2'' ''r'' JNull 2 ''ops'' RS_MONITORING)\<lparr>rv_failure_count := 4\<rparr>]"
    "rs_active two_versions = [(''r'', 1)]" "rs_breaker_enabled two_versions" "\<not> rs_auto_rollback two_versions"
    by (simp_all add: two_versions_def versions_def dget_or_def init_rule_store_def)
  have wf: "wf_store two_versions"
    by (simp add: two_versions_def wf_store_def tables_ok_def init_rule_store_def file_ok_def wf_dict_def version_ok_def RuleVersion_def)
  have "snd (record_failure ''r'' 9 two_versions)"
    using v by (simp add: record_failure_def RuleVersion_def Let_def)
  then have "snd (record_rule_failure id 9 ''r'' ?s)"
    by (cases "record_failure ''r'' 9 two_versions") (simp add: record_rule_failure_def count_failure_def Let_def split: prod.split)
  from pipeline_rolls_back_regardless [OF _ this, of 0] show ?thesis
    using wf v by (simp add: RuleVersion_def)
qed

end
