(* ===== verification/Isolation_Gateway.thy ===== *)
theory Isolation_Gateway
  imports Photon_Prelude "HOL-Library.Word"
begin

text \<open>
  \<open>server/gateway/isolation_gateway.py\<close>: the proxy all traffic of the sandboxes passes. Addresses are
  32-bit words and network data lists of bytes. The clients run in threads of their own, so the proxy is a
  machine whose steps (reading the counter of connections, counting up, deciding on the header, connecting,
  forwarding a chunk) of different connections interleave. What sockets deliver, whether connecting and
  sending succeed, the answers of DNS servers and the clock are arguments; \<open>mac\<close> is the keyed hash
  of the audit log. Log messages, the command line and opening the listening sockets are left out.
\<close>

unbundle bit_operations_syntax

type_synonym byte = "8 word"

subsection \<open>Configuration\<close>

record gateway_config =
  gc_authorized_dns :: "string list"
  gc_enable_dns_hijack :: bool
  gc_max_connections :: int
  gc_max_new_per_second :: int
  gc_max_bandwidth_mbps :: int
  gc_max_bytes :: int
  gc_domain_whitelist :: "string list"
  gc_domain_blacklist :: "string list"
  gc_ip_whitelist :: "string list"
  gc_ip_blacklist :: "string list"
  gc_block_internal :: bool
  gc_audit_key :: string

definition GatewayConfig :: gateway_config where
  "GatewayConfig =
     \<lparr>gc_authorized_dns = [''8.8.8.8'', ''1.1.1.1''], gc_enable_dns_hijack = True, gc_max_connections = 64,
      gc_max_new_per_second = 10, gc_max_bandwidth_mbps = 100, gc_max_bytes = 10 * 1024 * 1024,
      gc_domain_whitelist = [], gc_domain_blacklist = [''*.evil.com'', ''*.malware.*''], gc_ip_whitelist = [],
      gc_ip_blacklist = [], gc_block_internal = True, gc_audit_key = ''photon-gateway-audit-key''\<rparr>"

subsection \<open>Addresses\<close>

definition ip_of_bytes :: "byte \<Rightarrow> byte \<Rightarrow> byte \<Rightarrow> byte \<Rightarrow> 32 word" where
  "ip_of_bytes a b c d = of_nat (unat a * 2 ^ 24 + unat b * 2 ^ 16 + unat c * 2 ^ 8 + unat d)"

definition dotted :: "byte \<Rightarrow> byte \<Rightarrow> byte \<Rightarrow> byte \<Rightarrow> string" where
  "dotted a b c d = join ''.'' (map (\<lambda>x. dec_nat (unat x)) [a, b, c, d])"

text \<open>A network is its address and the length of its prefix.\<close>

definition INTERNAL_NETWORKS :: "(32 word \<times> nat) list" where
  "INTERNAL_NETWORKS =
     [(ip_of_bytes 10 0 0 0, 8), (ip_of_bytes 172 16 0 0, 12), (ip_of_bytes 192 168 0 0, 16), (ip_of_bytes 127 0 0 0, 8),
      (ip_of_bytes 169 254 0 0, 16), (ip_of_bytes 0 0 0 0, 8), (ip_of_bytes 100 64 0 0, 10), (ip_of_bytes 192 0 0 0, 24),
      (ip_of_bytes 192 0 2 0, 24), (ip_of_bytes 198 51 100 0, 24), (ip_of_bytes 203 0 113 0, 24),
      (ip_of_bytes 224 0 0 0, 4), (ip_of_bytes 240 0 0 0, 4)]"

definition in_network :: "32 word \<Rightarrow> 32 word \<times> nat \<Rightarrow> bool" where
  "in_network ip net = (case net of (a, n) \<Rightarrow> drop_bit (32 - n) ip = drop_bit (32 - n) a)"

datatype ip_reason = Cloud_Metadata | Internal_Network "32 word \<times> nat" | Public_Address

definition METADATA_IP :: "32 word" where
  "METADATA_IP = ip_of_bytes 169 254 169 254"

definition is_internal_ip :: "32 word \<Rightarrow> bool \<times> ip_reason" where
  "is_internal_ip ip =
     (if ip = METADATA_IP then (True, Cloud_Metadata)
      else case find (in_network ip) INTERNAL_NETWORKS of
             Some n \<Rightarrow> (True, Internal_Network n)
           | None \<Rightarrow> (False, Public_Address))"

subsection \<open>Names\<close>

text \<open>\<open>fnmatch\<close>: a star, a question mark, and classes of characters with ranges.\<close>

fun in_class :: "string \<Rightarrow> char \<Rightarrow> bool" where
  "in_class [] c = False"
| "in_class [a] c = (c = a)"
| "in_class [a, b] c = (c = a \<or> c = b)"
| "in_class (a # b # e # r) c =
     (if b = CHR ''-'' then (of_char a \<le> (of_char c :: nat) \<and> of_char c \<le> (of_char e :: nat)) \<or> in_class r c
      else c = a \<or> in_class (b # e # r) c)"

text \<open>After an opening bracket: whether the class is negated, its text, and the rest of the pattern.\<close>

definition split_class :: "string \<Rightarrow> (bool \<times> string \<times> string) option" where
  "split_class p =
     (let neg = (p \<noteq> [] \<and> hd p = CHR ''!''); q = (if neg then tl p else p);
          (first, r) = (case q of c # r \<Rightarrow> if c = CHR '']'' then ([c], r) else ([], q) | [] \<Rightarrow> ([], []));
          body = takeWhile (\<lambda>c. c \<noteq> CHR '']'') r
      in if length body < length r then Some (neg, first @ body, drop (length body + 1) r) else None)"

function glob :: "string \<Rightarrow> string \<Rightarrow> bool" where
  "glob [] s = (s = [])"
| "glob (c # p) s =
     (if c = CHR ''*'' then (if glob p s then True else if s = [] then False else glob (c # p) (tl s))
      else if c = CHR ''?'' then s \<noteq> [] \<and> glob p (tl s)
      else if c = CHR ''['' \<and> split_class p \<noteq> None
      then (case split_class p of
              Some (neg, cls, rest) \<Rightarrow>
                s \<noteq> [] \<and> in_class cls (hd s) \<noteq> neg \<and> glob (drop (length p - length rest) p) (tl s)
            | None \<Rightarrow> False)
      else s \<noteq> [] \<and> hd s = c \<and> glob p (tl s))"
  by pat_completeness auto
termination
  by (relation "measure (\<lambda>(p, s). length p + length s)") auto

declare glob.simps [simp del]

definition ends_with :: "string \<Rightarrow> string \<Rightarrow> bool" where
  "ends_with suf s \<longleftrightarrow> drop (length s - length suf) s = suf"

definition domain_matches :: "string \<Rightarrow> string \<Rightarrow> bool" where
  "domain_matches domain pattern \<longleftrightarrow>
     pattern = domain \<or>
     (if take 2 pattern = ''*.'' then ends_with (drop 1 pattern) domain \<or> domain = drop 2 pattern
      else glob pattern domain)"

subsection \<open>Bandwidth\<close>

record token_bucket =
  tb_rate :: rat
  tb_max :: rat
  tb_tokens :: rat
  tb_last :: time

definition init_bucket :: "time \<Rightarrow> rat \<Rightarrow> rat \<Rightarrow> token_bucket" where
  "init_bucket now rate m = \<lparr>tb_rate = rate, tb_max = m, tb_tokens = m, tb_last = now\<rparr>"

definition consume :: "time \<Rightarrow> rat \<Rightarrow> token_bucket \<Rightarrow> token_bucket \<times> bool" where
  "consume now n b =
     (let t = min (tb_max b) (tb_tokens b + (now - tb_last b) * tb_rate b); b1 = b\<lparr>tb_tokens := t, tb_last := now\<rparr>
      in if n \<le> t then (b1\<lparr>tb_tokens := t - n\<rparr>, True) else (b1, False))"

text \<open>Waiting polls the bucket; the argument lists the clock at each round before the deadline.\<close>

fun wait_for_tokens :: "time list \<Rightarrow> rat \<Rightarrow> token_bucket \<Rightarrow> token_bucket \<times> bool" where
  "wait_for_tokens [] n b = (b, False)"
| "wait_for_tokens (t # ts) n b = (case consume t n b of (b', True) \<Rightarrow> (b', True) | (b', False) \<Rightarrow> wait_for_tokens ts n b')"

subsection \<open>Connections\<close>

record connection_info =
  ci_conn_id :: string
  ci_sandbox_id :: string
  ci_tenant_id :: string
  ci_token_id :: string
  ci_src :: "string \<times> nat"
  ci_dest_ip :: string
  ci_dest_port :: nat
  ci_dest_domain :: string
  ci_protocol :: string
  ci_start_time :: time
  ci_bytes_sent :: int
  ci_bytes_received :: int
  ci_decision :: string

text \<open>The active connections of a sandbox are a set of identifiers, the recent ones a list of times.\<close>

record tracker =
  ct_max :: int
  ct_max_new :: int
  ct_active :: "(string, string list) dict"
  ct_recent :: "(string, time list) dict"

datatype limit_reason = Too_Many_Connections nat | Too_Many_New nat | Acquired

definition try_acquire :: "time \<Rightarrow> string \<Rightarrow> string \<Rightarrow> tracker \<Rightarrow> tracker \<times> bool \<times> limit_reason" where
  "try_acquire now box cid t =
     (let n = length (dget_or (ct_active t) box []); q = dropWhile (\<lambda>x. now - x > 1) (dget_or (ct_recent t) box [])
      in if int n \<ge> ct_max t then (t, False, Too_Many_Connections n)
         else if int (length q) \<ge> ct_max_new t then (t\<lparr>ct_recent := dset box q (ct_recent t)\<rparr>, False, Too_Many_New (length q))
         else (t\<lparr>ct_active := dset box (List.insert cid (dget_or (ct_active t) box [])) (ct_active t),
                 ct_recent := dset box (q @ [now]) (ct_recent t)\<rparr>, True, Acquired))"

definition release :: "string \<Rightarrow> string \<Rightarrow> tracker \<Rightarrow> tracker" where
  "release box cid t =
     (case dget (ct_active t) box of
        None \<Rightarrow> t
      | Some xs \<Rightarrow> t\<lparr>ct_active := dset box (removeAll cid xs) (ct_active t)\<rparr>)"

definition active_count :: "string \<Rightarrow> tracker \<Rightarrow> nat" where
  "active_count box t = length (dget_or (ct_active t) box [])"

subsection \<open>Audit log\<close>

record audit_entry =
  ae_timestamp :: time
  ae_conn_id :: string
  ae_sandbox_id :: string
  ae_tenant_id :: string
  ae_token_id :: string
  ae_src :: string
  ae_dest :: string
  ae_domain :: string
  ae_protocol :: string
  ae_decision :: string
  ae_reason :: string
  ae_bytes_sent :: int
  ae_bytes_received :: int
  ae_duration :: rat
  ae_hash :: string
  ae_prev_hash :: string

text \<open>The file is the list of its entries; an entry that cannot be written is dropped, its hash is kept.\<close>

record audit_log =
  al_key :: string
  al_last_hash :: string
  al_file :: "audit_entry list"
  al_writable :: bool

definition init_audit :: "string \<Rightarrow> audit_entry list \<Rightarrow> bool \<Rightarrow> audit_log" where
  "init_audit key file w = \<lparr>al_key = key, al_last_hash = replicate 64 CHR ''0'', al_file = file, al_writable = w\<rparr>"

definition audit_text :: "string \<Rightarrow> string \<Rightarrow> string \<Rightarrow> string \<Rightarrow> string \<Rightarrow> string \<Rightarrow> string \<Rightarrow> string \<Rightarrow> string" where
  "audit_text cid tenant token dest domain decision reason prev =
     join ''|'' [cid, tenant, token, dest, domain, decision, reason, prev]"

definition endpoint :: "string \<times> nat \<Rightarrow> string" where
  "endpoint a = fst a @ '':'' @ dec_nat (snd a)"

definition log_audit :: "(string \<Rightarrow> string \<Rightarrow> string) \<Rightarrow> time \<Rightarrow> connection_info \<Rightarrow> string \<Rightarrow> audit_log \<Rightarrow> audit_log" where
  "log_audit mac now c reason l =
     (let dest = endpoint (ci_dest_ip c, ci_dest_port c);
          h = mac (al_key l) (audit_text (ci_conn_id c) (ci_tenant_id c) (ci_token_id c) dest (ci_dest_domain c)
                (ci_decision c) reason (al_last_hash l));
          e = \<lparr>ae_timestamp = now, ae_conn_id = ci_conn_id c, ae_sandbox_id = ci_sandbox_id c, ae_tenant_id = ci_tenant_id c,
               ae_token_id = ci_token_id c, ae_src = endpoint (ci_src c), ae_dest = dest, ae_domain = ci_dest_domain c,
               ae_protocol = ci_protocol c, ae_decision = ci_decision c, ae_reason = reason,
               ae_bytes_sent = ci_bytes_sent c, ae_bytes_received = ci_bytes_received c,
               ae_duration = now - ci_start_time c, ae_hash = h, ae_prev_hash = al_last_hash l\<rparr>
      in l\<lparr>al_last_hash := h, al_file := (if al_writable l then al_file l @ [e] else al_file l)\<rparr>)"

subsection \<open>DNS\<close>

definition lower_byte :: "byte \<Rightarrow> string" where
  "lower_byte b = (if b < 128 then [lower_char (char_of (unat b))] else [])"

text \<open>The labels from an offset on, up to the end, an empty label or a compression pointer.\<close>

function labels :: "byte list \<Rightarrow> string list" where
  "labels [] = []"
| "labels (n # bs) =
     (if n = 0 \<or> n AND 0xC0 \<noteq> 0 then [] else concat (map lower_byte (take (unat n) bs)) # labels (drop (unat n) bs))"
  by pat_completeness auto
termination
  by (relation "measure length") auto

definition parse_domain :: "byte list \<Rightarrow> string" where
  "parse_domain data = (if length data < 12 then [] else join ''.'' (labels (drop 12 data)))"

definition refused :: "byte list \<Rightarrow> byte list option" where
  "refused data = (if length data \<ge> 2 then Some (take 2 data @ [0x80, 0x05] @ take 8 (drop 4 data)) else None)"

text \<open>\<open>upstream\<close> is what the server at an address answers, if it does.\<close>

fun forward_query :: "(string \<Rightarrow> byte list \<Rightarrow> byte list option) \<Rightarrow> string list \<Rightarrow> byte list \<Rightarrow> byte list option" where
  "forward_query upstream [] data = refused data"
| "forward_query upstream (srv # srvs) data =
     (case upstream srv data of Some r \<Rightarrow> Some r | None \<Rightarrow> forward_query upstream srvs data)"

definition handle_query :: "gateway_config \<Rightarrow> (string \<Rightarrow> byte list \<Rightarrow> byte list option) \<Rightarrow> byte list \<Rightarrow> byte list option" where
  "handle_query cfg upstream data =
     (let d = parse_domain data
      in if list_ex (\<lambda>p. d \<noteq> [] \<and> domain_matches d p) (gc_domain_blacklist cfg) then refused data
         else forward_query upstream (gc_authorized_dns cfg) data)"

subsection \<open>The proxy\<close>

text \<open>
  A client's thread: it reads its identifier, counts up, decides on the header, connects, forwards, and ends.
\<close>

datatype phase = Ph_Accepted | Ph_Counted | Ph_Connecting | Ph_Open | Ph_Ending | Ph_Closed

record client =
  cl_conn_id :: string
  cl_addr :: "string \<times> nat"
  cl_phase :: phase
  cl_info :: "connection_info option"
  cl_to_dest :: "byte list"
  cl_to_client :: "byte list"

record gateway =
  gw_config :: gateway_config
  gw_counter :: nat
  gw_tracker :: tracker
  gw_audit :: audit_log
  gw_bucket :: "token_bucket option"
  gw_clients :: "client list"

definition init_gateway :: "time \<Rightarrow> gateway_config \<Rightarrow> audit_entry list \<Rightarrow> bool \<Rightarrow> gateway" where
  "init_gateway now cfg file w =
     (let rate = of_int (gc_max_bandwidth_mbps cfg * 1024 * 1024 div 8)
      in \<lparr>gw_config = cfg, gw_counter = 0,
          gw_tracker = \<lparr>ct_max = gc_max_connections cfg, ct_max_new = gc_max_new_per_second cfg, ct_active = [], ct_recent = []\<rparr>,
          gw_audit = init_audit (gc_audit_key cfg) file w,
          gw_bucket = (if gc_max_bandwidth_mbps cfg > 0 then Some (init_bucket now rate (rate * 2)) else None),
          gw_clients = []\<rparr>)"

definition accept_client :: "string \<times> nat \<Rightarrow> gateway \<Rightarrow> gateway" where
  "accept_client addr s = s\<lparr>gw_clients := gw_clients s @
     [\<lparr>cl_conn_id = ''conn-'' @ dec_nat (gw_counter s), cl_addr = addr, cl_phase = Ph_Accepted, cl_info = None,
       cl_to_dest = [], cl_to_client = []\<rparr>]\<rparr>"

definition set_client :: "nat \<Rightarrow> client \<Rightarrow> gateway \<Rightarrow> gateway" where
  "set_client i c s = s\<lparr>gw_clients := (gw_clients s)[i := c]\<rparr>"

definition count_client :: "nat \<Rightarrow> gateway \<Rightarrow> gateway" where
  "count_client i s = (set_client i ((gw_clients s ! i)\<lparr>cl_phase := Ph_Counted\<rparr>) s)\<lparr>gw_counter := gw_counter s + 1\<rparr>"

definition sandbox_of :: "client \<Rightarrow> string" where
  "sandbox_of c = ''sandbox-'' @ fst (cl_addr c)"

text \<open>The header: four bytes of address, two of port.\<close>

fun parse_header :: "byte list \<Rightarrow> (32 word \<times> string \<times> nat) option" where
  "parse_header (a # b # c # d # p # q # _) = Some (ip_of_bytes a b c d, dotted a b c d, unat p * 256 + unat q)"
| "parse_header _ = None"

definition new_info :: "time \<Rightarrow> client \<Rightarrow> string \<Rightarrow> nat \<Rightarrow> connection_info" where
  "new_info now c ip port =
     \<lparr>ci_conn_id = cl_conn_id c, ci_sandbox_id = sandbox_of c, ci_tenant_id = ''unknown'', ci_token_id = ''unknown'',
      ci_src = cl_addr c, ci_dest_ip = ip, ci_dest_port = port, ci_dest_domain = [], ci_protocol = ''tcp'',
      ci_start_time = now, ci_bytes_sent = 0, ci_bytes_received = 0, ci_decision = ''ALLOW''\<rparr>"

definition network_text :: "32 word \<times> nat \<Rightarrow> string" where
  "network_text net = (let a = unat (fst net)
     in join ''.'' (map (\<lambda>k. dec_nat (a div 2 ^ k mod 256)) [24, 16, 8, 0]) @ ''/'' @ dec_nat (snd net))"

fun ip_reason_text :: "ip_reason \<Rightarrow> string" where
  "ip_reason_text Cloud_Metadata = ''cloud metadata (HIGH RISK)''"
| "ip_reason_text (Internal_Network n) = ''internal network '' @ network_text n"
| "ip_reason_text Public_Address = ''public''"

fun limit_reason_text :: "tracker \<Rightarrow> limit_reason \<Rightarrow> string" where
  "limit_reason_text t (Too_Many_Connections n) = ''max connections exceeded ('' @ dec_nat n @ ''/'' @ dec_int (ct_max t) @ '')''"
| "limit_reason_text t (Too_Many_New n) = ''rate limit exceeded ('' @ dec_nat n @ ''/'' @ dec_int (ct_max_new t) @ ''/s)''"
| "limit_reason_text t Acquired = ''ok''"

text \<open>A connection that is refused is logged with a decision and a reason.\<close>

definition refuse :: "(string \<Rightarrow> string \<Rightarrow> string) \<Rightarrow> time \<Rightarrow> nat \<Rightarrow> connection_info \<Rightarrow> string \<Rightarrow> string \<Rightarrow> gateway \<Rightarrow> gateway" where
  "refuse mac now i info decision reason s =
     (let info' = info\<lparr>ci_decision := decision\<rparr>
      in (set_client i ((gw_clients s ! i)\<lparr>cl_phase := Ph_Closed, cl_info := Some info'\<rparr>) s)
           \<lparr>gw_audit := log_audit mac now info' reason (gw_audit s)\<rparr>)"

definition decide_client :: "(string \<Rightarrow> string \<Rightarrow> string) \<Rightarrow> time \<Rightarrow> nat \<Rightarrow> byte list \<Rightarrow> gateway \<Rightarrow> gateway" where
  "decide_client mac now i header s =
     (let c = gw_clients s ! i; cfg = gw_config s
      in case parse_header header of
           None \<Rightarrow> set_client i (c\<lparr>cl_phase := Ph_Closed\<rparr>) s
         | Some (ip, ip_text, port) \<Rightarrow>
           (let info = new_info now c ip_text port; (internal, why) = is_internal_ip ip
            in if gc_block_internal cfg \<and> internal
               then refuse mac now i info ''DENY'' (''internal network blocked: '' @ ip_reason_text why) s
               else if ip_text \<in> set (gc_ip_blacklist cfg) then refuse mac now i info ''DENY'' ''IP blacklisted'' s
               else (let (t, ok, reason) = try_acquire now (sandbox_of c) (cl_conn_id c) (gw_tracker s); s1 = s\<lparr>gw_tracker := t\<rparr>
                     in if \<not> ok then refuse mac now i info ''RATE_LIMITED'' (limit_reason_text t reason) s1
                        else set_client i (c\<lparr>cl_phase := Ph_Connecting, cl_info := Some info\<rparr>) s1)))"

definition end_client :: "nat \<Rightarrow> connection_info \<Rightarrow> gateway \<Rightarrow> gateway" where
  "end_client i info s =
     (let c = gw_clients s ! i
      in (set_client i (c\<lparr>cl_phase := Ph_Closed, cl_info := Some info\<rparr>) s)
           \<lparr>gw_tracker := release (sandbox_of c) (cl_conn_id c) (gw_tracker s)\<rparr>)"

text \<open>Connecting: the error text, or success.\<close>

definition connect_client :: "(string \<Rightarrow> string \<Rightarrow> string) \<Rightarrow> time \<Rightarrow> nat \<Rightarrow> string option \<Rightarrow> gateway \<Rightarrow> gateway" where
  "connect_client mac now i err s =
     (case cl_info (gw_clients s ! i) of
        None \<Rightarrow> s
      | Some info \<Rightarrow>
        (case err of
           Some e \<Rightarrow>
             (let info' = info\<lparr>ci_decision := ''DENY''\<rparr>
              in end_client i info' (s\<lparr>gw_audit := log_audit mac now info' (''connect failed: '' @ e) (gw_audit s)\<rparr>))
         | None \<Rightarrow>
             (let info' = info\<lparr>ci_decision := ''ALLOW''\<rparr>
              in (set_client i ((gw_clients s ! i)\<lparr>cl_phase := Ph_Open, cl_info := Some info'\<rparr>) s)
                   \<lparr>gw_audit := log_audit mac now info' ''connection established'' (gw_audit s)\<rparr>)))"

text \<open>
  A chunk that arrives: the side it comes from, the bytes, the times at which the bucket is polled, and
  and, if sending it on fails, how many of its bytes went out before. Without tokens the chunk is dropped and
  forwarding goes on.
\<close>

definition pump_chunk :: "bool \<Rightarrow> byte list \<Rightarrow> time list \<Rightarrow> nat option \<Rightarrow> int \<Rightarrow> token_bucket option \<Rightarrow> client \<Rightarrow> connection_info \<Rightarrow> token_bucket option \<times> client" where
  "pump_chunk from_client data polls failed limit bucket c info =
     (case (case bucket of None \<Rightarrow> (None, True) | Some b \<Rightarrow> (let (b', ok) = wait_for_tokens polls (of_nat (length data)) b in (Some b', ok))) of
        (bucket', False) \<Rightarrow> (bucket', c)
      | (bucket', True) \<Rightarrow>
        (let n = int (length data);
             info' = (if from_client then info\<lparr>ci_bytes_sent := ci_bytes_sent info + n\<rparr> else info\<lparr>ci_bytes_received := ci_bytes_received info + n\<rparr>);
             out = (case failed of None \<Rightarrow> data | Some k \<Rightarrow> take k data);
             c1 = (if from_client then c\<lparr>cl_info := Some info', cl_to_dest := cl_to_dest c @ out\<rparr>
                   else c\<lparr>cl_info := Some info', cl_to_client := cl_to_client c @ out\<rparr>)
         in (bucket', if failed \<noteq> None \<or> ci_bytes_sent info' + ci_bytes_received info' > limit
                      then c1\<lparr>cl_phase := Ph_Ending\<rparr> else c1)))"

definition pump_client :: "nat \<Rightarrow> bool \<Rightarrow> byte list \<Rightarrow> time list \<Rightarrow> nat option \<Rightarrow> gateway \<Rightarrow> gateway" where
  "pump_client i from_client data polls failed s =
     (case cl_info (gw_clients s ! i) of
        None \<Rightarrow> s
      | Some info \<Rightarrow>
        (let (b, c) = pump_chunk from_client data polls failed (gc_max_bytes (gw_config s)) (gw_bucket s) (gw_clients s ! i) info
         in (set_client i c s)\<lparr>gw_bucket := b\<rparr>))"

definition finish_client :: "(string \<Rightarrow> string \<Rightarrow> string) \<Rightarrow> time \<Rightarrow> nat \<Rightarrow> gateway \<Rightarrow> gateway" where
  "finish_client mac now i s =
     (case cl_info (gw_clients s ! i) of
        None \<Rightarrow> s
      | Some info \<Rightarrow> end_client i info (s\<lparr>gw_audit := log_audit mac now info ''connection closed'' (gw_audit s)\<rparr>))"

datatype gateway_op =
    GO_Accept "string \<times> nat"
  | GO_Count nat
  | GO_Header nat time "byte list"
  | GO_Connect nat time "string option"
  | GO_Data nat bool "byte list" "time list" "nat option"
  | GO_Finish nat time

definition in_phase :: "gateway \<Rightarrow> nat \<Rightarrow> phase list \<Rightarrow> bool" where
  "in_phase s i ps \<longleftrightarrow> i < length (gw_clients s) \<and> cl_phase (gw_clients s ! i) \<in> set ps"

text \<open>A step of a thread happens in its phase only; a chunk holds at most 65536 bytes and is not empty.\<close>

fun gateway_step :: "(string \<Rightarrow> string \<Rightarrow> string) \<Rightarrow> gateway_op \<Rightarrow> gateway \<Rightarrow> gateway" where
  "gateway_step mac (GO_Accept addr) s = accept_client addr s"
| "gateway_step mac (GO_Count i) s = (if in_phase s i [Ph_Accepted] then count_client i s else s)"
| "gateway_step mac (GO_Header i now h) s = (if in_phase s i [Ph_Counted] then decide_client mac now i h s else s)"
| "gateway_step mac (GO_Connect i now err) s = (if in_phase s i [Ph_Connecting] then connect_client mac now i err s else s)"
| "gateway_step mac (GO_Data i fc data polls failed) s =
     (if in_phase s i [Ph_Open] \<and> data \<noteq> [] \<and> length data \<le> 65536 then pump_client i fc data polls failed s else s)"
| "gateway_step mac (GO_Finish i now) s = (if in_phase s i [Ph_Open, Ph_Ending] then finish_client mac now i s else s)"

definition gateway_fresh :: "gateway \<Rightarrow> bool" where
  "gateway_fresh s \<longleftrightarrow> (\<exists>now cfg w. s = init_gateway now cfg [] w)"

subsection \<open>Which addresses are internal\<close>

lemma byte_less: "unat (b :: byte) < 256"
proof -
  have "unat b < 2 ^ LENGTH(8)" by (rule unsigned_less)
  then show ?thesis by simp
qed

lemma unat_byte: "n < 256 \<Longrightarrow> unat (b :: byte) = n \<longleftrightarrow> b = of_nat n"
  by (auto simp: unat_of_nat)

lemma unat_byte_numeral: "numeral k < (256 :: nat) \<Longrightarrow> unat (b :: byte) = numeral k \<longleftrightarrow> b = numeral k"
  using unat_byte [of "numeral k" b] by (simp only: of_nat_numeral)

lemma unat_byte_0: "unat (b :: byte) = 0 \<longleftrightarrow> b = 0"
  using unat_byte [of 0 b] by simp

lemma unat_numeral_byte: "unat (224 :: byte) = 224" "unat (64 :: byte) = 64" "unat (127 :: byte) = 127"
    "unat (16 :: byte) = 16" "unat (31 :: byte) = 31"
  by simp_all

lemma unat_ip: "unat (ip_of_bytes a b c d) = unat a * 2 ^ 24 + unat b * 2 ^ 16 + unat c * 2 ^ 8 + unat d"
proof -
  have "unat a * 2 ^ 24 + unat b * 2 ^ 16 + unat c * 2 ^ 8 + unat d < 2 ^ LENGTH(32)"
    using byte_less [of a] byte_less [of b] byte_less [of c] byte_less [of d] by simp
  then show ?thesis unfolding ip_of_bytes_def unat_of_nat by (rule mod_less)
qed

lemma in_network_iff: "in_network ip (net, n) \<longleftrightarrow> unat ip div 2 ^ (32 - n) = unat net div 2 ^ (32 - n)"
proof -
  have "unat (drop_bit k w) = unat w div 2 ^ k" for k and w :: "32 word"
    by (simp only: unat_drop_bit_eq drop_bit_eq_div [where 'a = nat])
  then show ?thesis unfolding in_network_def prod.case word_unat_eq_iff by simp
qed

lemma prefix_bits:
  fixes a b c d :: nat
  assumes "b < 256" "c < 256" "d < 256"
  shows "(a * 2 ^ 24 + b * 2 ^ 16 + c * 2 ^ 8 + d) div 2 ^ 8 = a * 65536 + b * 256 + c"
    "(a * 2 ^ 24 + b * 2 ^ 16 + c * 2 ^ 8 + d) div 2 ^ 16 = a * 256 + b"
    "(a * 2 ^ 24 + b * 2 ^ 16 + c * 2 ^ 8 + d) div 2 ^ 24 = a"
    "(a * 2 ^ 24 + b * 2 ^ 16 + c * 2 ^ 8 + d) div 2 ^ 20 = a * 16 + b div 16"
    "(a * 2 ^ 24 + b * 2 ^ 16 + c * 2 ^ 8 + d) div 2 ^ 22 = a * 4 + b div 64"
    "(a * 2 ^ 24 + b * 2 ^ 16 + c * 2 ^ 8 + d) div 2 ^ 28 = a div 16"
proof -
  let ?x = "a * 2 ^ 24 + b * 2 ^ 16 + c * 2 ^ 8 + d"
  show e8: "?x div 2 ^ 8 = a * 65536 + b * 256 + c" using assms(3) by simp
  have "?x div 2 ^ 16 = ?x div 2 ^ 8 div 2 ^ 8" by (simp flip: div_mult2_eq)
  then show e16: "?x div 2 ^ 16 = a * 256 + b" unfolding e8 using assms(2) by simp
  have "?x div 2 ^ 24 = ?x div 2 ^ 16 div 2 ^ 8" by (simp flip: div_mult2_eq)
  then show e24: "?x div 2 ^ 24 = a" unfolding e16 using assms(1) by simp
  have "?x div 2 ^ 20 = ?x div 2 ^ 16 div 16" by (simp flip: div_mult2_eq)
  then show "?x div 2 ^ 20 = a * 16 + b div 16" unfolding e16 by simp
  have "?x div 2 ^ 22 = ?x div 2 ^ 16 div 64" by (simp flip: div_mult2_eq)
  then show "?x div 2 ^ 22 = a * 4 + b div 64" unfolding e16 by simp
  have "?x div 2 ^ 28 = ?x div 2 ^ 24 div 16" by (simp flip: div_mult2_eq)
  then show "?x div 2 ^ 28 = a div 16" unfolding e24 by simp
qed

lemma find_SomeD: "find P xs = Some x \<Longrightarrow> x \<in> set xs \<and> P x"
  by (auto simp: find_Some_iff)

text \<open>Digits determine a number.\<close>

lemma digit:
  fixes a x m r q :: nat
  assumes "r < m" "q < m"
  shows "a * m + r = x * m + q \<longleftrightarrow> a = x \<and> r = q"
proof -
  have "(a * m + r) div m = a" "(a * m + r) mod m = r" "(x * m + q) div m = x" "(x * m + q) mod m = q"
    using assms by simp_all
  then show ?thesis by metis
qed

lemma digits:
  fixes a b c x y z :: nat
  assumes "b < 256" "c < 256" "y < 256" "z < 256"
  shows "a * 65536 + b * 256 + c = x * 65536 + y * 256 + z \<longleftrightarrow> a = x \<and> b = y \<and> c = z"
proof -
  have e: "a * 65536 + b * 256 + c = (a * 256 + b) * 256 + c" "x * 65536 + y * 256 + z = (x * 256 + y) * 256 + z" by simp_all
  show ?thesis unfolding e digit [OF assms(2,4)] digit [OF assms(1,3)] by blast
qed

lemma internal_iff:
  fixes a b c d :: byte
  shows "fst (is_internal_ip (ip_of_bytes a b c d)) \<longleftrightarrow>
     a \<in> {0, 10, 127} \<or> 224 \<le> a \<or> a = 100 \<and> 64 \<le> b \<and> b \<le> 127 \<or> a = 172 \<and> 16 \<le> b \<and> b \<le> 31 \<or>
     a = 192 \<and> b = 168 \<or> a = 169 \<and> b = 254 \<or> a = 192 \<and> b = 0 \<and> c \<in> {0, 2} \<or>
     a = 198 \<and> b = 51 \<and> c = 100 \<or> a = 203 \<and> b = 0 \<and> c = 113"
proof -
  let ?A = "unat a" and ?B = "unat b" and ?C = "unat c" and ?D = "unat d"
  note less = byte_less [of a] byte_less [of b] byte_less [of c] byte_less [of d]
  note bits = prefix_bits [OF less(2-4), of ?A]
  have net: "in_network (ip_of_bytes a b c d) (ip_of_bytes x y z 0, n) \<longleftrightarrow>
      (unat a * 2 ^ 24 + unat b * 2 ^ 16 + unat c * 2 ^ 8 + unat d) div 2 ^ (32 - n) =
      (unat x * 2 ^ 24 + unat y * 2 ^ 16 + unat z * 2 ^ 8) div 2 ^ (32 - n)" for x y z n
    by (simp add: in_network_iff unat_ip)
  have "(\<exists>n\<in>set INTERNAL_NETWORKS. in_network (ip_of_bytes a b c d) n) \<longleftrightarrow>
      ?A = 10 \<or> ?A * 16 + ?B div 16 = 172 * 16 + 1 \<or> ?A * 256 + ?B = 192 * 256 + 168 \<or> ?A = 127 \<or>
      ?A * 256 + ?B = 169 * 256 + 254 \<or> ?A = 0 \<or> ?A * 4 + ?B div 64 = 100 * 4 + 1 \<or>
      ?A * 65536 + ?B * 256 + ?C = 192 * 65536 \<or> ?A * 65536 + ?B * 256 + ?C = 192 * 65536 + 2 \<or>
      ?A * 65536 + ?B * 256 + ?C = 198 * 65536 + 51 * 256 + 100 \<or> ?A * 65536 + ?B * 256 + ?C = 203 * 65536 + 113 \<or>
      ?A div 16 = 14 \<or> ?A div 16 = 15"
    using bits by (simp add: INTERNAL_NETWORKS_def net)
  also have "\<dots> \<longleftrightarrow> ?A = 10 \<or> ?A = 172 \<and> 16 \<le> ?B \<and> ?B \<le> 31 \<or> ?A = 192 \<and> ?B = 168 \<or> ?A = 127 \<or>
      ?A = 169 \<and> ?B = 254 \<or> ?A = 0 \<or> ?A = 100 \<and> 64 \<le> ?B \<and> ?B \<le> 127 \<or> ?A = 192 \<and> ?B = 0 \<and> ?C = 0 \<or>
      ?A = 192 \<and> ?B = 0 \<and> ?C = 2 \<or> ?A = 198 \<and> ?B = 51 \<and> ?C = 100 \<or> ?A = 203 \<and> ?B = 0 \<and> ?C = 113 \<or> 224 \<le> ?A"
  proof -
    have "?B div 16 = 1 \<longleftrightarrow> 16 \<le> ?B \<and> ?B \<le> 31" "?B div 64 = 1 \<longleftrightarrow> 64 \<le> ?B \<and> ?B \<le> 127" by arith+
    then have "?A * 16 + ?B div 16 = 172 * 16 + 1 \<longleftrightarrow> ?A = 172 \<and> 16 \<le> ?B \<and> ?B \<le> 31"
      "?A * 4 + ?B div 64 = 100 * 4 + 1 \<longleftrightarrow> ?A = 100 \<and> 64 \<le> ?B \<and> ?B \<le> 127"
      using digit [of "?B div 16" 16 1 ?A 172] digit [of "?B div 64" 4 1 ?A 100] less by simp_all
    moreover have "?A * 256 + ?B = 192 * 256 + 168 \<longleftrightarrow> ?A = 192 \<and> ?B = 168" using digit [of ?B 256 168 ?A 192] less by simp
    moreover have "?A * 256 + ?B = 169 * 256 + 254 \<longleftrightarrow> ?A = 169 \<and> ?B = 254" using digit [of ?B 256 254 ?A 169] less by simp
    moreover have "?A * 65536 + ?B * 256 + ?C = 192 * 65536 \<longleftrightarrow> ?A = 192 \<and> ?B = 0 \<and> ?C = 0"
      using digits [of ?B ?C 0 0 ?A 192] less by simp
    moreover have "?A * 65536 + ?B * 256 + ?C = 192 * 65536 + 2 \<longleftrightarrow> ?A = 192 \<and> ?B = 0 \<and> ?C = 2"
      using digits [of ?B ?C 0 2 ?A 192] less by simp
    moreover have "?A * 65536 + ?B * 256 + ?C = 198 * 65536 + 51 * 256 + 100 \<longleftrightarrow> ?A = 198 \<and> ?B = 51 \<and> ?C = 100"
      using digits [of ?B ?C 51 100 ?A 198] less by simp
    moreover have "?A * 65536 + ?B * 256 + ?C = 203 * 65536 + 113 \<longleftrightarrow> ?A = 203 \<and> ?B = 0 \<and> ?C = 113"
      using digits [of ?B ?C 0 113 ?A 203] less by simp
    moreover have "?A div 16 = 14 \<or> ?A div 16 = 15 \<longleftrightarrow> 224 \<le> ?A" using less by arith
    ultimately show ?thesis by (simp only:)
  qed
  finally have nets: "(\<exists>n\<in>set INTERNAL_NETWORKS. in_network (ip_of_bytes a b c d) n) \<longleftrightarrow> \<dots>" .
  have m: "(ip_of_bytes 169 254 0 0, 16) \<in> set INTERNAL_NETWORKS" by (simp add: INTERNAL_NETWORKS_def)
  have "in_network METADATA_IP (ip_of_bytes 169 254 0 0, 16)"
    unfolding METADATA_IP_def by (simp add: in_network_iff unat_ip)
  with m have "ip = METADATA_IP \<Longrightarrow> \<exists>n\<in>set INTERNAL_NETWORKS. in_network ip n" for ip by blast
  moreover have "fst (is_internal_ip ip) \<longleftrightarrow> ip = METADATA_IP \<or> (\<exists>n\<in>set INTERNAL_NETWORKS. in_network ip n)" for ip
    by (auto simp: is_internal_ip_def find_None_iff split: option.split dest!: find_SomeD)
  ultimately have i: "fst (is_internal_ip (ip_of_bytes a b c d)) \<longleftrightarrow> (\<exists>n\<in>set INTERNAL_NETWORKS. in_network (ip_of_bytes a b c d) n)"
    by blast
  have w: "?A = 10 \<longleftrightarrow> a = 10" "?A = 172 \<longleftrightarrow> a = 172"
    "?A = 192 \<longleftrightarrow> a = 192" "?A = 127 \<longleftrightarrow> a = 127"
    "?A = 169 \<longleftrightarrow> a = 169" "?A = 0 \<longleftrightarrow> a = 0"
    "?A = 100 \<longleftrightarrow> a = 100" "?A = 198 \<longleftrightarrow> a = 198"
    "?A = 203 \<longleftrightarrow> a = 203" "?B = 168 \<longleftrightarrow> b = 168"
    "?B = 254 \<longleftrightarrow> b = 254" "?B = 0 \<longleftrightarrow> b = 0"
    "?B = 51 \<longleftrightarrow> b = 51" "?C = 0 \<longleftrightarrow> c = 0"
    "?C = 2 \<longleftrightarrow> c = 2" "?C = 100 \<longleftrightarrow> c = 100"
    "?C = 113 \<longleftrightarrow> c = 113"
    using unat_byte [of 0 a] unat_byte [of 0 b] unat_byte [of 0 c] by (simp_all add: unat_byte)
  have v: "224 \<le> ?A \<longleftrightarrow> 224 \<le> a" "64 \<le> ?B \<longleftrightarrow> 64 \<le> b" "?B \<le> 127 \<longleftrightarrow> b \<le> 127" "16 \<le> ?B \<longleftrightarrow> 16 \<le> b" "?B \<le> 31 \<longleftrightarrow> b \<le> 31"
    unfolding word_le_nat_alt unat_numeral_byte by (rule refl)+
  have "(\<exists>n\<in>set INTERNAL_NETWORKS. in_network (ip_of_bytes a b c d) n) \<longleftrightarrow> a = 10 \<or> a = 172 \<and> 16 \<le> b \<and> b \<le> 31 \<or> a = 192 \<and> b = 168 \<or> a = 127 \<or>
      a = 169 \<and> b = 254 \<or> a = 0 \<or> a = 100 \<and> 64 \<le> b \<and> b \<le> 127 \<or> a = 192 \<and> b = 0 \<and> c = 0 \<or>
      a = 192 \<and> b = 0 \<and> c = 2 \<or> a = 198 \<and> b = 51 \<and> c = 100 \<or> a = 203 \<and> b = 0 \<and> c = 113 \<or> 224 \<le> a"
    unfolding nets v w ..
  then show ?thesis unfolding i insert_iff empty_iff by argo
qed

text \<open>
  C20. An address is internal exactly when it lies in one of the reserved ranges, said byte by byte: 0, 10 and 127,
  everything from 224 on, 100.64 to 100.127, 172.16 to 172.31, 192.168, 169.254, 192.0.0, 192.0.2, 198.51.100
  and 203.0.113.
\<close>

theorem internal_ranges:
  fixes a b c d :: byte
  shows "fst (is_internal_ip (ip_of_bytes a b c d)) \<longleftrightarrow>
     a \<in> {0, 10, 127} \<or> 224 \<le> a \<or> a = 100 \<and> 64 \<le> b \<and> b \<le> 127 \<or> a = 172 \<and> 16 \<le> b \<and> b \<le> 31 \<or>
     a = 192 \<and> b = 168 \<or> a = 169 \<and> b = 254 \<or> a = 192 \<and> b = 0 \<and> c \<in> {0, 2} \<or>
     a = 198 \<and> b = 51 \<and> c = 100 \<or> a = 203 \<and> b = 0 \<and> c = 113"
  by (rule internal_iff)

subsection \<open>What a connection may carry\<close>

text \<open>
  A connection is permitted if its address is in dotted form, not internal, and not blacklisted; \<open>carries\<close>
  bounds what has been forwarded by the counters and the counters by the limit.
\<close>

definition permitted :: "gateway_config \<Rightarrow> connection_info \<Rightarrow> bool" where
  "permitted cfg info \<longleftrightarrow>
     (\<exists>a b c d. ci_dest_ip info = dotted a b c d \<and> (gc_block_internal cfg \<longrightarrow> \<not> fst (is_internal_ip (ip_of_bytes a b c d)))) \<and>
     ci_dest_ip info \<notin> set (gc_ip_blacklist cfg)"

definition total_bytes :: "connection_info \<Rightarrow> int" where
  "total_bytes info = ci_bytes_sent info + ci_bytes_received info"

definition carries :: "gateway_config \<Rightarrow> client \<Rightarrow> connection_info \<Rightarrow> bool" where
  "carries cfg c info \<longleftrightarrow> int (length (cl_to_dest c)) \<le> ci_bytes_sent info \<and> int (length (cl_to_client c)) \<le> ci_bytes_received info \<and>
     total_bytes info \<le> max 0 (gc_max_bytes cfg) + (if cl_phase c = Ph_Open then 0 else 65536)"

definition client_ok :: "gateway_config \<Rightarrow> client \<Rightarrow> bool" where
  "client_ok cfg c \<longleftrightarrow>
     (case cl_info c of
        None \<Rightarrow> cl_phase c \<in> {Ph_Accepted, Ph_Counted, Ph_Closed} \<and> cl_to_dest c = [] \<and> cl_to_client c = []
      | Some info \<Rightarrow> cl_phase c \<notin> {Ph_Accepted, Ph_Counted} \<and> carries cfg c info \<and>
          (cl_phase c = Ph_Connecting \<longrightarrow> total_bytes info = 0) \<and>
          (permitted cfg info \<or> cl_phase c = Ph_Closed \<and> total_bytes info = 0))"

definition gateway_ok :: "gateway \<Rightarrow> bool" where
  "gateway_ok s \<longleftrightarrow> (\<forall>c\<in>set (gw_clients s). client_ok (gw_config s) c)"

lemma in_phaseD: "in_phase s i ps \<Longrightarrow> i < length (gw_clients s) \<and> cl_phase (gw_clients s ! i) \<in> set ps"
  by (simp add: in_phase_def)

text \<open>What the operations do to the clients and the configuration.\<close>

lemma set_client_simps [simp]:
  "gw_clients (set_client i c s) = (gw_clients s)[i := c]" "gw_config (set_client i c s) = gw_config s"
  "gw_tracker (set_client i c s) = gw_tracker s" "gw_audit (set_client i c s) = gw_audit s"
  "gw_counter (set_client i c s) = gw_counter s" "gw_bucket (set_client i c s) = gw_bucket s"
  by (simp_all add: set_client_def)

lemma gateway_ok_set:
  assumes "gateway_ok s" "client_ok (gw_config s) c" "gw_clients t = (gw_clients s)[i := c]" "gw_config t = gw_config s"
  shows "gateway_ok t"
  using assms set_update_subset_insert [of "gw_clients s" i c] unfolding gateway_ok_def by auto

lemma gateway_ok_client: "gateway_ok s \<Longrightarrow> i < length (gw_clients s) \<Longrightarrow> client_ok (gw_config s) (gw_clients s ! i)"
  by (simp add: gateway_ok_def)

text \<open>The three ways a header is answered: the thread ends, the connection is refused, or it goes on to connect.\<close>

lemma decide_client_cases:
  fixes s i mac now header
  defines "c \<equiv> gw_clients s ! i" and "t \<equiv> decide_client mac now i header s"
  obtains (bad) "parse_header header = None" "t = set_client i (c\<lparr>cl_phase := Ph_Closed\<rparr>) s"
  | (refused) ip a p d r s1 where "parse_header header = Some (ip, a, p)"
      "t = refuse mac now i (new_info now c a p) d r s1" "gw_clients s1 = gw_clients s" "gw_config s1 = gw_config s"
      "ct_active (gw_tracker s1) = ct_active (gw_tracker s)" "ct_max (gw_tracker s1) = ct_max (gw_tracker s)" "gw_audit s1 = gw_audit s"
  | (go) ip a p t1 where "parse_header header = Some (ip, a, p)"
      "gc_block_internal (gw_config s) \<Longrightarrow> \<not> fst (is_internal_ip ip)" "a \<notin> set (gc_ip_blacklist (gw_config s))"
      "try_acquire now (sandbox_of c) (cl_conn_id c) (gw_tracker s) = (t1, True, Acquired)"
      "t = set_client i (c\<lparr>cl_phase := Ph_Connecting, cl_info := Some (new_info now c a p)\<rparr>) (s\<lparr>gw_tracker := t1\<rparr>)"
proof (cases "parse_header header")
  case None
  then show thesis by (intro bad) (simp_all add: t_def c_def decide_client_def)
next
  case (Some x)
  obtain ip a p where x: "x = (ip, a, p)" by (cases x)
  obtain internal why where w: "is_internal_ip ip = (internal, why)" by fastforce
  obtain t1 ok reason where q: "try_acquire now (sandbox_of c) (cl_conn_id c) (gw_tracker s) = (t1, ok, reason)"
    by (metis prod_cases3)
  have t: "t = (if gc_block_internal (gw_config s) \<and> internal
         then refuse mac now i (new_info now c a p) ''DENY'' (''internal network blocked: '' @ ip_reason_text why) s
         else if a \<in> set (gc_ip_blacklist (gw_config s)) then refuse mac now i (new_info now c a p) ''DENY'' ''IP blacklisted'' s
         else if \<not> ok then refuse mac now i (new_info now c a p) ''RATE_LIMITED'' (limit_reason_text t1 reason) (s\<lparr>gw_tracker := t1\<rparr>)
         else set_client i (c\<lparr>cl_phase := Ph_Connecting, cl_info := Some (new_info now c a p)\<rparr>) (s\<lparr>gw_tracker := t1\<rparr>))"
    using Some x w q by (simp add: t_def c_def decide_client_def Let_def)
  have ok: "ok \<longrightarrow> reason = Acquired" "\<not> ok \<longrightarrow> ct_active t1 = ct_active (gw_tracker s) \<and> ct_max t1 = ct_max (gw_tracker s)"
    using q by (auto simp: try_acquire_def Let_def split: if_splits)
  note r = refused [OF Some [unfolded x]]
  show thesis
  proof (cases "gc_block_internal (gw_config s) \<and> internal")
    case True
    with t have "t = refuse mac now i (new_info now c a p) ''DENY'' (''internal network blocked: '' @ ip_reason_text why) s" by simp
    then show thesis by (rule r) simp_all
  next
    case block: False
    show thesis
    proof (cases "a \<in> set (gc_ip_blacklist (gw_config s))")
      case True
      with t block have "t = refuse mac now i (new_info now c a p) ''DENY'' ''IP blacklisted'' s" by simp
      then show thesis by (rule r) simp_all
    next
      case black: False
      show thesis
      proof (cases ok)
        case True
        show thesis using go [of ip a p t1] Some x t ok(1) q w block black True by simp
      next
        case False
        with t block black have "t = refuse mac now i (new_info now c a p) ''RATE_LIMITED'' (limit_reason_text t1 reason) (s\<lparr>gw_tracker := t1\<rparr>)"
          by simp
        then show thesis by (rule r) (simp_all add: ok(2) False)
      qed
    qed
  qed
qed

lemma parse_header_dotted:
  "parse_header h = Some (ip, a, p) \<Longrightarrow> \<exists>w x y z. ip = ip_of_bytes w x y z \<and> a = dotted w x y z"
  by (induction h rule: parse_header.induct) auto

lemma client_ok_closed: "cl_info c = None \<Longrightarrow> client_ok cfg c \<Longrightarrow> client_ok cfg (c\<lparr>cl_phase := Ph_Closed\<rparr>)"
  by (simp add: client_ok_def)

lemma client_ok_fresh_info:
  assumes "cl_info c = None" "client_ok cfg c" "total_bytes info = 0" "ci_bytes_sent info = 0"
    "ph = Ph_Closed \<or> ph = Ph_Connecting \<and> permitted cfg info"
  shows "client_ok cfg (c\<lparr>cl_phase := ph, cl_info := Some info\<rparr>)"
  using assms by (auto simp: client_ok_def carries_def total_bytes_def)

lemma gateway_ok_decide:
  assumes "gateway_ok s" "in_phase s i [Ph_Counted]"
  shows "gateway_ok (decide_client mac now i header s)"
proof -
  let ?c = "gw_clients s ! i"
  have ok: "client_ok (gw_config s) ?c" using gateway_ok_client [OF assms(1)] in_phaseD [OF assms(2)] by blast
  moreover have "cl_phase ?c = Ph_Counted" using in_phaseD [OF assms(2)] by simp
  ultimately have none: "cl_info ?c = None" by (auto simp: client_ok_def split: option.splits)
  show ?thesis
  proof (cases rule: decide_client_cases [of header mac now i s])
    case bad
    show ?thesis by (rule gateway_ok_set [OF assms(1) client_ok_closed [OF none ok]]) (simp_all add: bad)
  next
    case (refused ip a p d r s1)
    have "client_ok (gw_config s) (?c\<lparr>cl_phase := Ph_Closed, cl_info := Some ((new_info now ?c a p)\<lparr>ci_decision := d\<rparr>)\<rparr>)"
      by (rule client_ok_fresh_info [OF none ok]) (simp_all add: total_bytes_def new_info_def)
    then show ?thesis by (rule gateway_ok_set [OF assms(1)]) (simp_all add: refused refuse_def Let_def)
  next
    case (go ip a p t1)
    then have "permitted (gw_config s) (new_info now ?c a p)"
      using parse_header_dotted [OF go(1)] by (auto simp: permitted_def new_info_def)
    then have "client_ok (gw_config s) (?c\<lparr>cl_phase := Ph_Connecting, cl_info := Some (new_info now ?c a p)\<rparr>)"
      by (intro client_ok_fresh_info [OF none ok]) (simp_all add: total_bytes_def new_info_def)
    then show ?thesis by (rule gateway_ok_set [OF assms(1)]) (simp_all add: go)
  qed
qed

lemma total_decision [simp]: "total_bytes (info\<lparr>ci_decision := d\<rparr>) = total_bytes info"
  by (simp add: total_bytes_def)

lemma permitted_decision [simp]: "permitted cfg (info\<lparr>ci_decision := d\<rparr>) = permitted cfg info"
  by (simp add: permitted_def)

lemma carries_decision [simp]: "carries cfg c (info\<lparr>ci_decision := d\<rparr>) = carries cfg c info"
  by (simp add: carries_def)

lemma client_ok_info: "client_ok cfg c \<Longrightarrow> cl_info c = Some info \<Longrightarrow> cl_phase c \<noteq> Ph_Closed \<Longrightarrow>
    carries cfg c info \<and> permitted cfg info \<and> (cl_phase c = Ph_Connecting \<longrightarrow> total_bytes info = 0)"
  by (auto simp: client_ok_def)

lemma client_ok_end:
  assumes "client_ok cfg c" "cl_info c = Some info" "cl_phase c \<noteq> Ph_Closed"
  shows "client_ok cfg (c\<lparr>cl_phase := Ph_Closed, cl_info := Some (info\<lparr>ci_decision := d\<rparr>)\<rparr>)"
  using client_ok_info [OF assms] by (auto simp: client_ok_def carries_def split: if_splits)

lemma client_ok_open:
  assumes "client_ok cfg c" "cl_info c = Some info" "cl_phase c = Ph_Connecting"
  shows "client_ok cfg (c\<lparr>cl_phase := Ph_Open, cl_info := Some (info\<lparr>ci_decision := d\<rparr>)\<rparr>)"
  using client_ok_info [OF assms(1,2)] assms(3) by (simp add: client_ok_def) (simp add: carries_def total_bytes_def)

lemma gateway_ok_connect:
  assumes "gateway_ok s" "in_phase s i [Ph_Connecting]"
  shows "gateway_ok (connect_client mac now i err s)"
proof (cases "cl_info (gw_clients s ! i)")
  case None
  then show ?thesis using assms(1) by (simp add: connect_client_def)
next
  case (Some info)
  let ?c = "gw_clients s ! i"
  have ph: "cl_phase ?c = Ph_Connecting" "client_ok (gw_config s) ?c"
    using in_phaseD [OF assms(2)] gateway_ok_client [OF assms(1)] by simp_all
  show ?thesis
  proof (cases err)
    case None
    show ?thesis
      by (rule gateway_ok_set [OF assms(1) client_ok_open [OF ph(2) Some ph(1), of "''ALLOW''"]])
        (simp_all add: connect_client_def Some None Let_def)
  next
    case (Some e)
    have "cl_phase ?c \<noteq> Ph_Closed" using ph(1) by simp
    from client_ok_end [OF ph(2) \<open>cl_info ?c = Some info\<close> this, of "''DENY''"] show ?thesis
      by (rule gateway_ok_set [OF assms(1)]) (simp_all add: connect_client_def \<open>cl_info ?c = Some info\<close> Some Let_def end_client_def)
  qed
qed

lemma gateway_ok_finish:
  assumes "gateway_ok s" "in_phase s i [Ph_Open, Ph_Ending]"
  shows "gateway_ok (finish_client mac now i s)"
proof (cases "cl_info (gw_clients s ! i)")
  case None
  then show ?thesis using assms(1) by (simp add: finish_client_def)
next
  case (Some info)
  let ?c = "gw_clients s ! i"
  have ph: "cl_phase ?c \<noteq> Ph_Closed" "client_ok (gw_config s) ?c"
    using in_phaseD [OF assms(2)] gateway_ok_client [OF assms(1)] by auto
  from client_ok_end [OF ph(2) Some ph(1), of "ci_decision info"] show ?thesis
    by (rule gateway_ok_set [OF assms(1)]) (simp_all add: finish_client_def Some end_client_def Let_def)
qed

text \<open>A chunk is dropped, or counted and sent on, whole or up to the failure.\<close>

lemma pump_chunk_cases:
  fixes fc data polls failed limit b c info
  defines "t \<equiv> snd (pump_chunk fc data polls failed limit b c info)"
    and "out \<equiv> (case failed of None \<Rightarrow> data | Some k \<Rightarrow> take k data)"
    and "info' \<equiv> (if fc then info\<lparr>ci_bytes_sent := ci_bytes_sent info + int (length data)\<rparr>
                  else info\<lparr>ci_bytes_received := ci_bytes_received info + int (length data)\<rparr>)"
  shows "t = c \<or> t = c\<lparr>cl_info := Some info', cl_to_dest := cl_to_dest c @ (if fc then out else []),
      cl_to_client := cl_to_client c @ (if fc then [] else out),
      cl_phase := (if failed \<noteq> None \<or> total_bytes info' > limit then Ph_Ending else cl_phase c)\<rparr>"
  unfolding t_def pump_chunk_def total_bytes_def
  by (cases b; cases fc) (simp_all add: out_def info'_def Let_def split: bool.split prod.split)

lemma gateway_ok_pump:
  assumes "gateway_ok s" "in_phase s i [Ph_Open]" "length data \<le> 65536"
  shows "gateway_ok (pump_client i fc data polls failed s)"
proof (cases "cl_info (gw_clients s ! i)")
  case None
  then show ?thesis using assms(1) by (simp add: pump_client_def)
next
  case (Some info)
  let ?c = "gw_clients s ! i" and ?l = "gc_max_bytes (gw_config s)"
  let ?t = "snd (pump_chunk fc data polls failed ?l (gw_bucket s) ?c info)"
  have ph: "cl_phase ?c = Ph_Open" "client_ok (gw_config s) ?c"
    using in_phaseD [OF assms(2)] gateway_ok_client [OF assms(1)] by auto
  then have i: "carries (gw_config s) ?c info" "permitted (gw_config s) info"
    using client_ok_info [OF ph(2) Some] by simp_all
  have "client_ok (gw_config s) ?t"
    using pump_chunk_cases [of fc data polls failed ?l "gw_bucket s" ?c info]
  proof
    assume "?t = ?c"
    then show ?thesis using ph by simp
  next
    assume t: "?t = ?c\<lparr>cl_info := Some (if fc then info\<lparr>ci_bytes_sent := ci_bytes_sent info + int (length data)\<rparr>
                  else info\<lparr>ci_bytes_received := ci_bytes_received info + int (length data)\<rparr>),
        cl_to_dest := cl_to_dest ?c @ (if fc then case failed of None \<Rightarrow> data | Some k \<Rightarrow> take k data else []),
        cl_to_client := cl_to_client ?c @ (if fc then [] else case failed of None \<Rightarrow> data | Some k \<Rightarrow> take k data),
        cl_phase := (if failed \<noteq> None \<or> total_bytes (if fc then info\<lparr>ci_bytes_sent := ci_bytes_sent info + int (length data)\<rparr>
                  else info\<lparr>ci_bytes_received := ci_bytes_received info + int (length data)\<rparr>) > ?l then Ph_Ending else cl_phase ?c)\<rparr>"
    have out: "length (case failed of None \<Rightarrow> data | Some k \<Rightarrow> take k data) \<le> length data" by (simp split: option.split)
    show ?thesis unfolding t using i ph(1) assms(3) out
      by (cases fc) (auto simp: client_ok_def carries_def permitted_def total_bytes_def)
  qed
  then show ?thesis
    by (rule gateway_ok_set [OF assms(1)]) (simp_all add: pump_client_def Some Let_def case_prod_unfold)
qed

lemma gateway_ok_accept: "gateway_ok s \<Longrightarrow> gateway_ok (accept_client addr s)"
  by (auto simp: gateway_ok_def accept_client_def client_ok_def)

lemma gateway_ok_count:
  assumes "gateway_ok s" "in_phase s i [Ph_Accepted]"
  shows "gateway_ok (count_client i s)"
proof -
  let ?c = "gw_clients s ! i"
  have "client_ok (gw_config s) (?c\<lparr>cl_phase := Ph_Counted\<rparr>)"
    using in_phaseD [OF assms(2)] gateway_ok_client [OF assms(1), of i] by (auto simp: client_ok_def split: option.splits)
  then show ?thesis by (rule gateway_ok_set [OF assms(1)]) (simp_all add: count_client_def)
qed

lemma gateway_ok_step: "gateway_ok s \<Longrightarrow> gateway_ok (gateway_step mac e s)"
  by (cases e) (simp_all add: gateway_ok_accept gateway_ok_count gateway_ok_decide gateway_ok_connect gateway_ok_pump gateway_ok_finish)

interpretation gateway: machine gateway_fresh "gateway_step mac" gateway_ok for mac :: "string \<Rightarrow> string \<Rightarrow> string"
proof unfold_locales
  fix s assume "gateway_fresh s"
  then show "gateway_ok s" by (auto simp: gateway_fresh_def init_gateway_def gateway_ok_def Let_def)
qed (rule gateway_ok_step)

text \<open>
  C21. Whatever the sandboxes send and however their connections interleave, bytes reach only a destination
  that is permitted: in dotted form, outside every internal range while these are blocked, and not on the list
  of forbidden addresses. No connection carries more than its limit of bytes and one last chunk of 64 KiB, an open
  one not even the chunk, and no more is handed on than was counted.
\<close>

theorem only_permitted_traffic:
  assumes "reachable gateway_fresh (gateway_step mac) s" "c \<in> set (gw_clients s)"
    "cl_to_dest c \<noteq> [] \<or> cl_to_client c \<noteq> [] \<or> cl_phase c \<in> {Ph_Connecting, Ph_Open, Ph_Ending}"
  shows "\<exists>info. cl_info c = Some info \<and> permitted (gw_config s) info \<and> carries (gw_config s) c info \<and>
    int (length (cl_to_dest c) + length (cl_to_client c)) \<le> max 0 (gc_max_bytes (gw_config s)) + 65536"
proof -
  have ok: "client_ok (gw_config s) c" using gateway.inv_reachable [OF assms(1)] assms(2) by (simp add: gateway_ok_def)
  then obtain info where i: "cl_info c = Some info" "carries (gw_config s) c info"
    using assms(3) by (auto simp: client_ok_def split: option.splits)
  have "\<not> (cl_phase c = Ph_Closed \<and> total_bytes info = 0)"
    using i(2) assms(3) by (cases "cl_to_dest c"; cases "cl_to_client c") (auto simp: carries_def total_bytes_def)
  then have "permitted (gw_config s) info" using ok i(1) by (auto simp: client_ok_def)
  moreover have "int (length (cl_to_dest c) + length (cl_to_client c)) \<le> max 0 (gc_max_bytes (gw_config s)) + 65536"
    using i(2) by (simp add: carries_def total_bytes_def split: if_splits)
  ultimately show ?thesis using i by blast
qed


definition demo_config :: gateway_config where
  "demo_config = GatewayConfig\<lparr>gc_max_bandwidth_mbps := 0\<rparr>"

definition demo_gateway :: gateway where
  "demo_gateway = fold (gateway_step (\<lambda>k t. t))
     [GO_Accept (''10.0.0.9'', 4000), GO_Count 0, GO_Header 0 0 [8, 8, 8, 8, 1, 187], GO_Connect 0 1 None,
      GO_Data 0 True [1, 2, 3] [] None] (init_gateway 0 demo_config [] True)"

lemma init_gateway_fresh: "gateway_fresh (init_gateway now cfg [] w)"
  by (auto simp: gateway_fresh_def)

lemma demo_gateway_reachable: "reachable gateway_fresh (gateway_step (\<lambda>k t. t)) demo_gateway"
  unfolding demo_gateway_def by (intro reachable_run reachable.reach_init init_gateway_fresh)

lemma demo_gateway_client:
  "gw_config demo_gateway = demo_config \<and>
   (\<exists>c. gw_clients demo_gateway = [c] \<and> cl_phase c = Ph_Open \<and> cl_to_dest c = [1, 2, 3] \<and> cl_to_client c = [])"
proof -
  have "\<not> fst (is_internal_ip (ip_of_bytes 8 8 8 8))" by (simp add: internal_iff)
  then obtain why where w: "is_internal_ip (ip_of_bytes 8 8 8 8) = (False, why)" by (cases "is_internal_ip (ip_of_bytes 8 8 8 8)") auto
  show ?thesis
    unfolding demo_gateway_def
    by (simp add: init_gateway_def demo_config_def GatewayConfig_def Let_def accept_client_def in_phase_def count_client_def set_client_def
        decide_client_def w new_info_def sandbox_of_def try_acquire_def dget_or_def connect_client_def pump_client_def pump_chunk_def)
qed

theorem only_permitted_traffic_witness:
  "\<exists>c info. gw_clients demo_gateway = [c] \<and> cl_info c = Some info \<and> permitted demo_config info \<and> carries demo_config c info \<and>
     int (length (cl_to_dest c) + length (cl_to_client c)) \<le> max 0 (gc_max_bytes demo_config) + 65536"
proof -
  obtain c where c: "gw_clients demo_gateway = [c]" "cl_to_dest c \<noteq> []" and g: "gw_config demo_gateway = demo_config"
    using demo_gateway_client by auto
  from c(1) have "c \<in> set (gw_clients demo_gateway)" by simp
  from only_permitted_traffic [OF demo_gateway_reachable this] c g show ?thesis by auto
qed

subsection \<open>The limit on connections\<close>

definition holding :: "client \<Rightarrow> bool" where
  "holding c \<longleftrightarrow> cl_phase c \<in> {Ph_Connecting, Ph_Open, Ph_Ending}"

definition held_ids :: "client list \<Rightarrow> string \<Rightarrow> string set" where
  "held_ids cs box = {cl_conn_id c |c. c \<in> set cs \<and> holding c \<and> sandbox_of c = box}"

definition active :: "tracker \<Rightarrow> string \<Rightarrow> string list" where
  "active t box = dget_or (ct_active t) box []"

text \<open>
  The sets of active connections never exceed the limit. While all identifiers differ they are exactly the
  connections that hold a slot.
\<close>

definition slots_ok :: "gateway \<Rightarrow> bool" where
  "slots_ok s \<longleftrightarrow>
     ct_max (gw_tracker s) = gc_max_connections (gw_config s) \<and>
     (\<forall>box. distinct (active (gw_tracker s) box) \<and> int (length (active (gw_tracker s) box)) \<le> max 0 (ct_max (gw_tracker s))) \<and>
     (distinct (map cl_conn_id (gw_clients s)) \<longrightarrow> (\<forall>box. set (active (gw_tracker s) box) = held_ids (gw_clients s) box))"

lemma mem_held: "x \<in> held_ids cs box \<longleftrightarrow> (\<exists>j<length cs. holding (cs ! j) \<and> sandbox_of (cs ! j) = box \<and> cl_conn_id (cs ! j) = x)"
  by (auto simp: held_ids_def in_set_conv_nth)

text \<open>The other clients that hold a slot.\<close>

definition others :: "nat \<Rightarrow> client list \<Rightarrow> string \<Rightarrow> string set" where
  "others i cs box = {x. \<exists>j<length cs. j \<noteq> i \<and> holding (cs ! j) \<and> sandbox_of (cs ! j) = box \<and> cl_conn_id (cs ! j) = x}"

lemma held_split:
  assumes "i < length cs"
  shows "held_ids cs box = others i cs box \<union> (if holding (cs ! i) \<and> sandbox_of (cs ! i) = box then {cl_conn_id (cs ! i)} else {})"
  using assms by (auto simp: set_eq_iff mem_held others_def)

lemma others_update [simp]: "others i (cs[i := c]) box = others i cs box"
  by (auto simp: others_def)

lemma held_update:
  assumes "distinct (map cl_conn_id cs)" "i < length cs" "cl_conn_id c = cl_conn_id (cs ! i)" "cl_addr c = cl_addr (cs ! i)"
  shows "held_ids (cs[i := c]) box =
     (if sandbox_of c = box then (if holding c then insert (cl_conn_id c) (held_ids cs box) else held_ids cs box - {cl_conn_id c}) else held_ids cs box)"
proof -
  have new: "cl_conn_id c \<notin> others i cs box"
    using assms(1,2,3) by (auto simp: others_def distinct_conv_nth)
  have box: "sandbox_of (cs ! i) = sandbox_of c" using assms(4) by (simp add: sandbox_of_def)
  have "held_ids (cs[i := c]) box = others i cs box \<union> (if holding c \<and> sandbox_of c = box then {cl_conn_id c} else {})"
    using held_split [of i "cs[i := c]" box] assms(2) by simp
  then show ?thesis using held_split [OF assms(2), of box] new box assms(3) by auto
qed

lemma ids_update:
  assumes "cl_conn_id c = cl_conn_id (cs ! i)"
  shows "map cl_conn_id (cs[i := c]) = map cl_conn_id cs"
  using assms by (cases "i < length cs") (simp_all add: map_update list_update_same_conv list_update_beyond)

lemma active_try_acquire:
  "try_acquire now box cid t = (t', True, r) \<Longrightarrow> ct_max t' = ct_max t \<and> int (length (active t box)) < ct_max t \<and>
     active t' b = (if b = box then List.insert cid (active t box) else active t b)"
  by (auto simp: try_acquire_def active_def dget_or_def Let_def dget_dset split: if_splits option.splits)

lemma active_release:
  "active (release box cid t) b = (if b = box then removeAll cid (active t box) else active t b)" "ct_max (release box cid t) = ct_max t"
  by (auto simp: release_def active_def dget_or_def dget_dset split: option.splits)

text \<open>One client changes: it keeps its slot or its lack of one, takes one, or gives it back.\<close>

lemma slots_keep:
  assumes "slots_ok s" "i < length (gw_clients s)" "gw_clients t = (gw_clients s)[i := c]" "gw_config t = gw_config s"
    "cl_conn_id c = cl_conn_id (gw_clients s ! i)" "cl_addr c = cl_addr (gw_clients s ! i)"
    "ct_max (gw_tracker t) = ct_max (gw_tracker s)"
    "ct_active (gw_tracker t) = ct_active (gw_tracker s)" "holding c = holding (gw_clients s ! i)"
  shows "slots_ok t"
proof -
  have a: "active (gw_tracker t) = active (gw_tracker s)" using assms(8) by (simp add: active_def fun_eq_iff)
  have "held_ids (gw_clients t) box = held_ids (gw_clients s) box" for box
    using assms(2,3,5,6,9) by (auto simp: set_eq_iff mem_held nth_list_update sandbox_of_def split: if_splits)
  then show ?thesis using assms(1,4,7) ids_update [OF assms(5)] unfolding slots_ok_def a assms(3) by metis
qed

lemma slots_take:
  assumes "slots_ok s" "i < length (gw_clients s)" "gw_clients t = (gw_clients s)[i := c]" "gw_config t = gw_config s"
    "cl_conn_id c = cl_conn_id (gw_clients s ! i)" "cl_addr c = cl_addr (gw_clients s ! i)"
    "try_acquire now (sandbox_of c) (cl_conn_id c) (gw_tracker s) = (gw_tracker t, True, Acquired)" "holding c"
  shows "slots_ok t"
proof -
  note a = active_try_acquire [OF assms(7)]
  have h: "distinct (map cl_conn_id (gw_clients s)) \<Longrightarrow> held_ids (gw_clients t) box =
      (if sandbox_of c = box then insert (cl_conn_id c) (held_ids (gw_clients s) box) else held_ids (gw_clients s) box)" for box
    using held_update [OF _ assms(2,5,6), of box] assms(3,8) by simp
  have "distinct (active (gw_tracker t) b) \<and> int (length (active (gw_tracker t) b)) \<le> max 0 (ct_max (gw_tracker t))" for b
    using assms(1) a [of b] by (cases "b = sandbox_of c") (auto simp: slots_ok_def List.insert_def)
  moreover have "distinct (map cl_conn_id (gw_clients t)) \<longrightarrow> (\<forall>b. set (active (gw_tracker t) b) = held_ids (gw_clients t) b)"
    using assms(1) a h ids_update [OF assms(5)] by (auto simp: slots_ok_def assms(3))
  ultimately show ?thesis using assms(1,4) a by (simp add: slots_ok_def)
qed

lemma slots_free:
  assumes "slots_ok s" "i < length (gw_clients s)" "gw_clients t = (gw_clients s)[i := c]" "gw_config t = gw_config s"
    "cl_conn_id c = cl_conn_id (gw_clients s ! i)" "cl_addr c = cl_addr (gw_clients s ! i)"
    "gw_tracker t = release (sandbox_of c) (cl_conn_id c) (gw_tracker s)" "\<not> holding c"
  shows "slots_ok t"
proof -
  have h: "distinct (map cl_conn_id (gw_clients s)) \<Longrightarrow> held_ids (gw_clients t) box =
      (if sandbox_of c = box then held_ids (gw_clients s) box - {cl_conn_id c} else held_ids (gw_clients s) box)" for box
    using held_update [OF _ assms(2,5,6), of box] assms(3,8) by simp
  have shrink: "distinct (removeAll x xs) \<and> int (length (removeAll x xs)) \<le> m" if "distinct xs \<and> int (length xs) \<le> m" for x :: string and xs m
    using that by (auto simp: distinct_removeAll removeAll_filter_not_eq intro: order_trans [of _ "int (length xs)"])
  have "distinct (active (gw_tracker t) b) \<and> int (length (active (gw_tracker t) b)) \<le> max 0 (ct_max (gw_tracker t))" for b
  proof -
    have old: "distinct (active (gw_tracker s) b) \<and> int (length (active (gw_tracker s) b)) \<le> max 0 (ct_max (gw_tracker s))" for b
      using assms(1) unfolding slots_ok_def by blast
    show ?thesis unfolding assms(7) active_release using old [of b] shrink [OF old [of "sandbox_of c"], of "cl_conn_id c"]
      by (cases "b = sandbox_of c") simp_all
  qed
  moreover have "distinct (map cl_conn_id (gw_clients t)) \<longrightarrow> (\<forall>b. set (active (gw_tracker t) b) = held_ids (gw_clients t) b)"
    using assms(1) h ids_update [OF assms(5)] by (auto simp: slots_ok_def assms(3,7) active_release)
  ultimately show ?thesis using assms(1,4) by (simp add: slots_ok_def assms(7) active_release)
qed


lemma slots_connect:
  assumes "slots_ok s" "in_phase s i [Ph_Connecting]"
  shows "slots_ok (connect_client mac now i err s)"
proof (cases "cl_info (gw_clients s ! i)")
  case None
  then show ?thesis using assms(1) by (simp add: connect_client_def)
next
  case (Some info)
  note in_phaseD [OF assms(2)]
  then have i: "i < length (gw_clients s)" and h: "holding (gw_clients s ! i)" by (auto simp: holding_def)
  show ?thesis
  proof (cases err)
    case None
    show ?thesis
      by (rule slots_keep [OF assms(1) i, where c = "(gw_clients s ! i)\<lparr>cl_phase := Ph_Open, cl_info := Some (info\<lparr>ci_decision := ''ALLOW''\<rparr>)\<rparr>"])
        (simp_all add: connect_client_def Some None Let_def h, simp add: holding_def)
  next
    case (Some e)
    show ?thesis
      by (rule slots_free [OF assms(1) i, where c = "(gw_clients s ! i)\<lparr>cl_phase := Ph_Closed, cl_info := Some (info\<lparr>ci_decision := ''DENY''\<rparr>)\<rparr>"])
        (simp_all add: connect_client_def \<open>cl_info (gw_clients s ! i) = Some info\<close> Some Let_def end_client_def holding_def sandbox_of_def)
  qed
qed

lemma slots_finish:
  assumes "slots_ok s" "in_phase s i [Ph_Open, Ph_Ending]"
  shows "slots_ok (finish_client mac now i s)"
proof (cases "cl_info (gw_clients s ! i)")
  case None
  then show ?thesis using assms(1) by (simp add: finish_client_def)
next
  case (Some info)
  have i: "i < length (gw_clients s)" using in_phaseD [OF assms(2)] by simp
  show ?thesis
    by (rule slots_free [OF assms(1) i, where c = "(gw_clients s ! i)\<lparr>cl_phase := Ph_Closed, cl_info := Some info\<rparr>"])
      (simp_all add: finish_client_def Some Let_def end_client_def holding_def sandbox_of_def)
qed

lemma slots_pump:
  assumes "slots_ok s" "in_phase s i [Ph_Open]"
  shows "slots_ok (pump_client i fc data polls failed s)"
proof (cases "cl_info (gw_clients s ! i)")
  case None
  then show ?thesis using assms(1) by (simp add: pump_client_def)
next
  case (Some info)
  let ?c = "gw_clients s ! i"
  let ?t = "snd (pump_chunk fc data polls failed (gc_max_bytes (gw_config s)) (gw_bucket s) ?c info)"
  have i: "i < length (gw_clients s)" "cl_phase ?c = Ph_Open" using in_phaseD [OF assms(2)] by auto
  have t: "cl_conn_id ?t = cl_conn_id ?c \<and> cl_addr ?t = cl_addr ?c \<and> holding ?t = holding ?c"
    using pump_chunk_cases [of fc data polls failed "gc_max_bytes (gw_config s)" "gw_bucket s" ?c info]
    by (rule disjE) (simp_all only:, simp_all add: holding_def i)
  show ?thesis
    by (rule slots_keep [OF assms(1) i(1), where c = ?t]) (simp_all add: pump_client_def Some Let_def case_prod_unfold t)
qed

lemma slots_decide:
  assumes "slots_ok s" "in_phase s i [Ph_Counted]"
  shows "slots_ok (decide_client mac now i header s)"
proof -
  let ?c = "gw_clients s ! i"
  have i: "i < length (gw_clients s)" and h: "\<not> holding ?c" using in_phaseD [OF assms(2)] by (auto simp: holding_def)
  show ?thesis
  proof (cases rule: decide_client_cases [of header mac now i s])
    case bad
    show ?thesis
      by (rule slots_keep [OF assms(1) i, where c = "?c\<lparr>cl_phase := Ph_Closed\<rparr>"]) (simp_all add: bad h, simp add: holding_def)
  next
    case (refused ip a p d r s1)
    show ?thesis
      by (rule slots_keep [OF assms(1) i, where c = "?c\<lparr>cl_phase := Ph_Closed, cl_info := Some ((new_info now ?c a p)\<lparr>ci_decision := d\<rparr>)\<rparr>"])
        (simp_all add: refused refuse_def Let_def h, simp add: holding_def)
  next
    case (go ip a p t1)
    show ?thesis
      by (rule slots_take [OF assms(1) i, where c = "?c\<lparr>cl_phase := Ph_Connecting, cl_info := Some (new_info now ?c a p)\<rparr>" and now = now])
        (use go(4) in \<open>simp_all add: go(5) holding_def sandbox_of_def\<close>)
  qed
qed

lemma slots_count:
  assumes "slots_ok s" "in_phase s i [Ph_Accepted]"
  shows "slots_ok (count_client i s)"
proof -
  have i: "i < length (gw_clients s)" and h: "\<not> holding (gw_clients s ! i)" using in_phaseD [OF assms(2)] by (auto simp: holding_def)
  show ?thesis
    by (rule slots_keep [OF assms(1) i, where c = "(gw_clients s ! i)\<lparr>cl_phase := Ph_Counted\<rparr>"])
      (simp_all add: count_client_def h, simp add: holding_def)
qed

lemma slots_accept:
  assumes "slots_ok s"
  shows "slots_ok (accept_client addr s)"
proof -
  have "held_ids (gw_clients (accept_client addr s)) box = held_ids (gw_clients s) box" for box
    by (auto simp: held_ids_def accept_client_def holding_def)
  then show ?thesis using assms unfolding slots_ok_def by (auto simp: accept_client_def)
qed

lemma slots_step: "slots_ok s \<Longrightarrow> slots_ok (gateway_step mac e s)"
  by (cases e) (simp_all add: slots_accept slots_count slots_decide slots_connect slots_pump slots_finish)

interpretation slots: machine gateway_fresh "gateway_step mac" slots_ok for mac :: "string \<Rightarrow> string \<Rightarrow> string"
proof unfold_locales
  fix s assume "gateway_fresh s"
  then show "slots_ok s" by (auto simp: gateway_fresh_def init_gateway_def slots_ok_def active_def held_ids_def dget_or_def Let_def)
qed (rule slots_step)

text \<open>
  C22. While the connections have different identifiers, the connections of a sandbox that are connecting, open
  or ending are exactly the ones the tracker counts, and never more than the configured number.
\<close>

theorem connections_within_limit:
  assumes "reachable gateway_fresh (gateway_step mac) s" "distinct (map cl_conn_id (gw_clients s))"
  shows "length (filter (\<lambda>c. holding c \<and> sandbox_of c = box) (gw_clients s)) = active_count box (gw_tracker s) \<and>
    int (active_count box (gw_tracker s)) \<le> max 0 (gc_max_connections (gw_config s))"
proof -
  let ?f = "filter (\<lambda>c. holding c \<and> sandbox_of c = box) (gw_clients s)"
  note ok = slots.inv_reachable [OF assms(1)]
  have d: "distinct (active (gw_tracker s) box)" and l: "int (length (active (gw_tracker s) box)) \<le> max 0 (ct_max (gw_tracker s))"
    and e: "set (active (gw_tracker s) box) = held_ids (gw_clients s) box" and m: "ct_max (gw_tracker s) = gc_max_connections (gw_config s)"
    using ok assms(2) unfolding slots_ok_def by blast+
  have "set (map cl_conn_id ?f) = held_ids (gw_clients s) box" by (auto simp: held_ids_def)
  moreover have "distinct (map cl_conn_id ?f)" using assms(2) by (rule distinct_map_filter)
  ultimately have "length (map cl_conn_id ?f) = length (active (gw_tracker s) box)"
    using d e by (metis distinct_card)
  then show ?thesis using l m by (simp add: active_count_def active_def)
qed

theorem connections_within_limit_witness:
  "length (filter (\<lambda>c. holding c \<and> sandbox_of c = ''sandbox-10.0.0.9'') (gw_clients demo_gateway)) =
     active_count ''sandbox-10.0.0.9'' (gw_tracker demo_gateway) \<and>
   int (active_count ''sandbox-10.0.0.9'' (gw_tracker demo_gateway)) \<le> max 0 (gc_max_connections (gw_config demo_gateway))"
proof -
  obtain c where "gw_clients demo_gateway = [c]" using demo_gateway_client by auto
  then have "distinct (map cl_conn_id (gw_clients demo_gateway))" by simp
  from connections_within_limit [OF demo_gateway_reachable this] show ?thesis by blast
qed

text \<open>
  The identifiers need not differ: the counter is read when a client is accepted and counted up by its thread.
  Clients that are accepted before any of their threads has run share one identifier, and one slot.
\<close>

definition crowd :: "(string \<Rightarrow> string \<Rightarrow> string) \<Rightarrow> nat \<Rightarrow> nat \<Rightarrow> gateway \<Rightarrow> bool" where
  "crowd mac n k s \<longleftrightarrow> reachable gateway_fresh (gateway_step mac) s \<and> gw_config s = GatewayConfig \<and> length (gw_clients s) = n \<and>
     (\<forall>i<n. cl_conn_id (gw_clients s ! i) = ''conn-'' @ dec_nat 0 \<and> cl_addr (gw_clients s ! i) = (''10.0.0.9'', 0) \<and>
        cl_phase (gw_clients s ! i) = (if i < k then Ph_Connecting else Ph_Accepted)) \<and>
     ct_max (gw_tracker s) = 64 \<and> ct_max_new (gw_tracker s) = 10 \<and>
     active (gw_tracker s) ''sandbox-10.0.0.9'' = (if k = 0 then [] else [''conn-'' @ dec_nat 0]) \<and>
     (\<forall>t\<in>set (dget_or (ct_recent (gw_tracker s)) ''sandbox-10.0.0.9'' []). t + 2 \<le> 2 * of_nat k)"

lemma crowd_arrives: "\<exists>s. crowd mac n 0 s \<and> gw_counter s = 0 \<and> gw_tracker s = gw_tracker (init_gateway 0 GatewayConfig [] True)"
proof (induction n)
  case 0
  show ?case
    by (intro exI [of _ "init_gateway 0 GatewayConfig [] True"])
      (simp add: crowd_def reachable.reach_init init_gateway_fresh,
       simp add: init_gateway_def GatewayConfig_def Let_def active_def dget_or_def)
next
  case (Suc n)
  then obtain s where s: "crowd mac n 0 s" "gw_counter s = 0" "gw_tracker s = gw_tracker (init_gateway 0 GatewayConfig [] True)" by blast
  have "reachable gateway_fresh (gateway_step mac) (gateway_step mac (GO_Accept (''10.0.0.9'', 0)) s)"
    using s(1) by (intro reachable.reach_step) (simp add: crowd_def)
  then have "crowd mac (Suc n) 0 (accept_client (''10.0.0.9'', 0) s)"
    using s(1,2) unfolding crowd_def by (simp add: accept_client_def nth_append less_Suc_eq)
  then show ?case using s(2,3) by (intro exI [of _ "accept_client (''10.0.0.9'', 0) s"]) (simp add: accept_client_def)
qed

lemma crowd_acquires:
  assumes "crowd mac n k s"
  shows "\<exists>t. try_acquire (2 * of_nat k) ''sandbox-10.0.0.9'' (''conn-'' @ dec_nat 0) (gw_tracker s) = (t, True, Acquired) \<and>
    ct_max t = 64 \<and> ct_max_new t = 10 \<and> active t ''sandbox-10.0.0.9'' = [''conn-'' @ dec_nat 0] \<and>
    (\<forall>x\<in>set (dget_or (ct_recent t) ''sandbox-10.0.0.9'' []). x + 2 \<le> 2 * of_nat (Suc k))"
proof -
  let ?tr = "gw_tracker s" and ?box = "''sandbox-10.0.0.9''" and ?id = "''conn-'' @ dec_nat 0"
  have c: "ct_max ?tr = 64" "ct_max_new ?tr = 10" "dget_or (ct_active ?tr) ?box [] = (if k = 0 then [] else [?id])"
    and r: "\<forall>t\<in>set (dget_or (ct_recent ?tr) ?box []). t + 2 \<le> 2 * of_nat k"
    using assms unfolding crowd_def active_def by blast+
  have e: "dropWhile (\<lambda>x. 2 * of_nat k - x > 1) (dget_or (ct_recent ?tr) ?box []) = []" using r by fastforce
  then have "try_acquire (2 * of_nat k) ?box ?id ?tr =
      (?tr\<lparr>ct_active := dset ?box [?id] (ct_active ?tr), ct_recent := dset ?box [2 * of_nat k] (ct_recent ?tr)\<rparr>, True, Acquired)"
    unfolding try_acquire_def c Let_def e by simp
  then show ?thesis using c(1,2) by (simp add: active_def dget_or_def dget_dset)
qed

lemma crowd_proceeds:
  assumes "crowd mac n k s" "k < n"
  shows "\<exists>t. crowd mac n (Suc k) t"
proof -
  let ?s1 = "gateway_step mac (GO_Count k) s"
  let ?s2 = "gateway_step mac (GO_Header k (2 * of_nat k) [8, 8, 8, 8, 0, 53]) ?s1"
  let ?c = "gw_clients s ! k"
  have i: "k < length (gw_clients s)" "cl_phase ?c = Ph_Accepted" "cl_conn_id ?c = ''conn-'' @ dec_nat 0" "cl_addr ?c = (''10.0.0.9'', 0)"
    using assms by (simp_all add: crowd_def)
  then have s1: "?s1 = count_client k s" by (simp add: in_phase_def)
  have c1: "gw_clients ?s1 ! k = ?c\<lparr>cl_phase := Ph_Counted\<rparr>" "gw_tracker ?s1 = gw_tracker s" "gw_config ?s1 = GatewayConfig"
      "length (gw_clients ?s1) = length (gw_clients s)" "\<And>j. j \<noteq> k \<Longrightarrow> gw_clients ?s1 ! j = gw_clients s ! j"
    using assms(1) i unfolding s1 by (simp_all add: count_client_def crowd_def)
  have box: "sandbox_of (?c\<lparr>cl_phase := Ph_Counted\<rparr>) = ''sandbox-10.0.0.9''" using i(4) by (simp add: sandbox_of_def)
  obtain why where w: "is_internal_ip (ip_of_bytes 8 8 8 8) = (False, why)"
    using internal_iff [of 8 8 8 8] by (cases "is_internal_ip (ip_of_bytes 8 8 8 8)") auto
  obtain t where t: "try_acquire (2 * of_nat k) ''sandbox-10.0.0.9'' (''conn-'' @ dec_nat 0) (gw_tracker s) = (t, True, Acquired)"
      "ct_max t = 64" "ct_max_new t = 10" "active t ''sandbox-10.0.0.9'' = [''conn-'' @ dec_nat 0]"
      "\<forall>x\<in>set (dget_or (ct_recent t) ''sandbox-10.0.0.9'' []). x + 2 \<le> 2 * of_nat (Suc k)"
    using crowd_acquires [OF assms(1)] by blast
  have ph: "in_phase ?s1 k [Ph_Counted]" using i(1) c1 by (simp add: in_phase_def)
  have s2: "?s2 = set_client k (?c\<lparr>cl_phase := Ph_Connecting, cl_info := Some (new_info (2 * of_nat k) (?c\<lparr>cl_phase := Ph_Counted\<rparr>) (dotted 8 8 8 8) 53)\<rparr>)
      (?s1\<lparr>gw_tracker := t\<rparr>)"
    unfolding gateway_step.simps(3) if_P [OF ph] decide_client_def c1 Let_def parse_header.simps option.case prod.case w box
    using i(3) t(1) by (simp add: GatewayConfig_def)
  have "reachable gateway_fresh (gateway_step mac) ?s2"
    using assms(1) by (intro reachable.reach_step) (simp add: crowd_def)
  then have "crowd mac n (Suc k) ?s2"
    using assms(1) c1 i t unfolding crowd_def s2 by (auto simp: nth_list_update less_Suc_eq)
  then show ?thesis by blast
qed

text \<open>
  Without that, the limit does not hold: for every number there is a run of the default configuration in
  which so many connections of one sandbox are connecting while the tracker counts one.
\<close>

theorem connections_overrun_limit:
  "\<exists>s. reachable gateway_fresh (gateway_step mac) s \<and> gw_config s = GatewayConfig \<and>
     length (filter (\<lambda>c. holding c \<and> sandbox_of c = ''sandbox-10.0.0.9'') (gw_clients s)) = n \<and>
     active_count ''sandbox-10.0.0.9'' (gw_tracker s) \<le> 1"
proof -
  have "k \<le> n \<Longrightarrow> \<exists>s. crowd mac n k s" for k
  proof (induction k)
    case 0
    then show ?case using crowd_arrives by blast
  next
    case (Suc k)
    then show ?case using crowd_proceeds by (metis Suc_leD Suc_le_eq)
  qed
  then obtain s where s: "crowd mac n n s" by blast
  have "holding c \<and> sandbox_of c = ''sandbox-10.0.0.9''" if "c \<in> set (gw_clients s)" for c
    using s that by (auto simp: crowd_def in_set_conv_nth holding_def sandbox_of_def)
  then have "filter (\<lambda>c. holding c \<and> sandbox_of c = ''sandbox-10.0.0.9'') (gw_clients s) = gw_clients s" by simp
  then show ?thesis using s unfolding crowd_def active_def active_count_def by (intro exI [of _ s]) auto
qed

subsection \<open>The bandwidth bound\<close>

text \<open>Chunks that wait for their tokens, one after the other, and the tokens granted in all.\<close>

fun run_waits :: "(time list \<times> rat) list \<Rightarrow> token_bucket \<Rightarrow> token_bucket \<times> rat" where
  "run_waits [] b = (b, 0)"
| "run_waits ((ts, n) # ws) b =
     (let (b1, ok) = wait_for_tokens ts n b; (b2, got) = run_waits ws b1 in (b2, (if ok then n else 0) + got))"

definition bucket_ok :: "time \<Rightarrow> token_bucket \<Rightarrow> bool" where
  "bucket_ok t b \<longleftrightarrow> 0 \<le> tb_rate b \<and> 0 \<le> tb_tokens b \<and> tb_tokens b \<le> tb_max b \<and> tb_last b \<le> t"

text \<open>What a bucket could have granted since time 0.\<close>

definition credit :: "token_bucket \<Rightarrow> rat" where
  "credit b = tb_tokens b - tb_last b * tb_rate b"

lemma consume_spec:
  assumes "consume t n b = (b', ok)" "bucket_ok t b" "0 \<le> n"
  shows "bucket_ok t b' \<and> tb_rate b' = tb_rate b \<and> tb_max b' = tb_max b \<and> (if ok then n else 0) + credit b' \<le> credit b"
proof -
  let ?m = "min (tb_max b) (tb_tokens b + (t - tb_last b) * tb_rate b)"
  have "0 \<le> (t - tb_last b) * tb_rate b" using assms(2) by (simp add: bucket_ok_def)
  then have m: "0 \<le> ?m" "?m \<le> tb_max b" "?m \<le> tb_tokens b + (t - tb_last b) * tb_rate b" using assms(2) by (auto simp: bucket_ok_def)
  have b: "b' = b\<lparr>tb_tokens := ?m - (if ok then n else 0), tb_last := t\<rparr>" "ok \<longleftrightarrow> n \<le> ?m"
    using assms(1) by (auto simp: consume_def Let_def split: if_splits)
  show ?thesis using m b(2) assms(2,3) unfolding b(1) bucket_ok_def credit_def by (auto simp: algebra_simps)
qed

lemma wait_spec:
  assumes "wait_for_tokens ts n b = (b', ok)" "bucket_ok t0 b" "sorted (t0 # ts @ [t1])" "0 \<le> n"
  shows "bucket_ok t1 b' \<and> tb_rate b' = tb_rate b \<and> tb_max b' = tb_max b \<and> (if ok then n else 0) + credit b' \<le> credit b"
  using assms
proof (induction ts arbitrary: b t0)
  case Nil
  then show ?case by (auto simp: bucket_ok_def)
next
  case (Cons t ts)
  obtain b1 k where c: "consume t n b = (b1, k)" by (cases "consume t n b")
  have "bucket_ok t b" using Cons.prems(2,3) by (simp add: bucket_ok_def)
  note st = consume_spec [OF c this Cons.prems(4)]
  show ?case
  proof (cases k)
    case True
    then show ?thesis using st c Cons.prems(1,3) by (auto simp: bucket_ok_def)
  next
    case False
    then have "wait_for_tokens ts n b1 = (b', ok)" using c Cons.prems(1) by simp
    from Cons.IH [OF this _ _ Cons.prems(4), of t] st False Cons.prems(3) show ?thesis by auto
  qed
qed

lemma sorted_le_last: "sorted ts \<Longrightarrow> x \<in> set ts \<Longrightarrow> x \<le> last ts"
  by (induction ts) auto

lemma run_waits_spec:
  assumes "run_waits ws b = (b', got)" "bucket_ok t0 b" "sorted (t0 # concat (map fst ws) @ [t1])" "\<forall>w\<in>set ws. 0 \<le> snd w"
  shows "bucket_ok t1 b' \<and> tb_rate b' = tb_rate b \<and> tb_max b' = tb_max b \<and> got + credit b' \<le> credit b"
  using assms
proof (induction ws arbitrary: b b' got t0)
  case Nil
  then show ?case by (auto simp: bucket_ok_def)
next
  case (Cons w ws)
  obtain ts n where w: "w = (ts, n)" by (cases w)
  obtain b1 ok where c: "wait_for_tokens ts n b = (b1, ok)" by (cases "wait_for_tokens ts n b")
  obtain got1 where r: "run_waits ws b1 = (b', got1)" and got: "got = (if ok then n else 0) + got1"
    using Cons.prems(1) c by (auto simp: w split: prod.splits)
  let ?t = "last (t0 # ts)"
  have s: "sorted (t0 # ts @ [?t])" "sorted (?t # concat (map fst ws) @ [t1])"
    using Cons.prems(3) by (auto simp: w sorted_append intro: sorted_le_last)
  have "0 \<le> n" using Cons.prems(4) by (simp add: w)
  note st = wait_spec [OF c Cons.prems(2) s(1) this]
  from Cons.IH [OF r _ s(2)] st Cons.prems(4) got show ?case by auto
qed

text \<open>Filling up at a time before the next request changes nothing.\<close>

definition refill :: "time \<Rightarrow> token_bucket \<Rightarrow> token_bucket" where
  "refill t b = fst (consume t 0 b)"

lemma refill_simps:
  "bucket_ok t b \<Longrightarrow> refill t b = b\<lparr>tb_tokens := min (tb_max b) (tb_tokens b + (t - tb_last b) * tb_rate b), tb_last := t\<rparr>"
  by (simp add: refill_def consume_def Let_def)

lemma consume_refill:
  assumes "bucket_ok t0 b" "t0 \<le> t"
  shows "consume t n (refill t0 b) = consume t n b"
proof -
  have "0 \<le> (t - t0) * tb_rate b" using assms by (simp add: bucket_ok_def)
  then have "min (tb_max b) (min (tb_max b) (tb_tokens b + (t0 - tb_last b) * tb_rate b) + (t - t0) * tb_rate b) =
      min (tb_max b) (tb_tokens b + (t - tb_last b) * tb_rate b)"
    by (simp add: min_def algebra_simps)
  then show ?thesis unfolding refill_simps [OF assms(1)] consume_def by (simp add: Let_def)
qed

lemma run_waits_refill:
  assumes "bucket_ok t0 b" "sorted (t0 # concat (map fst ws))"
  shows "snd (run_waits ws (refill t0 b)) = snd (run_waits ws b)"
  using assms(2)
proof (induction ws)
  case Nil
  then show ?case by simp
next
  case (Cons w ws)
  show ?case
  proof (cases "fst w")
    case Nil
    then show ?thesis using Cons by (cases w) (simp add: case_prod_unfold Let_def)
  next
    case (Cons t ts)
    then have "wait_for_tokens (fst w) n (refill t0 b) = wait_for_tokens (fst w) n b" for n
      using \<open>sorted (t0 # concat (map fst (w # ws)))\<close> by (simp add: consume_refill [OF assms(1)])
    then show ?thesis by (cases w) simp
  qed
qed

lemma bucket_ok_refill:
  assumes "bucket_ok t b"
  shows "bucket_ok t (refill t b) \<and> credit (refill t b) \<le> tb_max b - t * tb_rate b \<and>
    tb_rate (refill t b) = tb_rate b \<and> tb_max (refill t b) = tb_max b"
proof -
  have "consume t 0 b = (refill t b, snd (consume t 0 b))" by (simp add: refill_def)
  from consume_spec [OF this assms] have "bucket_ok t (refill t b)" "tb_rate (refill t b) = tb_rate b" "tb_max (refill t b) = tb_max b"
    by simp_all
  then show ?thesis using refill_simps [OF assms] by (simp add: credit_def)
qed

text \<open>
  C23. Between any two times the bucket lets through no more than its capacity and what the rate gives for
  the time between them, whatever was sent before.
\<close>

theorem bandwidth_bound:
  assumes "run_waits before (init_bucket now rate m) = (b, got)" "0 \<le> rate" "0 \<le> m" "\<forall>w\<in>set (before @ ws). 0 \<le> snd w"
    "sorted (now # concat (map fst before) @ [t0])" "sorted (t0 # concat (map fst ws) @ [t1])"
  shows "snd (run_waits ws b) \<le> m + (t1 - t0) * rate"
proof -
  have "bucket_ok now (init_bucket now rate m)" using assms(2,3) by (simp add: bucket_ok_def init_bucket_def)
  with run_waits_spec [OF assms(1) this assms(5)] assms(4)
  have b: "bucket_ok t0 b" "tb_rate b = rate" "tb_max b = m" by (simp_all add: init_bucket_def)
  note f = bucket_ok_refill [OF b(1)]
  obtain b2 got2 where r: "run_waits ws (refill t0 b) = (b2, got2)" by (cases "run_waits ws (refill t0 b)")
  have "snd (run_waits ws b) = got2"
    using run_waits_refill [OF b(1), of ws] assms(6) r by (simp add: sorted_append)
  moreover have "bucket_ok t1 b2 \<and> got2 + credit b2 \<le> credit (refill t0 b) \<and> tb_rate b2 = rate"
    using run_waits_spec [OF r _ assms(6)] f assms(4) b by simp
  then have "got2 \<le> credit (refill t0 b) + tb_last b2 * rate" "tb_last b2 * rate \<le> t1 * rate"
    using assms(2) by (auto simp: credit_def bucket_ok_def intro: mult_right_mono)
  ultimately show ?thesis using f b by (simp add: algebra_simps)
qed

theorem bandwidth_bound_witness:
  "snd (run_waits [([3, 5], 4), ([5], 100)] (init_bucket 0 (2 :: rat) 10)) \<le> 10 + (6 - 2) * 2"
  using bandwidth_bound [of "[]" 0 2 10 "init_bucket 0 2 10" 0 "[([3, 5], 4), ([5], 100)]" 2 6] by simp

subsection \<open>Names in queries\<close>

text \<open>The wire format of a name: each label after its length, then a zero.\<close>

definition wire_label :: "string \<Rightarrow> byte list" where
  "wire_label l = of_nat (length l) # map (\<lambda>c. of_nat (of_char c)) l"

definition wire_name :: "string list \<Rightarrow> byte list" where
  "wire_name ls = concat (map wire_label ls) @ [0]"

definition plain_label :: "string \<Rightarrow> bool" where
  "plain_label l \<longleftrightarrow> l \<noteq> [] \<and> length l < 64 \<and> (\<forall>c\<in>set l. of_char c < (128 :: nat))"

lemma unat_of_nat_byte: "n < 256 \<Longrightarrow> unat (of_nat n :: byte) = n"
  by (simp add: unat_of_nat)

lemma low_lengths: "n < 64 \<Longrightarrow> (of_nat n :: byte) AND 0xC0 = 0"
proof -
  have "list_all (\<lambda>k. (of_nat k :: byte) AND 0xC0 = 0) [0..<64]" by code_simp
  then show "n < 64 \<Longrightarrow> (of_nat n :: byte) AND 0xC0 = 0" by (simp add: list_all_iff)
qed

lemma lower_wire:
  assumes "\<forall>c\<in>set l. of_char c < (128 :: nat)"
  shows "concat (map lower_byte (map (\<lambda>c. of_nat (of_char c)) l)) = lower l"
  using assms
proof (induction l)
  case Nil
  then show ?case by (simp add: lower_def)
next
  case (Cons c l)
  then have c: "of_char c < (128 :: nat)" by simp
  then have u: "unat (of_nat (of_char c) :: byte) = of_char c" by (simp add: unat_of_nat_byte)
  have "(of_nat (of_char c) :: byte) < 128" using c by (simp only: word_less_nat_alt u) simp
  then have "lower_byte (of_nat (of_char c)) = [lower_char c]" by (simp add: lower_byte_def u)
  then show ?case using Cons by (simp add: lower_def)
qed

lemma labels_wire:
  "list_all plain_label ls \<Longrightarrow> labels (wire_name ls @ rest) = map lower ls"
proof (induction ls)
  case Nil
  then show ?case by (simp add: wire_name_def)
next
  case (Cons l ls)
  then have l: "l \<noteq> []" "length l < 64" "\<forall>c\<in>set l. of_char c < (128 :: nat)" by (simp_all add: plain_label_def)
  let ?b = "map (\<lambda>c. of_nat (of_char c)) l :: byte list" and ?n = "of_nat (length l) :: byte"
  have u: "unat ?n = length ?b" using l(2) by (simp add: unat_of_nat_byte)
  then have n: "?n \<noteq> 0" using l(1) by auto
  have "labels (wire_name (l # ls) @ rest) = labels (?n # ?b @ wire_name ls @ rest)" by (simp add: wire_name_def wire_label_def)
  also have "\<dots> = concat (map lower_byte ?b) # labels (wire_name ls @ rest)"
    unfolding labels.simps(2) u using n low_lengths [OF l(2)] by simp
  finally show ?case using Cons lower_wire [OF l(3)] by simp
qed

lemma parse_domain_wire:
  "length hdr = 12 \<Longrightarrow> list_all plain_label ls \<Longrightarrow> parse_domain (hdr @ wire_name ls @ rest) = join ''.'' (map lower ls)"
  by (simp add: parse_domain_def labels_wire)

lemma join_nonempty: "ls \<noteq> [] \<Longrightarrow> hd ls \<noteq> [] \<Longrightarrow> join sep ls \<noteq> []"
  by (induction sep ls rule: join.induct) auto

text \<open>
  A query for a name that matches a forbidden pattern is read back as the name in lower case and answered
  with the code for refusal under the identifier of the query, whatever the servers would say; no server is asked.
\<close>

theorem forbidden_names_refused:
  assumes "length hdr = 12" "list_all plain_label ls" "ls \<noteq> []"
    "p \<in> set (gc_domain_blacklist cfg)" "domain_matches (join ''.'' (map lower ls)) p"
  shows "parse_domain (hdr @ wire_name ls @ rest) = join ''.'' (map lower ls) \<and>
    handle_query cfg upstream (hdr @ wire_name ls @ rest) = Some (take 2 hdr @ [0x80, 0x05] @ take 8 (drop 4 hdr))"
proof -
  note d = parse_domain_wire [OF assms(1,2), of rest]
  have "join ''.'' (map lower ls) \<noteq> []"
    using assms(2,3) by (intro join_nonempty) (cases ls; simp add: plain_label_def lower_def)+
  then have "list_ex (\<lambda>p. join ''.'' (map lower ls) \<noteq> [] \<and> domain_matches (join ''.'' (map lower ls)) p) (gc_domain_blacklist cfg)"
    using assms(4,5) by (auto simp: list_ex_iff)
  moreover have "refused (hdr @ wire_name ls @ rest) = Some (take 2 hdr @ [0x80, 0x05] @ take 8 (drop 4 hdr))"
    using assms(1) by (simp add: refused_def)
  ultimately show ?thesis unfolding handle_query_def d Let_def by simp
qed

theorem forbidden_names_refused_witness:
  "\<forall>upstream. handle_query GatewayConfig upstream (replicate 12 7 @ wire_name [''www'', ''EVIL'', ''com''] @ [0, 1, 0, 1]) =
     Some ([7, 7, 0x80, 0x05] @ replicate 8 7)"
proof
  fix upstream
  have "domain_matches (join ''.'' (map lower [''www'', ''EVIL'', ''com''])) ''*.evil.com''" by code_simp
  moreover have "list_all plain_label [''www'', ''EVIL'', ''com'']" by code_simp
  ultimately show "handle_query GatewayConfig upstream (replicate 12 7 @ wire_name [''www'', ''EVIL'', ''com''] @ [0, 1, 0, 1]) =
     Some ([7, 7, 0x80, 0x05] @ replicate 8 7)"
    using forbidden_names_refused [of "replicate 12 7" "[''www'', ''EVIL'', ''com'']" "''*.evil.com''" GatewayConfig "[0, 1, 0, 1]" upstream]
    by (simp add: GatewayConfig_def numeral_eq_Suc)
qed

subsection \<open>The audit file\<close>

fun gateway_chain :: "(string \<Rightarrow> string \<Rightarrow> string) \<Rightarrow> string \<Rightarrow> string \<Rightarrow> audit_entry list \<Rightarrow> bool" where
  "gateway_chain mac key prev [] = True"
| "gateway_chain mac key prev (e # es) \<longleftrightarrow>
     ae_prev_hash e = prev \<and>
     ae_hash e = mac key (audit_text (ae_conn_id e) (ae_tenant_id e) (ae_token_id e) (ae_dest e) (ae_domain e) (ae_decision e) (ae_reason e) prev) \<and>
     gateway_chain mac key (ae_hash e) es"

definition last_hash :: "string \<Rightarrow> audit_entry list \<Rightarrow> string" where
  "last_hash prev es = (if es = [] then prev else ae_hash (last es))"

lemma gateway_chain_append:
  "gateway_chain mac key prev (es @ [e]) \<longleftrightarrow> gateway_chain mac key prev es \<and> gateway_chain mac key (last_hash prev es) [e]"
  by (induction es arbitrary: prev) (auto simp: last_hash_def)

definition log_ok :: "(string \<Rightarrow> string \<Rightarrow> string) \<Rightarrow> audit_log \<Rightarrow> bool" where
  "log_ok mac l \<longleftrightarrow> (al_writable l \<longrightarrow>
     gateway_chain mac (al_key l) (replicate 64 CHR ''0'') (al_file l) \<and> al_last_hash l = last_hash (replicate 64 CHR ''0'') (al_file l))"

lemma log_ok_audit: "log_ok mac l \<Longrightarrow> log_ok mac (log_audit mac now info reason l)"
  by (simp add: log_ok_def log_audit_def Let_def gateway_chain_append) (simp add: last_hash_def)

text \<open>Every operation leaves the log alone or adds one entry.\<close>

lemma log_step:
  "gw_audit (gateway_step mac e s) = gw_audit s \<or> (\<exists>now info r. gw_audit (gateway_step mac e s) = log_audit mac now info r (gw_audit s))"
proof (cases e)
  case (GO_Header i now h)
  have "gw_audit (decide_client mac now i h s) = gw_audit s \<or> (\<exists>t info r. gw_audit (decide_client mac now i h s) = log_audit mac t info r (gw_audit s))"
  proof (cases rule: decide_client_cases [of h mac now i s])
    case (refused ip a p d r s1)
    then have "gw_audit (decide_client mac now i h s) = log_audit mac now ((new_info now (gw_clients s ! i) a p)\<lparr>ci_decision := d\<rparr>) r (gw_audit s)"
      by (simp add: refuse_def Let_def)
    then show ?thesis by blast
  qed simp_all
  then show ?thesis by (auto simp: GO_Header)
next
  case (GO_Connect i now err)
  have "gw_audit (connect_client mac now i err s) = gw_audit s \<or> (\<exists>t info r. gw_audit (connect_client mac now i err s) = log_audit mac t info r (gw_audit s))"
    by (auto simp: connect_client_def end_client_def Let_def split: option.split)
  then show ?thesis by (auto simp: GO_Connect)
next
  case (GO_Finish i now)
  have "gw_audit (finish_client mac now i s) = gw_audit s \<or> (\<exists>t info r. gw_audit (finish_client mac now i s) = log_audit mac t info r (gw_audit s))"
    by (auto simp: finish_client_def end_client_def Let_def split: option.split)
  then show ?thesis by (auto simp: GO_Finish)
qed (simp_all add: accept_client_def count_client_def pump_client_def Let_def split: option.split prod.split)

interpretation gateway_log: machine gateway_fresh "gateway_step mac" "\<lambda>s. log_ok mac (gw_audit s)" for mac :: "string \<Rightarrow> string \<Rightarrow> string"
proof unfold_locales
  fix s :: gateway assume "gateway_fresh s"
  then show "log_ok mac (gw_audit s)" by (auto simp: gateway_fresh_def init_gateway_def init_audit_def log_ok_def last_hash_def Let_def)
next
  fix s :: gateway and e assume "log_ok mac (gw_audit s)"
  then show "log_ok mac (gw_audit (gateway_step mac e s))" using log_step [of mac e s] log_ok_audit by metis
qed

lemma writable_step:
  fixes s :: gateway
  shows "al_writable (gw_audit (gateway_step mac e s)) = al_writable (gw_audit s)"
  using log_step [of mac e s] by (auto simp: log_audit_def Let_def)

lemma writable_run:
  fixes s :: gateway
  shows "al_writable (gw_audit (fold (gateway_step mac) es s)) = al_writable (gw_audit s)"
  by (induction es arbitrary: s) (simp_all add: writable_step)

text \<open>
  While the file can be written it is always a chain: each entry holds the hash of the one before and its own
  keyed hash over that hash. An entry that cannot be written still moves the chain on: the next entry that gets
  into the file does not link to it.
\<close>

theorem audit_file_is_chain:
  assumes "reachable gateway_fresh (gateway_step mac) s" "al_writable (gw_audit s)"
  shows "gateway_chain mac (al_key (gw_audit s)) (replicate 64 CHR ''0'') (al_file (gw_audit s)) \<and>
    (\<forall>now info r now' info' r'. let l = log_audit mac now info r (gw_audit s\<lparr>al_writable := False\<rparr>);
       l' = log_audit mac now' info' r' (l\<lparr>al_writable := True\<rparr>)
     in gateway_chain mac (al_key l') (replicate 64 CHR ''0'') (al_file l') = (al_last_hash l = al_last_hash (gw_audit s)))"
proof -
  let ?z = "replicate 64 CHR ''0''" and ?l = "gw_audit s"
  have c: "gateway_chain mac (al_key ?l) ?z (al_file ?l)" and h: "al_last_hash ?l = last_hash ?z (al_file ?l)"
    using gateway_log.inv_reachable [OF assms(1)] assms(2) by (simp_all add: log_ok_def)
  then show ?thesis by (auto simp: log_audit_def Let_def gateway_chain_append)
qed

theorem audit_file_is_chain_witness:
  "gateway_chain (\<lambda>k t. t) (al_key (gw_audit demo_gateway)) (replicate 64 CHR ''0'') (al_file (gw_audit demo_gateway))"
proof -
  have "al_writable (gw_audit demo_gateway)"
    unfolding demo_gateway_def writable_run by (simp add: init_gateway_def init_audit_def Let_def)
  with audit_file_is_chain [OF demo_gateway_reachable] show ?thesis by blast
qed

end
