(* ===== verification/M2_Gateway.thy ===== *)
theory M2_Gateway
  imports Regex_Search "HOL-Library.Multiset"
begin

text \<open>
  \<open>evolution/m2_gateway.py\<close>: the filter in front of the sandbox that scores code by the features found in
  it. The patterns are the ones of the code, as syntax trees; each of them has at most one way to match at a
  position or prefers the longest, so \<open>re.finditer\<close> is the list of leftmost longest matches. The digest,
  the clock and the random part of the request identifier are arguments. Scores are exact rationals; texts are
  given in English.
\<close>

subsection \<open>Finding all matches\<close>

text \<open>The longest match at the start of a text.\<close>

fun longest :: "rx \<Rightarrow> string \<Rightarrow> nat option" where
  "longest r [] = (if nullable r then Some 0 else None)"
| "longest r (c # s) =
     (case longest (deriv c r) s of Some n \<Rightarrow> Some (Suc n) | None \<Rightarrow> if nullable r then Some 0 else None)"

lemma longest_None: "longest r s = None \<longleftrightarrow> (\<forall>n\<le>length s. \<not> matches r (take n s))"
proof (induction s arbitrary: r)
  case Nil
  then show ?case by (simp add: nullable_iff)
next
  case (Cons c s)
  have "(\<forall>n\<le>length (c # s). \<not> matches r (take n (c # s))) \<longleftrightarrow>
      \<not> matches r [] \<and> (\<forall>n\<le>length s. \<not> matches (deriv c r) (take n s))"
  proof (intro iffI conjI allI impI)
    fix n assume "\<not> matches r [] \<and> (\<forall>n\<le>length s. \<not> matches (deriv c r) (take n s))" "n \<le> length (c # s)"
    then show "\<not> matches r (take n (c # s))" by (cases n) (auto simp: deriv_iff)
  next
    assume a: "\<forall>n\<le>length (c # s). \<not> matches r (take n (c # s))"
    then show "\<not> matches r []" by (metis le0 take0)
    fix n assume "n \<le> length s"
    with a show "\<not> matches (deriv c r) (take n s)" by (auto simp: deriv_iff dest: spec [of _ "Suc n"])
  qed
  then show ?case using Cons.IH [of "deriv c r"] by (auto simp: nullable_iff split: option.splits)
qed

lemma longest_Some:
  "longest r s = Some n \<Longrightarrow> n \<le> length s \<and> matches r (take n s) \<and> (\<forall>m. n < m \<and> m \<le> length s \<longrightarrow> \<not> matches r (take m s))"
proof (induction s arbitrary: r n)
  case Nil
  then show ?case by (simp add: nullable_iff split: if_splits)
next
  case (Cons c s)
  show ?case
  proof (cases "longest (deriv c r) s")
    case None
    then have "n = 0" "matches r []" using Cons.prems by (auto simp: nullable_iff split: if_splits)
    moreover have "\<not> matches r (take m (c # s))" if "0 < m" "m \<le> length (c # s)" for m
      using None that by (cases m) (auto simp: longest_None deriv_iff)
    ultimately show ?thesis by simp
  next
    case (Some k)
    then have n: "n = Suc k" using Cons.prems by simp
    have k: "k \<le> length s" "matches (deriv c r) (take k s)" "\<And>m. k < m \<Longrightarrow> m \<le> length s \<Longrightarrow> \<not> matches (deriv c r) (take m s)"
      using Cons.IH [OF Some] by blast+
    have "\<not> matches r (take m (c # s))" if "n < m" "m \<le> length (c # s)" for m
      using k(3) [of "m - 1"] that n by (cases m) (auto simp: deriv_iff)
    then show ?thesis using k n by (simp add: deriv_iff)
  qed
qed

text \<open>A pattern may start with a word boundary; all of these go on with a letter or \<open>\\<close>.\<close>

record pattern =
  pt_boundary :: bool
  pt_rx :: rx

definition is_word :: "char \<Rightarrow> bool" where
  "is_word c = (let n = of_char c :: nat in
     48 \<le> n \<and> n \<le> 57 \<or> 65 \<le> n \<and> n \<le> 90 \<or> 97 \<le> n \<and> n \<le> 122 \<or> n = 95 \<or> n \<in> {170, 178, 179, 181, 185, 186, 188, 189, 190} \<or>
     192 \<le> n \<and> n \<noteq> 215 \<and> n \<noteq> 247)"

text \<open>The matches of a pattern in a text, as start and length; \<open>i\<close> and \<open>prev\<close> are the position and the character before it.\<close>

function finditer :: "pattern \<Rightarrow> char option \<Rightarrow> nat \<Rightarrow> string \<Rightarrow> (nat \<times> nat) list" where
  "finditer p prev i [] = []"
| "finditer p prev i (c # s) =
     (case (if pt_boundary p \<and> (case prev of Some d \<Rightarrow> is_word d | None \<Rightarrow> False) then None else longest (pt_rx p) (c # s)) of
        Some (Suc n) \<Rightarrow> (i, Suc n) # finditer p (Some ((c # s) ! n)) (i + Suc n) (drop n s)
      | _ \<Rightarrow> finditer p (Some c) (i + 1) s)"
  by pat_completeness auto
termination
  by (relation "measure (\<lambda>(p, prev, i, s). length s)") auto

text \<open>Every match reported is one: it lies in the text, is not empty, and matches.\<close>

lemma finditer_sound:
  "(a, n) \<in> set (finditer p prev i s) \<Longrightarrow>
   i \<le> a \<and> 0 < n \<and> a + n \<le> i + length s \<and> matches (pt_rx p) (take n (drop (a - i) s))"
proof (induction p prev i s rule: finditer.induct)
  case (1 p prev i)
  then show ?case by simp
next
  case (2 p prev i c s)
  let ?m = "if pt_boundary p \<and> (case prev of Some d \<Rightarrow> is_word d | None \<Rightarrow> False) then None else longest (pt_rx p) (c # s)"
  have later: ?case if "(a, n) \<in> set (finditer p q (i + Suc k) (drop k s))"
      "i + Suc k \<le> a \<and> 0 < n \<and> a + n \<le> i + Suc k + length (drop k s) \<and> matches (pt_rx p) (take n (drop (a - (i + Suc k)) (drop k s)))" for k q
  proof -
    have d: "drop (a - i) (c # s) = drop (a - (i + Suc k)) (drop k s)"
      using that(2) by (cases "a - i") (auto simp: drop_drop intro!: arg_cong2 [where f = drop])
    show ?thesis unfolding d using that(2) by (cases "k \<le> length s") auto
  qed
  show ?case
  proof (cases "?m = None \<or> ?m = Some 0")
    case True
    then have m: "(a, n) \<in> set (finditer p (Some c) (i + 1) s)" using 2(4) by (auto split: option.splits if_splits)
    have "i + 1 \<le> a \<and> 0 < n \<and> a + n \<le> i + 1 + length s \<and> matches (pt_rx p) (take n (drop (a - (i + 1)) s))"
      using True
    proof (elim disjE)
      assume "?m = None"
      from 2(1) [OF this m] show ?thesis .
    next
      assume "?m = Some 0"
      from 2(2) [OF this refl m] show ?thesis .
    qed
    then show ?thesis using later [of "Some c" 0] m by simp
  next
    case False
    then obtain k where k: "?m = Some (Suc k)" by (metis option.exhaust old.nat.exhaust)
    then have l: "longest (pt_rx p) (c # s) = Some (Suc k)" by (auto split: if_splits)
    have "(a, n) = (i, Suc k) \<or> (a, n) \<in> set (finditer p (Some ((c # s) ! k)) (i + Suc k) (drop k s))"
      using 2(4) k by (auto split: option.splits if_splits)
    then show ?thesis
    proof
      assume "(a, n) = (i, Suc k)"
      then show ?thesis using longest_Some [OF l] by auto
    next
      assume m: "(a, n) \<in> set (finditer p (Some ((c # s) ! k)) (i + Suc k) (drop k s))"
      with 2(3) [OF k] show ?thesis by (intro later [OF m]) blast
    qed
  qed
qed

subsection \<open>Data\<close>

datatype m2_risk = M2_SAFE | M2_LOW | M2_MEDIUM | M2_HIGH | M2_CRITICAL

datatype m2_decision = M2_ALLOW | M2_WARN | M2_REJECT | M2_QUARANTINE

datatype feature_type = DANGEROUS_API | SYSTEM_CALL | FILE_OPERATION | NETWORK_OPERATION | PROCESS_OPERATION
  | CODE_EXECUTION | OBFUSCATION | PRIVILEGE_ESCALATION | DATA_EXFILTRATION | SANDBOX_EVASION

fun feature_value :: "feature_type \<Rightarrow> string" where
  "feature_value DANGEROUS_API = ''dangerous_api''"
| "feature_value SYSTEM_CALL = ''system_call''"
| "feature_value FILE_OPERATION = ''file_operation''"
| "feature_value NETWORK_OPERATION = ''network_operation''"
| "feature_value PROCESS_OPERATION = ''process_operation''"
| "feature_value CODE_EXECUTION = ''code_execution''"
| "feature_value OBFUSCATION = ''obfuscation''"
| "feature_value PRIVILEGE_ESCALATION = ''privilege_escalation''"
| "feature_value DATA_EXFILTRATION = ''data_exfiltration''"
| "feature_value SANDBOX_EVASION = ''sandbox_evasion''"

record semantic_feature =
  sf_feature_type :: feature_type
  sf_description :: string
  sf_location :: string
  sf_severity :: m2_risk
  sf_confidence :: rat
  sf_context :: string

record semantic_momentum =
  sm_risk_score :: rat
  sm_risk_delta :: rat
  sm_momentum :: rat
  sm_anomaly_score :: rat
  sm_feature_count :: nat
  sm_high_risk_feature_count :: nat
  sm_obfuscation_detected :: bool
  sm_baseline_risk :: rat

record m2_result =
  mr_request_id :: string
  mr_timestamp :: time
  mr_decision :: m2_decision
  mr_risk_level :: m2_risk
  mr_risk_score :: rat
  mr_momentum :: semantic_momentum
  mr_features :: "semantic_feature list"
  mr_reasons :: "string list"
  mr_code_hash :: string
  mr_code_length :: nat
  mr_processing_time_ms :: int
  mr_tenant_id :: string
  mr_sandbox_type :: string

record m2_gateway =
  m2_baseline_risk :: rat
  m2_obfuscation :: bool
  m2_momentum :: bool
  m2_thresholds :: "(m2_decision, rat) dict"
  m2_audit_log :: "m2_result list"
  m2_max_audit_log :: nat
  m2_total :: int
  m2_allowed :: int
  m2_warned :: int
  m2_rejected :: int
  m2_quarantined :: int

subsection \<open>Patterns\<close>

text \<open>A literal, with case.\<close>

definition exact :: "string \<Rightarrow> rx" where
  "exact s = foldr (\<lambda>c r. Seq (Cls (\<lambda>x. x = c)) r) s One"

abbreviation call :: rx where "call \<equiv> Seq (star space) (exact ''('')"

definition bounded :: "rx list \<Rightarrow> pattern" where
  "bounded rs = \<lparr>pt_boundary = True, pt_rx = seqs rs\<rparr>"

abbreviation quoted_after_open :: "rx list \<Rightarrow> pattern" where
  "quoted_after_open rs \<equiv> bounded ([exact ''open'', call, star (Cls (\<lambda>c. c \<noteq> CHR '')'')), one_of [CHR 0x27, CHR 0x22], exact ''/''] @ rs)"

definition DANGEROUS_PATTERNS :: "(pattern \<times> feature_type) list" where
  "DANGEROUS_PATTERNS =
     [(bounded [exact ''eval'', call], CODE_EXECUTION),
      (bounded [exact ''exec'', call], CODE_EXECUTION),
      (bounded [exact ''compile'', call], CODE_EXECUTION),
      (bounded [exact ''os.system'', call], SYSTEM_CALL),
      (bounded [exact ''os.popen'', call], SYSTEM_CALL),
      (bounded [exact ''subprocess.'', alts [exact ''run'', exact ''Popen'', exact ''call'', exact ''check_output''], call], SYSTEM_CALL),
      (quoted_after_open [alts [exact ''etc'', exact ''proc'', exact ''sys'', exact ''dev'']], FILE_OPERATION),
      (bounded [exact ''os.remove'', call], FILE_OPERATION),
      (bounded [exact ''os.rmdir'', call], FILE_OPERATION),
      (bounded [exact ''shutil.rmtree'', call], FILE_OPERATION),
      (bounded [exact ''socket.socket'', call], NETWORK_OPERATION),
      (bounded [exact ''requests.'', alts [exact ''get'', exact ''post'', exact ''put'', exact ''delete''], call], NETWORK_OPERATION),
      (bounded [exact ''urllib.request.urlopen'', call], NETWORK_OPERATION),
      (bounded [exact ''os.fork'', call], PROCESS_OPERATION),
      (bounded [exact ''os.execv'', opt (exact ''p''), call], PROCESS_OPERATION),
      (bounded [exact ''multiprocessing.Process'', call], PROCESS_OPERATION),
      (bounded [exact ''os.setuid'', call], PRIVILEGE_ESCALATION),
      (bounded [exact ''os.setgid'', call], PRIVILEGE_ESCALATION),
      (bounded [exact ''sudo'', plus1 space], PRIVILEGE_ESCALATION),
      (bounded [exact ''base64.b64encode'', call], DATA_EXFILTRATION),
      (quoted_after_open [exact ''dev/tcp''], DATA_EXFILTRATION),
      (bounded [exact ''ptrace'', call], SANDBOX_EVASION),
      (bounded [exact ''nsenter'', plus1 space], SANDBOX_EVASION),
      (bounded [exact ''mount'', plus1 space, exact ''--bind''], SANDBOX_EVASION),
      (bounded [exact ''chroot'', plus1 space], SANDBOX_EVASION)]"

definition hex_digit :: rx where
  "hex_digit = one_of ''0123456789abcdefABCDEF''"

definition anywhere :: "rx list \<Rightarrow> pattern" where
  "anywhere rs = \<lparr>pt_boundary = False, pt_rx = seqs rs\<rparr>"

definition OBFUSCATION_PATTERNS :: "(pattern \<times> string) list" where
  "OBFUSCATION_PATTERNS =
     [(anywhere [exact [CHR 0x5C, CHR ''x''], hex_digit, hex_digit], ''hexadecimal string''),
      (anywhere [exact [CHR 0x5C, CHR ''u''], hex_digit, hex_digit, hex_digit, hex_digit], ''Unicode string''),
      (anywhere [exact ''base64.b64decode'', call], ''Base64 decoding (may hide code)''),
      (anywhere [exact ''chr'', call, star space, plus1 (one_of ''0123456789''), star space, exact '')''], ''chr() joined (may hide strings)''),
      (anywhere [AtLeast 10 (Cls (\<lambda>c. 128 \<le> (of_char c :: nat)))], ''many non-ASCII characters (may be obfuscated)'')]"

subsection \<open>Features\<close>

fun get_feature_severity :: "feature_type \<Rightarrow> m2_risk" where
  "get_feature_severity CODE_EXECUTION = M2_HIGH"
| "get_feature_severity SYSTEM_CALL = M2_HIGH"
| "get_feature_severity SANDBOX_EVASION = M2_CRITICAL"
| "get_feature_severity PRIVILEGE_ESCALATION = M2_CRITICAL"
| "get_feature_severity DATA_EXFILTRATION = M2_HIGH"
| "get_feature_severity OBFUSCATION = M2_HIGH"
| "get_feature_severity _ = M2_MEDIUM"

definition line_of :: "string \<Rightarrow> nat \<Rightarrow> string" where
  "line_of code i = ''line '' @ dec_nat (length (filter (\<lambda>c. c = CHR 0x0A) (take i code)) + 1)"

definition py_strip :: "string \<Rightarrow> string" where
  "py_strip s = rev (dropWhile is_space (rev (dropWhile is_space s)))"

definition feature_at :: "string \<Rightarrow> feature_type \<Rightarrow> nat \<times> nat \<Rightarrow> semantic_feature" where
  "feature_at code ty m = (case m of (i, n) \<Rightarrow>
     \<lparr>sf_feature_type = ty, sf_description = ''detected '' @ feature_value ty @ '': '' @ take 50 (take n (drop i code)),
      sf_location = line_of code i, sf_severity = get_feature_severity ty,
      sf_confidence = (if ty \<in> {CODE_EXECUTION, SYSTEM_CALL, SANDBOX_EVASION} then 9 / 10 else 3 / 4),
      sf_context = py_strip (take (i + n + 20 - (i - 20)) (drop (i - 20) code))\<rparr>)"

text \<open>Obfuscation counts from three matches of a pattern on.\<close>

definition detect_obfuscation :: "string \<Rightarrow> semantic_feature list" where
  "detect_obfuscation code = concat (map (\<lambda>(p, description).
     let ms = finditer p None 0 code
     in if length ms \<ge> 3
        then [\<lparr>sf_feature_type = OBFUSCATION, sf_description = description @ '' ('' @ dec_nat (length ms) @ '' matches)'',
               sf_location = line_of code (fst (hd ms)), sf_severity = M2_HIGH, sf_confidence = 7 / 10, sf_context = []\<rparr>]
        else []) OBFUSCATION_PATTERNS)"

definition extract_semantic_features :: "m2_gateway \<Rightarrow> string \<Rightarrow> semantic_feature list" where
  "extract_semantic_features g code =
     concat (map (\<lambda>(p, ty). map (feature_at code ty) (finditer p None 0 code)) DANGEROUS_PATTERNS) @
     (if m2_obfuscation g then detect_obfuscation code else [])"

subsection \<open>Scores and the decision\<close>

fun severity_weight :: "m2_risk \<Rightarrow> rat" where
  "severity_weight M2_SAFE = 0"
| "severity_weight M2_LOW = 1 / 10"
| "severity_weight M2_MEDIUM = 3 / 10"
| "severity_weight M2_HIGH = 6 / 10"
| "severity_weight M2_CRITICAL = 9 / 10"

definition contribution :: "semantic_feature \<Rightarrow> rat" where
  "contribution f = severity_weight (sf_severity f) * sf_confidence f"

definition calculate_risk_score :: "semantic_feature list \<Rightarrow> rat" where
  "calculate_risk_score fs =
     (if fs = [] then 0
      else round_to 4 (min 1 (sum_list (map contribution fs) / of_nat (length fs) * (3 / 2))))"

definition high_risk :: "semantic_feature \<Rightarrow> bool" where
  "high_risk f \<longleftrightarrow> sf_severity f \<in> {M2_HIGH, M2_CRITICAL}"

definition calculate_semantic_momentum :: "m2_gateway \<Rightarrow> semantic_feature list \<Rightarrow> rat \<Rightarrow> semantic_momentum" where
  "calculate_semantic_momentum g fs risk =
     (if \<not> m2_momentum g
      then \<lparr>sm_risk_score = risk, sm_risk_delta = 0, sm_momentum = 0, sm_anomaly_score = 0, sm_feature_count = length fs,
            sm_high_risk_feature_count = 0, sm_obfuscation_detected = False, sm_baseline_risk = m2_baseline_risk g\<rparr>
      else (let delta = risk - m2_baseline_risk g; high = length (filter high_risk fs);
                ratio = (if fs = [] then 0 else of_nat high / of_nat (length fs));
                diversity = of_nat (length (remdups (map sf_feature_type fs))) / 10;
                anomaly = ratio * (6 / 10) + diversity * (4 / 10);
                obfuscated = list_ex (\<lambda>f. sf_feature_type f = OBFUSCATION) fs
            in \<lparr>sm_risk_score = risk, sm_risk_delta = round_to 4 delta, sm_momentum = round_to 4 (delta * (1 + ratio)),
                sm_anomaly_score = round_to 4 (if obfuscated then min 1 (anomaly + 3 / 10) else anomaly),
                sm_feature_count = length fs, sm_high_risk_feature_count = high, sm_obfuscation_detected = obfuscated,
                sm_baseline_risk = m2_baseline_risk g\<rparr>))"

text \<open>\<open>f"{x:.2f}"\<close>.\<close>

definition fixed2 :: "rat \<Rightarrow> string" where
  "fixed2 x = (let n = half_even (\<bar>x\<bar> * 100)
     in (if x < 0 then ''-'' else []) @ dec_int (n div 100) @ ''.'' @ pad_dec 2 (nat (n mod 100)))"

definition check_critical_features :: "semantic_feature list \<Rightarrow> (m2_decision \<times> string) option" where
  "check_critical_features fs =
     (let cs = filter (\<lambda>f. sf_severity f = M2_CRITICAL) fs
      in if cs \<noteq> []
         then Some (M2_QUARANTINE, ''detected '' @ dec_nat (length cs) @ '' critical features: '' @
                join '', '' (map (\<lambda>f. feature_value (sf_feature_type f)) cs))
         else None)"

definition check_evasion_features :: "semantic_feature list \<Rightarrow> (m2_decision \<times> string) option" where
  "check_evasion_features fs =
     (let es = filter (\<lambda>f. sf_feature_type f = SANDBOX_EVASION) fs
      in if es \<noteq> [] then Some (M2_REJECT, ''sandbox escape attempt: '' @ dec_nat (length es)) else None)"

definition decision_by_risk_score :: "m2_gateway \<Rightarrow> rat \<Rightarrow> semantic_momentum \<Rightarrow> semantic_feature list \<Rightarrow> m2_decision \<times> string list" where
  "decision_by_risk_score g risk m fs =
     (let r0 = (if sm_obfuscation_detected m then [''obfuscated code, may hide malicious behaviour''] else []);
          reject = dget_or (m2_thresholds g) M2_REJECT (85 / 100);
          warn = dget_or (m2_thresholds g) M2_WARN (6 / 10);
          allow = dget_or (m2_thresholds g) M2_ALLOW (3 / 10);
          n = length (filter high_risk fs)
      in if risk \<ge> reject then (M2_QUARANTINE, r0 @ [''risk '' @ fixed2 risk @ '' above rejection threshold '' @ fixed2 reject])
         else if risk \<ge> warn
         then (M2_REJECT, r0 @ [''risk '' @ fixed2 risk @ '' above warning threshold '' @ fixed2 warn] @
                (if sm_momentum m > 3 / 10 then [''semantic momentum '' @ fixed2 (sm_momentum m) @ '' is high, risk is growing''] else []))
         else if risk \<ge> allow
         then (M2_WARN, r0 @ [''risk '' @ fixed2 risk @ '' in the warning range''] @
                (if n > 0 then [''contains '' @ dec_nat n @ '' high risk features, review advised''] else []))
         else (M2_ALLOW, r0 @ [''risk '' @ fixed2 risk @ '' in the safe range'']))"

definition make_decision :: "m2_gateway \<Rightarrow> rat \<Rightarrow> semantic_momentum \<Rightarrow> semantic_feature list \<Rightarrow> m2_decision \<times> string list" where
  "make_decision g risk m fs =
     (case check_critical_features fs of
        Some (d, r) \<Rightarrow> (d, [r])
      | None \<Rightarrow> (case check_evasion_features fs of
          Some (d, r) \<Rightarrow> (d, [r])
        | None \<Rightarrow> decision_by_risk_score g risk m fs))"

definition get_risk_level :: "rat \<Rightarrow> m2_risk" where
  "get_risk_level r =
     (if 0 \<le> r \<and> r < 1 / 10 then M2_SAFE else if 1 / 10 \<le> r \<and> r < 3 / 10 then M2_LOW
      else if 3 / 10 \<le> r \<and> r < 6 / 10 then M2_MEDIUM else if 6 / 10 \<le> r \<and> r < 85 / 100 then M2_HIGH else M2_CRITICAL)"

subsection \<open>The gateway\<close>

definition DECISION_THRESHOLDS :: "(m2_decision, rat) dict" where
  "DECISION_THRESHOLDS = [(M2_ALLOW, 3 / 10), (M2_WARN, 6 / 10), (M2_REJECT, 85 / 100)]"

definition init_m2 :: "rat \<Rightarrow> bool \<Rightarrow> bool \<Rightarrow> (m2_decision, rat) dict \<Rightarrow> m2_gateway" where
  "init_m2 baseline obfuscation momentum thresholds =
     \<lparr>m2_baseline_risk = baseline, m2_obfuscation = obfuscation, m2_momentum = momentum,
      m2_thresholds = (if thresholds = [] then DECISION_THRESHOLDS else thresholds), m2_audit_log = [], m2_max_audit_log = 10000,
      m2_total = 0, m2_allowed = 0, m2_warned = 0, m2_rejected = 0, m2_quarantined = 0\<rparr>"

definition record_audit :: "m2_result \<Rightarrow> m2_gateway \<Rightarrow> m2_gateway" where
  "record_audit r g = g\<lparr>m2_audit_log := push_last (m2_max_audit_log g) r (m2_audit_log g)\<rparr>"

fun m2_update_stats :: "m2_decision \<Rightarrow> m2_gateway \<Rightarrow> m2_gateway" where
  "m2_update_stats M2_ALLOW g = g\<lparr>m2_allowed := m2_allowed g + 1\<rparr>"
| "m2_update_stats M2_WARN g = g\<lparr>m2_warned := m2_warned g + 1\<rparr>"
| "m2_update_stats M2_REJECT g = g\<lparr>m2_rejected := m2_rejected g + 1\<rparr>"
| "m2_update_stats M2_QUARANTINE g = g\<lparr>m2_quarantined := m2_quarantined g + 1\<rparr>"

text \<open>One call: the request identifier, the time, the milliseconds it took, the digest, and the arguments of the call.\<close>

definition analyze_and_filter :: "string \<Rightarrow> time \<Rightarrow> int \<Rightarrow> (string \<Rightarrow> string) \<Rightarrow> string \<Rightarrow> string \<Rightarrow> string \<Rightarrow> m2_gateway \<Rightarrow> m2_gateway \<times> m2_result" where
  "analyze_and_filter rid now ms sha code tenant box g =
     (let fs = extract_semantic_features g code; risk = calculate_risk_score fs;
          m = calculate_semantic_momentum g fs risk; (d, reasons) = make_decision g risk m fs;
          r = \<lparr>mr_request_id = rid, mr_timestamp = now, mr_decision = d, mr_risk_level = get_risk_level risk, mr_risk_score = risk,
               mr_momentum = m, mr_features = fs, mr_reasons = reasons, mr_code_hash = take 16 (sha code),
               mr_code_length = length code, mr_processing_time_ms = ms, mr_tenant_id = tenant, mr_sandbox_type = box\<rparr>
      in (m2_update_stats d (record_audit r (g\<lparr>m2_total := m2_total g + 1\<rparr>)), r))"

definition get_audit_log :: "int \<Rightarrow> m2_gateway \<Rightarrow> m2_result list" where
  "get_audit_log limit g = (if limit < 0 then drop (nat (- limit)) (m2_audit_log g) else last_n (nat limit) (m2_audit_log g))"

definition clear_audit_log :: "m2_gateway \<Rightarrow> m2_gateway" where
  "clear_audit_log g = g\<lparr>m2_audit_log := []\<rparr>"

record m2_stats =
  mt_total_requests :: int
  mt_allowed :: int
  mt_warned :: int
  mt_rejected :: int
  mt_quarantined :: int
  mt_allow_rate :: rat
  mt_reject_rate :: rat
  mt_audit_log_size :: nat

definition m2_get_stats :: "m2_gateway \<Rightarrow> m2_stats" where
  "m2_get_stats g =
     \<lparr>mt_total_requests = m2_total g, mt_allowed = m2_allowed g, mt_warned = m2_warned g, mt_rejected = m2_rejected g,
      mt_quarantined = m2_quarantined g,
      mt_allow_rate = (if m2_total g > 0 then of_int (m2_allowed g) / of_int (m2_total g) else 0),
      mt_reject_rate = (if m2_total g > 0 then of_int (m2_rejected g + m2_quarantined g) / of_int (m2_total g) else 0),
      mt_audit_log_size = length (m2_audit_log g)\<rparr>"

datatype m2_op = M2_Analyze string time int string string string | M2_Clear

fun m2_step :: "(string \<Rightarrow> string) \<Rightarrow> m2_op \<Rightarrow> m2_gateway \<Rightarrow> m2_gateway" where
  "m2_step sha (M2_Analyze rid now ms code tenant box) g = fst (analyze_and_filter rid now ms sha code tenant box g)"
| "m2_step sha M2_Clear g = clear_audit_log g"

definition m2_fresh :: "m2_gateway \<Rightarrow> bool" where
  "m2_fresh g \<longleftrightarrow> (\<exists>b ob mo th. g = init_m2 b ob mo th)"

subsection \<open>What the decision says\<close>

lemma contribution_bounds:
  assumes "f \<in> set (extract_semantic_features g code)"
  shows "9 / 40 \<le> contribution f" "contribution f \<le> 81 / 100"
    "sf_severity f \<noteq> M2_CRITICAL \<Longrightarrow> contribution f \<le> 54 / 100 \<and> sf_feature_type f \<noteq> SANDBOX_EVASION"
proof -
  have "(\<exists>ty m. f = feature_at code ty m) \<or> f \<in> set (detect_obfuscation code)"
    using assms by (auto simp: extract_semantic_features_def split: if_splits)
  then have "9 / 40 \<le> contribution f \<and> contribution f \<le> 81 / 100 \<and>
      (sf_severity f \<noteq> M2_CRITICAL \<longrightarrow> contribution f \<le> 54 / 100 \<and> sf_feature_type f \<noteq> SANDBOX_EVASION)"
  proof
    assume "\<exists>ty m. f = feature_at code ty m"
    then obtain ty m where "f = feature_at code ty m" by blast
    then show ?thesis by (cases m; cases ty) (simp_all add: feature_at_def contribution_def)
  next
    assume "f \<in> set (detect_obfuscation code)"
    then have "sf_feature_type f = OBFUSCATION \<and> sf_severity f = M2_HIGH \<and> sf_confidence f = 7 / 10"
      by (auto simp: detect_obfuscation_def Let_def split: if_splits)
    then show ?thesis by (simp add: contribution_def)
  qed
  then show "9 / 40 \<le> contribution f" "contribution f \<le> 81 / 100"
    "sf_severity f \<noteq> M2_CRITICAL \<Longrightarrow> contribution f \<le> 54 / 100 \<and> sf_feature_type f \<noteq> SANDBOX_EVASION" by blast+
qed

definition mean :: "semantic_feature list \<Rightarrow> rat" where
  "mean fs = sum_list (map contribution fs) / of_nat (length fs)"

lemma mean_bounds:
  assumes "fs \<noteq> []" "\<And>f. f \<in> set fs \<Longrightarrow> a \<le> contribution f" "\<And>f. f \<in> set fs \<Longrightarrow> contribution f \<le> b"
  shows "a \<le> mean fs" "mean fs \<le> b"
proof -
  have "of_nat (length fs) * a \<le> sum_list (map contribution fs)" "sum_list (map contribution fs) \<le> of_nat (length fs) * b"
    using assms(2,3) by (induction fs) (auto simp: algebra_simps intro: add_mono)
  moreover have "0 < (of_nat (length fs) :: rat)" using assms(1) by simp
  ultimately show "a \<le> mean fs" "mean fs \<le> b" by (simp_all add: mean_def field_simps)
qed

lemma round_to_mono_const:
  "of_int i / 10 ^ n \<le> x \<Longrightarrow> of_int i / 10 ^ n \<le> round_to n x" "x \<le> of_int i / 10 ^ n \<Longrightarrow> round_to n x \<le> of_int i / 10 ^ n"
  using half_even_ge [of i "x * 10 ^ n"] half_even_le [of "x * 10 ^ n" i] by (simp_all add: round_to_def field_simps)

text \<open>With the default thresholds the decision depends on the features in a simple way.\<close>

definition verdict :: "semantic_feature list \<Rightarrow> m2_decision" where
  "verdict fs =
     (if fs = [] then M2_ALLOW
      else if list_ex (\<lambda>f. sf_severity f = M2_CRITICAL) fs then M2_QUARANTINE
      else if 6 / 10 \<le> round_to 4 (mean fs * (3 / 2)) then M2_REJECT
      else M2_WARN)"

lemma make_decision_verdict:
  assumes "m2_thresholds g = DECISION_THRESHOLDS" "fs = extract_semantic_features g code"
  shows "fst (make_decision g (calculate_risk_score fs) m fs) = verdict fs"
proof (cases "list_ex (\<lambda>f. sf_severity f = M2_CRITICAL) fs")
  case True
  then have "filter (\<lambda>f. sf_severity f = M2_CRITICAL) fs \<noteq> []" by (auto simp: list_ex_iff filter_empty_conv)
  moreover have "fs \<noteq> []" using True by auto
  ultimately show ?thesis using True by (simp add: make_decision_def check_critical_features_def Let_def verdict_def)
next
  case False
  then have c: "\<And>f. f \<in> set fs \<Longrightarrow> sf_severity f \<noteq> M2_CRITICAL" by (auto simp: list_ex_iff)
  then have none: "check_critical_features fs = None" by (simp add: check_critical_features_def filter_empty_conv)
  have b: "\<And>f. f \<in> set fs \<Longrightarrow> 9 / 40 \<le> contribution f \<and> contribution f \<le> 54 / 100 \<and> sf_feature_type f \<noteq> SANDBOX_EVASION"
    using contribution_bounds c unfolding assms(2) by blast
  then have none2: "check_evasion_features fs = None" by (simp add: check_evasion_features_def filter_empty_conv)
  show ?thesis
  proof (cases "fs = []")
    case True
    then show ?thesis using assms(1) none none2
      by (simp add: make_decision_def decision_by_risk_score_def Let_def dget_or_def DECISION_THRESHOLDS_def calculate_risk_score_def verdict_def)
  next
    case ne: False
    then have mn: "9 / 40 \<le> mean fs" "mean fs \<le> 54 / 100" using mean_bounds b by blast+
    then have r: "calculate_risk_score fs = round_to 4 (mean fs * (3 / 2))" using ne by (simp add: calculate_risk_score_def mean_def)
    have lo: "3 / 10 \<le> calculate_risk_score fs" using round_to_mono_const(1) [of 3375 4 "mean fs * (3 / 2)"] mn unfolding r by simp
    have hi: "calculate_risk_score fs \<le> 81 / 100" using round_to_mono_const(2) [of "mean fs * (3 / 2)" 8100 4] mn unfolding r by simp
    show ?thesis using none none2 lo hi ne False assms(1)
      by (simp add: make_decision_def decision_by_risk_score_def Let_def dget_or_def DECISION_THRESHOLDS_def verdict_def r)
  qed
qed

lemma fst_snd_analyze:
  "mr_decision (snd (analyze_and_filter rid now ms sha code tenant box g)) =
     (let fs = extract_semantic_features g code; risk = calculate_risk_score fs
      in fst (make_decision g risk (calculate_semantic_momentum g fs risk) fs))"
  by (simp add: analyze_and_filter_def Let_def case_prod_unfold)

text \<open>
  C24. With the default thresholds the decision is a plain reading of the features found: code without any is
  allowed, code with a critical one quarantined, and of the rest the code whose features weigh 0.4 on average is
  rejected, the other let through with a warning. No score ever quarantines, a sandbox escape is never merely
  rejected, and code with a feature is never allowed.
\<close>

theorem decision_is_verdict:
  assumes "m2_thresholds g = DECISION_THRESHOLDS"
  shows "mr_decision (snd (analyze_and_filter rid now ms sha code tenant box g)) = verdict (extract_semantic_features g code)"
  unfolding fst_snd_analyze Let_def by (rule make_decision_verdict [OF assms refl])

text \<open>The decision depends only on how often each weight occurs.\<close>

definition weight :: "semantic_feature \<Rightarrow> m2_risk \<times> rat" where
  "weight f = (sf_severity f, sf_confidence f)"

definition weigh :: "m2_risk \<times> rat \<Rightarrow> rat" where
  "weigh w = severity_weight (fst w) * snd w"

lemma contribution_weigh: "contribution f = weigh (weight f)"
  by (simp add: contribution_def weigh_def weight_def)

lemma sum_weights: "sum_mset (image_mset weigh (mset (map weight fs))) = sum_list (map contribution fs)"
  by (induction fs) (simp_all add: contribution_weigh)

lemma mean_weights: "mean fs = sum_mset (image_mset weigh (mset (map weight fs))) / of_nat (size (mset (map weight fs)))"
  unfolding sum_weights by (simp add: mean_def)

lemma critical_weights: "list_ex (\<lambda>f. sf_severity f = M2_CRITICAL) fs \<longleftrightarrow> (\<exists>w\<in>#mset (map weight fs). fst w = M2_CRITICAL)"
  by (auto simp: list_ex_iff weight_def)

lemma padded_verdict:
  assumes "\<And>f. f \<in> set fs \<Longrightarrow> contribution f \<le> 54 / 100" "verdict fs = M2_REJECT"
    "mset (map weight fs') = mset (map weight fs) + replicate_mset n (M2_MEDIUM, 3 / 4)" "length fs \<le> n"
  shows "verdict fs' = M2_WARN"
proof -
  have ne: "fs \<noteq> []" and nc: "\<not> list_ex (\<lambda>f. sf_severity f = M2_CRITICAL) fs" using assms(2) by (auto simp: verdict_def split: if_splits)
  let ?l = "of_nat (length fs) :: rat" and ?n = "of_nat n :: rat" and ?s = "sum_list (map contribution fs)"
  have l: "0 < ?l" "?l \<le> ?n" using ne assms(4) by simp_all
  have "?s \<le> ?l * (54 / 100)" using assms(1) by (induction fs) (auto simp: algebra_simps intro: add_mono)
  then have "?s + ?n * (9 / 40) \<le> 3825 / 10000 * (?l + ?n)" using l(2) by simp
  moreover have "0 < ?l + ?n" using l by linarith
  ultimately have "(?s + ?n * (9 / 40)) / (?l + ?n) \<le> 3825 / 10000" by (intro mult_imp_div_pos_le)
  moreover have "mean fs' = (?s + ?n * (9 / 40)) / (?l + ?n)"
    unfolding mean_weights assms(3) image_mset_union sum_mset.union sum_weights by (simp add: weigh_def)
  ultimately have "mean fs' \<le> 3825 / 10000" by simp
  then have "round_to 4 (mean fs' * (3 / 2)) \<le> 5738 / 10000" using round_to_mono_const(2) [of "mean fs' * (3 / 2)" 5738 4] by simp
  moreover have "fs' \<noteq> []" using assms(3) ne by auto
  moreover have "\<not> list_ex (\<lambda>f. sf_severity f = M2_CRITICAL) fs'" using nc unfolding critical_weights assms(3) by (auto split: if_splits)
  ultimately show ?thesis by (simp add: verdict_def)
qed

text \<open>
  Weights are averaged, so code that is rejected passes with a warning once it also has features of medium
  weight, such as calls that delete files, as many as it had features.
\<close>

theorem padding_weakens_rejection:
  assumes "m2_thresholds g = DECISION_THRESHOLDS"
    "mr_decision (snd (analyze_and_filter rid now ms sha code tenant box g)) = M2_REJECT"
    "mset (map weight (extract_semantic_features g code')) =
       mset (map weight (extract_semantic_features g code)) + replicate_mset n (M2_MEDIUM, 3 / 4)"
    "length (extract_semantic_features g code) \<le> n"
  shows "mr_decision (snd (analyze_and_filter rid' now' ms' sha code' tenant box g)) = M2_WARN"
proof -
  have v: "mr_decision (snd (analyze_and_filter r t i h c te bo g)) = verdict (extract_semantic_features g c)" for r t i h c te bo
    unfolding fst_snd_analyze Let_def by (rule make_decision_verdict [OF assms(1) refl])
  let ?fs = "extract_semantic_features g code"
  have rej: "verdict ?fs = M2_REJECT" using assms(2) unfolding v .
  then have "\<And>f. f \<in> set ?fs \<Longrightarrow> sf_severity f \<noteq> M2_CRITICAL" by (auto simp: verdict_def list_ex_iff split: if_splits)
  then have "\<And>f. f \<in> set ?fs \<Longrightarrow> contribution f \<le> 54 / 100" using contribution_bounds(3) by blast
  from padded_verdict [OF this rej assms(3,4)] show ?thesis unfolding v .
qed

definition demo_m2 :: m2_gateway where
  "demo_m2 = init_m2 (1 / 10) True True []"

lemma demo_features:
  "map weight (extract_semantic_features demo_m2 ''eval('') = [(M2_HIGH, 9 / 10)]"
  "map weight (extract_semantic_features demo_m2 ''eval(os.remove('') = [(M2_HIGH, 9 / 10), (M2_MEDIUM, 3 / 4)]"
  by code_simp+

lemma demo_thresholds: "m2_thresholds demo_m2 = DECISION_THRESHOLDS"
  by (simp add: demo_m2_def init_m2_def)

lemma demo_verdict: "verdict (extract_semantic_features demo_m2 ''eval('') = M2_REJECT"
proof -
  let ?fs = "extract_semantic_features demo_m2 ''eval(''"
  have m: "mean ?fs = 54 / 100" unfolding mean_weights demo_features by (simp add: weigh_def)
  have "round_to 4 (mean ?fs * (3 / 2)) = 81 / 100"
    unfolding m round_to_def using half_even_of_int [of 8100] by simp
  moreover have "\<not> list_ex (\<lambda>f. sf_severity f = M2_CRITICAL) ?fs" unfolding critical_weights demo_features by simp
  moreover have "?fs \<noteq> []" using demo_features(1) by auto
  ultimately show ?thesis by (simp add: verdict_def)
qed

theorem decision_is_verdict_witness:
  "mr_decision (snd (analyze_and_filter ''r'' 0 1 (\<lambda>s. s) ''eval('' [] [] demo_m2)) = M2_REJECT"
  unfolding decision_is_verdict [OF demo_thresholds] by (rule demo_verdict)

theorem padding_weakens_rejection_witness:
  "mr_decision (snd (analyze_and_filter ''r'' 0 1 (\<lambda>s. s) ''eval(os.remove('' [] [] demo_m2)) = M2_WARN"
proof (rule padding_weakens_rejection [OF demo_thresholds])
  show "mr_decision (snd (analyze_and_filter ''r'' 0 1 (\<lambda>s. s) ''eval('' [] [] demo_m2)) = M2_REJECT"
    unfolding fst_snd_analyze Let_def make_decision_verdict [OF demo_thresholds refl] by (rule demo_verdict)
  show "mset (map weight (extract_semantic_features demo_m2 ''eval(os.remove('')) =
      mset (map weight (extract_semantic_features demo_m2 ''eval('')) + replicate_mset 1 (M2_MEDIUM, 3 / 4)"
    unfolding demo_features by simp
  have "length (map weight (extract_semantic_features demo_m2 ''eval('')) = 1" unfolding demo_features by simp
  then show "length (extract_semantic_features demo_m2 ''eval('') \<le> 1" by simp
qed

subsection \<open>Counters and log\<close>

definition m2_ok :: "m2_gateway \<Rightarrow> bool" where
  "m2_ok g \<longleftrightarrow> m2_total g = m2_allowed g + m2_warned g + m2_rejected g + m2_quarantined g \<and>
     0 \<le> m2_allowed g \<and> 0 \<le> m2_warned g \<and> 0 \<le> m2_rejected g \<and> 0 \<le> m2_quarantined g \<and>
     length (m2_audit_log g) \<le> 10000 \<and> int (length (m2_audit_log g)) \<le> m2_total g \<and> m2_max_audit_log g = 10000"

lemma m2_ok_stats: "m2_ok (m2_update_stats d (record_audit r (g\<lparr>m2_total := m2_total g + 1\<rparr>)))" if "m2_ok g"
  using that by (cases d) (auto simp: m2_ok_def record_audit_def length_push_last)

lemma m2_ok_step: "m2_ok g \<Longrightarrow> m2_ok (m2_step sha e g)"
  by (cases e) (simp_all add: analyze_and_filter_def Let_def case_prod_unfold m2_ok_stats, simp add: m2_ok_def clear_audit_log_def)

interpretation m2: machine m2_fresh "m2_step sha" m2_ok for sha :: "string \<Rightarrow> string"
proof unfold_locales
  fix g assume "m2_fresh g"
  then show "m2_ok g" by (auto simp: m2_fresh_def init_m2_def m2_ok_def)
qed (rule m2_ok_step)

text \<open>
  In every reachable state each request is counted under one decision, the log holds at most the newest
  10000 results, and the rates lie between 0 and 1.
\<close>

theorem m2_statistics_agree:
  assumes "reachable m2_fresh (m2_step sha) g"
  shows "mt_total_requests (m2_get_stats g) =
      mt_allowed (m2_get_stats g) + mt_warned (m2_get_stats g) + mt_rejected (m2_get_stats g) + mt_quarantined (m2_get_stats g) \<and>
    mt_audit_log_size (m2_get_stats g) \<le> 10000 \<and> 0 \<le> mt_reject_rate (m2_get_stats g) \<and> mt_reject_rate (m2_get_stats g) \<le> 1"
  using m2.inv_reachable [OF assms] by (auto simp: m2_get_stats_def m2_ok_def)

theorem m2_statistics_agree_witness:
  "mt_audit_log_size (m2_get_stats (m2_step (\<lambda>s. s) (M2_Analyze ''r'' 0 1 ''x'' [] []) demo_m2)) \<le> 10000"
proof -
  have "reachable m2_fresh (m2_step (\<lambda>s. s)) demo_m2"
    by (rule reachable.reach_init) (auto simp: m2_fresh_def demo_m2_def)
  from m2_statistics_agree [OF reachable.reach_step [OF this]] show ?thesis by blast
qed

end
