(* ===== verification/Leader_Teammate.thy ===== *)
theory Leader_Teammate
  imports Photon_Prelude
begin

text \<open>
  \<open>evolution/leader_teammate.py\<close>: a leader that splits a task, gives the parts to teammates by permission and
  skill, runs them, and evaluates. A task is the record of the entries the code reads, each of the type it is used
  at and possibly missing; a call sees one clock reading, its rendering, and the milliseconds a run took. Agents
  are values of the leader's table. Locks are left out.
\<close>

subsection \<open>Data\<close>

datatype agent_role = LEADER | TEAMMATE | SUPERVISOR | WORKER

datatype agent_status = AG_IDLE | AG_BUSY | AG_WAITING | AG_COMPLETED | AG_FAILED | AG_EVOLVING

datatype loop_phase = LP_OBSERVE | LP_REASON | LP_ACT | LP_VERIFY | LP_GOAL | LP_PLAN | LP_EXECUTE | LP_EVALUATE | LP_UPDATE

record agent_permission =
  ap_light_pool :: bool
  ap_strong_pool :: bool
  ap_network :: bool
  ap_filesystem :: bool
  ap_arbitrary_code :: bool
  ap_max_execution_timeout_s :: int
  ap_max_memory_mb :: int
  ap_allowed_tools :: "string list"

record task_result =
  tr_task_id :: string
  tr_agent_id :: string
  tr_success :: bool
  tr_output :: string
  tr_error :: string
  tr_duration_ms :: int
  tr_phases :: "string list"

record teammate =
  tm_agent_id :: string
  tm_name :: string
  tm_role :: agent_role
  tm_status :: agent_status
  tm_permission :: agent_permission
  tm_skills :: "string list"
  tm_success_count :: int
  tm_failure_count :: int
  tm_total_tasks :: int
  tm_current_task :: "string option"
  tm_registered_at :: time
  tm_last_heartbeat :: time

record task =
  ta_task_id :: "string option"
  ta_type :: "string option"
  ta_description :: "string option"
  ta_population :: "json list option"
  ta_batch_size :: "int option"
  ta_population_batch :: "json list option"
  ta_requires_strong_pool :: "bool option"
  ta_requires_network :: "bool option"
  ta_required_skills :: "string list option"
  ta_timeout_s :: "int option"
  ta_expected_success :: "bool option"
  ta_expected_output :: "string option"

record feedback =
  fb_timestamp :: time
  fb_task_id :: "string option"
  fb_agent_id :: string
  fb_error :: string
  fb_subtask_type :: "string option"
  fb_required_skills :: "string list"

record evolution_record =
  er_timestamp :: time
  er_task_id :: "string option"
  er_success_rate :: rat

record workspace =
  ws_id :: string
  ws_artifacts :: "(string, string list) dict"
  ws_logs :: "(string, string list) dict"
  ws_shared_data :: "(string, feedback) dict"

record leader =
  le_agent_id :: string
  le_teammates :: "(string, teammate) dict"
  le_workspace :: workspace
  le_results :: "(string, task_result) dict"
  le_phase :: loop_phase
  le_evolution_history :: "evolution_record list"

record moment =
  mo_now :: time
  mo_stamp :: string
  mo_ms :: int

subsection \<open>Teammates\<close>

definition success_rate :: "teammate \<Rightarrow> rat" where
  "success_rate t = (if tm_total_tasks t = 0 then 0 else of_int (tm_success_count t) / of_int (tm_total_tasks t))"

definition can_handle_task :: "task \<Rightarrow> teammate \<Rightarrow> bool" where
  "can_handle_task ta t =
     (if ta_requires_strong_pool ta = Some True \<and> \<not> ap_strong_pool (tm_permission t) then False
      else if ta_requires_network ta = Some True \<and> \<not> ap_network (tm_permission t) then False
      else list_all (\<lambda>s. s \<in> set (tm_skills t)) (get_default (ta_required_skills ta) []))"

definition record_result :: "time \<Rightarrow> task_result \<Rightarrow> teammate \<Rightarrow> teammate" where
  "record_result now r t =
     (let t1 = t\<lparr>tm_total_tasks := tm_total_tasks t + 1\<rparr>;
          t2 = (if tr_success r then t1\<lparr>tm_success_count := tm_success_count t1 + 1\<rparr> else t1\<lparr>tm_failure_count := tm_failure_count t1 + 1\<rparr>)
      in t2\<lparr>tm_status := AG_IDLE, tm_current_task := None, tm_last_heartbeat := now\<rparr>)"

subsection \<open>The shared workspace\<close>

definition add_artifact :: "string \<Rightarrow> string \<Rightarrow> workspace \<Rightarrow> workspace" where
  "add_artifact a p w = w\<lparr>ws_artifacts := dset a (dget_or (ws_artifacts w) a [] @ [p]) (ws_artifacts w)\<rparr>"

definition add_log :: "moment \<Rightarrow> string \<Rightarrow> string \<Rightarrow> workspace \<Rightarrow> workspace" where
  "add_log m a text w = w\<lparr>ws_logs := dset a (dget_or (ws_logs w) a [] @ [''['' @ mo_stamp m @ ''] '' @ text]) (ws_logs w)\<rparr>"

definition get_all_artifacts :: "workspace \<Rightarrow> string list" where
  "get_all_artifacts w = concat (vals (ws_artifacts w))"

definition set_shared_data :: "string \<Rightarrow> feedback \<Rightarrow> workspace \<Rightarrow> workspace" where
  "set_shared_data k v w = w\<lparr>ws_shared_data := dset k v (ws_shared_data w)\<rparr>"

definition get_shared_data :: "string \<Rightarrow> workspace \<Rightarrow> feedback option" where
  "get_shared_data k w = dget (ws_shared_data w) k"

subsection \<open>The leader\<close>

definition init_leader :: "string \<Rightarrow> leader" where
  "init_leader aid = \<lparr>le_agent_id = aid, le_teammates = [],
     le_workspace = \<lparr>ws_id = aid, ws_artifacts = [], ws_logs = [], ws_shared_data = []\<rparr>,
     le_results = [], le_phase = LP_GOAL, le_evolution_history = []\<rparr>"

definition leader_log :: "moment \<Rightarrow> string \<Rightarrow> string \<Rightarrow> leader \<Rightarrow> leader" where
  "leader_log m a text l = l\<lparr>le_workspace := add_log m a text (le_workspace l)\<rparr>"

definition register_teammate :: "moment \<Rightarrow> teammate \<Rightarrow> leader \<Rightarrow> leader \<times> string" where
  "register_teammate m t l =
     (leader_log m (tm_agent_id t) (''Teammate registered: '' @ tm_name t)
        (l\<lparr>le_teammates := dset (tm_agent_id t) t (le_teammates l)\<rparr>), tm_agent_id t)"

definition unregister_teammate :: "moment \<Rightarrow> string \<Rightarrow> leader \<Rightarrow> leader" where
  "unregister_teammate m a l =
     (if dget (le_teammates l) a = None then l
      else leader_log m a ''Teammate unregistered'' (l\<lparr>le_teammates := ddel a (le_teammates l)\<rparr>))"

text \<open>An f-string of an entry that may be missing.\<close>

definition shown :: "string option \<Rightarrow> string" where
  "shown x = (case x of None \<Rightarrow> ''None'' | Some s \<Rightarrow> s)"

definition no_task :: task where
  "no_task = \<lparr>ta_task_id = None, ta_type = None, ta_description = None, ta_population = None, ta_batch_size = None,
     ta_population_batch = None, ta_requires_strong_pool = None, ta_requires_network = None, ta_required_skills = None,
     ta_timeout_s = None, ta_expected_success = None, ta_expected_output = None\<rparr>"

text \<open>\<open>range(0, n, step)\<close> cuts a list into pieces of the step's size.\<close>

function batches :: "nat \<Rightarrow> 'a list \<Rightarrow> 'a list list" where
  "batches n xs = (if n = 0 \<or> xs = [] then [] else take n xs # batches n (drop n xs))"
  by pat_completeness auto
termination
  by (relation "measure (\<lambda>(n, xs). length xs)") auto

declare batches.simps [simp del]

definition ga_batch :: "task \<Rightarrow> nat \<times> json list \<Rightarrow> task" where
  "ga_batch ta p = (case p of (i, batch) \<Rightarrow>
     no_task\<lparr>ta_task_id := Some (get_default (ta_task_id ta) ''ga'' @ ''_batch_'' @ dec_nat i), ta_type := Some ''ga_batch_evaluation'',
       ta_population_batch := Some batch, ta_requires_strong_pool := Some (get_default (ta_requires_strong_pool ta) True),
       ta_required_skills := Some [''code_evaluation'', ''sandbox_execution''], ta_timeout_s := Some (get_default (ta_timeout_s ta) 60)\<rparr>)"

definition decompose_ga_evaluation :: "task \<Rightarrow> exc + task list" where
  "decompose_ga_evaluation ta =
     (let population = get_default (ta_population ta) []; bsize = get_default (ta_batch_size ta) 10
      in if bsize = 0 then Inl ValueError
         else Inr (map (ga_batch ta) (List.enumerate 0 (batches (nat bsize) population))))"

definition audit_part :: "string \<Rightarrow> string \<Rightarrow> string \<Rightarrow> string \<Rightarrow> bool \<Rightarrow> task" where
  "audit_part tid sfx ty skill strong =
     no_task\<lparr>ta_task_id := Some (tid @ sfx), ta_type := Some ty, ta_required_skills := Some [skill], ta_requires_strong_pool := Some strong\<rparr>"

definition decompose_code_audit :: "task \<Rightarrow> task list" where
  "decompose_code_audit ta =
     (let tid = get_default (ta_task_id ta) ''audit''
      in [audit_part tid ''_sast'' ''sast_scan'' ''sast'' False,
          audit_part tid ''_pentest'' ''penetration_test'' ''pentest'' True,
          audit_part tid ''_vuln'' ''vulnerability_assessment'' ''vuln_assessment'' False])"

definition decompose_task :: "moment \<Rightarrow> task \<Rightarrow> leader \<Rightarrow> leader \<times> (exc + task list)" where
  "decompose_task m ta l =
     (let l1 = l\<lparr>le_phase := LP_PLAN\<rparr>; ty = get_default (ta_type ta) ''generic''
      in case (if ty = ''ga_evaluation'' then decompose_ga_evaluation ta
               else if ty = ''code_audit'' then Inr (decompose_code_audit ta) else Inr [ta]) of
           Inl e \<Rightarrow> (l1, Inl e)
         | Inr subs \<Rightarrow> (leader_log m (le_agent_id l1) (''Task decomposed into '' @ dec_nat (length subs) @ '' subtasks'') l1, Inr subs))"

definition candidates :: "task \<Rightarrow> leader \<Rightarrow> teammate list" where
  "candidates ta l = filter (\<lambda>t. tm_status t = AG_IDLE \<and> can_handle_task ta t) (vals (le_teammates l))"

definition assign_task :: "moment \<Rightarrow> task \<Rightarrow> leader \<Rightarrow> leader \<times> string option" where
  "assign_task m ta l =
     (case first_best success_rate (candidates ta l) of
        None \<Rightarrow> (l, None)
      | Some t \<Rightarrow>
          (leader_log m (tm_agent_id t) (''Assigned task: '' @ shown (ta_task_id ta))
             (l\<lparr>le_teammates := dset (tm_agent_id t) (t\<lparr>tm_status := AG_BUSY, tm_current_task := ta_task_id ta\<rparr>) (le_teammates l)\<rparr>),
           Some (tm_agent_id t)))"

subsection \<open>The inner loop\<close>

definition record_evolution_feedback :: "moment \<Rightarrow> task \<Rightarrow> task_result \<Rightarrow> leader \<Rightarrow> leader" where
  "record_evolution_feedback m ta r l =
     (let fb = \<lparr>fb_timestamp = mo_now m, fb_task_id = ta_task_id ta, fb_agent_id = tr_agent_id r, fb_error = tr_error r,
                fb_subtask_type = ta_type ta, fb_required_skills = get_default (ta_required_skills ta) []\<rparr>
      in leader_log m (le_agent_id l) (''[FEEDBACK] Recorded failure feedback for '' @ shown (ta_task_id ta))
           (l\<lparr>le_workspace := set_shared_data (''feedback_'' @ shown (ta_task_id ta)) fb (le_workspace l)\<rparr>))"

definition inner_loop_record_result :: "moment \<Rightarrow> string \<Rightarrow> task \<Rightarrow> task_result \<Rightarrow> leader \<Rightarrow> leader" where
  "inner_loop_record_result m a ta r l =
     (let l1 = (case dget (le_teammates l) a of
                  None \<Rightarrow> l
                | Some t \<Rightarrow> l\<lparr>le_teammates := dset a (record_result (mo_now m) r t) (le_teammates l)\<rparr>);
          l2 = l1\<lparr>le_results := dset (tr_task_id r) r (le_results l1)\<rparr>
      in if tr_success r then l2 else record_evolution_feedback m ta r l2)"

definition inner_logs :: "moment \<Rightarrow> string \<Rightarrow> task \<Rightarrow> leader \<Rightarrow> leader" where
  "inner_logs m a ta l =
     leader_log m a ''[VERIFY] Verifying result'' (leader_log m a ''[ACT] Executing task''
       (leader_log m a ''[REASON] Analyzing task requirements'' (leader_log m a (''[OBSERVE] Task: '' @ shown (ta_task_id ta)) l)))"

definition execute_inner_loop :: "moment \<Rightarrow> string \<Rightarrow> task \<Rightarrow> leader \<Rightarrow> leader \<times> task_result" where
  "execute_inner_loop m a ta l =
     (let r0 = \<lparr>tr_task_id = get_default (ta_task_id ta) ''unknown'', tr_agent_id = a, tr_success = False, tr_output = [],
                tr_error = ''Teammate not found'', tr_duration_ms = 0, tr_phases = []\<rparr>
      in case dget (le_teammates l) a of
           None \<Rightarrow> (l, r0)
         | Some t \<Rightarrow>
           (let r = r0\<lparr>tr_success := get_default (ta_expected_success ta) True,
                       tr_output := get_default (ta_expected_output ta) ''Task executed successfully'', tr_error := [],
                       tr_duration_ms := mo_ms m, tr_phases := [''observe'', ''reason'', ''act'', ''verify'']\<rparr>
            in (inner_loop_record_result m a ta r (inner_logs m a ta l), r)))"

subsection \<open>The outer loop\<close>

fun outer_loop_execute_subtasks :: "moment \<Rightarrow> task list \<Rightarrow> leader \<Rightarrow> leader \<times> task_result list" where
  "outer_loop_execute_subtasks m [] l = (l, [])"
| "outer_loop_execute_subtasks m (ta # tas) l =
     (case assign_task m ta l of
        (l1, Some a) \<Rightarrow>
          if a \<noteq> [] then (let (l2, r) = execute_inner_loop m a ta l1; (l3, rs) = outer_loop_execute_subtasks m tas l2 in (l3, r # rs))
          else outer_loop_execute_subtasks m tas (leader_log m (le_agent_id l1) (''[WAIT] No available teammate for '' @ shown (ta_task_id ta)) l1)
      | (l1, None) \<Rightarrow>
          outer_loop_execute_subtasks m tas (leader_log m (le_agent_id l1) (''[WAIT] No available teammate for '' @ shown (ta_task_id ta)) l1))"

definition outer_loop_evaluate_results :: "task_result list \<Rightarrow> int \<times> int \<times> rat" where
  "outer_loop_evaluate_results rs =
     (let s = count tr_success rs; n = int (length rs) in (s, n, if n > 0 then of_int s / of_int n else 0))"

text \<open>\<open>f"{x:.2%}"\<close>.\<close>

definition percent2 :: "rat \<Rightarrow> string" where
  "percent2 x = (let n = half_even (x * 10000) in dec_int (n div 100) @ ''.'' @ pad_dec 2 (nat (n mod 100)) @ ''%'')"

definition outer_loop_update_evolution :: "moment \<Rightarrow> task \<Rightarrow> rat \<Rightarrow> leader \<Rightarrow> leader" where
  "outer_loop_update_evolution m ta rate l =
     (if rate < 8 / 10
      then (leader_log m (le_agent_id l) (''[UPDATE] Success rate '' @ percent2 rate @ '' < 80%, triggering evolution'') l)
             \<lparr>le_evolution_history := le_evolution_history l @ [\<lparr>er_timestamp = mo_now m, er_task_id = ta_task_id ta, er_success_rate = rate\<rparr>]\<rparr>
      else l)"

record outer_result =
  or_task_id :: "string option"
  or_total_subtasks :: int
  or_success_count :: int
  or_success_rate :: rat
  or_results :: "task_result list"
  or_artifacts :: "string list"

definition execute_outer_loop :: "moment \<Rightarrow> task \<Rightarrow> leader \<Rightarrow> leader \<times> (exc + outer_result)" where
  "execute_outer_loop m ta l =
     (let l1 = leader_log m (le_agent_id l) (''[GOAL] Task: '' @ get_default (ta_description ta) ''Unknown'') (l\<lparr>le_phase := LP_GOAL\<rparr>)
      in case decompose_task m ta l1 of
           (l2, Inl e) \<Rightarrow> (l2, Inl e)
         | (l2, Inr subs) \<Rightarrow>
           (let (l3, rs) = outer_loop_execute_subtasks m subs (l2\<lparr>le_phase := LP_EXECUTE\<rparr>);
                (s, n, rate) = outer_loop_evaluate_results rs;
                l4 = outer_loop_update_evolution m ta rate (l3\<lparr>le_phase := LP_UPDATE\<rparr>)
            in (l4, Inr \<lparr>or_task_id = ta_task_id ta, or_total_subtasks = n, or_success_count = s, or_success_rate = rate,
                         or_results = rs, or_artifacts = get_all_artifacts (le_workspace l4)\<rparr>)))"

definition get_idle_teammates :: "leader \<Rightarrow> teammate list" where
  "get_idle_teammates l = filter (\<lambda>t. tm_status t = AG_IDLE) (vals (le_teammates l))"

record team_stats =
  st_leader_id :: string
  st_total_teammates :: nat
  st_idle_teammates :: int
  st_busy_teammates :: int
  st_total_tasks_completed :: nat
  st_overall_success_rate :: rat
  st_phase :: loop_phase
  st_evolution_count :: nat

definition team_get_stats :: "leader \<Rightarrow> team_stats" where
  "team_get_stats l =
     (let rs = vals (le_results l)
      in \<lparr>st_leader_id = le_agent_id l, st_total_teammates = length (le_teammates l),
          st_idle_teammates = count (\<lambda>t. tm_status t = AG_IDLE) (vals (le_teammates l)),
          st_busy_teammates = count (\<lambda>t. tm_status t = AG_BUSY) (vals (le_teammates l)),
          st_total_tasks_completed = length (le_results l),
          st_overall_success_rate = (if rs \<noteq> [] then of_int (count tr_success rs) / of_nat (length rs) else 0),
          st_phase = le_phase l, st_evolution_count = length (le_evolution_history l)\<rparr>)"

datatype team_op =
    TO_Register moment teammate
  | TO_Unregister moment string
  | TO_Decompose moment task
  | TO_Assign moment task
  | TO_Inner moment string task
  | TO_Outer moment task

fun team_step :: "team_op \<Rightarrow> leader \<Rightarrow> leader" where
  "team_step (TO_Register m t) l = fst (register_teammate m t l)"
| "team_step (TO_Unregister m a) l = unregister_teammate m a l"
| "team_step (TO_Decompose m ta) l = fst (decompose_task m ta l)"
| "team_step (TO_Assign m ta) l = fst (assign_task m ta l)"
| "team_step (TO_Inner m a ta) l = fst (execute_inner_loop m a ta l)"
| "team_step (TO_Outer m ta) l = fst (execute_outer_loop m ta l)"

definition team_fresh :: "leader \<Rightarrow> bool" where
  "team_fresh l \<longleftrightarrow> (\<exists>a. l = init_leader a)"

subsection \<open>The table of teammates\<close>

definition team_ok :: "leader \<Rightarrow> bool" where
  "team_ok l \<longleftrightarrow> wf_dict (le_teammates l) \<and> (\<forall>a t. dget (le_teammates l) a = Some t \<longrightarrow> tm_agent_id t = a)"

text \<open>What a teammate is for the choice of tasks, its record of successes apart.\<close>

definition profile :: "teammate \<Rightarrow> agent_status \<times> agent_permission \<times> string list" where
  "profile t = (tm_status t, tm_permission t, tm_skills t)"

definition profiles :: "leader \<Rightarrow> string \<Rightarrow> (agent_status \<times> agent_permission \<times> string list) option" where
  "profiles l a = map_option profile (dget (le_teammates l) a)"

definition idle_capable :: "leader \<Rightarrow> task \<Rightarrow> bool" where
  "idle_capable l ta \<longleftrightarrow> (\<exists>a t. dget (le_teammates l) a = Some t \<and> tm_status t = AG_IDLE \<and> can_handle_task ta t)"

lemma leader_log_simps [simp]:
  "le_teammates (leader_log m a x l) = le_teammates l" "le_results (leader_log m a x l) = le_results l"
  "le_agent_id (leader_log m a x l) = le_agent_id l" "le_phase (leader_log m a x l) = le_phase l"
  "le_evolution_history (leader_log m a x l) = le_evolution_history l"
  by (simp_all add: leader_log_def)

lemma can_handle_profile: "profile t = profile t' \<Longrightarrow> can_handle_task ta t = can_handle_task ta t'"
  by (simp add: profile_def can_handle_task_def)

lemma idle_capable_profiles:
  assumes "profiles l = profiles l'"
  shows "idle_capable l = idle_capable l'"
proof
  fix ta
  have half: "idle_capable k' ta" if p: "profiles k = profiles k'" and i: "idle_capable k ta" for k k'
  proof -
    obtain a t where t: "dget (le_teammates k) a = Some t" "tm_status t = AG_IDLE" "can_handle_task ta t"
      using i by (auto simp: idle_capable_def)
    have "map_option profile (dget (le_teammates k') a) = Some (profile t)" using fun_cong [OF p, of a] t(1) by (simp add: profiles_def)
    then obtain t' where t': "dget (le_teammates k') a = Some t'" "profile t' = profile t" by auto
    then have "tm_status t' = AG_IDLE" "can_handle_task ta t'" using t can_handle_profile [OF t'(2)] by (simp_all add: profile_def)
    with t'(1) show ?thesis by (auto simp: idle_capable_def)
  qed
  show "idle_capable l ta = idle_capable l' ta" using half assms by metis
qed

lemma set_candidates:
  "team_ok l \<Longrightarrow> t \<in> set (candidates ta l) \<longleftrightarrow>
     dget (le_teammates l) (tm_agent_id t) = Some t \<and> tm_status t = AG_IDLE \<and> can_handle_task ta t"
  by (auto simp: candidates_def team_ok_def set_vals_iff)

lemma idle_capable_candidates:
  assumes "team_ok l"
  shows "idle_capable l ta \<longleftrightarrow> candidates ta l \<noteq> []"
proof
  assume "idle_capable l ta"
  then obtain a t where t: "dget (le_teammates l) a = Some t" "tm_status t = AG_IDLE" "can_handle_task ta t" by (auto simp: idle_capable_def)
  then have "tm_agent_id t = a" using assms by (simp add: team_ok_def)
  then have "t \<in> set (candidates ta l)" using t set_candidates [OF assms] by simp
  then show "candidates ta l \<noteq> []" by auto
next
  assume "candidates ta l \<noteq> []"
  then obtain t where "t \<in> set (candidates ta l)" using list.set_sel(1) by blast
  then show "idle_capable l ta" using set_candidates [OF assms] by (auto simp: idle_capable_def)
qed

lemma team_ok_put: "team_ok l \<Longrightarrow> tm_agent_id t = a \<Longrightarrow> le_teammates l' = dset a t (le_teammates l) \<Longrightarrow> team_ok l'"
  by (auto simp: team_ok_def dget_dset)

lemma assign_task_cases:
  assumes "team_ok l"
  obtains (nobody) "\<not> idle_capable l ta" "assign_task m ta l = (l, None)"
  | (chosen) a t l1 where "assign_task m ta l = (l1, Some a)" "dget (le_teammates l) a = Some t" "tm_agent_id t = a"
      "tm_status t = AG_IDLE" "can_handle_task ta t" "idle_capable l ta"
      "\<And>b t'. dget (le_teammates l) b = Some t' \<Longrightarrow> tm_status t' = AG_IDLE \<Longrightarrow> can_handle_task ta t' \<Longrightarrow> success_rate t' \<le> success_rate t"
      "le_teammates l1 = dset a (t\<lparr>tm_status := AG_BUSY, tm_current_task := ta_task_id ta\<rparr>) (le_teammates l)"
      "le_results l1 = le_results l" "le_phase l1 = le_phase l" "le_evolution_history l1 = le_evolution_history l" "le_agent_id l1 = le_agent_id l"
proof (cases "first_best success_rate (candidates ta l)")
  case None
  then show thesis using nobody idle_capable_candidates [OF assms] by (simp add: first_best_None assign_task_def)
next
  case (Some t)
  note b = first_best_Some [OF Some]
  then have t: "dget (le_teammates l) (tm_agent_id t) = Some t" "tm_status t = AG_IDLE" "can_handle_task ta t"
    using set_candidates [OF assms] by blast+
  have best: "success_rate t' \<le> success_rate t" if "dget (le_teammates l) b = Some t'" "tm_status t' = AG_IDLE" "can_handle_task ta t'" for b t'
    using that b set_candidates [OF assms, of t' ta] assms by (auto simp: team_ok_def)
  have "idle_capable l ta" using t by (auto simp: idle_capable_def)
  then show thesis
    using chosen [of _ "tm_agent_id t" t] Some t best by (simp add: assign_task_def)
qed

text \<open>Running an assigned task gives the teammate back as it was, its counters apart.\<close>

lemma record_result_simps [simp]:
  "tm_agent_id (record_result now r t) = tm_agent_id t" "tm_status (record_result now r t) = AG_IDLE"
  "tm_permission (record_result now r t) = tm_permission t" "tm_skills (record_result now r t) = tm_skills t"
  by (simp_all add: record_result_def Let_def)

lemma inner_loop_teammates:
  "le_teammates (fst (execute_inner_loop m a ta l)) =
     (case dget (le_teammates l) a of None \<Rightarrow> le_teammates l
      | Some t \<Rightarrow> dset a (record_result (mo_now m) (snd (execute_inner_loop m a ta l)) t) (le_teammates l))"
  by (simp add: execute_inner_loop_def inner_loop_record_result_def inner_logs_def record_evolution_feedback_def Let_def
      split: option.split)

lemma team_ok_inner: "team_ok l \<Longrightarrow> team_ok (fst (execute_inner_loop m a ta l))"
  unfolding team_ok_def inner_loop_teammates by (auto simp: dget_dset split: option.split)

lemma inner_loop_result:
  assumes "dget (le_teammates l) a = Some t"
  shows "tr_task_id (snd (execute_inner_loop m a ta l)) = get_default (ta_task_id ta) ''unknown''"
    "tr_success (snd (execute_inner_loop m a ta l)) = get_default (ta_expected_success ta) True"
    "tr_agent_id (snd (execute_inner_loop m a ta l)) = a"
  using assms by (simp_all add: execute_inner_loop_def Let_def)

lemma assigned_and_run:
  assumes "team_ok l" "assign_task m ta l = (l1, Some a)"
  shows "profiles (fst (execute_inner_loop m a ta l1)) = profiles l" "team_ok (fst (execute_inner_loop m a ta l1))"
    "\<exists>t. dget (le_teammates l1) a = Some t" "idle_capable l ta"
    "\<exists>t. dget (le_teammates l) a = Some t \<and> tm_status t = AG_IDLE \<and> can_handle_task ta t"
proof -
  obtain t where t: "dget (le_teammates l) a = Some t" "tm_agent_id t = a" "tm_status t = AG_IDLE" "can_handle_task ta t" "idle_capable l ta"
      "le_teammates l1 = dset a (t\<lparr>tm_status := AG_BUSY, tm_current_task := ta_task_id ta\<rparr>) (le_teammates l)"
    using assms(2) by (cases rule: assign_task_cases [OF assms(1), of ta m]) auto
  have "team_ok l1" using t by (intro team_ok_put [OF assms(1) _ t(6)]) simp
  then show "team_ok (fst (execute_inner_loop m a ta l1))" by (rule team_ok_inner)
  show "profiles (fst (execute_inner_loop m a ta l1)) = profiles l"
    using t by (auto simp: profiles_def fun_eq_iff inner_loop_teammates dget_dset profile_def)
  show "\<exists>t. dget (le_teammates l1) a = Some t" "idle_capable l ta"
    "\<exists>t. dget (le_teammates l) a = Some t \<and> tm_status t = AG_IDLE \<and> can_handle_task ta t" using t by (auto simp: dget_dset)
qed


text \<open>
  What the outer loop does with the parts: those nobody idle can do are left out, the others are run in order,
  each by a teammate that may run it.
\<close>

definition served :: "(string \<Rightarrow> teammate option) \<Rightarrow> task \<Rightarrow> task_result \<Rightarrow> bool" where
  "served team ta r \<longleftrightarrow> tr_task_id r = get_default (ta_task_id ta) ''unknown'' \<and>
     tr_success r = get_default (ta_expected_success ta) True \<and>
     (\<exists>t. team (tr_agent_id r) = Some t \<and> tm_status t = AG_IDLE \<and> can_handle_task ta t)"

lemma served_profiles:
  assumes "served (dget (le_teammates l)) ta r" "profiles l = profiles l'"
  shows "served (dget (le_teammates l')) ta r"
proof -
  obtain t where t: "dget (le_teammates l) (tr_agent_id r) = Some t" "tm_status t = AG_IDLE" "can_handle_task ta t"
    using assms(1) by (auto simp: served_def)
  have "map_option profile (dget (le_teammates l') (tr_agent_id r)) = Some (profile t)"
    using fun_cong [OF assms(2), of "tr_agent_id r"] t(1) by (simp add: profiles_def)
  then obtain t' where t': "dget (le_teammates l') (tr_agent_id r) = Some t'" "profile t' = profile t" by auto
  then have "tm_status t' = AG_IDLE" "can_handle_task ta t'" using t can_handle_profile [OF t'(2)] by (simp_all add: profile_def)
  then show ?thesis using assms(1) t'(1) by (simp add: served_def)
qed

lemma profiles_log [simp]: "profiles (leader_log m a x l) = profiles l"
  by (simp add: profiles_def fun_eq_iff)

lemma team_ok_log [simp]: "team_ok (leader_log m a x l) = team_ok l"
  by (simp add: team_ok_def)

lemma loop_outcome:
  assumes "team_ok l" "profiles l [] = None" "outer_loop_execute_subtasks m tas l = (l', rs)"
  shows "profiles l' = profiles l \<and> team_ok l' \<and>
    list_all2 (served (dget (le_teammates l))) (filter (idle_capable l) tas) rs"
  using assms
proof (induction tas arbitrary: l l' rs)
  case Nil
  then show ?case by simp
next
  case (Cons ta tas)
  from Cons.prems(1) show ?case
  proof (cases rule: assign_task_cases [of l ta m])
    case nobody
    let ?l1 = "leader_log m (le_agent_id l) (''[WAIT] No available teammate for '' @ shown (ta_task_id ta)) l"
    have e: "outer_loop_execute_subtasks m tas ?l1 = (l', rs)" using Cons.prems(3) nobody(2) by simp
    have p: "profiles ?l1 = profiles l" "idle_capable ?l1 = idle_capable l" by (simp, rule idle_capable_profiles) simp
    from Cons.IH [OF _ _ e] Cons.prems(1,2) show ?thesis using nobody(1) p(2) by simp
  next
    case (chosen a t l1)
    have a: "a \<noteq> []" using chosen(2) Cons.prems(2) by (auto simp: profiles_def)
    obtain l2 r where i: "execute_inner_loop m a ta l1 = (l2, r)" by (cases "execute_inner_loop m a ta l1")
    obtain rs1 where e: "outer_loop_execute_subtasks m tas l2 = (l', rs1)" and rs: "rs = r # rs1"
      using Cons.prems(3) chosen(1) a i by (auto split: prod.splits)
    note run = assigned_and_run [OF Cons.prems(1) chosen(1), unfolded i fst_conv]
    have ih: "profiles l' = profiles l2 \<and> team_ok l' \<and> list_all2 (served (dget (le_teammates l2))) (filter (idle_capable l2) tas) rs1"
      using Cons.IH [OF run(2) _ e] Cons.prems(2) run(1) by simp
    have cap: "idle_capable l2 = idle_capable l" using run(1) by (rule idle_capable_profiles)
    obtain t1 where "dget (le_teammates l1) a = Some t1" using run(3) by blast
    from inner_loop_result [OF this, of m ta] have "served (dget (le_teammates l)) ta r"
      using run(5) by (simp add: i served_def)
    moreover have "list_all2 (served (dget (le_teammates l))) (filter (idle_capable l) tas) rs1"
      using ih served_profiles [OF _ run(1)] by (auto simp: cap elim!: list_all2_mono)
    ultimately show ?thesis using ih run(1) chosen(6) by (simp add: rs)
  qed
qed

lemma team_ok_assign: "team_ok l \<Longrightarrow> team_ok (fst (assign_task m ta l))"
  by (cases rule: assign_task_cases [of l ta m]) (simp_all, auto simp: team_ok_def dget_dset)

lemma team_ok_loop: "team_ok l \<Longrightarrow> team_ok (fst (outer_loop_execute_subtasks m tas l))"
proof (induction m tas l rule: outer_loop_execute_subtasks.induct)
  case (2 m ta tas l)
  obtain l1 x where a: "assign_task m ta l = (l1, x)" by (cases "assign_task m ta l")
  then have ok: "team_ok l1" using team_ok_assign [OF 2(4), of m ta] by simp
  show ?case
  proof (cases x)
    case None
    then show ?thesis using 2(1) [OF a [symmetric] None] a ok by simp
  next
    case (Some b)
    show ?thesis
    proof (cases "b = []")
      case True
      then show ?thesis using 2(3) [OF a [symmetric] Some] Some a ok by simp
    next
      case False
      obtain l2 r where i: "execute_inner_loop m b ta l1 = (l2, r)" by (cases "execute_inner_loop m b ta l1")
      have "team_ok l2" using team_ok_inner [OF ok, of m b ta] i by simp
      then show ?thesis using 2(2) [OF a [symmetric] Some False i [symmetric]] a Some False i by (auto simp: case_prod_unfold Let_def)
    qed
  qed
qed simp

lemma decompose_teammates [simp]: "le_teammates (fst (decompose_task m ta l)) = le_teammates l"
  by (simp add: decompose_task_def Let_def split: sum.split)

lemma team_ok_teammates: "le_teammates l = le_teammates l' \<Longrightarrow> team_ok l = team_ok l'"
  by (simp add: team_ok_def)

lemma update_teammates [simp]: "le_teammates (outer_loop_update_evolution m ta rate l) = le_teammates l"
  by (simp add: outer_loop_update_evolution_def)

lemma team_ok_outer: "team_ok l \<Longrightarrow> team_ok (fst (execute_outer_loop m ta l))"
proof -
  assume ok: "team_ok l"
  let ?l1 = "leader_log m (le_agent_id l) (''[GOAL] Task: '' @ get_default (ta_description ta) ''Unknown'') (l\<lparr>le_phase := LP_GOAL\<rparr>)"
  obtain l2 x where d: "decompose_task m ta ?l1 = (l2, x)" by (cases "decompose_task m ta ?l1")
  have t2: "le_teammates l2 = le_teammates l" using decompose_teammates [of m ta ?l1] unfolding d by simp
  show ?thesis
  proof (cases x)
    case (Inl e)
    then show ?thesis using d ok team_ok_teammates [OF t2] by (simp add: execute_outer_loop_def)
  next
    case (Inr subs)
    obtain l3 rs where r: "outer_loop_execute_subtasks m subs (l2\<lparr>le_phase := LP_EXECUTE\<rparr>) = (l3, rs)"
      by (cases "outer_loop_execute_subtasks m subs (l2\<lparr>le_phase := LP_EXECUTE\<rparr>)")
    have "team_ok (l2\<lparr>le_phase := LP_EXECUTE\<rparr>)" using ok t2 by (simp add: team_ok_def)
    from team_ok_loop [OF this, of m subs] have "team_ok l3" by (simp add: r)
    then have "team_ok (l3\<lparr>le_phase := LP_UPDATE\<rparr>)" by (simp add: team_ok_def)
    then show ?thesis
      using d Inr r by (simp add: execute_outer_loop_def Let_def case_prod_unfold team_ok_teammates [OF update_teammates])
  qed
qed

lemma team_ok_step: "team_ok l \<Longrightarrow> team_ok (team_step e l)"
  by (cases e) (auto simp: team_ok_assign team_ok_inner team_ok_outer team_ok_teammates [OF decompose_teammates],
    auto simp: register_teammate_def unregister_teammate_def team_ok_def dget_dset dget_ddel)

interpretation team: machine team_fresh team_step team_ok
proof unfold_locales
  fix l assume "team_fresh l"
  then show "team_ok l" by (auto simp: team_fresh_def init_leader_def team_ok_def)
qed (rule team_ok_step)

subsection \<open>Properties\<close>

text \<open>
  C25. A task is given to nobody exactly when no idle teammate has the permissions and skills for it, and then
  nothing changes; otherwise the one chosen is idle, has them, and none of the others that could take it has a
  higher rate of success. Only the chosen teammate changes: it becomes busy with the task. (No teammate is held back
  for tasks of high priority, whatever the docstring of \<open>assign_task\<close> says.)
\<close>

theorem assignment_spec:
  assumes "reachable team_fresh team_step l"
  shows "(snd (assign_task m ta l) = None \<longleftrightarrow> \<not> idle_capable l ta) \<and> (snd (assign_task m ta l) = None \<longrightarrow> fst (assign_task m ta l) = l) \<and>
    (\<forall>a. snd (assign_task m ta l) = Some a \<longrightarrow>
       (\<exists>t. dget (le_teammates l) a = Some t \<and> tm_status t = AG_IDLE \<and> can_handle_task ta t \<and>
          (\<forall>b t'. dget (le_teammates l) b = Some t' \<and> tm_status t' = AG_IDLE \<and> can_handle_task ta t' \<longrightarrow> success_rate t' \<le> success_rate t) \<and>
          (\<forall>b. dget (le_teammates (fst (assign_task m ta l))) b =
             (if b = a then Some (t\<lparr>tm_status := AG_BUSY, tm_current_task := ta_task_id ta\<rparr>) else dget (le_teammates l) b))))"
using team.inv_reachable [OF assms]
proof (cases rule: assign_task_cases [of l ta m])
  case nobody
  then show ?thesis by simp
next
  case (chosen a t l1)
  then have "\<forall>b. dget (le_teammates l1) b = (if b = a then Some (t\<lparr>tm_status := AG_BUSY, tm_current_task := ta_task_id ta\<rparr>) else dget (le_teammates l) b)"
    by (simp add: dget_dset)
  then show ?thesis using chosen(1-7) by auto
qed

text \<open>
  The outer loop runs, in order, exactly the parts for which some idle teammate had the permissions and
  skills at the start, each by such a teammate, and leaves every teammate as ready as it was. The parts
  nobody could do are not among the results, so they count neither in the total nor in the rate of success.
\<close>

theorem outer_loop_outcome:
  assumes "reachable team_fresh team_step l" "dget (le_teammates l) [] = None"
    "execute_outer_loop m ta l = (l', Inr out)" "snd (decompose_task m ta l) = Inr subs"
  shows "list_all2 (served (dget (le_teammates l))) (filter (idle_capable l) subs) (or_results out) \<and>
    or_total_subtasks out = count (idle_capable l) subs \<and>
    or_success_count out = count (\<lambda>s. idle_capable l s \<and> get_default (ta_expected_success s) True) subs \<and>
    profiles l' = profiles l"
proof -
  let ?l1 = "leader_log m (le_agent_id l) (''[GOAL] Task: '' @ get_default (ta_description ta) ''Unknown'') (l\<lparr>le_phase := LP_GOAL\<rparr>)"
  obtain l2 x where d: "decompose_task m ta ?l1 = (l2, x)" by (cases "decompose_task m ta ?l1")
  have "snd (decompose_task m ta ?l1) = snd (decompose_task m ta l)" by (simp add: decompose_task_def Let_def split: sum.split)
  then have x: "x = Inr subs" using assms(4) d by simp
  have t2: "le_teammates l2 = le_teammates l" using decompose_teammates [of m ta ?l1] unfolding d by simp
  let ?l2 = "l2\<lparr>le_phase := LP_EXECUTE\<rparr>"
  obtain l3 rs where r: "outer_loop_execute_subtasks m subs ?l2 = (l3, rs)" by (cases "outer_loop_execute_subtasks m subs ?l2")
  have ok: "team_ok ?l2" using team.inv_reachable [OF assms(1)] t2 by (simp add: team_ok_def)
  have p2: "profiles ?l2 = profiles l" using t2 by (simp add: profiles_def fun_eq_iff)
  have cap: "idle_capable ?l2 = idle_capable l" using p2 by (rule idle_capable_profiles)
  have loop: "profiles l3 = profiles ?l2 \<and> list_all2 (served (dget (le_teammates ?l2))) (filter (idle_capable ?l2) subs) rs"
    using loop_outcome [OF ok _ r] assms(2) p2 by (simp add: profiles_def)
  have out: "or_results out = rs" "or_total_subtasks out = int (length rs)" "or_success_count out = count tr_success rs"
      "le_teammates l' = le_teammates l3"
    using assms(3) d x r by (auto simp: execute_outer_loop_def Let_def outer_loop_evaluate_results_def case_prod_unfold)
  have s: "list_all2 (served (dget (le_teammates l))) (filter (idle_capable l) subs) rs" using loop t2 cap by simp
  then have "length rs = length (filter (idle_capable l) subs)" by (metis list_all2_lengthD)
  moreover have "list_all2 (served team) ts qs \<Longrightarrow> count tr_success qs = count (\<lambda>s. get_default (ta_expected_success s) True) ts" for team ts qs
    by (induction ts qs rule: list_all2_induct) (auto simp: served_def)
  from this [OF s] have "count tr_success rs = count (\<lambda>s. idle_capable l s \<and> get_default (ta_expected_success s) True) subs"
    by (simp add: count_def conj_commute)
  moreover have "profiles l' = profiles l" using loop p2 out(4) by (simp add: profiles_def fun_eq_iff)
  ultimately show ?thesis using s out by (simp add: count_def)
qed

text \<open>
  The batches of a population are its pieces in order, none empty or longer than the batch size, under
  numbered identifiers, each for teammates with the sandbox and the two skills.
\<close>

theorem batches_partition_population:
  assumes "ta_type ta = Some ''ga_evaluation''" "ta_population ta = Some population" "ta_batch_size ta = Some bsize" "0 < bsize"
  shows "\<exists>subs. snd (decompose_task m ta l) = Inr subs \<and>
    concat (map (\<lambda>s. get_default (ta_population_batch s) []) subs) = population \<and>
    (\<forall>s\<in>set subs. get_default (ta_population_batch s) [] \<noteq> [] \<and> int (length (get_default (ta_population_batch s) [])) \<le> bsize) \<and>
    map ta_task_id subs = map (\<lambda>i. Some (get_default (ta_task_id ta) ''ga'' @ ''_batch_'' @ dec_nat i)) [0..<length subs]"
proof -
  let ?n = "nat bsize" and ?b = "batches (nat bsize) population"
  have b: "concat (batches n xs) = xs \<and> (\<forall>b\<in>set (batches n xs). b \<noteq> [] \<and> length b \<le> n)" if "0 < n" for n and xs :: "json list"
    using that
  proof (induction n xs rule: batches.induct)
    case (1 n xs)
    then show ?case by (cases "xs = []") (simp_all add: batches.simps [of n xs] batches.simps [of n "[]"])
  qed
  have n: "0 < ?n" using assms(4) by simp
  let ?subs = "map (ga_batch ta) (List.enumerate 0 ?b)"
  have "snd (decompose_task m ta l) = Inr ?subs"
    using assms by (simp add: decompose_task_def decompose_ga_evaluation_def get_default_def Let_def)
  moreover have batch: "map (\<lambda>s. get_default (ta_population_batch s) []) ?subs = ?b"
    by (simp add: ga_batch_def case_prod_unfold get_default_def comp_def)
  moreover have "map ta_task_id ?subs = map (\<lambda>i. Some (get_default (ta_task_id ta) ''ga'' @ ''_batch_'' @ dec_nat i)) [0..<length ?subs]"
  proof -
    have e: "map (\<lambda>x. g (fst x)) (List.enumerate 0 ?b) = map g [0..<length ?b]" for g :: "nat \<Rightarrow> string option"
    proof -
      have "map g (map fst (List.enumerate 0 ?b)) = map g [0..<length ?b]" by (simp only: map_fst_enumerate add_0)
      then show ?thesis by (simp only: map_map comp_def)
    qed
    show ?thesis using e by (simp add: ga_batch_def case_prod_unfold comp_def)
  qed
  moreover have "set ?b = (\<lambda>s. get_default (ta_population_batch s) []) ` set ?subs" using batch by (metis set_map)
  then have "\<forall>s\<in>set ?subs. get_default (ta_population_batch s) [] \<in> set ?b" by blast
  ultimately show ?thesis using b [OF n, of population] assms(4) by (intro exI [of _ ?subs]) (auto simp: le_nat_iff)
qed


subsection \<open>Examples\<close>

definition demo_permission :: "bool \<Rightarrow> agent_permission" where
  "demo_permission strong = \<lparr>ap_light_pool = True, ap_strong_pool = strong, ap_network = False, ap_filesystem = True,
     ap_arbitrary_code = True, ap_max_execution_timeout_s = 30, ap_max_memory_mb = 512, ap_allowed_tools = []\<rparr>"

definition demo_teammate :: teammate where
  "demo_teammate = \<lparr>tm_agent_id = ''ann'', tm_name = ''Ann'', tm_role = TEAMMATE, tm_status = AG_IDLE,
     tm_permission = demo_permission False, tm_skills = [''sast'', ''pentest'', ''vuln_assessment''], tm_success_count = 0,
     tm_failure_count = 0, tm_total_tasks = 0, tm_current_task = None, tm_registered_at = 0, tm_last_heartbeat = 0\<rparr>"

definition demo_moment :: moment where
  "demo_moment = \<lparr>mo_now = 0, mo_stamp = ''t'', mo_ms = 5\<rparr>"

definition demo_team :: leader where
  "demo_team = team_step (TO_Register demo_moment demo_teammate) (init_leader ''boss'')"

lemma demo_team_reachable: "reachable team_fresh team_step demo_team"
  unfolding demo_team_def by (intro reachable.reach_step reachable.reach_init) (auto simp: team_fresh_def)

lemma demo_team_teammates: "le_teammates demo_team = [(''ann'', demo_teammate)]"
  by (simp add: demo_team_def register_teammate_def init_leader_def demo_teammate_def)

theorem assignment_spec_witness:
  "snd (assign_task demo_moment (no_task\<lparr>ta_requires_strong_pool := Some True\<rparr>) demo_team) = None"
proof -
  have "\<not> idle_capable demo_team (no_task\<lparr>ta_requires_strong_pool := Some True\<rparr>)"
    by (simp add: idle_capable_def demo_team_teammates demo_teammate_def demo_permission_def can_handle_task_def no_task_def split: if_splits)
  with assignment_spec [OF demo_team_reachable] show ?thesis by blast
qed

definition demo_audit :: task where
  "demo_audit = no_task\<lparr>ta_type := Some ''code_audit''\<rparr>"

text \<open>An audit without the penetration test reports two parts of two done.\<close>

theorem outer_loop_outcome_witness:
  "\<exists>l' out. execute_outer_loop demo_moment demo_audit demo_team = (l', Inr out) \<and> or_total_subtasks out = 2 \<and> or_success_count out = 2"
proof -
  have d: "snd (decompose_task demo_moment demo_audit l) = Inr (decompose_code_audit demo_audit)" for l
    by (simp add: decompose_task_def demo_audit_def get_default_def Let_def)
  obtain l' x where e: "execute_outer_loop demo_moment demo_audit demo_team = (l', x)" by (cases "execute_outer_loop demo_moment demo_audit demo_team")
  then have "\<exists>out. x = Inr out" using d
    by (auto simp: execute_outer_loop_def Let_def case_prod_unfold decompose_task_def demo_audit_def get_default_def split: sum.splits)
  then obtain out where x: "x = Inr out" by blast
  have none: "dget (le_teammates demo_team) [] = None" by (simp add: demo_team_teammates)
  have cap: "idle_capable demo_team ta \<longleftrightarrow> can_handle_task ta demo_teammate" for ta
    by (simp add: idle_capable_def demo_team_teammates) (simp add: demo_teammate_def)
  have "or_total_subtasks out = 2 \<and> or_success_count out = 2"
    using outer_loop_outcome [OF demo_team_reachable none e [unfolded x] d]
    by (simp add: cap decompose_code_audit_def audit_part_def can_handle_task_def demo_teammate_def demo_permission_def no_task_def
        get_default_def Let_def)
  then show ?thesis using e x by blast
qed

theorem batches_partition_population_witness:
  "\<exists>subs. snd (decompose_task demo_moment (no_task\<lparr>ta_type := Some ''ga_evaluation'', ta_population := Some [JNull, JNull, JNull],
       ta_batch_size := Some 2\<rparr>) demo_team) = Inr subs \<and>
     concat (map (\<lambda>s. get_default (ta_population_batch s) []) subs) = [JNull, JNull, JNull]"
  using batches_partition_population [of "no_task\<lparr>ta_type := Some ''ga_evaluation'', ta_population := Some [JNull, JNull, JNull],
       ta_batch_size := Some 2\<rparr>" "[JNull, JNull, JNull]" 2 demo_moment demo_team] by auto

end
