(* ===== verification/Genetic_Core.thy ===== *)
theory Genetic_Core
  imports Photon_Prelude
begin

text \<open>
  The values of the genetic algorithm: \<open>evolution/individual.py\<close>, the selectors of \<open>selector.py\<close>, the
  archive of \<open>archive.py\<close> and the population of \<open>population.py\<close>. Individuals are values, random draws, fresh
  identifiers and the clock are arguments, counts and sizes are natural numbers. A payload maps names to texts;
  the one entry that holds a list is a field of its own.
\<close>

subsection \<open>Individuals\<close>

record individual =
  in_id :: string
  in_gen :: int
  in_payload :: "(string, string) dict"
  in_fixed_fail_cases :: "string list option"
  in_fitness :: rat
  in_test_pass :: int
  in_test_total :: int
  in_fail_cases :: "string list"
  in_parent_ids :: "string list"
  in_mutation_type :: string
  in_created_at :: time
  in_evaluated :: bool
  in_security_alerts :: "json list"
  in_sandbox_violations :: int

definition new_individual :: "string \<Rightarrow> time \<Rightarrow> (string, string) dict \<Rightarrow> individual" where
  "new_individual nid now payload =
     \<lparr>in_id = nid, in_gen = 0, in_payload = payload, in_fixed_fail_cases = None, in_fitness = 0, in_test_pass = 0, in_test_total = 0,
      in_fail_cases = [], in_parent_ids = [], in_mutation_type = [], in_created_at = now, in_evaluated = False,
      in_security_alerts = [], in_sandbox_violations = 0\<rparr>"

definition pass_rate :: "individual \<Rightarrow> rat" where
  "pass_rate x = (if in_test_total x = 0 then 0 else of_int (in_test_pass x) / of_int (in_test_total x))"

definition is_elite :: "individual \<Rightarrow> bool" where
  "is_elite x \<longleftrightarrow> in_fitness x \<ge> 8 / 10"

definition clone :: "string \<Rightarrow> time \<Rightarrow> individual \<Rightarrow> individual" where
  "clone nid now x = x\<lparr>in_id := nid, in_parent_ids := [in_id x], in_fitness := 0, in_test_pass := 0, in_evaluated := False,
     in_security_alerts := [], in_sandbox_violations := 0, in_created_at := now\<rparr>"

definition code_of :: "individual \<Rightarrow> string option" where
  "code_of x = dget (in_payload x) ''code''"

subsection \<open>Selection\<close>

text \<open>Each tournament has its own draw; a tournament of nobody is the maximum of nothing, an error.\<close>

definition tournament :: "('a \<Rightarrow> rat) \<Rightarrow> nat \<Rightarrow> 'a list \<Rightarrow> nat list \<Rightarrow> exc + 'a" where
  "tournament f k pop ds =
     (case first_best f (sample ds (min k (length pop)) pop) of None \<Rightarrow> Inl ValueError | Some x \<Rightarrow> Inr x)"

definition tournament_select :: "('a \<Rightarrow> rat) \<Rightarrow> nat \<Rightarrow> nat list list \<Rightarrow> 'a list \<Rightarrow> exc + 'a list" where
  "tournament_select f k draws pop = (if pop = [] then Inr [] else emap (tournament f k pop) draws)"

fun spin :: "('a \<Rightarrow> rat) \<Rightarrow> rat \<Rightarrow> rat \<Rightarrow> 'a list \<Rightarrow> 'a option" where
  "spin f r c [] = None"
| "spin f r c (x # xs) = (if c + f x \<ge> r then Some x else spin f r (c + f x) xs)"

definition roulette_select :: "('a \<Rightarrow> rat) \<Rightarrow> rat list \<Rightarrow> nat list \<Rightarrow> 'a list \<Rightarrow> 'a list" where
  "roulette_select f us ds pop =
     (if pop = [] then []
      else (let total = sum_list (map f pop)
            in if total = 0 then sample ds (min (length us) (length pop)) pop
               else map (\<lambda>u. get_default (spin f (uniform 0 total u) 0 pop) (last pop)) us))"

definition elite_select :: "('a \<Rightarrow> rat) \<Rightarrow> nat \<Rightarrow> 'a list \<Rightarrow> 'a list" where
  "elite_select f n pop = take n (sort_desc f pop)"

lemma emap_Inr: "emap f xs = Inr ys \<longleftrightarrow> list_all2 (\<lambda>x y. f x = Inr y) xs ys"
proof (induction xs arbitrary: ys)
  case Nil
  then show ?case by auto
next
  case (Cons x xs)
  show ?case by (cases "f x"; cases "emap f xs"; cases ys) (auto simp flip: Cons.IH)
qed

lemma tournament_total:
  assumes "0 < k"
  shows "\<exists>ys. tournament_select f k draws pop = Inr ys"
proof (cases "pop = []")
  case False
  have t: "\<exists>y. tournament f k pop ds = Inr y" for ds
  proof -
    have "length (sample ds (min k (length pop)) pop) \<noteq> 0" using assms False by simp
    then have "sample ds (min k (length pop)) pop \<noteq> []" by (simp only: length_0_conv not_False_eq_True)
    then show ?thesis by (cases "first_best f (sample ds (min k (length pop)) pop)") (simp_all add: first_best_None tournament_def)
  qed
  have "\<exists>ys. emap (tournament f k pop) draws = Inr ys"
  proof (induction draws)
    case (Cons ds draws)
    then show ?case using t [of ds] by auto
  qed simp
  then show ?thesis using False by (simp add: tournament_select_def)
qed (simp add: tournament_select_def)

lemma tournament_members:
  assumes "tournament_select f k draws pop = Inr ys"
  shows "set ys \<subseteq> set pop" "pop \<noteq> [] \<Longrightarrow> length ys = length draws"
proof -
  have mem: "y \<in> set pop" if "tournament f k pop ds = Inr y" for ds y
    using that first_best_Some [of f "sample ds (min k (length pop)) pop" y] set_sample [of "min k (length pop)" pop ds]
    by (auto simp: tournament_def split: option.splits)
  have all: "list_all2 (\<lambda>ds y. tournament f k pop ds = Inr y) draws ys" if "pop \<noteq> []"
    using assms that by (simp add: tournament_select_def emap_Inr)
  have sub: "list_all2 (\<lambda>ds y. tournament f k pop ds = Inr y) ds zs \<Longrightarrow> set zs \<subseteq> set pop" for ds zs
    by (induction rule: list_all2_induct) (auto dest: mem)
  show "set ys \<subseteq> set pop"
    using assms sub [OF all] by (cases "pop = []") (simp_all add: tournament_select_def)
  show "length ys = length draws" if "pop \<noteq> []" using all [OF that] by (simp add: list_all2_lengthD)
qed

subsection \<open>The archive\<close>

record archive =
  ar_max_size :: nat
  ar_min_fitness :: rat
  ar_individuals :: "individual list"
  ar_best_ever :: "individual option"

definition init_archive :: "nat \<Rightarrow> rat \<Rightarrow> archive" where
  "init_archive m f = \<lparr>ar_max_size = m, ar_min_fitness = f, ar_individuals = [], ar_best_ever = None\<rparr>"

definition archive_add :: "string \<Rightarrow> individual \<Rightarrow> archive \<Rightarrow> archive \<times> bool" where
  "archive_add nid x a =
     (if in_fitness x < ar_min_fitness a then (a, False)
      else if list_ex (\<lambda>e. code_of e = code_of x) (ar_individuals a) then (a, False)
      else (let xs = ar_individuals a @ [x];
                best = (case ar_best_ever a of
                          None \<Rightarrow> Some (x\<lparr>in_id := nid\<rparr>)
                        | Some b \<Rightarrow> if in_fitness x > in_fitness b then Some (x\<lparr>in_id := nid\<rparr>) else Some b)
            in (a\<lparr>ar_individuals := (if length xs > ar_max_size a then take (ar_max_size a) (sort_desc in_fitness xs) else xs),
                  ar_best_ever := best\<rparr>, True)))"

fun archive_add_all :: "(nat \<Rightarrow> string) \<Rightarrow> individual list \<Rightarrow> archive \<Rightarrow> archive \<times> int" where
  "archive_add_all fresh [] a = (a, 0)"
| "archive_add_all fresh (x # xs) a =
     (let (a1, ok) = archive_add (fresh (length xs)) x a; (a2, n) = archive_add_all fresh xs a1 in (a2, n + (if ok then 1 else 0)))"

definition add_generation :: "(nat \<Rightarrow> string) \<Rightarrow> nat \<Rightarrow> individual list \<Rightarrow> archive \<Rightarrow> archive \<times> int" where
  "add_generation fresh n xs a = archive_add_all fresh (take n (sort_desc in_fitness xs)) a"

definition get_best :: "nat \<Rightarrow> archive \<Rightarrow> individual list" where
  "get_best n a = take n (sort_desc in_fitness (ar_individuals a))"

definition get_by_generation :: "int \<Rightarrow> archive \<Rightarrow> individual list" where
  "get_by_generation g a = filter (\<lambda>x. in_gen x = g) (ar_individuals a)"

definition get_by_fitness_range :: "rat \<Rightarrow> rat \<Rightarrow> archive \<Rightarrow> individual list" where
  "get_by_fitness_range lo hi a = filter (\<lambda>x. lo \<le> in_fitness x \<and> in_fitness x \<le> hi) (ar_individuals a)"

definition archive_sample :: "nat list \<Rightarrow> nat \<Rightarrow> archive \<Rightarrow> individual list" where
  "archive_sample ds n a = (if length (ar_individuals a) \<le> n then ar_individuals a else sample ds n (ar_individuals a))"

record diversity =
  dv_count :: nat
  dv_mean :: rat
  dv_variance :: rat
  dv_max :: rat
  dv_min :: rat
  dv_unique_ratio :: rat
  dv_best_ever :: rat

definition get_diversity :: "archive \<Rightarrow> diversity option" where
  "get_diversity a =
     (let fs = map in_fitness (ar_individuals a); n = of_nat (length fs); mean = sum_list fs / n
      in if fs = [] then None
         else Some \<lparr>dv_count = length fs, dv_mean = mean, dv_variance = sum_list (map (\<lambda>f. (f - mean) * (f - mean)) fs) / n,
                    dv_max = Max (set fs), dv_min = Min (set fs),
                    dv_unique_ratio = of_nat (length (remdups (map (\<lambda>x. get_default (code_of x) []) (ar_individuals a)))) / n,
                    dv_best_ever = (case ar_best_ever a of None \<Rightarrow> 0 | Some b \<Rightarrow> in_fitness b)\<rparr>)"

text \<open>What is written to a file, and read back.\<close>

definition archive_save :: "time \<Rightarrow> archive \<Rightarrow> (archive \<times> time) disk_file" where
  "archive_save now a = Doc (a, now)"

definition archive_load :: "(archive \<times> time) disk_file \<Rightarrow> exc + archive" where
  "archive_load d = (case d of No_File \<Rightarrow> Inl OSError | Corrupt \<Rightarrow> Inl ValueError | Doc (a, t) \<Rightarrow> Inr a)"

subsection \<open>The population\<close>

record population =
  po_size :: nat
  po_elite_count :: nat
  po_individuals :: "individual list"
  po_generation :: int
  po_best_history :: "rat list"
  po_avg_history :: "rat list"
  po_snapshots_dir :: string

definition init_population :: "nat \<Rightarrow> nat \<Rightarrow> population" where
  "init_population n e = \<lparr>po_size = n, po_elite_count = e, po_individuals = [], po_generation = 0, po_best_history = [],
     po_avg_history = [], po_snapshots_dir = []\<rparr>"

definition pop_add :: "individual \<Rightarrow> population \<Rightarrow> population" where
  "pop_add x p = p\<lparr>po_individuals := po_individuals p @ [x\<lparr>in_gen := po_generation p\<rparr>]\<rparr>"

definition pop_add_many :: "individual list \<Rightarrow> population \<Rightarrow> population" where
  "pop_add_many xs p = fold pop_add xs p"

definition pop_remove :: "individual \<Rightarrow> population \<Rightarrow> population" where
  "pop_remove x p = p\<lparr>po_individuals := remove1 x (po_individuals p)\<rparr>"

definition pop_clear :: "population \<Rightarrow> population" where
  "pop_clear p = p\<lparr>po_individuals := []\<rparr>"

definition pop_best :: "population \<Rightarrow> individual option" where
  "pop_best p = first_best in_fitness (po_individuals p)"

definition pop_worst :: "population \<Rightarrow> individual option" where
  "pop_worst p = first_best (\<lambda>x. - in_fitness x) (po_individuals p)"

definition avg_fitness :: "population \<Rightarrow> rat" where
  "avg_fitness p = (if po_individuals p = [] then 0
     else sum_list (map in_fitness (po_individuals p)) / of_nat (length (po_individuals p)))"

definition elites :: "population \<Rightarrow> individual list" where
  "elites p = take (po_elite_count p) (sort_desc in_fitness (po_individuals p))"

definition non_elites :: "population \<Rightarrow> individual list" where
  "non_elites p = drop (po_elite_count p) (sort_desc in_fitness (po_individuals p))"

definition pop_sort :: "population \<Rightarrow> population" where
  "pop_sort p = p\<lparr>po_individuals := sort_desc in_fitness (po_individuals p)\<rparr>"

definition pop_trim :: "population \<Rightarrow> population" where
  "pop_trim p = (let q = pop_sort p
     in if length (po_individuals q) > po_size q then q\<lparr>po_individuals := take (po_size q) (po_individuals q)\<rparr> else q)"

text \<open>A snapshot is the population with its time and without the directory; the path may be given.\<close>

record pop_snapshot =
  ss_population :: population
  ss_timestamp :: time

definition save_snapshot :: "time \<Rightarrow> string \<Rightarrow> population \<Rightarrow> population \<times> string \<times> pop_snapshot" where
  "save_snapshot now path p =
     (let q = (if path = [] \<and> po_snapshots_dir p = [] then p\<lparr>po_snapshots_dir := ''./evolution_snapshots''\<rparr> else p);
          file = (if path = [] then po_snapshots_dir q @ ''/generation_'' @ dec_int (po_generation q) @ ''_'' @ dec_int \<lfloor>now\<rfloor> @ ''.json'' else path)
      in (q, file, \<lparr>ss_population = q\<lparr>po_snapshots_dir := []\<rparr>, ss_timestamp = now\<rparr>))"

definition load_snapshot :: "pop_snapshot disk_file \<Rightarrow> exc + population" where
  "load_snapshot d = (case d of No_File \<Rightarrow> Inl OSError | Corrupt \<Rightarrow> Inl ValueError | Doc s \<Rightarrow> Inr (ss_population s))"

definition next_generation :: "time \<Rightarrow> population \<Rightarrow> population \<times> (string \<times> pop_snapshot) option" where
  "next_generation now p =
     (let p1 = p\<lparr>po_generation := po_generation p + 1\<rparr>;
          p2 = (case pop_best p1 of None \<Rightarrow> p1 | Some b \<Rightarrow> p1\<lparr>po_best_history := po_best_history p1 @ [in_fitness b]\<rparr>);
          p3 = p2\<lparr>po_avg_history := po_avg_history p2 @ [avg_fitness p2]\<rparr>
      in if po_snapshots_dir p3 \<noteq> [] then (case save_snapshot now [] p3 of (p4, file, s) \<Rightarrow> (p4, Some (file, s))) else (p3, None))"

subsection \<open>The archive keeps the best\<close>

datatype archive_op = AO_Add string individual | AO_Generation "nat \<Rightarrow> string" nat "individual list"

fun archive_step :: "archive_op \<Rightarrow> archive \<Rightarrow> archive" where
  "archive_step (AO_Add nid x) a = fst (archive_add nid x a)"
| "archive_step (AO_Generation fresh n xs) a = fst (add_generation fresh n xs a)"

definition archive_fresh :: "archive \<Rightarrow> bool" where
  "archive_fresh a \<longleftrightarrow> (\<exists>m f. a = init_archive m f)"

definition archive_ok :: "archive \<Rightarrow> bool" where
  "archive_ok a \<longleftrightarrow> length (ar_individuals a) \<le> ar_max_size a \<and> distinct (map code_of (ar_individuals a)) \<and>
     (\<forall>x\<in>set (ar_individuals a). ar_min_fitness a \<le> in_fitness x \<and> (\<exists>b. ar_best_ever a = Some b \<and> in_fitness x \<le> in_fitness b))"

lemma archive_ok_add:
  assumes "archive_ok a"
  shows "archive_ok (fst (archive_add nid x a))"
proof (cases "in_fitness x < ar_min_fitness a \<or> list_ex (\<lambda>e. code_of e = code_of x) (ar_individuals a)")
  case True
  then show ?thesis using assms by (auto simp: archive_add_def)
next
  case False
  let ?xs = "ar_individuals a @ [x]" and ?a = "fst (archive_add nid x a)"
  let ?ys = "if length ?xs > ar_max_size a then take (ar_max_size a) (sort_desc in_fitness ?xs) else ?xs"
  have ys: "ar_individuals ?a = ?ys" "ar_max_size ?a = ar_max_size a" "ar_min_fitness ?a = ar_min_fitness a"
    using False by (simp_all add: archive_add_def Let_def)
  have sub: "set ?ys \<subseteq> set ?xs" using set_take_subset [of "ar_max_size a" "sort_desc in_fitness ?xs"] by auto
  have d: "distinct (map code_of ?xs)" using assms False by (auto simp: archive_ok_def list_ex_iff)
  have "distinct ?xs \<and> inj_on code_of (set ?xs)" using d unfolding distinct_map .
  then have "distinct (map code_of (sort_desc in_fitness ?xs))"
    unfolding sort_desc_def distinct_map distinct_sort set_sort .
  then have "distinct (map code_of ?ys)" using d by (simp add: take_map [symmetric])
  moreover have "\<exists>b. ar_best_ever ?a = Some b \<and> in_fitness y \<le> in_fitness b" if "y \<in> set ?xs" for y
    using that assms False by (auto simp: archive_add_def Let_def archive_ok_def split: option.split)
  moreover have "ar_min_fitness a \<le> in_fitness y" if "y \<in> set ?xs" for y
    using that assms False by (auto simp: archive_ok_def)
  ultimately show ?thesis using sub unfolding archive_ok_def ys by auto
qed

lemma archive_ok_add_all: "archive_ok a \<Longrightarrow> archive_ok (fst (archive_add_all fresh xs a))"
  by (induction xs arbitrary: a) (simp_all add: Let_def case_prod_unfold archive_ok_add)

interpretation archive: machine archive_fresh archive_step archive_ok
proof unfold_locales
  fix a assume "archive_fresh a"
  then show "archive_ok a" by (auto simp: archive_fresh_def init_archive_def archive_ok_def)
next
  fix a e assume "archive_ok a"
  then show "archive_ok (archive_step e a)" by (cases e) (simp_all add: archive_ok_add add_generation_def archive_ok_add_all)
qed

lemma best_ever_add:
  "ar_best_ever a = Some b \<Longrightarrow> \<exists>b'. ar_best_ever (fst (archive_add nid x a)) = Some b' \<and> in_fitness b \<le> in_fitness b'"
  by (auto simp: archive_add_def Let_def)

lemma best_ever_add_all:
  "ar_best_ever a = Some b \<Longrightarrow> \<exists>b'. ar_best_ever (fst (archive_add_all fresh xs a)) = Some b' \<and> in_fitness b \<le> in_fitness b'"
proof (induction xs arbitrary: a b)
  case Nil
  then show ?case by simp
next
  case (Cons x xs)
  obtain b1 where b1: "ar_best_ever (fst (archive_add (fresh (length xs)) x a)) = Some b1" "in_fitness b \<le> in_fitness b1"
    using best_ever_add [OF Cons.prems] by blast
  from Cons.IH [OF b1(1)] b1(2) show ?case by (force simp: Let_def case_prod_unfold)
qed

text \<open>
  In every reachable state the archive holds at most its size of individuals, all good enough and with
  different code, and none better than the best ever, which no operation makes worse.
\<close>

theorem archive_keeps_best:
  assumes "reachable archive_fresh archive_step a"
  shows "length (ar_individuals a) \<le> ar_max_size a \<and> distinct (map code_of (ar_individuals a)) \<and>
    (\<forall>x\<in>set (ar_individuals a). ar_min_fitness a \<le> in_fitness x \<and> (\<exists>b. ar_best_ever a = Some b \<and> in_fitness x \<le> in_fitness b)) \<and>
    (\<forall>b. ar_best_ever a = Some b \<longrightarrow> (\<exists>b'. ar_best_ever (archive_step e a) = Some b' \<and> in_fitness b \<le> in_fitness b'))"
proof -
  have "\<exists>b'. ar_best_ever (archive_step e a) = Some b' \<and> in_fitness b \<le> in_fitness b'" if "ar_best_ever a = Some b" for b
    using best_ever_add [OF that] best_ever_add_all [OF that] by (cases e) (simp_all add: add_generation_def)
  then show ?thesis using archive.inv_reachable [OF assms] unfolding archive_ok_def by blast
qed

definition demo_individual :: "string \<Rightarrow> rat \<Rightarrow> individual" where
  "demo_individual c f = (new_individual c 0 [(''code'', c)])\<lparr>in_fitness := f, in_evaluated := True\<rparr>"

theorem archive_keeps_best_witness:
  "\<exists>b. ar_best_ever (archive_step (AO_Add ''n'' (demo_individual ''y'' (7 / 10)))
     (archive_step (AO_Add ''m'' (demo_individual ''x'' (9 / 10))) (init_archive 1 (1 / 2)))) = Some b \<and> 9 / 10 \<le> in_fitness b"
proof -
  let ?a = "archive_step (AO_Add ''m'' (demo_individual ''x'' (9 / 10))) (init_archive 1 (1 / 2))"
  have r: "reachable archive_fresh archive_step ?a"
    by (intro reachable.reach_step reachable.reach_init) (auto simp: archive_fresh_def)
  have "ar_best_ever ?a = Some ((demo_individual ''x'' (9 / 10))\<lparr>in_id := ''m''\<rparr>)"
    by (simp add: archive_add_def init_archive_def demo_individual_def Let_def)
  moreover have "in_fitness ((demo_individual ''x'' (9 / 10))\<lparr>in_id := ''m''\<rparr>) = 9 / 10" by (simp add: demo_individual_def)
  ultimately show ?thesis using archive_keeps_best [OF r, of "AO_Add ''n'' (demo_individual ''y'' (7 / 10))"] by fastforce
qed

lemma archive_round_trip: "archive_load (archive_save now a) = Inr a"
  by (simp add: archive_load_def archive_save_def)

lemma snapshot_round_trip:
  "load_snapshot (Doc (snd (snd (save_snapshot now path p)))) = Inr (p\<lparr>po_snapshots_dir := []\<rparr>)"
  by (simp add: load_snapshot_def save_snapshot_def Let_def)

end
