(* ===== verification/Genetic_Loop.thy ===== *)
theory Genetic_Loop
  imports Genetic_Core "HOL-Library.Multiset"
begin

text \<open>
  The operators and loops of the genetic algorithm: \<open>evolution/mutator.py\<close>, \<open>crossover.py\<close>, \<open>ga_loop.py\<close> and
  \<open>island_ga.py\<close>. The language model is a function from the values its prompt is made of to its answer or to
  the text of the error; the evaluator is a function on individuals. The random draws of a generation are its
  argument. Callbacks and the time a generation took are left out.
\<close>

subsection \<open>Mutation\<close>

datatype llm_query =
    Q_Rewrite string "string list"
  | Q_Patch string "string list"
  | Q_Feedback string "string list"
  | Q_Cross string string rat rat

type_synonym llm = "llm_query \<Rightarrow> string + string"

abbreviation code_text :: "individual \<Rightarrow> string" where
  "code_text x \<equiv> get_default (code_of x) []"

definition put_entry :: "string \<Rightarrow> string \<Rightarrow> individual \<Rightarrow> individual" where
  "put_entry k v x = x\<lparr>in_payload := dset k v (in_payload x)\<rparr>"

definition add_fail_case :: "string \<Rightarrow> individual \<Rightarrow> individual" where
  "add_fail_case e x = x\<lparr>in_fail_cases := in_fail_cases x @ [e]\<rparr>"

definition rewrite_mutate :: "llm option \<Rightarrow> string \<Rightarrow> time \<Rightarrow> individual \<Rightarrow> string list \<Rightarrow> individual" where
  "rewrite_mutate m nid now x fcs =
     (let new = (clone nid now x)\<lparr>in_mutation_type := ''rewrite''\<rparr>; code = code_text x
      in case m of
           None \<Rightarrow> new
         | Some g \<Rightarrow> (case g (Q_Rewrite code fcs) of
             Inr t \<Rightarrow> put_entry ''original_code'' code (put_entry ''code'' t new)
           | Inl e \<Rightarrow> add_fail_case (''mutation_error: '' @ e) (put_entry ''code'' code new)))"

text \<open>A patch is taken only when it is a whole function; anything else leaves the code as it was.\<close>

definition apply_diff :: "string \<Rightarrow> string \<Rightarrow> string" where
  "apply_diff original diff =
     (if contains ''def '' diff \<and> contains ''return'' diff \<and> length diff > 50 then diff else original)"

definition patch_mutate :: "llm option \<Rightarrow> string \<Rightarrow> time \<Rightarrow> individual \<Rightarrow> string list \<Rightarrow> individual" where
  "patch_mutate m nid now x fcs =
     (let new = (clone nid now x)\<lparr>in_mutation_type := ''patch''\<rparr>; code = code_text x
      in case m of
           None \<Rightarrow> new
         | Some g \<Rightarrow> (case g (Q_Patch code fcs) of
             Inr d \<Rightarrow> put_entry ''diff'' d (put_entry ''code'' (apply_diff code d) new)
           | Inl e \<Rightarrow> add_fail_case (''patch_error: '' @ e) (put_entry ''code'' code new)))"

definition nl_feedback_mutate :: "llm option \<Rightarrow> string \<Rightarrow> time \<Rightarrow> individual \<Rightarrow> string list \<Rightarrow> individual" where
  "nl_feedback_mutate m nid now x fcs =
     (let new = (clone nid now x)\<lparr>in_mutation_type := ''nl_feedback''\<rparr>; code = code_text x
      in case m of
           None \<Rightarrow> new
         | Some g \<Rightarrow> if fcs = [] then new else (case g (Q_Feedback code fcs) of
             Inr t \<Rightarrow> (put_entry ''code'' t new)\<lparr>in_fixed_fail_cases := Some fcs\<rparr>
           | Inl e \<Rightarrow> add_fail_case (''nl_feedback_error: '' @ e) (put_entry ''code'' code new)))"

definition mutate :: "llm option \<Rightarrow> string \<Rightarrow> time \<Rightarrow> individual \<Rightarrow> string list \<Rightarrow> individual" where
  "mutate m nid now x fcs =
     (if in_gen x < 5 then rewrite_mutate m nid now x fcs
      else if in_gen x < 15 then patch_mutate m nid now x fcs
      else nl_feedback_mutate m nid now x fcs)"

subsection \<open>Crossover\<close>

definition fitter :: "individual \<Rightarrow> individual \<Rightarrow> individual" where
  "fitter x y = (if in_fitness x \<ge> in_fitness y then x else y)"

definition semantic_cross :: "llm option \<Rightarrow> string \<Rightarrow> time \<Rightarrow> individual \<Rightarrow> individual \<Rightarrow> individual" where
  "semantic_cross m nid now x y =
     (let new = (clone nid now x)\<lparr>in_parent_ids := [in_id x, in_id y], in_mutation_type := ''crossover''\<rparr>
      in case m of
           None \<Rightarrow> fitter x y
         | Some g \<Rightarrow> (case g (Q_Cross (code_text x) (code_text y) (in_fitness x) (in_fitness y)) of
             Inr t \<Rightarrow> put_entry ''parent_b_code'' (code_text y) (put_entry ''parent_a_code'' (code_text x) (put_entry ''code'' t new))
           | Inl e \<Rightarrow> add_fail_case (''crossover_error: '' @ e) (put_entry ''code'' (code_text (fitter x y)) new)))"

definition blend_cross :: "rat \<Rightarrow> llm option \<Rightarrow> string \<Rightarrow> time \<Rightarrow> individual \<Rightarrow> individual \<Rightarrow> individual" where
  "blend_cross u m nid now x y = (if draw u < 3 / 10 then clone nid now (fitter x y) else semantic_cross m nid now x y)"

subsection \<open>The loop\<close>

record ga_config =
  gp_tournament :: nat
  gp_max_generations :: nat
  gp_target :: rat
  gp_mutation_rate :: rat
  gp_crossover_rate :: rat
  gp_llm :: "llm option"

text \<open>The draws of one round of producing children, and of one generation.\<close>

record round_choice =
  rc_cross :: rat
  rc_mutate :: rat
  rc_blend :: rat
  rc_id :: string

record gen_choice =
  gn_draw :: "nat \<Rightarrow> nat list"
  gn_round :: "nat \<Rightarrow> round_choice"
  gn_now :: time

definition breed :: "ga_config \<Rightarrow> time \<Rightarrow> round_choice \<Rightarrow> individual \<Rightarrow> individual" where
  "breed cfg now c p =
     (if draw (rc_mutate c) < gp_mutation_rate cfg then mutate (gp_llm cfg) (rc_id c) now p (in_fail_cases p) else clone (rc_id c) now p)"

text \<open>A crossover uses up two parents for one child.\<close>

fun produce_offspring :: "ga_config \<Rightarrow> time \<Rightarrow> (nat \<Rightarrow> round_choice) \<Rightarrow> nat \<Rightarrow> individual list \<Rightarrow> individual list" where
  "produce_offspring cfg now ch k [] = []"
| "produce_offspring cfg now ch k [p] = [breed cfg now (ch k) p]"
| "produce_offspring cfg now ch k (p # q # ps) =
     (if draw (rc_cross (ch k)) < gp_crossover_rate cfg
      then blend_cross (rc_blend (ch k)) (gp_llm cfg) (rc_id (ch k)) now p q # produce_offspring cfg now ch (k + 1) ps
      else breed cfg now (ch k) p # produce_offspring cfg now ch (k + 1) (q # ps))"

definition evaluate_new :: "(individual \<Rightarrow> individual) \<Rightarrow> individual list \<Rightarrow> individual list" where
  "evaluate_new ev = map (\<lambda>x. if in_evaluated x then x else ev x)"

record ga_stat =
  gs_phase :: string
  gs_generation :: int
  gs_population_size :: nat
  gs_best_fitness :: rat
  gs_avg_fitness :: rat
  gs_best_pass_rate :: rat
  gs_security_violations :: int

definition record_stats :: "string \<Rightarrow> population \<Rightarrow> ga_stat" where
  "record_stats phase p =
     \<lparr>gs_phase = phase, gs_generation = po_generation p, gs_population_size = length (po_individuals p),
      gs_best_fitness = (case pop_best p of None \<Rightarrow> 0 | Some b \<Rightarrow> in_fitness b), gs_avg_fitness = avg_fitness p,
      gs_best_pass_rate = (case pop_best p of None \<Rightarrow> 0 | Some b \<Rightarrow> pass_rate b),
      gs_security_violations = sum_list (map in_sandbox_violations (po_individuals p))\<rparr>"

definition ga_initialize :: "(individual \<Rightarrow> individual) \<Rightarrow> (nat \<Rightarrow> string) \<Rightarrow> time \<Rightarrow> individual list \<Rightarrow> (string, string) dict list \<Rightarrow> population \<Rightarrow> population \<times> ga_stat" where
  "ga_initialize ev ids now seeds payloads p =
     (let p1 = pop_add_many seeds p;
          p2 = pop_add_many (map (\<lambda>(i, pl). new_individual (ids i) now pl) (List.enumerate 0 payloads)) p1;
          n = length (po_individuals p2);
          filler = map (\<lambda>i. new_individual (ids i) now [(''code'', ''# TODO: generate initial code'')]) [length payloads..<length payloads + (po_size p2 - n)];
          p3 = pop_add_many filler p2;
          p4 = pop_sort (p3\<lparr>po_individuals := evaluate_new ev (po_individuals p3)\<rparr>)
      in (p4, record_stats ''init'' p4))"

definition ga_generation :: "ga_config \<Rightarrow> (individual \<Rightarrow> individual) \<Rightarrow> gen_choice \<Rightarrow> population \<Rightarrow> exc + population" where
  "ga_generation cfg ev ch p =
     ebind (tournament_select in_fitness (gp_tournament cfg) (map (gn_draw ch) [0..<po_size p - po_elite_count p]) (non_elites p))
       (\<lambda>parents.
          let offspring = evaluate_new ev (produce_offspring cfg (gn_now ch) (gn_round ch) 0 parents);
              p1 = pop_trim (pop_add_many (elites p @ offspring) (pop_clear p));
              p2 = fst (next_generation (gn_now ch) p1)
          in Inr (pop_sort p2))"

fun ga_loop :: "ga_config \<Rightarrow> (individual \<Rightarrow> individual) \<Rightarrow> (nat \<Rightarrow> gen_choice) \<Rightarrow> nat \<Rightarrow> nat \<Rightarrow> population \<Rightarrow> ga_stat list \<Rightarrow> exc + population \<times> ga_stat list" where
  "ga_loop cfg ev ch gen 0 p st = Inr (p, st)"
| "ga_loop cfg ev ch gen (Suc n) p st =
     ebind (ga_generation cfg ev (ch gen) p)
       (\<lambda>p'. let st' = st @ [record_stats (''gen_'' @ dec_nat gen) p']
             in if (case pop_best p' of None \<Rightarrow> False | Some b \<Rightarrow> in_fitness b \<ge> gp_target cfg) then Inr (p', st')
                else ga_loop cfg ev ch (gen + 1) n p' st')"

definition ga_run :: "ga_config \<Rightarrow> (individual \<Rightarrow> individual) \<Rightarrow> (nat \<Rightarrow> gen_choice) \<Rightarrow> population \<Rightarrow> ga_stat list \<Rightarrow> exc + population \<times> ga_stat list \<times> individual option" where
  "ga_run cfg ev ch p st =
     ebind (ga_loop cfg ev ch 0 (gp_max_generations cfg) p st) (\<lambda>(p', st'). Inr (p', st', pop_best p'))"

subsection \<open>Islands\<close>

record island =
  is_id :: int
  is_population :: population
  is_migration_count :: int

record island_ga =
  ig_migration_interval :: nat
  ig_migration_count :: nat
  ig_strategy :: string
  ig_max_generations :: nat
  ig_target :: rat
  ig_islands :: "island list"
  ig_global_best :: "individual option"
  ig_history :: "(int \<times> string \<times> nat) list"

definition add_island :: "island \<Rightarrow> island_ga \<Rightarrow> island_ga" where
  "add_island i g = g\<lparr>ig_islands := ig_islands g @ [i]\<rparr>"

definition select_migrants :: "island_ga \<Rightarrow> individual list list" where
  "select_migrants g = map (\<lambda>i. take (ig_migration_count g) (sort_desc in_fitness (po_individuals (is_population i)))) (ig_islands g)"

text \<open>The island the migrants of island \<open>i\<close> come from; the random strategy takes a drawn one.\<close>

definition source_island :: "island_ga \<Rightarrow> (nat \<Rightarrow> nat) \<Rightarrow> nat \<Rightarrow> nat" where
  "source_island g src i =
     (let n = length (ig_islands g)
      in if ig_strategy g = ''ring'' then (i + n - 1) mod n
         else if ig_strategy g = ''random'' then src i mod n
         else i)"

definition receive :: "(nat \<Rightarrow> string) \<Rightarrow> time \<Rightarrow> individual list \<Rightarrow> island \<Rightarrow> island" where
  "receive ids now ms i =
     (let p = is_population i;
          news = map (\<lambda>(k, m). (clone (ids k) now m)\<lparr>in_gen := po_generation p\<rparr>) (List.enumerate 0 ms)
      in i\<lparr>is_population := pop_trim (pop_add_many news p), is_migration_count := is_migration_count i + int (length ms)\<rparr>)"

definition distribute_migrants :: "(nat \<Rightarrow> nat) \<Rightarrow> (nat \<Rightarrow> nat \<Rightarrow> string) \<Rightarrow> time \<Rightarrow> individual list list \<Rightarrow> island_ga \<Rightarrow> island_ga" where
  "distribute_migrants src ids now migrants g =
     g\<lparr>ig_islands := map (\<lambda>(i, isl). receive (ids i) now (migrants ! source_island g src i) isl) (List.enumerate 0 (ig_islands g))\<rparr>"

definition record_migration :: "island_ga \<Rightarrow> island_ga" where
  "record_migration g =
     g\<lparr>ig_history := ig_history g @
        [(case ig_islands g of [] \<Rightarrow> 0 | i # _ \<Rightarrow> po_generation (is_population i), ig_strategy g, ig_migration_count g)]\<rparr>"

definition migrate :: "(nat \<Rightarrow> nat) \<Rightarrow> (nat \<Rightarrow> nat \<Rightarrow> string) \<Rightarrow> time \<Rightarrow> island_ga \<Rightarrow> island_ga" where
  "migrate src ids now g =
     (if length (ig_islands g) < 2 then g
      else record_migration (distribute_migrants src ids now (select_migrants g) g))"

fun better_of :: "individual option \<Rightarrow> island list \<Rightarrow> individual option" where
  "better_of best [] = best"
| "better_of best (i # is) =
     better_of (case pop_best (is_population i) of
                  None \<Rightarrow> best
                | Some b \<Rightarrow> (case best of None \<Rightarrow> Some b | Some c \<Rightarrow> if in_fitness b > in_fitness c then Some b else best)) is"

definition get_global_best :: "island_ga \<Rightarrow> island_ga \<times> individual option" where
  "get_global_best g = (let b = better_of None (ig_islands g) in (g\<lparr>ig_global_best := b\<rparr>, b))"

text \<open>\<open>run_generation\<close> of an island does nothing.\<close>

definition run_generation :: "island \<Rightarrow> island" where
  "run_generation i = i"

record island_choice =
  ic_source :: "nat \<Rightarrow> nat"
  ic_ids :: "nat \<Rightarrow> nat \<Rightarrow> string"
  ic_now :: time

fun island_loop :: "(nat \<Rightarrow> island_choice) \<Rightarrow> nat \<Rightarrow> nat \<Rightarrow> island_ga \<Rightarrow> exc + island_ga" where
  "island_loop ch gen 0 g = Inr g"
| "island_loop ch gen (Suc n) g =
     (let g1 = g\<lparr>ig_islands := map run_generation (ig_islands g)\<rparr>
      in if gen > 0 \<and> ig_migration_interval g = 0 then Inl ZeroDivisionError
         else (let g2 = (if gen > 0 \<and> gen mod ig_migration_interval g = 0 then migrate (ic_source (ch gen)) (ic_ids (ch gen)) (ic_now (ch gen)) g1 else g1);
                   (g3, best) = get_global_best g2
               in if (case best of None \<Rightarrow> False | Some b \<Rightarrow> in_fitness b \<ge> ig_target g) then Inr g3
                  else island_loop ch (gen + 1) n g3))"

definition island_run :: "(nat \<Rightarrow> island_choice) \<Rightarrow> island_ga \<Rightarrow> exc + island_ga \<times> individual option" where
  "island_run ch g = ebind (island_loop ch 0 (ig_max_generations g) g) (\<lambda>g'. Inr (get_global_best g'))"

subsection \<open>Adapting the rates\<close>

record mutation_controller =
  mc_mutation_rate :: rat
  mc_crossover_rate :: rat
  mc_min_mutation_rate :: rat
  mc_max_mutation_rate :: rat
  mc_stagnation_threshold :: nat
  mc_novelty_threshold :: int
  mc_adaptation_rate :: rat
  mc_history :: "rat list"
  mc_stagnation_count :: int
  mc_novelty_enabled :: bool
  mc_adjustments :: nat

record adjustment =
  aj_old_mutation_rate :: rat
  aj_new_mutation_rate :: rat
  aj_old_crossover_rate :: rat
  aj_new_crossover_rate :: rat
  aj_action :: string
  aj_is_stagnant :: bool
  aj_novelty_triggered :: bool
  aj_generation :: nat
  aj_current_best :: rat
  aj_stagnation_count :: int

text \<open>Stagnation: an improvement below one percent over the window of the threshold.\<close>

definition detect_stagnation :: "mutation_controller \<Rightarrow> bool" where
  "detect_stagnation c =
     (let h = mc_history c; t = mc_stagnation_threshold c
      in if length h < t + 1 then False
         else (let oldest = h ! (length h - (t + 1)); newest = last h
               in if oldest \<le> 0 then newest \<le> oldest else (newest - oldest) / \<bar>oldest\<bar> < 1 / 100))"

definition update_stagnation_state :: "mutation_controller \<Rightarrow> mutation_controller \<times> bool" where
  "update_stagnation_state c =
     (if detect_stagnation c then (c\<lparr>mc_stagnation_count := mc_stagnation_count c + 1\<rparr>, True)
      else (c\<lparr>mc_stagnation_count := 0, mc_novelty_enabled := False\<rparr>, False))"

definition adjust_operators :: "bool \<Rightarrow> mutation_controller \<Rightarrow> mutation_controller" where
  "adjust_operators stagnant c =
     (if stagnant
      then c\<lparr>mc_mutation_rate := min (mc_max_mutation_rate c) (mc_mutation_rate c + mc_adaptation_rate c),
             mc_crossover_rate := max (3 / 10) (mc_crossover_rate c - mc_adaptation_rate c)\<rparr>
      else c\<lparr>mc_mutation_rate := max (mc_min_mutation_rate c) (mc_mutation_rate c - mc_adaptation_rate c / 2),
             mc_crossover_rate := min (9 / 10) (mc_crossover_rate c + mc_adaptation_rate c / 2)\<rparr>)"

definition trigger_novelty_search :: "mutation_controller \<Rightarrow> mutation_controller" where
  "trigger_novelty_search c = c\<lparr>mc_mutation_rate := mc_max_mutation_rate c, mc_crossover_rate := 3 / 10\<rparr>"

definition mc_update :: "rat \<Rightarrow> mutation_controller \<Rightarrow> mutation_controller \<times> adjustment" where
  "mc_update best c =
     (let c1 = c\<lparr>mc_history := mc_history c @ [best]\<rparr>; (c2, stagnant) = update_stagnation_state c1;
          c3 = adjust_operators stagnant c2; novel = mc_stagnation_count c3 \<ge> mc_novelty_threshold c3;
          c4 = (if novel then trigger_novelty_search (c3\<lparr>mc_novelty_enabled := True\<rparr>) else c3);
          a = \<lparr>aj_old_mutation_rate = mc_mutation_rate c, aj_new_mutation_rate = mc_mutation_rate c3,
               aj_old_crossover_rate = mc_crossover_rate c, aj_new_crossover_rate = mc_crossover_rate c3,
               aj_action = (if novel then ''novelty search: mutation rate raised to the limit''
                            else if stagnant then ''stagnation: mutation rate raised'' else ''progress: mutation rate lowered''),
               aj_is_stagnant = stagnant, aj_novelty_triggered = novel, aj_generation = length (mc_history c4),
               aj_current_best = best, aj_stagnation_count = mc_stagnation_count c4\<rparr>
      in (c4\<lparr>mc_adjustments := mc_adjustments c4 + 1\<rparr>, a))"

definition mc_reset :: "mutation_controller \<Rightarrow> mutation_controller" where
  "mc_reset c = c\<lparr>mc_history := [], mc_stagnation_count := 0, mc_novelty_enabled := False, mc_adjustments := 0\<rparr>"

subsection \<open>The best survives\<close>

lemma pop_add_many_simps [simp]:
  "po_individuals (pop_add_many xs p) = po_individuals p @ map (\<lambda>x. x\<lparr>in_gen := po_generation p\<rparr>) xs"
  "po_size (pop_add_many xs p) = po_size p" "po_elite_count (pop_add_many xs p) = po_elite_count p"
  "po_generation (pop_add_many xs p) = po_generation p" "po_snapshots_dir (pop_add_many xs p) = po_snapshots_dir p"
  "po_best_history (pop_add_many xs p) = po_best_history p"
  unfolding pop_add_many_def by (induction xs arbitrary: p) (simp_all add: pop_add_def)

lemma pop_trim_simps [simp]:
  "po_individuals (pop_trim p) = take (po_size p) (sort_desc in_fitness (po_individuals p))"
  "po_size (pop_trim p) = po_size p" "po_elite_count (pop_trim p) = po_elite_count p"
  "po_generation (pop_trim p) = po_generation p" "po_best_history (pop_trim p) = po_best_history p"
  by (simp_all add: pop_trim_def pop_sort_def Let_def)

lemma pop_sort_simps [simp]:
  "po_individuals (pop_sort p) = sort_desc in_fitness (po_individuals p)"
  "po_size (pop_sort p) = po_size p" "po_elite_count (pop_sort p) = po_elite_count p"
  "po_generation (pop_sort p) = po_generation p" "po_best_history (pop_sort p) = po_best_history p"
  by (simp_all add: pop_sort_def)

lemma next_generation_simps [simp]:
  "po_individuals (fst (next_generation now p)) = po_individuals p"
  "po_size (fst (next_generation now p)) = po_size p" "po_elite_count (fst (next_generation now p)) = po_elite_count p"
  "po_generation (fst (next_generation now p)) = po_generation p + 1"
  by (simp_all add: next_generation_def save_snapshot_def pop_best_def Let_def split: option.split)

text \<open>The best fitness of a list, if there is one.\<close>

definition top_fitness :: "individual list \<Rightarrow> rat option" where
  "top_fitness xs = map_option in_fitness (first_best in_fitness xs)"

lemma top_Some: "top_fitness xs = Some f \<longleftrightarrow> (\<exists>x\<in>set xs. in_fitness x = f) \<and> (\<forall>x\<in>set xs. in_fitness x \<le> f)"
proof
  assume "top_fitness xs = Some f"
  then show "(\<exists>x\<in>set xs. in_fitness x = f) \<and> (\<forall>x\<in>set xs. in_fitness x \<le> f)"
    using first_best_Some [of in_fitness xs] by (auto simp: top_fitness_def)
next
  assume a: "(\<exists>x\<in>set xs. in_fitness x = f) \<and> (\<forall>x\<in>set xs. in_fitness x \<le> f)"
  then have "xs \<noteq> []" by auto
  then obtain b where b: "first_best in_fitness xs = Some b" using first_best_None [of in_fitness xs] by (cases "first_best in_fitness xs") auto
  have mx: "b \<in> set xs" "\<forall>x\<in>set xs. in_fitness x \<le> in_fitness b" using first_best_Some [OF b] by simp_all
  obtain x where x: "x \<in> set xs" "in_fitness x = f" using a by auto
  have "in_fitness b \<le> f" "f \<le> in_fitness b" using mx x a by auto
  then have "in_fitness b = f" by (rule order_antisym)
  then show "top_fitness xs = Some f" by (simp add: top_fitness_def b)
qed

lemma top_None [simp]: "top_fitness xs = None \<longleftrightarrow> xs = []"
  by (simp add: top_fitness_def first_best_None)

lemma top_cong: "in_fitness ` set xs = in_fitness ` set ys \<Longrightarrow> top_fitness xs = top_fitness ys"
proof -
  assume e: "in_fitness ` set xs = in_fitness ` set ys"
  have m: "top_fitness zs = Some f \<longleftrightarrow> f \<in> in_fitness ` set zs \<and> (\<forall>g\<in>in_fitness ` set zs. g \<le> f)" for zs f by (auto simp: top_Some)
  have "top_fitness xs = Some f \<longleftrightarrow> top_fitness ys = Some f" for f unfolding m e ..
  then show ?thesis by (metis option.exhaust)
qed

lemma top_map: "top_fitness (map (\<lambda>x. x\<lparr>in_gen := g\<rparr>) xs) = top_fitness xs"
  by (rule top_cong) (simp add: image_image)

lemma top_take_sorted:
  assumes "0 < n"
  shows "top_fitness (take n (sort_desc in_fitness xs)) = top_fitness xs"
proof (cases "xs = []")
  case False
  let ?s = "sort_desc in_fitness xs"
  have "length ?s \<noteq> 0" using False by simp
  then have s: "?s \<noteq> []" by (simp only: length_0_conv not_False_eq_True)
  then have h: "hd ?s \<in> set (take n ?s)" using assms by (cases ?s; cases n) simp_all
  have "\<forall>y\<in>set xs. in_fitness y \<le> in_fitness (hd ?s)" using sort_desc_head [OF False] .
  moreover have "set (take n ?s) \<subseteq> set xs" using set_take_subset [of n ?s] by simp
  ultimately have "top_fitness (take n ?s) = Some (in_fitness (hd ?s))" "top_fitness xs = Some (in_fitness (hd ?s))"
    using h by (auto simp: top_Some)
  then show ?thesis by simp
qed simp

lemma pop_best_top: "map_option in_fitness (pop_best p) = top_fitness (po_individuals p)"
  by (simp add: top_fitness_def pop_best_def)

definition offspring_of :: "ga_config \<Rightarrow> (individual \<Rightarrow> individual) \<Rightarrow> gen_choice \<Rightarrow> individual list \<Rightarrow> individual list" where
  "offspring_of cfg ev ch parents = evaluate_new ev (produce_offspring cfg (gn_now ch) (gn_round ch) 0 parents)"

lemma ga_generation_Inr:
  assumes "ga_generation cfg ev ch p = Inr p'"
  obtains parents where
    "tournament_select in_fitness (gp_tournament cfg) (map (gn_draw ch) [0..<po_size p - po_elite_count p]) (non_elites p) = Inr parents"
    "po_individuals p' = sort_desc in_fitness (take (po_size p) (sort_desc in_fitness
       (map (\<lambda>x. x\<lparr>in_gen := po_generation p\<rparr>) (elites p @ offspring_of cfg ev ch parents))))"
    "po_size p' = po_size p" "po_elite_count p' = po_elite_count p" "po_generation p' = po_generation p + 1"
proof -
  let ?sel = "tournament_select in_fitness (gp_tournament cfg) (map (gn_draw ch) [0..<po_size p - po_elite_count p]) (non_elites p)"
  show thesis
  proof (cases ?sel)
    case (Inl e)
    then show thesis using assms by (simp add: ga_generation_def)
  next
    case (Inr parents)
    then have "p' = pop_sort (fst (next_generation (gn_now ch) (pop_trim (pop_add_many (elites p @ offspring_of cfg ev ch parents) (pop_clear p)))))"
      using assms by (simp add: ga_generation_def Let_def offspring_of_def)
    then show thesis using Inr that [of parents] by (simp add: pop_clear_def)
  qed
qed

lemma elite_survives:
  assumes "ga_generation cfg ev ch p = Inr p'" "0 < po_elite_count p" "0 < po_size p" "top_fitness (po_individuals p) = Some f"
  shows "\<exists>g. top_fitness (po_individuals p') = Some g \<and> f \<le> g"
proof -
  obtain parents where i: "po_individuals p' = sort_desc in_fitness (take (po_size p) (sort_desc in_fitness
       (map (\<lambda>x. x\<lparr>in_gen := po_generation p\<rparr>) (elites p @ offspring_of cfg ev ch parents))))"
    using assms(1) by (rule ga_generation_Inr)
  let ?new = "map (\<lambda>x. x\<lparr>in_gen := po_generation p\<rparr>) (elites p @ offspring_of cfg ev ch parents)"
  have "top_fitness (po_individuals p') = top_fitness (take (po_size p) (sort_desc in_fitness ?new))" unfolding i by (rule top_cong) simp
  also have "\<dots> = top_fitness ?new" using assms(3) by (rule top_take_sorted)
  also have "\<dots> = top_fitness (elites p @ offspring_of cfg ev ch parents)" by (rule top_map)
  finally have t: "top_fitness (po_individuals p') = top_fitness (elites p @ offspring_of cfg ev ch parents)" .
  have "top_fitness (elites p) = Some f" unfolding elites_def top_take_sorted [OF assms(2)] by (rule assms(4))
  then obtain x where x: "x \<in> set (elites p)" "in_fitness x = f" by (auto simp: top_Some)
  then have "elites p @ offspring_of cfg ev ch parents \<noteq> []" by auto
  then obtain g where g: "top_fitness (elites p @ offspring_of cfg ev ch parents) = Some g"
    using top_None by (cases "top_fitness (elites p @ offspring_of cfg ev ch parents)") blast+
  then have "f \<le> g" using x by (auto simp: top_Some)
  then show ?thesis using g t by simp
qed

lemma produce_offspring_length:
  "length (produce_offspring cfg now ch k ps) \<le> length ps \<and> length ps \<le> 2 * length (produce_offspring cfg now ch k ps)"
  by (induction cfg now ch k ps rule: produce_offspring.induct) auto

lemma population_bounds:
  assumes "ga_generation cfg ev ch p = Inr p'" "po_elite_count p < po_size p" "po_elite_count p < length (po_individuals p)"
  shows "po_elite_count p + (po_size p - po_elite_count p + 1) div 2 \<le> length (po_individuals p')" "length (po_individuals p') \<le> po_size p"
proof -
  obtain parents where sel: "tournament_select in_fitness (gp_tournament cfg) (map (gn_draw ch) [0..<po_size p - po_elite_count p]) (non_elites p) = Inr parents"
    and i: "po_individuals p' = sort_desc in_fitness (take (po_size p) (sort_desc in_fitness
       (map (\<lambda>x. x\<lparr>in_gen := po_generation p\<rparr>) (elites p @ offspring_of cfg ev ch parents))))"
    using assms(1) by (rule ga_generation_Inr)
  have "length (non_elites p) \<noteq> 0" using assms(3) by (simp add: non_elites_def)
  then have "non_elites p \<noteq> []" by (simp only: length_0_conv not_False_eq_True)
  from tournament_members(2) [OF sel this] have n: "length parents = po_size p - po_elite_count p" by simp
  have o: "length (offspring_of cfg ev ch parents) \<le> length parents" "length parents \<le> 2 * length (offspring_of cfg ev ch parents)"
    using produce_offspring_length [of cfg "gn_now ch" "gn_round ch" 0 parents] by (simp_all add: offspring_of_def evaluate_new_def)
  have e: "length (elites p) = po_elite_count p" using assms(3) by (simp add: elites_def)
  have l: "length (po_individuals p') = min (po_size p) (po_elite_count p + length (offspring_of cfg ev ch parents))" unfolding i by (simp add: e min.commute)
  show "length (po_individuals p') \<le> po_size p" unfolding l by simp
  show "po_elite_count p + (po_size p - po_elite_count p + 1) div 2 \<le> length (po_individuals p')" unfolding l using n o assms(2) by linarith
qed

text \<open>What holds of a population during the loop.\<close>

definition loop_ok :: "population \<Rightarrow> rat \<Rightarrow> population \<Rightarrow> bool" where
  "loop_ok p0 f p \<longleftrightarrow> po_size p = po_size p0 \<and> po_elite_count p = po_elite_count p0 \<and> po_elite_count p < length (po_individuals p) \<and>
     length (po_individuals p) \<le> po_size p \<and> (\<exists>g. top_fitness (po_individuals p) = Some g \<and> f \<le> g)"

lemma loop_ok_generation:
  assumes "loop_ok p0 f p" "ga_generation cfg ev ch p = Inr p'" "0 < po_elite_count p0"
  shows "loop_ok p0 f p' \<and> po_elite_count p0 + (po_size p0 - po_elite_count p0 + 1) div 2 \<le> length (po_individuals p')"
proof -
  obtain g where g: "top_fitness (po_individuals p) = Some g" "f \<le> g" using assms(1) by (auto simp: loop_ok_def)
  have s: "po_size p = po_size p0" "po_elite_count p = po_elite_count p0" "po_elite_count p < length (po_individuals p)"
      "po_elite_count p < po_size p" using assms(1) by (simp_all add: loop_ok_def)
  obtain g' where "top_fitness (po_individuals p') = Some g'" "g \<le> g'"
    using elite_survives [OF assms(2) _ _ g(1)] assms(3) s by auto
  moreover note population_bounds [OF assms(2) s(4) s(3)]
  moreover have "po_size p' = po_size p" "po_elite_count p' = po_elite_count p" using ga_generation_Inr [OF assms(2)] by metis+
  ultimately show ?thesis using g(2) s unfolding loop_ok_def by auto
qed

lemma loop_ok_loop:
  assumes "loop_ok p0 f p" "ga_loop cfg ev ch gen n p st = Inr (p', st')" "0 < po_elite_count p0"
  shows "loop_ok p0 f p' \<and> (0 < n \<longrightarrow> po_elite_count p0 + (po_size p0 - po_elite_count p0 + 1) div 2 \<le> length (po_individuals p')) \<and>
    length st \<le> length st' \<and> length st' \<le> length st + n \<and>
    (length st' < length st + n \<longrightarrow> (\<exists>g. top_fitness (po_individuals p') = Some g \<and> gp_target cfg \<le> g))"
  using assms
proof (induction n arbitrary: gen p st)
  case 0
  then show ?case by simp
next
  case (Suc n)
  obtain q where q: "ga_generation cfg ev (ch gen) p = Inr q" using Suc.prems(2) by (cases "ga_generation cfg ev (ch gen) p") auto
  note ok = loop_ok_generation [OF Suc.prems(1) q assms(3)]
  let ?st = "st @ [record_stats (''gen_'' @ dec_nat gen) q]"
  show ?case
  proof (cases "case pop_best q of None \<Rightarrow> False | Some b \<Rightarrow> in_fitness b \<ge> gp_target cfg")
    case True
    then have e: "p' = q" "st' = ?st" using Suc.prems(2) by (auto simp: Let_def q)
    have "\<exists>g. top_fitness (po_individuals q) = Some g \<and> gp_target cfg \<le> g"
      using True pop_best_top [of q, symmetric] by (cases "pop_best q") auto
    then show ?thesis using ok unfolding e by simp
  next
    case False
    then have r: "ga_loop cfg ev ch (gen + 1) n q ?st = Inr (p', st')" using Suc.prems(2) q by (simp add: Let_def)
    have "n = 0 \<Longrightarrow> p' = q" using r by simp
    then show ?thesis using Suc.IH [OF _ r assms(3)] ok by (cases "n = 0") auto
  qed
qed

lemma ga_generation_total: "0 < gp_tournament cfg \<Longrightarrow> \<exists>p'. ga_generation cfg ev ch p = Inr p'"
  using tournament_total [of "gp_tournament cfg" in_fitness "map (gn_draw ch) [0..<po_size p - po_elite_count p]" "non_elites p"]
  by (auto simp: ga_generation_def Let_def)

lemma ga_loop_total: "0 < gp_tournament cfg \<Longrightarrow> \<exists>q st'. ga_loop cfg ev ch gen n p st = Inr (q, st')"
proof (induction n arbitrary: gen p st)
  case (Suc n)
  obtain p' where p': "ga_generation cfg ev (ch gen) p = Inr p'" using ga_generation_total [OF Suc.prems] by blast
  show ?case
  proof (cases "case pop_best p' of None \<Rightarrow> False | Some b \<Rightarrow> in_fitness b \<ge> gp_target cfg")
    case True
    then show ?thesis by (simp add: p' Let_def)
  next
    case False
    then show ?thesis using Suc.IH [OF Suc.prems] by (simp add: p' Let_def)
  qed
qed simp

text \<open>
  C26. With at least one elite and some tournament, the search returns: an individual of the last population that is
  at least as fit as the best it started from. It records a line per generation, at most the configured number, and
  fewer only when the target is reached. No generation has more than the population's size, and after the first each
  has at least the elites and half of the others.
\<close>

theorem evolution_keeps_best:
  assumes "0 < gp_tournament cfg" "0 < po_elite_count p" "po_elite_count p < length (po_individuals p)"
    and "length (po_individuals p) \<le> po_size p" "pop_best p = Some b0"
  shows "\<exists>q st' b. ga_run cfg ev ch p st = Inr (q, st', Some b) \<and> b \<in> set (po_individuals q) \<and> in_fitness b0 \<le> in_fitness b \<and>
    length st' \<le> length st + gp_max_generations cfg \<and>
    (length st' < length st + gp_max_generations cfg \<longrightarrow> gp_target cfg \<le> in_fitness b) \<and>
    length (po_individuals q) \<le> po_size p \<and>
    (0 < gp_max_generations cfg \<longrightarrow> po_elite_count p + (po_size p - po_elite_count p + 1) div 2 \<le> length (po_individuals q))"
proof -
  obtain q st' where run: "ga_loop cfg ev ch 0 (gp_max_generations cfg) p st = Inr (q, st')" using ga_loop_total [OF assms(1)] by blast
  have "top_fitness (po_individuals p) = Some (in_fitness b0)" using pop_best_top [of p] assms(5) by simp
  then have "loop_ok p (in_fitness b0) p" using assms by (simp add: loop_ok_def)
  note ok = loop_ok_loop [OF this run assms(2)]
  then obtain f where f: "top_fitness (po_individuals q) = Some f" "in_fitness b0 \<le> f" by (auto simp: loop_ok_def)
  then obtain b where b: "pop_best q = Some b" using pop_best_top [of q] by (cases "pop_best q") auto
  then have fb: "f = in_fitness b" using pop_best_top [of q] f by simp
  have "b \<in> set (po_individuals q)" using first_best_Some [OF b [unfolded pop_best_def]] by simp
  moreover have "ga_run cfg ev ch p st = Inr (q, st', Some b)" using run b by (simp add: ga_run_def)
  ultimately show ?thesis using ok f unfolding fb loop_ok_def by auto
qed

definition demo_population :: population where
  "demo_population = (init_population 3 1)\<lparr>po_individuals := map (demo_individual ''x'') [1 / 2, 3 / 4]\<rparr>"

theorem evolution_keeps_best_witness:
  "\<exists>q st' b. ga_run \<lparr>gp_tournament = 2, gp_max_generations = 7, gp_target = 1, gp_mutation_rate = 1 / 2, gp_crossover_rate = 1 / 2, gp_llm = None\<rparr>
     (\<lambda>x. x) (\<lambda>g. \<lparr>gn_draw = \<lambda>i. [i], gn_round = \<lambda>i. \<lparr>rc_cross = 0, rc_mutate = 0, rc_blend = 0, rc_id = dec_nat i\<rparr>, gn_now = 0\<rparr>)
     demo_population [] = Inr (q, st', Some b) \<and> 3 / 4 \<le> in_fitness b \<and> 2 \<le> length (po_individuals q)"
proof -
  let ?cfg = "\<lparr>gp_tournament = 2, gp_max_generations = 7, gp_target = 1, gp_mutation_rate = 1 / 2, gp_crossover_rate = 1 / 2, gp_llm = None\<rparr> :: ga_config"
  let ?ch = "\<lambda>g. \<lparr>gn_draw = \<lambda>i. [i], gn_round = \<lambda>i. \<lparr>rc_cross = 0, rc_mutate = 0, rc_blend = 0, rc_id = dec_nat i\<rparr>, gn_now = 0\<rparr>"
  have b: "pop_best demo_population = Some (demo_individual ''x'' (3 / 4))"
    by (simp add: pop_best_def demo_population_def demo_individual_def)
  have s: "0 < gp_tournament ?cfg" "0 < po_elite_count demo_population" "po_elite_count demo_population < length (po_individuals demo_population)"
    "length (po_individuals demo_population) \<le> po_size demo_population" "po_size demo_population = 3" "po_elite_count demo_population = 1"
    by (simp_all add: demo_population_def init_population_def)
  obtain q st' b' where r: "ga_run ?cfg (\<lambda>x. x) ?ch demo_population [] = Inr (q, st', Some b')" "3 / 4 \<le> in_fitness b'" "2 \<le> length (po_individuals q)"
    using evolution_keeps_best [OF s(1-4) b, of "\<lambda>x. x" ?ch "[]"] s(5,6) by (auto simp: demo_individual_def)
  then show ?thesis by blast
qed

subsection \<open>Migration between full islands\<close>

lemma sort_desc_zeros:
  assumes "\<forall>x\<in>set xs. 0 \<le> f x" "\<forall>y\<in>set ys. f y = 0"
  shows "sort_desc f (xs @ ys) = sort_desc f xs @ ys"
  unfolding sort_desc_def
proof (rule properties_for_sort_key)
  let ?k = "\<lambda>x. - f x"
  show "mset (sort_key ?k xs @ ys) = mset (xs @ ys)" by simp
  show "filter (\<lambda>y. ?k x = ?k y) (sort_key ?k xs @ ys) = filter (\<lambda>y. ?k x = ?k y) (xs @ ys)" for x
    using sort_key_stable [of ?k "?k x" xs] by (simp add: eq_commute)
  have "map ?k ys = map (\<lambda>_. 0) ys" using assms(2) by simp
  then have z: "map ?k ys = replicate (length ys) 0" by (simp add: map_replicate_const)
  show "sorted (map ?k (sort_key ?k xs @ ys))" unfolding map_append z sorted_append using assms(1) by simp
qed

abbreviation members :: "island \<Rightarrow> individual list" where
  "members i \<equiv> po_individuals (is_population i)"

definition full_island :: "island \<Rightarrow> bool" where
  "full_island i \<longleftrightarrow> 0 < po_size (is_population i) \<and> po_size (is_population i) \<le> length (members i) \<and> (\<forall>x\<in>set (members i). 0 \<le> in_fitness x)"

text \<open>The clones have fitness 0 until they are evaluated, which nothing does: a full island drops them again.\<close>

lemma receive_members:
  assumes "full_island i"
  shows "members (receive ids now ms i) = take (po_size (is_population i)) (sort_desc in_fitness (members i))"
proof -
  let ?p = "is_population i"
  obtain news where news: "members (receive ids now ms i) = take (po_size ?p) (sort_desc in_fitness (members i @ news))"
    and z: "\<forall>y\<in>set news. in_fitness y = 0"
    by (rule that [of "map (\<lambda>x. x\<lparr>in_gen := po_generation ?p\<rparr>) (map (\<lambda>(k, m). (clone (ids k) now m)\<lparr>in_gen := po_generation ?p\<rparr>) (List.enumerate 0 ms))"])
      (auto simp: receive_def Let_def clone_def)
  show ?thesis using assms z unfolding news by (simp add: sort_desc_zeros full_island_def)
qed

lemma receive_full:
  assumes "full_island i"
  shows "full_island (receive ids now ms i)" "top_fitness (members (receive ids now ms i)) = top_fitness (members i)"
    "set (members (receive ids now ms i)) \<subseteq> set (members i)"
proof -
  have sz: "po_size (is_population (receive ids now ms i)) = po_size (is_population i)" by (simp add: receive_def Let_def)
  have sub: "set (take n (sort_desc in_fitness (members i))) \<subseteq> set (members i)" for n
    using set_take_subset [of n "sort_desc in_fitness (members i)"] by simp
  show "set (members (receive ids now ms i)) \<subseteq> set (members i)" unfolding receive_members [OF assms] by (rule sub)
  then show "full_island (receive ids now ms i)" using assms by (auto simp: full_island_def sz receive_members [OF assms])
  show "top_fitness (members (receive ids now ms i)) = top_fitness (members i)"
    using assms top_take_sorted unfolding receive_members [OF assms] full_island_def by blast
qed

definition everyone :: "island list \<Rightarrow> individual set" where
  "everyone is = (\<Union>i\<in>set is. set (members i))"

lemma better_of_Some:
  "better_of best is = Some b \<Longrightarrow> (best = Some b \<or> b \<in> everyone is) \<and> (\<forall>x. best = Some x \<or> x \<in> everyone is \<longrightarrow> in_fitness x \<le> in_fitness b)"
proof (induction "is" arbitrary: best)
  case Nil
  then show ?case by (simp add: everyone_def)
next
  case (Cons i "is")
  show ?case
  proof (cases "pop_best (is_population i)")
    case None
    then have "members i = []" by (simp add: pop_best_def first_best_None)
    then show ?thesis using Cons.IH [of best] Cons.prems None by (simp add: everyone_def)
  next
    case (Some c)
    note c = first_best_Some [OF Some [unfolded pop_best_def]]
    show ?thesis
    proof (cases "\<exists>d. best = Some d \<and> in_fitness c \<le> in_fitness d")
      case True
      then obtain d where d: "best = Some d" "in_fitness c \<le> in_fitness d" by blast
      then have "better_of best is = Some b" using Cons.prems Some by simp
      from Cons.IH [OF this] show ?thesis using c d by (fastforce simp: everyone_def)
    next
      case False
      then have "better_of (Some c) is = Some b" using Cons.prems Some by (cases best) auto
      from Cons.IH [OF this] show ?thesis using c False by (fastforce simp: everyone_def)
    qed
  qed
qed

lemma better_of_None: "better_of best is = None \<Longrightarrow> best = None \<and> everyone is = {}"
proof (induction "is" arbitrary: best)
  case Nil
  then show ?case by (simp add: everyone_def)
next
  case (Cons i "is")
  show ?case
  proof (cases "pop_best (is_population i)")
    case None
    then have "members i = []" by (simp add: pop_best_def first_best_None)
    then show ?thesis using Cons.IH [of best] Cons.prems None by (simp add: everyone_def)
  next
    case (Some c)
    then obtain d where "better_of (Some d) is = None" using Cons.prems by (cases best) (auto split: if_splits)
    then show ?thesis using Cons.IH by blast
  qed
qed

definition keeps :: "island \<Rightarrow> island \<Rightarrow> bool" where
  "keeps i j \<longleftrightarrow> full_island j \<and> top_fitness (members j) = top_fitness (members i) \<and> set (members j) \<subseteq> set (members i)"

abbreviation kept :: "island list \<Rightarrow> island list \<Rightarrow> bool" where
  "kept \<equiv> list_all2 keeps"

lemma kept_refl: "\<forall>i\<in>set is. full_island i \<Longrightarrow> kept is is"
  by (simp add: keeps_def list_all2_same)

lemma kept_trans: "kept is js \<Longrightarrow> kept js ks \<Longrightarrow> kept is ks"
  by (rule list_all2_trans [of keeps keeps keeps]) (auto simp: keeps_def)

lemma kept_full: "kept is js \<Longrightarrow> \<forall>j\<in>set js. full_island j"
  by (auto simp: keeps_def list_all2_conv_all_nth in_set_conv_nth)

lemma kept_subset: "kept is js \<Longrightarrow> everyone js \<subseteq> everyone is"
  unfolding everyone_def by (induction rule: list_all2_induct) (auto simp: keeps_def)

lemma kept_top:
  assumes "kept is js" "x \<in> everyone is"
  shows "\<exists>y\<in>everyone js. in_fitness x \<le> in_fitness y"
proof -
  obtain i where i: "i \<in> set is" "x \<in> set (members i)" using assms(2) by (auto simp: everyone_def)
  obtain k where k: "k < length is" "x \<in> set (members (is ! k))" using i(2) i(1) [unfolded in_set_conv_nth] by blast
  have j: "k < length js" "top_fitness (members (js ! k)) = top_fitness (members (is ! k))"
    using assms(1) k(1) by (auto simp: keeps_def list_all2_conv_all_nth)
  have "members (is ! k) \<noteq> []" using k(2) by auto
  then obtain f where f: "top_fitness (members (is ! k)) = Some f" by (cases "top_fitness (members (is ! k))") simp_all
  then have "in_fitness x \<le> f" using k(2) by (simp add: top_Some)
  moreover obtain y where "y \<in> set (members (js ! k))" "in_fitness y = f" using f unfolding j(2) [symmetric] by (auto simp: top_Some)
  ultimately show ?thesis using j(1) by (auto simp: everyone_def)
qed

lemma migrate_kept:
  assumes "\<forall>i\<in>set (ig_islands g). full_island i"
  shows "kept (ig_islands g) (ig_islands (migrate src ids now g))"
proof (cases "length (ig_islands g) < 2")
  case True
  then show ?thesis using assms by (simp add: migrate_def kept_refl)
next
  case False
  then show ?thesis using assms
    by (auto simp: migrate_def record_migration_def distribute_migrants_def keeps_def list_all2_conv_all_nth nth_enumerate_eq receive_full)
qed

lemma migrate_settings [simp]:
  "ig_migration_interval (migrate src ids now g) = ig_migration_interval g" "ig_target (migrate src ids now g) = ig_target g"
  by (simp_all add: migrate_def record_migration_def distribute_migrants_def)

lemma run_generation_idle: "g\<lparr>ig_islands := map run_generation (ig_islands g)\<rparr> = g"
  by (simp add: run_generation_def [abs_def])

lemma island_loop_kept:
  assumes "kept is (ig_islands g)" "0 < ig_migration_interval g"
  shows "\<exists>g'. island_loop ch gen n g = Inr g' \<and> kept is (ig_islands g')"
  using assms
proof (induction n arbitrary: gen g)
  case (Suc n)
  let ?g2 = "if gen > 0 \<and> gen mod ig_migration_interval g = 0 then migrate (ic_source (ch gen)) (ic_ids (ch gen)) (ic_now (ch gen)) g else g"
  let ?best = "better_of None (ig_islands ?g2)"
  have k: "kept is (ig_islands ?g2)" using kept_trans [OF Suc.prems(1) migrate_kept [OF kept_full [OF Suc.prems(1)]]] Suc.prems(1) by simp
  have i: "0 < ig_migration_interval ?g2" using Suc.prems(2) by simp
  have step: "island_loop ch gen (Suc n) g =
      (if (case ?best of None \<Rightarrow> False | Some b \<Rightarrow> in_fitness b \<ge> ig_target ?g2) then Inr (?g2\<lparr>ig_global_best := ?best\<rparr>)
       else island_loop ch (gen + 1) n (?g2\<lparr>ig_global_best := ?best\<rparr>))"
    using Suc.prems(2) by (simp add: run_generation_idle get_global_best_def Let_def option.case_eq_if)
  show ?case unfolding step using Suc.IH [of "?g2\<lparr>ig_global_best := ?best\<rparr>" "gen + 1"] k i by simp
qed simp

text \<open>
  An island search whose islands are full, with fitness values that are not negative, returns one of the
  individuals it was given, the fittest of them: generations do nothing and no migrant stays.
\<close>

theorem islands_never_improve:
  assumes "0 < ig_migration_interval g" "ig_islands g \<noteq> []" "\<forall>i\<in>set (ig_islands g). full_island i"
  shows "\<exists>g' b. island_run ch g = Inr (g', Some b) \<and> b \<in> everyone (ig_islands g) \<and>
    (\<forall>x\<in>everyone (ig_islands g). in_fitness x \<le> in_fitness b) \<and> everyone (ig_islands g') \<subseteq> everyone (ig_islands g)"
proof -
  let ?is = "ig_islands g"
  obtain g' where l: "island_loop ch 0 (ig_max_generations g) g = Inr g'" and k: "kept ?is (ig_islands g')"
    using island_loop_kept [OF kept_refl [OF assms(3)] assms(1)] by blast
  obtain i where "i \<in> set ?is" using assms(2) by (cases ?is) auto
  then have "members i \<noteq> []" "set (members i) \<subseteq> everyone ?is" using assms(3) by (auto simp: full_island_def everyone_def)
  then have "everyone ?is \<noteq> {}" by (cases "members i") auto
  then have "everyone (ig_islands g') \<noteq> {}" using kept_top [OF k] by blast
  then obtain b where b: "better_of None (ig_islands g') = Some b"
    using better_of_None by (cases "better_of None (ig_islands g')") blast+
  note bs = better_of_Some [OF b]
  have sub: "everyone (ig_islands g') \<subseteq> everyone ?is" by (rule kept_subset [OF k])
  have mem: "b \<in> everyone ?is" using bs sub by auto
  have best: "\<forall>x\<in>everyone ?is. in_fitness x \<le> in_fitness b" using kept_top [OF k] bs by (meson order_trans)
  have "island_run ch g = Inr (g'\<lparr>ig_global_best := Some b\<rparr>, Some b)" using l b by (simp add: island_run_def get_global_best_def Let_def)
  then show ?thesis using mem best sub by auto
qed

definition demo_island :: "int \<Rightarrow> rat list \<Rightarrow> island" where
  "demo_island i fs = \<lparr>is_id = i, is_population = (init_population 1 0)\<lparr>po_individuals := map (demo_individual ''x'') fs\<rparr>, is_migration_count = 0\<rparr>"

definition demo_islands :: island_ga where
  "demo_islands = \<lparr>ig_migration_interval = 1, ig_migration_count = 1, ig_strategy = ''ring'', ig_max_generations = 9, ig_target = 1,
     ig_islands = [demo_island 0 [1 / 2], demo_island 1 [3 / 4]], ig_global_best = None, ig_history = []\<rparr>"

theorem islands_never_improve_witness:
  "\<exists>g'. island_run (\<lambda>g. \<lparr>ic_source = id, ic_ids = (\<lambda>i k. dec_nat k), ic_now = 0\<rparr>) demo_islands = Inr (g', Some (demo_individual ''x'' (3 / 4)))"
proof -
  have "0 < ig_migration_interval demo_islands" "ig_islands demo_islands \<noteq> []" "\<forall>i\<in>set (ig_islands demo_islands). full_island i"
    by (simp_all add: demo_islands_def demo_island_def full_island_def init_population_def demo_individual_def)
  from islands_never_improve [OF this, of "\<lambda>g. \<lparr>ic_source = id, ic_ids = (\<lambda>i k. dec_nat k), ic_now = 0\<rparr>"]
  show ?thesis by (auto simp: everyone_def demo_islands_def demo_island_def init_population_def demo_individual_def)
qed

subsection \<open>The rates\<close>

datatype rate_op = RO_Update rat | RO_Reset

fun rate_step :: "rate_op \<Rightarrow> mutation_controller \<Rightarrow> mutation_controller" where
  "rate_step (RO_Update f) c = fst (mc_update f c)"
| "rate_step RO_Reset c = mc_reset c"

definition rates_ok :: "mutation_controller \<Rightarrow> bool" where
  "rates_ok c \<longleftrightarrow> 0 \<le> mc_adaptation_rate c \<and> 0 < mc_novelty_threshold c \<and> 0 \<le> mc_stagnation_count c \<and>
     mc_min_mutation_rate c \<le> mc_mutation_rate c \<and> mc_mutation_rate c \<le> mc_max_mutation_rate c \<and>
     3 / 10 \<le> mc_crossover_rate c \<and> mc_crossover_rate c \<le> 9 / 10 \<and>
     (mc_novelty_enabled c \<longleftrightarrow> mc_novelty_threshold c \<le> mc_stagnation_count c)"

definition rates_fresh :: "mutation_controller \<Rightarrow> bool" where
  "rates_fresh c \<longleftrightarrow> c = \<lparr>mc_mutation_rate = 3 / 10, mc_crossover_rate = 7 / 10, mc_min_mutation_rate = 5 / 100, mc_max_mutation_rate = 8 / 10,
     mc_stagnation_threshold = 5, mc_novelty_threshold = 10, mc_adaptation_rate = 1 / 10, mc_history = [], mc_stagnation_count = 0,
     mc_novelty_enabled = False, mc_adjustments = 0\<rparr>"

lemma rates_ok_update:
  assumes "rates_ok c"
  shows "rates_ok (fst (mc_update f c))"
proof -
  obtain c2 s where u: "update_stagnation_state (c\<lparr>mc_history := mc_history c @ [f]\<rparr>) = (c2, s)" by fastforce
  have c2: "c2 = c\<lparr>mc_history := mc_history c @ [f], mc_stagnation_count := (if s then mc_stagnation_count c + 1 else 0), mc_novelty_enabled := (s \<and> mc_novelty_enabled c)\<rparr>"
    using u by (auto simp: update_stagnation_state_def split: if_splits)
  show ?thesis using assms unfolding mc_update_def Let_def u prod.case
    by (auto simp: c2 rates_ok_def adjust_operators_def trigger_novelty_search_def min_def max_def)
qed

interpretation rates: machine rates_fresh rate_step rates_ok
proof unfold_locales
  fix c assume "rates_fresh c"
  then show "rates_ok c" by (simp add: rates_fresh_def rates_ok_def)
next
  fix c e assume "rates_ok c"
  moreover have "rates_ok (mc_reset c)" if "rates_ok c" using that by (simp add: mc_reset_def rates_ok_def)
  ultimately show "rates_ok (rate_step e c)" by (cases e) (simp_all add: rates_ok_update)
qed

text \<open>
  C27. A controller made with the default settings is well formed in every reachable state: the mutation rate lies
  between its limits, the crossover rate between 0.3 and 0.9, and novelty search is on exactly when the count of
  stagnant generations has reached the threshold, with the mutation rate at its limit after an update.
\<close>

theorem controller_well_formed:
  assumes "reachable rates_fresh rate_step c"
  shows "mc_min_mutation_rate c \<le> mc_mutation_rate c \<and> mc_mutation_rate c \<le> mc_max_mutation_rate c \<and>
    3 / 10 \<le> mc_crossover_rate c \<and> mc_crossover_rate c \<le> 9 / 10 \<and>
    (mc_novelty_enabled c \<longleftrightarrow> mc_novelty_threshold c \<le> mc_stagnation_count c) \<and>
    (mc_novelty_enabled (fst (mc_update f c)) \<longrightarrow> mc_mutation_rate (fst (mc_update f c)) = mc_max_mutation_rate c)"
proof -
  have ok: "rates_ok c" by (rule rates.inv_reachable [OF assms])
  have "rates_ok (fst (mc_update f c))" using rates_ok_update [OF ok] .
  then have "mc_mutation_rate (fst (mc_update f c)) = mc_max_mutation_rate c" if "mc_novelty_enabled (fst (mc_update f c))"
    using that unfolding rates_ok_def
    by (auto simp: mc_update_def Let_def case_prod_unfold update_stagnation_state_def adjust_operators_def trigger_novelty_search_def split: if_splits)
  then show ?thesis using ok by (simp add: rates_ok_def)
qed

definition demo_controller :: mutation_controller where
  "demo_controller = fold rate_step [RO_Update (1 / 2), RO_Reset]
     \<lparr>mc_mutation_rate = 3 / 10, mc_crossover_rate = 7 / 10, mc_min_mutation_rate = 5 / 100, mc_max_mutation_rate = 8 / 10,
      mc_stagnation_threshold = 5, mc_novelty_threshold = 10, mc_adaptation_rate = 1 / 10, mc_history = [], mc_stagnation_count = 0,
      mc_novelty_enabled = False, mc_adjustments = 0\<rparr>"

theorem controller_well_formed_witness:
  "mc_min_mutation_rate demo_controller \<le> mc_mutation_rate demo_controller \<and> mc_crossover_rate demo_controller \<le> 9 / 10"
proof -
  have "reachable rates_fresh rate_step demo_controller"
    unfolding demo_controller_def by (intro reachable_run reachable.reach_init) (simp add: rates_fresh_def)
  from controller_well_formed [OF this, of 0] show ?thesis by simp
qed

end
