(* ===== verification/Evolution_Bridge.thy ===== *)
theory Evolution_Bridge
  imports Config_Enforcer
begin

text \<open>
  \<open>evolution/evolution_defense_bridge.py\<close>: the bridge that deploys the rules of the trainer through the enforcer
  (\<open>Config_Enforcer\<close>), watches how often they are wrong, and takes them back. The records are a dictionary by
  rule identifier. Of the attribute dictionaries of the updates a record keeps, only target, key and value are read,
  which nothing changes, so the updates themselves are kept. A call reads the clock once; \<open>digest\<close> and \<open>str_of\<close> are the
  arguments of the enforcer. The executor and the rule store the bridge is given are not used by any method.
\<close>

subsection \<open>Data\<close>

datatype bridge_phase = BP_IDLE | BP_CONVERTING | BP_ENQUEUING | BP_APPLYING | BP_MONITORING
  | BP_CIRCUIT_BROKEN | BP_ROLLING_BACK | BP_STABLE

text \<open>The values of \<open>deployment_status\<close>.\<close>

datatype deploy_status = DS_PENDING | DS_APPLIED | DS_FAILED | DS_CIRCUIT_BROKEN | DS_ROLLED_BACK | DS_DRY_RUN | DS_HALF_OPEN

record deployment =
  dp_rule_id :: string
  dp_defense_type :: defense_type
  dp_description :: string
  dp_updates :: "config_update list"
  dp_deployed_at :: time
  dp_status :: deploy_status
  dp_triggers :: int
  dp_true_positives :: int
  dp_false_positives :: int
  dp_failures :: int
  dp_rolled_back_at :: "time option"
  dp_rollback_reason :: string
  dp_version :: int

definition precision :: "deployment \<Rightarrow> rat" where
  "precision d = (if dp_triggers d = 0 then 1 else 1 - of_int (dp_false_positives d) / of_int (dp_triggers d))"

definition failure_rate :: "deployment \<Rightarrow> rat" where
  "failure_rate d = (if dp_triggers d = 0 then 0 else of_int (dp_failures d) / of_int (dp_triggers d))"

record deployment_view =
  dv_rule_id :: string
  dv_defense_type :: defense_type
  dv_description :: string
  dv_updates_count :: nat
  dv_deployed_at :: time
  dv_status :: deploy_status
  dv_trigger_count :: int
  dv_precision :: rat
  dv_failure_rate :: rat
  dv_version :: int
  dv_rolled_back_at :: "time option"
  dv_rollback_reason :: string

definition deployment_to_dict :: "deployment \<Rightarrow> deployment_view" where
  "deployment_to_dict d = \<lparr>dv_rule_id = dp_rule_id d, dv_defense_type = dp_defense_type d, dv_description = dp_description d,
     dv_updates_count = length (dp_updates d), dv_deployed_at = dp_deployed_at d, dv_status = dp_status d,
     dv_trigger_count = dp_triggers d, dv_precision = precision d, dv_failure_rate = failure_rate d, dv_version = dp_version d,
     dv_rolled_back_at = dp_rolled_back_at d, dv_rollback_reason = dp_rollback_reason d\<rparr>"

record bridge_stats =
  bs_received :: int
  bs_deployed :: int
  bs_failed :: int
  bs_breaks :: int
  bs_rollbacks :: int
  bs_generated :: int
  bs_applied :: int

record bridge =
  br_enforcer :: enforcer
  br_fp_threshold :: rat
  br_failure_threshold :: rat
  br_min_triggers :: int
  br_cooldown :: rat
  br_auto_rollback :: bool
  br_dry_run :: bool
  br_records :: "(string, deployment) dict"
  br_broken :: "(string, time) dict"
  br_phase :: bridge_phase
  br_stats :: bridge_stats

definition init_bridge :: "enforcer \<Rightarrow> rat \<Rightarrow> rat \<Rightarrow> int \<Rightarrow> rat \<Rightarrow> bool \<Rightarrow> bool \<Rightarrow> bridge" where
  "init_bridge en fp fr m cd auto dry =
     \<lparr>br_enforcer = en, br_fp_threshold = fp, br_failure_threshold = fr, br_min_triggers = m, br_cooldown = cd,
      br_auto_rollback = auto, br_dry_run = dry, br_records = [], br_broken = [], br_phase = BP_IDLE,
      br_stats = \<lparr>bs_received = 0, bs_deployed = 0, bs_failed = 0, bs_breaks = 0, bs_rollbacks = 0, bs_generated = 0, bs_applied = 0\<rparr>\<rparr>"

subsection \<open>Deployment\<close>

definition in_cooldown :: "time \<Rightarrow> string \<Rightarrow> bridge \<Rightarrow> bool" where
  "in_cooldown now rid b = (case dget (br_broken b) rid of None \<Rightarrow> False | Some t \<Rightarrow> now - t < br_cooldown b)"

datatype rule_result =
    RR_Skipped string
  | RR_Converted string nat "config_target list"
  | RR_Failed string

definition new_deployment :: "time \<Rightarrow> defense_rule \<Rightarrow> config_update list \<Rightarrow> deployment" where
  "new_deployment now r us =
     \<lparr>dp_rule_id = dr_rule_id r, dp_defense_type = dr_defense_type r, dp_description = dr_description r, dp_updates = us,
      dp_deployed_at = now, dp_status = (if us = [] then DS_FAILED else DS_PENDING), dp_triggers = 0, dp_true_positives = 0,
      dp_false_positives = 0, dp_failures = 0, dp_rolled_back_at = None, dp_rollback_reason = [], dp_version = dr_trigger_count r + 1\<rparr>"

definition convert_rule :: "(string \<Rightarrow> time \<Rightarrow> string) \<Rightarrow> (json \<Rightarrow> string) \<Rightarrow> time \<Rightarrow> source_event option \<Rightarrow> defense_rule \<Rightarrow> bridge \<Rightarrow>
    bridge \<times> rule_result \<times> config_update list" where
  "convert_rule digest str_of now ev r b =
     (if in_cooldown now (dr_rule_id r) b then (b, RR_Skipped (dr_rule_id r), [])
      else (let us = generate_updates_from_rule digest str_of now r ev
            in (b\<lparr>br_records := dset (dr_rule_id r) (new_deployment now r us) (br_records b),
                  br_stats := (br_stats b)\<lparr>bs_generated := bs_generated (br_stats b) + int (length us),
                    bs_failed := bs_failed (br_stats b) + (if us = [] then 1 else 0)\<rparr>\<rparr>,
                if us = [] then RR_Failed (dr_rule_id r) else RR_Converted (dr_rule_id r) (length us) (remdups (map cu_target us)), us)))"

fun convert_rules_to_updates :: "(string \<Rightarrow> time \<Rightarrow> string) \<Rightarrow> (json \<Rightarrow> string) \<Rightarrow> time \<Rightarrow> source_event option \<Rightarrow> defense_rule list \<Rightarrow> bridge \<Rightarrow>
    bridge \<times> rule_result list \<times> config_update list" where
  "convert_rules_to_updates digest str_of now ev [] b = (b, [], [])"
| "convert_rules_to_updates digest str_of now ev (r # rs) b =
     (let (b1, x, us) = convert_rule digest str_of now ev r b; (b2, xs, us') = convert_rules_to_updates digest str_of now ev rs b1
      in (b2, x # xs, us @ us'))"

definition mark_pending :: "(deployment \<Rightarrow> deployment) \<Rightarrow> (string, deployment) dict \<Rightarrow> (string, deployment) dict" where
  "mark_pending f = map (\<lambda>(k, d). (k, if dp_status d = DS_PENDING then f d else d))"

text \<open>The result of the enforcer counts the applied updates only: a record is marked as applied whatever happened to its own.\<close>

definition apply_config_updates :: "time \<Rightarrow> string option \<Rightarrow> config_update list \<Rightarrow> bridge \<Rightarrow> bridge \<times> exc option" where
  "apply_config_updates now max_priority us b =
     (if us = [] then (b, None)
      else if br_dry_run b then (b\<lparr>br_records := mark_pending (\<lambda>d. d\<lparr>dp_status := DS_DRY_RUN\<rparr>) (br_records b)\<rparr>, None)
      else (case apply_pending max_priority (enqueue_updates us (br_enforcer b)) of
          (en, Inl e) \<Rightarrow> (b\<lparr>br_enforcer := en, br_phase := BP_APPLYING\<rparr>, Some e)
        | (en, Inr rep) \<Rightarrow>
            (b\<lparr>br_enforcer := en, br_phase := BP_APPLYING,
               br_records := mark_pending (\<lambda>d. d\<lparr>dp_status := DS_APPLIED, dp_deployed_at := now\<rparr>) (br_records b),
               br_stats := (br_stats b)\<lparr>bs_applied := bs_applied (br_stats b) + ar_applied rep,
                 bs_deployed := bs_deployed (br_stats b) + count (\<lambda>d. dp_status d = DS_PENDING) (vals (br_records b))\<rparr>\<rparr>, None)))"

record deploy_report =
  de_phase :: bridge_phase
  de_received :: nat
  de_deployed :: int
  de_generated :: int
  de_applied :: int
  de_results :: "rule_result list"
  de_dry_run :: bool

definition build_deployment_result :: "defense_rule list \<Rightarrow> rule_result list \<Rightarrow> bridge \<Rightarrow> deploy_report" where
  "build_deployment_result rs xs b =
     \<lparr>de_phase = br_phase b, de_received = length rs, de_deployed = bs_deployed (br_stats b), de_generated = bs_generated (br_stats b),
      de_applied = bs_applied (br_stats b), de_results = xs, de_dry_run = br_dry_run b\<rparr>"

definition deploy_evolved_rules :: "(string \<Rightarrow> time \<Rightarrow> string) \<Rightarrow> (json \<Rightarrow> string) \<Rightarrow> time \<Rightarrow> defense_rule list \<Rightarrow> source_event option \<Rightarrow> string option \<Rightarrow>
    bridge \<Rightarrow> bridge \<times> (exc + deploy_report)" where
  "deploy_evolved_rules digest str_of now rs ev max_priority b =
     (let b1 = b\<lparr>br_phase := BP_CONVERTING, br_stats := (br_stats b)\<lparr>bs_received := bs_received (br_stats b) + int (length rs)\<rparr>\<rparr>;
          (b2, xs, us) = convert_rules_to_updates digest str_of now ev rs b1
      in case apply_config_updates now max_priority us b2 of
           (b3, Some e) \<Rightarrow> (b3, Inl e)
         | (b3, None) \<Rightarrow> (let b4 = b3\<lparr>br_phase := BP_MONITORING\<rparr> in (b4, Inr (build_deployment_result rs xs b4))))"

subsection \<open>Rollback\<close>

definition rollback_update :: "time \<Rightarrow> string \<Rightarrow> string \<Rightarrow> config_update \<Rightarrow> config_update" where
  "rollback_update now rid reason u =
     \<lparr>cu_update_id = ''rollback_'' @ rid @ ''_'' @ dec_int (py_int now), cu_target = cu_target u, cu_action = CH_REMOVE,
      cu_description = ''rollback of rule '' @ rid @ '': '' @ reason, cu_config_key = cu_config_key u, cu_config_value = cu_config_value u,
      cu_priority = ''high'', cu_reason = ''automatic rollback: '' @ reason, cu_source_event_id = None, cu_defense_rule_id = Some rid,
      cu_timestamp = now, cu_applied = False, cu_applied_at = None, cu_rollback_snapshot = None, cu_status = None, cu_error = None\<rparr>"

record rollback_report =
  ro_rule_id :: string
  ro_reason :: string
  ro_updates_count :: nat
  ro_rolled_back_at :: time
  ro_previous_version :: int

definition bridge_rollback_rule :: "time \<Rightarrow> string \<Rightarrow> string \<Rightarrow> bridge \<Rightarrow> bridge \<times> (exc + rollback_report option)" where
  "bridge_rollback_rule now rid reason b =
     (let b0 = b\<lparr>br_phase := BP_ROLLING_BACK\<rparr>
      in case dget (br_records b) rid of
           None \<Rightarrow> (b0, Inr None)
         | Some d \<Rightarrow>
             (let us = map (rollback_update now rid reason) (dp_updates d);
                  finish = (\<lambda>b. b\<lparr>br_records := dset rid (d\<lparr>dp_status := DS_ROLLED_BACK, dp_rolled_back_at := Some now,
                                dp_rollback_reason := reason\<rparr>) (br_records b),
                              br_stats := (br_stats b)\<lparr>bs_rollbacks := bs_rollbacks (br_stats b) + 1\<rparr>, br_phase := BP_IDLE\<rparr>);
                  rep = \<lparr>ro_rule_id = rid, ro_reason = reason, ro_updates_count = length us, ro_rolled_back_at = now,
                         ro_previous_version = (if dp_version d > 1 then dp_version d - 1 else 1)\<rparr>
              in if us \<noteq> [] \<and> \<not> br_dry_run b
                 then (case apply_pending (Some ''high'') (enqueue_updates us (br_enforcer b)) of
                     (en, Inl e) \<Rightarrow> (b0\<lparr>br_enforcer := en\<rparr>, Inl e)
                   | (en, Inr _) \<Rightarrow> (finish (b0\<lparr>br_enforcer := en\<rparr>), Inr (Some rep)))
                 else (finish b0, Inr (Some rep))))"

subsection \<open>Monitoring\<close>

text \<open>\<open>f"{x:.1%}"\<close>.\<close>

definition percent1 :: "rat \<Rightarrow> string" where
  "percent1 x = (let n = half_even (\<bar>x\<bar> * 1000)
     in (if x < 0 then ''-'' else []) @ dec_int (n div 10) @ ''.'' @ dec_int (n mod 10) @ ''%'')"

definition trip_reason :: "bridge \<Rightarrow> deployment \<Rightarrow> string option" where
  "trip_reason b d =
     (if dp_triggers d < br_min_triggers b then None
      else if precision d < 1 - br_fp_threshold b
      then Some (''too many false positives: '' @ percent1 (1 - precision d) @ '' > threshold '' @ percent1 (br_fp_threshold b))
      else if failure_rate d > br_failure_threshold b
      then Some (''too many failures: '' @ percent1 (failure_rate d) @ '' > threshold '' @ percent1 (br_failure_threshold b))
      else None)"

definition bridge_circuit_break :: "time \<Rightarrow> deployment \<Rightarrow> bridge \<Rightarrow> bridge" where
  "bridge_circuit_break now d b =
     b\<lparr>br_records := dset (dp_rule_id d) (d\<lparr>dp_status := DS_CIRCUIT_BROKEN\<rparr>) (br_records b),
       br_broken := dset (dp_rule_id d) now (br_broken b),
       br_stats := (br_stats b)\<lparr>bs_breaks := bs_breaks (br_stats b) + 1\<rparr>, br_phase := BP_CIRCUIT_BROKEN\<rparr>"

definition count_trigger :: "bool \<Rightarrow> bool \<Rightarrow> deployment \<Rightarrow> deployment" where
  "count_trigger tp fail d =
     d\<lparr>dp_triggers := dp_triggers d + 1, dp_true_positives := dp_true_positives d + (if tp then 1 else 0),
       dp_false_positives := dp_false_positives d + (if tp then 0 else 1), dp_failures := dp_failures d + (if fail then 1 else 0)\<rparr>"

datatype trigger_result =
    TR_Unknown
  | TR_Skipped deploy_status
  | TR_Counted int rat rat deploy_status
  | TR_Tripped int rat rat string "rollback_report option"

definition record_rule_trigger :: "time \<Rightarrow> string \<Rightarrow> bool \<Rightarrow> bool \<Rightarrow> bridge \<Rightarrow> bridge \<times> (exc + trigger_result)" where
  "record_rule_trigger now rid tp fail b =
     (case dget (br_records b) rid of
        None \<Rightarrow> (b, Inr TR_Unknown)
      | Some d0 \<Rightarrow>
          if dp_status d0 = DS_ROLLED_BACK \<or> dp_status d0 = DS_CIRCUIT_BROKEN then (b, Inr (TR_Skipped (dp_status d0)))
          else (let d = count_trigger tp fail d0; b1 = b\<lparr>br_records := dset rid d (br_records b)\<rparr>
                in case trip_reason b d of
                     None \<Rightarrow> (b1, Inr (TR_Counted (dp_triggers d) (precision d) (failure_rate d) (dp_status d)))
                   | Some reason \<Rightarrow>
                       (let b2 = bridge_circuit_break now d b1
                        in if br_auto_rollback b
                           then (case bridge_rollback_rule now rid reason b2 of
                               (b3, Inl e) \<Rightarrow> (b3, Inl e)
                             | (b3, Inr rep) \<Rightarrow> (b3, Inr (TR_Tripped (dp_triggers d) (precision d) (failure_rate d) reason rep)))
                           else (b2, Inr (TR_Tripped (dp_triggers d) (precision d) (failure_rate d) reason None)))))"

datatype half_open_result = HO_Not_Broken | HO_Cooldown rat | HO_Half_Open

definition bridge_half_open :: "time \<Rightarrow> string \<Rightarrow> bridge \<Rightarrow> bridge \<times> half_open_result" where
  "bridge_half_open now rid b =
     (case dget (br_broken b) rid of
        None \<Rightarrow> (b, HO_Not_Broken)
      | Some t \<Rightarrow>
          if now - t < br_cooldown b then (b, HO_Cooldown (br_cooldown b - (now - t)))
          else (b\<lparr>br_records := (case dget (br_records b) rid of
                   None \<Rightarrow> br_records b
                 | Some d \<Rightarrow> dset rid (d\<lparr>dp_status := DS_HALF_OPEN, dp_triggers := 0, dp_false_positives := 0, dp_failures := 0\<rparr>) (br_records b)),
                  br_broken := ddel rid (br_broken b)\<rparr>, HO_Half_Open))"

subsection \<open>Queries\<close>

definition get_deployment_status :: "string \<Rightarrow> bridge \<Rightarrow> deployment_view option" where
  "get_deployment_status rid b = map_option deployment_to_dict (dget (br_records b) rid)"

definition get_all_deployments :: "bridge \<Rightarrow> deployment_view list" where
  "get_all_deployments b = map deployment_to_dict (vals (br_records b))"

record broken_view =
  bv_rule_id :: string
  bv_broken_at :: time
  bv_elapsed :: rat
  bv_remaining :: rat
  bv_precision :: "rat option"
  bv_failure_rate :: "rat option"

definition get_circuit_broken_rules :: "time \<Rightarrow> bridge \<Rightarrow> broken_view list" where
  "get_circuit_broken_rules now b =
     map (\<lambda>(rid, t). (let d = dget (br_records b) rid
        in \<lparr>bv_rule_id = rid, bv_broken_at = t, bv_elapsed = now - t, bv_remaining = max 0 (br_cooldown b - (now - t)),
            bv_precision = map_option precision d, bv_failure_rate = map_option failure_rate d\<rparr>)) (br_broken b)"

record bridge_report =
  bq_stats :: bridge_stats
  bq_phase :: bridge_phase
  bq_tracked :: nat
  bq_broken_count :: nat
  bq_auto_rollback :: bool

definition bridge_get_stats :: "bridge \<Rightarrow> bridge_report" where
  "bridge_get_stats b = \<lparr>bq_stats = br_stats b, bq_phase = br_phase b, bq_tracked = length (br_records b),
     bq_broken_count = length (br_broken b), bq_auto_rollback = br_auto_rollback b\<rparr>"

subsection \<open>Removing keys\<close>

definition update_path :: "config_update \<Rightarrow> string list" where
  "update_path u = split_dot (cu_config_key u)"

text \<open>What the configuration file of a target holds at a path, if the file can be read.\<close>

definition value_at :: "string \<Rightarrow> disk \<Rightarrow> config_target \<Rightarrow> string list \<Rightarrow> json option" where
  "value_at dir dk t ks = (case read_config (config_path dir t) dk of Inr c \<Rightarrow> get_path ks c | Inl e \<Rightarrow> None)"

abbreviation in_force :: "enforcer \<Rightarrow> config_target \<Rightarrow> string list \<Rightarrow> json option" where
  "in_force en \<equiv> value_at (en_config_dir en) (en_disk en)"

lemma path_error_absent: "apply_path a v ks c = (c', Some e) \<Longrightarrow> get_path ks c = None"
proof (induction a v ks c arbitrary: c' e rule: apply_path.induct)
  case (3 a v k k' ks d)
  let ?c = "case dget d k of Some c \<Rightarrow> c | None \<Rightarrow> JObj []"
  obtain x e' where x: "apply_path a v (k' # ks) ?c = (x, e')" by fastforce
  then have "e' = Some e" using 3(2) by (simp add: Let_def)
  then have "get_path (k' # ks) ?c = None" using 3(1) x by blast
  then show ?case by (auto split: option.splits)
qed auto

lemma get_path_prefix: "get_path ks c = None \<Longrightarrow> prefix ks q \<Longrightarrow> get_path q c = None"
proof (induction ks arbitrary: c q)
  case (Cons k ks)
  then obtain q' where q: "q = k # q'" "prefix ks q'" by (cases q) auto
  show ?case using Cons.prems(1) Cons.IH [OF _ q(2)] by (cases c) (auto simp: q(1) split: option.splits)
qed simp

lemma get_path_remove:
  assumes "apply_path CH_REMOVE v ks c = (c', None)" "ks \<noteq> []" "get_path q c = None" "\<not> strict_prefix q ks"
  shows "get_path q c' = None"
proof (cases "prefix ks q")
  case True
  have "get_path ks c' = None" using apply_path_sets [OF assms(1,2)] by simp
  then show ?thesis using True by (rule get_path_prefix)
next
  case False
  then have "\<not> prefix q ks" using assms(4) by (auto simp: strict_prefix_def)
  then show ?thesis using apply_path_frame [OF assms(1)] False assms(3) by simp
qed

lemma config_path_inj [simp]: "config_path dir t = config_path dir t' \<longleftrightarrow> t = t'"
  by (cases t; cases t') (auto simp: config_path_def os_join_def)

lemma try_update_ok [simp]: "dk_ok (try_update dir u dk) = dk_ok dk"
  by (auto simp: try_update_def update_file_def write_file_def split: sum.split option.split prod.split)

lemma folded_ok [simp]: "dk_ok (fold (try_update dir) us dk) = dk_ok dk"
  by (induction us arbitrary: dk) simp_all

text \<open>The value at a path after an update: of the changed document, of the old one, or none in a cut file.\<close>

lemma try_update_cases:
  assumes "dk_ok dk"
  obtains c c' where "read_config (config_path dir (cu_target u)) dk = Inr c" "apply_to_config c u = (c', None)"
      "\<And>t q. value_at dir (try_update dir u dk) t q = (if t = cu_target u then get_path q c' else value_at dir dk t q)"
    | "\<And>t q. value_at dir (try_update dir u dk) t q = (if t = cu_target u then None else value_at dir dk t q)"
    | "\<And>c. read_config (config_path dir (cu_target u)) dk = Inr c \<Longrightarrow> snd (apply_to_config c u) \<noteq> None" "try_update dir u dk = dk"
proof -
  let ?p = "config_path dir (cu_target u)"
  obtain dk' e where w: "update_file ?p u dk = (dk', e)" by fastforce
  then have t: "try_update dir u dk = dk'" by (simp add: try_update_def)
  show thesis
  proof (cases e)
    case None
    obtain c c' where c: "read_config ?p dk = Inr c" "apply_to_config c u = (c', None)" "write_file ?p (Doc c') dk = (dk', None)"
      using w unfolding None by (rule update_file_cases)
    show thesis by (rule that(1) [OF c(1,2)]) (simp add: t value_at_def read_config_def file_at_write [OF c(3)])
  next
    case (Some x)
    from update_file_failed [OF w [unfolded Some]] show thesis
    proof (elim disjE exE conjE)
      assume same: "dk' = dk" and no: "dk_ok dk \<longrightarrow> (\<forall>c c'. read_config ?p dk = Inr c \<longrightarrow> apply_to_config c u \<noteq> (c', None))"
      have "snd (apply_to_config c u) \<noteq> None" if "read_config ?p dk = Inr c" for c
        using no assms that by (cases "apply_to_config c u") auto
      then show thesis using that(3) same t by blast
    next
      fix c c' assume "write_file ?p (Doc c') dk = (dk', Some x)"
      moreover have "dk_breaks dk (dk_writes dk)" using calculation assms by (simp add: write_file_def split: if_splits)
      ultimately have "file_at dk' q = (if q = ?p then Corrupt else file_at dk q)" for q
        using file_at_failed_write assms by simp
      then show thesis by (intro that(2)) (simp add: t value_at_def read_config_def)
    qed
  qed
qed

lemma remove_removes:
  assumes "cu_action u = CH_REMOVE" "dk_ok dk"
  shows "value_at dir (try_update dir u dk) (cu_target u) (update_path u) = None"
    "value_at dir dk t q = None \<Longrightarrow> t = cu_target u \<longrightarrow> \<not> strict_prefix q (update_path u) \<Longrightarrow> value_at dir (try_update dir u dk) t q = None"
proof -
  have ap: "apply_to_config c u = apply_path CH_REMOVE (cu_config_value u) (update_path u) c" for c
    using assms(1) by (simp add: apply_to_config_def update_path_def)
  have ne: "update_path u \<noteq> []" by (simp add: update_path_def)
  show "value_at dir (try_update dir u dk) (cu_target u) (update_path u) = None"
    using assms(2)
  proof (cases rule: try_update_cases [of dk dir u])
    case (1 c c')
    then show ?thesis using apply_path_sets [OF 1(2) [unfolded ap] ne] by simp
  next
    case 3
    have "get_path (update_path u) c = None" if "read_config (config_path dir (cu_target u)) dk = Inr c" for c
    proof -
      have "snd (apply_to_config c u) \<noteq> None" using that by (rule 3(1))
      then obtain c' x where "apply_to_config c u = (c', Some x)" by (cases "apply_to_config c u") auto
      then show ?thesis unfolding ap by (rule path_error_absent)
    qed
    then show ?thesis using 3(2) by (simp add: value_at_def split: sum.split)
  qed simp
  assume n: "value_at dir dk t q = None" and sp: "t = cu_target u \<longrightarrow> \<not> strict_prefix q (update_path u)"
  show "value_at dir (try_update dir u dk) t q = None"
    using assms(2)
  proof (cases rule: try_update_cases [of dk dir u])
    case (1 c c')
    then show ?thesis using n sp get_path_remove [OF 1(2) [unfolded ap] ne, of q] by (auto simp: value_at_def)
  qed (use n in simp_all)
qed

text \<open>Removals whose paths are not above one another leave none of them.\<close>

definition apart :: "config_update list \<Rightarrow> bool" where
  "apart us \<longleftrightarrow> (\<forall>u\<in>set us. \<forall>v\<in>set us. \<not> strict_prefix (update_path u) (update_path v))"

lemma fold_keeps_none:
  assumes "\<forall>u\<in>set us. cu_action u = CH_REMOVE \<and> \<not> strict_prefix q (update_path u)" "dk_ok dk" "value_at dir dk t q = None"
  shows "value_at dir (fold (try_update dir) us dk) t q = None"
  using assms by (induction us arbitrary: dk) (simp_all add: remove_removes(2))

lemma removals_remove:
  assumes "\<forall>u\<in>set us. cu_action u = CH_REMOVE" "apart us" "dk_ok dk" "u \<in> set us"
  shows "value_at dir (fold (try_update dir) us dk) (cu_target u) (update_path u) = None"
  using assms
proof (induction us arbitrary: dk)
  case (Cons w us)
  show ?case
  proof (cases "u = w")
    case True
    have "value_at dir (try_update dir w dk) (cu_target u) (update_path u) = None" using remove_removes(1) Cons.prems True by simp
    then show ?thesis using Cons.prems fold_keeps_none [of us "update_path u"] True by (auto simp: apart_def)
  next
    case False
    then show ?thesis using Cons.IH [of "try_update dir w dk"] Cons.prems by (auto simp: apart_def)
  qed
qed simp

lemma set_by_priority [simp]: "set (by_priority us) = set us"
  by (simp add: by_priority_def)

text \<open>The keys of the updates of one rule are not above one another.\<close>

lemma generated_keys_apart: "apart (generate_updates_from_rule digest str_of now r e)"
proof (cases "dr_defense_type r")
  case SYSTEM_CALL_MONITOR
  have "(\<exists>x. blocked_syscalls str_of e = [x]) \<or> blocked_syscalls str_of e = [''ptrace'', ''kexec_load'', ''init_module'', ''finit_module'']"
    by (simp add: blocked_syscalls_def Let_def split: option.split)
  then show ?thesis using SYSTEM_CALL_MONITOR
    by (auto simp: apart_def generate_updates_from_rule_def Let_def generate_seccomp_updates_def enumerate_def update_path_def strict_prefix_def)
next
  case NETWORK_FILTER
  then show ?thesis
    by (auto simp: apart_def generate_updates_from_rule_def Let_def generate_network_updates_def enumerate_def internal_cidrs_def update_path_def strict_prefix_def)
next
  case PROCESS_ISOLATION
  then show ?thesis
    by (auto simp: apart_def generate_updates_from_rule_def Let_def generate_isolation_updates_def enumerate_def update_path_def strict_prefix_def)
next
  case AUDIT_LOGGING
  then show ?thesis
    by (auto simp: apart_def generate_updates_from_rule_def Let_def generate_audit_updates_def enumerate_def update_path_def strict_prefix_def)
next
  case RESOURCE_LIMIT
  then show ?thesis
    by (auto simp: apart_def generate_updates_from_rule_def Let_def generate_resource_updates_def enumerate_def resource_limits_def update_path_def strict_prefix_def)
next
  case CAPABILITY_DROP
  then show ?thesis
    by (auto simp: apart_def generate_updates_from_rule_def Let_def generate_capability_updates_def enumerate_def dangerous_caps_def update_path_def strict_prefix_def)
qed (simp_all add: apart_def generate_updates_from_rule_def)

subsection \<open>The state of a bridge\<close>

datatype bridge_op =
    BO_Deploy "string \<Rightarrow> time \<Rightarrow> string" "json \<Rightarrow> string" time "defense_rule list" "source_event option" "string option"
  | BO_Trigger time string bool bool
  | BO_Half_Open time string
  | BO_Rollback time string string

fun bridge_step :: "bridge_op \<Rightarrow> bridge \<Rightarrow> bridge" where
  "bridge_step (BO_Deploy digest str_of now rs ev mp) b = fst (deploy_evolved_rules digest str_of now rs ev mp b)"
| "bridge_step (BO_Trigger now rid tp fail) b = fst (record_rule_trigger now rid tp fail b)"
| "bridge_step (BO_Half_Open now rid) b = fst (bridge_half_open now rid b)"
| "bridge_step (BO_Rollback now rid reason) b = fst (bridge_rollback_rule now rid reason b)"

definition bridge_fresh :: "bridge \<Rightarrow> bool" where
  "bridge_fresh b \<longleftrightarrow> (\<exists>en fp fr m cd auto dry. b = init_bridge en fp fr m cd auto dry)"

definition deployment_ok :: "string \<Rightarrow> deployment \<Rightarrow> bool" where
  "deployment_ok rid d \<longleftrightarrow> dp_rule_id d = rid \<and> 0 \<le> dp_false_positives d \<and> dp_false_positives d \<le> dp_triggers d \<and>
     0 \<le> dp_failures d \<and> dp_failures d \<le> dp_triggers d \<and> dp_triggers d \<le> dp_true_positives d + dp_false_positives d \<and>
     apart (dp_updates d)"

definition bridge_ok :: "bridge \<Rightarrow> bool" where
  "bridge_ok b \<longleftrightarrow> (\<forall>rid d. dget (br_records b) rid = Some d \<longrightarrow> deployment_ok rid d \<and> (dp_status d = DS_CIRCUIT_BROKEN \<longrightarrow> dget (br_broken b) rid \<noteq> None)) \<and>
     (\<forall>rid. dget (br_broken b) rid \<noteq> None \<longrightarrow> dget (br_records b) rid \<noteq> None)"

lemma rates_bounds:
  assumes "deployment_ok rid d"
  shows "0 \<le> precision d \<and> precision d \<le> 1 \<and> 0 \<le> failure_rate d \<and> failure_rate d \<le> 1"
proof (cases "dp_triggers d = 0")
  case False
  then have n: "0 < (of_int (dp_triggers d) :: rat)" using assms by (simp add: deployment_ok_def)
  moreover have "of_int (dp_false_positives d) \<le> (of_int (dp_triggers d) :: rat)" "of_int (dp_failures d) \<le> (of_int (dp_triggers d) :: rat)"
    "0 \<le> (of_int (dp_false_positives d) :: rat)" "0 \<le> (of_int (dp_failures d) :: rat)"
    using assms by (simp_all add: deployment_ok_def)
  ultimately show ?thesis using False by (simp add: precision_def failure_rate_def)
qed (simp add: precision_def failure_rate_def)

lemma new_deployment_ok:
  "apart us \<Longrightarrow> deployment_ok (dr_rule_id r) (new_deployment now r us)" "dp_status (new_deployment now r us) \<noteq> DS_CIRCUIT_BROKEN"
  by (simp_all add: deployment_ok_def new_deployment_def)

lemma bridge_ok_put:
  assumes "bridge_ok b" "deployment_ok rid d" "dp_status d = DS_CIRCUIT_BROKEN \<longrightarrow> dget br rid \<noteq> None"
    "\<And>k. k \<noteq> rid \<Longrightarrow> dget br k = dget (br_broken b) k"
  shows "bridge_ok (b\<lparr>br_records := dset rid d (br_records b), br_broken := br\<rparr>)"
  using assms unfolding bridge_ok_def by (auto simp: dget_dset split: if_splits)

lemma bridge_ok_cong:
  "br_records b' = br_records b \<Longrightarrow> br_broken b' = br_broken b \<Longrightarrow> bridge_ok b' = bridge_ok b"
  by (simp add: bridge_ok_def)

lemma convert_rule_ok: "bridge_ok b \<Longrightarrow> bridge_ok (fst (convert_rule digest str_of now ev r b))"
proof -
  assume ok: "bridge_ok b"
  let ?d = "new_deployment now r (generate_updates_from_rule digest str_of now r ev)"
  have "bridge_ok (b\<lparr>br_records := dset (dr_rule_id r) ?d (br_records b), br_broken := br_broken b\<rparr>)"
    using ok by (rule bridge_ok_put) (simp_all add: new_deployment_ok generated_keys_apart)
  then have "bridge_ok (b\<lparr>br_records := dset (dr_rule_id r) ?d (br_records b), br_stats := st\<rparr>)" for st
    by (simp add: bridge_ok_def)
  then show ?thesis using ok by (simp add: convert_rule_def Let_def)
qed

lemma convert_rules_ok: "bridge_ok b \<Longrightarrow> bridge_ok (fst (convert_rules_to_updates digest str_of now ev rs b))"
proof (induction rs arbitrary: b)
  case (Cons r rs)
  then show ?case using Cons.IH [OF convert_rule_ok [OF Cons.prems]] by (simp add: Let_def case_prod_unfold)
qed simp

lemma dget_mark_pending:
  "dget (mark_pending f rs) k = map_option (\<lambda>d. if dp_status d = DS_PENDING then f d else d) (dget rs k)"
  unfolding mark_pending_def by (rule dget_map_vals [of "\<lambda>k d. if dp_status d = DS_PENDING then f d else d"])

lemma mark_pending_ok:
  assumes "bridge_ok b" "\<And>rid d. deployment_ok rid d \<Longrightarrow> deployment_ok rid (f d)" "\<And>d. dp_status (f d) \<noteq> DS_CIRCUIT_BROKEN"
    "br_records b' = mark_pending f (br_records b)" "br_broken b' = br_broken b"
  shows "bridge_ok b'"
  using assms unfolding bridge_ok_def by (auto simp: dget_mark_pending split: if_splits)

lemma apply_config_updates_ok:
  assumes ok: "bridge_ok b"
  shows "bridge_ok (fst (apply_config_updates now mp us b))"
proof -
  have same: "br_records b' = br_records b \<Longrightarrow> br_broken b' = br_broken b \<Longrightarrow> bridge_ok b'" for b' :: bridge
    using ok by (simp add: bridge_ok_def)
  have dry: "br_records b' = mark_pending (\<lambda>d. d\<lparr>dp_status := DS_DRY_RUN\<rparr>) (br_records b) \<Longrightarrow> br_broken b' = br_broken b \<Longrightarrow> bridge_ok b'" for b' :: bridge
    by (rule mark_pending_ok [OF ok, where f = "\<lambda>d. d\<lparr>dp_status := DS_DRY_RUN\<rparr>"]) (simp_all add: deployment_ok_def)
  have applied: "br_records b' = mark_pending (\<lambda>d. d\<lparr>dp_status := DS_APPLIED, dp_deployed_at := now\<rparr>) (br_records b) \<Longrightarrow> br_broken b' = br_broken b \<Longrightarrow> bridge_ok b'" for b' :: bridge
    by (rule mark_pending_ok [OF ok, where f = "\<lambda>d. d\<lparr>dp_status := DS_APPLIED, dp_deployed_at := now\<rparr>"]) (simp_all add: deployment_ok_def)
  obtain en r where ap: "apply_pending mp (enqueue_updates us (br_enforcer b)) = (en, r)" by fastforce
  consider "us = []" | "us \<noteq> []" "br_dry_run b" | e where "us \<noteq> []" "\<not> br_dry_run b" "r = Inl e" | rep where "us \<noteq> []" "\<not> br_dry_run b" "r = Inr rep"
    by (cases r) blast+
  then show ?thesis
  proof cases
    case 1
    then show ?thesis using ok by (simp add: apply_config_updates_def)
  next
    case 2
    then show ?thesis by (simp add: apply_config_updates_def dry)
  next
    case 3
    then show ?thesis using ap by (simp add: apply_config_updates_def same)
  next
    case 4
    then show ?thesis using ap by (simp add: apply_config_updates_def applied)
  qed
qed

lemma deploy_ok: "bridge_ok b \<Longrightarrow> bridge_ok (fst (deploy_evolved_rules digest str_of now rs ev mp b))"
proof -
  assume ok: "bridge_ok b"
  let ?b1 = "b\<lparr>br_phase := BP_CONVERTING, br_stats := (br_stats b)\<lparr>bs_received := bs_received (br_stats b) + int (length rs)\<rparr>\<rparr>"
  obtain b2 xs us where c: "convert_rules_to_updates digest str_of now ev rs ?b1 = (b2, xs, us)" by (cases "convert_rules_to_updates digest str_of now ev rs ?b1") auto
  have "bridge_ok ?b1" using ok by (simp add: bridge_ok_def)
  then have b2: "bridge_ok b2" using convert_rules_ok [of ?b1 digest str_of now ev rs] c by simp
  obtain b3 e where a: "apply_config_updates now mp us b2 = (b3, e)" by fastforce
  then have b3: "bridge_ok b3" using apply_config_updates_ok [OF b2, of now mp us] by simp
  then have "bridge_ok (b3\<lparr>br_phase := BP_MONITORING\<rparr>)" by (simp add: bridge_ok_def)
  then show ?thesis using b3 c a by (cases e) (simp_all add: deploy_evolved_rules_def Let_def)
qed

lemma rollback_ok:
  assumes ok: "bridge_ok b"
  shows "bridge_ok (fst (bridge_rollback_rule now rid reason b))"
proof (cases "dget (br_records b) rid")
  case None
  then show ?thesis using ok by (simp add: bridge_rollback_rule_def Let_def bridge_ok_def)
next
  case (Some d)
  let ?d = "d\<lparr>dp_status := DS_ROLLED_BACK, dp_rolled_back_at := Some now, dp_rollback_reason := reason\<rparr>"
  have "deployment_ok rid d" using ok Some by (simp add: bridge_ok_def)
  then have "deployment_ok rid ?d" by (simp add: deployment_ok_def)
  then have "bridge_ok (b\<lparr>br_records := dset rid ?d (br_records b), br_broken := br_broken b\<rparr>)" using ok by (intro bridge_ok_put) simp_all
  then have put: "br_records b' = dset rid ?d (br_records b) \<Longrightarrow> br_broken b' = br_broken b \<Longrightarrow> bridge_ok b'" for b' :: bridge
    by (simp add: bridge_ok_def)
  have same: "br_records b' = br_records b \<Longrightarrow> br_broken b' = br_broken b \<Longrightarrow> bridge_ok b'" for b' :: bridge
    using ok by (simp add: bridge_ok_def)
  show ?thesis using Some
    by (auto simp: bridge_rollback_rule_def Let_def split: prod.split sum.split intro: put same)
qed

lemma trigger_ok:
  assumes ok: "bridge_ok b"
  shows "bridge_ok (fst (record_rule_trigger now rid tp fail b))"
proof (cases "dget (br_records b) rid")
  case None
  then show ?thesis using ok by (simp add: record_rule_trigger_def)
next
  case (Some d0)
  let ?d = "count_trigger tp fail d0"
  have ok0: "deployment_ok rid d0" using ok Some by (simp add: bridge_ok_def)
  then have d: "deployment_ok rid ?d" by (simp add: deployment_ok_def count_trigger_def)
  then have id: "dp_rule_id ?d = rid" by (simp add: deployment_ok_def)
  have "dp_status ?d = dp_status d0" by (simp add: count_trigger_def)
  then have "bridge_ok (b\<lparr>br_records := dset rid ?d (br_records b), br_broken := br_broken b\<rparr>)"
    using ok d Some by (intro bridge_ok_put) (simp_all add: bridge_ok_def)
  then have b1: "bridge_ok (b\<lparr>br_records := dset rid ?d (br_records b)\<rparr>)" by simp
  let ?b2 = "bridge_circuit_break now ?d (b\<lparr>br_records := dset rid ?d (br_records b)\<rparr>)"
  have "deployment_ok rid (?d\<lparr>dp_status := DS_CIRCUIT_BROKEN\<rparr>)" using d by (simp add: deployment_ok_def)
  then have "bridge_ok (b\<lparr>br_records := dset rid ?d (br_records b)\<rparr>\<lparr>br_records := dset rid (?d\<lparr>dp_status := DS_CIRCUIT_BROKEN\<rparr>)
      (br_records (b\<lparr>br_records := dset rid ?d (br_records b)\<rparr>)), br_broken := dset rid now (br_broken b)\<rparr>)"
    using b1 by (intro bridge_ok_put) (simp_all add: dget_dset)
  then have b2: "bridge_ok ?b2" by (simp add: bridge_circuit_break_def id bridge_ok_def)
  show ?thesis using ok b1 b2 rollback_ok [OF b2] Some
    by (auto simp: record_rule_trigger_def Let_def case_prod_unfold split: option.split sum.split)
qed

lemma half_open_ok:
  assumes ok: "bridge_ok b"
  shows "bridge_ok (fst (bridge_half_open now rid b))"
proof (cases "dget (br_records b) rid")
  case None
  then have "dget (br_broken b) rid = None" using ok unfolding bridge_ok_def by blast
  then show ?thesis using ok by (simp add: bridge_half_open_def)
next
  case (Some d)
  let ?d = "d\<lparr>dp_status := DS_HALF_OPEN, dp_triggers := 0, dp_false_positives := 0, dp_failures := 0\<rparr>"
  have "deployment_ok rid d" using ok Some by (simp add: bridge_ok_def)
  then have "deployment_ok rid ?d" by (simp add: deployment_ok_def)
  then have "bridge_ok (b\<lparr>br_records := dset rid ?d (br_records b), br_broken := ddel rid (br_broken b)\<rparr>)"
    using ok by (intro bridge_ok_put) (simp_all add: dget_ddel)
  then show ?thesis using ok Some by (simp add: bridge_half_open_def split: option.split)
qed

interpretation bridge: machine bridge_fresh bridge_step bridge_ok
proof unfold_locales
  fix b assume "bridge_fresh b"
  then show "bridge_ok b" by (auto simp: bridge_fresh_def init_bridge_def bridge_ok_def)
next
  fix b e assume "bridge_ok b"
  then show "bridge_ok (bridge_step e b)" by (cases e) (simp_all only: bridge_step.simps deploy_ok trigger_ok half_open_ok rollback_ok)
qed

text \<open>
  In every reachable state the records of a bridge are consistent: a record is filed under its rule, its
  precision and rate of failures lie between 0 and 1, every trigger was counted as right or wrong, a rule that is
  broken has the time of its break, and every such time belongs to a record.
\<close>

theorem bridge_records_consistent:
  assumes "reachable bridge_fresh bridge_step b"
  shows "(\<forall>rid d. dget (br_records b) rid = Some d \<longrightarrow> dp_rule_id d = rid \<and> 0 \<le> precision d \<and> precision d \<le> 1 \<and>
      0 \<le> failure_rate d \<and> failure_rate d \<le> 1 \<and> dp_triggers d \<le> dp_true_positives d + dp_false_positives d \<and>
      (dp_status d = DS_CIRCUIT_BROKEN \<longrightarrow> dget (br_broken b) rid \<noteq> None)) \<and>
    (\<forall>rid. dget (br_broken b) rid \<noteq> None \<longrightarrow> dget (br_records b) rid \<noteq> None)"
proof -
  have ok: "bridge_ok b" by (rule bridge.inv_reachable [OF assms])
  have "dp_rule_id d = rid \<and> 0 \<le> precision d \<and> precision d \<le> 1 \<and> 0 \<le> failure_rate d \<and> failure_rate d \<le> 1 \<and>
      dp_triggers d \<le> dp_true_positives d + dp_false_positives d \<and> (dp_status d = DS_CIRCUIT_BROKEN \<longrightarrow> dget (br_broken b) rid \<noteq> None)"
    if "dget (br_records b) rid = Some d" for rid d
  proof -
    have "deployment_ok rid d" "dp_status d = DS_CIRCUIT_BROKEN \<longrightarrow> dget (br_broken b) rid \<noteq> None" using ok that by (simp_all add: bridge_ok_def)
    then show ?thesis using rates_bounds [of rid d] by (simp add: deployment_ok_def)
  qed
  then show ?thesis using ok unfolding bridge_ok_def by blast
qed

subsection \<open>Tripping\<close>

text \<open>The limits without division.\<close>

definition over_limit :: "bridge \<Rightarrow> int \<Rightarrow> int \<Rightarrow> int \<Rightarrow> bool" where
  "over_limit b n fps fails \<longleftrightarrow> br_min_triggers b \<le> n \<and>
     (br_fp_threshold b * of_int n < of_int fps \<or> br_failure_threshold b * of_int n < of_int fails)"

lemma trip_reason_iff:
  assumes "0 < dp_triggers d"
  shows "trip_reason b d \<noteq> None \<longleftrightarrow> over_limit b (dp_triggers d) (dp_false_positives d) (dp_failures d)"
proof -
  have n: "0 < (of_int (dp_triggers d) :: rat)" using assms by simp
  have "precision d < 1 - br_fp_threshold b \<longleftrightarrow> br_fp_threshold b * of_int (dp_triggers d) < of_int (dp_false_positives d)"
    using assms by (simp add: precision_def pos_less_divide_eq [OF n])
  moreover have "failure_rate d > br_failure_threshold b \<longleftrightarrow> br_failure_threshold b * of_int (dp_triggers d) < of_int (dp_failures d)"
    using assms by (simp add: failure_rate_def pos_less_divide_eq [OF n])
  ultimately show ?thesis by (auto simp: trip_reason_def over_limit_def)
qed

lemma rollback_rule_frame:
  assumes "dget (br_records b) rid = Some d" "bridge_rollback_rule now rid reason b = (b', r)"
  shows "br_broken b' = br_broken b" "\<And>k. k \<noteq> rid \<Longrightarrow> dget (br_records b') k = dget (br_records b) k"
    "\<exists>d'. dget (br_records b') rid = Some d' \<and> (dp_status d' = DS_ROLLED_BACK \<or> d' = d)"
  using assms by (auto simp: bridge_rollback_rule_def Let_def dget_dset split: if_splits prod.splits sum.splits)

text \<open>
  C28. A rule that is not taken back yet is taken back by a trigger exactly when there have been enough triggers and
  the share of wrong ones or of failures is above its threshold. Then it is broken from that moment; otherwise
  only its counters change. Other rules' records never change.
\<close>

theorem trips_exactly_over_limit:
  assumes "reachable bridge_fresh bridge_step b" "dget (br_records b) rid = Some d" "dp_status d \<notin> {DS_ROLLED_BACK, DS_CIRCUIT_BROKEN}"
    and "record_rule_trigger now rid tp fail b = (b', r)"
  shows "(if over_limit b (dp_triggers d + 1) (dp_false_positives d + (if tp then 0 else 1)) (dp_failures d + (if fail then 1 else 0))
      then dget (br_broken b') rid = Some now \<and>
        (\<exists>d'. dget (br_records b') rid = Some d' \<and> dp_status d' \<in> {DS_ROLLED_BACK, DS_CIRCUIT_BROKEN})
      else b' = b\<lparr>br_records := dset rid (count_trigger tp fail d) (br_records b)\<rparr>) \<and>
    (\<forall>k. k \<noteq> rid \<longrightarrow> dget (br_records b') k = dget (br_records b) k)"
proof -
  let ?d = "count_trigger tp fail d" and ?b1 = "b\<lparr>br_records := dset rid (count_trigger tp fail d) (br_records b)\<rparr>"
  let ?over = "over_limit b (dp_triggers d + 1) (dp_false_positives d + (if tp then 0 else 1)) (dp_failures d + (if fail then 1 else 0))"
  have ok: "deployment_ok rid d" using bridge.inv_reachable [OF assms(1)] assms(2) by (simp add: bridge_ok_def)
  then have id: "dp_rule_id ?d = rid" "0 < dp_triggers ?d" by (simp_all add: deployment_ok_def count_trigger_def)
  have over: "trip_reason b ?d \<noteq> None \<longleftrightarrow> ?over" unfolding trip_reason_iff [OF id(2)] by (simp add: count_trigger_def)
  let ?b2 = "bridge_circuit_break now ?d ?b1"
  have b2: "dget (br_broken ?b2) rid = Some now" "dget (br_records ?b2) rid = Some (?d\<lparr>dp_status := DS_CIRCUIT_BROKEN\<rparr>)"
    "\<And>k. k \<noteq> rid \<Longrightarrow> dget (br_records ?b2) k = dget (br_records b) k"
    by (simp_all add: bridge_circuit_break_def id dget_dset)
  show ?thesis
  proof (cases "trip_reason b ?d")
    case None
    then have "b' = ?b1" using assms by (simp add: record_rule_trigger_def Let_def)
    moreover have "\<not> ?over" using over None by simp
    ultimately show ?thesis by (simp add: dget_dset)
  next
    case (Some reason)
    have o: ?over using over Some by simp
    obtain b3 q where rb: "bridge_rollback_rule now rid reason ?b2 = (b3, q)" by fastforce
    have "b' = (if br_auto_rollback b then b3 else ?b2)"
      using assms(2-4) Some rb by (auto simp: record_rule_trigger_def Let_def split: if_splits sum.splits)
    then show ?thesis using o b2 rollback_rule_frame [OF b2(2) rb] by auto
  qed
qed

subsection \<open>Rollback and shared keys\<close>

lemma enqueue_simps [simp]:
  "en_pending (enqueue_updates us s) = en_pending s @ us" "en_disk (enqueue_updates us s) = en_disk s"
  "en_config_dir (enqueue_updates us s) = en_config_dir s" "en_dry_run (enqueue_updates us s) = en_dry_run s"
  unfolding enqueue_updates_def by (induction us arbitrary: s) (simp_all add: enqueue_update_def Let_def)

lemma apart_rollback: "apart us \<Longrightarrow> apart (map (rollback_update now rid reason) us)"
  by (simp add: apart_def rollback_update_def update_path_def)

text \<open>Updates of the least priority in the queue, appended to it, come last.\<close>

lemma sort_key_append_top:
  fixes f :: "'a \<Rightarrow> int"
  shows "\<forall>x\<in>set xs. f x \<le> m \<Longrightarrow> \<forall>y\<in>set ys. f y = m \<Longrightarrow> sort_key f (xs @ ys) = sort_key f xs @ ys"
proof (induction xs)
  case Nil
  then show ?case
  proof (induction ys)
    case (Cons y ys)
    then show ?case by (cases ys) auto
  qed simp
next
  case (Cons x xs)
  have "insort_key f x (zs @ ys) = insort_key f x zs @ ys" for zs
    using Cons.prems by (induction zs) (cases ys, auto)
  then show ?case using Cons by simp
qed

lemma high_level: "bound_level (Some ''high'') = 2"
  by (simp add: bound_level_def str_or_none_def priority_order_def dget_or_def)

lemma rollback_level: "priority_level (rollback_update now rid reason u) = 2"
  by (simp add: priority_level_def rollback_update_def priority_order_def dget_or_def)

text \<open>
  C29. Taking a rule back, on a bridge and an enforcer that are not in dry-run mode and with a directory that can be written:
  when no update of a priority below high is waiting in the queue of the enforcer, it succeeds and leaves none of the
  keys of the rule in the configuration, whoever else has put them there; the records of all other rules stay as they
  are. (Of two rules that block the same system call, both applied, taking back one unblocks it, and the other is still
  recorded as applied.) When an update of a lower priority is waiting that no call has tried yet, it raises
  AttributeError, and the rule is not recorded as taken back.
\<close>

theorem rollback_removes_keys:
  assumes "reachable bridge_fresh bridge_step b" "\<not> br_dry_run b" "\<not> en_dry_run (br_enforcer b)"
    and "dk_ok (en_disk (br_enforcer b))" "dget (br_records b) rid = Some d" "dp_updates d \<noteq> []"
  shows "((\<forall>u\<in>set (en_pending (br_enforcer b)). 2 \<le> priority_level u) \<longrightarrow>
      (\<exists>b' rep. bridge_rollback_rule now rid reason b = (b', Inr (Some rep)) \<and>
        (\<forall>u\<in>set (dp_updates d). in_force (br_enforcer b') (cu_target u) (update_path u) = None) \<and>
        map_option dp_status (dget (br_records b') rid) = Some DS_ROLLED_BACK \<and>
        (\<forall>k. k \<noteq> rid \<longrightarrow> dget (br_records b') k = dget (br_records b) k))) \<and>
    ((\<exists>u\<in>set (en_pending (br_enforcer b)). priority_level u < 2 \<and> cu_status u = None) \<longrightarrow>
      (\<exists>b'. bridge_rollback_rule now rid reason b = (b', Inl AttributeError) \<and> br_records b' = br_records b))"
proof -
  let ?us = "map (rollback_update now rid reason) (dp_updates d)" and ?en = "br_enforcer b"
  let ?s = "enqueue_updates ?us ?en"
  obtain en r where run: "apply_pending (Some ''high'') ?s = (en, r)" by fastforce
  have "apart (dp_updates d)" using bridge.inv_reachable [OF assms(1)] assms(5) by (simp add: bridge_ok_def deployment_ok_def)
  then have ap: "apart ?us" by (rule apart_rollback)
  have good: "\<exists>b' rep. bridge_rollback_rule now rid reason b = (b', Inr (Some rep)) \<and>
        (\<forall>u\<in>set (dp_updates d). in_force (br_enforcer b') (cu_target u) (update_path u) = None) \<and>
        map_option dp_status (dget (br_records b') rid) = Some DS_ROLLED_BACK \<and>
        (\<forall>k. k \<noteq> rid \<longrightarrow> dget (br_records b') k = dget (br_records b) k)"
    if high: "\<forall>u\<in>set (en_pending ?en). 2 \<le> priority_level u"
  proof -
    have el: "\<forall>u\<in>set (en_pending ?s). bound_level (Some ''high'') \<le> priority_level u"
      using high by (auto simp: high_level rollback_level)
    have order: "by_priority (en_pending ?en @ ?us) = by_priority (en_pending ?en) @ ?us"
      unfolding by_priority_def by (rule sort_key_append_top [where m = "- 2"]) (use high in \<open>auto simp: rollback_level\<close>)
    let ?dk = "fold (try_update (en_config_dir ?en)) (by_priority (en_pending ?en)) (en_disk ?en)"
    obtain rep where r: "r = Inr rep" and disk: "en_disk en = fold (try_update (en_config_dir ?en)) ?us ?dk"
      and dir: "en_config_dir en = en_config_dir ?en"
      using apply_pending_eligible [OF el] assms(3) run order by auto
    have rm: "\<forall>u\<in>set ?us. cu_action u = CH_REMOVE" by (simp add: rollback_update_def)
    have gone: "in_force en (cu_target u) (update_path u) = None" if "u \<in> set (dp_updates d)" for u
    proof -
      have "rollback_update now rid reason u \<in> set ?us" using that by simp
      from removals_remove [OF rm ap _ this, of ?dk "en_config_dir ?en"] show ?thesis
        using assms(4) unfolding disk dir by (simp add: rollback_update_def update_path_def)
    qed
    show ?thesis using gone assms(2,5,6) run by (simp add: bridge_rollback_rule_def Let_def r dget_dset)
  qed
  have raises: "\<exists>b'. bridge_rollback_rule now rid reason b = (b', Inl AttributeError) \<and> br_records b' = br_records b"
    if low: "u \<in> set (en_pending ?en)" "priority_level u < 2" "cu_status u = None" for u
  proof -
    have "snd (apply_pending (Some ''high'') ?s) = Inl AttributeError"
      using priority_bound_raises [of u ?s "''high''"] low by (simp add: priority_order_def dget_or_def)
    then show ?thesis using run assms(2,5,6) by (simp add: bridge_rollback_rule_def Let_def)
  qed
  show ?thesis using good raises by blast
qed

lemma dget_vals: "dget d k = Some v \<Longrightarrow> v \<in> set (vals d)"
  by (force simp: vals_def dest: map_of_SomeD)

subsection \<open>Deployment that changes nothing\<close>

lemma all_fail:
  "apply_filtered_updates ps s = (s', rs) \<Longrightarrow> \<not> dk_ok (en_disk s) \<Longrightarrow> \<not> en_dry_run s \<Longrightarrow> \<forall>r\<in>set rs. ae_error r \<noteq> None"
proof (induction ps arbitrary: s s' rs)
  case (Cons i ps)
  obtain s1 r where one: "apply_one i s = (s1, r)" by fastforce
  obtain s2 rs2 where rest: "apply_filtered_updates ps s1 = (s2, rs2)" by fastforce
  have "ae_error r \<noteq> None" "en_disk s1 = en_disk s" "en_dry_run s1 = en_dry_run s"
    using one Cons.prems(2,3) by (auto simp: apply_one_def Let_def update_file_def)
  then show ?case using Cons.IH [OF rest] Cons.prems one rest by (auto simp: Let_def)
qed simp

lemma unwritable_applies_none:
  assumes "apply_pending mp s = (s', Inr rep)" "\<not> dk_ok (en_disk s)" "\<not> en_dry_run s"
  shows "ar_applied rep = 0"
proof -
  obtain s1 rs where loop: "apply_filtered_updates (filter_and_sort_updates mp (en_pending s)) s = (s1, rs)" by fastforce
  have "\<forall>r\<in>set rs. ae_error r \<noteq> None" by (rule all_fail [OF loop assms(2,3)])
  then have "count (\<lambda>r. ae_error r = None) rs = 0" by (simp add: count_def)
  then show ?thesis using assms(1) loop by (auto simp: apply_pending_def split: sum.splits)
qed

lemma in_cooldown_upd [simp]: "in_cooldown now rid (b\<lparr>br_phase := p, br_stats := st\<rparr>) = in_cooldown now rid b"
  by (simp add: in_cooldown_def cong: option.case_cong)

lemma try_update_unwritable: "\<not> dk_ok dk \<Longrightarrow> fold (try_update dir) us dk = dk"
  by (induction us) (simp_all add: try_update_def update_file_def)

text \<open>
  When the configuration cannot be written, deploying a rule that yields updates succeeds all the same: the rule
  is recorded as applied and counted as deployed, while no update is applied and the disk is unchanged.
\<close>

theorem deployment_claims_success:
  assumes "\<not> br_dry_run b" "\<not> en_dry_run (br_enforcer b)" "\<not> dk_ok (en_disk (br_enforcer b))" "en_pending (br_enforcer b) = []"
    and "\<not> in_cooldown now (dr_rule_id r) b" "generate_updates_from_rule digest str_of now r ev \<noteq> []"
  shows "\<exists>b' rep. deploy_evolved_rules digest str_of now [r] ev None b = (b', Inr rep) \<and>
    map_option dp_status (dget (br_records b') (dr_rule_id r)) = Some DS_APPLIED \<and>
    bs_deployed (br_stats b) < de_deployed rep \<and> de_applied rep = bs_applied (br_stats b) \<and>
    en_disk (br_enforcer b') = en_disk (br_enforcer b)"
proof -
  let ?us = "generate_updates_from_rule digest str_of now r ev" and ?en = "br_enforcer b" and ?rid = "dr_rule_id r"
  let ?s = "enqueue_updates ?us ?en" and ?d = "new_deployment now r ?us"
  have el: "\<forall>u\<in>set (en_pending ?s). bound_level None \<le> priority_level u" by (simp add: bound_level_def str_or_none_def)
  obtain en q where run: "apply_pending None ?s = (en, q)" by fastforce
  obtain rep where q: "q = Inr rep" and disk: "en_disk en = en_disk ?en"
    using apply_pending_eligible [OF el] assms(2,3) run by (auto simp: try_update_unwritable)
  have none: "ar_applied rep = 0" using unwritable_applies_none [OF run [unfolded q]] assms(2,3) by simp
  have pend: "dp_status ?d = DS_PENDING" using assms(6) by (simp add: new_deployment_def)
  have "dget (dset ?rid ?d (br_records b)) ?rid = Some ?d" by (simp add: dget_dset)
  then have "?d \<in> set (vals (dset ?rid ?d (br_records b)))"
    by (rule dget_vals)
  then have "0 < count (\<lambda>d. dp_status d = DS_PENDING) (vals (dset ?rid ?d (br_records b)))" using pend unfolding count_pos by blast
  then show ?thesis using assms run q none disk pend
    by (simp add: deploy_evolved_rules_def convert_rule_def apply_config_updates_def Let_def build_deployment_result_def
        dget_mark_pending dget_dset)
qed

subsection \<open>A small bridge\<close>

definition demo_rule :: "string \<Rightarrow> defense_rule" where
  "demo_rule rid = \<lparr>dr_rule_id = rid, dr_defense_type = AUDIT_LOGGING, dr_description = [], dr_target_attack_types = [],
     dr_detection_logic = [], dr_effectiveness = 1 / 2, dr_trigger_count = 0, dr_false_positive_count = 0, dr_created_at = 0, dr_last_triggered = 0\<rparr>"

definition demo_base :: "bool \<Rightarrow> bridge" where
  "demo_base wr = init_bridge (init_enforcer ''/c'' False False None (new_disk [] wr)) (3 / 10) (1 / 5) 1 60 True False"

definition demo_bridge :: bridge where
  "demo_bridge = fold bridge_step (map (\<lambda>rid. BO_Deploy (\<lambda>r t. r) (\<lambda>j. []) 0 [demo_rule rid] None None) [''r1'', ''r2'']) (demo_base True)"

lemma demo_bridge_facts:
  "map_option (\<lambda>d. (dp_status d, map (\<lambda>u. (cu_target u, update_path u)) (dp_updates d))) (dget (br_records demo_bridge) ''r1'') =
     Some (DS_APPLIED, [(AUDIT_CONFIG, [''hmac_chain'', ''enabled'']), (AUDIT_CONFIG, [''audit_level''])])"
  "map_option dp_status (dget (br_records demo_bridge) ''r2'') = Some DS_APPLIED"
  "in_force (br_enforcer demo_bridge) AUDIT_CONFIG [''hmac_chain'', ''enabled''] = Some (JBool True)"
  "en_pending (br_enforcer demo_bridge) = [] \<and> \<not> br_dry_run demo_bridge \<and> \<not> en_dry_run (br_enforcer demo_bridge) \<and> dk_ok (en_disk (br_enforcer demo_bridge))"
  by code_simp+

lemma demo_bridge_reachable: "reachable bridge_fresh bridge_step demo_bridge"
  unfolding demo_bridge_def by (intro reachable_run reachable.reach_init) (unfold bridge_fresh_def demo_base_def, blast)

theorem bridge_records_consistent_witness: "\<exists>d. dget (br_records demo_bridge) ''r1'' = Some d \<and> 0 \<le> precision d \<and> precision d \<le> 1"
proof -
  obtain d where "dget (br_records demo_bridge) ''r1'' = Some d" using demo_bridge_facts(1) by auto
  then show ?thesis using bridge_records_consistent [OF demo_bridge_reachable] by blast
qed

theorem trips_exactly_over_limit_witness:
  "dget (br_broken (fst (record_rule_trigger 5 ''r1'' False False demo_bridge))) ''r1'' = Some 5"
proof -
  obtain d where d: "dget (br_records demo_bridge) ''r1'' = Some d" "dp_status d \<notin> {DS_ROLLED_BACK, DS_CIRCUIT_BROKEN}"
    using demo_bridge_facts(1) by auto
  obtain b' r where t: "record_rule_trigger 5 ''r1'' False False demo_bridge = (b', r)" by fastforce
  have "map_option (\<lambda>d. over_limit demo_bridge (dp_triggers d + 1) (dp_false_positives d + 1) (dp_failures d + 0)) (dget (br_records demo_bridge) ''r1'') = Some True"
    by code_simp
  then have "over_limit demo_bridge (dp_triggers d + 1) (dp_false_positives d + (if False then 0 else 1)) (dp_failures d + (if False then 1 else 0))"
    using d(1) by simp
  then show ?thesis using trips_exactly_over_limit [OF demo_bridge_reachable d t] t by simp
qed

theorem rollback_removes_keys_witness:
  "in_force (br_enforcer demo_bridge) AUDIT_CONFIG [''hmac_chain'', ''enabled''] = Some (JBool True) \<and>
   (\<exists>b' rep. bridge_rollback_rule 1 ''r1'' [] demo_bridge = (b', Inr (Some rep)) \<and>
     in_force (br_enforcer b') AUDIT_CONFIG [''hmac_chain'', ''enabled''] = None \<and>
     map_option dp_status (dget (br_records b') ''r2'') = Some DS_APPLIED)"
proof -
  obtain d where d: "dget (br_records demo_bridge) ''r1'' = Some d"
    and us: "map (\<lambda>u. (cu_target u, update_path u)) (dp_updates d) = [(AUDIT_CONFIG, [''hmac_chain'', ''enabled'']), (AUDIT_CONFIG, [''audit_level''])]"
    using demo_bridge_facts(1) by auto
  have "(AUDIT_CONFIG, [''hmac_chain'', ''enabled'']) \<in> set (map (\<lambda>u. (cu_target u, update_path u)) (dp_updates d))"
    unfolding us by simp
  then obtain u where u: "u \<in> set (dp_updates d)" "cu_target u = AUDIT_CONFIG" "update_path u = [''hmac_chain'', ''enabled'']" by auto
  obtain b' rep where b': "bridge_rollback_rule 1 ''r1'' [] demo_bridge = (b', Inr (Some rep))"
    "in_force (br_enforcer b') AUDIT_CONFIG [''hmac_chain'', ''enabled''] = None"
    "dget (br_records b') ''r2'' = dget (br_records demo_bridge) ''r2''"
    using rollback_removes_keys [OF demo_bridge_reachable _ _ _ d, of 1 "[]"] demo_bridge_facts(4) u by force
  then show ?thesis using demo_bridge_facts(2,3) by auto
qed

theorem deployment_claims_success_witness:
  "\<exists>b' rep. deploy_evolved_rules (\<lambda>r t. r) (\<lambda>j. []) 0 [demo_rule ''r1''] None None (demo_base False) = (b', Inr rep) \<and>
     map_option dp_status (dget (br_records b') ''r1'') = Some DS_APPLIED \<and> dk_files (en_disk (br_enforcer b')) = []"
proof -
  have "\<not> br_dry_run (demo_base False)" "\<not> en_dry_run (br_enforcer (demo_base False))" "\<not> dk_ok (en_disk (br_enforcer (demo_base False)))"
    "en_pending (br_enforcer (demo_base False)) = []" "\<not> in_cooldown 0 (dr_rule_id (demo_rule ''r1'')) (demo_base False)"
    "generate_updates_from_rule (\<lambda>r t. r) (\<lambda>j. []) 0 (demo_rule ''r1'') None \<noteq> []"
    by (simp_all add: demo_base_def init_bridge_def init_enforcer_def in_cooldown_def demo_rule_def generate_updates_from_rule_def
        generate_audit_updates_def Let_def)
  from deployment_claims_success [OF this] show ?thesis
    by (auto simp: demo_rule_def demo_base_def init_bridge_def init_enforcer_def)
qed

end
