(* ===== verification/Adversary_Trainer.thy ===== *)
theory Adversary_Trainer
  imports Adversary_Agents
begin

text \<open>
  The trainer of \<open>evolution/red_blue_adversary.py\<close>: rounds of attack and defence, evolution of the weakest rule,
  real events turned into cases and rules, which the bridge (\<open>Evolution_Bridge\<close>) deploys, and the way back from the
  bridge to the rules. A method that raises returns the state it leaves. \<open>to_text\<close> stands for \<open>json.dumps\<close>. Training from
  events that arrive while it waits (threads) and the generation of cases by retrieval are not modelled.
\<close>

subsection \<open>State\<close>

record adversary_round =
  rd_round_id :: nat
  rd_attack :: nat
  rd_rules :: "nat list"
  rd_attack_success :: bool
  rd_defense_success :: bool
  rd_delay :: rat
  rd_cpu :: rat
  rd_memory :: rat
  rd_timestamp :: time

record test_result =
  ts_dimension :: string
  ts_cases :: "(string \<times> bool) list"
  ts_passed :: int
  ts_total :: nat
  ts_pass_rate :: rat

record test_report =
  tp_timestamp :: time
  tp_results :: "test_result list"
  tp_overall :: rat

record event_entry =
  ee_event_id :: string
  ee_source :: event_source
  ee_severity :: string
  ee_anomaly_type :: "anomaly_type option"
  ee_anomaly_score :: rat
  ee_timestamp :: time
  ee_triggered :: bool

record bridge_deployment =
  bd_rule_id :: string
  bd_event_id :: "string option"
  bd_timestamp :: time
  bd_deployed :: bool
  bd_targets :: "config_target list"
  bd_config_updates :: int
  bd_dry_run :: bool

record trainer =
  tr_red :: red_agent
  tr_blue :: blue_agent
  tr_max_rounds :: nat
  tr_mutation :: bool
  tr_mutation_rate :: rat
  tr_evolution :: bool
  tr_rounds :: "adversary_round list"
  tr_tests :: "test_report list"
  tr_events :: "event_entry list"
  tr_bridge :: "bridge option"
  tr_auto_deploy :: bool
  tr_deployments :: "bridge_deployment list"
  tr_signals :: int
  tr_high_signals :: int

definition init_trainer :: "red_agent \<Rightarrow> blue_agent \<Rightarrow> nat \<Rightarrow> bool \<Rightarrow> rat \<Rightarrow> bool \<Rightarrow> bridge option \<Rightarrow> bool \<Rightarrow> trainer" where
  "init_trainer red blue rounds mut rate evo br auto =
     \<lparr>tr_red = red, tr_blue = blue, tr_max_rounds = rounds, tr_mutation = mut, tr_mutation_rate = rate, tr_evolution = evo,
      tr_rounds = [], tr_tests = [], tr_events = [], tr_bridge = br, tr_auto_deploy = (auto \<and> br \<noteq> None), tr_deployments = [],
      tr_signals = 0, tr_high_signals = 0\<rparr>"

subsection \<open>Rounds\<close>

record round_draws =
  rw_now :: time
  rw_select :: rat
  rw_pick :: nat
  rw_mutate :: rat
  rw_mutation :: mutation_choice
  rw_detect :: "nat \<Rightarrow> rat"
  rw_delay :: rat
  rw_cpu :: rat
  rw_memory :: rat
  rw_evolution :: evolution_choice

definition choose_attack :: "round_draws \<Rightarrow> trainer \<Rightarrow> exc + red_agent \<times> nat" where
  "choose_attack w t =
     ebind (select_attack_case (rw_now w) (rw_select w) (rw_pick w) (tr_red t)) (\<lambda>i.
       Inr (if tr_mutation t \<and> draw (rw_mutate w) < tr_mutation_rate t then mutate_attack_case (rw_now w) (rw_mutation w) i (tr_red t)
            else (tr_red t, i)))"

definition run_single_round :: "round_draws \<Rightarrow> nat \<Rightarrow> trainer \<Rightarrow> exc + trainer" where
  "run_single_round w n t =
     ebind (choose_attack w t) (\<lambda>(red, i).
       let hits = detect_attack (rw_detect w) (ra_cases red ! i) (tr_blue t); detected = (hits \<noteq> []);
           rd = \<lparr>rd_round_id = n, rd_attack = i, rd_rules = hits, rd_attack_success = (\<not> detected), rd_defense_success = detected,
                 rd_delay = rw_delay w, rd_cpu = uniform 0 10 (rw_cpu w), rd_memory = uniform 0 100 (rw_memory w), rd_timestamp = rw_now w\<rparr>
       in Inr (t\<lparr>tr_red := record_attack_result (rw_now w) i (\<not> detected) red,
                 tr_blue := record_defense_result (rw_now w) hits (\<not> detected) detected (tr_blue t),
                 tr_rounds := tr_rounds t @ [rd]\<rparr>))"

text \<open>Every tenth round the rule of least effectiveness is evolved.\<close>

definition evolve_weakest :: "round_draws \<Rightarrow> nat \<Rightarrow> trainer \<Rightarrow> exc + trainer" where
  "evolve_weakest w i t =
     (if tr_evolution t \<and> (i + 1) mod 10 = 0
      then (case first_best (\<lambda>r. - dr_effectiveness r) (ba_rules (tr_blue t)) of
          None \<Rightarrow> Inr t
        | Some r \<Rightarrow> ebind (evolve_defense_rule (rw_now w) (rw_evolution w) r (tr_blue t)) (\<lambda>b. Inr (t\<lparr>tr_blue := b\<rparr>)))
      else Inr t)"

fun train_rounds :: "(nat \<Rightarrow> round_draws) \<Rightarrow> nat \<Rightarrow> nat \<Rightarrow> trainer \<Rightarrow> trainer \<times> exc option" where
  "train_rounds ws i 0 t = (t, None)"
| "train_rounds ws i (Suc n) t =
     (case run_single_round (ws i) i t of
        Inl e \<Rightarrow> (t, Some e)
      | Inr t1 \<Rightarrow> (case evolve_weakest (ws i) i t1 of Inl e \<Rightarrow> (t1, Some e) | Inr t2 \<Rightarrow> train_rounds ws (i + 1) n t2))"

text \<open>\<open>num_rounds or self.max_rounds\<close>.\<close>

definition rounds_to_run :: "nat option \<Rightarrow> trainer \<Rightarrow> nat" where
  "rounds_to_run k t = (case k of None \<Rightarrow> tr_max_rounds t | Some n \<Rightarrow> if n = 0 then tr_max_rounds t else n)"

record training_statistics =
  st_total_rounds :: nat
  st_red_wins :: int
  st_blue_wins :: int
  st_red_win_rate :: rat
  st_blue_win_rate :: rat
  st_average_delay :: rat
  st_red :: red_statistics
  st_blue :: blue_statistics
  st_tests :: nat
  st_events :: nat

definition get_training_statistics :: "trainer \<Rightarrow> training_statistics" where
  "get_training_statistics t =
     (let n = length (tr_rounds t); red = count rd_attack_success (tr_rounds t); blue = count rd_defense_success (tr_rounds t);
          rate = (\<lambda>x :: rat. if n > 0 then x / of_nat n else 0)
      in \<lparr>st_total_rounds = n, st_red_wins = red, st_blue_wins = blue, st_red_win_rate = rate (of_int red), st_blue_win_rate = rate (of_int blue),
          st_average_delay = rate (sum_list (map rd_delay (tr_rounds t))), st_red = red_get_statistics (tr_red t), st_blue = blue_get_statistics (tr_blue t),
          st_tests = length (tr_tests t), st_events = length (tr_events t)\<rparr>)"

definition run_training :: "(nat \<Rightarrow> round_draws) \<Rightarrow> nat option \<Rightarrow> trainer \<Rightarrow> trainer \<times> (exc + training_statistics)" where
  "run_training ws k t =
     (case train_rounds ws 0 (rounds_to_run k t) t of
        (t', Some e) \<Rightarrow> (t', Inl e)
      | (t', None) \<Rightarrow> (t', Inr (get_training_statistics t')))"

subsection \<open>Institutional tests\<close>

definition test_dimensions :: "(string \<times> string list) list" where
  "test_dimensions =
     [(''deployed rules'', [''seccomp rules are loaded'', ''cgroup limits are in force'', ''namespaces isolate'', ''eBPF programs run'']),
      (''least privilege'', [''no needless CAP_SYS_ADMIN'', ''no needless root'', ''file modes are narrow'', ''network access is narrow'']),
      (''audit'', [''the HMAC chain is intact'', ''no log is lost'', ''logs cannot be changed'', ''key operations are covered'']),
      (''incident response'', [''escapes are seen within 100 ms'', ''sandboxes are destroyed within 1 s'', ''alerts are raised'', ''events are isolated'']),
      (''change management'', [''changes are approved'', ''changes are tested'', ''changes can be rolled back'', ''changes are audited''])]"

definition run_test_dimension :: "(nat \<Rightarrow> rat) \<Rightarrow> string \<times> string list \<Rightarrow> test_result" where
  "run_test_dimension us dm =
     (let cs = map (\<lambda>(i, c). (c, draw (us i) > 2 / 10)) (enumerate (snd dm)); k = count snd cs
      in \<lparr>ts_dimension = fst dm, ts_cases = cs, ts_passed = k, ts_total = length (snd dm), ts_pass_rate = of_int k / of_nat (length (snd dm))\<rparr>)"

definition run_institutional_red_team_test :: "time \<Rightarrow> (nat \<Rightarrow> nat \<Rightarrow> rat) \<Rightarrow> trainer \<Rightarrow> trainer \<times> test_report" where
  "run_institutional_red_team_test now us t =
     (let rs = map (\<lambda>(i, dm). run_test_dimension (us i) dm) (enumerate test_dimensions);
          rep = \<lparr>tp_timestamp = now, tp_results = rs,
                 tp_overall = of_int (sum_list (map ts_passed rs)) / of_nat (sum_list (map ts_total rs))\<rparr>
      in (t\<lparr>tr_tests := tr_tests t @ [rep]\<rparr>, rep))"

subsection \<open>Real events\<close>

fun source_attack_type :: "event_source \<Rightarrow> attack_type" where
  "source_attack_type Seccomp_Violation = SECCOMP_BYPASS"
| "source_attack_type Kvm_Vm_Exit = PRIVILEGE_ESCALATION"
| "source_attack_type Audit_Chain_Anomaly = AUDIT_BYPASS"
| "source_attack_type Network_Block = NETWORK_TUNNEL"
| "source_attack_type Resource_Exceed = DOS_ATTACK"
| "source_attack_type Capability_Drop_Event = PRIVILEGE_ESCALATION"

fun source_defense_type :: "event_source \<Rightarrow> defense_type" where
  "source_defense_type Seccomp_Violation = SYSTEM_CALL_MONITOR"
| "source_defense_type Kvm_Vm_Exit = PROCESS_ISOLATION"
| "source_defense_type Audit_Chain_Anomaly = AUDIT_LOGGING"
| "source_defense_type Network_Block = NETWORK_FILTER"
| "source_defense_type Resource_Exceed = RESOURCE_LIMIT"
| "source_defense_type Capability_Drop_Event = CAPABILITY_DROP"

fun event_source_value :: "event_source \<Rightarrow> string" where
  "event_source_value Seccomp_Violation = ''seccomp_violation''"
| "event_source_value Kvm_Vm_Exit = ''kvm_vm_exit''"
| "event_source_value Audit_Chain_Anomaly = ''audit_chain_anomaly''"
| "event_source_value Network_Block = ''network_block''"
| "event_source_value Resource_Exceed = ''resource_exceed''"
| "event_source_value Capability_Drop_Event = ''capability_drop''"

definition convert_event_to_attack_case :: "((string, json) dict \<Rightarrow> string) \<Rightarrow> time \<Rightarrow> source_event \<Rightarrow> attack_case" where
  "convert_event_to_attack_case to_text now e =
     new_case now (''real_'' @ sv_event_id e) (source_attack_type (sv_source e)) (''[real event] '' @ sv_description e)
       (to_text (sv_payload e)) (event_source_value (sv_source e)) (min 1 (sv_anomaly_score e + 3 / 10))"

definition evolve_defense_from_event :: "time \<Rightarrow> source_event \<Rightarrow> defense_rule" where
  "evolve_defense_from_event now e =
     new_rule now (''evolved_'' @ sv_event_id e) (source_defense_type (sv_source e))
       (''[evolved from a real event] defence against '' @ sv_description e) [source_attack_type (sv_source e)]
       (''detection logic from the real event '' @ sv_event_id e) (6 / 10)"

datatype ingest_action =
    IA_Case string
  | IA_Rule string
  | IA_Deployed string "config_target list"
  | IA_Not_Deployed string
  | IA_Weight attack_type

datatype bridge_answer = BA_Record bridge_deployment | BA_Error exc

record ingest_result =
  ig_event_id :: string
  ig_source :: event_source
  ig_severity :: string
  ig_triggered :: bool
  ig_actions :: "ingest_action list"
  ig_deployment :: "bridge_answer option"

fun rule_result_status :: "rule_result \<Rightarrow> string" where
  "rule_result_status (RR_Skipped rid) = ''skipped_circuit_broken''"
| "rule_result_status (RR_Converted rid n ts) = ''converted''"
| "rule_result_status (RR_Failed rid) = ''failed''"

fun rule_result_targets :: "rule_result \<Rightarrow> config_target list" where
  "rule_result_targets (RR_Converted rid n ts) = ts"
| "rule_result_targets x = []"

text \<open>The targets of a result are taken only under a status that no result has.\<close>

definition deploy_rule_via_bridge :: "(string \<Rightarrow> time \<Rightarrow> string) \<Rightarrow> (json \<Rightarrow> string) \<Rightarrow> time \<Rightarrow> defense_rule \<Rightarrow> source_event option \<Rightarrow> bridge \<Rightarrow> trainer \<Rightarrow>
    trainer \<times> bridge_answer" where
  "deploy_rule_via_bridge digest str_of now r ev br t =
     (case deploy_evolved_rules digest str_of now [r] ev None br of
        (br', Inl e) \<Rightarrow> (t\<lparr>tr_bridge := Some br'\<rparr>, BA_Error e)
      | (br', Inr rep) \<Rightarrow>
          (let targets = concat (map (\<lambda>x. if rule_result_status x \<in> set [''applied'', ''dry_run'', ''pending''] then rule_result_targets x else []) (de_results rep));
               d = \<lparr>bd_rule_id = dr_rule_id r, bd_event_id = map_option sv_event_id ev, bd_timestamp = now, bd_deployed = (de_generated rep > 0),
                    bd_targets = remdups targets, bd_config_updates = de_generated rep, bd_dry_run = de_dry_run rep\<rparr>
           in (t\<lparr>tr_bridge := Some br', tr_deployments := tr_deployments t @ [d]\<rparr>, BA_Record d)))"

definition is_severe :: "string \<Rightarrow> bool" where
  "is_severe s \<longleftrightarrow> s \<in> set [''high'', ''critical'']"

definition learn_case :: "((string, json) dict \<Rightarrow> string) \<Rightarrow> time \<Rightarrow> source_event \<Rightarrow> trainer \<times> ingest_result \<Rightarrow> trainer \<times> ingest_result" where
  "learn_case to_text now e = (\<lambda>(t, r).
     let c = convert_event_to_attack_case to_text now e
     in (t\<lparr>tr_red := (tr_red t)\<lparr>ra_cases := ra_cases (tr_red t) @ [c]\<rparr>\<rparr>, r\<lparr>ig_actions := ig_actions r @ [IA_Case (ak_case_id c)]\<rparr>))"

definition deploy_evolved :: "(string \<Rightarrow> time \<Rightarrow> string) \<Rightarrow> (json \<Rightarrow> string) \<Rightarrow> time \<Rightarrow> source_event \<Rightarrow> defense_rule \<Rightarrow> trainer \<times> ingest_result \<Rightarrow> trainer \<times> ingest_result" where
  "deploy_evolved digest str_of now e rule = (\<lambda>(t, r).
     case tr_bridge t of
       None \<Rightarrow> (t, r)
     | Some br \<Rightarrow>
         if \<not> tr_auto_deploy t then (t, r)
         else (case deploy_rule_via_bridge digest str_of now rule (Some e) br t of
             (t', a) \<Rightarrow> (t', r\<lparr>ig_deployment := Some a,
                 ig_actions := ig_actions r @ [case a of
                     BA_Record d \<Rightarrow> if bd_deployed d then IA_Deployed (dr_rule_id rule) (bd_targets d) else IA_Not_Deployed ''unknown''
                   | BA_Error x \<Rightarrow> IA_Not_Deployed ''bridge_error'']\<rparr>)))"

definition learn_rule :: "(string \<Rightarrow> time \<Rightarrow> string) \<Rightarrow> (json \<Rightarrow> string) \<Rightarrow> time \<Rightarrow> source_event \<Rightarrow> trainer \<times> ingest_result \<Rightarrow> trainer \<times> ingest_result" where
  "learn_rule digest str_of now e = (\<lambda>(t, r).
     if is_severe (sv_severity e)
     then (let rule = evolve_defense_from_event now e
           in deploy_evolved digest str_of now e rule
                (t\<lparr>tr_blue := (tr_blue t)\<lparr>ba_rules := ba_rules (tr_blue t) @ [rule]\<rparr>\<rparr>,
                 r\<lparr>ig_triggered := True, ig_actions := ig_actions r @ [IA_Rule (dr_rule_id rule)]\<rparr>))
     else (t, r))"

definition adjust_weights :: "source_event \<Rightarrow> trainer \<times> ingest_result \<Rightarrow> trainer \<times> (exc + ingest_result)" where
  "adjust_weights e = (\<lambda>(t, r).
     if sv_anomaly_type e \<noteq> None \<and> sv_anomaly_score e > 5 / 10
     then (let ty = source_attack_type (sv_source e); ws = scale_weight ty (12 / 10) (ra_weights (tr_red t))
           in if ws \<noteq> [] \<and> sum_list (vals ws) = 0 then (t\<lparr>tr_red := (tr_red t)\<lparr>ra_weights := ws\<rparr>\<rparr>, Inl ZeroDivisionError)
              else (t\<lparr>tr_red := (tr_red t)\<lparr>ra_weights := divide_weights ws\<rparr>\<rparr>,
                    Inr (r\<lparr>ig_triggered := True, ig_actions := ig_actions r @ [IA_Weight ty]\<rparr>)))
     else (t, Inr r))"

definition record_event_history :: "source_event \<Rightarrow> bool \<Rightarrow> trainer \<Rightarrow> trainer" where
  "record_event_history e trig t =
     t\<lparr>tr_events := tr_events t @ [\<lparr>ee_event_id = sv_event_id e, ee_source = sv_source e, ee_severity = sv_severity e,
        ee_anomaly_type = sv_anomaly_type e, ee_anomaly_score = sv_anomaly_score e, ee_timestamp = sv_timestamp e, ee_triggered = trig\<rparr>]\<rparr>"

record services =
  sr_digest :: "string \<Rightarrow> time \<Rightarrow> string"
  sr_str :: "json \<Rightarrow> string"
  sr_dumps :: "(string, json) dict \<Rightarrow> string"

definition ingest_real_event :: "services \<Rightarrow> time \<Rightarrow> source_event \<Rightarrow> trainer \<Rightarrow> trainer \<times> (exc + ingest_result)" where
  "ingest_real_event sv now e t =
     (let r = \<lparr>ig_event_id = sv_event_id e, ig_source = sv_source e, ig_severity = sv_severity e, ig_triggered = False, ig_actions = [], ig_deployment = None\<rparr>
      in case adjust_weights e (learn_rule (sr_digest sv) (sr_str sv) now e (learn_case (sr_dumps sv) now e (t, r))) of
           (t', Inl x) \<Rightarrow> (t', Inl x)
         | (t', Inr r') \<Rightarrow> (record_event_history e (ig_triggered r') t', Inr r'))"

fun ingest_all :: "services \<Rightarrow> (time \<times> source_event) list \<Rightarrow> trainer \<Rightarrow> trainer \<times> (exc + ingest_result list)" where
  "ingest_all sv [] t = (t, Inr [])"
| "ingest_all sv ((now, e) # es) t =
     (case ingest_real_event sv now e t of
        (t1, Inl x) \<Rightarrow> (t1, Inl x)
      | (t1, Inr r) \<Rightarrow> (case ingest_all sv es t1 of (t2, Inl x) \<Rightarrow> (t2, Inl x) | (t2, Inr rs) \<Rightarrow> (t2, Inr (r # rs))))"

record batch_report =
  bt_total :: nat
  bt_triggered :: int
  bt_high :: int
  bt_anomalies :: int
  bt_details :: "ingest_result list"

definition ingest_real_events :: "services \<Rightarrow> (time \<times> source_event) list \<Rightarrow> trainer \<Rightarrow> trainer \<times> (exc + batch_report)" where
  "ingest_real_events sv es t =
     (case ingest_all sv es t of
        (t', Inl x) \<Rightarrow> (t', Inl x)
      | (t', Inr rs) \<Rightarrow> (t', Inr \<lparr>bt_total = length rs, bt_triggered = count ig_triggered rs, bt_high = count (\<lambda>r. is_severe (ig_severity r)) rs,
          bt_anomalies = count (\<lambda>(now, e). sv_anomaly_type e \<noteq> None) es, bt_details = rs\<rparr>))"

subsection \<open>Back from the bridge\<close>

definition feed_back :: "time \<Rightarrow> deployment_view \<Rightarrow> defense_rule \<Rightarrow> defense_rule \<times> bool" where
  "feed_back now v r =
     (let new = max 0 (dv_trigger_count v - dr_trigger_count r); synced = (new > 0 \<and> dv_trigger_count v > 0);
          fps = half_even ((1 - dv_precision v) * of_int new); tps = new - fps;
          r1 = (if synced then (rule_record_trigger now False ^^ nat fps) ((rule_record_trigger now True ^^ nat tps) r) else r);
          r2 = (if dv_trigger_count v \<ge> 3 then r1\<lparr>dr_effectiveness := max (1 / 10) (min (99 / 100) (dv_precision v))\<rparr> else r1)
      in (r2, synced))"

definition sync_rule_triggers_from_bridge :: "time \<Rightarrow> trainer \<Rightarrow> trainer \<times> (int \<times> nat \<times> nat) option" where
  "sync_rule_triggers_from_bridge now t =
     (case tr_bridge t of
        None \<Rightarrow> (t, None)
      | Some br \<Rightarrow>
          (let rs = map (\<lambda>r. case get_deployment_status (dr_rule_id r) br of None \<Rightarrow> (r, False) | Some v \<Rightarrow> feed_back now v r) (ba_rules (tr_blue t))
           in (t\<lparr>tr_blue := (tr_blue t)\<lparr>ba_rules := map fst rs\<rparr>\<rparr>,
               Some (count snd rs, length rs, length (get_circuit_broken_rules now br)))))"

record bridge_deployment_report =
  bp_auto :: bool
  bp_total :: nat
  bp_successful :: int
  bp_stats :: bridge_report
  bp_recent :: "bridge_deployment list"

definition get_bridge_deployment_stats :: "trainer \<Rightarrow> bridge_deployment_report option" where
  "get_bridge_deployment_stats t =
     map_option (\<lambda>br. \<lparr>bp_auto = tr_auto_deploy t, bp_total = length (tr_deployments t), bp_successful = count bd_deployed (tr_deployments t),
       bp_stats = bridge_get_stats br, bp_recent = last_n 5 (tr_deployments t)\<rparr>) (tr_bridge t)"

subsection \<open>Escape events\<close>

datatype signal_type = SG_Seccomp_Violation | SG_Kvm_Vm_Exit | SG_Audit_Chain_Anomaly | SG_Network_Block | SG_Resource_Exceed | SG_Capability_Drop

record escape_event =
  es_event_id :: string
  es_signal :: signal_type
  es_timestamp :: time
  es_sandbox_id :: string
  es_severity :: string
  es_description :: string
  es_payload :: "(string, json) dict"
  es_syscall :: "string option"
  es_vm_exit_reason :: "string option"
  es_anomaly_type :: "anomaly_type option"
  es_anomaly_score :: rat
  es_raw_event :: "(string, json) dict option"

fun signal_source :: "signal_type \<Rightarrow> event_source" where
  "signal_source SG_Seccomp_Violation = Seccomp_Violation"
| "signal_source SG_Kvm_Vm_Exit = Kvm_Vm_Exit"
| "signal_source SG_Audit_Chain_Anomaly = Audit_Chain_Anomaly"
| "signal_source SG_Network_Block = Network_Block"
| "signal_source SG_Resource_Exceed = Resource_Exceed"
| "signal_source SG_Capability_Drop = Capability_Drop_Event"

definition to_security_event :: "escape_event \<Rightarrow> source_event" where
  "to_security_event e =
     \<lparr>sv_event_id = es_event_id e, sv_source = signal_source (es_signal e), sv_timestamp = es_timestamp e, sv_sandbox_id = es_sandbox_id e,
      sv_severity = es_severity e, sv_description = es_description e, sv_payload = es_payload e, sv_raw_event = None,
      sv_anomaly_type = es_anomaly_type e, sv_anomaly_score = es_anomaly_score e\<rparr>"

definition ingest_escape_event :: "services \<Rightarrow> time \<Rightarrow> escape_event \<Rightarrow> trainer \<Rightarrow> trainer \<times> (exc + ingest_result)" where
  "ingest_escape_event sv now e t =
     (case ingest_real_event sv now (to_security_event e) t of
        (t', Inl x) \<Rightarrow> (t', Inl x)
      | (t', Inr r) \<Rightarrow> (t'\<lparr>tr_signals := tr_signals t' + 1, tr_high_signals := tr_high_signals t' + (if is_severe (es_severity e) then 1 else 0)\<rparr>, Inr r))"

record round_report =
  rp_round :: nat
  rp_events_used :: nat
  rp_distribution :: "(event_source, int) dict"
  rp_evolution_triggered :: int
  rp_attack_cases :: nat
  rp_defense_rules :: nat

text \<open>A training round over real events only counts.\<close>

definition train_round_from_real_events :: "nat \<Rightarrow> trainer \<Rightarrow> round_report" where
  "train_round_from_real_events i t =
     (let recent = last_n 100 (tr_events t)
      in \<lparr>rp_round = i, rp_events_used = length recent, rp_distribution = fold (\<lambda>e d. bump (ee_source e) d) recent [],
          rp_evolution_triggered = count ee_triggered recent, rp_attack_cases = length (ra_cases (tr_red t)), rp_defense_rules = length (ba_rules (tr_blue t))\<rparr>)"

subsection \<open>The report\<close>

definition attack_type_success_rates :: "trainer \<Rightarrow> (attack_type, rat) dict" where
  "attack_type_success_rates t =
     (let ty = (\<lambda>r. ak_attack_type (ra_cases (tr_red t) ! rd_attack r));
          totals = fold (\<lambda>r d. bump (ty r) d) (tr_rounds t) [];
          wins = (\<lambda>k. count (\<lambda>r. ty r = k \<and> rd_attack_success r) (tr_rounds t))
      in map (\<lambda>(k, n). (k, if n > 0 then of_int (wins k) / of_int n else 0)) totals)"

datatype recommendation = RC_Strengthen | RC_Diversify | RC_Speed_Up | RC_Tune | RC_High_Risk "attack_type list" | RC_Balanced

definition generate_recommendations :: "trainer \<Rightarrow> recommendation list" where
  "generate_recommendations t =
     (let st = get_training_statistics t; risky = map fst (filter (\<lambda>(k, x). x > 5 / 10) (attack_type_success_rates t));
          rs = (if st_red_win_rate st > 3 / 10 then [RC_Strengthen] else []) @ (if st_blue_win_rate st > 9 / 10 then [RC_Diversify] else []) @
               (if st_average_delay st > 100 then [RC_Speed_Up] else []) @ (if bl_average_precision (st_blue st) < 8 / 10 then [RC_Tune] else []) @
               (if risky \<noteq> [] then [RC_High_Risk risky] else [])
      in if rs = [] then [RC_Balanced] else rs)"

record adversary_report =
  xp_statistics :: training_statistics
  xp_recent :: "adversary_round list"
  xp_test :: "test_report option"
  xp_recommendations :: "recommendation list"

definition export_report :: "trainer \<Rightarrow> adversary_report" where
  "export_report t = \<lparr>xp_statistics = get_training_statistics t, xp_recent = last_n 10 (tr_rounds t),
     xp_test = (if tr_tests t = [] then None else Some (last (tr_tests t))), xp_recommendations = generate_recommendations t\<rparr>"

subsection \<open>Weights and rules stay in bounds\<close>

definition weights_ok :: "(attack_type, rat) dict \<Rightarrow> bool" where
  "weights_ok ws \<longleftrightarrow> map fst ws = attack_types \<and> (\<forall>w\<in>set (vals ws). 0 < w) \<and> sum_list (vals ws) = 1"

lemma sum_list_pos: "xs \<noteq> [] \<Longrightarrow> (\<forall>x\<in>set xs. 0 < x) \<Longrightarrow> 0 < sum_list (xs :: rat list)"
proof (induction xs)
  case (Cons x xs)
  then show ?case by (cases "xs = []") (auto intro: add_pos_pos)
qed simp

lemma vals_scale: "vals (scale_weight ty f ws) = map (\<lambda>(k, w). if k = ty then w * f else w) ws"
  by (auto simp: vals_def scale_weight_def)

lemma sum_list_divide: "sum_list (map (\<lambda>x. x / c) xs) = sum_list xs / (c :: rat)"
  by (induction xs) (simp_all add: add_divide_distrib)

lemma vals_divide: "vals (divide_weights ws) = map (\<lambda>w. w / sum_list (vals ws)) (vals ws)"
  by (auto simp: vals_def divide_weights_def)

lemma scaled_weights_ok:
  assumes "weights_ok ws" "0 < f"
  shows "weights_ok (divide_weights (scale_weight ty f ws))" "0 < sum_list (vals (scale_weight ty f ws))"
proof -
  let ?s = "scale_weight ty f ws"
  have keys: "map fst ?s = map fst ws" "map fst (divide_weights ?s) = map fst ?s" by (auto simp: scale_weight_def divide_weights_def)
  have pos: "\<forall>w\<in>set (vals ?s). 0 < w" using assms unfolding vals_scale by (auto simp: weights_ok_def vals_def)
  have "map fst ?s \<noteq> []" using assms(1) by (simp add: keys weights_ok_def attack_types_def)
  then have "vals ?s \<noteq> []" by (auto simp: vals_def)
  then show p: "0 < sum_list (vals ?s)" using pos by (rule sum_list_pos)
  have "sum_list (vals (divide_weights ?s)) = 1" unfolding vals_divide sum_list_divide using p by simp
  moreover have "\<forall>w\<in>set (vals (divide_weights ?s)). 0 < w" using p pos unfolding vals_divide by auto
  ultimately show "weights_ok (divide_weights ?s)" using assms(1) by (simp add: weights_ok_def keys)
qed

lemma bisect_bounds: "lo \<le> hi \<Longrightarrow> lo \<le> bisect xs x lo hi \<and> bisect xs x lo hi \<le> hi"
proof (induction xs x lo hi rule: bisect.induct)
  case (1 xs x lo hi)
  let ?m = "(lo + hi) div 2"
  show ?case
  proof (cases "lo < hi")
    case True
    show ?thesis
    proof (cases "x < xs ! ?m")
      case left: True
      have "lo \<le> bisect xs x lo ?m \<and> bisect xs x lo ?m \<le> ?m" using "1.IH"(1) [OF True refl left] True by simp
      moreover have "bisect xs x lo hi = bisect xs x lo ?m" using True left by (subst bisect.simps) (simp add: Let_def)
      ultimately show ?thesis using True by linarith
    next
      case right: False
      have "?m + 1 \<le> bisect xs x (?m + 1) hi \<and> bisect xs x (?m + 1) hi \<le> hi" using "1.IH"(2) [OF True refl right] True by simp
      moreover have "bisect xs x lo hi = bisect xs x (?m + 1) hi" using True right by (subst bisect.simps) (simp add: Let_def)
      ultimately show ?thesis using True by linarith
    qed
  next
    case False
    then have "bisect xs x lo hi = lo" by (subst bisect.simps) simp
    then show ?thesis using 1(3) by simp
  qed
qed

lemma weighted_choice_in_range:
  assumes "ws \<noteq> []"
  shows "weighted_choice u ws < length ws"
proof -
  have "weighted_choice u ws \<le> length ws - 1" unfolding weighted_choice_def using bisect_bounds [of 0 "length ws - 1"] by simp
  moreover have "0 < length ws" using assms by simp
  ultimately show ?thesis by linarith
qed

lemma selected_in_range: "select_attack_case now u k ra = Inr i \<Longrightarrow> i < length (ra_cases ra)"
  using weighted_choice_in_range [of "map (\<lambda>w. w / sum_list (map (case_weight now) (ra_cases ra))) (map (case_weight now) (ra_cases ra))" u]
  by (auto simp: select_attack_case_def Let_def simp del: map_map split: if_splits)

lemma chosen_in_range:
  assumes "choose_attack w t = Inr (red, i)"
  shows "i < length (ra_cases red)" "\<exists>cs. ra_cases red = ra_cases (tr_red t) @ cs" "ra_weights red = ra_weights (tr_red t)" "ra_history red = ra_history (tr_red t)"
proof -
  obtain j where j: "select_attack_case (rw_now w) (rw_select w) (rw_pick w) (tr_red t) = Inr j"
    using assms by (cases "select_attack_case (rw_now w) (rw_select w) (rw_pick w) (tr_red t)") (simp_all add: choose_attack_def)
  then have "j < length (ra_cases (tr_red t))" by (rule selected_in_range)
  then show "i < length (ra_cases red)" "\<exists>cs. ra_cases red = ra_cases (tr_red t) @ cs" "ra_weights red = ra_weights (tr_red t)" "ra_history red = ra_history (tr_red t)"
    using assms j by (auto simp: choose_attack_def mutate_attack_case_def Let_def case_prod_unfold split: if_splits)
qed

definition rule_ok :: "defense_rule \<Rightarrow> bool" where
  "rule_ok r \<longleftrightarrow> 0 < dr_effectiveness r \<and> dr_effectiveness r \<le> 1 \<and> 0 \<le> dr_false_positive_count r \<and> dr_false_positive_count r \<le> dr_trigger_count r"

lemma rule_precision_bounds:
  assumes "rule_ok r"
  shows "0 \<le> rule_precision r \<and> rule_precision r \<le> 1"
proof (cases "dr_trigger_count r = 0")
  case False
  then have n: "0 < (of_int (dr_trigger_count r) :: rat)" using assms by (simp add: rule_ok_def)
  moreover have "of_int (dr_false_positive_count r) \<le> (of_int (dr_trigger_count r) :: rat)" "0 \<le> (of_int (dr_false_positive_count r) :: rat)"
    using assms by (simp_all add: rule_ok_def)
  ultimately show ?thesis using False by (simp add: rule_precision_def)
qed (simp add: rule_precision_def)

lemma adjust_ok: "rule_ok r \<Longrightarrow> rule_ok (adjust_effectiveness now a tp r)"
  by (auto simp: rule_ok_def adjust_effectiveness_def rule_record_trigger_def Let_def min_def max_def)

lemma record_trigger_ok: "rule_ok r \<Longrightarrow> rule_ok (rule_record_trigger now tp r)"
  by (simp add: rule_ok_def rule_record_trigger_def)

lemma record_triggers_ok: "rule_ok r \<Longrightarrow> rule_ok ((rule_record_trigger now tp ^^ n) r)"
  by (induction n) (simp_all add: record_trigger_ok)

lemma feed_back_ok:
  assumes "rule_ok r"
  shows "rule_ok (fst (feed_back now v r))"
proof -
  have clip: "rule_ok (q\<lparr>dr_effectiveness := max (1 / 10) (min (99 / 100) x)\<rparr>)" if "rule_ok q" for q x
    using that by (auto simp: rule_ok_def min_def max_def)
  show ?thesis using assms by (auto simp: feed_back_def Let_def clip record_triggers_ok)
qed

lemma evolved_rule_ok:
  assumes "evolve_defense_rule now e r ba = Inr ba'" "rule_ok r" "\<forall>q\<in>set (ba_rules ba). rule_ok q"
  shows "\<exists>q. ba_rules ba' = ba_rules ba @ [q] \<and> rule_ok q \<and> dr_false_positive_count q = 0" "ba_history ba' = ba_history ba"
proof -
  obtain targets desc eff where p: "evolved_parts e r ba = Inr (targets, desc, eff)"
    using assms(1) by (cases "evolved_parts e r ba") (auto simp: evolve_defense_rule_def)
  have "0 < eff \<and> eff \<le> 1"
  proof -
    consider "ev_kind e mod 4 = 0" | "ev_kind e mod 4 = 1" | "ev_kind e mod 4 = 2" | "ev_kind e mod 4 = 3" by linarith
    then show ?thesis
    proof cases
      case 1
      then show ?thesis using p assms(2) by (auto simp: evolved_parts_def Let_def rule_ok_def split: if_splits)
    next
      case 2
      have "uniform (5 / 100) (15 / 100) (ev_gain e) \<ge> 0" using draw_bounds [of "ev_gain e"] by (simp add: uniform_def)
      then show ?thesis using p assms(2) 2 by (auto simp: evolved_parts_def rule_ok_def min_def)
    next
      case 3
      then obtain q where q: "q \<in> set (ba_rules ba)" "eff = (dr_effectiveness r + dr_effectiveness q) / 2"
        using p pick_at_mem [of "filter (\<lambda>q. dr_rule_id q \<noteq> dr_rule_id r) (ba_rules ba)" "ev_pick e"]
        by (auto simp: evolved_parts_def Let_def numeral_2_eq_2 split: if_splits)
      have "0 < dr_effectiveness q" "dr_effectiveness q \<le> 1" "0 < dr_effectiveness r" "dr_effectiveness r \<le> 1"
        using assms(2,3) q(1) by (simp_all add: rule_ok_def)
      then show ?thesis unfolding q(2) by simp
    next
      case 4
      then show ?thesis using p assms(2) by (auto simp: evolved_parts_def rule_ok_def min_def numeral_3_eq_3)
    qed
  qed
  then show "\<exists>q. ba_rules ba' = ba_rules ba @ [q] \<and> rule_ok q \<and> dr_false_positive_count q = 0" "ba_history ba' = ba_history ba"
    using assms(1) p by (auto simp: evolve_defense_rule_def new_rule_def rule_ok_def)
qed

definition trainer_ok :: "trainer \<Rightarrow> bool" where
  "trainer_ok t \<longleftrightarrow> weights_ok (ra_weights (tr_red t)) \<and> (\<forall>r\<in>set (ba_rules (tr_blue t)). rule_ok r) \<and>
     (\<forall>rd\<in>set (tr_rounds t). rd_attack rd < length (ra_cases (tr_red t)) \<and> rd_attack_success rd = (rd_rules rd = []) \<and>
        rd_defense_success rd = (rd_rules rd \<noteq> [])) \<and>
     map ah_success (ra_history (tr_red t)) = map rd_attack_success (tr_rounds t) \<and>
     map dh_attack_success (ba_history (tr_blue t)) = map rd_attack_success (tr_rounds t)"

text \<open>A result on some positions changes the rules there.\<close>

lemma fold_update_list:
  "length (fold (\<lambda>i xs. xs[i := f (xs ! i)]) is xs) = length xs"
  "(\<forall>x\<in>set xs. P x) \<Longrightarrow> (\<And>x. P x \<Longrightarrow> P (f x)) \<Longrightarrow> \<forall>i\<in>set is. i < length xs \<Longrightarrow> \<forall>x\<in>set (fold (\<lambda>i xs. xs[i := f (xs ! i)]) is xs). P x"
proof -
  show "length (fold (\<lambda>i xs. xs[i := f (xs ! i)]) is xs) = length xs" by (induction "is" arbitrary: xs) simp_all
  show "(\<forall>x\<in>set xs. P x) \<Longrightarrow> (\<And>x. P x \<Longrightarrow> P (f x)) \<Longrightarrow> \<forall>i\<in>set is. i < length xs \<Longrightarrow> \<forall>x\<in>set (fold (\<lambda>i xs. xs[i := f (xs ! i)]) is xs). P x"
  proof (induction "is" arbitrary: xs)
    case (Cons i "is")
    have "P (f (xs ! i))" using Cons.prems by simp
    then have "\<forall>x\<in>set (xs[i := f (xs ! i)]). P x" using Cons.prems(1) set_update_subset_insert [of xs i] by blast
    then show ?case using Cons.IH [of "xs[i := f (xs ! i)]"] Cons.prems by simp
  qed simp
qed

lemma hits_in_range: "\<forall>i\<in>set (detect_attack us c ba). i < length (ba_rules ba)"
  by (simp add: detect_attack_def)

lemma round_cases:
  assumes "run_single_round w n t = Inr t'"
  obtains red i hits rd where "choose_attack w t = Inr (red, i)" "hits = detect_attack (rw_detect w) (ra_cases red ! i) (tr_blue t)"
    "tr_red t' = record_attack_result (rw_now w) i (hits = []) red"
    "tr_blue t' = record_defense_result (rw_now w) hits (hits = []) (hits \<noteq> []) (tr_blue t)"
    "tr_rounds t' = tr_rounds t @ [rd]" "rd_attack rd = i" "rd_rules rd = hits" "rd_attack_success rd = (hits = [])" "rd_defense_success rd = (hits \<noteq> [])"
    "tr_evolution t' = tr_evolution t" "tr_mutation t' = tr_mutation t" "tr_mutation_rate t' = tr_mutation_rate t" "tr_bridge t' = tr_bridge t"
proof -
  obtain red i where c: "choose_attack w t = Inr (red, i)" using assms by (cases "choose_attack w t") (auto simp: run_single_round_def)
  show thesis using assms by (intro that [OF c refl]) (auto simp: run_single_round_def c Let_def)
qed

lemma round_ok:
  assumes "trainer_ok t" "run_single_round w n t = Inr t'"
  shows "trainer_ok t'"
  using assms(2)
proof (cases rule: round_cases)
  case (1 red i hits rd)
  note c = chosen_in_range [OF 1(1)]
  have w: "weights_ok (ra_weights red)" using assms(1) by (simp add: trainer_ok_def c(3))
  have red: "ra_history (tr_red t') = ra_history (tr_red t) @ [\<lparr>ah_case_id = ak_case_id (ra_cases red ! i), ah_attack_type = ak_attack_type (ra_cases red ! i), ah_success = (hits = []), ah_timestamp = rw_now w\<rparr>]"
    "length (ra_cases (tr_red t')) = length (ra_cases red)" "weights_ok (ra_weights (tr_red t'))"
    using scaled_weights_ok [OF w] by (simp_all add: 1(3) record_attack_result_def case_record_result_def Let_def c(4))
  have blue: "map dh_attack_success (ba_history (tr_blue t')) = map dh_attack_success (ba_history (tr_blue t)) @ [hits = []]"
    by (simp add: 1(4) record_defense_result_def Let_def)
  have "\<forall>x\<in>set (fold (\<lambda>i rs. rs[i := adjust_effectiveness (rw_now w) (hits = []) (hits \<noteq> []) (rs ! i)]) hits (ba_rules (tr_blue t))). rule_ok x"
    using assms(1) hits_in_range [of "rw_detect w" "ra_cases red ! i" "tr_blue t"]
    by (intro fold_update_list(2)) (simp_all add: trainer_ok_def adjust_ok 1(2))
  then have rules: "\<forall>x\<in>set (ba_rules (tr_blue t')). rule_ok x" by (simp add: 1(4) record_defense_result_def Let_def)
  have "length (ra_cases (tr_red t)) \<le> length (ra_cases red)" using c(2) by auto
  then have "rd_attack q < length (ra_cases red)" if "q \<in> set (tr_rounds t)" for q
    using assms(1) that less_le_trans unfolding trainer_ok_def by blast
  then show ?thesis using assms(1) red blue rules c(1) 1(5-9) by (auto simp: trainer_ok_def)
qed

lemma evolve_ok:
  assumes "trainer_ok t" "evolve_weakest w i t = Inr t'"
  shows "trainer_ok t'" "\<exists>qs. ba_rules (tr_blue t') = ba_rules (tr_blue t) @ qs"
proof -
  have "trainer_ok t' \<and> (\<exists>qs. ba_rules (tr_blue t') = ba_rules (tr_blue t) @ qs)"
  proof (cases "t' = t")
    case False
    then obtain r where r: "first_best (\<lambda>r. - dr_effectiveness r) (ba_rules (tr_blue t)) = Some r"
      using assms(2) by (auto simp: evolve_weakest_def split: if_splits option.splits)
    then obtain b where b: "evolve_defense_rule (rw_now w) (rw_evolution w) r (tr_blue t) = Inr b" "t' = t\<lparr>tr_blue := b\<rparr>"
      using assms(2) False by (cases "evolve_defense_rule (rw_now w) (rw_evolution w) r (tr_blue t)") (auto simp: evolve_weakest_def split: if_splits)
    have "rule_ok r" using first_best_Some [OF r] assms(1) by (simp add: trainer_ok_def)
    then obtain q where q: "ba_rules b = ba_rules (tr_blue t) @ [q]" "rule_ok q" and h: "ba_history b = ba_history (tr_blue t)"
      using evolved_rule_ok [OF b(1)] assms(1) by (auto simp: trainer_ok_def)
    have "trainer_ok t'" using assms(1) b(2) q h by (auto simp: trainer_ok_def)
    then show ?thesis using q(1) b(2) by simp
  qed (use assms(1) in simp)
  then show "trainer_ok t'" "\<exists>qs. ba_rules (tr_blue t') = ba_rules (tr_blue t) @ qs" by simp_all
qed

lemma train_rounds_ok: "trainer_ok t \<Longrightarrow> trainer_ok (fst (train_rounds ws i n t))"
proof (induction n arbitrary: i t)
  case (Suc n)
  show ?case
  proof (cases "run_single_round (ws i) i t")
    case (Inl e)
    then show ?thesis using Suc.prems by simp
  next
    case (Inr t1)
    have ok1: "trainer_ok t1" by (rule round_ok [OF Suc.prems Inr])
    show ?thesis
    proof (cases "evolve_weakest (ws i) i t1")
      case (Inl e)
      then show ?thesis using ok1 \<open>run_single_round (ws i) i t = Inr t1\<close> by simp
    next
      case r: (Inr t2)
      from Suc.IH [OF evolve_ok(1) [OF ok1 r]] show ?thesis using \<open>run_single_round (ws i) i t = Inr t1\<close> r by simp
    qed
  qed
qed simp

lemma run_training_ok: "trainer_ok t \<Longrightarrow> trainer_ok (fst (run_training ws k t))"
  using train_rounds_ok [of t ws 0 "rounds_to_run k t"] by (auto simp: run_training_def split: prod.split option.split)

text \<open>What a step over an event may change.\<close>

definition grown :: "trainer \<Rightarrow> trainer \<Rightarrow> bool" where
  "grown t t' \<longleftrightarrow> (\<exists>cs rs. ra_cases (tr_red t') = ra_cases (tr_red t) @ cs \<and> ba_rules (tr_blue t') = ba_rules (tr_blue t) @ rs \<and> (\<forall>r\<in>set rs. rule_ok r)) \<and>
     tr_rounds t' = tr_rounds t \<and> ra_history (tr_red t') = ra_history (tr_red t) \<and> ba_history (tr_blue t') = ba_history (tr_blue t)"

lemma grown_refl [simp]: "grown t t"
  by (simp add: grown_def)

lemma grown_trans: "grown t t1 \<Longrightarrow> grown t1 t2 \<Longrightarrow> grown t t2"
  unfolding grown_def by fastforce

lemma grown_ok: "trainer_ok t \<Longrightarrow> grown t t' \<Longrightarrow> weights_ok (ra_weights (tr_red t')) \<Longrightarrow> trainer_ok t'"
  unfolding trainer_ok_def grown_def by fastforce

lemma learn_case_grown: "grown t (fst (learn_case to_text now e (t, r)))" "ra_weights (tr_red (fst (learn_case to_text now e (t, r)))) = ra_weights (tr_red t)"
  by (simp_all add: learn_case_def Let_def grown_def)

lemma deploy_via_frame:
  "tr_red (fst (deploy_rule_via_bridge digest str_of now rule ev br t)) = tr_red t"
  "tr_blue (fst (deploy_rule_via_bridge digest str_of now rule ev br t)) = tr_blue t"
  "tr_rounds (fst (deploy_rule_via_bridge digest str_of now rule ev br t)) = tr_rounds t"
  "tr_events (fst (deploy_rule_via_bridge digest str_of now rule ev br t)) = tr_events t"
  by (simp_all add: deploy_rule_via_bridge_def Let_def split: prod.split sum.split)

lemma deploy_evolved_frame:
  "tr_red (fst (deploy_evolved digest str_of now e rule (t, r))) = tr_red t"
  "tr_blue (fst (deploy_evolved digest str_of now e rule (t, r))) = tr_blue t"
  "tr_rounds (fst (deploy_evolved digest str_of now e rule (t, r))) = tr_rounds t"
  "tr_events (fst (deploy_evolved digest str_of now e rule (t, r))) = tr_events t"
  using deploy_via_frame [of digest str_of now rule "Some e" _ t]
  by (simp_all add: deploy_evolved_def case_prod_unfold split: option.split)

lemma event_rule_ok: "rule_ok (evolve_defense_from_event now e)"
  by (simp add: evolve_defense_from_event_def new_rule_def rule_ok_def)

lemma learn_rule_grown: "grown t (fst (learn_rule digest str_of now e (t, r)))" "ra_weights (tr_red (fst (learn_rule digest str_of now e (t, r)))) = ra_weights (tr_red t)"
  by (simp_all add: learn_rule_def Let_def grown_def deploy_evolved_frame event_rule_ok)

lemma adjust_weights_grown:
  assumes "weights_ok (ra_weights (tr_red t))"
  shows "grown t (fst (adjust_weights e (t, r)))" "weights_ok (ra_weights (tr_red (fst (adjust_weights e (t, r)))))"
    "\<exists>r'. snd (adjust_weights e (t, r)) = Inr r' \<and> ig_deployment r' = ig_deployment r \<and> set (ig_actions r) \<subseteq> set (ig_actions r') \<and> (ig_triggered r \<longrightarrow> ig_triggered r')"
    "tr_events (fst (adjust_weights e (t, r))) = tr_events t" "tr_blue (fst (adjust_weights e (t, r))) = tr_blue t"
    "tr_bridge (fst (adjust_weights e (t, r))) = tr_bridge t"
proof -
  note w = scaled_weights_ok [OF assms, of "12 / 10" "source_attack_type (sv_source e)"]
  then have "sum_list (vals (scale_weight (source_attack_type (sv_source e)) (12 / 10) (ra_weights (tr_red t)))) \<noteq> 0" by simp
  then show "grown t (fst (adjust_weights e (t, r)))" "weights_ok (ra_weights (tr_red (fst (adjust_weights e (t, r)))))"
    "\<exists>r'. snd (adjust_weights e (t, r)) = Inr r' \<and> ig_deployment r' = ig_deployment r \<and> set (ig_actions r) \<subseteq> set (ig_actions r') \<and> (ig_triggered r \<longrightarrow> ig_triggered r')"
    "tr_events (fst (adjust_weights e (t, r))) = tr_events t" "tr_blue (fst (adjust_weights e (t, r))) = tr_blue t"
    "tr_bridge (fst (adjust_weights e (t, r))) = tr_bridge t"
    using w assms by (auto simp: adjust_weights_def Let_def grown_def)
qed

lemma ingest_ok:
  assumes "trainer_ok t"
  shows "trainer_ok (fst (ingest_real_event sv now e t))"
proof -
  let ?r = "\<lparr>ig_event_id = sv_event_id e, ig_source = sv_source e, ig_severity = sv_severity e, ig_triggered = False, ig_actions = [], ig_deployment = None\<rparr>"
  obtain t1 r1 where 1: "learn_case (sr_dumps sv) now e (t, ?r) = (t1, r1)" by fastforce
  obtain t2 r2 where 2: "learn_rule (sr_digest sv) (sr_str sv) now e (t1, r1) = (t2, r2)" by fastforce
  obtain t3 x where 3: "adjust_weights e (t2, r2) = (t3, x)" by fastforce
  have w2: "weights_ok (ra_weights (tr_red t2))"
    using assms learn_case_grown(2) [of "sr_dumps sv" now e t ?r] learn_rule_grown(2) [of "sr_digest sv" "sr_str sv" now e t1 r1] 1 2
    by (simp add: trainer_ok_def)
  have "grown t t1" "grown t1 t2" "grown t2 t3" "weights_ok (ra_weights (tr_red t3))"
    using learn_case_grown(1) [of t "sr_dumps sv" now e ?r] learn_rule_grown(1) [of t1 "sr_digest sv" "sr_str sv" now e r1] adjust_weights_grown(1,2) [OF w2, of e r2] 1 2 3
    by simp_all
  then have "trainer_ok t3" using grown_ok [OF assms] grown_trans by blast
  then have "trainer_ok (t3\<lparr>tr_events := es\<rparr>)" for es by (simp add: trainer_ok_def)
  then show ?thesis using 1 2 3 \<open>trainer_ok t3\<close> by (cases x) (simp_all add: ingest_real_event_def Let_def record_event_history_def)
qed

subsection \<open>The state of a trainer\<close>

datatype trainer_op =
    TO_Train "nat \<Rightarrow> round_draws" "nat option"
  | TO_Event services time source_event
  | TO_Escape services time escape_event
  | TO_Sync time
  | TO_Test time "nat \<Rightarrow> nat \<Rightarrow> rat"

fun trainer_step :: "trainer_op \<Rightarrow> trainer \<Rightarrow> trainer" where
  "trainer_step (TO_Train ws k) t = fst (run_training ws k t)"
| "trainer_step (TO_Event sv now e) t = fst (ingest_real_event sv now e t)"
| "trainer_step (TO_Escape sv now e) t = fst (ingest_escape_event sv now e t)"
| "trainer_step (TO_Sync now) t = fst (sync_rule_triggers_from_bridge now t)"
| "trainer_step (TO_Test now us) t = fst (run_institutional_red_team_test now us t)"

definition trainer_fresh :: "trainer \<Rightarrow> bool" where
  "trainer_fresh t \<longleftrightarrow> (\<exists>now rid bid rounds mut rate evo br auto. t = init_trainer (init_red now rid) (init_blue now bid) rounds mut rate evo br auto)"

lemma fresh_ok: "trainer_fresh t \<Longrightarrow> trainer_ok t"
  by (auto simp: trainer_fresh_def init_trainer_def init_red_def init_blue_def trainer_ok_def weights_ok_def attack_types_def vals_def base_rules_def
      new_rule_def rule_ok_def)

lemma trainer_ok_rules:
  assumes "trainer_ok t" "\<forall>r\<in>set rs. rule_ok r"
  shows "trainer_ok (t\<lparr>tr_blue := (tr_blue t)\<lparr>ba_rules := rs\<rparr>\<rparr>)"
  using assms by (simp add: trainer_ok_def)

lemma sync_ok: "trainer_ok t \<Longrightarrow> trainer_ok (fst (sync_rule_triggers_from_bridge now t))"
proof (cases "tr_bridge t")
  case (Some br)
  assume ok: "trainer_ok t"
  have "\<forall>r\<in>set (ba_rules (tr_blue t)). rule_ok (fst (case get_deployment_status (dr_rule_id r) br of None \<Rightarrow> (r, False) | Some v \<Rightarrow> feed_back now v r))"
    using ok by (auto simp: trainer_ok_def feed_back_ok split: option.split)
  then show ?thesis using Some ok by (auto simp: sync_rule_triggers_from_bridge_def Let_def intro!: trainer_ok_rules)
qed (simp add: sync_rule_triggers_from_bridge_def)

lemma escape_ok: "trainer_ok t \<Longrightarrow> trainer_ok (fst (ingest_escape_event sv now e t))"
  using ingest_ok [of t sv now "to_security_event e"]
  by (auto simp: ingest_escape_event_def trainer_ok_def split: prod.split sum.split)

lemma tests_ok: "trainer_ok t \<Longrightarrow> trainer_ok (fst (run_institutional_red_team_test now us t))"
  by (simp add: run_institutional_red_team_test_def Let_def trainer_ok_def)

interpretation training: machine trainer_fresh trainer_step trainer_ok
proof unfold_locales
  fix t :: trainer and e
  assume "trainer_ok t"
  then show "trainer_ok (trainer_step e t)"
    by (cases e) (simp_all add: run_training_ok ingest_ok escape_ok sync_ok tests_ok)
qed (rule fresh_ok)

lemma count_map: "count P (map f xs) = count (\<lambda>x. P (f x)) xs"
  by (induction xs) simp_all

lemma count_cong: "(\<And>x. x \<in> set xs \<Longrightarrow> P x = Q x) \<Longrightarrow> count P xs = count Q xs"
  by (induction xs) simp_all

lemma count_or_not: "count P xs + count (\<lambda>x. \<not> P x) xs = int (length xs)"
  by (induction xs) auto

text \<open>
  C30. Whatever rounds, events, escapes, syncs and tests a trainer goes through: the strategy weights are positive and sum to one,
  every rule has an effectiveness in (0, 1] and a precision in [0, 1], the wins of the two sides add up to the rounds,
  and the successes each agent has counted for itself are the wins of the trainer's own statistics.
\<close>
theorem trainer_consistent:
  assumes "reachable trainer_fresh trainer_step t"
  shows "(\<forall>w\<in>set (vals (ra_weights (tr_red t))). 0 < w) \<and> sum_list (vals (ra_weights (tr_red t))) = 1 \<and>
    (\<forall>r\<in>set (ba_rules (tr_blue t)). 0 < dr_effectiveness r \<and> dr_effectiveness r \<le> 1 \<and> 0 \<le> rule_precision r \<and> rule_precision r \<le> 1) \<and>
    st_red_wins (get_training_statistics t) + st_blue_wins (get_training_statistics t) = int (st_total_rounds (get_training_statistics t)) \<and>
    rs_successful (red_get_statistics (tr_red t)) = st_red_wins (get_training_statistics t) \<and>
    bl_successful (blue_get_statistics (tr_blue t)) = st_blue_wins (get_training_statistics t)"
proof -
  have ok: "trainer_ok t" by (rule training.inv_reachable [OF assms])
  have blue: "count rd_defense_success (tr_rounds t) = count (\<lambda>r. \<not> rd_attack_success r) (tr_rounds t)"
    using ok by (intro count_cong) (auto simp: trainer_ok_def)
  have "count ah_success (ra_history (tr_red t)) = count rd_attack_success (tr_rounds t)"
    using count_map [of "\<lambda>x. x" ah_success "ra_history (tr_red t)"] count_map [of "\<lambda>x. x" rd_attack_success "tr_rounds t"] ok
    by (simp add: trainer_ok_def)
  moreover have "count (\<lambda>h. \<not> dh_attack_success h) (ba_history (tr_blue t)) = count (\<lambda>r. \<not> rd_attack_success r) (tr_rounds t)"
    using count_map [of Not dh_attack_success "ba_history (tr_blue t)"] count_map [of Not rd_attack_success "tr_rounds t"] ok
    by (simp add: trainer_ok_def)
  ultimately show ?thesis using ok count_or_not [of rd_attack_success "tr_rounds t"] rule_precision_bounds
    by (simp add: trainer_ok_def weights_ok_def rule_ok_def get_training_statistics_def red_get_statistics_def blue_get_statistics_def Let_def blue)
qed

text \<open>What rounds do to the rules that exist.\<close>

definition better :: "defense_rule \<Rightarrow> defense_rule \<Rightarrow> bool" where
  "better r r' \<longleftrightarrow> dr_rule_id r' = dr_rule_id r \<and> dr_false_positive_count r' = dr_false_positive_count r \<and> dr_effectiveness r \<le> dr_effectiveness r'"

lemma better_refl [simp]: "better r r"
  by (simp add: better_def)

lemma better_trans: "better r r1 \<Longrightarrow> better r1 r2 \<Longrightarrow> better r r2"
  by (auto simp: better_def)

lemma fold_update_better:
  assumes "\<forall>x\<in>set xs. rule_ok x" "\<And>x. rule_ok x \<Longrightarrow> rule_ok (f x) \<and> better x (f x)" "\<forall>i\<in>set is. i < length xs" "j < length xs"
  shows "better (xs ! j) (fold (\<lambda>i xs. xs[i := f (xs ! i)]) is xs ! j)"
  using assms(1,3,4)
proof (induction "is" arbitrary: xs)
  case (Cons i "is")
  have f: "rule_ok (f (xs ! i))" "better (xs ! i) (f (xs ! i))" using assms(2) Cons.prems by simp_all
  have "\<forall>x\<in>set (xs[i := f (xs ! i)]). rule_ok x" using Cons.prems(1) set_update_subset_insert [of xs i] f(1) by blast
  then have "better (xs[i := f (xs ! i)] ! j) (fold (\<lambda>i xs. xs[i := f (xs ! i)]) is (xs[i := f (xs ! i)]) ! j)"
    using Cons.prems by (intro Cons.IH) simp_all
  moreover have "better (xs ! j) (xs[i := f (xs ! i)] ! j)" using f(2) Cons.prems by (cases "i = j") simp_all
  ultimately show ?case using better_trans by simp
qed simp

lemma adjust_better: "rule_ok r \<Longrightarrow> better r (adjust_effectiveness now False True r)"
  by (simp add: better_def adjust_effectiveness_def rule_record_trigger_def Let_def min_def rule_ok_def)

lemma round_better:
  assumes "trainer_ok t" "run_single_round w n t = Inr t'" "j < length (ba_rules (tr_blue t))"
  shows "length (ba_rules (tr_blue t')) = length (ba_rules (tr_blue t)) \<and> better (ba_rules (tr_blue t) ! j) (ba_rules (tr_blue t') ! j)"
  using assms(2)
proof (cases rule: round_cases)
  case (1 red i hits rd)
  let ?f = "adjust_effectiveness (rw_now w) (hits = []) (hits \<noteq> [])"
  have "better (ba_rules (tr_blue t) ! j) (fold (\<lambda>i rs. rs[i := ?f (rs ! i)]) hits (ba_rules (tr_blue t)) ! j)"
  proof (cases "hits = []")
    case False
    then show ?thesis using assms(1,3) hits_in_range [of "rw_detect w" "ra_cases red ! i" "tr_blue t"]
      by (intro fold_update_better) (simp_all add: trainer_ok_def adjust_ok adjust_better 1(2))
  qed simp
  then show ?thesis by (simp add: 1(4) record_defense_result_def Let_def fold_update_list(1))
qed

lemma rounds_better:
  assumes "trainer_ok t" "j < length (ba_rules (tr_blue t))"
  shows "length (ba_rules (tr_blue t)) \<le> length (ba_rules (tr_blue (fst (train_rounds ws i n t)))) \<and>
    better (ba_rules (tr_blue t) ! j) (ba_rules (tr_blue (fst (train_rounds ws i n t))) ! j)"
  using assms
proof (induction n arbitrary: i t)
  case (Suc n)
  show ?case
  proof (cases "run_single_round (ws i) i t")
    case (Inr t1)
    note b1 = round_better [OF Suc.prems(1) Inr Suc.prems(2)] and ok1 = round_ok [OF Suc.prems(1) Inr]
    show ?thesis
    proof (cases "evolve_weakest (ws i) i t1")
      case (Inl e)
      then show ?thesis using Inr b1 by simp
    next
      case r: (Inr t2)
      obtain qs where q: "ba_rules (tr_blue t2) = ba_rules (tr_blue t1) @ qs" using evolve_ok(2) [OF ok1 r] by auto
      have j: "j < length (ba_rules (tr_blue t2))" using q b1 Suc.prems(2) by simp
      from Suc.IH [OF evolve_ok(1) [OF ok1 r] j, of "i + 1"] b1 q Suc.prems(2) Inr r show ?thesis
        by (auto simp: nth_append intro: better_trans)
    qed
  qed simp
qed simp

text \<open>
  C31. Training never holds a failed defence against a rule. A rule is only told of a round it took part in, and a round in which a
  rule took part counts as defended: so, whatever the draws, a training run adds no false positive to any existing rule and lowers
  the effectiveness of none, also where every attack of the run succeeds.
\<close>
theorem training_never_learns_from_defeat:
  assumes "reachable trainer_fresh trainer_step t" "j < length (ba_rules (tr_blue t))"
  shows "dr_rule_id (ba_rules (tr_blue (fst (run_training ws k t))) ! j) = dr_rule_id (ba_rules (tr_blue t) ! j) \<and>
    dr_false_positive_count (ba_rules (tr_blue (fst (run_training ws k t))) ! j) = dr_false_positive_count (ba_rules (tr_blue t) ! j) \<and>
    dr_effectiveness (ba_rules (tr_blue t) ! j) \<le> dr_effectiveness (ba_rules (tr_blue (fst (run_training ws k t))) ! j)"
proof -
  have "fst (run_training ws k t) = fst (train_rounds ws 0 (rounds_to_run k t) t)"
    by (simp add: run_training_def split: prod.split option.split)
  then show ?thesis using rounds_better [OF training.inv_reachable [OF assms(1)] assms(2), of ws 0 "rounds_to_run k t"] by (simp add: better_def)
qed

subsection \<open>A training run that raises\<close>

text \<open>Draws under which nothing mutates, nothing is detected, and an evolution widens the weakest rule.\<close>

definition quiet_draws :: "round_draws" where
  "quiet_draws = \<lparr>rw_now = 0, rw_select = 0, rw_pick = 0, rw_mutate = 99 / 100,
     rw_mutation = \<lparr>mu_kind = 0, mu_other = 0, mu_delay = [], mu_digit = 0, mu_shift = 0\<rparr>, rw_detect = (\<lambda>i. 99 / 100),
     rw_delay = 0, rw_cpu = 0, rw_memory = 0, rw_evolution = \<lparr>ev_kind = 0, ev_pick = 0, ev_gain = 0, ev_order = (\<lambda>ts. ts)\<rparr>\<rparr>"

definition weakest_last :: "nat \<Rightarrow> trainer \<Rightarrow> bool" where
  "weakest_last k t \<longleftrightarrow> tr_evolution t \<and> tr_mutation_rate t \<le> 99 / 100 \<and>
     ra_cases (tr_red t) \<noteq> [] \<and> (\<forall>c\<in>set (ra_cases (tr_red t)). 1 / 10 \<le> ak_difficulty c) \<and>
     (\<exists>rs r. ba_rules (tr_blue t) = rs @ [r] \<and> (\<forall>q\<in>set rs. dr_effectiveness r < dr_effectiveness q \<and> dr_effectiveness q \<le> 1) \<and>
       0 < dr_effectiveness r \<and> dr_effectiveness r \<le> 1 \<and> distinct (dr_target_attack_types r) \<and> length (dr_target_attack_types r) = k)"

lemma draw_99 [simp]: "draw (99 / 100) = 99 / 100"
  by (simp add: draw_def floor_eq_iff)

lemma no_hit:
  assumes "0 < x" "x \<le> 1" "1 / 10 \<le> (y :: rat)"
  shows "\<not> 99 / 100 < x * (1 - y * (3 / 10))"
proof -
  have "x * (1 - y * (3 / 10)) \<le> x * (97 / 100)" using assms by (intro mult_left_mono) simp_all
  then show ?thesis using assms by linarith
qed

lemma all_update: "\<forall>x\<in>set xs. P x \<Longrightarrow> P y \<Longrightarrow> \<forall>x\<in>set (xs[i := y]). P x"
  using set_update_subset_insert [of xs i y] by blast

lemma quiet_choice:
  assumes "weakest_last k t"
  shows "\<exists>i. choose_attack quiet_draws t = Inr (tr_red t, i) \<and> i < length (ra_cases (tr_red t)) \<and>
    detect_attack (rw_detect quiet_draws) (ra_cases (tr_red t) ! i) (tr_blue t) = []"
proof -
  note w = assms [unfolded weakest_last_def]
  have "\<exists>i. select_attack_case 0 0 0 (tr_red t) = Inr i" using w by (simp add: select_attack_case_def Let_def)
  then obtain i where sel: "select_attack_case 0 0 0 (tr_red t) = Inr i" by blast
  have i: "i < length (ra_cases (tr_red t))" by (rule selected_in_range [OF sel])
  have ch: "choose_attack quiet_draws t = Inr (tr_red t, i)" using w sel by (simp add: choose_attack_def quiet_draws_def)
  have eff: "0 < dr_effectiveness q \<and> dr_effectiveness q \<le> 1" if "q \<in> set (ba_rules (tr_blue t))" for q
    using w that by force
  have diff: "1 / 10 \<le> ak_difficulty (ra_cases (tr_red t) ! i)" using w i by simp
  have "detect_attack (rw_detect quiet_draws) (ra_cases (tr_red t) ! i) (tr_blue t) = []"
    using no_hit eff diff by (auto simp: detect_attack_def filter_empty_conv quiet_draws_def)
  then show ?thesis using ch i by blast
qed

lemma quiet_hits:
  "weakest_last k t \<Longrightarrow> choose_attack quiet_draws t = Inr (red, i) \<Longrightarrow> detect_attack (rw_detect quiet_draws) (ra_cases red ! i) (tr_blue t) = []"
  using quiet_choice [of k t] by auto

lemma quiet_round:
  assumes "weakest_last k t"
  shows "\<exists>t'. run_single_round quiet_draws n t = Inr t' \<and> weakest_last k t'"
proof -
  note w = assms [unfolded weakest_last_def]
  obtain i where ch: "choose_attack quiet_draws t = Inr (tr_red t, i)" and i: "i < length (ra_cases (tr_red t))"
    and hits: "detect_attack (rw_detect quiet_draws) (ra_cases (tr_red t) ! i) (tr_blue t) = []"
    using quiet_choice [OF assms] by blast
  have diff: "1 / 10 \<le> ak_difficulty (ra_cases (tr_red t) ! i)" using w i by simp
  obtain t' where t': "run_single_round quiet_draws n t = Inr t'" using ch by (simp add: run_single_round_def Let_def)
  then have "weakest_last k t'"
  proof (cases rule: round_cases)
    case (1 red j hs rd)
    then have red: "red = tr_red t" "j = i" "hs = []" using ch hits by simp_all
    have rules: "ba_rules (tr_blue t') = ba_rules (tr_blue t)" by (simp add: 1(4) red record_defense_result_def)
    have cases: "ra_cases (tr_red t') = (ra_cases (tr_red t))[i := case_record_result 0 True (ra_cases (tr_red t) ! i)]"
      by (simp add: 1(3) red record_attack_result_def Let_def quiet_draws_def)
    have "\<forall>c\<in>set (ra_cases (tr_red t')). 1 / 10 \<le> ak_difficulty c"
      unfolding cases using w diff by (intro all_update) (simp_all add: case_record_result_def)
    moreover have "ra_cases (tr_red t') \<noteq> []" using w by (simp add: cases)
    ultimately show ?thesis using w unfolding weakest_last_def by (simp add: rules 1(10,12))
  qed
  then show ?thesis using t' by blast
qed

lemma first_best_last: "(\<forall>y\<in>set xs. f y < f x) \<Longrightarrow> first_best f (xs @ [x]) = Some x"
  by (induction xs) (auto split: option.split)

lemma all_types_covered:
  assumes "distinct ts"
  shows "filter (\<lambda>x. x \<notin> set ts) attack_types = [] \<longleftrightarrow> length ts = 10" "length ts \<le> 10"
proof -
  have all: "set attack_types = UNIV" unfolding attack_types_def by (auto intro: attack_type.exhaust)
  have card: "card (UNIV :: attack_type set) = 10" unfolding all [symmetric] by (simp add: attack_types_def)
  have fin: "finite (UNIV :: attack_type set)" unfolding all [symmetric] by simp
  have len: "card (set ts) = length ts" by (rule distinct_card [OF assms])
  show "length ts \<le> 10" using card_mono [OF fin subset_UNIV, of "set ts"] by (simp add: card len)
  have "filter (\<lambda>x. x \<notin> set ts) attack_types = [] \<longleftrightarrow> set ts = UNIV" using all by (auto simp: filter_empty_conv)
  also have "\<dots> \<longleftrightarrow> length ts = 10" using card_subset_eq [OF fin subset_UNIV, of "set ts"] by (auto simp: card len [symmetric])
  finally show "filter (\<lambda>x. x \<notin> set ts) attack_types = [] \<longleftrightarrow> length ts = 10" .
qed

lemma widen_weakest:
  assumes "weakest_last k t" "(i + 1) mod 10 = 0"
  shows "k = 10 \<Longrightarrow> evolve_weakest quiet_draws i t = Inl IndexError"
    "k \<noteq> 10 \<Longrightarrow> \<exists>t'. evolve_weakest quiet_draws i t = Inr t' \<and> weakest_last (k + 1) t'"
proof -
  note w = assms(1) [unfolded weakest_last_def]
  obtain rs r where r: "ba_rules (tr_blue t) = rs @ [r]" "\<forall>q\<in>set rs. dr_effectiveness r < dr_effectiveness q \<and> dr_effectiveness q \<le> 1"
    "0 < dr_effectiveness r" "dr_effectiveness r \<le> 1" "distinct (dr_target_attack_types r)" "length (dr_target_attack_types r) = k"
    using w by blast
  let ?others = "filter (\<lambda>x. x \<notin> set (dr_target_attack_types r)) attack_types"
  have best: "first_best (\<lambda>r. - dr_effectiveness r) (ba_rules (tr_blue t)) = Some r"
    unfolding r(1) using r(2) by (intro first_best_last) simp
  note unfold = evolve_weakest_def best evolve_defense_rule_def evolved_parts_def quiet_draws_def Let_def
  show "evolve_weakest quiet_draws i t = Inl IndexError" if "k = 10"
    using w assms(2) all_types_covered(1) [OF r(5)] r(6) that by (simp add: unfold)
  show "\<exists>t'. evolve_weakest quiet_draws i t = Inr t' \<and> weakest_last (k + 1) t'" if "k \<noteq> 10"
  proof -
    have ne: "?others \<noteq> []" using all_types_covered(1) [OF r(5)] r(6) that by simp
    then have new: "pick_at 0 ?others \<notin> set (dr_target_attack_types r)" using pick_at_mem [OF ne, of 0] by simp
    let ?q = "new_rule 0 (dr_rule_id r @ ''_E'' @ dec_int (py_int 0)) (dr_defense_type r) (dr_description r @ '' (wider coverage)'')
      (dr_target_attack_types r @ [pick_at 0 ?others]) (dr_detection_logic r @ '' (evolved)'') (dr_effectiveness r * (9 / 10))"
    let ?t = "t\<lparr>tr_blue := (tr_blue t)\<lparr>ba_rules := (rs @ [r]) @ [?q]\<rparr>\<rparr>"
    have "evolve_weakest quiet_draws i t = Inr ?t" using w assms(2) ne best [unfolded r(1)] by (simp add: unfold r(1))
    moreover have "weakest_last (k + 1) ?t" unfolding weakest_last_def
    proof (intro conjI exI [of _ "rs @ [r]"] exI [of _ ?q])
      show "\<forall>q\<in>set (rs @ [r]). dr_effectiveness ?q < dr_effectiveness q \<and> dr_effectiveness q \<le> 1"
        using r(2-4) by (force simp: new_rule_def)
    qed (use w r(3-6) new in \<open>simp_all add: new_rule_def\<close>)
    ultimately show ?thesis by blast
  qed
qed

text \<open>Ten rounds go by between two evolutions, and each of them takes one of the types that are left.\<close>

lemma widened_until_it_raises:
  assumes "weakest_last k t" "k \<le> 10" "10 * (10 - k) + (10 - i mod 10) \<le> n"
  shows "snd (train_rounds (\<lambda>i. quiet_draws) i n t) = Some IndexError"
  using assms
proof (induction n arbitrary: i k t)
  case 0
  then show ?case using mod_less_divisor [of 10 i] by linarith
next
  case (Suc n)
  obtain t1 where t1: "run_single_round quiet_draws i t = Inr t1" "weakest_last k t1" using quiet_round [OF Suc.prems(1)] by blast
  show ?case
  proof (cases "(i + 1) mod 10 = 0")
    case True
    then have nine: "i mod 10 = 9" by (simp add: mod_Suc split: if_splits)
    show ?thesis
    proof (cases "k = 10")
      case True
      then show ?thesis using widen_weakest(1) [OF t1(2) \<open>(i + 1) mod 10 = 0\<close>] t1 by simp
    next
      case False
      then obtain t2 where t2: "evolve_weakest quiet_draws i t1 = Inr t2" "weakest_last (k + 1) t2"
        using widen_weakest(2) [OF t1(2) True] by blast
      have "10 * (10 - (k + 1)) + (10 - (i + 1) mod 10) \<le> n" using Suc.prems(2,3) False True nine by simp
      then show ?thesis using Suc.IH [OF t2(2)] Suc.prems(2) False t1 t2 by simp
    qed
  next
    case False
    then have "(i + 1) mod 10 = i mod 10 + 1" by (simp add: mod_Suc split: if_splits)
    then have "10 * (10 - k) + (10 - (i + 1) mod 10) \<le> n" using Suc.prems(3) mod_less_divisor [of 10 i] by linarith
    then show ?thesis using Suc.IH [OF t1(2) Suc.prems(2)] False t1 by (simp add: evolve_weakest_def)
  qed
qed

lemma fresh_weakest:
  assumes "rate \<le> 99 / 100"
  shows "weakest_last 2 (init_trainer (init_red now rid) (init_blue now bid) rounds mut rate True br auto)"
proof -
  let ?t = "init_trainer (init_red now rid) (init_blue now bid) rounds mut rate True br auto"
  show ?thesis unfolding weakest_last_def
  proof (intro conjI exI [of _ "butlast (ba_rules (tr_blue ?t))"] exI [of _ "last (ba_rules (tr_blue ?t))"])
    show "ba_rules (tr_blue ?t) = butlast (ba_rules (tr_blue ?t)) @ [last (ba_rules (tr_blue ?t))]"
      by (simp add: init_trainer_def init_blue_def base_rules_def)
  qed (use assms in \<open>simp_all add: init_trainer_def init_red_def init_blue_def base_cases_def base_rules_def new_case_def new_rule_def\<close>)
qed

text \<open>
  C32. A training run of the default agents can end in an exception: with evolution on and 90 rounds or more (100 by default) there are
  draws under which the weakest rule is widened at every evolution until it covers all ten attack types, and the next choice among
  none raises IndexError in the middle of the run, so that the caller gets no statistics.
\<close>
theorem training_can_crash:
  assumes "90 \<le> rounds" "rate \<le> 99 / 100"
  shows "\<exists>ws. snd (run_training ws None (init_trainer (init_red now rid) (init_blue now bid) rounds mut rate True br auto)) = Inl IndexError"
proof -
  let ?t = "init_trainer (init_red now rid) (init_blue now bid) rounds mut rate True br auto"
  have "snd (train_rounds (\<lambda>i. quiet_draws) 0 rounds ?t) = Some IndexError"
    using widened_until_it_raises [OF fresh_weakest [OF assms(2)], where n = rounds] assms(1) by simp
  then have "snd (run_training (\<lambda>i. quiet_draws) None ?t) = Inl IndexError"
    by (simp add: run_training_def rounds_to_run_def case_prod_unfold init_trainer_def)
  then show ?thesis by blast
qed

theorem training_can_crash_witness:
  "\<exists>ws. snd (run_training ws None (init_trainer (init_red 0 ''red'') (init_blue 0 ''blue'') 100 True (3 / 10) True None True)) = Inl IndexError"
  by (rule training_can_crash) simp_all

subsection \<open>From a severe event to the configuration\<close>

lemma event_rule_updates: "generate_updates_from_rule digest str_of now (evolve_defense_from_event now e) (Some e) \<noteq> []"
  by (cases "sv_source e") (simp_all add: evolve_defense_from_event_def new_rule_def generate_updates_from_rule_def Let_def
      generate_seccomp_updates_def generate_isolation_updates_def generate_audit_updates_def generate_network_updates_def
      generate_resource_updates_def generate_capability_updates_def enumerate_def blocked_syscalls_def internal_cidrs_def resource_limits_def dangerous_caps_def)

text \<open>The parts of an ingestion: the trainer is the bridge's, with a case, a rule, a record and an entry of the history.\<close>

lemma ingest_learns:
  assumes "trainer_ok t" "is_severe (sv_severity e)"
  shows "\<exists>t' r. ingest_real_event sv now e t = (t', Inr r) \<and> ig_triggered r \<and>
    ra_cases (tr_red t') = ra_cases (tr_red t) @ [convert_event_to_attack_case (sr_dumps sv) now e] \<and>
    ba_rules (tr_blue t') = ba_rules (tr_blue t) @ [evolve_defense_from_event now e] \<and>
    tr_bridge t' = (if tr_auto_deploy t
      then map_option (\<lambda>br. fst (deploy_evolved_rules (sr_digest sv) (sr_str sv) now [evolve_defense_from_event now e] (Some e) None br)) (tr_bridge t)
      else tr_bridge t)"
proof -
  let ?rule = "evolve_defense_from_event now e" and ?c = "convert_event_to_attack_case (sr_dumps sv) now e"
  let ?r = "\<lparr>ig_event_id = sv_event_id e, ig_source = sv_source e, ig_severity = sv_severity e, ig_triggered = False, ig_actions = [], ig_deployment = None\<rparr>"
  let ?br = "if tr_auto_deploy t
      then map_option (\<lambda>br. fst (deploy_evolved_rules (sr_digest sv) (sr_str sv) now [?rule] (Some e) None br)) (tr_bridge t) else tr_bridge t"
  obtain t1 r1 where 1: "learn_case (sr_dumps sv) now e (t, ?r) = (t1, r1)" by fastforce
  have t1: "tr_bridge t1 = tr_bridge t" "tr_auto_deploy t1 = tr_auto_deploy t" "tr_blue t1 = tr_blue t"
    "tr_red t1 = (tr_red t)\<lparr>ra_cases := ra_cases (tr_red t) @ [?c]\<rparr>"
    using 1 by (auto simp: learn_case_def Let_def)
  obtain t2 r2 where 2: "learn_rule (sr_digest sv) (sr_str sv) now e (t1, r1) = (t2, r2)" by fastforce
  have t2: "tr_bridge t2 = ?br" "ba_rules (tr_blue t2) = ba_rules (tr_blue t) @ [?rule]" "tr_red t2 = tr_red t1" "ig_triggered r2"
    using 2 assms(2) t1 by (auto simp: learn_rule_def Let_def deploy_evolved_def deploy_rule_via_bridge_def split: option.splits if_splits prod.splits sum.splits)
  have "weights_ok (ra_weights (tr_red t2))" using assms(1) t1(4) t2(3) by (simp add: trainer_ok_def)
  note a = adjust_weights_grown [OF this, of e r2]
  obtain t3 r3 where 3: "adjust_weights e (t2, r2) = (t3, Inr r3)" "ig_triggered r3"
    using a(3) t2(4) by (cases "adjust_weights e (t2, r2)") auto
  have cases: "ra_cases (tr_red t3) = ra_cases (tr_red t2)" using 3(1) by (auto simp: adjust_weights_def Let_def split: if_splits)
  show ?thesis using 1 2 3 a(5,6) t1 t2 cases by (auto simp: ingest_real_event_def Let_def record_event_history_def)
qed

lemma ingest_severe:
  assumes "trainer_ok t" "is_severe (sv_severity e)" "tr_bridge t = Some br" "tr_auto_deploy t"
    and "deploy_evolved_rules (sr_digest sv) (sr_str sv) now [evolve_defense_from_event now e] (Some e) None br = (br', Inr rep)"
  shows "\<exists>t' r d. ingest_real_event sv now e t = (t', Inr r) \<and> tr_bridge t' = Some br' \<and>
    ba_rules (tr_blue t') = ba_rules (tr_blue t) @ [evolve_defense_from_event now e] \<and>
    ra_cases (tr_red t') = ra_cases (tr_red t) @ [convert_event_to_attack_case (sr_dumps sv) now e] \<and>
    map ee_event_id (tr_events t') = map ee_event_id (tr_events t) @ [sv_event_id e] \<and> ee_triggered (last (tr_events t')) \<and>
    ig_deployment r = Some (BA_Record d) \<and> bd_deployed d = (de_generated rep > 0) \<and> bd_targets d = []"
proof -
  let ?rule = "evolve_defense_from_event now e" and ?c = "convert_event_to_attack_case (sr_dumps sv) now e"
  let ?r = "\<lparr>ig_event_id = sv_event_id e, ig_source = sv_source e, ig_severity = sv_severity e, ig_triggered = False, ig_actions = [], ig_deployment = None\<rparr>"
  have none: "rule_result_status x \<noteq> ''applied''" "rule_result_status x \<noteq> ''dry_run''" "rule_result_status x \<noteq> ''pending''" for x
    by (cases x; simp)+
  obtain t1 r1 where 1: "learn_case (sr_dumps sv) now e (t, ?r) = (t1, r1)" by fastforce
  have t1: "tr_bridge t1 = tr_bridge t" "tr_auto_deploy t1" "tr_blue t1 = tr_blue t" "tr_events t1 = tr_events t"
    "tr_red t1 = (tr_red t)\<lparr>ra_cases := ra_cases (tr_red t) @ [?c]\<rparr>"
    using 1 assms(4) by (auto simp: learn_case_def Let_def)
  obtain t2 r2 where 2: "learn_rule (sr_digest sv) (sr_str sv) now e (t1, r1) = (t2, r2)" by fastforce
  have t2: "tr_bridge t2 = Some br'" "ba_rules (tr_blue t2) = ba_rules (tr_blue t) @ [?rule]" "tr_red t2 = tr_red t1" "tr_events t2 = tr_events t"
    "ig_triggered r2" "\<exists>d. ig_deployment r2 = Some (BA_Record d) \<and> bd_deployed d = (de_generated rep > 0) \<and> bd_targets d = []"
    using 2 assms(2-5) t1 by (auto simp: learn_rule_def Let_def deploy_evolved_def deploy_rule_via_bridge_def none)
  have "weights_ok (ra_weights (tr_red t2))" using assms(1) t1(5) t2(3) by (simp add: trainer_ok_def)
  note a = adjust_weights_grown [OF this, of e r2]
  obtain t3 r3 where 3: "adjust_weights e (t2, r2) = (t3, Inr r3)" "ig_deployment r3 = ig_deployment r2" "ig_triggered r3"
    using a(3) t2(5) by (cases "adjust_weights e (t2, r2)") auto
  have cases: "ra_cases (tr_red t3) = ra_cases (tr_red t2)" using 3(1) by (auto simp: adjust_weights_def Let_def split: if_splits)
  show ?thesis using 1 2 3 a t1 t2 cases by (auto simp: ingest_real_event_def Let_def record_event_history_def)
qed

text \<open>What becomes of the rule at the bridge.\<close>

lemma severe_deployment:
  fixes e :: source_event
  defines "rid \<equiv> ''evolved_'' @ sv_event_id e"
    and "us \<equiv> \<lambda>digest str_of now. generate_updates_from_rule digest str_of now (evolve_defense_from_event now e) (Some e)"
  assumes "br' = fst (deploy_evolved_rules digest str_of now [evolve_defense_from_event now e] (Some e) None br)"
  shows "in_cooldown now rid br \<Longrightarrow> br_records br' = br_records br \<and> br_enforcer br' = br_enforcer br"
    "\<not> in_cooldown now rid br \<Longrightarrow> \<exists>d. dget (br_records br') rid = Some d \<and> dp_updates d = us digest str_of now \<and>
       (if br_dry_run br then dp_status d = DS_DRY_RUN \<and> br_enforcer br' = br_enforcer br
        else dp_status d = DS_APPLIED \<and> en_disk (br_enforcer br') = (if en_dry_run (br_enforcer br) then en_disk (br_enforcer br)
          else fold (try_update (en_config_dir (br_enforcer br))) (by_priority (en_pending (br_enforcer br) @ dp_updates d)) (en_disk (br_enforcer br))))"
proof -
  let ?rule = "evolve_defense_from_event now e" and ?en = "br_enforcer br" and ?us = "us digest str_of now"
  let ?s = "enqueue_updates ?us ?en" and ?d = "new_deployment now ?rule ?us"
  have rid: "dr_rule_id ?rule = rid" by (simp add: rid_def evolve_defense_from_event_def new_rule_def)
  have ne: "?us \<noteq> []" using event_rule_updates by (simp add: us_def)
  show "br_records br' = br_records br \<and> br_enforcer br' = br_enforcer br" if "in_cooldown now rid br"
    using that rid assms(3) by (simp add: deploy_evolved_rules_def convert_rule_def apply_config_updates_def Let_def)
  have el: "\<forall>u\<in>set (en_pending ?s). bound_level None \<le> priority_level u" by (simp add: bound_level_def str_or_none_def)
  obtain en q where run: "apply_pending None ?s = (en, q)" by fastforce
  obtain arep where q: "q = Inr arep" and disk: "en_disk en = (if en_dry_run ?en then en_disk ?en
      else fold (try_update (en_config_dir ?en)) (by_priority (en_pending ?en @ ?us)) (en_disk ?en))"
    using apply_pending_eligible [OF el] run by auto
  have pend: "dp_status ?d = DS_PENDING" "dp_updates ?d = ?us" using ne by (simp_all add: new_deployment_def)
  have us': "generate_updates_from_rule digest str_of now ?rule (Some e) = ?us" by (simp add: us_def)
  assume nc: "\<not> in_cooldown now rid br"
  show "\<exists>d. dget (br_records br') rid = Some d \<and> dp_updates d = ?us \<and>
       (if br_dry_run br then dp_status d = DS_DRY_RUN \<and> br_enforcer br' = br_enforcer br
        else dp_status d = DS_APPLIED \<and> en_disk (br_enforcer br') = (if en_dry_run ?en then en_disk ?en
          else fold (try_update (en_config_dir ?en)) (by_priority (en_pending ?en @ dp_updates d)) (en_disk ?en)))"
  proof (cases "br_dry_run br")
    case True
    then have "dget (br_records br') rid = Some (?d\<lparr>dp_status := DS_DRY_RUN\<rparr>)" "br_enforcer br' = ?en"
      using nc ne pend rid us' assms(3)
      by (auto simp: deploy_evolved_rules_def convert_rule_def apply_config_updates_def Let_def dget_mark_pending dget_dset)
    then show ?thesis using True pend by simp
  next
    case False
    then have "dget (br_records br') rid = Some (?d\<lparr>dp_status := DS_APPLIED, dp_deployed_at := now\<rparr>)" "br_enforcer br' = en"
      using nc ne pend rid us' assms(3) run q
      by (auto simp: deploy_evolved_rules_def convert_rule_def apply_config_updates_def Let_def dget_mark_pending dget_dset)
    then show ?thesis using False pend disk by simp
  qed
qed

text \<open>
  C33. The way of a high or critical event through the system, whatever its source. In every reachable trainer, and
  whatever its settings, the ingestion returns, and the trainer gains an attack case and a defence rule against the event. What
  follows depends on the settings. Without a bridge, or with \<open>auto_deploy\<close> off (the default), the bridge is left alone. While the rule
  is cooling down after a circuit break, neither the records of the bridge nor its enforcer change. Otherwise
  the rule becomes configuration updates, at least one, and the bridge gets a record with them: with the status dry run, and the enforcer as it
  was, when the bridge is in dry-run mode (the default); with the status applied otherwise. In the last case the disk
  is unchanged when the enforcer is in dry-run mode, and else it is changed by each update in the order of their priorities, those already
  queued included. (An update that cannot be made, say because the disk cannot be written, is passed over, and the record
  still reads applied.)
\<close>
theorem severe_event_is_deployed:
  assumes "reachable trainer_fresh trainer_step t" "is_severe (sv_severity e)"
  shows "\<exists>t' r. ingest_real_event sv now e t = (t', Inr r) \<and> ig_triggered r \<and>
    ra_cases (tr_red t') = ra_cases (tr_red t) @ [convert_event_to_attack_case (sr_dumps sv) now e] \<and>
    ba_rules (tr_blue t') = ba_rules (tr_blue t) @ [evolve_defense_from_event now e] \<and>
    (case tr_bridge t of
       None \<Rightarrow> tr_bridge t' = None
     | Some br \<Rightarrow>
         if \<not> tr_auto_deploy t then tr_bridge t' = Some br
         else \<exists>br'. tr_bridge t' = Some br' \<and>
           (if in_cooldown now (''evolved_'' @ sv_event_id e) br then br_records br' = br_records br \<and> br_enforcer br' = br_enforcer br
            else \<exists>d. dget (br_records br') (''evolved_'' @ sv_event_id e) = Some d \<and>
              dp_updates d = generate_updates_from_rule (sr_digest sv) (sr_str sv) now (evolve_defense_from_event now e) (Some e) \<and> dp_updates d \<noteq> [] \<and>
              (if br_dry_run br then dp_status d = DS_DRY_RUN \<and> br_enforcer br' = br_enforcer br
               else dp_status d = DS_APPLIED \<and> en_disk (br_enforcer br') = (if en_dry_run (br_enforcer br) then en_disk (br_enforcer br)
                 else fold (try_update (en_config_dir (br_enforcer br)))
                   (by_priority (en_pending (br_enforcer br) @ dp_updates d)) (en_disk (br_enforcer br))))))"
proof -
  obtain t' r where i: "ingest_real_event sv now e t = (t', Inr r)" "ig_triggered r"
    "ra_cases (tr_red t') = ra_cases (tr_red t) @ [convert_event_to_attack_case (sr_dumps sv) now e]"
    "ba_rules (tr_blue t') = ba_rules (tr_blue t) @ [evolve_defense_from_event now e]"
    and b: "tr_bridge t' = (if tr_auto_deploy t
      then map_option (\<lambda>br. fst (deploy_evolved_rules (sr_digest sv) (sr_str sv) now [evolve_defense_from_event now e] (Some e) None br)) (tr_bridge t)
      else tr_bridge t)"
    using ingest_learns [OF training.inv_reachable [OF assms(1)] assms(2)] by metis
  show ?thesis
  proof (cases "tr_bridge t")
    case None
    then show ?thesis using i b by simp
  next
    case (Some br)
    note d = severe_deployment [OF refl, where br = br and e = e and digest = "sr_digest sv" and str_of = "sr_str sv" and now = now]
    show ?thesis
    proof (cases "tr_auto_deploy t")
      case False
      then show ?thesis using i b Some by simp
    next
      case True
      then show ?thesis using i b Some d event_rule_updates
        by (cases "in_cooldown now (''evolved_'' @ sv_event_id e) br") fastforce+
    qed
  qed
qed

text \<open>
  The record that the trainer keeps of a deployment says nothing about it. When the bridge refuses the rule of an event (it is cooling down
  after a circuit break), no record, update or file changes: yet once the bridge has generated any update for any rule
  before, the trainer's record reads deployed, with no target, as it does after every deployment.
\<close>
theorem deployed_without_deploying:
  assumes "reachable trainer_fresh trainer_step t" "is_severe (sv_severity e)" "tr_bridge t = Some br" "tr_auto_deploy t"
    and "in_cooldown now (''evolved_'' @ sv_event_id e) br" "0 < bs_generated (br_stats br)"
  shows "\<exists>t' r br' d. ingest_real_event sv now e t = (t', Inr r) \<and> ig_deployment r = Some (BA_Record d) \<and> bd_deployed d \<and> bd_targets d = [] \<and>
    tr_bridge t' = Some br' \<and> br_records br' = br_records br \<and> br_enforcer br' = br_enforcer br"
proof -
  let ?rule = "evolve_defense_from_event now e"
  have rid: "dr_rule_id ?rule = ''evolved_'' @ sv_event_id e" by (simp add: evolve_defense_from_event_def new_rule_def)
  obtain br' rep where dep: "deploy_evolved_rules (sr_digest sv) (sr_str sv) now [?rule] (Some e) None br = (br', Inr rep)"
    and br': "br_records br' = br_records br" "br_enforcer br' = br_enforcer br" "0 < de_generated rep"
    using assms(5,6) rid
    by (auto simp: deploy_evolved_rules_def convert_rule_def apply_config_updates_def Let_def build_deployment_result_def)
  show ?thesis using ingest_severe [OF training.inv_reachable [OF assms(1)] assms(2-4) dep] br' by blast
qed

subsection \<open>A small trainer\<close>

definition demo_trainer :: "bridge \<Rightarrow> trainer" where
  "demo_trainer br = init_trainer (init_red 0 ''red'') (init_blue 0 ''blue'') 100 True (3 / 10) True (Some br) True"

definition demo_severe_event :: source_event where
  "demo_severe_event = \<lparr>sv_event_id = ''e1'', sv_source = Audit_Chain_Anomaly, sv_timestamp = 5, sv_sandbox_id = ''s1'', sv_severity = ''critical'',
     sv_description = ''broken chain'', sv_payload = [], sv_raw_event = None, sv_anomaly_type = None, sv_anomaly_score = 1 / 2\<rparr>"

definition demo_services :: services where
  "demo_services = \<lparr>sr_digest = (\<lambda>r t. r), sr_str = (\<lambda>j. []), sr_dumps = (\<lambda>d. [])\<rparr>"

definition demo_run :: trainer where
  "demo_run = fst (run_training (\<lambda>i. quiet_draws) (Some 1) (demo_trainer (demo_base True)))"

definition broken_bridge :: bridge where
  "broken_bridge = fold bridge_step [BO_Deploy (\<lambda>r t. r) (\<lambda>j. []) 0 [demo_rule ''evolved_e1''] None None, BO_Trigger 5 ''evolved_e1'' False False]
     (demo_base True)"

lemma demo_fresh: "reachable trainer_fresh trainer_step (demo_trainer br)"
  unfolding demo_trainer_def by (intro reachable.reach_init) (unfold trainer_fresh_def, blast)

lemma demo_reachable: "reachable trainer_fresh trainer_step demo_run"
  unfolding demo_run_def using reach_step [OF demo_fresh, of "TO_Train (\<lambda>i. quiet_draws) (Some 1)"] by simp

lemma demo_severe: "is_severe (sv_severity demo_severe_event)" "sv_event_id demo_severe_event = ''e1''" "tr_bridge (demo_trainer br) = Some br" "tr_auto_deploy (demo_trainer br)"
  by (simp_all add: is_severe_def demo_severe_event_def demo_trainer_def init_trainer_def)

lemma demo_run_facts:
  "st_total_rounds (get_training_statistics demo_run) = 1" "st_blue_wins (get_training_statistics demo_run) = 0" "length (ba_rules (tr_blue demo_run)) = 8"
proof -
  let ?t = "demo_trainer (demo_base True)"
  have w: "weakest_last 2 ?t" unfolding demo_trainer_def by (rule fresh_weakest) simp
  have fresh: "tr_rounds ?t = []" "length (ba_rules (tr_blue ?t)) = 8"
    by (simp_all add: demo_trainer_def init_trainer_def init_blue_def base_rules_def)
  obtain t1 where t1: "run_single_round quiet_draws 0 ?t = Inr t1" "weakest_last 2 t1" using quiet_round [OF w] by blast
  then have run: "demo_run = t1" by (simp add: demo_run_def run_training_def rounds_to_run_def evolve_weakest_def)
  have "st_total_rounds (get_training_statistics t1) = 1 \<and> st_blue_wins (get_training_statistics t1) = 0 \<and> length (ba_rules (tr_blue t1)) = 8"
    using t1(1)
  proof (cases rule: round_cases)
    case (1 red i hits rd)
    have none: "hits = []" using quiet_hits [OF w] 1(1,2) by simp
    then show ?thesis using 1(4-9) fresh
      by (simp add: get_training_statistics_def Let_def record_defense_result_def)
  qed
  then show "st_total_rounds (get_training_statistics demo_run) = 1" "st_blue_wins (get_training_statistics demo_run) = 0" "length (ba_rules (tr_blue demo_run)) = 8"
    by (simp_all add: run)
qed

theorem trainer_consistent_witness:
  "st_red_wins (get_training_statistics demo_run) = 1 \<and> rs_successful (red_get_statistics (tr_red demo_run)) = 1 \<and>
   bl_successful (blue_get_statistics (tr_blue demo_run)) = 0 \<and> sum_list (vals (ra_weights (tr_red demo_run))) = 1"
  using trainer_consistent [OF demo_reachable] demo_run_facts by simp

theorem training_never_learns_from_defeat_witness:
  "dr_false_positive_count (ba_rules (tr_blue (fst (run_training (\<lambda>i. quiet_draws) None demo_run))) ! 3) =
   dr_false_positive_count (ba_rules (tr_blue demo_run) ! 3)"
  using training_never_learns_from_defeat [OF demo_reachable, of 3] demo_run_facts(3) by simp

theorem severe_event_is_deployed_witness:
  "\<exists>t' r br' d. ingest_real_event demo_services 5 demo_severe_event (demo_trainer (demo_base True)) = (t', Inr r) \<and> tr_bridge t' = Some br' \<and>
     length (ba_rules (tr_blue t')) = 9 \<and> dget (br_records br') ''evolved_e1'' = Some d \<and> dp_status d = DS_APPLIED \<and>
     en_disk (br_enforcer br') = fold (try_update ''/c'') (by_priority (dp_updates d)) (new_disk [] True)"
proof -
  have b: "\<not> in_cooldown 5 (''evolved_'' @ sv_event_id demo_severe_event) (demo_base True)" "\<not> br_dry_run (demo_base True)"
    "\<not> en_dry_run (br_enforcer (demo_base True))" "en_pending (br_enforcer (demo_base True)) = []" "en_config_dir (br_enforcer (demo_base True)) = ''/c''"
    "en_disk (br_enforcer (demo_base True)) = (new_disk [] True)" "length (ba_rules (tr_blue (demo_trainer (demo_base True)))) = 8"
    by (simp_all add: demo_base_def init_bridge_def init_enforcer_def in_cooldown_def demo_trainer_def init_trainer_def init_blue_def base_rules_def)
  show ?thesis
    using severe_event_is_deployed [OF demo_fresh demo_severe(1), of demo_services 5 "demo_base True"] b
    by (auto simp: demo_severe)
qed

theorem deployed_without_deploying_witness:
  "\<exists>t' r br' d. ingest_real_event demo_services 10 demo_severe_event (demo_trainer broken_bridge) = (t', Inr r) \<and> ig_deployment r = Some (BA_Record d) \<and>
     bd_deployed d \<and> tr_bridge t' = Some br' \<and> br_enforcer br' = br_enforcer broken_bridge"
proof -
  have "(in_cooldown 10 ''evolved_e1'' broken_bridge, 0 < bs_generated (br_stats broken_bridge)) = (True, True)" by code_simp
  then have b: "in_cooldown 10 (''evolved_'' @ sv_event_id demo_severe_event) broken_bridge" "0 < bs_generated (br_stats broken_bridge)"
    by (simp_all add: demo_severe(2))
  from deployed_without_deploying [OF demo_fresh demo_severe(1,3,4) b, of demo_services] show ?thesis by blast
qed

end
