(* ===== verification/Signal_Consumer.thy ===== *)
theory Signal_Consumer
  imports Adversary_Trainer Real_Data_Adapter
begin

text \<open>
  \<open>evolution/real_signal_consumer.py\<close>: log lines become escape events, each event is handed once to the callbacks, and
  a log file is followed while it grows; then the training from such signals (\<open>train_from_real_signals\<close> of
  \<open>evolution/red_blue_adversary.py\<close>). What the callbacks work on is the type \<open>'w\<close>: a callback returns what it makes of it
  and the exception it raises. Reading a line as JSON is the argument \<open>json_of\<close>. One round of the watching thread
  is one step; sizes of files are those of ASCII texts. The monitor of drifts is left out.
\<close>

subsection \<open>Lines of a log\<close>

definition escape_syscalls :: "string list" where
  "escape_syscalls = [''ptrace'', ''kexec_load'', ''kexec_file_load'', ''init_module'', ''finit_module'', ''delete_module'', ''reboot'', ''pivot_root'',
     ''mount'', ''umount2'', ''swapon'', ''swapoff'', ''sethostname'', ''setdomainname'', ''unshare'', ''setns'', ''clone'', ''execve'',
     ''execveat'', ''bpf'', ''perf_event_open'', ''quotactl'']"

definition signal_text :: "runtime \<Rightarrow> (string, json) dict \<Rightarrow> string \<Rightarrow> json \<Rightarrow> string" where
  "signal_text rt d k v = fstr (rt_str rt) (dget_or d k v)"

definition seccomp_signal :: "runtime \<Rightarrow> (string, json) dict \<Rightarrow> bool" where
  "seccomp_signal rt d =
     (let t = map upper_char (signal_text rt d ''event_type'' (JStr []))
      in contains ''SECCOMP'' t \<or> contains ''VIOLATION'' t \<or> (dget d ''syscall'' \<noteq> None \<and> dget d ''action'' \<noteq> None))"

definition seccomp_severity :: "string \<Rightarrow> string \<Rightarrow> string" where
  "seccomp_severity call action =
     (if call \<in> set [''ptrace'', ''kexec_load'', ''init_module'', ''reboot'', ''pivot_root''] then ''critical''
      else if call \<in> set [''mount'', ''unshare'', ''setns'', ''bpf'', ''execve'', ''clone''] then ''high''
      else if action = ''KILL'' then ''high''
      else if action = ''ERRNO'' then ''medium''
      else ''low'')"

definition seccomp_escape :: "runtime \<Rightarrow> time \<Rightarrow> (string, json) dict \<Rightarrow> exc + escape_event" where
  "seccomp_escape rt now d =
     ebind (py_float rt (dget_or d ''timestamp'' (JFloat now))) (\<lambda>t.
       let call = fstr (rt_str rt) (the_syscall d);
           action = signal_text rt d ''action'' (JStr ''KILL''); comm = signal_text rt d ''comm'' (JStr []); pid = dget_or d ''pid'' (JInt 0)
       in Inr \<lparr>es_event_id = signal_text rt d ''event_id'' (JStr (''seccomp_'' @ dec_int (py_int (t * 1000)))), es_signal = SG_Seccomp_Violation,
               es_timestamp = t, es_sandbox_id = fstr (rt_str rt) (dget_two d ''sandbox_id'' ''instance_id'' (JStr ''unknown'')),
               es_severity = seccomp_severity call action,
               es_description = ''seccomp violation: syscall='' @ call @ '', action='' @ action @ '', pid='' @ fstr (rt_str rt) pid @ '', comm='' @ comm,
               es_payload = [(''syscall'', JStr call), (''syscall_num'', dget_null d ''syscall_num''), (''action'', JStr action), (''pid'', pid),
                 (''comm'', JStr comm), (''arch'', dget_or d ''arch'' (JStr ''x86_64'')), (''args'', dget_or d ''args'' (JList []))],
               es_syscall = Some call, es_vm_exit_reason = None, es_anomaly_type = None, es_anomaly_score = 0, es_raw_event = Some d\<rparr>)"

definition seccomp_line :: "runtime \<Rightarrow> time \<Rightarrow> log_line \<Rightarrow> exc + escape_event option" where
  "seccomp_line rt now line =
     (case line of
        L_Json (JObj d) \<Rightarrow> if seccomp_signal rt d then ebind (seccomp_escape rt now d) (\<lambda>e. Inr (Some e)) else Inr None
      | L_Json v \<Rightarrow> Inl AttributeError
      | _ \<Rightarrow> Inr None)"

definition seccomp_attempt :: "escape_event \<Rightarrow> bool" where
  "seccomp_attempt e \<longleftrightarrow> (case es_syscall e of None \<Rightarrow> False | Some c \<Rightarrow> c \<in> set escape_syscalls) \<or> es_severity e \<in> set [''critical'', ''high'']"

definition suspicious_exits :: "string list" where
  "suspicious_exits = [''VMCALL'', ''VMMCALL'', ''IO_INSTRUCTION'', ''MSR_WRITE'', ''EXCEPTION_NMI'', ''TRIPLE_FAULT'', ''SHUTDOWN'',
     ''EPT_VIOLATION'', ''EPT_MISCONFIG'', ''APIC_ACCESS'']"

definition vmexit_signal :: "runtime \<Rightarrow> (string, json) dict \<Rightarrow> bool" where
  "vmexit_signal rt d =
     (let t = map upper_char (signal_text rt d ''event_type'' (JStr []))
      in contains ''VM_EXIT'' t \<or> contains ''VMEXIT'' t \<or> (dget d ''exit_reason'' \<noteq> None \<and> dget d ''vm_id'' \<noteq> None))"

definition vmexit_severity :: "string \<Rightarrow> string" where
  "vmexit_severity r =
     (if r \<in> set [''TRIPLE_FAULT'', ''SHUTDOWN'', ''VMCALL''] then ''critical''
      else if r \<in> set [''MSR_WRITE'', ''IO_INSTRUCTION'', ''EPT_VIOLATION''] then ''high''
      else if r \<in> set suspicious_exits then ''medium''
      else ''low'')"

definition vmexit_escape :: "runtime \<Rightarrow> time \<Rightarrow> (string, json) dict \<Rightarrow> exc + escape_event" where
  "vmexit_escape rt now d =
     ebind (py_float rt (dget_or d ''timestamp'' (JFloat now))) (\<lambda>t.
       let reason = signal_text rt d ''exit_reason'' (JStr ''UNKNOWN''); vm = fstr (rt_str rt) (dget_two d ''vm_id'' ''sandbox_id'' (JStr ''unknown''));
           vcpu = dget_or d ''vcpu_id'' (JInt 0); rip = signal_text rt d ''guest_rip'' (JStr ''0x0'')
       in Inr \<lparr>es_event_id = signal_text rt d ''event_id'' (JStr (''vmexit_'' @ dec_int (py_int (t * 1000)))), es_signal = SG_Kvm_Vm_Exit,
               es_timestamp = t, es_sandbox_id = vm, es_severity = vmexit_severity reason,
               es_description = ''KVM VM-Exit: reason='' @ reason @ '', vm='' @ vm @ '', vcpu='' @ fstr (rt_str rt) vcpu @ '', rip='' @ rip,
               es_payload = [(''exit_reason'', JStr reason), (''vcpu_id'', vcpu), (''guest_rip'', JStr rip),
                 (''exit_qualification'', dget_null d ''exit_qualification''), (''instruction_length'', dget_null d ''instruction_length''),
                 (''instruction_info'', dget_null d ''instruction_info'')],
               es_syscall = None, es_vm_exit_reason = Some reason, es_anomaly_type = None, es_anomaly_score = 0, es_raw_event = Some d\<rparr>)"

definition vmexit_line :: "runtime \<Rightarrow> time \<Rightarrow> log_line \<Rightarrow> exc + escape_event option" where
  "vmexit_line rt now line =
     (case line of
        L_Json (JObj d) \<Rightarrow> if vmexit_signal rt d then ebind (vmexit_escape rt now d) (\<lambda>e. Inr (Some e)) else Inr None
      | L_Json v \<Rightarrow> Inl AttributeError
      | _ \<Rightarrow> Inr None)"

definition suspicious :: "escape_event \<Rightarrow> bool" where
  "suspicious e \<longleftrightarrow> (case es_vm_exit_reason e of None \<Rightarrow> False | Some r \<Rightarrow> r \<in> set suspicious_exits) \<or> es_severity e \<in> set [''critical'', ''high'']"

subsection \<open>The consumer\<close>

datatype consume_mode = CM_Batch | CM_Realtime | CM_Threshold

record signal_stats =
  ss_consumed :: int
  ss_parsed :: int
  ss_skipped :: int
  ss_deduped :: int
  ss_seccomp :: int
  ss_vmexit :: int
  ss_audit :: int
  ss_escapes :: int
  ss_batches :: int
  ss_errors :: int

definition no_signals :: signal_stats where
  "no_signals = \<lparr>ss_consumed = 0, ss_parsed = 0, ss_skipped = 0, ss_deduped = 0, ss_seccomp = 0, ss_vmexit = 0, ss_audit = 0, ss_escapes = 0,
     ss_batches = 0, ss_errors = 0\<rparr>"

type_synonym ('e, 'w) callback = "time \<Rightarrow> 'e \<Rightarrow> 'w \<Rightarrow> 'w \<times> exc option"

record 'w consumer =
  cn_mode :: consume_mode
  cn_batch_size :: nat
  cn_batch_interval :: rat
  cn_dedup :: bool
  cn_ttl :: rat
  cn_callbacks :: "(escape_event, 'w) callback list"
  cn_batch_callbacks :: "(escape_event list, 'w) callback list"
  cn_buffer :: "escape_event list"
  cn_last_batch :: time
  cn_seen_ids :: "string list"
  cn_seen_times :: "(string, time) dict"
  cn_stats :: signal_stats
  cn_position :: nat
  cn_last_size :: nat
  cn_last_mtime :: int
  cn_running :: bool
  cn_lines :: int

definition init_consumer :: "time \<Rightarrow> consume_mode \<Rightarrow> nat \<Rightarrow> rat \<Rightarrow> bool \<Rightarrow> rat \<Rightarrow> 'w consumer" where
  "init_consumer now mode n interval dedup ttl =
     \<lparr>cn_mode = mode, cn_batch_size = n, cn_batch_interval = interval, cn_dedup = dedup, cn_ttl = ttl, cn_callbacks = [], cn_batch_callbacks = [],
      cn_buffer = [], cn_last_batch = now, cn_seen_ids = [], cn_seen_times = [], cn_stats = no_signals, cn_position = 0, cn_last_size = 0,
      cn_last_mtime = 0, cn_running = False, cn_lines = 0\<rparr>"

definition register_callback :: "(escape_event, 'w) callback \<Rightarrow> 'w consumer \<Rightarrow> 'w consumer" where
  "register_callback f c = c\<lparr>cn_callbacks := cn_callbacks c @ [f]\<rparr>"

definition register_batch_callback :: "(escape_event list, 'w) callback \<Rightarrow> 'w consumer \<Rightarrow> 'w consumer" where
  "register_batch_callback f c = c\<lparr>cn_batch_callbacks := cn_batch_callbacks c @ [f]\<rparr>"

definition upd_stats :: "(signal_stats \<Rightarrow> signal_stats) \<Rightarrow> 'w consumer \<Rightarrow> 'w consumer" where
  "upd_stats f c = c\<lparr>cn_stats := f (cn_stats c)\<rparr>"

definition parse_signal :: "runtime \<Rightarrow> time \<Rightarrow> signal_type option \<Rightarrow> log_line \<Rightarrow> 'w consumer \<Rightarrow> 'w consumer \<times> (exc + escape_event option)" where
  "parse_signal rt now ty line c0 =
     (let c = upd_stats (\<lambda>s. s\<lparr>ss_consumed := ss_consumed s + 1\<rparr>) c0
      in if ty = Some SG_Seccomp_Violation then (c, seccomp_line rt now line)
         else if ty = Some SG_Kvm_Vm_Exit then (c, vmexit_line rt now line)
         else (case seccomp_line rt now line of
             Inl x \<Rightarrow> (c, Inl x)
           | Inr (Some e) \<Rightarrow> (c, Inr (Some e))
           | Inr None \<Rightarrow> (case vmexit_line rt now line of
                 Inl x \<Rightarrow> (c, Inl x)
               | Inr (Some e) \<Rightarrow> (c, Inr (Some e))
               | Inr None \<Rightarrow> (upd_stats (\<lambda>s. s\<lparr>ss_skipped := ss_skipped s + 1\<rparr>) c, Inr None))))"

subsection \<open>Each event once\<close>

definition is_seen :: "time \<Rightarrow> string \<Rightarrow> 'w consumer \<Rightarrow> bool" where
  "is_seen now eid c \<longleftrightarrow> eid \<in> set (cn_seen_ids c) \<and> now - dget_or (cn_seen_times c) eid 0 < cn_ttl c"

definition cleanup_dedup_cache :: "time \<Rightarrow> 'w consumer \<Rightarrow> 'w consumer" where
  "cleanup_dedup_cache now c =
     (let expired = keys (filter (\<lambda>(eid, t). now - t > cn_ttl c) (cn_seen_times c))
      in c\<lparr>cn_seen_ids := filter (\<lambda>eid. eid \<notin> set expired) (cn_seen_ids c),
           cn_seen_times := fold ddel expired (cn_seen_times c)\<rparr>)"

definition mark_seen :: "time \<Rightarrow> string \<Rightarrow> 'w consumer \<Rightarrow> 'w consumer" where
  "mark_seen now eid c =
     (let c' = c\<lparr>cn_seen_ids := List.insert eid (cn_seen_ids c), cn_seen_times := dset eid now (cn_seen_times c)\<rparr>
      in if length (cn_seen_ids c') > 100000 then cleanup_dedup_cache now c' else c')"

definition count_signal :: "escape_event \<Rightarrow> signal_stats \<Rightarrow> signal_stats" where
  "count_signal e s0 =
     (let s = s0\<lparr>ss_parsed := ss_parsed s0 + 1\<rparr>; attempt = (\<lambda>b s. if b then s\<lparr>ss_escapes := ss_escapes s + 1\<rparr> else s)
      in case es_signal e of
           SG_Seccomp_Violation \<Rightarrow> attempt (seccomp_attempt e) (s\<lparr>ss_seccomp := ss_seccomp s + 1\<rparr>)
         | SG_Kvm_Vm_Exit \<Rightarrow> attempt (suspicious e) (s\<lparr>ss_vmexit := ss_vmexit s + 1\<rparr>)
         | SG_Audit_Chain_Anomaly \<Rightarrow> s\<lparr>ss_audit := ss_audit s + 1\<rparr>
         | _ \<Rightarrow> s)"

text \<open>Callbacks in turn: an exception is counted.\<close>

fun run_callbacks :: "('e, 'w) callback list \<Rightarrow> time \<Rightarrow> 'e \<Rightarrow> 'w \<Rightarrow> 'w \<times> nat" where
  "run_callbacks [] now e w = (w, 0)"
| "run_callbacks (f # fs) now e w =
     (let (w1, x) = f now e w; (w2, n) = run_callbacks fs now e w1 in (w2, n + (if x = None then 0 else 1)))"

definition count_errors :: "nat \<Rightarrow> 'w consumer \<Rightarrow> 'w consumer" where
  "count_errors n = upd_stats (\<lambda>s. s\<lparr>ss_errors := ss_errors s + int n\<rparr>)"

definition flush_batch :: "time \<Rightarrow> 'w consumer \<times> 'w \<Rightarrow> 'w consumer \<times> 'w" where
  "flush_batch now = (\<lambda>(c, w).
     if cn_buffer c = [] then (c, w)
     else (let c1 = upd_stats (\<lambda>s. s\<lparr>ss_batches := ss_batches s + 1\<rparr>) (c\<lparr>cn_buffer := [], cn_last_batch := now\<rparr>);
               (w', n) = run_callbacks (cn_batch_callbacks c) now (cn_buffer c) w
           in (count_errors n c1, w')))"

definition process_signal :: "time \<Rightarrow> escape_event \<Rightarrow> 'w consumer \<times> 'w \<Rightarrow> ('w consumer \<times> 'w) \<times> bool" where
  "process_signal now e = (\<lambda>(c, w).
     if cn_dedup c \<and> is_seen now (es_event_id e) c then ((upd_stats (\<lambda>s. s\<lparr>ss_deduped := ss_deduped s + 1\<rparr>) c, w), False)
     else (let c1 = upd_stats (count_signal e) (if cn_dedup c then mark_seen now (es_event_id e) c else c);
               (w', n) = run_callbacks (cn_callbacks c1) now e w;
               c2 = (count_errors n c1)\<lparr>cn_buffer := cn_buffer c1 @ [e]\<rparr>
           in (if cn_mode c2 \<in> set [CM_Threshold, CM_Realtime] \<and>
                  (length (cn_buffer c2) \<ge> cn_batch_size c2 \<or> now - cn_last_batch c2 \<ge> cn_batch_interval c2)
               then flush_batch now (c2, w') else (c2, w'), True)))"

subsection \<open>Files and lists of events\<close>

definition consume_line :: "runtime \<Rightarrow> time \<Rightarrow> signal_type option \<Rightarrow> log_line \<Rightarrow> 'w consumer \<times> 'w \<Rightarrow> ('w consumer \<times> 'w) \<times> (exc + escape_event option)" where
  "consume_line rt now ty line = (\<lambda>(c, w).
     case parse_signal rt now ty line c of
       (c1, Inl x) \<Rightarrow> ((c1, w), Inl x)
     | (c1, Inr None) \<Rightarrow> ((c1, w), Inr None)
     | (c1, Inr (Some e)) \<Rightarrow> (let (s, ok) = process_signal now e (c1, w) in (s, Inr (if ok then Some e else None))))"

fun consume_lines :: "runtime \<Rightarrow> signal_type option \<Rightarrow> (time \<times> log_line) list \<Rightarrow> nat \<Rightarrow> 'w consumer \<times> 'w \<Rightarrow> ('w consumer \<times> 'w) \<times> (exc + nat)" where
  "consume_lines rt ty [] n s = (s, Inr n)"
| "consume_lines rt ty ((now, line) # ls) n s =
     (case consume_line rt now ty line s of
        (s1, Inl x) \<Rightarrow> (s1, Inl x)
      | (s1, Inr e) \<Rightarrow> consume_lines rt ty ls (n + (if e = None then 0 else 1)) s1)"

text \<open>A file that is missing counts as an error; the buffer is flushed at the end, if the end is reached.\<close>

definition consume_file :: "runtime \<Rightarrow> time \<Rightarrow> signal_type option \<Rightarrow> (time \<times> log_line) list option \<Rightarrow> 'w consumer \<times> 'w \<Rightarrow> ('w consumer \<times> 'w) \<times> (exc + nat)" where
  "consume_file rt now ty lines = (\<lambda>(c, w).
     case lines of
       None \<Rightarrow> ((count_errors 1 c, w), Inr 0)
     | Some ls \<Rightarrow> (case consume_lines rt ty ls 0 (c, w) of (s, Inl x) \<Rightarrow> (s, Inl x) | (s, Inr n) \<Rightarrow> (flush_batch now s, Inr n)))"

text \<open>Events given as dictionaries take the way over their text, which reads back as the same value.\<close>

definition consume_events :: "runtime \<Rightarrow> time \<Rightarrow> signal_type \<Rightarrow> (time \<times> (string, json) dict) list \<Rightarrow> 'w consumer \<times> 'w \<Rightarrow> ('w consumer \<times> 'w) \<times> (exc + nat)" where
  "consume_events rt now ty es = consume_file rt now (Some ty) (Some (map (\<lambda>(t, d). (t, L_Json (JObj d))) es))"

fun source_signal :: "event_source \<Rightarrow> signal_type" where
  "source_signal Seccomp_Violation = SG_Seccomp_Violation"
| "source_signal Kvm_Vm_Exit = SG_Kvm_Vm_Exit"
| "source_signal Audit_Chain_Anomaly = SG_Audit_Chain_Anomaly"
| "source_signal Network_Block = SG_Network_Block"
| "source_signal Resource_Exceed = SG_Resource_Exceed"
| "source_signal Capability_Drop_Event = SG_Capability_Drop"

definition security_to_escape :: "source_event \<Rightarrow> escape_event" where
  "security_to_escape e =
     \<lparr>es_event_id = sv_event_id e, es_signal = source_signal (sv_source e), es_timestamp = sv_timestamp e, es_sandbox_id = sv_sandbox_id e,
      es_severity = sv_severity e, es_description = sv_description e, es_payload = sv_payload e, es_syscall = None, es_vm_exit_reason = None,
      es_anomaly_type = sv_anomaly_type e, es_anomaly_score = sv_anomaly_score e, es_raw_event = None\<rparr>"

definition reset_consumer :: "time \<Rightarrow> 'w consumer \<Rightarrow> 'w consumer" where
  "reset_consumer now c = c\<lparr>cn_buffer := [], cn_seen_ids := [], cn_seen_times := [], cn_last_batch := now, cn_stats := no_signals,
     cn_position := 0, cn_lines := 0\<rparr>"

subsection \<open>A file that grows\<close>

record log_file =
  lf_text :: string
  lf_mtime :: int
  lf_inode :: nat

fun split_lines :: "string \<Rightarrow> string list" where
  "split_lines [] = [[]]"
| "split_lines (ch # cs) =
     (if ch = CHR 0x0A then [] # split_lines cs
      else case split_lines cs of l # ls \<Rightarrow> (ch # l) # ls | [] \<Rightarrow> [[ch]])"

definition blank :: "string \<Rightarrow> bool" where
  "blank s = list_all is_space s"

definition read_new_lines :: "log_file option \<Rightarrow> 'w consumer \<Rightarrow> 'w consumer \<times> string list" where
  "read_new_lines fl c =
     (case fl of
        None \<Rightarrow> (count_errors 1 c, [])
      | Some l \<Rightarrow>
          (let n = length (lf_text l); modified = (lf_mtime l > cn_last_mtime c \<and> cn_last_mtime c > 0);
               pos = (if n < cn_position c \<or> (modified \<and> n \<le> cn_position c) \<or> (modified \<and> n < cn_last_size c) then 0 else cn_position c);
               c1 = c\<lparr>cn_position := pos, cn_last_size := n, cn_last_mtime := lf_mtime l\<rparr>
           in if n \<le> pos then (c1, [])
              else (c1\<lparr>cn_position := n\<rparr>, filter (\<lambda>x. \<not> blank x) (split_lines (drop pos (lf_text l))))))"

definition start_realtime :: "bool \<Rightarrow> log_file option \<Rightarrow> 'w consumer \<Rightarrow> 'w consumer \<times> bool" where
  "start_realtime from_beginning fl c =
     (if cn_running c then (c, False)
      else case fl of
          None \<Rightarrow> (count_errors 1 c, False)
        | Some l \<Rightarrow> (c\<lparr>cn_running := True, cn_position := (if from_beginning then 0 else length (lf_text l))\<rparr>, True))"

definition stop_realtime :: "'w consumer \<Rightarrow> 'w consumer \<times> bool" where
  "stop_realtime c = (if cn_running c then (c\<lparr>cn_running := False\<rparr>, True) else (c, False))"

text \<open>The lines read in one round; at the first exception the rest of them is gone.\<close>

fun watch_lines :: "runtime \<Rightarrow> (string \<Rightarrow> log_line) \<Rightarrow> time \<Rightarrow> signal_type option \<Rightarrow> string list \<Rightarrow> 'w consumer \<times> 'w \<Rightarrow> ('w consumer \<times> 'w) \<times> bool" where
  "watch_lines rt json_of now ty [] s = (s, True)"
| "watch_lines rt json_of now ty (l # ls) s =
     (case consume_line rt now ty (json_of l) s of
        (s1, Inl x) \<Rightarrow> (s1, False)
      | ((c1, w1), Inr e) \<Rightarrow> watch_lines rt json_of now ty ls (c1\<lparr>cn_lines := cn_lines c1 + 1\<rparr>, w1))"

record watcher =
  wa_inode :: "nat option"
  wa_errors :: nat

text \<open>One round of the loop: the watcher, the consumer with its world, and whether the loop goes on.\<close>

definition watch_round :: "runtime \<Rightarrow> (string \<Rightarrow> log_line) \<Rightarrow> time \<Rightarrow> signal_type option \<Rightarrow> log_file option \<Rightarrow> watcher \<times> 'w consumer \<times> 'w \<Rightarrow>
    (watcher \<times> 'w consumer \<times> 'w) \<times> bool" where
  "watch_round rt json_of now ty fl = (\<lambda>(v, c, w).
     case fl of
       None \<Rightarrow>
         (let v' = v\<lparr>wa_errors := wa_errors v + 1\<rparr>
          in if wa_errors v' > 10 then ((v', (count_errors 1 c)\<lparr>cn_running := False\<rparr>, w), False) else ((v', c, w), True))
     | Some l \<Rightarrow>
         (let c0 = (if wa_inode v \<noteq> None \<and> wa_inode v \<noteq> Some (lf_inode l) then c\<lparr>cn_position := 0\<rparr> else c);
              (c1, ls) = read_new_lines (Some l) c0; ((c2, w2), ok) = watch_lines rt json_of now ty ls (c1, w);
              v' = \<lparr>wa_inode = Some (lf_inode l), wa_errors = (if ok then 0 else 1)\<rparr>
          in ((v', if ok then c2 else count_errors 1 c2, w2), True)))"

subsection \<open>Training from signals\<close>

definition ingest_callback :: "services \<Rightarrow> (escape_event, trainer) callback" where
  "ingest_callback sv now e t = (case ingest_escape_event sv now e t of (t', Inl x) \<Rightarrow> (t', Some x) | (t', Inr r) \<Rightarrow> (t', None))"

definition connect_consumer :: "services \<Rightarrow> trainer consumer \<Rightarrow> trainer consumer" where
  "connect_consumer sv = register_callback (ingest_callback sv)"

record training_result =
  tt_rounds :: nat
  tt_requested :: nat
  tt_consumed :: nat
  tt_ingested :: int
  tt_cases :: nat
  tt_rules :: nat
  tt_results :: "round_report list"

definition run_batch_training :: "runtime \<Rightarrow> time \<Rightarrow> nat \<Rightarrow> (time \<times> log_line) list option \<Rightarrow> signal_type option \<Rightarrow>
    trainer consumer \<times> trainer \<Rightarrow> (trainer consumer \<times> trainer) \<times> (exc + round_report list \<times> nat)" where
  "run_batch_training rt now rounds lines ty s0 =
     (case (case lines of None \<Rightarrow> (s0, Inr 0) | Some ls \<Rightarrow> consume_file rt now ty lines s0) of
        (s, Inl x) \<Rightarrow> (s, Inl x)
      | (s, Inr n) \<Rightarrow> (s, Inr (map (\<lambda>i. train_round_from_real_events i (snd s)) [0..<rounds], n)))"

definition build_training_result :: "round_report list \<Rightarrow> nat \<Rightarrow> nat \<Rightarrow> nat \<Rightarrow> trainer \<Rightarrow> training_result" where
  "build_training_result results requested n before t =
     \<lparr>tt_rounds = length results, tt_requested = requested, tt_consumed = n, tt_ingested = int (length (tr_events t)) - int before,
      tt_cases = length (ra_cases (tr_red t)), tt_rules = length (ba_rules (tr_blue t)), tt_results = results\<rparr>"

text \<open>Training in batch mode. \<open>joined\<close>: whether the trainer has been connected to a consumer before, to whichever.\<close>

definition train_from_real_signals :: "runtime \<Rightarrow> services \<Rightarrow> time \<Rightarrow> bool \<Rightarrow> nat \<Rightarrow> (time \<times> log_line) list option \<Rightarrow> signal_type option \<Rightarrow>
    trainer consumer \<times> trainer \<Rightarrow> (trainer consumer \<times> trainer) \<times> (exc + training_result)" where
  "train_from_real_signals rt sv now joined rounds lines ty = (\<lambda>(c, t).
     case run_batch_training rt now rounds lines ty (if joined then c else connect_consumer sv c, t) of
       (s, Inl x) \<Rightarrow> (s, Inl x)
     | (s, Inr (results, n)) \<Rightarrow> (s, Inr (build_training_result results rounds n (length (tr_events t)) (snd s))))"

record signal_report =
  sq_signals :: int
  sq_high :: int
  sq_history :: nat
  sq_cases :: int

definition get_real_signal_stats :: "trainer \<Rightarrow> signal_report" where
  "get_real_signal_stats t = \<lparr>sq_signals = tr_signals t, sq_high = tr_high_signals t, sq_history = length (tr_events t),
     sq_cases = Photon_Prelude.count (\<lambda>c. prefix ''real_'' (ak_case_id c)) (ra_cases (tr_red t))\<rparr>"

fun ingest_escapes :: "services \<Rightarrow> (time \<times> escape_event) list \<Rightarrow> trainer \<Rightarrow> trainer \<times> (exc + ingest_result list)" where
  "ingest_escapes sv [] t = (t, Inr [])"
| "ingest_escapes sv ((now, e) # es) t =
     (case ingest_escape_event sv now e t of
        (t1, Inl x) \<Rightarrow> (t1, Inl x)
      | (t1, Inr r) \<Rightarrow> (case ingest_escapes sv es t1 of (t2, Inl x) \<Rightarrow> (t2, Inl x) | (t2, Inr rs) \<Rightarrow> (t2, Inr (r # rs))))"

record escape_batch_report =
  eb_total :: nat
  eb_triggered :: int
  eb_high :: int
  eb_details :: "ingest_result list"

definition ingest_escape_events :: "services \<Rightarrow> (time \<times> escape_event) list \<Rightarrow> trainer \<Rightarrow> trainer \<times> (exc + escape_batch_report)" where
  "ingest_escape_events sv es t =
     (case ingest_escapes sv es t of
        (t', Inl x) \<Rightarrow> (t', Inl x)
      | (t', Inr rs) \<Rightarrow> (t', Inr \<lparr>eb_total = length rs, eb_triggered = Photon_Prelude.count ig_triggered rs, eb_high = Photon_Prelude.count (\<lambda>r. is_severe (ig_severity r)) rs, eb_details = rs\<rparr>))"

subsection \<open>What the callbacks see\<close>

definition event_of_line :: "runtime \<Rightarrow> signal_type option \<Rightarrow> time \<Rightarrow> log_line \<Rightarrow> exc + escape_event option" where
  "event_of_line rt ty now line = snd (parse_signal rt now ty line (init_consumer 0 CM_Batch 0 0 True 0 :: unit consumer))"

definition events_of_lines :: "runtime \<Rightarrow> signal_type option \<Rightarrow> (time \<times> log_line) list \<Rightarrow> (time \<times> escape_event) list" where
  "events_of_lines rt ty ls = concat (map (\<lambda>(t, l). case event_of_line rt ty t l of Inr (Some e) \<Rightarrow> [(t, e)] | _ \<Rightarrow> []) ls)"

text \<open>The first event of each identifier.\<close>

fun fresh_events :: "string list \<Rightarrow> (time \<times> escape_event) list \<Rightarrow> (time \<times> escape_event) list" where
  "fresh_events seen [] = []"
| "fresh_events seen ((t, e) # es) =
     (if es_event_id e \<in> set seen then fresh_events seen es else (t, e) # fresh_events (es_event_id e # seen) es)"

lemma fresh_events_ids:
  "distinct (map (\<lambda>(t, e). es_event_id e) (fresh_events seen es)) \<and>
   set (map (\<lambda>(t, e). es_event_id e) (fresh_events seen es)) = set (map (\<lambda>(t, e). es_event_id e) es) - set seen"
  by (induction seen es rule: fresh_events.induct) auto

lemma parse_signal_event: "snd (parse_signal rt now ty line c) = event_of_line rt ty now line"
  by (simp add: parse_signal_def event_of_line_def Let_def split: sum.split option.split)

definition same_but_stats :: "'w consumer \<Rightarrow> 'w consumer \<Rightarrow> bool" where
  "same_but_stats c c' \<longleftrightarrow> (\<exists>s. c' = c\<lparr>cn_stats := s\<rparr>)"

lemma parse_signal_frame: "same_but_stats c (fst (parse_signal rt now ty line c))"
  by (auto simp: parse_signal_def Let_def upd_stats_def same_but_stats_def split: sum.split option.split)

text \<open>The cache of a consumer within one lifetime of its entries that begins at \<open>t0\<close>.\<close>

definition cache_of :: "time \<Rightarrow> string list \<Rightarrow> 'w consumer \<Rightarrow> bool" where
  "cache_of t0 seen c \<longleftrightarrow> set (cn_seen_ids c) = set seen \<and>
     (\<forall>k\<in>set seen. \<exists>t. dget (cn_seen_times c) k = Some t) \<and> (\<forall>(k, t)\<in>set (cn_seen_times c). t0 \<le> t \<and> t < t0 + cn_ttl c)"

lemma cache_of_cong:
  "cn_seen_ids c' = cn_seen_ids c \<Longrightarrow> cn_seen_times c' = cn_seen_times c \<Longrightarrow> cn_ttl c' = cn_ttl c \<Longrightarrow> cache_of t0 seen c' = cache_of t0 seen c"
  by (simp add: cache_of_def)

lemma seen_iff:
  assumes "cache_of t0 seen c" "t0 \<le> now" "now < t0 + cn_ttl c"
  shows "is_seen now k c \<longleftrightarrow> k \<in> set seen"
proof (cases "k \<in> set seen")
  case True
  then obtain t where t: "dget (cn_seen_times c) k = Some t" using assms(1) unfolding cache_of_def by blast
  then have "(k, t) \<in> set (cn_seen_times c)" by (rule map_of_SomeD)
  then have "t0 \<le> t" using assms(1) by (auto simp: cache_of_def)
  then show ?thesis using True t assms by (simp add: is_seen_def cache_of_def dget_or_def)
next
  case False
  then show ?thesis using assms(1) by (simp add: is_seen_def cache_of_def)
qed

lemma set_dset: "set (dset k v d) \<subseteq> insert (k, v) (set d)"
  by (induction d) auto

lemma nothing_expired:
  assumes "cache_of t0 seen c" "t0 \<le> now" "now < t0 + cn_ttl c"
  shows "cleanup_dedup_cache now c = c"
proof -
  have "\<not> now - t > cn_ttl c" if "(k, t) \<in> set (cn_seen_times c)" for k t
    using that assms by (force simp: cache_of_def)
  then have "filter (\<lambda>(eid, t). now - t > cn_ttl c) (cn_seen_times c) = []" by (auto simp: filter_empty_conv)
  then show ?thesis by (simp add: cleanup_dedup_cache_def keys_def)
qed

lemma mark_seen_cache:
  assumes "cache_of t0 seen c" "t0 \<le> now" "now < t0 + cn_ttl c"
  shows "cache_of t0 (k # seen) (mark_seen now k c)" "\<exists>ids ts. mark_seen now k c = c\<lparr>cn_seen_ids := ids, cn_seen_times := ts\<rparr>"
proof -
  let ?c = "c\<lparr>cn_seen_ids := List.insert k (cn_seen_ids c), cn_seen_times := dset k now (cn_seen_times c)\<rparr>"
  have ok: "cache_of t0 (k # seen) ?c"
    using assms set_dset [of k now "cn_seen_times c"] by (fastforce simp: cache_of_def dget_dset)
  have "mark_seen now k c = ?c" using nothing_expired [OF ok] assms by (simp add: mark_seen_def Let_def)
  then show "cache_of t0 (k # seen) (mark_seen now k c)" "\<exists>ids ts. mark_seen now k c = c\<lparr>cn_seen_ids := ids, cn_seen_times := ts\<rparr>"
    using ok by auto
qed

text \<open>What processing an event leaves as it is.\<close>

definition settings_kept :: "'w consumer \<Rightarrow> 'w consumer \<Rightarrow> bool" where
  "settings_kept c c' \<longleftrightarrow> cn_mode c' = cn_mode c \<and> cn_dedup c' = cn_dedup c \<and> cn_ttl c' = cn_ttl c \<and> cn_callbacks c' = cn_callbacks c \<and>
     cn_batch_callbacks c' = cn_batch_callbacks c"

lemma flush_frame:
  assumes "flush_batch now (c, w) = (c', w')"
  shows "settings_kept c c'" "cn_seen_ids c' = cn_seen_ids c" "cn_seen_times c' = cn_seen_times c" "cn_batch_callbacks c = [] \<Longrightarrow> w' = w"
  using assms by (auto simp: flush_batch_def Let_def settings_kept_def count_errors_def upd_stats_def split: prod.splits if_splits)

lemma process_signal_cases:
  assumes "cn_dedup c" "cn_callbacks c = fs" "cn_batch_callbacks c = []" "cache_of t0 seen c" "t0 \<le> now" "now < t0 + cn_ttl c"
    and "process_signal now e (c, w) = ((c', w'), ok)"
  shows "settings_kept c c'" "ok = (es_event_id e \<notin> set seen)"
    "cache_of t0 (if ok then es_event_id e # seen else seen) c'" "w' = (if ok then fst (run_callbacks fs now e w) else w)"
proof -
  have "settings_kept c c' \<and> ok = (es_event_id e \<notin> set seen) \<and> cache_of t0 (if ok then es_event_id e # seen else seen) c' \<and> w' = (if ok then fst (run_callbacks fs now e w) else w)"
  proof (cases "es_event_id e \<in> set seen")
    case True
    then show ?thesis using assms seen_iff [OF assms(4-6)]
      by (auto simp: process_signal_def upd_stats_def settings_kept_def cache_of_def)
  next
    case False
    let ?m = "mark_seen now (es_event_id e) c"
    obtain ids ts where m: "?m = c\<lparr>cn_seen_ids := ids, cn_seen_times := ts\<rparr>" using mark_seen_cache(2) [OF assms(4-6)] by blast
    have cache: "cache_of t0 (es_event_id e # seen) (c\<lparr>cn_seen_ids := ids, cn_seen_times := ts\<rparr>)"
      using mark_seen_cache(1) [OF assms(4-6), of "es_event_id e"] m by simp
    define c2 where "c2 = (count_errors (snd (run_callbacks fs now e w)) (upd_stats (count_signal e) ?m))\<lparr>cn_buffer := cn_buffer c @ [e]\<rparr>"
    have c2: "cn_mode c2 = cn_mode c" "cn_dedup c2 = cn_dedup c" "cn_ttl c2 = cn_ttl c" "cn_callbacks c2 = cn_callbacks c" "cn_batch_callbacks c2 = []"
      "cn_seen_ids c2 = ids" "cn_seen_times c2 = ts"
      using assms(3) by (simp_all add: c2_def m count_errors_def upd_stats_def)
    have run: "run_callbacks (cn_callbacks (upd_stats (count_signal e) ?m)) now e w = (fst (run_callbacks fs now e w), snd (run_callbacks fs now e w))"
      using assms(2) by (simp add: m upd_stats_def)
    have buf: "cn_buffer (upd_stats (count_signal e) ?m) = cn_buffer c" by (simp add: m upd_stats_def)
    have new: "\<not> is_seen now (es_event_id e) c" using False seen_iff [OF assms(4-6)] by simp
    have "process_signal now e (c, w) \<in> {(flush_batch now (c2, fst (run_callbacks fs now e w)), True), ((c2, fst (run_callbacks fs now e w)), True)}"
      unfolding process_signal_def prod.case Let_def using assms(1) new run buf by (simp add: c2_def case_prod_unfold)
    then have res: "(c', w') = (c2, fst (run_callbacks fs now e w)) \<or> (c', w') = flush_batch now (c2, fst (run_callbacks fs now e w))" and ok
      using assms(7) by auto
    have "settings_kept c c' \<and> w' = fst (run_callbacks fs now e w) \<and> cn_seen_ids c' = ids \<and> cn_seen_times c' = ts"
      using res flush_frame [of now c2 "fst (run_callbacks fs now e w)" c' w'] c2 assms(3) by (auto simp: settings_kept_def)
    moreover have "cache_of t0 (es_event_id e # seen) c'"
      using cache calculation by (simp add: settings_kept_def cache_of_def)
    ultimately show ?thesis using \<open>ok\<close> False by simp
  qed
  then show "settings_kept c c'" "ok = (es_event_id e \<notin> set seen)"
    "cache_of t0 (if ok then es_event_id e # seen else seen) c'" "w' = (if ok then fst (run_callbacks fs now e w) else w)" by blast+
qed

lemma lines_seen:
  assumes "cn_dedup c" "cn_callbacks c = fs" "cn_batch_callbacks c = []" "cache_of t0 seen c" "\<forall>(t, l)\<in>set ls. t0 \<le> t \<and> t < t0 + cn_ttl c"
    and "consume_lines rt ty ls n (c, w) = ((c', w'), Inr m)"
  shows "settings_kept c c' \<and> w' = fold (\<lambda>(t, e) w. fst (run_callbacks fs t e w)) (fresh_events seen (events_of_lines rt ty ls)) w \<and>
    m = n + length (fresh_events seen (events_of_lines rt ty ls))"
  using assms
proof (induction ls arbitrary: c w n seen)
  case Nil
  then show ?case by (simp add: events_of_lines_def settings_kept_def)
next
  case (Cons a ls)
  obtain now l where a: "a = (now, l)" by fastforce
  have time: "t0 \<le> now" "now < t0 + cn_ttl c" using Cons.prems(5) by (simp_all add: a)
  obtain c1 where p: "parse_signal rt now ty l c = (c1, event_of_line rt ty now l)" and s: "same_but_stats c c1"
    using parse_signal_event [of rt now ty l c] parse_signal_frame [of c rt now ty l] by (metis prod.collapse)
  have k1: "settings_kept c c1" "cache_of t0 seen c1" using s Cons.prems(4) by (auto simp: same_but_stats_def settings_kept_def cache_of_def)
  have rest: "\<forall>(t, l)\<in>set ls. t0 \<le> t \<and> t < t0 + cn_ttl c" using Cons.prems(5) by simp
  have pre: "cn_dedup c1" "cn_callbacks c1 = fs" "cn_batch_callbacks c1 = []" "cn_ttl c1 = cn_ttl c" using k1(1) Cons.prems(1-3) by (simp_all add: settings_kept_def)
  consider "event_of_line rt ty now l = Inr None" | e where "event_of_line rt ty now l = Inr (Some e)" | x where "event_of_line rt ty now l = Inl x"
    by (metis option.exhaust sum.exhaust)
  then show ?case
  proof cases
    case 1
    have run: "consume_lines rt ty ls n (c1, w) = ((c', w'), Inr m)" using Cons.prems(6) p 1 by (simp add: a consume_line_def)
    show ?thesis using Cons.IH [OF pre(1-3) k1(2) _ run] rest pre(4) k1(1) 1 by (simp add: a events_of_lines_def settings_kept_def)
  next
    case (2 e)
    obtain c2 w2 ok where pe: "process_signal now e (c1, w) = ((c2, w2), ok)" by (metis prod.collapse)
    note r = process_signal_cases [OF pre(1-3) k1(2) time(1) _ pe] 
    have t1: "now < t0 + cn_ttl c1" using time(2) pre(4) by simp
    have run: "consume_lines rt ty ls (n + (if ok then 1 else 0)) (c2, w2) = ((c', w'), Inr m)"
      using Cons.prems(6) p 2 pe by (simp add: a consume_line_def split: if_splits)
    have pre2: "cn_dedup c2" "cn_callbacks c2 = fs" "cn_batch_callbacks c2 = []" "cn_ttl c2 = cn_ttl c"
      using r(1) [OF t1] pre by (simp_all add: settings_kept_def)
    have rest2: "\<forall>(t, l)\<in>set ls. t0 \<le> t \<and> t < t0 + cn_ttl c2" using rest pre2(4) by simp
    show ?thesis using Cons.IH [OF pre2(1-3) r(3) [OF t1] rest2 run] r(1,2,4) [OF t1] k1(1) 2
      by (cases "es_event_id e \<in> set seen") (simp_all add: a events_of_lines_def settings_kept_def)
  next
    case (3 x)
    then show ?thesis using Cons.prems(6) p by (simp add: a consume_line_def)
  qed
qed

lemma init_cache:
  "cache_of t0 [] (init_consumer t1 mode k iv True ttl)" "cache_of t0 [] (register_callback f (init_consumer t1 mode k iv True ttl))"
  by (simp_all add: cache_of_def register_callback_def init_consumer_def)

lemma file_seen:
  assumes "cn_dedup c" "cn_callbacks c = fs" "cn_batch_callbacks c = []" "cache_of t0 seen c" "\<forall>(t, l)\<in>set ls. t0 \<le> t \<and> t < t0 + cn_ttl c"
    and "consume_file rt now ty (Some ls) (c, w) = ((c', w'), Inr m)"
  shows "w' = fold (\<lambda>(t, e) w. fst (run_callbacks fs t e w)) (fresh_events seen (events_of_lines rt ty ls)) w \<and> m = length (fresh_events seen (events_of_lines rt ty ls))"
proof -
  obtain c1 w1 q where run: "consume_lines rt ty ls 0 (c, w) = ((c1, w1), q)" by (metis prod.collapse)
  then obtain n where q: "q = Inr n" and fl: "flush_batch now (c1, w1) = (c', w')" "m = n"
    using assms(6) by (cases q) (simp_all add: consume_file_def)
  have l: "settings_kept c c1 \<and> w1 = fold (\<lambda>(t, e) w. fst (run_callbacks fs t e w)) (fresh_events seen (events_of_lines rt ty ls)) w \<and> n = 0 + length (fresh_events seen (events_of_lines rt ty ls))"
    by (rule lines_seen [OF assms(1-5) run [unfolded q]])
  then show ?thesis using flush_frame(4) [OF fl(1)] assms(3) fl(2) by (simp add: settings_kept_def)
qed

lemma fold_log: "fold (\<lambda>(t, e) w. w @ [(t, e)]) es w = w @ es"
  by (induction es arbitrary: w) auto

text \<open>
  C34. A consumer hands on each event once. When a log file is read within one lifetime of the cache and every line of it is read without an
  exception, a callback sees exactly the first event of each identifier, in the order of the file: no identifier
  twice, none missing, and the number returned is the number of events seen.
\<close>
theorem each_event_once:
  assumes "consume_file rt now ty (Some ls) (register_callback (\<lambda>t e w. (w @ [(t, e)], None)) (init_consumer t1 mode k iv True ttl), []) = ((c', w), Inr m)"
    and "\<forall>(t, l)\<in>set ls. t0 \<le> t \<and> t < t0 + ttl"
  shows "w = fresh_events [] (events_of_lines rt ty ls) \<and> m = length w \<and> distinct (map (\<lambda>(t, e). es_event_id e) w) \<and>
    set (map (\<lambda>(t, e). es_event_id e) w) = set (map (\<lambda>(t, e). es_event_id e) (events_of_lines rt ty ls))"
proof -
  let ?c = "register_callback (\<lambda>t e w. (w @ [(t, e)], None)) (init_consumer t1 mode k iv True ttl)"
  have "cn_dedup ?c" "cn_callbacks ?c = [\<lambda>t e w. (w @ [(t, e)], None)]" "cn_batch_callbacks ?c = []" "cn_ttl ?c = ttl"
    by (simp_all add: register_callback_def init_consumer_def)
  with file_seen [OF this(1-3) init_cache(2), of ls t0 rt now ty "[]" c' w m] assms
  have "w = fresh_events [] (events_of_lines rt ty ls)" "m = length (fresh_events [] (events_of_lines rt ty ls))"
    by (simp_all add: fold_log)
  then show ?thesis using fresh_events_ids [of "[]" "events_of_lines rt ty ls"] by simp
qed

subsection \<open>From the log to the trainer\<close>

lemma ingest_any:
  assumes "trainer_ok t"
  shows "\<exists>t' r. ingest_real_event sv now e t = (t', Inr r) \<and> trainer_ok t' \<and>
    map ee_event_id (tr_events t') = map ee_event_id (tr_events t) @ [sv_event_id e] \<and>
    ra_cases (tr_red t') = ra_cases (tr_red t) @ [convert_event_to_attack_case (sr_dumps sv) now e]"
proof -
  let ?r = "\<lparr>ig_event_id = sv_event_id e, ig_source = sv_source e, ig_severity = sv_severity e, ig_triggered = False, ig_actions = [], ig_deployment = None\<rparr>"
  obtain t1 r1 where 1: "learn_case (sr_dumps sv) now e (t, ?r) = (t1, r1)" by fastforce
  obtain t2 r2 where 2: "learn_rule (sr_digest sv) (sr_str sv) now e (t1, r1) = (t2, r2)" by fastforce
  have t2: "tr_red t2 = tr_red t1" "tr_events t2 = tr_events t1"
    using 2 deploy_evolved_frame(1,4) by (auto simp: learn_rule_def Let_def split: if_splits dest!: arg_cong [of _ "(_, _)" fst])
  have t1: "tr_red t1 = (tr_red t)\<lparr>ra_cases := ra_cases (tr_red t) @ [convert_event_to_attack_case (sr_dumps sv) now e]\<rparr>" "tr_events t1 = tr_events t"
    using 1 by (auto simp: learn_case_def Let_def)
  have "weights_ok (ra_weights (tr_red t2))" using assms t1 t2 by (simp add: trainer_ok_def)
  note a = adjust_weights_grown [OF this, of e r2]
  obtain t3 r3 where 3: "adjust_weights e (t2, r2) = (t3, Inr r3)" using a(3) by (cases "adjust_weights e (t2, r2)") auto
  have cases: "ra_cases (tr_red t3) = ra_cases (tr_red t2)" using 3 by (auto simp: adjust_weights_def Let_def split: if_splits)
  have "tr_events t3 = tr_events t2" using a(4) 3 by simp
  then show ?thesis using 1 2 3 t1 t2 cases ingest_ok [OF assms, of sv now e]
    by (auto simp: ingest_real_event_def Let_def record_event_history_def)
qed

lemma ingest_callback_any:
  assumes "trainer_ok t"
  shows "trainer_ok (fst (ingest_callback sv now e t)) \<and>
    map ee_event_id (tr_events (fst (ingest_callback sv now e t))) = map ee_event_id (tr_events t) @ [es_event_id e] \<and>
    map ak_case_id (ra_cases (tr_red (fst (ingest_callback sv now e t)))) = map ak_case_id (ra_cases (tr_red t)) @ [''real_'' @ es_event_id e]"
proof -
  obtain t' r where "ingest_real_event sv now (to_security_event e) t = (t', Inr r)" "trainer_ok t'"
    "map ee_event_id (tr_events t') = map ee_event_id (tr_events t) @ [es_event_id e]"
    "ra_cases (tr_red t') = ra_cases (tr_red t) @ [convert_event_to_attack_case (sr_dumps sv) now (to_security_event e)]"
    using ingest_any [OF assms, of sv now "to_security_event e"] by (auto simp: to_security_event_def)
  then show ?thesis
    by (simp add: ingest_callback_def ingest_escape_event_def trainer_ok_def convert_event_to_attack_case_def new_case_def to_security_event_def)
qed

lemma fold_ingest:
  "trainer_ok t \<Longrightarrow> t' = fold (\<lambda>(now, e) t. fst (ingest_callback sv now e t)) es t \<Longrightarrow>
   trainer_ok t' \<and> map ee_event_id (tr_events t') = map ee_event_id (tr_events t) @ map (\<lambda>(now, e). es_event_id e) es \<and>
   map ak_case_id (ra_cases (tr_red t')) = map ak_case_id (ra_cases (tr_red t)) @ map (\<lambda>(now, e). ''real_'' @ es_event_id e) es"
proof (induction es arbitrary: t)
  case (Cons a es)
  obtain now e where a: "a = (now, e)" by fastforce
  show ?case using Cons.IH [of "fst (ingest_callback sv now e t)"] ingest_callback_any [OF Cons.prems(1), of sv now e] Cons.prems(2) by (simp add: a)
qed simp

text \<open>
  C35. Signals reach the training. A trainer is trained from a log file over a new consumer that drops duplicates; every line is read without
  an exception and within one lifetime of the cache. If the trainer has never been connected to a consumer, every identifier in the file
  becomes exactly one entry of the trainer's history and one attack case, in the order of the file, whatever the rules, the bridge and the
  disk do meanwhile; and as many events are ingested as the consumer has consumed. If it has been connected to one before, whichever,
  the new one is not connected: the same number of events is consumed, and not one of them is ingested.
\<close>
theorem signals_reach_trainer:
  assumes "reachable trainer_fresh trainer_step t" "\<forall>(s, l)\<in>set ls. t0 \<le> s \<and> s < t0 + ttl"
    and "train_from_real_signals rt sv now joined n (Some ls) ty (init_consumer t1 mode k iv True ttl, t) = ((c', t'), Inr res)"
  shows "let consumed = fresh_events [] (events_of_lines rt ty ls); ingested = (if joined then [] else consumed)
    in map ee_event_id (tr_events t') = map ee_event_id (tr_events t) @ map (\<lambda>(s, e). es_event_id e) ingested \<and>
       map ak_case_id (ra_cases (tr_red t')) = map ak_case_id (ra_cases (tr_red t)) @ map (\<lambda>(s, e). ''real_'' @ es_event_id e) ingested \<and>
       tt_ingested res = int (length ingested) \<and> tt_consumed res = length consumed \<and> length (tt_results res) = n"
proof -
  let ?c = "if joined then init_consumer t1 mode k iv True ttl else connect_consumer sv (init_consumer t1 mode k iv True ttl)"
  let ?es = "fresh_events [] (events_of_lines rt ty ls)" and ?fs = "if joined then [] else [ingest_callback sv]"
  have c: "cn_dedup ?c" "cn_callbacks ?c = ?fs" "cn_batch_callbacks ?c = []" "cn_ttl ?c = ttl"
    by (simp_all add: connect_consumer_def register_callback_def init_consumer_def)
  have cache: "cache_of t0 [] ?c" by (simp add: connect_consumer_def init_cache)
  obtain m where run: "consume_file rt now ty (Some ls) (?c, t) = ((c', t'), Inr m)"
    and res: "tt_consumed res = m" "tt_ingested res = int (length (tr_events t')) - int (length (tr_events t))" "length (tt_results res) = n"
    using assms(3) by (auto simp: train_from_real_signals_def run_batch_training_def build_training_result_def split: prod.splits sum.splits)
  have t': "t' = fold (\<lambda>(s, e) t. fst (run_callbacks ?fs s e t)) ?es t" "m = length ?es"
    using file_seen [OF c(1-3) cache _ run] assms(2) by (simp_all add: c(4))
  show ?thesis
  proof (cases joined)
    case True
    have "fold (\<lambda>(s, e) t. t) es x = x" for es :: "(time \<times> escape_event) list" and x :: trainer by (induction es arbitrary: x) auto
    then have "t' = t" using t'(1) True by simp
    then show ?thesis using True res t'(2) by (simp add: Let_def)
  next
    case False
    then have t1: "t' = fold (\<lambda>(s, e) t. fst (ingest_callback sv s e t)) ?es t" using t'(1) by (simp add: case_prod_unfold Let_def)
    have ids: "map ee_event_id (tr_events t') = map ee_event_id (tr_events t) @ map (\<lambda>(s, e). es_event_id e) ?es"
      "map ak_case_id (ra_cases (tr_red t')) = map ak_case_id (ra_cases (tr_red t)) @ map (\<lambda>(s, e). ''real_'' @ es_event_id e) ?es"
      using fold_ingest [OF training.inv_reachable [OF assms(1)] t1] by simp_all
    have "length (tr_events t') = length (tr_events t) + m" using arg_cong [OF ids(1), of length] t'(2) by simp
    then show ?thesis using ids res t'(2) False by (simp add: Let_def)
  qed
qed

subsection \<open>Following a file\<close>

definition lines_of :: "string \<Rightarrow> string list" where
  "lines_of s = filter (\<lambda>l. \<not> blank l) (split_lines s)"

lemma split_lines_ne [simp]: "split_lines s \<noteq> []"
  by (cases s) (auto split: list.split)

lemma split_lines_append: "split_lines (a @ CHR 0x0A # b) = split_lines a @ split_lines b"
proof (induction a)
  case (Cons ch a)
  obtain l ls where "split_lines a = l # ls" using split_lines_ne [of a] by (cases "split_lines a") auto
  then show ?case using Cons.IH by simp
qed simp

lemma blank_Nil [simp]: "blank []"
  by (simp add: blank_def)

lemma lines_of_append:
  assumes "a = [] \<or> (\<exists>x. a = x @ [CHR 0x0A])"
  shows "lines_of (a @ b) = lines_of a @ lines_of b"
proof (cases "a = []")
  case False
  then obtain x where "a = x @ [CHR 0x0A]" using assms by blast
  then show ?thesis using split_lines_append [of x b] split_lines_append [of x "[]"] by (simp add: lines_of_def)
qed (simp add: lines_of_def)

text \<open>Rounds of reading, and a file that others only append whole lines to.\<close>

fun follow :: "log_file list \<Rightarrow> 'w consumer \<Rightarrow> 'w consumer \<times> string list" where
  "follow [] c = (c, [])"
| "follow (l # ls) c = (let (c1, xs) = read_new_lines (Some l) c; (c2, ys) = follow ls c1 in (c2, xs @ ys))"

definition whole_lines :: "string \<Rightarrow> bool" where
  "whole_lines s \<longleftrightarrow> s = [] \<or> (\<exists>x. s = x @ [CHR 0x0A])"

fun appended :: "log_file list \<Rightarrow> bool" where
  "appended (l # k # ls) \<longleftrightarrow> whole_lines (lf_text l) \<and>
     ((lf_text k = lf_text l \<and> lf_mtime k = lf_mtime l) \<or> (strict_prefix (lf_text l) (lf_text k) \<and> lf_mtime l < lf_mtime k)) \<and> appended (k # ls)"
| "appended ls \<longleftrightarrow> True"

definition caught_up :: "log_file \<Rightarrow> 'w consumer \<Rightarrow> bool" where
  "caught_up l c \<longleftrightarrow> cn_position c = length (lf_text l) \<and> cn_last_size c = length (lf_text l) \<and> cn_last_mtime c = lf_mtime l"

lemma read_appended:
  assumes "caught_up l c" "whole_lines (lf_text l)" "0 < lf_mtime l"
    and "(lf_text k = lf_text l \<and> lf_mtime k = lf_mtime l) \<or> (strict_prefix (lf_text l) (lf_text k) \<and> lf_mtime l < lf_mtime k)"
  shows "caught_up k (fst (read_new_lines (Some k) c))" "lines_of (lf_text k) = lines_of (lf_text l) @ snd (read_new_lines (Some k) c)"
proof -
  have "caught_up k (fst (read_new_lines (Some k) c)) \<and> lines_of (lf_text k) = lines_of (lf_text l) @ snd (read_new_lines (Some k) c)"
  proof (cases "lf_text k = lf_text l")
    case True
    then show ?thesis using assms(1,4) by (auto simp: caught_up_def read_new_lines_def Let_def)
  next
    case False
    then obtain x where x: "lf_text k = lf_text l @ x" "x \<noteq> []" using assms(4) by (auto elim: strict_prefixE')
    then show ?thesis using assms(1) lines_of_append [of "lf_text l" x] assms(2)
      by (simp add: caught_up_def read_new_lines_def Let_def whole_lines_def) (simp add: lines_of_def)
  qed
  then show "caught_up k (fst (read_new_lines (Some k) c))" "lines_of (lf_text k) = lines_of (lf_text l) @ snd (read_new_lines (Some k) c)" by simp_all
qed

lemma follow_caught_up:
  "caught_up l c \<Longrightarrow> 0 < lf_mtime l \<Longrightarrow> appended (l # ls) \<Longrightarrow>
   lines_of (lf_text (last (l # ls))) = lines_of (lf_text l) @ snd (follow ls c)"
proof (induction ls arbitrary: l c)
  case (Cons k ls)
  note r = read_appended [OF Cons.prems(1) _ Cons.prems(2), of k]
  have k: "whole_lines (lf_text l)" "(lf_text k = lf_text l \<and> lf_mtime k = lf_mtime l) \<or> (strict_prefix (lf_text l) (lf_text k) \<and> lf_mtime l < lf_mtime k)"
    "appended (k # ls)" "0 < lf_mtime k" using Cons.prems(2,3) by auto
  show ?case using Cons.IH [OF r(1) [OF k(1,2)] k(4,3)] r(2) [OF k(1,2)] by (simp add: case_prod_unfold Let_def)
qed simp

text \<open>
  What \<open>read_new_lines\<close> returns, round by round, from the beginning of a file to which only whole lines are appended: the lines
  of the file that are not blank. What becomes of the lines is the matter of \<open>watching_delivers_events\<close> and \<open>bad_line_drops_rest\<close>.
\<close>

lemma tail_reads_every_line:
  assumes "appended (l # ls)" "0 < lf_mtime l"
  shows "snd (follow (l # ls) (fst (start_realtime True (Some l) (init_consumer t1 mode k iv dd ttl :: 'w consumer)))) = lines_of (lf_text (last (l # ls)))"
proof -
  let ?c = "fst (start_realtime True (Some l) (init_consumer t1 mode k iv dd ttl :: 'w consumer))"
  have "caught_up l (fst (read_new_lines (Some l) ?c))" "snd (read_new_lines (Some l) ?c) = lines_of (lf_text l)"
    by (auto simp: start_realtime_def init_consumer_def read_new_lines_def Let_def caught_up_def lines_of_def)
  then show ?thesis using follow_caught_up [of l "fst (read_new_lines (Some l) ?c)" ls] assms
    by (simp add: case_prod_unfold Let_def)
qed

text \<open>A line that is written in two parts is read as two lines when a round comes between.\<close>

lemma torn_line:
  assumes "caught_up l c" "0 < lf_mtime l" "lf_mtime l < lf_mtime k1" "lf_mtime k1 < lf_mtime k2"
    and "lf_text k1 = lf_text l @ a" "lf_text k2 = lf_text l @ a @ b @ [CHR 0x0A]"
    and "\<not> blank a" "\<not> blank b" "CHR 0x0A \<notin> set a" "CHR 0x0A \<notin> set b"
  shows "snd (follow [k1, k2] c) = [a, b]"
proof -
  have one: "split_lines x = [x]" if "CHR 0x0A \<notin> set x" for x using that by (induction x) auto
  have ends: "split_lines (b @ [CHR 0x0A]) = [b, []]" using split_lines_append [of b "[]"] one [OF assms(10)] by simp
  have ne: "a \<noteq> []" using assms(7) by auto
  show ?thesis using assms(1-8) ne one [OF assms(9)] ends by (simp add: read_new_lines_def Let_def caught_up_def)
qed

subsection \<open>A line that is no object\<close>

lemma watch_lines_append:
  "watch_lines rt json_of now ty (xs @ ys) s =
     (case watch_lines rt json_of now ty xs s of (s1, False) \<Rightarrow> (s1, False) | (s1, True) \<Rightarrow> watch_lines rt json_of now ty ys s1)"
  by (induction xs arbitrary: s) (auto split: prod.split sum.split)

definition no_object :: "log_line \<Rightarrow> bool" where
  "no_object l \<longleftrightarrow> (\<exists>v. l = L_Json v \<and> (\<forall>d. v \<noteq> JObj d))"

lemma no_object_raises: "no_object l \<Longrightarrow> event_of_line rt ty now l = Inl AttributeError"
proof -
  assume "no_object l"
  then obtain v where v: "l = L_Json v" "\<forall>d. v \<noteq> JObj d" by (auto simp: no_object_def)
  then have "seccomp_line rt now l = Inl AttributeError" "vmexit_line rt now l = Inl AttributeError"
    by (cases v; simp add: seccomp_line_def vmexit_line_def)+
  then show ?thesis by (simp add: event_of_line_def parse_signal_def Let_def)
qed

lemma process_signal_file:
  "cn_position (fst (fst (process_signal now e (c, w)))) = cn_position c \<and> cn_last_size (fst (fst (process_signal now e (c, w)))) = cn_last_size c \<and>
   cn_last_mtime (fst (fst (process_signal now e (c, w)))) = cn_last_mtime c \<and> cn_lines (fst (fst (process_signal now e (c, w)))) = cn_lines c"
  by (simp add: process_signal_def Let_def flush_batch_def mark_seen_def cleanup_dedup_cache_def upd_stats_def count_errors_def case_prod_unfold)

lemma consume_line_file:
  assumes "consume_line rt now ty line (c, w) = ((c', w'), q)"
  shows "cn_position c' = cn_position c \<and> cn_last_size c' = cn_last_size c \<and> cn_last_mtime c' = cn_last_mtime c \<and> cn_lines c' = cn_lines c"
proof -
  obtain c1 p where p: "parse_signal rt now ty line c = (c1, p)" by fastforce
  then have c1: "cn_position c1 = cn_position c" "cn_last_size c1 = cn_last_size c" "cn_last_mtime c1 = cn_last_mtime c" "cn_lines c1 = cn_lines c"
    using parse_signal_frame [of c rt now ty line] by (auto simp: same_but_stats_def)
  consider x where "p = Inl x" | "p = Inr None" | e where "p = Inr (Some e)" by (metis option.exhaust sum.exhaust)
  then show ?thesis
  proof cases
    case (3 e)
    then show ?thesis using assms p c1 process_signal_file [of now e c1 w] by (auto simp: consume_line_def case_prod_unfold Let_def)
  qed (use assms p c1 in \<open>auto simp: consume_line_def\<close>)
qed

lemma watch_lines_file:
  "watch_lines rt json_of now ty ls (c, w) = ((c', w'), ok) \<Longrightarrow>
   cn_position c' = cn_position c \<and> cn_last_size c' = cn_last_size c \<and> cn_last_mtime c' = cn_last_mtime c"
proof (induction ls arbitrary: c w)
  case (Cons l ls)
  obtain c1 w1 q where q: "consume_line rt now ty (json_of l) (c, w) = ((c1, w1), q)" by (metis prod.collapse)
  note line = consume_line_file [OF q]
  show ?case
  proof (cases q)
    case (Inl x)
    then show ?thesis using Cons.prems q line by simp
  next
    case (Inr e)
    then show ?thesis using Cons.IH [of "c1\<lparr>cn_lines := cn_lines c1 + 1\<rparr>" w1] Cons.prems q line by simp
  qed
qed simp

lemma bad_line_stops: "no_object (json_of bad) \<Longrightarrow> \<not> snd (watch_lines rt json_of now ty (pre @ [bad]) s)"
proof -
  assume "no_object (json_of bad)"
  then have "\<not> snd (watch_lines rt json_of now ty [bad] (c, w))" for c :: "'a consumer" and w
    using no_object_raises [of "json_of bad" rt ty now] parse_signal_event [of rt now ty "json_of bad" c]
    by (auto simp: consume_line_def split: prod.split sum.split option.split)
  then show ?thesis by (simp add: watch_lines_append split: prod.split bool.split)
qed

text \<open>
  C37. One bad line costs the lines after it. When a round of watching reads a line that is JSON but no object, the consumer and what its
  callbacks work on become what the lines up to this one make of them, one error is counted and the watching goes on; but the
  position is at the end of the file, so the next round reads nothing: the lines that follow are never seen.
\<close>
theorem bad_line_drops_rest:
  assumes "read_new_lines (Some l) c = (c1, pre @ bad # rest)" "no_object (json_of bad)" "wa_inode v = Some (lf_inode l)"
    and "watch_lines rt json_of now ty (pre @ [bad]) (c1, w) = ((c2, w2), ok)"
  shows "watch_round rt json_of now ty (Some l) (v, c, w) = ((\<lparr>wa_inode = Some (lf_inode l), wa_errors = 1\<rparr>, count_errors 1 c2, w2), True) \<and>
    snd (read_new_lines (Some l) (count_errors 1 c2)) = []"
proof -
  have ok: "\<not> ok" using bad_line_stops [of json_of bad rt now ty pre "(c1, w)"] assms(2,4) by simp
  have all: "watch_lines rt json_of now ty (pre @ bad # rest) (c1, w) = ((c2, w2), False)"
    using watch_lines_append [of rt json_of now ty "pre @ [bad]" rest "(c1, w)"] assms(4) ok by simp
  have c1: "cn_position c1 = length (lf_text l)" "cn_last_mtime c1 = lf_mtime l" "cn_last_size c1 = length (lf_text l)"
    using assms(1) by (auto simp: read_new_lines_def Let_def split: if_splits)
  have "snd (read_new_lines (Some l) (count_errors 1 c2)) = []"
    using watch_lines_file [OF assms(4)] c1 by (simp add: read_new_lines_def Let_def count_errors_def upd_stats_def)
  then show ?thesis using assms(1,3) all by (simp add: watch_round_def Let_def)
qed

subsection \<open>The rounds of watching\<close>

text \<open>The rounds in which the file is found, and the lines that arrive, each with the time of the round that reads it.\<close>

fun watch_rounds :: "runtime \<Rightarrow> (string \<Rightarrow> log_line) \<Rightarrow> signal_type option \<Rightarrow> (time \<times> log_file) list \<Rightarrow> watcher \<times> 'w consumer \<times> 'w \<Rightarrow>
    watcher \<times> 'w consumer \<times> 'w" where
  "watch_rounds rt json_of ty [] s = s"
| "watch_rounds rt json_of ty ((now, l) # rs) s = watch_rounds rt json_of ty rs (fst (watch_round rt json_of now ty (Some l) s))"

fun arrivals :: "string \<Rightarrow> (time \<times> log_file) list \<Rightarrow> (time \<times> string) list" where
  "arrivals old [] = []"
| "arrivals old ((now, l) # rs) = map (Pair now) (lines_of (drop (length old) (lf_text l))) @ arrivals (lf_text l) rs"

definition arrived_events :: "runtime \<Rightarrow> (string \<Rightarrow> log_line) \<Rightarrow> signal_type option \<Rightarrow> (time \<times> string) list \<Rightarrow> (time \<times> escape_event) list" where
  "arrived_events rt json_of ty xs = events_of_lines rt ty (map (\<lambda>(t, l). (t, json_of l)) xs)"

definition no_raise :: "runtime \<Rightarrow> (string \<Rightarrow> log_line) \<Rightarrow> signal_type option \<Rightarrow> (time \<times> string) list \<Rightarrow> bool" where
  "no_raise rt json_of ty xs \<longleftrightarrow> (\<forall>(t, l)\<in>set xs. case event_of_line rt ty t (json_of l) of Inl x \<Rightarrow> False | Inr q \<Rightarrow> True)"

definition seen_after :: "string list \<Rightarrow> (time \<times> escape_event) list \<Rightarrow> string list" where
  "seen_after seen es = rev (map (\<lambda>(t, e). es_event_id e) (fresh_events seen es)) @ seen"

lemma fresh_events_append: "fresh_events seen (xs @ ys) = fresh_events seen xs @ fresh_events (seen_after seen xs) ys"
  by (induction seen xs rule: fresh_events.induct) (simp_all add: seen_after_def)

lemma seen_after_append: "seen_after seen (xs @ ys) = seen_after (seen_after seen xs) ys"
  by (simp add: seen_after_def [of seen "xs @ ys"] fresh_events_append) (simp add: seen_after_def)

lemma arrived_append: "arrived_events rt json_of ty (xs @ ys) = arrived_events rt json_of ty xs @ arrived_events rt json_of ty ys"
  by (simp add: arrived_events_def events_of_lines_def)

text \<open>A consumer with the given callbacks whose cache holds the given identifiers.\<close>

definition ready :: "time \<Rightarrow> string list \<Rightarrow> rat \<Rightarrow> (escape_event, 'w) callback list \<Rightarrow> 'w consumer \<Rightarrow> bool" where
  "ready t0 seen ttl fs c \<longleftrightarrow> cn_dedup c \<and> cn_callbacks c = fs \<and> cn_batch_callbacks c = [] \<and> cn_ttl c = ttl \<and> cache_of t0 seen c"

lemma line_arrives:
  assumes "ready t0 seen ttl fs c" "t0 \<le> now" "now < t0 + ttl" "no_raise rt json_of ty [(now, l)]"
    and "consume_line rt now ty (json_of l) (c, w) = ((c', w'), q)"
  shows "\<exists>x. q = Inr x" "ready t0 (seen_after seen (arrived_events rt json_of ty [(now, l)])) ttl fs c'"
    "w' = fold (\<lambda>(t, e) w. fst (run_callbacks fs t e w)) (fresh_events seen (arrived_events rt json_of ty [(now, l)])) w"
proof -
  obtain c1 where p: "parse_signal rt now ty (json_of l) c = (c1, event_of_line rt ty now (json_of l))" and s: "same_but_stats c c1"
    using parse_signal_event [of rt now ty "json_of l" c] parse_signal_frame [of c rt now ty "json_of l"] by (metis prod.collapse)
  have c1: "cn_dedup c1" "cn_callbacks c1 = fs" "cn_batch_callbacks c1 = []" "cache_of t0 seen c1" "cn_ttl c1 = ttl"
    using s assms(1) by (auto simp: same_but_stats_def ready_def cache_of_def)
  have "(\<exists>x. q = Inr x) \<and> ready t0 (seen_after seen (arrived_events rt json_of ty [(now, l)])) ttl fs c' \<and>
    w' = fold (\<lambda>(t, e) w. fst (run_callbacks fs t e w)) (fresh_events seen (arrived_events rt json_of ty [(now, l)])) w"
  proof (cases "event_of_line rt ty now (json_of l)")
    case (Inl x)
    then show ?thesis using assms(4) by (simp add: no_raise_def)
  next
    case (Inr oe)
    show ?thesis
    proof (cases oe)
      case None
      then have ev: "event_of_line rt ty now (json_of l) = Inr None" using Inr by simp
      then have "arrived_events rt json_of ty [(now, l)] = []" by (simp add: arrived_events_def events_of_lines_def)
      moreover have "q = Inr None" "c' = c1" "w' = w" using assms(5) p unfolding ev by (simp_all add: consume_line_def)
      ultimately show ?thesis using c1 by (simp add: seen_after_def ready_def)
    next
      case (Some e)
      obtain c2 w2 ok where pe: "process_signal now e (c1, w) = ((c2, w2), ok)" by (metis prod.collapse)
      have ev: "event_of_line rt ty now (json_of l) = Inr (Some e)" using Inr Some by simp
      have "now < t0 + cn_ttl c1" using assms(3) c1(5) by simp
      note r = process_signal_cases [OF c1(1-4) assms(2) this pe]
      have "ready t0 (if ok then es_event_id e # seen else seen) ttl fs c2"
        using r(1,3) c1 by (simp add: ready_def settings_kept_def)
      moreover have "arrived_events rt json_of ty [(now, l)] = [(now, e)]" using ev by (simp add: arrived_events_def events_of_lines_def)
      moreover have "q = Inr (if ok then Some e else None)" "c' = c2" "w' = w2"
        using assms(5) p pe unfolding ev by (simp_all add: consume_line_def)
      ultimately show ?thesis using r(2,4) by (cases "es_event_id e \<in> set seen") (simp_all add: seen_after_def)
    qed
  qed
  then show "\<exists>x. q = Inr x" "ready t0 (seen_after seen (arrived_events rt json_of ty [(now, l)])) ttl fs c'"
    "w' = fold (\<lambda>(t, e) w. fst (run_callbacks fs t e w)) (fresh_events seen (arrived_events rt json_of ty [(now, l)])) w" by blast+
qed

lemma ready_lines [simp]: "ready t0 seen ttl fs (c\<lparr>cn_lines := n\<rparr>) = ready t0 seen ttl fs c"
  by (simp add: ready_def cache_of_def)

lemma lines_arrive:
  assumes "ready t0 seen ttl fs c" "t0 \<le> now" "now < t0 + ttl" "no_raise rt json_of ty (map (Pair now) ls)"
    and "watch_lines rt json_of now ty ls (c, w) = ((c', w'), ok)"
  shows "ok \<and> ready t0 (seen_after seen (arrived_events rt json_of ty (map (Pair now) ls))) ttl fs c' \<and>
    w' = fold (\<lambda>(t, e) w. fst (run_callbacks fs t e w)) (fresh_events seen (arrived_events rt json_of ty (map (Pair now) ls))) w \<and>
    cn_lines c' = cn_lines c + int (length ls)"
  using assms(1,4,5)
proof (induction ls arbitrary: c w seen)
  case Nil
  then show ?case by (simp add: arrived_events_def events_of_lines_def seen_after_def)
next
  case (Cons l ls)
  obtain c1 w1 q where q: "consume_line rt now ty (json_of l) (c, w) = ((c1, w1), q)" by (metis prod.collapse)
  have nr: "no_raise rt json_of ty [(now, l)]" "no_raise rt json_of ty (map (Pair now) ls)" using Cons.prems(2) by (simp_all add: no_raise_def)
  note one = line_arrives [OF Cons.prems(1) assms(2,3) nr(1) q]
  obtain x where x: "q = Inr x" using one(1) by blast
  let ?c = "c1\<lparr>cn_lines := cn_lines c1 + 1\<rparr>"
  have run: "watch_lines rt json_of now ty ls (?c, w1) = ((c', w'), ok)" using Cons.prems(3) q x by simp
  have cl: "cn_lines c1 = cn_lines c" using consume_line_file [OF q] by simp
  have ap: "arrived_events rt json_of ty (map (Pair now) (l # ls)) =
      arrived_events rt json_of ty [(now, l)] @ arrived_events rt json_of ty (map (Pair now) ls)"
    using arrived_append [of rt json_of ty "[(now, l)]" "map (Pair now) ls"] by simp
  have "ready t0 (seen_after seen (arrived_events rt json_of ty [(now, l)])) ttl fs ?c" using one(2) by simp
  note ih = Cons.IH [OF this nr(2) run]
  show ?case unfolding ap fresh_events_append seen_after_append fold_append o_apply using ih one(3) cl by simp
qed

lemma round_arrives:
  assumes "ready t0 seen ttl fs c" "t0 \<le> now" "now < t0 + ttl" "no_raise rt json_of ty (map (Pair now) ls)"
    and "wa_inode v = None \<or> wa_inode v = Some (lf_inode l)" "read_new_lines (Some l) c = (c1, ls)" "caught_up l c1"
    and "fst (watch_round rt json_of now ty (Some l) (v, c, w)) = (v', c', w')"
  shows "wa_inode v' = Some (lf_inode l)" "caught_up l c'"
    "ready t0 (seen_after seen (arrived_events rt json_of ty (map (Pair now) ls))) ttl fs c'"
    "w' = fold (\<lambda>(t, e) w. fst (run_callbacks fs t e w)) (fresh_events seen (arrived_events rt json_of ty (map (Pair now) ls))) w"
    "cn_lines c' = cn_lines c + int (length ls)"
proof -
  have same: "cn_lines c1 = cn_lines c" "ready t0 seen ttl fs c1"
    using assms(1,6) by (auto simp: read_new_lines_def Let_def ready_def cache_of_def split: if_splits)
  obtain c2 w2 ok where w: "watch_lines rt json_of now ty ls (c1, w) = ((c2, w2), ok)" by (metis prod.collapse)
  note a = lines_arrive [OF same(2) assms(2-4) w]
  have e: "v' = \<lparr>wa_inode = Some (lf_inode l), wa_errors = 0\<rparr>" "c' = c2" "w' = w2"
    using assms(5,6,8) w a by (auto simp: watch_round_def Let_def)
  show "wa_inode v' = Some (lf_inode l)" "caught_up l c'"
    "ready t0 (seen_after seen (arrived_events rt json_of ty (map (Pair now) ls))) ttl fs c'"
    "w' = fold (\<lambda>(t, e) w. fst (run_callbacks fs t e w)) (fresh_events seen (arrived_events rt json_of ty (map (Pair now) ls))) w"
    "cn_lines c' = cn_lines c + int (length ls)"
    using e a same(1) watch_lines_file [OF w] assms(7) by (simp_all add: caught_up_def)
qed

lemma rounds_arrive:
  assumes "appended (l0 # map snd rs)" "0 < lf_mtime l0" "caught_up l0 c" "wa_inode v = Some n" "\<forall>(now, l)\<in>set rs. lf_inode l = n \<and> t0 \<le> now \<and> now < t0 + ttl"
    and "ready t0 seen ttl fs c" "no_raise rt json_of ty (arrivals (lf_text l0) rs)"
    and "watch_rounds rt json_of ty rs (v, c, w) = (v', c', w')"
  shows "lines_of (lf_text (last (l0 # map snd rs))) = lines_of (lf_text l0) @ map snd (arrivals (lf_text l0) rs) \<and>
    w' = fold (\<lambda>(t, e) w. fst (run_callbacks fs t e w)) (fresh_events seen (arrived_events rt json_of ty (arrivals (lf_text l0) rs))) w \<and>
    cn_lines c' = cn_lines c + int (length (arrivals (lf_text l0) rs))"
  using assms
proof (induction rs arbitrary: l0 c v w seen)
  case Nil
  then show ?case by (simp add: arrived_events_def events_of_lines_def)
next
  case (Cons a rs)
  obtain now l where a: "a = (now, l)" by fastforce
  have k: "whole_lines (lf_text l0)" "(lf_text l = lf_text l0 \<and> lf_mtime l = lf_mtime l0) \<or> (strict_prefix (lf_text l0) (lf_text l) \<and> lf_mtime l0 < lf_mtime l)"
    "appended (l # map snd rs)" "0 < lf_mtime l" using Cons.prems(1,2) by (auto simp: a)
  obtain c1 ls where rd: "read_new_lines (Some l) c = (c1, ls)" by fastforce
  note r = read_appended [OF Cons.prems(3) k(1) Cons.prems(2) k(2), unfolded rd fst_conv snd_conv]
  obtain x where x: "lf_text l = lf_text l0 @ x" using k(2) by (auto elim: strict_prefixE')
  have "lines_of (lf_text l) = lines_of (lf_text l0) @ lines_of x"
    unfolding x using lines_of_append [of "lf_text l0" x] k(1) by (simp add: whole_lines_def)
  then have ls: "ls = lines_of (drop (length (lf_text l0)) (lf_text l))" using r(2) by (simp add: x)
  define A where "A = map (Pair now) ls"
  define B where "B = arrivals (lf_text l) rs"
  have ab: "arrivals (lf_text l0) (a # rs) = A @ B" by (simp add: a A_def B_def ls)
  have nr: "no_raise rt json_of ty A" "no_raise rt json_of ty B" using Cons.prems(7) unfolding ab by (simp_all add: no_raise_def)
  have n: "lf_inode l = n" "t0 \<le> now" "now < t0 + ttl" "\<forall>(now, l)\<in>set rs. lf_inode l = n \<and> t0 \<le> now \<and> now < t0 + ttl"
    using Cons.prems(5) by (simp_all add: a)
  obtain v1 c2 w1 where rnd: "fst (watch_round rt json_of now ty (Some l) (v, c, w)) = (v1, c2, w1)" by (metis prod_cases3)
  have "wa_inode v = None \<or> wa_inode v = Some (lf_inode l)" using Cons.prems(4) n(1) by simp
  note one = round_arrives [OF Cons.prems(6) n(2,3) nr(1) [unfolded A_def] this rd r(1) rnd, folded A_def]
  have run: "watch_rounds rt json_of ty rs (v1, c2, w1) = (v', c', w')" using Cons.prems(8) rnd by (simp add: a)
  note ih = Cons.IH [OF k(3,4) one(2) one(1) [unfolded n(1)] n(4) one(3) nr(2) [unfolded B_def] run, folded B_def]
  have "lines_of (lf_text (last (l # map snd rs))) = lines_of (lf_text l0) @ map snd (A @ B)"
    using ih r(2) by (simp add: A_def comp_def)
  then show ?case unfolding ab arrived_append fresh_events_append fold_append o_apply using ih one(4,5) by (simp add: a A_def)
qed

text \<open>
  C36. Watching a growing file hands on its events, each once. A new consumer that drops duplicates watches a file from its beginning,
  by the rounds of the loop of the watching thread. Between the rounds others only append whole lines to the same file, with a later
  time of change each time; no line raises, and all rounds lie within one lifetime of the cache. Then the lines that arrive,
  over all rounds, are exactly the lines of the file that are not blank, in their order; each of them is parsed
  and counted; and a callback sees exactly the first event of each identifier in them, in that order.
\<close>
theorem watching_delivers_events:
  assumes "appended (map snd ((now, l) # rs))" "0 < lf_mtime l"
    and "\<forall>(s, k)\<in>set ((now, l) # rs). lf_inode k = lf_inode l \<and> t0 \<le> s \<and> s < t0 + ttl"
    and "\<forall>(s, x)\<in>set (arrivals [] ((now, l) # rs)). \<forall>e. event_of_line rt ty s (json_of x) \<noteq> Inl e"
    and "watch_rounds rt json_of ty ((now, l) # rs) (\<lparr>wa_inode = None, wa_errors = 0\<rparr>,
      fst (start_realtime True (Some l) (register_callback (\<lambda>t e w. (w @ [(t, e)], None)) (init_consumer t1 mode k iv True ttl))), []) = (v, c, w)"
  shows "map snd (arrivals [] ((now, l) # rs)) = lines_of (lf_text (snd (last ((now, l) # rs)))) \<and>
    cn_lines c = int (length (arrivals [] ((now, l) # rs))) \<and>
    w = fresh_events [] (events_of_lines rt ty (map (\<lambda>(s, x). (s, json_of x)) (arrivals [] ((now, l) # rs)))) \<and>
    distinct (map (\<lambda>(s, e). es_event_id e) w)"
proof -
  let ?log = "\<lambda>t e w. (w @ [(t, e)], None)"
  let ?c = "fst (start_realtime True (Some l) (register_callback ?log (init_consumer t1 mode k iv True ttl)))"
  define A where "A = map (Pair now) (lines_of (lf_text l))"
  define B where "B = arrivals (lf_text l) rs"
  have ab: "arrivals [] ((now, l) # rs) = A @ B" by (simp add: A_def B_def)
  have nr: "no_raise rt json_of ty A" "no_raise rt json_of ty B"
    using assms(4) unfolding ab by (force simp: no_raise_def split: sum.split)+
  have c: "ready t0 [] ttl [?log] ?c" "cn_lines ?c = 0"
    by (simp_all add: ready_def start_realtime_def cache_of_def register_callback_def init_consumer_def)
  have "caught_up l (fst (read_new_lines (Some l) ?c))" "snd (read_new_lines (Some l) ?c) = lines_of (lf_text l)"
    by (auto simp: start_realtime_def register_callback_def init_consumer_def read_new_lines_def Let_def caught_up_def lines_of_def)
  then obtain c1 where rd: "read_new_lines (Some l) ?c = (c1, lines_of (lf_text l))" "caught_up l c1" by (metis prod.collapse)
  have n: "t0 \<le> now" "now < t0 + ttl" "\<forall>(s, k)\<in>set rs. lf_inode k = lf_inode l \<and> t0 \<le> s \<and> s < t0 + ttl" using assms(3) by simp_all
  obtain v1 c2 w1 where rnd: "fst (watch_round rt json_of now ty (Some l) (\<lparr>wa_inode = None, wa_errors = 0\<rparr>, ?c, [])) = (v1, c2, w1)" by (metis prod_cases3)
  have "wa_inode \<lparr>wa_inode = None, wa_errors = 0\<rparr> = None \<or> wa_inode \<lparr>wa_inode = None, wa_errors = 0\<rparr> = Some (lf_inode l)" by simp
  note one = round_arrives [OF c(1) n(1,2) nr(1) [unfolded A_def] this rd rnd, folded A_def]
  have run: "watch_rounds rt json_of ty rs (v1, c2, w1) = (v, c, w)" using assms(5) rnd by simp
  have "appended (l # map snd rs)" using assms(1) by simp
  note more = rounds_arrive [OF this assms(2) one(2) one(1) n(3) one(3) nr(2) [unfolded B_def] run, folded B_def]
  have lines: "map snd (A @ B) = lines_of (lf_text (snd (last ((now, l) # rs))))"
    using more by (cases "rs = []") (simp_all add: A_def comp_def last_map)
  have w: "w = fresh_events [] (arrived_events rt json_of ty (A @ B))"
    unfolding arrived_append fresh_events_append using more one(4) by (simp add: fold_log)
  show ?thesis unfolding ab using lines w more one(5) c(2) fresh_events_ids [of "[]" "arrived_events rt json_of ty (A @ B)"]
    by (simp add: arrived_events_def A_def)
qed

subsection \<open>Small logs\<close>

definition demo_signal :: "string \<Rightarrow> log_line" where
  "demo_signal eid = L_Json (JObj [(''event_type'', JStr ''SECCOMP''), (''event_id'', JStr eid), (''timestamp'', JInt 5), (''syscall'', JStr ''ptrace'')])"

definition demo_lines :: "(time \<times> log_line) list" where
  "demo_lines = [(5, demo_signal ''a''), (6, L_Blank), (7, demo_signal ''b''), (8, demo_signal ''a'')]"

lemma demo_signal_event:
  "\<exists>e. event_of_line demo_runtime None t (demo_signal eid) = Inr (Some e) \<and> es_event_id e = eid"
  by (simp add: event_of_line_def parse_signal_def demo_signal_def seccomp_line_def seccomp_signal_def signal_text_def upper_char_def dget_or_def fstr_def
      seccomp_escape_def py_float_def Let_def)

lemma lines_return:
  "\<forall>(t, l)\<in>set ls. \<forall>x. event_of_line rt ty t l \<noteq> Inl x \<Longrightarrow> \<exists>m. snd (consume_lines rt ty ls n (c, w)) = Inr m"
proof (induction ls arbitrary: n c w)
  case (Cons a ls)
  obtain now l where a: "a = (now, l)" by fastforce
  obtain c1 p where p: "parse_signal rt now ty l c = (c1, p)" by fastforce
  then have "p = event_of_line rt ty now l" using parse_signal_event [of rt now ty l c] by simp
  then have "p \<noteq> Inl x" for x using Cons.prems by (simp add: a)
  then obtain o1 where "p = Inr o1" by (metis sum.exhaust)
  then obtain c2 w2 e where "consume_line rt now ty l (c, w) = ((c2, w2), Inr e)"
    using p by (cases o1; cases "fst (process_signal now (the o1) (c1, w))") (simp_all add: consume_line_def case_prod_unfold Let_def)
  then show ?case using Cons by (simp add: a)
qed simp

lemma file_returns:
  "\<forall>(t, l)\<in>set ls. \<forall>x. event_of_line rt ty t l \<noteq> Inl x \<Longrightarrow> \<exists>m. snd (consume_file rt now ty (Some ls) (c, w)) = Inr m"
  using lines_return [of ls rt ty 0 c w] by (auto simp: consume_file_def split: prod.split)

lemma demo_lines_return: "\<forall>(t, l)\<in>set demo_lines. \<forall>x. event_of_line demo_runtime None t l \<noteq> Inl x"
proof -
  have "\<forall>x. event_of_line demo_runtime None t (demo_signal eid) \<noteq> Inl x" for t eid using demo_signal_event [of t eid] by auto
  moreover have "\<forall>x. event_of_line demo_runtime None 6 L_Blank \<noteq> Inl x"
    by (simp add: event_of_line_def parse_signal_def seccomp_line_def vmexit_line_def Let_def)
  ultimately show ?thesis by (simp add: demo_lines_def)
qed

theorem each_event_once_witness:
  "\<exists>c' w m. consume_file demo_runtime 9 None (Some demo_lines) (register_callback (\<lambda>t e w. (w @ [(t, e)], None)) (init_consumer 0 CM_Batch 50 30 True 60), []) =
     ((c', w), Inr m) \<and> map (\<lambda>(t, e). es_event_id e) w = [''a'', ''b'']"
proof -
  let ?run = "consume_file demo_runtime 9 None (Some demo_lines) (register_callback (\<lambda>t e w. (w @ [(t, e)], None)) (init_consumer 0 CM_Batch 50 30 True 60), [])"
  obtain a b a' where e: "event_of_line demo_runtime None 5 (demo_signal ''a'') = Inr (Some a)" "es_event_id a = ''a''"
    "event_of_line demo_runtime None 7 (demo_signal ''b'') = Inr (Some b)" "es_event_id b = ''b''"
    "event_of_line demo_runtime None 8 (demo_signal ''a'') = Inr (Some a')" "es_event_id a' = ''a''"
    using demo_signal_event by metis
  have blank: "event_of_line demo_runtime None 6 L_Blank = Inr None"
    by (simp add: event_of_line_def parse_signal_def seccomp_line_def vmexit_line_def Let_def)
  obtain c' w m where run: "?run = ((c', w), Inr m)" using file_returns [OF demo_lines_return] by (metis prod.collapse)
  have "\<forall>(t, l)\<in>set demo_lines. 0 \<le> t \<and> t < 0 + (60 :: rat)" by (simp add: demo_lines_def)
  from each_event_once [OF run this] have "w = fresh_events [] (events_of_lines demo_runtime None demo_lines)" by simp
  then have ids: "map (\<lambda>(t, e). es_event_id e) w = [''a'', ''b'']" using e blank by (simp add: events_of_lines_def demo_lines_def)
  show ?thesis by (intro exI conjI) (rule run, rule ids)
qed

definition demo_file :: "string \<Rightarrow> int \<Rightarrow> log_file" where
  "demo_file s m = \<lparr>lf_text = s, lf_mtime = m, lf_inode = 1\<rparr>"

theorem watching_delivers_events_witness:
  "\<exists>v c w. watch_rounds demo_runtime demo_signal None [(1, demo_file (''a'' @ [CHR 0x0A]) 1), (2, demo_file (''a'' @ [CHR 0x0A] @ ''b'' @ [CHR 0x0A] @ ''a'' @ [CHR 0x0A]) 2)]
     (\<lparr>wa_inode = None, wa_errors = 0\<rparr>, fst (start_realtime True (Some (demo_file (''a'' @ [CHR 0x0A]) 1))
       (register_callback (\<lambda>t e w. (w @ [(t, e)], None)) (init_consumer 0 CM_Realtime 50 30 True 60))), []) = (v, c, w) \<and>
     cn_lines c = 3 \<and> map (\<lambda>(t, e). (t, es_event_id e)) w = [(1, ''a''), (2, ''b'')]"
proof -
  let ?l = "demo_file (''a'' @ [CHR 0x0A]) 1" and ?k = "demo_file (''a'' @ [CHR 0x0A] @ ''b'' @ [CHR 0x0A] @ ''a'' @ [CHR 0x0A]) 2"
  have f: "appended (map snd [(1, ?l), (2, ?k)])" "0 < lf_mtime ?l" "\<forall>(s, k)\<in>set [(1, ?l), (2, ?k)]. lf_inode k = lf_inode ?l \<and> 0 \<le> s \<and> s < 0 + (60 :: rat)"
    by (simp_all add: demo_file_def whole_lines_def)
  have ar: "arrivals [] [(1, ?l), (2, ?k)] = [(1, ''a''), (2, ''b''), (2, ''a'')]"
    by (simp add: demo_file_def lines_of_def blank_def is_space_def)
  have nr: "\<forall>(s, x)\<in>set (arrivals [] [(1, ?l), (2, ?k)]). \<forall>e. event_of_line demo_runtime None s (demo_signal x) \<noteq> Inl e"
  proof -
    have "event_of_line demo_runtime None t (demo_signal eid) \<noteq> Inl e" for t eid e using demo_signal_event [of t eid] by auto
    then show ?thesis by blast
  qed
  obtain v c w where run: "watch_rounds demo_runtime demo_signal None [(1, ?l), (2, ?k)] (\<lparr>wa_inode = None, wa_errors = 0\<rparr>, fst (start_realtime True (Some ?l)
       (register_callback (\<lambda>t e w. (w @ [(t, e)], None)) (init_consumer 0 CM_Realtime 50 30 True 60))), []) = (v, c, w)" by (metis prod_cases3)
  note r = watching_delivers_events [OF f nr run, unfolded ar]
  obtain a b a' where e: "event_of_line demo_runtime None 1 (demo_signal ''a'') = Inr (Some a)" "es_event_id a = ''a''"
    "event_of_line demo_runtime None 2 (demo_signal ''b'') = Inr (Some b)" "es_event_id b = ''b''"
    "event_of_line demo_runtime None 2 (demo_signal ''a'') = Inr (Some a')" "es_event_id a' = ''a''"
    using demo_signal_event by metis
  have "w = [(1, a), (2, b)]" "cn_lines c = 3" using r e by (simp_all add: events_of_lines_def)
  then show ?thesis using run e by auto
qed

theorem bad_line_drops_rest_witness:
  "\<exists>c2 w2. watch_round demo_runtime (\<lambda>l. if l = ''5'' then L_Json (JInt 5) else demo_signal l) 1 None (Some (demo_file (''5'' @ [CHR 0x0A] @ ''a'') 1))
     (\<lparr>wa_inode = Some 1, wa_errors = 0\<rparr>, init_consumer 0 CM_Realtime 50 30 True 60 :: unit consumer, ()) =
     ((\<lparr>wa_inode = Some 1, wa_errors = 1\<rparr>, count_errors 1 c2, w2), True)"
proof -
  let ?c = "init_consumer 0 CM_Realtime 50 30 True 60 :: unit consumer" and ?l = "demo_file (''5'' @ [CHR 0x0A] @ ''a'') 1"
  let ?json = "\<lambda>l. if l = ''5'' then L_Json (JInt 5) else demo_signal l" and ?v = "\<lparr>wa_inode = Some 1, wa_errors = 0\<rparr>"
  obtain c1 where r: "read_new_lines (Some ?l) ?c = (c1, [] @ ''5'' # [''a''])"
    by (simp add: read_new_lines_def init_consumer_def demo_file_def Let_def blank_def is_space_def)
  obtain c2 w2 ok where s: "watch_lines demo_runtime ?json 1 None ([] @ [''5'']) (c1, ()) = ((c2, w2), ok)" by (metis prod.collapse)
  have "no_object (?json ''5'')" "wa_inode ?v = Some (lf_inode ?l)" by (auto simp: no_object_def demo_file_def)
  from bad_line_drops_rest [OF r this(1,2) s] show ?thesis by (auto simp: demo_file_def)
qed


theorem signals_reach_trainer_witness:
  "\<forall>joined. \<exists>c' t' res. train_from_real_signals demo_runtime demo_services 9 joined 3 (Some demo_lines) None
     (init_consumer 0 CM_Batch 50 30 True 60, demo_trainer (demo_base True)) = ((c', t'), Inr res) \<and>
     tt_consumed res = length (fresh_events [] (events_of_lines demo_runtime None demo_lines)) \<and>
     tt_ingested res = (if joined then 0 else int (tt_consumed res))"
proof
  fix joined :: bool
  let ?t = "demo_trainer (demo_base True)" and ?c = "init_consumer 0 CM_Batch 50 30 True 60"
  obtain c' t' m where "consume_file demo_runtime 9 None (Some demo_lines) (if joined then ?c else connect_consumer demo_services ?c, ?t) = ((c', t'), Inr m)"
    using file_returns [OF demo_lines_return] by (metis prod.collapse)
  then obtain res where run: "train_from_real_signals demo_runtime demo_services 9 joined 3 (Some demo_lines) None (?c, ?t) = ((c', t'), Inr res)"
    by (simp add: train_from_real_signals_def run_batch_training_def)
  have times: "\<forall>(s, l)\<in>set demo_lines. 0 \<le> s \<and> s < 0 + (60 :: rat)" by (simp add: demo_lines_def)
  show "\<exists>c' t' res. train_from_real_signals demo_runtime demo_services 9 joined 3 (Some demo_lines) None
     (?c, ?t) = ((c', t'), Inr res) \<and> tt_consumed res = length (fresh_events [] (events_of_lines demo_runtime None demo_lines)) \<and>
     tt_ingested res = (if joined then 0 else int (tt_consumed res))"
    using run signals_reach_trainer [OF demo_fresh times run] by (auto simp: Let_def)
qed

end
