(* ===== verification/Adversary_Loop.thy ===== *)
theory Adversary_Loop
  imports Adversary_Trainer Defense_Executor
begin

text \<open>
  \<open>evolution/adversary_loop_orchestrator.py\<close>: the loop from log events over training (\<open>Adversary_Trainer\<close>) to the
  deployment of rules (\<open>Defense_Executor\<close>). The log stream and the timer are callers: an event, an escape, a tick are operations.
  What setting up the log stream raises, the directory found for the configuration and the disk are arguments of
  \<open>start\<close>; the optional callbacks of the configuration are absent. \<open>orchestrator_ok\<close> is the invariant:
  the counts agree, the trainer is untouched by events, and in dry-run mode, as long as no write breaks off, every snapshot is what its file holds.
\<close>

subsection \<open>State\<close>

datatype loop_state = LS_Stopped | LS_Initializing | LS_Running | LS_Paused | LS_Error

datatype trigger_mode = TM_Event_Driven | TM_Timed | TM_Hybrid

record loop_config =
  lc_trigger :: trigger_mode
  lc_events_per_round :: int
  lc_rounds :: nat
  lc_auto_deploy :: bool
  lc_deploy_mode :: exec_mode
  lc_min_effectiveness :: rat
  lc_max_deploy :: nat
  lc_require_confirmation :: bool

definition default_config :: loop_config where
  "default_config = \<lparr>lc_trigger = TM_Hybrid, lc_events_per_round = 50, lc_rounds = 20, lc_auto_deploy = True, lc_deploy_mode = EM_DRY_RUN,
     lc_min_effectiveness = 6 / 10, lc_max_deploy = 10, lc_require_confirmation = True\<rparr>"

record loop_stats =
  ls_consumed :: int
  ls_rounds :: int
  ls_generated :: int
  ls_deployed :: int
  ls_failures :: int
  ls_rollbacks :: int
  ls_last_training :: time
  ls_last_deploy :: time
  ls_since_training :: int
  ls_errors :: int

record orchestrator =
  or_config :: loop_config
  or_state :: loop_state
  or_stats :: loop_stats
  or_start_time :: time
  or_trainer :: "trainer option"
  or_executor :: "executor option"
  or_running :: bool
  or_deployed :: "string list"

definition init_orchestrator :: "loop_config \<Rightarrow> orchestrator" where
  "init_orchestrator cfg =
     \<lparr>or_config = cfg, or_state = LS_Stopped,
      or_stats = \<lparr>ls_consumed = 0, ls_rounds = 0, ls_generated = 0, ls_deployed = 0, ls_failures = 0, ls_rollbacks = 0, ls_last_training = 0,
        ls_last_deploy = 0, ls_since_training = 0, ls_errors = 0\<rparr>,
      or_start_time = 0, or_trainer = None, or_executor = None, or_running = False, or_deployed = []\<rparr>"

definition loop_count :: "(loop_stats \<Rightarrow> loop_stats) \<Rightarrow> orchestrator \<Rightarrow> orchestrator" where
  "loop_count f s = s\<lparr>or_stats := f (or_stats s)\<rparr>"

definition loop_error :: "orchestrator \<Rightarrow> orchestrator" where
  "loop_error = loop_count (\<lambda>x. x\<lparr>ls_errors := ls_errors x + 1\<rparr>)"

subsection \<open>Start and stop\<close>

definition initialize_components :: "time \<Rightarrow> string \<Rightarrow> disk \<Rightarrow> orchestrator \<Rightarrow> orchestrator" where
  "initialize_components now dir dk s =
     s\<lparr>or_trainer := Some (init_trainer (init_red now ''red_agent_001'') (init_blue now ''blue_agent_001'') 100 True (2 / 10) True None False),
       or_executor := Some (init_executor dir (lc_deploy_mode (or_config s)) True True (lc_require_confirmation (or_config s)) dk)\<rparr>"

definition start_loop :: "time \<Rightarrow> string \<Rightarrow> disk \<Rightarrow> exc option \<Rightarrow> orchestrator \<Rightarrow> orchestrator \<times> bool" where
  "start_loop now dir dk setup s =
     (if or_state s = LS_Running then (s, False)
      else (let s1 = initialize_components now dir dk (s\<lparr>or_state := LS_Initializing, or_running := True, or_start_time := now\<rparr>)
            in case setup of
                 Some x \<Rightarrow> (loop_error (s1\<lparr>or_state := LS_Error\<rparr>), False)
               | None \<Rightarrow> (s1\<lparr>or_state := LS_Running\<rparr>, True)))"

definition stop_loop :: "orchestrator \<Rightarrow> orchestrator" where
  "stop_loop s = s\<lparr>or_running := False, or_state := LS_Stopped\<rparr>"

subsection \<open>Deployment\<close>

definition collect_deployable_rules :: "trainer \<Rightarrow> orchestrator \<Rightarrow> defense_rule list" where
  "collect_deployable_rules t s =
     take (lc_max_deploy (or_config s))
       (filter (\<lambda>r. dr_rule_id r \<notin> set (or_deployed s) \<and> \<not> dr_effectiveness r < lc_min_effectiveness (or_config s)) (ba_rules (tr_blue t)))"

record loop_services =
  lo_digest :: "string \<Rightarrow> time \<Rightarrow> string"
  lo_str :: "json \<Rightarrow> string"
  lo_now :: time

text \<open>A rule without updates is passed over; an exception counts as a failure and as an error.\<close>

definition deploy_single_rule :: "loop_services \<Rightarrow> executor \<Rightarrow> defense_rule \<Rightarrow> orchestrator \<Rightarrow> orchestrator" where
  "deploy_single_rule sv ex r s =
     (let us = generate_updates_from_rule (lo_digest sv) (lo_str sv) (lo_now sv) r None
      in if us = [] then s
         else (case execute_updates (map (\<lambda>u. (lo_now sv, lo_now sv, u)) us) ex of
             (ex', Inl e) \<Rightarrow> loop_error (loop_count (\<lambda>x. x\<lparr>ls_failures := ls_failures x + 1\<rparr>) (s\<lparr>or_executor := Some ex'\<rparr>))
           | (ex', Inr rs) \<Rightarrow>
               (if Photon_Prelude.count (\<lambda>q. xr_status q = ES_SUCCESS) rs > 0
                then loop_count (\<lambda>x. x\<lparr>ls_deployed := ls_deployed x + 1, ls_last_deploy := lo_now sv\<rparr>)
                       (s\<lparr>or_executor := Some ex', or_deployed := List.insert (dr_rule_id r) (or_deployed s)\<rparr>)
                else loop_count (\<lambda>x. x\<lparr>ls_failures := ls_failures x + 1\<rparr>) (s\<lparr>or_executor := Some ex'\<rparr>))))"

fun deploy_rules :: "loop_services \<Rightarrow> defense_rule list \<Rightarrow> orchestrator \<Rightarrow> orchestrator" where
  "deploy_rules sv [] s = s"
| "deploy_rules sv (r # rs) s =
     (case or_executor s of None \<Rightarrow> s | Some ex \<Rightarrow> deploy_rules sv rs (deploy_single_rule sv ex r s))"

definition auto_deploy_new_rules :: "loop_services \<Rightarrow> orchestrator \<Rightarrow> orchestrator" where
  "auto_deploy_new_rules sv s =
     (case (or_trainer s, or_executor s) of
        (Some t, Some ex) \<Rightarrow>
          (let rs = collect_deployable_rules t s
           in if rs = [] then s
              else loop_count (\<lambda>x. x\<lparr>ls_generated := ls_generated x + int (length rs)\<rparr>) (deploy_rules sv rs s))
      | _ \<Rightarrow> s)"

subsection \<open>Training\<close>

definition trigger_training :: "loop_services \<Rightarrow> (nat \<Rightarrow> round_draws) \<Rightarrow> bool \<Rightarrow> orchestrator \<Rightarrow> orchestrator" where
  "trigger_training sv ws urgent s =
     (case or_trainer s of
        None \<Rightarrow> s
      | Some t \<Rightarrow>
          if or_state s \<noteq> LS_Running then s
          else if ls_since_training (or_stats s) = 0 \<and> \<not> urgent then s
          else (let s1 = loop_count (\<lambda>x. x\<lparr>ls_since_training := 0\<rparr>) s;
                    rounds = (if urgent then min 10 (lc_rounds (or_config s)) else lc_rounds (or_config s))
                in case run_training ws (Some rounds) t of
                     (t', Inl e) \<Rightarrow> loop_error (s1\<lparr>or_trainer := Some t'\<rparr>)
                   | (t', Inr st) \<Rightarrow>
                       (let s2 = loop_count (\<lambda>x. x\<lparr>ls_rounds := ls_rounds x + int rounds, ls_last_training := lo_now sv\<rparr>) (s1\<lparr>or_trainer := Some t'\<rparr>)
                        in if lc_auto_deploy (or_config s) then auto_deploy_new_rules sv s2 else s2)))"

definition on_log_event :: "loop_services \<Rightarrow> (nat \<Rightarrow> round_draws) \<Rightarrow> orchestrator \<Rightarrow> orchestrator" where
  "on_log_event sv ws s =
     (let s1 = loop_count (\<lambda>x. x\<lparr>ls_consumed := ls_consumed x + 1, ls_since_training := ls_since_training x + 1\<rparr>) s
      in if lc_trigger (or_config s) \<in> {TM_Event_Driven, TM_Hybrid} \<and> ls_since_training (or_stats s1) \<ge> lc_events_per_round (or_config s)
         then trigger_training sv ws False s1 else s1)"

definition on_escape_event :: "loop_services \<Rightarrow> (nat \<Rightarrow> round_draws) \<Rightarrow> orchestrator \<Rightarrow> orchestrator" where
  "on_escape_event sv ws s = trigger_training sv ws True s"

definition timer_tick :: "loop_services \<Rightarrow> (nat \<Rightarrow> round_draws) \<Rightarrow> orchestrator \<Rightarrow> orchestrator" where
  "timer_tick sv ws s =
     (if or_running s \<and> or_state s = LS_Running \<and> lc_trigger (or_config s) \<in> {TM_Timed, TM_Hybrid} then trigger_training sv ws False s else s)"

text \<open>The number of rounds asked for stands in the configuration meanwhile.\<close>

definition trigger_manual_training :: "loop_services \<Rightarrow> (nat \<Rightarrow> round_draws) \<Rightarrow> nat option \<Rightarrow> orchestrator \<Rightarrow> orchestrator" where
  "trigger_manual_training sv ws rounds s =
     (case rounds of
        None \<Rightarrow> trigger_training sv ws True s
      | Some k \<Rightarrow>
          if k = 0 then trigger_training sv ws True s
          else (let s1 = trigger_training sv ws True (s\<lparr>or_config := (or_config s)\<lparr>lc_rounds := k\<rparr>\<rparr>)
                in s1\<lparr>or_config := (or_config s1)\<lparr>lc_rounds := lc_rounds (or_config s)\<rparr>\<rparr>))"

definition rollback_last_deployments :: "nat \<Rightarrow> orchestrator \<Rightarrow> orchestrator \<times> int" where
  "rollback_last_deployments k s =
     (case or_executor s of
        None \<Rightarrow> (s, 0)
      | Some ex \<Rightarrow> (let (ex', n) = rollback_last k ex
                 in (loop_count (\<lambda>x. x\<lparr>ls_rollbacks := ls_rollbacks x + n\<rparr>) (s\<lparr>or_executor := Some ex'\<rparr>), n)))"

record loop_report =
  lr_state :: loop_state
  lr_uptime :: rat
  lr_stats :: loop_stats
  lr_deployed_rules :: nat

definition loop_get_stats :: "time \<Rightarrow> orchestrator \<Rightarrow> loop_report" where
  "loop_get_stats now s =
     \<lparr>lr_state = or_state s, lr_uptime = (if or_start_time s \<noteq> 0 then now - or_start_time s else 0), lr_stats = or_stats s,
      lr_deployed_rules = length (or_deployed s)\<rparr>"

record loop_status =
  lt_state :: loop_state
  lt_trainer_ready :: bool
  lt_executor_mode :: string
  lt_auto_deploy :: bool
  lt_trigger :: trigger_mode
  lt_stats :: loop_report

definition loop_get_status :: "time \<Rightarrow> orchestrator \<Rightarrow> loop_status" where
  "loop_get_status now s =
     \<lparr>lt_state = or_state s, lt_trainer_ready = (or_trainer s \<noteq> None),
      lt_executor_mode = (case or_executor s of None \<Rightarrow> ''unknown'' | Some ex \<Rightarrow> mode_value (xe_mode ex)),
      lt_auto_deploy = lc_auto_deploy (or_config s), lt_trigger = lc_trigger (or_config s), lt_stats = loop_get_stats now s\<rparr>"

subsection \<open>What the loop may change\<close>

text \<open>A trainer that no event has reached.\<close>

definition own_case :: "attack_case \<Rightarrow> bool" where
  "own_case c \<longleftrightarrow> (\<exists>ch cs. ak_case_id c = ch # cs \<and> ch \<noteq> CHR ''r'')"

definition untouched :: "trainer \<Rightarrow> bool" where
  "untouched t \<longleftrightarrow> tr_events t = [] \<and> tr_signals t = 0 \<and> tr_high_signals t = 0 \<and> (\<forall>c\<in>set (ra_cases (tr_red t)). own_case c)"

lemma round_untouched:
  assumes "untouched t" "run_single_round w n t = Inr t'"
  shows "untouched t'"
proof -
  obtain red i where c: "choose_attack w t = Inr (red, i)" using assms(2) by (cases "choose_attack w t") (auto simp: run_single_round_def)
  obtain j where j: "select_attack_case (rw_now w) (rw_select w) (rw_pick w) (tr_red t) = Inr j"
    using c by (cases "select_attack_case (rw_now w) (rw_select w) (rw_pick w) (tr_red t)") (simp_all add: choose_attack_def)
  have "own_case (ra_cases (tr_red t) ! j)" using assms(1) selected_in_range [OF j] by (simp add: untouched_def)
  then have red: "\<forall>c\<in>set (ra_cases red). own_case c"
    using assms(1) c j by (auto simp: choose_attack_def untouched_def mutate_attack_case_def Let_def case_prod_unfold new_case_def own_case_def split: if_splits)
  then have own: "own_case (case_record_result (rw_now w) b (ra_cases red ! i))" for b
    using chosen_in_range(1) [OF c] by (auto simp: own_case_def case_record_result_def)
  have eq: "ra_cases (record_attack_result (rw_now w) i b red) = (ra_cases red)[i := case_record_result (rw_now w) b (ra_cases red ! i)]" for b
    by (simp add: record_attack_result_def Let_def)
  have "\<forall>c\<in>set (ra_cases (record_attack_result (rw_now w) i b red)). own_case c" for b
    unfolding eq by (rule all_update [OF red own])
  then show ?thesis using assms c by (auto simp: run_single_round_def Let_def untouched_def)
qed

lemma evolve_untouched: "untouched t \<Longrightarrow> evolve_weakest w i t = Inr t' \<Longrightarrow> untouched t'"
proof -
  assume u: "untouched t" and e: "evolve_weakest w i t = Inr t'"
  have "\<exists>b. t' = t\<lparr>tr_blue := b\<rparr>"
  proof (cases "t' = t")
    case True
    then have "t' = t\<lparr>tr_blue := tr_blue t\<rparr>" by simp
    then show ?thesis by blast
  next
    case False
    then obtain r where r: "first_best (\<lambda>r. - dr_effectiveness r) (ba_rules (tr_blue t)) = Some r"
      using e by (auto simp: evolve_weakest_def split: if_splits option.splits)
    then show ?thesis using e False
      by (cases "evolve_defense_rule (rw_now w) (rw_evolution w) r (tr_blue t)") (auto simp: evolve_weakest_def split: if_splits)
  qed
  then show "untouched t'" using u by (auto simp: untouched_def)
qed

lemma rounds_untouched: "untouched t \<Longrightarrow> untouched (fst (train_rounds ws i n t))"
proof (induction n arbitrary: i t)
  case (Suc n)
  show ?case
  proof (cases "run_single_round (ws i) i t")
    case (Inr t1)
    have u: "untouched t1" by (rule round_untouched [OF Suc.prems Inr])
    show ?thesis
    proof (cases "evolve_weakest (ws i) i t1")
      case r: (Inr t2)
      from Suc.IH [OF evolve_untouched [OF u r]] show ?thesis using Inr r by simp
    qed (use Inr u in simp)
  qed (use Suc.prems in simp)
qed simp

lemma training_untouched: "untouched t \<Longrightarrow> untouched (fst (run_training ws k t))"
  using rounds_untouched [of t ws 0 "rounds_to_run k t"] by (auto simp: run_training_def split: prod.split option.split)

text \<open>
  An executor on whose disk no write breaks off, one whose snapshots are then what the files hold, and one
  that has done nothing but add to its log.
\<close>

definition unbroken :: "executor \<Rightarrow> bool" where
  "unbroken ex \<longleftrightarrow> (\<forall>n. \<not> dk_breaks (xe_disk ex) n)"

definition only_logged :: "executor \<Rightarrow> executor \<Rightarrow> bool" where
  "only_logged ex ex' \<longleftrightarrow> same_files (xe_disk ex) (xe_disk ex') \<and>
     (\<forall>p. p \<noteq> audit_path (xe_config_dir ex) \<longrightarrow> dget (dk_logs (xe_disk ex')) p = dget (dk_logs (xe_disk ex)) p) \<and>
     (\<exists>xs. xe_audit ex' = xe_audit ex @ xs \<and> log_lines ex' = log_lines ex + length xs)"

definition files_kept :: "executor \<Rightarrow> executor \<Rightarrow> bool" where
  "files_kept ex ex' \<longleftrightarrow> xe_config_dir ex' = xe_config_dir ex \<and> xe_mode ex' = xe_mode ex \<and>
     dk_breaks (xe_disk ex') = dk_breaks (xe_disk ex) \<and> (unbroken ex \<longrightarrow> only_logged ex ex')"

definition faithful :: "executor \<Rightarrow> bool" where
  "faithful ex \<longleftrightarrow> (unbroken ex \<longrightarrow>
     (\<forall>r\<in>set (xe_history ex). \<forall>c. xr_snapshot r = Some c \<longrightarrow> file_at (xe_disk ex) (exec_path ex (xr_target r)) = Doc c))"

lemma files_kept_refl [simp]: "files_kept ex ex"
  by (simp add: files_kept_def only_logged_def)

lemma files_kept_unbroken: "files_kept a b \<Longrightarrow> unbroken b = unbroken a"
  by (simp add: files_kept_def unbroken_def)

lemma only_logged_trans: "only_logged a b \<Longrightarrow> only_logged b c \<Longrightarrow> xe_config_dir b = xe_config_dir a \<Longrightarrow> only_logged a c"
  by (fastforce simp: only_logged_def same_files_def)

lemma files_kept_trans: "files_kept a b \<Longrightarrow> files_kept b c \<Longrightarrow> files_kept a c"
  using only_logged_trans [of a b c] files_kept_unbroken [of a b] by (auto simp: files_kept_def)

lemma faithful_append:
  assumes "faithful ex" "files_kept ex ex'" "xe_history ex' = xe_history ex @ [r]" "\<forall>c. xr_snapshot r = Some c \<longrightarrow> file_at (xe_disk ex) (exec_path ex (xr_target r)) = Doc c"
  shows "faithful ex'"
  using assms files_kept_unbroken [OF assms(2)] by (auto simp: faithful_def files_kept_def only_logged_def same_files_def exec_path_def)

lemma faithful_same:
  assumes "faithful ex" "files_kept ex ex'" "xe_history ex' = xe_history ex"
  shows "faithful ex'"
  using assms files_kept_unbroken [OF assms(2)] by (auto simp: faithful_def files_kept_def only_logged_def same_files_def exec_path_def)

lemma finalize_kept:
  assumes "finalize_execution start fin r ex = (ex', q)"
  shows "files_kept ex ex' \<and> (xe_history ex' = xe_history ex \<or> (\<exists>r'. xe_history ex' = xe_history ex @ [r'] \<and> xr_snapshot r' = xr_snapshot r \<and> xr_target r' = xr_target r))"
proof -
  obtain dk e where a: "append_line (audit_path (xe_config_dir ex)) (xe_disk ex) = (dk, e)" by fastforce
  have "unbroken ex \<Longrightarrow> dget_or (dk_logs dk) (audit_path (xe_config_dir ex)) 0 = log_lines ex + (if e = None then 1 else 0)"
    using a by (auto simp: append_line_def unbroken_def log_lines_def dget_or_def dget_dset split: if_splits)
  then show ?thesis using assms a append_line_frame [OF a]
    by (cases e) (auto simp: finalize_execution_def Let_def files_kept_def only_logged_def same_files_def file_at_def log_lines_def)
qed

lemma failure_kept:
  assumes "handle_failure t (executor_backup t ex) e ex = (ex', st, err)"
  shows "files_kept ex ex' \<and> xe_history ex' = xe_history ex"
proof -
  have "unbroken ex \<Longrightarrow> same_files (xe_disk ex) (xe_disk ex')" using failure_keeps_files [OF refl assms] by (simp add: unbroken_def)
  moreover have "xe_config_dir ex' = xe_config_dir ex \<and> xe_mode ex' = xe_mode ex \<and> xe_history ex' = xe_history ex \<and> xe_audit ex' = xe_audit ex \<and>
      dk_breaks (xe_disk ex') = dk_breaks (xe_disk ex) \<and> dk_logs (xe_disk ex') = dk_logs (xe_disk ex)"
    using assms by (auto simp: handle_failure_def dest: write_file_frame split: option.splits if_splits prod.splits)
  ultimately show ?thesis by (simp add: files_kept_def only_logged_def log_lines_def)
qed

lemma dry_update_kept:
  assumes "xe_mode ex = EM_DRY_RUN" "faithful ex" "execute_update start fin u ex = (ex', q)"
  shows "files_kept ex ex' \<and> faithful ex'"
proof (cases "must_skip u ex")
  case True
  then have "files_kept ex ex'" "xe_history ex' = xe_history ex @ [(create_execution_result u)\<lparr>xr_status := ES_SKIPPED, xr_error := Needs_Confirmation\<rparr>]"
    using assms(3) by (auto simp: execute_update_def Let_def files_kept_def only_logged_def log_lines_def)
  then show ?thesis using faithful_append [OF assms(2)] by (simp add: create_execution_result_def)
next
  case ns: False
  let ?b = "executor_backup (cu_target u) ex"
  have b: "\<forall>c. ?b = Some c \<longrightarrow> file_at (xe_disk ex) (exec_path ex (cu_target u)) = Doc c" using backup_Some by simp
  have "\<exists>r ex1. files_kept ex ex1 \<and> xe_history ex1 = xe_history ex \<and> finalize_execution start fin r ex1 = (ex', q) \<and> xr_snapshot r = ?b \<and> xr_target r = cu_target u"
  proof (cases "verify_update_safe u")
    case None
    then show ?thesis using assms(1,3) ns
      by (intro exI [of _ "(create_execution_result u)\<lparr>xr_status := ES_SUCCESS, xr_snapshot := ?b, xr_verification_passed := True\<rparr>"] exI [of _ ex])
        (simp add: execute_update_def execute_by_mode_def Let_def create_execution_result_def)
  next
    case (Some e)
    obtain ex1 st err where h: "handle_failure (cu_target u) ?b e ex = (ex1, st, err)" by (metis prod_cases3)
    then show ?thesis using assms(1,3) ns Some failure_kept [OF h]
      by (intro exI [of _ "(create_execution_result u)\<lparr>xr_status := st, xr_error := err, xr_snapshot := ?b, xr_verification_passed := False\<rparr>"] exI [of _ ex1])
        (simp add: execute_update_def execute_by_mode_def Let_def create_execution_result_def)
  qed
  then obtain r ex1 where r: "files_kept ex ex1" "xe_history ex1 = xe_history ex" "finalize_execution start fin r ex1 = (ex', q)" "xr_snapshot r = ?b" "xr_target r = cu_target u"
    by blast
  note f = finalize_kept [OF r(3)]
  have kept: "files_kept ex ex'" using files_kept_trans [OF r(1)] f by blast
  then show ?thesis using f r(2,4,5) b faithful_same [OF assms(2) kept] faithful_append [OF assms(2) kept] by auto
qed

lemma dry_updates_kept:
  "xe_mode ex = EM_DRY_RUN \<Longrightarrow> faithful ex \<Longrightarrow> files_kept ex (fst (execute_updates us ex)) \<and> faithful (fst (execute_updates us ex))"
proof (induction us arbitrary: ex)
  case (Cons a us)
  obtain start fin u where a: "a = (start, fin, u)" by (metis prod_cases3)
  obtain ex1 q where e: "execute_update start fin u ex = (ex1, q)" by fastforce
  note k = dry_update_kept [OF Cons.prems e]
  have m: "xe_mode ex1 = EM_DRY_RUN" using k Cons.prems(1) by (simp add: files_kept_def)
  show ?case
  proof (cases q)
    case (Inl x)
    then show ?thesis using k e by (simp add: a)
  next
    case (Inr r)
    then show ?thesis using k e Cons.IH [OF m] files_kept_trans [of ex ex1] by (auto simp: a split: prod.split sum.split)
  qed
qed simp

lemma rollback_one_kept:
  assumes "faithful ex" "i < length (xe_history ex)" "rollback_one i ex = (ex1, n)"
  shows "files_kept ex ex1 \<and> faithful ex1 \<and> length (xe_history ex1) = length (xe_history ex)"
proof (cases "ex1 = ex")
  case False
  let ?r = "xe_history ex ! i"
  let ?p = "exec_path ex (xr_target ?r)"
  obtain c dk e where c: "xr_snapshot ?r = Some c" and w: "write_file ?p (Doc c) (xe_disk ex) = (dk, e)"
    and x: "ex1 = ex\<lparr>xe_disk := dk\<rparr> \<or> e = None \<and> ex1 = ex\<lparr>xe_disk := dk, xe_history := (xe_history ex)[i := ?r\<lparr>xr_status := ES_ROLLED_BACK\<rparr>]\<rparr>"
    using assms(3) False by (auto simp: rollback_one_def Let_def split: option.splits if_splits prod.splits)
  have fr: "dk_breaks dk = dk_breaks (xe_disk ex)" "dk_logs dk = dk_logs (xe_disk ex)" using write_file_frame [OF w] by simp_all
  have f: "file_at (xe_disk ex) ?p = Doc c" if "unbroken ex"
    using assms(1,2) c that unfolding faithful_def by (meson nth_mem)
  have "same_files (xe_disk ex) dk" if "unbroken ex"
    using w f [OF that] that by (auto simp: write_file_def unbroken_def same_files_def file_at_def dget_or_def dget_dset split: if_splits)
  then have kept: "files_kept ex ex1" using x fr by (auto simp: files_kept_def only_logged_def log_lines_def)
  have h: "\<forall>r\<in>set (xe_history ex1). \<forall>c. xr_snapshot r = Some c \<longrightarrow> file_at (xe_disk ex) (exec_path ex (xr_target r)) = Doc c" if u: "unbroken ex"
    using x
  proof
    assume "ex1 = ex\<lparr>xe_disk := dk\<rparr>"
    then show ?thesis using assms(1) u by (simp add: faithful_def)
  next
    assume "e = None \<and> ex1 = ex\<lparr>xe_disk := dk, xe_history := (xe_history ex)[i := ?r\<lparr>xr_status := ES_ROLLED_BACK\<rparr>]\<rparr>"
    then show ?thesis using assms(1) f [OF u] c u by (simp, intro all_update) (simp_all add: faithful_def)
  qed
  have "faithful ex1" unfolding faithful_def
  proof (intro impI)
    assume "unbroken ex1"
    then have u: "unbroken ex" using files_kept_unbroken [OF kept] by simp
    then show "\<forall>r\<in>set (xe_history ex1). \<forall>c. xr_snapshot r = Some c \<longrightarrow> file_at (xe_disk ex1) (exec_path ex1 (xr_target r)) = Doc c"
      using h [OF u] kept by (simp add: files_kept_def only_logged_def same_files_def exec_path_def)
  qed
  then show ?thesis using kept x by auto
qed (use assms in simp)

lemma rollback_kept: "faithful ex \<Longrightarrow> files_kept ex (fst (rollback_positions ps ex)) \<and> faithful (fst (rollback_positions ps ex))" if "set ps \<subseteq> {0..<length (xe_history ex)}"
  using that
proof (induction ps arbitrary: ex)
  case (Cons i ps)
  obtain ex1 n where e: "rollback_one i ex = (ex1, n)" by fastforce
  have i: "i < length (xe_history ex)" using Cons.prems(2) by simp
  have k: "files_kept ex ex1 \<and> faithful ex1 \<and> length (xe_history ex1) = length (xe_history ex)"
    using rollback_one_kept [OF Cons.prems(1) i e] .
  have sub: "set ps \<subseteq> {0..<length (xe_history ex1)}" using Cons.prems(2) k by simp
  then show ?case using Cons.IH [of ex1] k e files_kept_trans [of ex ex1] by (auto simp: Let_def case_prod_unfold)
qed simp

lemma rollback_last_kept: "faithful ex \<Longrightarrow> files_kept ex (fst (rollback_last n ex)) \<and> faithful (fst (rollback_last n ex))"
  unfolding rollback_last_def using set_last_n [of n "[0..<length (xe_history ex)]"] by (intro rollback_kept) auto

subsection \<open>The state of the loop\<close>

definition counts_ok :: "orchestrator \<Rightarrow> bool" where
  "counts_ok s \<longleftrightarrow> 0 \<le> ls_deployed (or_stats s) \<and> 0 \<le> ls_failures (or_stats s) \<and>
     ls_deployed (or_stats s) + ls_failures (or_stats s) \<le> ls_generated (or_stats s) \<and>
     0 \<le> ls_since_training (or_stats s) \<and> ls_since_training (or_stats s) \<le> ls_consumed (or_stats s) \<and>
     distinct (or_deployed s) \<and> int (length (or_deployed s)) \<le> ls_deployed (or_stats s)"

definition dry_ok :: "orchestrator \<Rightarrow> bool" where
  "dry_ok s \<longleftrightarrow> (lc_deploy_mode (or_config s) = EM_DRY_RUN \<longrightarrow> (\<forall>ex. or_executor s = Some ex \<longrightarrow> xe_mode ex = EM_DRY_RUN \<and> faithful ex))"

definition executor_kept :: "orchestrator \<Rightarrow> orchestrator \<Rightarrow> bool" where
  "executor_kept s s' \<longleftrightarrow> (\<forall>ex. or_executor s = Some ex \<longrightarrow> (\<exists>ex'. or_executor s' = Some ex' \<and> files_kept ex ex'))"

definition dry_step :: "orchestrator \<Rightarrow> orchestrator \<Rightarrow> bool" where
  "dry_step s s' \<longleftrightarrow> lc_deploy_mode (or_config s') = lc_deploy_mode (or_config s) \<and>
     (dry_ok s \<longrightarrow> dry_ok s' \<and> (lc_deploy_mode (or_config s) = EM_DRY_RUN \<longrightarrow> executor_kept s s'))"

lemma dry_step_refl [simp]: "dry_step s s"
  by (simp add: dry_step_def executor_kept_def)

lemma dry_step_trans: "dry_step s s1 \<Longrightarrow> dry_step s1 s2 \<Longrightarrow> dry_step s s2"
  unfolding dry_step_def executor_kept_def using files_kept_trans by metis

lemma dry_step_same: "or_config s' = or_config s \<Longrightarrow> or_executor s' = or_executor s \<Longrightarrow> dry_step s s'"
  by (simp add: dry_step_def executor_kept_def dry_ok_def)

lemma dry_step_put:
  assumes "or_executor s = Some ex" "or_executor s' = Some ex'" "lc_deploy_mode (or_config s') = lc_deploy_mode (or_config s)"
    and "xe_mode ex = EM_DRY_RUN \<Longrightarrow> faithful ex \<Longrightarrow> files_kept ex ex' \<and> faithful ex'"
  shows "dry_step s s'"
  using assms by (auto simp: dry_step_def dry_ok_def executor_kept_def files_kept_def)

text \<open>Deploying up to \<open>k\<close> rules.\<close>

definition deployed_some :: "nat \<Rightarrow> orchestrator \<Rightarrow> orchestrator \<Rightarrow> bool" where
  "deployed_some k s s' \<longleftrightarrow> or_config s' = or_config s \<and> or_state s' = or_state s \<and> or_trainer s' = or_trainer s \<and>
     (or_executor s' = None) = (or_executor s = None) \<and>
     ls_generated (or_stats s') = ls_generated (or_stats s) \<and> ls_consumed (or_stats s') = ls_consumed (or_stats s) \<and>
     ls_since_training (or_stats s') = ls_since_training (or_stats s) \<and>
     ls_rounds (or_stats s') = ls_rounds (or_stats s) \<and> ls_last_training (or_stats s') = ls_last_training (or_stats s) \<and>
     ls_deployed (or_stats s) \<le> ls_deployed (or_stats s') \<and> ls_failures (or_stats s) \<le> ls_failures (or_stats s') \<and>
     ls_deployed (or_stats s') + ls_failures (or_stats s') \<le> ls_deployed (or_stats s) + ls_failures (or_stats s) + int k \<and>
     (distinct (or_deployed s) \<longrightarrow> distinct (or_deployed s')) \<and>
     int (length (or_deployed s')) - ls_deployed (or_stats s') \<le> int (length (or_deployed s)) - ls_deployed (or_stats s)"

lemma deploy_single_some:
  assumes "or_executor s = Some ex"
  shows "deployed_some 1 s (deploy_single_rule sv ex r s) \<and> dry_step s (deploy_single_rule sv ex r s)"
proof -
  let ?us = "map (\<lambda>u. (lo_now sv, lo_now sv, u)) (generate_updates_from_rule (lo_digest sv) (lo_str sv) (lo_now sv) r None)"
  obtain ex' q where e: "execute_updates ?us ex = (ex', q)" by fastforce
  have kept: "xe_mode ex = EM_DRY_RUN \<Longrightarrow> faithful ex \<Longrightarrow> files_kept ex ex' \<and> faithful ex'" using dry_updates_kept [of ex ?us] e by simp
  have ins: "length (List.insert x xs) \<le> length xs + 1" for x :: string and xs by (simp add: List.insert_def)
  let ?s' = "deploy_single_rule sv ex r s"
  have "?s' = s \<or> (deployed_some 1 s ?s' \<and> or_executor ?s' = Some ex')"
    using assms e ins [of "dr_rule_id r" "or_deployed s"]
    by (cases q) (simp_all add: deploy_single_rule_def Let_def deployed_some_def loop_error_def loop_count_def)
  then show ?thesis using dry_step_put [OF assms _ _ kept] by (auto simp: deployed_some_def)
qed

lemma deploy_rules_some: "deployed_some (length rs) s (deploy_rules sv rs s) \<and> dry_step s (deploy_rules sv rs s)"
proof (induction rs arbitrary: s)
  case (Cons r rs)
  show ?case
  proof (cases "or_executor s")
    case None
    then show ?thesis by (simp add: deployed_some_def)
  next
    case (Some ex)
    note one = deploy_single_some [OF Some, of sv r] and rest = Cons.IH [of "deploy_single_rule sv ex r s"]
    then show ?thesis using Some dry_step_trans by (auto simp: deployed_some_def)
  qed
qed (simp add: deployed_some_def)

lemma auto_deploy_ok:
  "(counts_ok s \<longrightarrow> counts_ok (auto_deploy_new_rules sv s)) \<and> dry_step s (auto_deploy_new_rules sv s) \<and>
   or_trainer (auto_deploy_new_rules sv s) = or_trainer s \<and> or_config (auto_deploy_new_rules sv s) = or_config s \<and>
   or_state (auto_deploy_new_rules sv s) = or_state s \<and>
   ls_since_training (or_stats (auto_deploy_new_rules sv s)) = ls_since_training (or_stats s) \<and>
   ls_consumed (or_stats (auto_deploy_new_rules sv s)) = ls_consumed (or_stats s) \<and>
   ls_rounds (or_stats (auto_deploy_new_rules sv s)) = ls_rounds (or_stats s) \<and>
   ls_last_training (or_stats (auto_deploy_new_rules sv s)) = ls_last_training (or_stats s)"
proof (cases "auto_deploy_new_rules sv s = s")
  case False
  then obtain t ex where t: "or_trainer s = Some t" "or_executor s = Some ex" "collect_deployable_rules t s \<noteq> []"
    by (auto simp: auto_deploy_new_rules_def Let_def split: option.splits if_splits)
  let ?s1 = "deploy_rules sv (collect_deployable_rules t s) s"
  have d: "deployed_some (length (collect_deployable_rules t s)) s ?s1" "dry_step s ?s1" using deploy_rules_some by blast+
  have s': "auto_deploy_new_rules sv s = loop_count (\<lambda>x. x\<lparr>ls_generated := ls_generated x + int (length (collect_deployable_rules t s))\<rparr>) ?s1"
    using t by (simp add: auto_deploy_new_rules_def Let_def)
  have "dry_step ?s1 (auto_deploy_new_rules sv s)" unfolding s' by (rule dry_step_same) (simp_all add: loop_count_def)
  then have "dry_step s (auto_deploy_new_rules sv s)" using d(2) dry_step_trans by blast
  then show ?thesis using d(1) unfolding s' by (auto simp: deployed_some_def counts_ok_def loop_count_def)
qed simp

text \<open>
  A training of \<open>k\<close> rounds has been run on the trainer \<open>t\<close>: the trainer is what the training left; the rounds and the time
  are recorded when it returned, and an error when it raised.
\<close>

definition training_done :: "loop_services \<Rightarrow> (nat \<Rightarrow> round_draws) \<Rightarrow> nat \<Rightarrow> trainer \<Rightarrow> orchestrator \<Rightarrow> orchestrator \<Rightarrow> bool" where
  "training_done sv ws k t s s' \<longleftrightarrow> or_trainer s' = Some (fst (run_training ws (Some k) t)) \<and>
     (case snd (run_training ws (Some k) t) of
        Inl e \<Rightarrow> ls_rounds (or_stats s') = ls_rounds (or_stats s) \<and> ls_errors (or_stats s') = ls_errors (or_stats s) + 1
      | Inr st \<Rightarrow> ls_rounds (or_stats s') = ls_rounds (or_stats s) + int k \<and> ls_last_training (or_stats s') = lo_now sv)"

text \<open>A triggered training, when it happens at all.\<close>

lemma trigger_training_ok:
  assumes "\<forall>t. or_trainer s = Some t \<longrightarrow> untouched t" "counts_ok s"
  shows "counts_ok (trigger_training sv ws urgent s) \<and> (\<forall>t. or_trainer (trigger_training sv ws urgent s) = Some t \<longrightarrow> untouched t) \<and>
    dry_step s (trigger_training sv ws urgent s) \<and> or_config (trigger_training sv ws urgent s) = or_config s \<and>
    or_state (trigger_training sv ws urgent s) = or_state s \<and> (or_trainer (trigger_training sv ws urgent s) = None) = (or_trainer s = None) \<and>
    ls_consumed (or_stats (trigger_training sv ws urgent s)) = ls_consumed (or_stats s) \<and>
    (or_trainer s \<noteq> None \<and> or_state s = LS_Running \<longrightarrow> ls_since_training (or_stats (trigger_training sv ws urgent s)) = 0) \<and>
    (\<forall>t. or_trainer s = Some t \<and> or_state s = LS_Running \<and> (ls_since_training (or_stats s) \<noteq> 0 \<or> urgent) \<longrightarrow>
       training_done sv ws (if urgent then min 10 (lc_rounds (or_config s)) else lc_rounds (or_config s)) t s (trigger_training sv ws urgent s))"
proof (cases "\<exists>t. or_trainer s = Some t \<and> or_state s = LS_Running \<and> (ls_since_training (or_stats s) \<noteq> 0 \<or> urgent)")
  case False
  then show ?thesis using assms by (auto simp: trigger_training_def split: option.split)
next
  case True
  then obtain t where t: "or_trainer s = Some t" "or_state s = LS_Running" "ls_since_training (or_stats s) \<noteq> 0 \<or> urgent" by blast
  define rounds where "rounds = (if urgent then min 10 (lc_rounds (or_config s)) else lc_rounds (or_config s))"
  obtain t' q where q: "run_training ws (Some rounds) t = (t', q)" by fastforce
  have u: "untouched t'" using training_untouched [of t ws "Some rounds"] assms(1) t(1) q by simp
  define s1 where "s1 = (loop_count (\<lambda>x. x\<lparr>ls_since_training := 0\<rparr>) s)\<lparr>or_trainer := Some t'\<rparr>"
  define s2 where "s2 = loop_count (\<lambda>x. x\<lparr>ls_rounds := ls_rounds x + int rounds, ls_last_training := lo_now sv\<rparr>) s1"
  have tr: "trigger_training sv ws urgent s = (case q of Inl e \<Rightarrow> loop_error s1 | Inr st \<Rightarrow> if lc_auto_deploy (or_config s) then auto_deploy_new_rules sv s2 else s2)"
    using t q by (cases q) (auto simp: trigger_training_def Let_def rounds_def [symmetric] s1_def s2_def)
  have s12: "counts_ok s1" "counts_ok s2" "counts_ok (loop_error s1)" "dry_step s s1" "dry_step s s2" "dry_step s (loop_error s1)"
    using assms(2) by (simp_all add: s1_def s2_def loop_count_def loop_error_def counts_ok_def dry_step_same)
  note a = auto_deploy_ok [of s2 sv]
  define P where "P x \<longleftrightarrow> counts_ok x \<and> or_trainer x = Some t' \<and> dry_step s x \<and> or_config x = or_config s \<and> or_state x = or_state s \<and>
    ls_consumed (or_stats x) = ls_consumed (or_stats s) \<and> ls_since_training (or_stats x) = 0 \<and> training_done sv ws rounds t s x" for x
  have "P (trigger_training sv ws urgent s)"
  proof (cases q)
    case (Inl e)
    have "training_done sv ws rounds t s (loop_error s1)" using q Inl
      by (simp add: training_done_def s1_def loop_count_def loop_error_def)
    then show ?thesis unfolding P_def tr using Inl s12(3,6) by (simp add: s1_def loop_count_def loop_error_def)
  next
    case (Inr st)
    have "training_done sv ws rounds t s s2" using q Inr
      by (simp add: training_done_def s1_def s2_def loop_count_def)
    then have p2: "P s2" unfolding P_def using s12(2,5) by (simp add: s1_def s2_def loop_count_def)
    moreover have "P (auto_deploy_new_rules sv s2)"
      using p2 a dry_step_trans [of s s2] q Inr unfolding P_def training_done_def by simp
    ultimately show ?thesis unfolding tr using Inr by simp
  qed
  then show ?thesis using u t(1) unfolding P_def rounds_def by simp
qed

definition orchestrator_ok :: "orchestrator \<Rightarrow> bool" where
  "orchestrator_ok s \<longleftrightarrow> counts_ok s \<and> dry_ok s \<and> (\<forall>t. or_trainer s = Some t \<longrightarrow> untouched t)"

datatype loop_op =
    LO_Start time string disk "exc option"
  | LO_Stop
  | LO_Event loop_services "nat \<Rightarrow> round_draws"
  | LO_Escape loop_services "nat \<Rightarrow> round_draws"
  | LO_Tick loop_services "nat \<Rightarrow> round_draws"
  | LO_Manual loop_services "nat \<Rightarrow> round_draws" "nat option"
  | LO_Rollback nat

fun loop_step :: "loop_op \<Rightarrow> orchestrator \<Rightarrow> orchestrator" where
  "loop_step (LO_Start now dir dk setup) s = fst (start_loop now dir dk setup s)"
| "loop_step LO_Stop s = stop_loop s"
| "loop_step (LO_Event sv ws) s = on_log_event sv ws s"
| "loop_step (LO_Escape sv ws) s = on_escape_event sv ws s"
| "loop_step (LO_Tick sv ws) s = timer_tick sv ws s"
| "loop_step (LO_Manual sv ws k) s = trigger_manual_training sv ws k s"
| "loop_step (LO_Rollback k) s = fst (rollback_last_deployments k s)"

definition loop_fresh :: "orchestrator \<Rightarrow> bool" where
  "loop_fresh s \<longleftrightarrow> (\<exists>cfg. s = init_orchestrator cfg)"

lemma start_ok: "orchestrator_ok s \<Longrightarrow> orchestrator_ok (fst (start_loop now dir dk su s))"
proof -
  assume ok: "orchestrator_ok s"
  have new: "untouched (init_trainer (init_red now a) (init_blue now b) 100 True (2 / 10) True None False)" for a b
    by (simp add: untouched_def init_trainer_def init_red_def base_cases_def new_case_def own_case_def)
  have "faithful (init_executor dir m True True c dk) \<and> xe_mode (init_executor dir m True True c dk) = m" for m c
    by (simp add: faithful_def init_executor_def)
  then show ?thesis using ok new
    by (cases su) (auto simp: start_loop_def initialize_components_def Let_def orchestrator_ok_def counts_ok_def dry_ok_def loop_error_def loop_count_def)
qed

text \<open>Every operation but a start keeps the files in dry-run mode.\<close>

lemma step_ok:
  assumes "orchestrator_ok s" "\<forall>now dir dk setup. op \<noteq> LO_Start now dir dk setup"
  shows "orchestrator_ok (loop_step op s) \<and> dry_step s (loop_step op s)"
proof -
  have tr: "orchestrator_ok (trigger_training sv ws urgent x) \<and> dry_step x (trigger_training sv ws urgent x)" if "orchestrator_ok x" for sv ws urgent x
  proof -
    have r: "\<forall>t. or_trainer x = Some t \<longrightarrow> untouched t" "counts_ok x" "dry_ok x" using that by (simp_all add: orchestrator_ok_def)
    note a = trigger_training_ok [OF r(1,2), of sv ws urgent]
    then have d: "dry_step x (trigger_training sv ws urgent x)" by blast
    then have "dry_ok (trigger_training sv ws urgent x)" using r(3) by (simp add: dry_step_def)
    then show ?thesis using a d by (simp add: orchestrator_ok_def)
  qed
  show ?thesis
  proof (cases op)
    case LO_Stop
    have "dry_step s (stop_loop s)" by (rule dry_step_same) (simp_all add: stop_loop_def)
    then show ?thesis using assms(1) LO_Stop by (simp add: stop_loop_def orchestrator_ok_def counts_ok_def dry_ok_def)
  next
    case (LO_Event sv ws)
    define s1 where "s1 = loop_count (\<lambda>x. x\<lparr>ls_consumed := ls_consumed x + 1, ls_since_training := ls_since_training x + 1\<rparr>) s"
    have s1: "orchestrator_ok s1" "dry_step s s1" using assms(1)
      by (auto simp: s1_def orchestrator_ok_def counts_ok_def dry_ok_def loop_count_def intro: dry_step_same)
    then show ?thesis using LO_Event tr [OF s1(1), of sv ws False] dry_step_trans [OF s1(2)]
      by (simp add: on_log_event_def Let_def s1_def [symmetric])
  next
    case (LO_Manual sv ws k)
    show ?thesis
    proof (cases "k = None \<or> k = Some 0")
      case True
      then show ?thesis using tr [OF assms(1)] LO_Manual by (auto simp: trigger_manual_training_def)
    next
      case False
      then obtain n where n: "k = Some n" "n \<noteq> 0" by (cases k) auto
      define s1 where "s1 = s\<lparr>or_config := (or_config s)\<lparr>lc_rounds := n\<rparr>\<rparr>"
      define s2 where "s2 = trigger_training sv ws True s1"
      have s1: "orchestrator_ok s1" "dry_step s s1" using assms(1)
        by (auto simp: s1_def orchestrator_ok_def counts_ok_def dry_ok_def dry_step_def executor_kept_def)
      have s2: "orchestrator_ok s2" "dry_step s s2" using tr [OF s1(1)] dry_step_trans [OF s1(2)] by (auto simp: s2_def)
      have "loop_step op s = s2\<lparr>or_config := (or_config s2)\<lparr>lc_rounds := lc_rounds (or_config s)\<rparr>\<rparr>"
        using LO_Manual n by (simp add: trigger_manual_training_def Let_def s1_def [symmetric] s2_def [symmetric])
      then show ?thesis using s2 by (simp add: orchestrator_ok_def counts_ok_def dry_ok_def dry_step_def executor_kept_def)
    qed
  next
    case (LO_Rollback k)
    show ?thesis
    proof (cases "or_executor s")
      case (Some ex)
      have st: "loop_step op s = loop_count (\<lambda>x. x\<lparr>ls_rollbacks := ls_rollbacks x + snd (rollback_last k ex)\<rparr>) (s\<lparr>or_executor := Some (fst (rollback_last k ex))\<rparr>)"
        using LO_Rollback Some by (simp add: rollback_last_deployments_def case_prod_unfold Let_def)
      have "dry_step s (loop_step op s)" unfolding st using rollback_last_kept
        by (intro dry_step_put [OF Some]) (simp_all add: loop_count_def)
      moreover have "counts_ok (loop_step op s)" "or_trainer (loop_step op s) = or_trainer s"
        unfolding st using assms(1) by (simp_all add: orchestrator_ok_def counts_ok_def loop_count_def)
      ultimately show ?thesis using assms(1) by (simp add: orchestrator_ok_def dry_step_def)
    qed (use assms(1) LO_Rollback in \<open>simp add: rollback_last_deployments_def\<close>)
  qed (use assms tr [OF assms(1)] in \<open>auto simp: on_escape_event_def timer_tick_def\<close>)
qed

interpretation loop: machine loop_fresh loop_step orchestrator_ok
proof unfold_locales
  fix s assume "loop_fresh s"
  then show "orchestrator_ok s" by (auto simp: loop_fresh_def init_orchestrator_def orchestrator_ok_def counts_ok_def dry_ok_def)
next
  fix s op assume ok: "orchestrator_ok s"
  show "orchestrator_ok (loop_step op s)"
  proof (cases "\<exists>now dir dk setup. op = LO_Start now dir dk setup")
    case True
    then show ?thesis using start_ok [OF ok] by auto
  qed (use step_ok [OF ok] in blast)
qed

fun is_start :: "loop_op \<Rightarrow> bool" where
  "is_start (LO_Start now dir dk setup) = True"
| "is_start op = False"

lemma run_ok:
  "orchestrator_ok s \<Longrightarrow> \<forall>op\<in>set ops. \<not> is_start op \<Longrightarrow> orchestrator_ok (fold loop_step ops s) \<and> dry_step s (fold loop_step ops s)"
proof (induction ops arbitrary: s)
  case (Cons op ops)
  have "\<forall>now dir dk setup. op \<noteq> LO_Start now dir dk setup" using Cons.prems(2) by auto
  note one = step_ok [OF Cons.prems(1) this]
  then have "orchestrator_ok (fold loop_step ops (loop_step op s)) \<and> dry_step (loop_step op s) (fold loop_step ops (loop_step op s))"
    using Cons.IH Cons.prems(2) by simp
  then show ?case using one dry_step_trans [of s "loop_step op s"] by simp
qed simp

text \<open>
  C38. However many events and escapes the loop has seen, its trainer has seen none: it holds no event, counts no
  signal, and its red agent has no attack case made from an event.
\<close>

theorem events_never_reach_training:
  assumes "reachable loop_fresh loop_step s" "or_trainer s = Some t"
  shows "tr_events t = [] \<and> tr_signals t = 0 \<and> tr_high_signals t = 0 \<and> filter (\<lambda>c. take 5 (ak_case_id c) = ''real_'') (ra_cases (tr_red t)) = []"
proof -
  have u: "untouched t" using loop.inv_reachable [OF assms(1)] assms(2) by (simp add: orchestrator_ok_def)
  then have "take 5 (ak_case_id c) \<noteq> ''real_''" if "c \<in> set (ra_cases (tr_red t))" for c
    using that by (auto simp: untouched_def own_case_def)
  then show ?thesis using u by (auto simp: untouched_def filter_empty_conv)
qed

text \<open>
  C39. A loop that deploys in dry-run mode, on a disk on which no write breaks off, changes no configuration file:
  whatever events, escapes, ticks, manual trainings, rollbacks and stops follow, every path holds the document it held. The one thing
  it changes on the disk is the log of the executor, which grows by exactly one line per update executed (the entries of
  \<open>xe_audit\<close>); every other log is unchanged. (A rollback writes the file again with what it holds, which would cut it if that
  write broke off.)
\<close>

theorem dry_run_loop_only_logs:
  assumes "reachable loop_fresh loop_step s" "lc_deploy_mode (or_config s) = EM_DRY_RUN" "or_executor s = Some ex"
    and "\<forall>n. \<not> dk_breaks (xe_disk ex) n" "\<forall>op\<in>set ops. \<not> is_start op"
  shows "\<exists>ex' xs. or_executor (fold loop_step ops s) = Some ex' \<and> (\<forall>p. file_at (xe_disk ex') p = file_at (xe_disk ex) p) \<and>
    (\<forall>p. p \<noteq> audit_path (xe_config_dir ex) \<longrightarrow> dget (dk_logs (xe_disk ex')) p = dget (dk_logs (xe_disk ex)) p) \<and>
    xe_audit ex' = xe_audit ex @ xs \<and> log_lines ex' = log_lines ex + length xs"
proof -
  have ok: "orchestrator_ok s" by (rule loop.inv_reachable [OF assms(1)])
  have "dry_step s (fold loop_step ops s)" using run_ok [OF ok assms(5)] by blast
  moreover have "dry_ok s" using ok by (simp add: orchestrator_ok_def)
  ultimately have "executor_kept s (fold loop_step ops s)" using assms(2) by (simp add: dry_step_def)
  then obtain ex' where "or_executor (fold loop_step ops s) = Some ex'" "files_kept ex ex'"
    using assms(3) by (auto simp: executor_kept_def)
  then show ?thesis using assms(4) by (auto simp: files_kept_def only_logged_def same_files_def unbroken_def)
qed

text \<open>
  The statistics of the loop agree: deployments and failures together are at most the rules collected, the rules
  marked as deployed are distinct and at most the deployments counted, and the events since the last training are at most
  the events consumed.
\<close>

theorem loop_statistics_agree:
  assumes "reachable loop_fresh loop_step s"
  shows "ls_deployed (or_stats s) + ls_failures (or_stats s) \<le> ls_generated (or_stats s) \<and> distinct (or_deployed s) \<and>
    int (lr_deployed_rules (loop_get_stats now s)) \<le> ls_deployed (or_stats s) \<and>
    0 \<le> ls_since_training (or_stats s) \<and> ls_since_training (or_stats s) \<le> ls_consumed (or_stats s)"
  using loop.inv_reachable [OF assms] by (simp add: orchestrator_ok_def counts_ok_def loop_get_stats_def)

text \<open>
  C40. A running loop that is driven by events trains after every \<open>events_per_round\<close> of them: the event that completes
  the number runs a training of \<open>lc_rounds\<close> rounds on the trainer and sets the count back to 0; the rounds are added when the
  training returns, and an error is counted when it raises. Every other event adds 1 and leaves the trainer alone.
\<close>

theorem trains_every_n_events:
  assumes "reachable loop_fresh loop_step s" "or_state s = LS_Running" "or_trainer s = Some t"
    "lc_trigger (or_config s) \<in> {TM_Event_Driven, TM_Hybrid}"
  shows "ls_consumed (or_stats (on_log_event sv ws s)) = ls_consumed (or_stats s) + 1 \<and>
    (if ls_since_training (or_stats s) + 1 < lc_events_per_round (or_config s)
     then ls_since_training (or_stats (on_log_event sv ws s)) = ls_since_training (or_stats s) + 1 \<and> or_trainer (on_log_event sv ws s) = Some t
     else ls_since_training (or_stats (on_log_event sv ws s)) = 0 \<and>
       or_trainer (on_log_event sv ws s) = Some (fst (run_training ws (Some (lc_rounds (or_config s))) t)) \<and>
       (case snd (run_training ws (Some (lc_rounds (or_config s))) t) of
          Inl e \<Rightarrow> ls_rounds (or_stats (on_log_event sv ws s)) = ls_rounds (or_stats s) \<and>
            ls_errors (or_stats (on_log_event sv ws s)) = ls_errors (or_stats s) + 1
        | Inr st \<Rightarrow> ls_rounds (or_stats (on_log_event sv ws s)) = ls_rounds (or_stats s) + int (lc_rounds (or_config s)) \<and>
            ls_last_training (or_stats (on_log_event sv ws s)) = lo_now sv))"
proof -
  define s1 where "s1 = loop_count (\<lambda>x. x\<lparr>ls_consumed := ls_consumed x + 1, ls_since_training := ls_since_training x + 1\<rparr>) s"
  have ok: "orchestrator_ok s" by (rule loop.inv_reachable [OF assms(1)])
  have s1: "counts_ok s1" "\<forall>t. or_trainer s1 = Some t \<longrightarrow> untouched t" "or_trainer s1 = Some t" "or_state s1 = LS_Running" "or_config s1 = or_config s"
    "ls_consumed (or_stats s1) = ls_consumed (or_stats s) + 1" "ls_since_training (or_stats s1) = ls_since_training (or_stats s) + 1"
    "ls_since_training (or_stats s1) \<noteq> 0" "ls_rounds (or_stats s1) = ls_rounds (or_stats s)" "ls_errors (or_stats s1) = ls_errors (or_stats s)"
    using ok assms(2,3) by (simp_all add: s1_def orchestrator_ok_def counts_ok_def loop_count_def)
  have e: "on_log_event sv ws s = (if lc_events_per_round (or_config s) \<le> ls_since_training (or_stats s1) then trigger_training sv ws False s1 else s1)"
    using assms(4) by (auto simp: on_log_event_def Let_def s1_def [symmetric])
  show ?thesis unfolding e using trigger_training_ok [OF s1(2,1), of sv ws False] s1(3-10) by (auto simp: training_done_def split: sum.splits)
qed

subsection \<open>Concrete runs\<close>

definition demo_loop_services :: loop_services where
  "demo_loop_services = \<lparr>lo_digest = (\<lambda>r t. ''d''), lo_str = (\<lambda>j. ''''), lo_now = 7\<rparr>"

definition demo_loop_start :: orchestrator where
  "demo_loop_start = loop_step (LO_Start 1 ''/c'' (new_disk [] True) None) (init_orchestrator default_config)"

definition demo_loop_run :: orchestrator where
  "demo_loop_run = fold loop_step [LO_Event demo_loop_services (\<lambda>i. quiet_draws), LO_Escape demo_loop_services (\<lambda>i. quiet_draws)] demo_loop_start"

lemma demo_start_reachable: "reachable loop_fresh loop_step demo_loop_start"
  unfolding demo_loop_start_def by (intro reach_step reach_init) (auto simp: loop_fresh_def)

lemma demo_run_reachable: "reachable loop_fresh loop_step demo_loop_run"
  unfolding demo_loop_run_def by (rule reachable_run [OF demo_start_reachable])

lemma demo_start_facts:
  "or_state demo_loop_start = LS_Running" "or_config demo_loop_start = default_config" "or_stats demo_loop_start = or_stats (init_orchestrator default_config)"
  "or_executor demo_loop_start = Some (init_executor ''/c'' EM_DRY_RUN True True True (new_disk [] True))" "or_trainer demo_loop_start \<noteq> None"
  by (simp_all add: demo_loop_start_def start_loop_def init_orchestrator_def initialize_components_def Let_def default_config_def)

lemma demo_loop_facts:
  "or_trainer demo_loop_run \<noteq> None" "ls_consumed (or_stats demo_loop_run) = 1" "ls_since_training (or_stats demo_loop_run) = 0"
proof -
  define s1 where "s1 = on_log_event demo_loop_services (\<lambda>i. quiet_draws) demo_loop_start"
  have s1: "s1 = loop_count (\<lambda>x. x\<lparr>ls_consumed := ls_consumed x + 1, ls_since_training := ls_since_training x + 1\<rparr>) demo_loop_start"
    using demo_start_facts(2,3) by (simp add: s1_def on_log_event_def Let_def loop_count_def default_config_def init_orchestrator_def)
  have f: "or_state s1 = LS_Running" "or_trainer s1 \<noteq> None" "ls_consumed (or_stats s1) = 1"
    using demo_start_facts by (simp_all add: s1 loop_count_def init_orchestrator_def)
  have "reachable loop_fresh loop_step s1"
    using reach_step [OF demo_start_reachable, of "LO_Event demo_loop_services (\<lambda>i. quiet_draws)"] by (simp add: s1_def)
  then have ok: "orchestrator_ok s1" by (rule loop.inv_reachable)
  have u: "\<forall>t. or_trainer s1 = Some t \<longrightarrow> untouched t" "counts_ok s1" using ok by (simp_all add: orchestrator_ok_def)
  have r: "demo_loop_run = trigger_training demo_loop_services (\<lambda>i. quiet_draws) True s1"
    by (simp add: demo_loop_run_def s1_def on_escape_event_def)
  note a = trigger_training_ok [OF u, of demo_loop_services "\<lambda>i. quiet_draws" True]
  then show "or_trainer demo_loop_run \<noteq> None" "ls_consumed (or_stats demo_loop_run) = 1" "ls_since_training (or_stats demo_loop_run) = 0"
    using f unfolding r by simp_all
qed

theorem events_never_reach_training_witness:
  "ls_consumed (or_stats demo_loop_run) = 1 \<and> (\<exists>t. or_trainer demo_loop_run = Some t \<and> tr_events t = [] \<and> tr_signals t = 0)"
proof -
  obtain t where t: "or_trainer demo_loop_run = Some t" using demo_loop_facts(1) by blast
  show ?thesis using events_never_reach_training [OF demo_run_reachable t] t demo_loop_facts(2) by simp
qed

theorem dry_run_loop_only_logs_witness:
  "\<exists>ex'. or_executor (fold loop_step [LO_Escape demo_loop_services (\<lambda>i. quiet_draws), LO_Rollback 3, LO_Stop] demo_loop_start) = Some ex' \<and>
     (\<forall>p. file_at (xe_disk ex') p = file_at (new_disk [] True) p) \<and> log_lines ex' = length (xe_audit ex')"
  using dry_run_loop_only_logs [OF demo_start_reachable, of _ "[LO_Escape demo_loop_services (\<lambda>i. quiet_draws), LO_Rollback 3, LO_Stop]"] demo_start_facts(2,4)
  by (fastforce simp: default_config_def init_executor_def log_lines_def dget_or_def)

theorem loop_statistics_agree_witness:
  "0 \<le> ls_since_training (or_stats demo_loop_run) \<and> ls_since_training (or_stats demo_loop_run) \<le> 1 \<and> distinct (or_deployed demo_loop_run)"
  using loop_statistics_agree [OF demo_run_reachable] demo_loop_facts by simp

definition eager_loop :: orchestrator where
  "eager_loop = loop_step (LO_Start 1 ''/c'' (new_disk [] True) None) (init_orchestrator (default_config\<lparr>lc_events_per_round := 1\<rparr>))"

lemma eager_loop_facts:
  "reachable loop_fresh loop_step eager_loop" "or_state eager_loop = LS_Running" "or_trainer eager_loop \<noteq> None"
  "or_config eager_loop = default_config\<lparr>lc_events_per_round := 1\<rparr>" "ls_since_training (or_stats eager_loop) = 0"
proof -
  show "reachable loop_fresh loop_step eager_loop"
    unfolding eager_loop_def by (intro reach_step reach_init) (auto simp: loop_fresh_def)
qed (simp_all add: eager_loop_def start_loop_def init_orchestrator_def initialize_components_def Let_def)

text \<open>With one event per round the first event trains.\<close>

theorem trains_every_n_events_witness:
  "\<exists>t. or_trainer eager_loop = Some t \<and> ls_since_training (or_stats (on_log_event demo_loop_services (\<lambda>i. quiet_draws) eager_loop)) = 0 \<and>
     or_trainer (on_log_event demo_loop_services (\<lambda>i. quiet_draws) eager_loop) = Some (fst (run_training (\<lambda>i. quiet_draws) (Some 20) t))"
proof -
  obtain t where t: "or_trainer eager_loop = Some t" using eager_loop_facts(3) by blast
  show ?thesis
    using trains_every_n_events [OF eager_loop_facts(1,2) t, of demo_loop_services "\<lambda>i. quiet_draws"] eager_loop_facts(4,5) t
    by (simp add: default_config_def)
qed

end
