(* ===== verification/Spec2Isabelle.thy ===== *)
theory Spec2Isabelle
  imports Rule_Store Event_Validator Circuit_Breaker Gang_Scheduler Session_Manager Config_Enforcer Defense_Executor
    Ticket_System Playbook_Engine Policy_Guard Real_Data_Adapter Event_Pipeline Isolation_Gateway M2_Gateway Leader_Teammate
    Genetic_Core Genetic_Loop Evolution_Bridge Adversary_Agents Adversary_Trainer Signal_Consumer Adversary_Loop
begin

text \<open>
  A model of the Python part of PhotonBox, a sandbox for untrusted code. The sandbox itself is C++ and
  kernel code; the Python decides what enters it, watches what leaves it, and adapts its defences. Modelled here are
  the components that carry these decisions, one theory per module of the source, all on top of
  \<open>Photon_Prelude\<close> (dictionaries, JSON values, list idioms, decimal rendering, the locales of dictionaries and of state
  machines) and \<open>Regex_Search\<close> (the part of Python's regular expressions that the modules use).

  \<^bold>\<open>What enters.\<close>
  \<open>Policy_Guard\<close> (\<open>evolution/policy_guard.py\<close>) is the check of every tool call: injection patterns, audit rules, layers
  of policies, decision. \<open>M2_Gateway\<close> (\<open>evolution/m2_gateway.py\<close>) scores code before it is run. \<open>Gang_Scheduler\<close>
  (\<open>evolution/gang_scheduler.py\<close>) places a batch of sandboxes on NUMA nodes. \<open>Session_Manager\<close>
  (\<open>evolution/session_state_manager.py\<close>) keeps the tenants' sessions, their snapshots and the audit of their chain.
  \<open>Isolation_Gateway\<close> (\<open>server/gateway/isolation_gateway.py\<close>) is the proxy of all traffic: packet filter, tokens, DNS,
  rate limits, audit file.

  \<^bold>\<open>What is watched.\<close>
  \<open>Real_Data_Adapter\<close> (\<open>evolution/real_data_adapter.py\<close>) turns seccomp, KVM and log records into security events;
  \<open>Event_Validator\<close> (\<open>evolution/event_input_validator.py\<close>) decides which events are believed; \<open>Event_Pipeline\<close>
  (\<open>evolution/secure_event_pipeline.py\<close>) joins validator, adapter, breaker and rule store: an event that is accepted is
  adapted, may trip the breaker of the node (\<open>Circuit_Breaker\<close>, \<open>evolution/security_circuit_breaker.py\<close>), and counts for
  or against the rules in force (\<open>Rule_Store\<close>, \<open>evolution/defense_rule_persistence.py\<close>).

  \<^bold>\<open>What follows.\<close>
  \<open>Config_Enforcer\<close> (\<open>evolution/defense_enforcer.py\<close>) makes configuration updates from rules, \<open>Defense_Executor\<close>
  (\<open>evolution/defense_executor.py\<close>) applies them to files behind a gate, \<open>Playbook_Engine\<close> and \<open>Ticket_System\<close>
  (\<open>ops/playbook_engine.py\<close>, \<open>ops/ticket_system.py\<close>) run the responses people approve and follow.

  \<^bold>\<open>How it adapts.\<close>
  \<open>Signal_Consumer\<close> (\<open>evolution/real_signal_consumer.py\<close>) makes escape events from log lines, each once, and hands them to
  the trainer: \<open>Adversary_Agents\<close> and \<open>Adversary_Trainer\<close> (\<open>evolution/red_blue_adversary.py\<close>) let a red and a blue
  agent play rounds, learn cases and rules from events, and deploy rules through \<open>Evolution_Bridge\<close>
  (\<open>evolution/evolution_defense_bridge.py\<close>), which turns them into updates of \<open>Config_Enforcer\<close>, counts their triggers, breaks
  the circuit of bad ones and feeds the counts back. \<open>Adversary_Loop\<close> (\<open>evolution/adversary_loop_orchestrator.py\<close>) is the
  loop around trainer and \<open>Defense_Executor\<close>.
  \<open>Leader_Teammate\<close> (\<open>evolution/leader_teammate.py\<close>) splits work among agents. \<open>Genetic_Core\<close> and \<open>Genetic_Loop\<close>
  (\<open>individual.py\<close>, \<open>selector.py\<close>, \<open>archive.py\<close>, \<open>population.py\<close>, \<open>mutator.py\<close>, \<open>crossover.py\<close>, \<open>ga_loop.py\<close>,
  \<open>island_ga.py\<close> of \<open>evolution/\<close>) are the search for better skills.

  \<^bold>\<open>Correspondence.\<close> A class is a record of its fields, an enumeration a datatype, a method a function from the
  arguments and the state to the new state and the result, under the name of the method where it is free. Exceptions
  are values of \<open>exc\<close> on the left of a sum, and a method that fails half-way returns the state it leaves behind. Python
  dictionaries are association lists in the order of insertion, \<open>deque(maxlen=n)\<close> and the lists cut after an append are
  \<open>push_last\<close>, \<open>max\<close> with a key is \<open>first_best\<close>, the stable descending sort is \<open>sort_desc\<close>. Packets and DNS messages
  are lists of bytes, addresses and masks words of their width. Loops are structural recursion or recursion with a
  measure; no definition uses fuel, so every one of them returns, with an error as a value where the code raises.

  \<^bold>\<open>What the lemmas show.\<close> Each theory has an invariant of its state, shown of every reachable state through the locale
  \<open>machine\<close>, which is interpreted on the component's own operations; then what its operations return on every branch,
  and the properties numbered C1, C2, ..., which hold of all inputs or of all reachable states. Refinement: the tickets
  implement an abstract life cycle. Equivalence: the audit of the chain accepts exactly the chains that were written,
  the guard's decision and the gateway's verdict equal short specifications, the playbook's loop equals its outcome on
  the list of its actions. Round trips: sessions, rules, duplicates and archives survive a restart, names survive the
  wire format. Compositions: a log file becomes exactly the trainer's history of its events, watching a growing file hands on its events, each once, a severe event
  becomes a rule and, where the settings say so, changes of the configuration on disk, and a loop in dry-run mode changes no
  configuration, only its log, as long as no write breaks off. Bounds: events of a source in a window, bytes through a token bucket, connections of a tenant.
  Termination and progress: the chain of parents of a session is followed to its end, a neglected ticket is found
  overdue, a genetic search returns and never loses its best. Some properties state what goes wrong: the events the
  pipeline forgets to audit, the connections beyond the limit when a count is read before it is increased, the islands
  that never improve, the training that never learns from a defeat, the loop whose trainer sees none of the
  events, and the one bad line that costs the lines after it.

  \<^bold>\<open>Abstractions.\<close> Times, scores and numbers in documents are exact rationals, where the code has floating point: NaN and the
  infinities, which \<open>json.loads\<close> lets in, are outside the model. One call reads the clock once. A write to a configuration
  cuts the file first and may break off, at any write the disk chooses (\<open>dk_breaks\<close>); the logs on the disk are counted lines. Characters are code points below 256, letter case is that of ASCII, texts the code has in Chinese are given in
  English. Values are copied: aliasing is written out where the code depends on it (the heap of events in
  \<open>Real_Data_Adapter\<close>, the nested dictionaries of \<open>Defense_Executor\<close>). Methods that hold a lock are single steps;
  the gateway, whose checks and updates are apart, is modelled with these steps apart, so that two connections can
  interleave. Digests, fresh identifiers, the order of sets, random draws, \<open>str\<close> and \<open>json.dumps\<close> of values, users'
  regular expressions, the language model and the evaluator of individuals are arguments of the functions that use
  them; what is needed of them (that two digests are equal only for equal texts, say) is a premise of the theorem.

  \<^bold>\<open>Not modelled.\<close> Printing, logging and statistics for display; files as byte strings (a file is its parsed content,
  or missing, or corrupt); threads, sockets and HTTP; the modules whose work is floating-point numerics or text
  retrieval (\<open>quantum_inspired_*.py\<close>, \<open>post_quantum_crypto.py\<close>, the knowledge bases and retrieval engines), prompts and
  calls of language models, the service and operator glue, and everything that is not Python. Of the trainer, training on
  events as they arrive in another thread, and the generation of cases and rules by retrieval; of the consumer, the thread
  around its rounds and the monitor of drifts. The optimizer of strategies, the swarm, the memory engine, and
  the experiments over the genetic search are left out.
\<close>

end
